(* ===== verification/Prelude.thy ===== *)
theory Prelude
  imports Main "HOL-Library.Word" "HOL-Library.List_Lexorder"
begin

text \<open>
  The vocabulary every component of NAS-tools shares.

  \<^item> Rust's \<open>u8\<close>, \<open>u32\<close>, \<open>u64\<close> are words of that width, a slice or \<open>Vec<u8>\<close> is a list of
    bytes, a \<open>usize\<close> is a \<open>nat\<close> (with the 64-bit bound written out where the code checks it).
  \<^item> \<open>Result<T, E>\<close> is the sum \<open>E + T\<close>; \<open>Err\<close> and \<open>Ok\<close> are its injections, the \<open>?\<close> operator is
    \<open>rbind\<close>, \<open>map_err\<close> is \<open>map_err\<close>, and collecting an iterator of results is \<open>traverse\<close>.
  \<^item> \<open>to_le_bytes\<close>/\<open>from_le_bytes\<close>, \<open>saturating_add\<close>/\<open>saturating_sub\<close>, \<open>checked_add\<close>, UTF-8
    validation, \<open>chunks_exact\<close> and \<open>windows(2)\<close> model the standard library the sources use.

  The collection \<open>result_elims\<close> holds the facts that take a successful \<open>Result\<close> computation
  apart; \<open>le_codec\<close> the facts on little-endian encodings.
\<close>

named_theorems result_elims
named_theorems le_codec

type_synonym u8 = "8 word"
type_synonym u16 = "16 word"
type_synonym u32 = "32 word"
type_synonym u64 = "64 word"
type_synonym usize = nat
type_synonym bytes = "8 word list"

section \<open>Results\<close>

abbreviation Ok :: "'a \<Rightarrow> 'e + 'a" where
  "Ok \<equiv> Inr"

abbreviation Err :: "'e \<Rightarrow> 'e + 'a" where
  "Err \<equiv> Inl"

definition rbind :: "'e + 'a \<Rightarrow> ('a \<Rightarrow> 'e + 'b) \<Rightarrow> 'e + 'b" where
  "rbind m f = (case m of Inl e \<Rightarrow> Inl e | Inr x \<Rightarrow> f x)"

definition map_err :: "('e \<Rightarrow> 'f) \<Rightarrow> 'e + 'a \<Rightarrow> 'f + 'a" where
  "map_err g m = (case m of Inl e \<Rightarrow> Inl (g e) | Inr x \<Rightarrow> Inr x)"

definition require :: "bool \<Rightarrow> 'e \<Rightarrow> 'e + unit" where
  "require c e = (if c then Ok () else Err e)"

definition ok_or :: "'a option \<Rightarrow> 'e \<Rightarrow> 'e + 'a" where
  "ok_or m e = (case m of None \<Rightarrow> Err e | Some x \<Rightarrow> Ok x)"

definition is_err :: "'e + 'a \<Rightarrow> bool" where
  "is_err m = (case m of Inl _ \<Rightarrow> True | Inr _ \<Rightarrow> False)"

fun traverse :: "('a \<Rightarrow> 'e + 'b) \<Rightarrow> 'a list \<Rightarrow> 'e + 'b list" where
  "traverse f [] = Ok []"
| "traverse f (x # xs) = rbind (f x) (\<lambda>y. rbind (traverse f xs) (\<lambda>ys. Ok (y # ys)))"

lemma rbind_simps [simp]:
  "rbind (Inl e) f = Inl e" "rbind (Inr x) f = f x"
  by (simp_all add: rbind_def)

lemma map_err_simps [simp]:
  "map_err g (Inl e) = Inl (g e)" "map_err g (Inr x) = Inr x"
  by (simp_all add: map_err_def)

lemma require_simps [simp]:
  "require True e = Ok ()" "require False e = Err e"
  by (simp_all add: require_def)

lemma is_err_simps [simp]: "is_err (Inl e)" "\<not> is_err (Inr x)"
  by (simp_all add: is_err_def)

lemma ok_or_simps [simp]: "ok_or None e = Inl e" "ok_or (Some x) e = Inr x"
  by (simp_all add: ok_or_def)

lemma rbind_Inr_iff [result_elims]: "rbind m f = Inr y \<longleftrightarrow> (\<exists>x. m = Inr x \<and> f x = Inr y)"
  by (cases m) simp_all

lemma map_err_Inr_iff [result_elims]: "map_err g m = Inr y \<longleftrightarrow> m = Inr y"
  by (cases m) simp_all

lemma require_Inr_iff [result_elims]: "require c e = Inr u \<longleftrightarrow> c"
  by (cases c) simp_all

lemma ok_or_Inr_iff [result_elims]: "ok_or m e = Inr x \<longleftrightarrow> m = Some x"
  by (cases m) simp_all

lemma is_err_iff: "\<not> is_err m \<longleftrightarrow> (\<exists>x. m = Inr x)"
  by (cases m) simp_all

lemma is_err_map_err [simp]: "is_err (map_err g m) = is_err m"
  by (cases m) simp_all

lemma traverse_Inr_iff: "traverse f xs = Inr ys \<longleftrightarrow> list_all2 (\<lambda>x y. f x = Inr y) xs ys"
proof (induction xs arbitrary: ys)
  case Nil
  then show ?case by auto
next
  case (Cons x xs)
  then show ?case by (cases ys) (auto simp: rbind_Inr_iff)
qed

lemma traverse_map_Inr: "(\<And>x. x \<in> set xs \<Longrightarrow> f x = Inr (g x)) \<Longrightarrow> traverse f xs = Inr (map g xs)"
  by (induction xs) auto

section \<open>Little-endian integers\<close>

fun le_bytes :: "nat \<Rightarrow> nat \<Rightarrow> bytes" where
  "le_bytes 0 v = []"
| "le_bytes (Suc n) v = of_nat v # le_bytes n (v div 256)"

fun le_nat :: "bytes \<Rightarrow> nat" where
  "le_nat [] = 0"
| "le_nat (b # bs) = unat b + 256 * le_nat bs"

definition u16_le :: "u16 \<Rightarrow> bytes" where "u16_le x = le_bytes 2 (unat x)"
definition u32_le :: "u32 \<Rightarrow> bytes" where "u32_le x = le_bytes 4 (unat x)"
definition u64_le :: "u64 \<Rightarrow> bytes" where "u64_le x = le_bytes 8 (unat x)"
definition u16_of_le :: "bytes \<Rightarrow> u16" where "u16_of_le bs = of_nat (le_nat bs)"
definition u32_of_le :: "bytes \<Rightarrow> u32" where "u32_of_le bs = of_nat (le_nat bs)"
definition u64_of_le :: "bytes \<Rightarrow> u64" where "u64_of_le bs = of_nat (le_nat bs)"

lemma length_le_bytes [simp]: "length (le_bytes n v) = n"
  by (induction n arbitrary: v) auto

lemma le_nat_le_bytes: "le_nat (le_bytes n v) = v mod 256 ^ n"
proof (induction n arbitrary: v)
  case 0
  then show ?case by simp
next
  case (Suc n)
  have "v mod (256 * 256 ^ n) = v mod 256 + 256 * (v div 256 mod 256 ^ n)"
    by (metis add.commute mod_mult2_eq)
  with Suc show ?case by (simp add: unat_of_nat)
qed

lemma unat_less_pow [simp]: "unat (w :: 'a::len word) < 2 ^ LENGTH('a)"
  by (rule unsigned_less)

lemma unat_u8_less [simp]: "unat (b :: u8) < 256"
  using unsigned_less [of b] by simp

lemma le_nat_less: "le_nat bs < 256 ^ length bs"
proof (induction bs)
  case Nil
  then show ?case by simp
next
  case (Cons b bs)
  have "unat b < 256" by simp
  with Cons.IH show ?case
    unfolding le_nat.simps length_Cons power_Suc by linarith
qed

lemma le_bytes_le_nat: "n = length bs \<Longrightarrow> le_bytes n (le_nat bs) = bs"
proof (induction bs arbitrary: n)
  case Nil
  then show ?case by simp
next
  case (Cons b bs)
  have b: "unat b < 256" by simp
  have h: "(of_nat (unat b + 256 * le_nat bs) :: 8 word) = b"
  proof -
    have "(256 :: 8 word) = 0" by simp
    then have "(256 :: 8 word) * of_nat (le_nat bs) = 0" by (metis mult_zero_left)
    then show ?thesis by simp
  qed
  from b have t: "(unat b + 256 * le_nat bs) div 256 = le_nat bs" by simp
  show ?case using Cons h t by (simp del: of_nat_add of_nat_mult)
qed

lemma length_u_le [simp]: "length (u16_le a) = 2" "length (u32_le b) = 4" "length (u64_le c) = 8"
  by (simp_all add: u16_le_def u32_le_def u64_le_def)

lemma u16_of_le_u16_le [simp, le_codec]: "u16_of_le (u16_le x) = x"
  using unat_less_pow [of x] by (simp add: u16_of_le_def u16_le_def le_nat_le_bytes)

lemma u32_of_le_u32_le [simp, le_codec]: "u32_of_le (u32_le x) = x"
  using unat_less_pow [of x] by (simp add: u32_of_le_def u32_le_def le_nat_le_bytes)

lemma u64_of_le_u64_le [simp, le_codec]: "u64_of_le (u64_le x) = x"
  using unat_less_pow [of x] by (simp add: u64_of_le_def u64_le_def le_nat_le_bytes)

lemma u16_le_u16_of_le [simp, le_codec]: "length bs = 2 \<Longrightarrow> u16_le (u16_of_le bs) = bs"
  using le_nat_less [of bs]
  by (simp add: u16_of_le_def u16_le_def unat_of_nat le_bytes_le_nat)

lemma u32_le_u32_of_le [simp, le_codec]: "length bs = 4 \<Longrightarrow> u32_le (u32_of_le bs) = bs"
  using le_nat_less [of bs]
  by (simp add: u32_of_le_def u32_le_def unat_of_nat le_bytes_le_nat)

lemma u64_le_u64_of_le [simp, le_codec]: "length bs = 8 \<Longrightarrow> u64_le (u64_of_le bs) = bs"
  using le_nat_less [of bs]
  by (simp add: u64_of_le_def u64_le_def unat_of_nat le_bytes_le_nat)

lemma u64_le_inj [simp]: "u64_le x = u64_le y \<longleftrightarrow> x = y"
  by (metis u64_of_le_u64_le)

lemma u32_le_inj [simp]: "u32_le x = u32_le y \<longleftrightarrow> x = y"
  by (metis u32_of_le_u32_le)

lemma u16_le_inj [simp]: "u16_le x = u16_le y \<longleftrightarrow> x = y"
  by (metis u16_of_le_u16_le)

section \<open>Saturating and checked arithmetic\<close>

definition saturating_add :: "'a::len word \<Rightarrow> 'a word \<Rightarrow> 'a word" where
  "saturating_add a b = (if unat a + unat b < 2 ^ LENGTH('a) then a + b else - 1)"

definition saturating_sub :: "'a::len word \<Rightarrow> 'a word \<Rightarrow> 'a word" where
  "saturating_sub a b = (if b \<le> a then a - b else 0)"

definition checked_add_usize :: "usize \<Rightarrow> usize \<Rightarrow> usize option" where
  "checked_add_usize a b = (if a + b < 2 ^ 64 then Some (a + b) else None)"

lemma unat_saturating_add:
  "unat (saturating_add a (b :: 'a::len word)) = min (unat a + unat b) (2 ^ LENGTH('a) - 1)"
  by (auto simp: saturating_add_def unat_word_ariths unsigned_minus_1_eq_mask mask_eq_exp_minus_1)

lemma unat_saturating_sub: "unat (saturating_sub a b) = unat a - unat b"
  by (auto simp: saturating_sub_def unat_sub word_le_nat_alt)

lemma saturating_sub_le: "saturating_sub a b \<le> a"
  by (simp add: word_le_nat_alt unat_saturating_sub)

lemma saturating_add_one_less:
  assumes "a \<noteq> - 1"
  shows "a < saturating_add a (1 :: 'a::len word)"
proof -
  have "unat a \<noteq> unat (- 1 :: 'a word)" using assms unsigned_word_eqI by blast
  then have "unat a \<noteq> 2 ^ LENGTH('a) - 1"
    unfolding unsigned_minus_1_eq_mask mask_eq_exp_minus_1 .
  moreover have "unat a < 2 ^ LENGTH('a)" by (rule unsigned_less)
  ultimately have "unat a < min (unat a + 1) (2 ^ LENGTH('a) - 1)" by linarith
  then show ?thesis by (simp add: word_less_nat_alt unat_saturating_add)
qed

lemma saturating_add_ge: "a \<le> saturating_add a (b :: 'a::len word)"
proof -
  have "unat a \<le> 2 ^ LENGTH('a) - 1"
    using unat_less_pow [of a] by linarith
  then show ?thesis by (simp add: word_le_nat_alt unat_saturating_add)
qed

section \<open>Slices\<close>

definition all_zero :: "bytes \<Rightarrow> bool" where
  "all_zero bs = list_all (\<lambda>b. b = 0) bs"

text \<open>\<open>slice::chunks_exact(w)\<close>: whole chunks of \<open>w\<close> bytes, the remainder dropped.\<close>

function chunks_exact :: "nat \<Rightarrow> 'a list \<Rightarrow> 'a list list" where
  "chunks_exact w xs = (if w = 0 \<or> length xs < w then []
                        else take w xs # chunks_exact w (drop w xs))"
  by pat_completeness auto
termination
  by (relation "measure (\<lambda>(w, xs). length xs)") auto

declare chunks_exact.simps [simp del]

lemma chunks_exact_concat:
  assumes "0 < w" and "\<And>x. x \<in> set xs \<Longrightarrow> length x = w"
  shows "chunks_exact w (concat xs) = xs"
  using assms(2)
proof (induction xs)
  case Nil
  with assms(1) show ?case by (simp add: chunks_exact.simps)
next
  case (Cons x xs)
  then have "length x = w" by simp
  moreover have "chunks_exact w (concat xs) = xs" using Cons by simp
  ultimately show ?case
    using assms(1) by (subst chunks_exact.simps) simp
qed

lemma concat_chunks_exact:
  "0 < w \<Longrightarrow> w dvd length xs \<Longrightarrow> concat (chunks_exact w xs) = xs"
proof (induction w xs rule: chunks_exact.induct)
  case (1 w xs)
  show ?case
  proof (cases "length xs < w")
    case True
    with "1.prems" have "xs = []" by (auto dest: dvd_imp_le)
    with True show ?thesis by (simp add: chunks_exact.simps)
  next
    case False
    with "1.prems" have "w dvd length (drop w xs)" by (simp add: dvd_diff_nat)
    with False "1" have "concat (chunks_exact w (drop w xs)) = drop w xs" by simp
    with False "1.prems" show ?thesis by (subst chunks_exact.simps) simp
  qed
qed

lemma chunks_exact_length: "x \<in> set (chunks_exact w xs) \<Longrightarrow> length x = w"
proof (induction w xs rule: chunks_exact.induct)
  case (1 w xs)
  then show ?case
    by (cases "w = 0 \<or> length xs < w") (auto simp: chunks_exact.simps [of w xs])
qed

lemma list_all2_eq_map: "list_all2 (\<lambda>x y. x = f y) xs ys \<longleftrightarrow> xs = map f ys"
  by (auto simp: list_all2_conv_all_nth intro!: nth_equalityI)

text \<open>\<open>all(|w| w[0] < w[1])\<close> over \<open>windows(2)\<close>.\<close>

fun strictly_ascending :: "'a::linorder list \<Rightarrow> bool" where
  "strictly_ascending (x # y # zs) = (x < y \<and> strictly_ascending (y # zs))"
| "strictly_ascending _ = True"

lemma strictly_ascending_iff: "strictly_ascending xs \<longleftrightarrow> sorted_wrt (<) xs"
  by (induction xs rule: strictly_ascending.induct) (auto intro: less_trans)

section \<open>UTF-8\<close>

text \<open>
  \<open>String::from_utf8\<close> and \<open>str::from_utf8\<close> accept exactly the well-formed byte sequences of the
  Unicode standard; a Rust \<open>String\<close> is modelled by its bytes.
\<close>

definition utf8_cont :: "u8 \<Rightarrow> bool" where
  "utf8_cont b = (0x80 \<le> b \<and> b \<le> 0xBF)"

definition utf8_second :: "u8 \<Rightarrow> u8 \<Rightarrow> bool" where
  "utf8_second b c =
    ((if b = 0xE0 then 0xA0 else if b = 0xF0 then 0x90 else 0x80) \<le> c \<and>
     c \<le> (if b = 0xED then 0x9F else if b = 0xF4 then 0x8F else 0xBF))"

fun from_utf8_ok :: "bytes \<Rightarrow> bool" where
  "from_utf8_ok [] = True"
| "from_utf8_ok (b # bs) =
    (if b < 0x80 then from_utf8_ok bs
     else if 0xC2 \<le> b \<and> b \<le> 0xDF then
       (case bs of c # r \<Rightarrow> utf8_cont c \<and> from_utf8_ok r | _ \<Rightarrow> False)
     else if 0xE0 \<le> b \<and> b \<le> 0xEF then
       (case bs of c # d # r \<Rightarrow> utf8_second b c \<and> utf8_cont d \<and> from_utf8_ok r | _ \<Rightarrow> False)
     else if 0xF0 \<le> b \<and> b \<le> 0xF4 then
       (case bs of c # d # e # r \<Rightarrow> utf8_second b c \<and> utf8_cont d \<and> utf8_cont e \<and> from_utf8_ok r
        | _ \<Rightarrow> False)
     else False)"

text \<open>A byte-string literal \<open>b"..."\<close>.\<close>

definition byte_str :: "string \<Rightarrow> bytes" where
  "byte_str s = map (\<lambda>c. of_nat (of_char c)) s"

lemma byte_str_inj [simp]: "byte_str s = byte_str t \<longleftrightarrow> s = t"
proof -
  have "inj (\<lambda>c. word_of_nat (of_char c) :: u8)"
  proof (rule injI)
    fix c d :: char
    assume "(word_of_nat (of_char c) :: u8) = word_of_nat (of_char d)"
    then have "unat (word_of_nat (of_char c) :: u8) = unat (word_of_nat (of_char d) :: u8)" by simp
    then show "c = d" by (simp add: unat_of_nat)
  qed
  then show ?thesis by (simp add: byte_str_def inj_map_eq_map)
qed

lemma byte_str_take: "byte_str (take n s) = take n (byte_str s)"
  by (simp add: byte_str_def take_map)

lemma length_byte_str [simp]: "length (byte_str s) = length s"
  by (simp add: byte_str_def)

end
