(* ===== verification/Encoding.thy ===== *)
theory Encoding
  imports Prelude
begin

text \<open>
  \<open>nas-core/src/encoding.rs\<close>: the length-prefixed field encoding every signed object is built
  from, and the interface \<open>codec\<close> the record formats of the other crates implement: a decoder
  accepts exactly the bytes the encoder emits for a well-formed value.
\<close>

section \<open>Fields\<close>

definition LEN_PREFIX :: usize where
  "LEN_PREFIX = 4"

definition MAX_FIELD :: usize where
  "MAX_FIELD = 2 ^ 32 - 1"

datatype decode_error =
    Truncated
  | LengthOverrun usize usize
  | FieldTooLarge usize

definition push_field :: "bytes \<Rightarrow> bytes \<Rightarrow> decode_error + bytes" where
  "push_field out field =
    (if length field > MAX_FIELD then Err (FieldTooLarge (length field))
     else Ok (out @ u32_le (of_nat (length field)) @ field))"

fun encode_fields_onto :: "bytes \<Rightarrow> bytes list \<Rightarrow> decode_error + bytes" where
  "encode_fields_onto out [] = Ok out"
| "encode_fields_onto out (f # fs) = rbind (push_field out f) (\<lambda>out'. encode_fields_onto out' fs)"

definition encode_fields :: "bytes list \<Rightarrow> decode_error + bytes" where
  "encode_fields fields = encode_fields_onto [] fields"

definition decode_field :: "bytes \<Rightarrow> decode_error + (bytes \<times> bytes)" where
  "decode_field input =
    (if length input < LEN_PREFIX then Err Truncated
     else let prefix = take LEN_PREFIX input; rest = drop LEN_PREFIX input;
              want = unat (u32_of_le prefix)
          in if length rest < want then Err (LengthOverrun want (length rest))
             else Ok (take want rest, drop want rest))"

lemma decode_field_shrinks: "decode_field input = Inr (f, rest) \<Longrightarrow> length rest < length input"
  by (auto simp: decode_field_def LEN_PREFIX_def Let_def split: if_splits)

function decode_fields_onto :: "bytes list \<Rightarrow> bytes \<Rightarrow> decode_error + bytes list" where
  "decode_fields_onto out input =
    (if input = [] then Ok out
     else case decode_field input of
            Inl e \<Rightarrow> Err e
          | Inr (field, rest) \<Rightarrow> decode_fields_onto (out @ [field]) rest)"
  by pat_completeness auto
termination
  by (relation "measure (\<lambda>(out, input). length input)") (auto dest: decode_field_shrinks)

declare decode_fields_onto.simps [simp del]

definition decode_fields :: "bytes \<Rightarrow> decode_error + bytes list" where
  "decode_fields input = decode_fields_onto [] input"

section \<open>The encoding as a specification\<close>

text \<open>One field on the wire, and a sequence of them.\<close>

definition frame :: "bytes \<Rightarrow> bytes" where
  "frame f = u32_le (of_nat (length f)) @ f"

abbreviation field_ok :: "bytes \<Rightarrow> bool" where
  "field_ok f \<equiv> length f \<le> MAX_FIELD"

lemma length_frame [simp]: "length (frame f) = 4 + length f"
  by (simp add: frame_def)

lemma push_field_eq: "push_field out f = (if field_ok f then Ok (out @ frame f) else Err (FieldTooLarge (length f)))"
  by (auto simp: push_field_def frame_def)

lemma encode_fields_onto_Inr_iff:
  "encode_fields_onto out fs = Inr bs \<longleftrightarrow> list_all field_ok fs \<and> bs = out @ concat (map frame fs)"
  by (induction fs arbitrary: out) (auto simp: push_field_eq)

lemma encode_fields_Inr_iff:
  "encode_fields fs = Inr bs \<longleftrightarrow> list_all field_ok fs \<and> bs = concat (map frame fs)"
  by (simp add: encode_fields_def encode_fields_onto_Inr_iff)

lemma encode_fields_ok: "list_all field_ok fs \<Longrightarrow> encode_fields fs = Inr (concat (map frame fs))"
  by (simp add: encode_fields_Inr_iff)

lemma decode_field_frame:
  assumes "field_ok f"
  shows "decode_field (frame f @ rest) = Inr (f, rest)"
proof -
  have "unat (of_nat (length f) :: u32) = length f"
    using assms by (simp add: MAX_FIELD_def unat_of_nat)
  then show ?thesis
    by (simp add: decode_field_def frame_def LEN_PREFIX_def Let_def)
qed

lemma decode_field_Inr_iff:
  "decode_field input = Inr (f, rest) \<longleftrightarrow> field_ok f \<and> input = frame f @ rest"
proof
  assume dec: "decode_field input = Inr (f, rest)"
  define p where "p = take 4 input"
  define n where "n = unat (u32_of_le p)"
  have len: "4 \<le> length input" and f: "f = take n (drop 4 input)"
    and r: "rest = drop n (drop 4 input)" and n: "n \<le> length input - 4"
    using dec by (auto simp: decode_field_def LEN_PREFIX_def Let_def p_def n_def split: if_splits)
  have "n < 2 ^ 32" using unat_less_pow [of "u32_of_le p"] by (simp add: n_def)
  moreover have lf: "length f = n" using f n by simp
  moreover have "u32_le (of_nat n) = p"
    using len by (simp add: n_def p_def)
  moreover have "input = p @ f @ rest"
    unfolding p_def f r by (simp only: append_take_drop_id)
  ultimately show "field_ok f \<and> input = frame f @ rest"
    by (simp add: frame_def MAX_FIELD_def)
qed (auto simp: decode_field_frame)

lemma frame_append_inj:
  "field_ok f \<Longrightarrow> field_ok g \<Longrightarrow> frame f @ r = frame g @ s \<longleftrightarrow> f = g \<and> r = s"
  by (metis decode_field_frame prod.inject sum.inject(2))

lemma frame_neq_Nil [simp]: "frame f \<noteq> []"
proof
  assume "frame f = []"
  then have "length (frame f) = 0" by simp
  then show False by simp
qed

lemma concat_frame_Nil_iff [simp]: "concat (map frame fs) = [] \<longleftrightarrow> fs = []"
  by (cases fs) auto

lemma decode_fields_onto_Inr_iff:
  "decode_fields_onto out input = Inr fs' \<longleftrightarrow>
    (\<exists>fs. fs' = out @ fs \<and> list_all field_ok fs \<and> input = concat (map frame fs))"
proof (induction out input arbitrary: fs' rule: decode_fields_onto.induct)
  case (1 out input)
  show ?case
  proof (cases "input = []")
    case True
    then show ?thesis
      by (auto simp: decode_fields_onto.simps simp del: concat_eq_Nil_conv)
  next
    case False
    show ?thesis
    proof (cases "decode_field input")
      case (Inl e)
      have "\<not> (list_all field_ok fs \<and> input = concat (map frame fs))" for fs
        using False Inl by (cases fs) (auto simp: decode_field_frame)
      with False Inl show ?thesis by (simp add: decode_fields_onto.simps [of out input])
    next
      case (Inr p)
      then obtain f rest where p: "decode_field input = Inr (f, rest)" by (cases p) auto
      then have fin: "field_ok f" "input = frame f @ rest"
        by (simp_all add: decode_field_Inr_iff)
      have uniq: "list_all field_ok gs \<and> input = concat (map frame gs) \<longleftrightarrow>
          (\<exists>hs. gs = f # hs \<and> list_all field_ok hs \<and> rest = concat (map frame hs))" for gs
        using False fin by (cases gs) (auto simp: frame_append_inj)
      have "decode_fields_onto out input = decode_fields_onto (out @ [f]) rest"
        using False p by (simp add: decode_fields_onto.simps [of out input])
      with "1" [OF False p refl] uniq show ?thesis by auto
    qed
  qed
qed

lemma decode_fields_Inr_iff:
  "decode_fields bs = Inr fs \<longleftrightarrow> list_all field_ok fs \<and> bs = concat (map frame fs)"
  by (simp add: decode_fields_def decode_fields_onto_Inr_iff)

section \<open>The codec interface\<close>

locale codec =
  fixes enc :: "'a \<Rightarrow> 'e + bytes" and dec :: "bytes \<Rightarrow> 'f + 'a" and wf :: "'a \<Rightarrow> bool"
  assumes dec_iff: "dec bs = Inr x \<longleftrightarrow> wf x \<and> enc x = Inr bs"
begin

lemma roundtrip: "wf x \<Longrightarrow> enc x = Inr bs \<Longrightarrow> dec bs = Inr x"
  by (simp add: dec_iff)

lemma canonical: "dec bs = Inr x \<Longrightarrow> enc x = Inr bs"
  by (simp add: dec_iff)

lemma dec_wf: "dec bs = Inr x \<Longrightarrow> wf x"
  by (simp add: dec_iff)

lemma enc_inj: "wf x \<Longrightarrow> wf y \<Longrightarrow> enc x = Inr bs \<Longrightarrow> enc y = Inr bs \<Longrightarrow> x = y"
  by (metis dec_iff sum.inject(2))

lemma dec_inj: "dec bs = Inr x \<Longrightarrow> dec cs = Inr x \<Longrightarrow> bs = cs"
  by (simp add: dec_iff)

lemma traverse_iff: "traverse dec bss = Inr xs \<longleftrightarrow> list_all wf xs \<and> traverse enc xs = Inr bss"
proof -
  have "list_all2 (\<lambda>b x. dec b = Inr x) bss xs \<longleftrightarrow> list_all wf xs \<and> list_all2 (\<lambda>x b. enc x = Inr b) xs bss"
    by (auto simp: dec_iff list_all2_conv_all_nth list_all_length)
  then show ?thesis by (simp add: traverse_Inr_iff)
qed

lemma dec_rejects: "is_err (dec bs) \<longleftrightarrow> (\<forall>x. wf x \<longrightarrow> enc x \<noteq> Inr bs)"
proof (cases "dec bs")
  case (Inl e)
  then have "\<not> (wf x \<and> enc x = Inr bs)" for x using dec_iff [of bs x] by simp
  with Inl show ?thesis by auto
next
  case (Inr x)
  then have "wf x" "enc x = Inr bs" by (simp_all add: dec_iff)
  with Inr show ?thesis by auto
qed

end

text \<open>
  Most formats are a fixed list of fields: an encoder lays the fields out, a decoder splits the
  bytes and then parses the fields. Such a format is a codec as soon as its parser accepts
  exactly the field lists of well-formed values.
\<close>

locale field_codec =
  fixes unparse :: "'a \<Rightarrow> bytes list" and parse :: "bytes list \<Rightarrow> 'e + 'a"
    and wf_f :: "'a \<Rightarrow> bool" and derr :: "decode_error \<Rightarrow> 'e"
  assumes parse_iff: "parse fs = Inr x \<longleftrightarrow> wf_f x \<and> unparse x = fs"
begin

sublocale codec "\<lambda>x. map_err derr (encode_fields (unparse x))"
    "\<lambda>bs. rbind (map_err derr (decode_fields bs)) parse" wf_f
proof unfold_locales
  fix bs x
  have "rbind (map_err derr (decode_fields bs)) parse = Inr x \<longleftrightarrow>
      (\<exists>fs. decode_fields bs = Inr fs \<and> wf_f x \<and> unparse x = fs)"
    by (simp add: rbind_Inr_iff map_err_Inr_iff parse_iff)
  also have "\<dots> \<longleftrightarrow> wf_f x \<and> map_err derr (encode_fields (unparse x)) = Inr bs"
    by (auto simp: decode_fields_Inr_iff encode_fields_Inr_iff map_err_Inr_iff)
  finally show "rbind (map_err derr (decode_fields bs)) parse = Inr x \<longleftrightarrow>
      wf_f x \<and> map_err derr (encode_fields (unparse x)) = Inr bs" .
qed

end

text \<open>
  A packed table of fixed-width records, as manifests, lease records and the wire use it: the
  record codec is a bijection between the well-formed records and the byte strings of its width,
  and so the table codec is one between lists of records and whole multiples of that width.
\<close>

locale packed_table =
  fixes put :: "'a \<Rightarrow> bytes" and get :: "bytes \<Rightarrow> 'a" and w :: usize and wf_r :: "'a \<Rightarrow> bool"
  assumes width_pos: "0 < w"
    and put_width: "wf_r x \<Longrightarrow> length (put x) = w"
    and get_put: "wf_r x \<Longrightarrow> get (put x) = x"
    and put_get: "length b = w \<Longrightarrow> wf_r (get b) \<and> put (get b) = b"
begin

lemma table_length: "list_all wf_r xs \<Longrightarrow> length (concat (map put xs)) = w * length xs"
  by (induction xs) (simp_all add: put_width)

lemma table_iff:
  "w dvd length t \<and> map get (chunks_exact w t) = xs \<longleftrightarrow> list_all wf_r xs \<and> concat (map put xs) = t"
proof
  assume l: "w dvd length t \<and> map get (chunks_exact w t) = xs"
  have each: "wf_r (get x) \<and> put (get x) = x" if "x \<in> set (chunks_exact w t)" for x
    by (rule put_get) (rule chunks_exact_length [OF that])
  have "map (put \<circ> get) (chunks_exact w t) = chunks_exact w t"
    using each by (intro map_idI) simp
  then show "list_all wf_r xs \<and> concat (map put xs) = t"
    using l each concat_chunks_exact [OF width_pos, of t] by (auto simp: list_all_iff)
next
  assume r: "list_all wf_r xs \<and> concat (map put xs) = t"
  then have len: "x \<in> set (map put xs) \<Longrightarrow> length x = w" for x
    using put_width by (auto simp: list_all_iff)
  have "chunks_exact w t = map put xs"
    using chunks_exact_concat [OF width_pos, of "map put xs"] len r by simp
  moreover have "map get (map put xs) = xs" using r get_put by (auto simp: list_all_iff intro!: map_idI)
  moreover have "length (concat (map put xs)) = w * length xs"
    using r table_length by blast
  ultimately show "w dvd length t \<and> map get (chunks_exact w t) = xs" using r by auto
qed

end

interpretation fields: codec encode_fields decode_fields "\<lambda>_. True"
  by unfold_locales (simp add: decode_fields_Inr_iff encode_fields_Inr_iff)

text \<open>
  \<open>decode_fields\<close> inverts \<open>encode_fields\<close> in both directions: a byte string decodes to a field
  sequence exactly when it is that sequence's encoding, so the encoding is injective and nothing
  but an encoder's output is accepted (no truncated, overlong or trailing bytes).
\<close>

theorem decode_fields_iff_encode_fields:
  "decode_fields bs = Ok fs \<longleftrightarrow> encode_fields fs = Ok bs"
  by (simp add: fields.dec_iff)

end
