(* ===== verification/Core_Types.thy ===== *)
theory Core_Types
  imports Encoding
begin

text \<open>
  The rest of \<open>nas-core\<close>: content addresses and their hex spelling (\<open>addr.rs\<close>), the format
  discriminants (\<open>format.rs\<close>) and the local clock (\<open>clock.rs\<close>). An array \<open>[u8; N]\<close> is a byte list
  of length \<open>N\<close>; the \<open>wf\<close> predicates of the record types carry the widths.
\<close>

unbundle bit_operations_syntax

type_synonym addr = bytes
type_synonym hash32 = bytes
type_synonym timestamp = u64

abbreviation arr :: "nat \<Rightarrow> bytes \<Rightarrow> bool" where
  "arr n b \<equiv> length b = n"

definition ADDR_LEN :: usize where
  "ADDR_LEN = 32"

text \<open>The \<open>fixed::<N>\<close> helper every decoder has, over that decoder's own \<open>BadWidth\<close> error.\<close>

definition fixed_width :: "(string \<Rightarrow> nat \<Rightarrow> nat \<Rightarrow> 'e) \<Rightarrow> nat \<Rightarrow> string \<Rightarrow> bytes \<Rightarrow> 'e + bytes" where
  "fixed_width bad n field b = (if length b = n then Ok b else Err (bad field n (length b)))"

lemma fixed_width_Inr_iff [result_elims]: "fixed_width bad n field b = Inr x \<longleftrightarrow> x = b \<and> arr n b"
  by (auto simp: fixed_width_def)

lemma fixed_width_ok [simp]: "length b = n \<Longrightarrow> fixed_width bad n field b = Inr b"
  by (simp add: fixed_width_def)

lemma length1_hd_eq: "length b = Suc 0 \<Longrightarrow> hd b = v \<longleftrightarrow> b = [v]"
  by (cases b) auto

section \<open>Addresses\<close>

datatype addr_error = BadLength usize | NotHex

definition of_ciphertext :: "(bytes \<Rightarrow> bytes) \<Rightarrow> bytes \<Rightarrow> addr" where
  "of_ciphertext blake3 ciphertext = blake3 ciphertext"

definition verifies :: "(bytes \<Rightarrow> bytes) \<Rightarrow> addr \<Rightarrow> bytes \<Rightarrow> bool" where
  "verifies blake3 a ciphertext = (of_ciphertext blake3 ciphertext = a)"

definition hex_digit :: "nat \<Rightarrow> u8" where
  "hex_digit n = (if n < 10 then of_nat (48 + n) else of_nat (87 + n))"

definition to_hex :: "bytes \<Rightarrow> bytes" where
  "to_hex a = concat (map (\<lambda>b. [hex_digit (unat b div 16), hex_digit (unat b mod 16)]) a)"

definition hex_val :: "u8 \<Rightarrow> u8 option" where
  "hex_val c =
    (if 48 \<le> c \<and> c \<le> 57 then Some (c - 48)
     else if 97 \<le> c \<and> c \<le> 102 then Some (c - 97 + 10)
     else None)"

fun hex_pairs :: "bytes \<Rightarrow> addr_error + bytes" where
  "hex_pairs (h # l # r) =
    rbind (ok_or (hex_val h) NotHex) (\<lambda>hi.
    rbind (ok_or (hex_val l) NotHex) (\<lambda>lo.
    rbind (hex_pairs r) (\<lambda>out. Ok ((push_bit 4 hi OR lo) # out))))"
| "hex_pairs _ = Ok []"

definition from_hex :: "bytes \<Rightarrow> addr_error + addr" where
  "from_hex b =
    (if length b \<noteq> ADDR_LEN * 2 then Err (BadLength (length b)) else hex_pairs b)"

definition shard :: "addr \<Rightarrow> bytes \<times> bytes" where
  "shard a = (let hex = to_hex a in (take 2 hex, drop 2 hex))"

lemma hex_digit_table: "\<forall>n \<in> set [0..<16]. hex_val (hex_digit n) = Some (word_of_nat n)"
  by code_simp

lemma hex_val_table:
  "\<forall>n \<in> set [0..<256]. case hex_val (word_of_nat n) of None \<Rightarrow> True
     | Some v \<Rightarrow> unat v < 16 \<and> word_of_nat n = hex_digit (unat v)"
  by code_simp

lemma nibble_table:
  "\<forall>hi \<in> set [0..<16]. \<forall>lo \<in> set [0..<16].
     unat (push_bit 4 (word_of_nat hi) OR word_of_nat lo :: u8) = 16 * hi + lo"
  by code_simp

lemma hex_val_hex_digit: "n < 16 \<Longrightarrow> hex_val (hex_digit n) = Some (of_nat n)"
  using hex_digit_table by simp

lemma hex_val_Some: "hex_val c = Some v \<Longrightarrow> unat v < 16 \<and> c = hex_digit (unat v)"
  using hex_val_table [rule_format, of "unat c"] by simp

lemma unat_nibbles: "unat (hi :: u8) < 16 \<Longrightarrow> unat (lo :: u8) < 16 \<Longrightarrow>
    unat (push_bit 4 hi OR lo) = 16 * unat hi + unat lo"
  using nibble_table [rule_format, of "unat hi" "unat lo"] by simp

lemma nibbles_byte: "push_bit 4 (of_nat (unat (b :: u8) div 16)) OR of_nat (unat b mod 16) = b"
proof -
  have d: "unat b div 16 < 16" and m: "unat b mod 16 < 16"
    using unat_u8_less [of b] by (simp_all add: div_less_iff_less_mult)
  have "unat (push_bit 4 (of_nat (unat b div 16)) OR of_nat (unat b mod 16) :: u8)
      = 16 * (unat b div 16) + unat b mod 16"
    using nibble_table [rule_format, of "unat b div 16" "unat b mod 16"] d m by simp
  then show ?thesis by (simp add: unsigned_word_eqI)
qed

lemma length_to_hex [simp]: "length (to_hex a) = 2 * length a"
  by (induction a) (auto simp: to_hex_def)

lemma hex_pairs_to_hex: "hex_pairs (to_hex a) = Inr a"
proof (induction a)
  case Nil
  then show ?case by (simp add: to_hex_def)
next
  case (Cons b a)
  have d: "unat b div 16 < 16" and m: "unat b mod 16 < 16"
    using unat_u8_less [of b] by (simp_all add: div_less_iff_less_mult)
  have "to_hex (b # a) = hex_digit (unat b div 16) # hex_digit (unat b mod 16) # to_hex a"
    by (simp add: to_hex_def)
  with Cons d m show ?case by (simp add: hex_val_hex_digit nibbles_byte)
qed

lemma hex_pairs_Inr:
  "even (length s) \<Longrightarrow> hex_pairs s = Inr a \<Longrightarrow> s = to_hex a \<and> length s = 2 * length a"
proof (induction s arbitrary: a rule: hex_pairs.induct)
  case (1 h l r)
  then obtain hi lo out where v: "hex_val h = Some hi" "hex_val l = Some lo"
    and r: "hex_pairs r = Inr out" and a: "a = (push_bit 4 hi OR lo) # out"
    by (auto simp: result_elims)
  have s: "h = hex_digit (unat hi)" "l = hex_digit (unat lo)" "unat hi < 16" "unat lo < 16"
    using v hex_val_Some by blast+
  have "r = to_hex out \<and> length r = 2 * length out"
    using "1.IH" [OF _ r] "1.prems"(1) by simp
  with s show ?case by (auto simp: a to_hex_def unat_nibbles)
qed (auto simp: to_hex_def)

interpretation hex: codec "\<lambda>a. Ok (to_hex a)" from_hex "arr ADDR_LEN"
proof unfold_locales
  fix bs x
  show "from_hex bs = Inr x \<longleftrightarrow> arr ADDR_LEN x \<and> Ok (to_hex x) = Inr bs"
    using hex_pairs_Inr [of bs x] by (auto simp: from_hex_def ADDR_LEN_def hex_pairs_to_hex)
qed

section \<open>Format discriminants\<close>

datatype key_scheme = Convergent | IndexedRandom | Plaintext

datatype padding_profile = PadNone | Classes | Fixed

datatype mode = E2ee | Passphrase | TransitOnly

definition MANIFEST_VERSION :: u16 where
  "MANIFEST_VERSION = 1"

fun key_scheme_u8 :: "key_scheme \<Rightarrow> u8" where
  "key_scheme_u8 Convergent = 0"
| "key_scheme_u8 IndexedRandom = 1"
| "key_scheme_u8 Plaintext = 2"

fun padding_profile_u8 :: "padding_profile \<Rightarrow> u8" where
  "padding_profile_u8 PadNone = 0"
| "padding_profile_u8 Classes = 1"
| "padding_profile_u8 Fixed = 2"

definition peer_reads_plaintext :: "mode \<Rightarrow> bool" where
  "peer_reads_plaintext m = (m = TransitOnly)"

definition peer_can_enforce_read_acl :: "mode \<Rightarrow> bool" where
  "peer_can_enforce_read_acl m = (m = TransitOnly)"

definition peer_can_enforce_append_only :: "mode \<Rightarrow> bool" where
  "peer_can_enforce_append_only m = (m = TransitOnly)"

section \<open>The local clock\<close>

definition saturating_since :: "timestamp \<Rightarrow> timestamp \<Rightarrow> u64" where
  "saturating_since now earlier = saturating_sub now earlier"

definition plus_secs :: "timestamp \<Rightarrow> u64 \<Rightarrow> timestamp" where
  "plus_secs t s = saturating_add t s"

lemma unat_saturating_since: "unat (saturating_since now t) = unat now - unat t"
  by (simp add: saturating_since_def unat_saturating_sub)

lemma saturating_since_backwards: "now \<le> t \<Longrightarrow> saturating_since now t = 0"
  by (simp add: saturating_since_def saturating_sub_def)

lemma saturating_since_mono: "now \<le> now' \<Longrightarrow> saturating_since now t \<le> saturating_since now' t"
  by (simp add: word_le_nat_alt unat_saturating_since)

text \<open>
  Hex addresses: \<open>from_hex\<close> accepts exactly the 64-character lower-case spelling \<open>to_hex\<close>
  emits, so an address has one spelling (one blob path) and no input makes the parser fail
  other than by returning an error.
\<close>

theorem from_hex_iff_to_hex: "from_hex s = Ok a \<longleftrightarrow> arr ADDR_LEN a \<and> to_hex a = s"
  using hex.dec_iff [of s a] by simp

end
