(* ===== verification/Crypto_Sign.thy ===== *)
theory Crypto_Sign
  imports Core_Types
begin

text \<open>
  \<open>nas-crypto/src/context.rs\<close> and \<open>sign.rs\<close>: domain-separation contexts, roles, identities,
  and signature verification. The hash and the signature backend are not in the repository
  (\<open>blake3\<close>, \<open>secure_memory::sig\<close>): they are the record \<open>backend\<close> of functions and sizes that
  every definition using them takes as its first argument, and a keypair is the record of what
  the sources call on it. What a correct backend promises is the predicate \<open>sound_keypair\<close>.
\<close>

section \<open>Contexts\<close>

datatype sig_context =
    CtxSlot | CtxLease | CtxLeaseCheckpoint | CtxSlotCheckpoint | CtxRoster | CtxCap | CtxWitness
  | CtxRetention | CtxDeleteRequest | CtxDeleteApproval | CtxDeleteExecution | CtxWrap
  | CtxMirrorPublish | CtxSlotHandoff | CtxPatch

fun SigContext_str :: "sig_context \<Rightarrow> string" where
  "SigContext_str CtxSlot = ''nas-tools/sig/slot/v1''"
| "SigContext_str CtxLease = ''nas-tools/sig/lease/v1''"
| "SigContext_str CtxLeaseCheckpoint = ''nas-tools/sig/checkpoint/v1''"
| "SigContext_str CtxSlotCheckpoint = ''nas-tools/sig/slot-checkpoint/v1''"
| "SigContext_str CtxRoster = ''nas-tools/sig/roster/v1''"
| "SigContext_str CtxCap = ''nas-tools/sig/cap/v1''"
| "SigContext_str CtxWitness = ''nas-tools/sig/witness/v2''"
| "SigContext_str CtxRetention = ''nas-tools/sig/retention/v1''"
| "SigContext_str CtxDeleteRequest = ''nas-tools/sig/delete-request/v1''"
| "SigContext_str CtxDeleteApproval = ''nas-tools/sig/delete-approval/v1''"
| "SigContext_str CtxDeleteExecution = ''nas-tools/sig/delete-execution/v1''"
| "SigContext_str CtxWrap = ''nas-tools/sig/wrap/v1''"
| "SigContext_str CtxMirrorPublish = ''nas-tools/sig/mirror-publish/v1''"
| "SigContext_str CtxSlotHandoff = ''nas-tools/sig/slot-handoff/v1''"
| "SigContext_str CtxPatch = ''nas-tools/sig/patch/v1''"

definition SigContext_as_bytes :: "sig_context \<Rightarrow> bytes" where
  "SigContext_as_bytes c = byte_str (SigContext_str c)"

definition SigContext_ALL :: "sig_context list" where
  "SigContext_ALL =
    [CtxSlot, CtxLease, CtxLeaseCheckpoint, CtxSlotCheckpoint, CtxRoster, CtxCap, CtxWitness,
     CtxRetention, CtxDeleteRequest, CtxDeleteApproval, CtxDeleteExecution, CtxWrap,
     CtxMirrorPublish, CtxSlotHandoff, CtxPatch]"

section \<open>The external backend\<close>

record keypair =
  kp_verifying_key :: bytes
  kp_signing_key :: "bytes option"
  kp_sign :: "bytes \<Rightarrow> bytes option"

record backend =
  blake3 :: "bytes \<Rightarrow> bytes"
  derive_key :: "string \<Rightarrow> bytes \<Rightarrow> bytes"
  keyed_hash :: "bytes \<Rightarrow> bytes \<Rightarrow> bytes"
  VK_SIZE :: usize
  SIG_SIZE :: usize
  sig_from_seed :: "bytes \<Rightarrow> keypair option"
  sig_verify :: "bytes \<Rightarrow> bytes \<Rightarrow> bytes \<Rightarrow> bool option"

text \<open>
  What the signature backend documents of a keypair: its verifying key has the advertised size,
  and a signature it makes has the advertised size and verifies over the message it signed.
\<close>

definition sound_keypair :: "backend \<Rightarrow> keypair \<Rightarrow> bool" where
  "sound_keypair B kp \<longleftrightarrow> length (kp_verifying_key kp) = VK_SIZE B \<and>
    (\<forall>m s. kp_sign kp m = Some s \<longrightarrow>
       length s = SIG_SIZE B \<and> sig_verify B (kp_verifying_key kp) m s = Some True)"

section \<open>Identities\<close>

datatype role = RoleSlot | RoleLease | RoleWitness | RoleTransport

fun kdf_context :: "role \<Rightarrow> string" where
  "kdf_context RoleSlot = ''nas-tools/role/slot/v1''"
| "kdf_context RoleLease = ''nas-tools/role/lease/v1''"
| "kdf_context RoleWitness = ''nas-tools/role/witness/v1''"
| "kdf_context RoleTransport = ''nas-tools/role/transport/v1''"

datatype sign_error =
    Backend
  | BadKeyLength usize
  | BadSignatureLength usize
  | NotExportable role

record identity =
  id_role :: role
  id_kp :: keypair

abbreviation verifying_key :: "identity \<Rightarrow> bytes" where
  "verifying_key i \<equiv> kp_verifying_key (id_kp i)"

definition Identity_derive :: "backend \<Rightarrow> bytes \<Rightarrow> role \<Rightarrow> sign_error + identity" where
  "Identity_derive B vault_seed r =
    (let xi = derive_key B (kdf_context r) vault_seed
     in rbind (ok_or (sig_from_seed B xi) Backend) (\<lambda>kp. Ok \<lparr>id_role = r, id_kp = kp\<rparr>))"

definition export_transport :: "identity \<Rightarrow> sign_error + (bytes \<times> bytes)" where
  "export_transport i =
    (if id_role i \<noteq> RoleTransport then Err (NotExportable (id_role i))
     else rbind (ok_or (kp_signing_key (id_kp i)) Backend) (\<lambda>sk. Ok (sk, verifying_key i)))"

definition framed :: "sig_context \<Rightarrow> bytes \<Rightarrow> bytes" where
  "framed ctx message =
    (let c = SigContext_as_bytes ctx in c @ u32_le (of_nat (length c)) @ message)"

definition Identity_sign :: "identity \<Rightarrow> sig_context \<Rightarrow> bytes \<Rightarrow> sign_error + bytes" where
  "Identity_sign i ctx message = ok_or (kp_sign (id_kp i) (framed ctx message)) Backend"

definition sig_check :: "backend \<Rightarrow> bytes \<Rightarrow> sig_context \<Rightarrow> bytes \<Rightarrow> bytes \<Rightarrow> sign_error + unit" where
  "sig_check B vk ctx message signature =
    (if length vk \<noteq> VK_SIZE B then Err (BadKeyLength (length vk))
     else if length signature \<noteq> SIG_SIZE B then Err (BadSignatureLength (length signature))
     else if sig_verify B vk (framed ctx message) signature = Some True then Ok ()
     else Err Backend)"

definition key_id :: "backend \<Rightarrow> bytes \<Rightarrow> hash32" where
  "key_id B vk = blake3 B vk"

definition Identity_id :: "backend \<Rightarrow> identity \<Rightarrow> hash32" where
  "Identity_id B i = blake3 B (verifying_key i)"

lemma sig_check_Inr_iff [result_elims]:
  "sig_check B vk ctx m s = Inr u \<longleftrightarrow>
    length vk = VK_SIZE B \<and> length s = SIG_SIZE B \<and> sig_verify B vk (framed ctx m) s = Some True"
  by (auto simp: sig_check_def)

lemma sign_then_check:
  "sound_keypair B (id_kp i) \<Longrightarrow> Identity_sign i ctx m = Inr s \<Longrightarrow>
    sig_check B (verifying_key i) ctx m s = Inr ()"
  by (auto simp: Identity_sign_def sound_keypair_def result_elims)

lemma sign_length:
  "sound_keypair B (id_kp i) \<Longrightarrow> Identity_sign i ctx m = Inr s \<Longrightarrow>
    length s = SIG_SIZE B \<and> length (verifying_key i) = VK_SIZE B"
  by (auto simp: Identity_sign_def sound_keypair_def result_elims)

section \<open>Domain separation\<close>

lemma SigContext_ALL_complete: "c \<in> set SigContext_ALL"
  by (cases c) (simp_all add: SigContext_ALL_def)

lemma context_table:
  "\<forall>c \<in> set SigContext_ALL. \<forall>d \<in> set SigContext_ALL.
     take (length (SigContext_str c)) (SigContext_str d) = SigContext_str c \<longrightarrow> c = d"
  unfolding SigContext_ALL_def by code_simp

lemma context_not_prefix: "SigContext_as_bytes d = SigContext_as_bytes c @ xs \<Longrightarrow> c = d"
proof -
  assume "SigContext_as_bytes d = SigContext_as_bytes c @ xs"
  then have "take (length (SigContext_as_bytes c)) (SigContext_as_bytes d) = SigContext_as_bytes c"
    by simp
  then have "take (length (SigContext_str c)) (SigContext_str d) = SigContext_str c"
    by (simp add: SigContext_as_bytes_def flip: byte_str_take)
  then show "c = d"
    using context_table SigContext_ALL_complete by blast
qed

text \<open>
  Context separation: the bytes that are signed determine the context and the message. No
  context string is a prefix of another, so a signature made for one kind of record never
  verifies as a signature over another kind, whatever the messages are.
\<close>

theorem framed_injective: "framed c m = framed d n \<longleftrightarrow> c = d \<and> m = n"
proof
  assume eq: "framed c m = framed d n"
  then obtain xs where "SigContext_as_bytes c = SigContext_as_bytes d @ xs \<or>
      SigContext_as_bytes d = SigContext_as_bytes c @ xs"
    unfolding framed_def Let_def by (metis append_eq_append_conv2)
  then have "c = d" using context_not_prefix by metis
  with eq show "c = d \<and> m = n" by (simp add: framed_def Let_def)
qed simp

text \<open>
  What an identity signs verifies: over a backend that keeps its documented contract, a
  signature \<open>Identity::sign\<close> returns passes \<open>verify\<close> under the signer's own key and context.
\<close>

theorem identity_sign_verifies:
  assumes "sound_keypair B (id_kp i)" and "Identity_sign i ctx m = Ok s"
  shows "sig_check B (verifying_key i) ctx m s = Ok ()"
  using assms by (rule sign_then_check)

section \<open>A concrete backend for examples\<close>

text \<open>
  A toy backend on which hypotheses about a backend can be checked: keys and signatures of one
  byte, a signature is the key byte, and the hash pads or cuts its input to 32 bytes.
\<close>

definition toy_hash :: "bytes \<Rightarrow> bytes" where
  "toy_hash m = take 32 (m @ replicate 32 0)"

definition toy_kp :: "u8 \<Rightarrow> keypair" where
  "toy_kp k = \<lparr>kp_verifying_key = [k], kp_signing_key = Some [k], kp_sign = (\<lambda>m. Some [k])\<rparr>"

definition toy_backend :: backend where
  "toy_backend = \<lparr>blake3 = toy_hash, derive_key = (\<lambda>c m. toy_hash m),
     keyed_hash = (\<lambda>k m. toy_hash m), VK_SIZE = 1, SIG_SIZE = 1,
     sig_from_seed = (\<lambda>s. Some (toy_kp (hd (s @ [0])))),
     sig_verify = (\<lambda>vk m s. Some (s = vk))\<rparr>"

definition toy_identity :: "u8 \<Rightarrow> identity" where
  "toy_identity k = \<lparr>id_role = RoleSlot, id_kp = toy_kp k\<rparr>"

lemma toy_backend_simps [simp]:
  "blake3 toy_backend = toy_hash" "VK_SIZE toy_backend = 1" "SIG_SIZE toy_backend = 1"
  "sig_verify toy_backend vk m s = Some (s = vk)"
  by (simp_all add: toy_backend_def)

lemma toy_identity_simps [simp]:
  "id_kp (toy_identity k) = toy_kp k" "kp_verifying_key (toy_kp k) = [k]"
  "kp_sign (toy_kp k) m = Some [k]"
  by (simp_all add: toy_identity_def toy_kp_def)

lemma toy_sound [simp]: "sound_keypair toy_backend (toy_kp k)"
  by (simp add: sound_keypair_def)

lemma toy_hash_length [simp]: "length (toy_hash m) = 32"
  by (simp add: toy_hash_def)

theorem identity_sign_verifies_witness:
  "Identity_sign (toy_identity 7) CtxSlot [1, 2] = Ok [7] \<and>
   sig_check toy_backend (verifying_key (toy_identity 7)) CtxSlot [1, 2] [7] = Ok ()"
proof -
  have s: "Identity_sign (toy_identity 7) CtxSlot [1, 2] = Ok [7]"
    by (simp add: Identity_sign_def)
  have k: "sound_keypair toy_backend (id_kp (toy_identity 7))"
    by simp
  show ?thesis using s identity_sign_verifies [OF k s] by simp
qed

end
