(* ===== verification/Slot_Record.thy ===== *)
theory Slot_Record
  imports Crypto_Sign
begin

text \<open>
  \<open>nas-slots/src/id.rs\<close> and \<open>record.rs\<close>: slot and writer identifiers, and the signed, chained
  head of a mutable pointer. \<open>wf_SlotRecord\<close> states the widths the Rust struct has by its types
  (and, for a record that was decoded, the signature width and the genesis rule).
\<close>

type_synonym slot_id = bytes
type_synonym writer_id = bytes

section \<open>Identifiers\<close>

definition SlotId_preimage :: "bytes \<Rightarrow> bytes \<Rightarrow> bytes" where
  "SlotId_preimage namespace_pk label = u64_le (of_nat (length namespace_pk)) @ namespace_pk @ label"

definition SlotId_new :: "backend \<Rightarrow> bytes \<Rightarrow> bytes \<Rightarrow> slot_id" where
  "SlotId_new B namespace_pk label = blake3 B (SlotId_preimage namespace_pk label)"

definition WriterId_of_key :: "backend \<Rightarrow> bytes \<Rightarrow> writer_id" where
  "WriterId_of_key B vk = key_id B vk"

text \<open>A pair of distinct messages with one hash: what the hash-based arguments exclude.\<close>

definition collision :: "backend \<Rightarrow> bytes \<Rightarrow> bytes \<Rightarrow> bool" where
  "collision B x y \<longleftrightarrow> x \<noteq> y \<and> blake3 B x = blake3 B y"

lemma SlotId_preimage_inj:
  assumes "length p < 2 ^ 64" and "length q < 2 ^ 64" and "SlotId_preimage p l = SlotId_preimage q k"
  shows "p = q \<and> l = k"
proof -
  have "u64_le (of_nat (length p)) = u64_le (of_nat (length q))" and r: "p @ l = q @ k"
    using assms(3) by (auto simp: SlotId_preimage_def)
  then have "unat (of_nat (length p) :: u64) = unat (of_nat (length q) :: u64)" by simp
  with assms(1,2) have "length p = length q" by (simp add: unat_of_nat)
  with r show ?thesis by simp
qed

section \<open>Records\<close>

definition ROOT_NONCE_LEN :: usize where
  "ROOT_NONCE_LEN = 24"

definition RECORD_HASH_DOMAIN :: bytes where
  "RECORD_HASH_DOMAIN = byte_str ''nas-tools/slot-record-hash/v1''"

datatype regime = SingleWriter | CasMerge

fun regime_u8 :: "regime \<Rightarrow> u8" where
  "regime_u8 SingleWriter = 0"
| "regime_u8 CasMerge = 1"

definition Regime_from_u8 :: "u8 \<Rightarrow> regime option" where
  "Regime_from_u8 v = (if v = 0 then Some SingleWriter else if v = 1 then Some CasMerge else None)"

datatype record_error =
    Decode decode_error
  | Sign sign_error
  | BadWidth string usize usize
  | FieldCount usize usize
  | BadRegime u8
  | GenesisMismatch u64 bool
  | BadSignature
  | WriterMismatch

record slot_record =
  sr_slot_id :: slot_id
  sr_seq :: u64
  sr_root :: addr
  sr_root_nonce :: bytes
  sr_writer_id :: writer_id
  sr_prev :: hash32
  sr_regime :: regime
  sr_sig :: bytes

definition genesis_ok :: "u64 \<Rightarrow> hash32 \<Rightarrow> bool" where
  "genesis_ok seq prev = ((seq = 0) = all_zero prev)"

definition check_genesis :: "u64 \<Rightarrow> hash32 \<Rightarrow> record_error + unit" where
  "check_genesis seq prev = require (genesis_ok seq prev) (GenesisMismatch seq (all_zero prev))"

definition body_fields :: "slot_record \<Rightarrow> bytes list" where
  "body_fields r =
    [sr_slot_id r, u64_le (sr_seq r), sr_root r, sr_root_nonce r, sr_writer_id r, sr_prev r,
     [regime_u8 (sr_regime r)]]"

definition slot_body :: "slot_record \<Rightarrow> decode_error + bytes" where
  "slot_body r = encode_fields (body_fields r)"

definition SlotRecord_sign ::
  "backend \<Rightarrow> identity \<Rightarrow> slot_id \<Rightarrow> u64 \<Rightarrow> addr \<Rightarrow> bytes \<Rightarrow> hash32 \<Rightarrow> regime \<Rightarrow> record_error + slot_record"
where
  "SlotRecord_sign B i slot seq root root_nonce prev regime =
    (let r = \<lparr>sr_slot_id = slot, sr_seq = seq, sr_root = root, sr_root_nonce = root_nonce,
              sr_writer_id = WriterId_of_key B (verifying_key i), sr_prev = prev,
              sr_regime = regime, sr_sig = []\<rparr>
     in rbind (check_genesis seq prev) (\<lambda>_.
        rbind (map_err Decode (slot_body r)) (\<lambda>b.
        rbind (map_err Sign (Identity_sign i CtxSlot b)) (\<lambda>sig.
        Ok (r\<lparr>sr_sig := sig\<rparr>)))))"

definition SlotRecord_verify :: "backend \<Rightarrow> slot_record \<Rightarrow> bytes \<Rightarrow> record_error + unit" where
  "SlotRecord_verify B r vk =
    (if WriterId_of_key B vk \<noteq> sr_writer_id r then Err WriterMismatch
     else rbind (check_genesis (sr_seq r) (sr_prev r)) (\<lambda>_.
          rbind (map_err Decode (slot_body r)) (\<lambda>b.
          map_err (\<lambda>_. BadSignature) (sig_check B vk CtxSlot b (sr_sig r)))))"

text \<open>
  \<open>record_hash\<close> calls \<open>expect\<close> on the body: the branch that would panic is the empty body here,
  and \<open>slot_body_total\<close> shows that no record with the struct's widths reaches it.
\<close>

definition expect_ok :: "'e + bytes \<Rightarrow> bytes" where
  "expect_ok m = (case m of Inl _ \<Rightarrow> [] | Inr b \<Rightarrow> b)"

definition record_hash_preimage :: "slot_record \<Rightarrow> bytes" where
  "record_hash_preimage r =
    (let b = expect_ok (slot_body r)
     in RECORD_HASH_DOMAIN @ u64_le (of_nat (length b)) @ b @ sr_sig r)"

definition record_hash :: "backend \<Rightarrow> slot_record \<Rightarrow> hash32" where
  "record_hash B r = blake3 B (record_hash_preimage r)"

definition sig_hash :: "backend \<Rightarrow> slot_record \<Rightarrow> hash32" where
  "sig_hash B r = blake3 B (sr_sig r)"

definition SlotRecord_fields :: "slot_record \<Rightarrow> bytes list" where
  "SlotRecord_fields r =
    [sr_slot_id r, u64_le (sr_seq r), sr_root r, sr_root_nonce r, sr_writer_id r, sr_prev r,
     [regime_u8 (sr_regime r)], sr_sig r]"

definition SlotRecord_encode :: "slot_record \<Rightarrow> record_error + bytes" where
  "SlotRecord_encode r = map_err Decode (encode_fields (SlotRecord_fields r))"

definition SlotRecord_of_fields :: "backend \<Rightarrow> bytes list \<Rightarrow> record_error + slot_record" where
  "SlotRecord_of_fields B f =
    (if length f \<noteq> 8 then Err (FieldCount 8 (length f)) else
     rbind (fixed_width BadWidth 32 ''slot_id'' (f ! 0)) (\<lambda>slot.
     rbind (fixed_width BadWidth 8 ''seq'' (f ! 1)) (\<lambda>seq.
     rbind (fixed_width BadWidth ADDR_LEN ''root'' (f ! 2)) (\<lambda>root.
     rbind (fixed_width BadWidth ROOT_NONCE_LEN ''root_nonce'' (f ! 3)) (\<lambda>nonce.
     rbind (fixed_width BadWidth 32 ''writer_id'' (f ! 4)) (\<lambda>writer.
     rbind (fixed_width BadWidth 32 ''prev'' (f ! 5)) (\<lambda>prev.
     rbind (fixed_width BadWidth 1 ''regime'' (f ! 6)) (\<lambda>rb.
     rbind (ok_or (Regime_from_u8 (hd rb)) (BadRegime (hd rb))) (\<lambda>regime.
     if length (f ! 7) \<noteq> SIG_SIZE B then Err (BadWidth ''sig'' (SIG_SIZE B) (length (f ! 7))) else
     rbind (check_genesis (u64_of_le seq) prev) (\<lambda>_.
     Ok \<lparr>sr_slot_id = slot, sr_seq = u64_of_le seq, sr_root = root, sr_root_nonce = nonce,
         sr_writer_id = writer, sr_prev = prev, sr_regime = regime, sr_sig = f ! 7\<rparr>))))))))))"

definition SlotRecord_decode :: "backend \<Rightarrow> bytes \<Rightarrow> record_error + slot_record" where
  "SlotRecord_decode B bs =
    rbind (map_err Decode (decode_fields bs)) (SlotRecord_of_fields B)"

section \<open>Well-formed records\<close>

definition widths_SlotRecord :: "slot_record \<Rightarrow> bool" where
  "widths_SlotRecord r \<longleftrightarrow> arr 32 (sr_slot_id r) \<and> arr ADDR_LEN (sr_root r) \<and>
    arr ROOT_NONCE_LEN (sr_root_nonce r) \<and> arr 32 (sr_writer_id r) \<and> arr 32 (sr_prev r)"

definition wf_SlotRecord :: "backend \<Rightarrow> slot_record \<Rightarrow> bool" where
  "wf_SlotRecord B r \<longleftrightarrow> widths_SlotRecord r \<and> arr (SIG_SIZE B) (sr_sig r) \<and>
    genesis_ok (sr_seq r) (sr_prev r)"

lemma check_genesis_Inr_iff [result_elims]:
  "check_genesis seq prev = Inr u \<longleftrightarrow> genesis_ok seq prev"
  by (simp add: check_genesis_def require_Inr_iff)

lemma Regime_from_u8_iff: "Regime_from_u8 v = Some g \<longleftrightarrow> v = regime_u8 g"
  by (cases g) (auto simp: Regime_from_u8_def)

interpretation slot_record: field_codec SlotRecord_fields "SlotRecord_of_fields B" "wf_SlotRecord B" Decode
  for B
proof unfold_locales
  fix fs and r :: slot_record
  show "SlotRecord_of_fields B fs = Inr r \<longleftrightarrow> wf_SlotRecord B r \<and> SlotRecord_fields r = fs"
  proof (cases "length fs = 8")
    case True
    then obtain a b c d e f g h where fs: "fs = [a, b, c, d, e, f, g, h]"
      by (auto simp: length_Suc_conv numeral_eq_Suc)
    show ?thesis
      unfolding fs SlotRecord_of_fields_def SlotRecord_fields_def wf_SlotRecord_def
        widths_SlotRecord_def
      by (auto simp: result_elims Regime_from_u8_iff length1_hd_eq)
  next
    case False
    then show ?thesis by (auto simp: SlotRecord_of_fields_def SlotRecord_fields_def)
  qed
qed

lemma body_fields_ok: "widths_SlotRecord r \<Longrightarrow> list_all field_ok (body_fields r)"
  by (simp add: widths_SlotRecord_def body_fields_def MAX_FIELD_def ADDR_LEN_def ROOT_NONCE_LEN_def)

lemma slot_body_total: "widths_SlotRecord r \<Longrightarrow> slot_body r = Ok (concat (map frame (body_fields r)))"
  by (simp add: slot_body_def encode_fields_ok body_fields_ok)

lemma length_slot_body:
  "widths_SlotRecord r \<Longrightarrow> slot_body r = Inr b \<Longrightarrow> length b = 189"
  using slot_body_total [of r]
  by (auto simp: body_fields_def widths_SlotRecord_def ADDR_LEN_def ROOT_NONCE_LEN_def)

lemma slot_body_inj:
  assumes "slot_body r = Inr b" and "slot_body s = Inr b"
  shows "body_fields r = body_fields s"
  using assms fields.enc_inj unfolding slot_body_def by blast

lemma regime_u8_inj [simp]: "regime_u8 a = regime_u8 b \<longleftrightarrow> a = b"
  by (cases a; cases b) simp_all

lemma slot_record_eqI: "body_fields r = body_fields s \<Longrightarrow> sr_sig r = sr_sig s \<Longrightarrow> r = (s :: slot_record)"
  by (simp add: body_fields_def)

lemma record_hash_preimage_inj:
  assumes "widths_SlotRecord r" and "widths_SlotRecord s"
    and "record_hash_preimage r = record_hash_preimage s"
  shows "r = s"
proof -
  obtain b c where b: "slot_body r = Inr b" and c: "slot_body s = Inr c"
    using assms(1,2) slot_body_total by blast
  have "length b = length c"
    using length_slot_body [OF assms(1) b] length_slot_body [OF assms(2) c] by simp
  then have "b = c" and "sr_sig r = sr_sig s"
    using assms(3) b c by (auto simp: record_hash_preimage_def expect_ok_def Let_def)
  with b c slot_body_inj slot_record_eqI show ?thesis by blast
qed

lemma record_hash_binds:
  "widths_SlotRecord r \<Longrightarrow> widths_SlotRecord s \<Longrightarrow> record_hash B r = record_hash B s \<Longrightarrow>
    r = s \<or> collision B (record_hash_preimage r) (record_hash_preimage s)"
  using record_hash_preimage_inj by (auto simp: record_hash_def collision_def)

lemma SlotRecord_verify_Inr_iff:
  "SlotRecord_verify B r vk = Inr u \<longleftrightarrow>
    WriterId_of_key B vk = sr_writer_id r \<and> genesis_ok (sr_seq r) (sr_prev r) \<and>
    (\<exists>b. slot_body r = Inr b \<and> sig_check B vk CtxSlot b (sr_sig r) = Inr ())"
  by (auto simp: SlotRecord_verify_def result_elims)

section \<open>Properties\<close>

text \<open>
  A slot record has one wire form: \<open>SlotRecord::decode\<close> accepts a byte string exactly when it
  is the encoding of a record with the struct's widths, a signature of the backend's length and
  the genesis rule (an all-zero \<open>prev\<close> at sequence 0 and nowhere else).
\<close>

theorem slot_record_decode_iff:
  "SlotRecord_decode B bs = Ok r \<longleftrightarrow> wf_SlotRecord B r \<and> SlotRecord_encode r = Ok bs"
  unfolding SlotRecord_decode_def SlotRecord_encode_def by (rule slot_record.dec_iff)

text \<open>
  A record the code signs is a record the code accepts: over a sound keypair and a 32-byte
  hash, a successful \<open>SlotRecord::sign\<close> yields a record that verifies under the signer's key and
  survives encoding and decoding.
\<close>

theorem slot_record_sign_verifies:
  assumes "sound_keypair B (id_kp i)" and "\<And>m. length (blake3 B m) = 32"
    and "arr 32 slot" and "arr ADDR_LEN root" and "arr ROOT_NONCE_LEN nonce" and "arr 32 prev"
    and "SIG_SIZE B \<le> MAX_FIELD"
    and "SlotRecord_sign B i slot seq root nonce prev regime = Ok r"
  shows "SlotRecord_verify B r (verifying_key i) = Ok () \<and>
    (\<exists>bs. SlotRecord_encode r = Ok bs \<and> SlotRecord_decode B bs = Ok r)"
proof -
  define r0 where "r0 = \<lparr>sr_slot_id = slot, sr_seq = seq, sr_root = root, sr_root_nonce = nonce,
      sr_writer_id = WriterId_of_key B (verifying_key i), sr_prev = prev, sr_regime = regime,
      sr_sig = []\<rparr>"
  obtain b sig where g: "genesis_ok seq prev" and b: "slot_body r0 = Inr b"
    and sig: "Identity_sign i CtxSlot b = Inr sig" and r: "r = r0\<lparr>sr_sig := sig\<rparr>"
    using assms(8) unfolding SlotRecord_sign_def r0_def Let_def
    by (auto simp: result_elims)
  have body: "slot_body r = Inr b"
    using b by (simp add: r slot_body_def body_fields_def r0_def)
  have verified: "SlotRecord_verify B r (verifying_key i) = Ok ()"
    using sign_then_check [OF assms(1) sig] g body
    by (simp add: SlotRecord_verify_Inr_iff r r0_def)
  have len: "length sig = SIG_SIZE B"
    using sign_length [OF assms(1) sig] by simp
  then have wf: "wf_SlotRecord B r"
    using assms(2-6) g
    by (simp add: wf_SlotRecord_def widths_SlotRecord_def r r0_def WriterId_of_key_def key_id_def)
  then have "list_all field_ok (SlotRecord_fields r)"
    using assms(7) len
    by (simp add: SlotRecord_fields_def wf_SlotRecord_def widths_SlotRecord_def MAX_FIELD_def
        ADDR_LEN_def ROOT_NONCE_LEN_def r)
  then have "SlotRecord_encode r = Ok (concat (map frame (SlotRecord_fields r)))"
    by (simp add: SlotRecord_encode_def encode_fields_ok)
  with wf verified show ?thesis
    by (auto simp: SlotRecord_decode_def SlotRecord_encode_def slot_record.dec_iff)
qed

definition toy_genesis :: slot_record where
  "toy_genesis = \<lparr>sr_slot_id = replicate 32 1, sr_seq = 0, sr_root = replicate 32 2,
     sr_root_nonce = replicate 24 3, sr_writer_id = toy_hash [7], sr_prev = replicate 32 0,
     sr_regime = SingleWriter, sr_sig = [7]\<rparr>"

lemma toy_genesis_signed:
  "SlotRecord_sign toy_backend (toy_identity 7) (replicate 32 1) 0 (replicate 32 2) (replicate 24 3)
     (replicate 32 0) SingleWriter = Ok toy_genesis"
proof -
  have "slot_body (toy_genesis\<lparr>sr_sig := []\<rparr>)
      = Ok (concat (map frame (body_fields (toy_genesis\<lparr>sr_sig := []\<rparr>))))"
    by (rule slot_body_total)
       (simp add: widths_SlotRecord_def toy_genesis_def ADDR_LEN_def ROOT_NONCE_LEN_def)
  then show ?thesis
    by (simp add: SlotRecord_sign_def toy_genesis_def check_genesis_def genesis_ok_def all_zero_def
        Identity_sign_def WriterId_of_key_def key_id_def list_all_iff)
qed

theorem slot_record_sign_verifies_witness:
  "SlotRecord_verify toy_backend toy_genesis (verifying_key (toy_identity 7)) = Ok () \<and>
   (\<exists>bs. SlotRecord_encode toy_genesis = Ok bs \<and> SlotRecord_decode toy_backend bs = Ok toy_genesis)"
  by (rule slot_record_sign_verifies [OF _ _ _ _ _ _ _ toy_genesis_signed])
     (simp_all add: ADDR_LEN_def ROOT_NONCE_LEN_def MAX_FIELD_def)

end
