(* ===== verification/Hash_Chain.thy ===== *)
theory Hash_Chain
  imports Prelude
begin

text \<open>
  What the slot chain (\<open>nas-slots\<close>) and the lease chain (\<open>nas-lease\<close>) have in common: records
  with contiguous sequence numbers, each naming the hash of its predecessor. The locale
  \<open>hash_chain\<close> is the interface of a record type whose hash binds its contents; its lemma
  \<open>head_commits\<close> says that the head hash fixes the whole history, up to a hash collision that
  the two histories exhibit.
\<close>

fun linked :: "('r \<Rightarrow> 'h) \<Rightarrow> ('r \<Rightarrow> 'h) \<Rightarrow> 'h \<Rightarrow> 'r list \<Rightarrow> bool" where
  "linked prev hash l [] = True"
| "linked prev hash l (r # rs) = (prev r = l \<and> linked prev hash (hash r) rs)"

fun head_link :: "('r \<Rightarrow> 'h) \<Rightarrow> 'h \<Rightarrow> 'r list \<Rightarrow> 'h" where
  "head_link hash l [] = l"
| "head_link hash l (r # rs) = head_link hash (hash r) rs"

fun contiguous :: "('r \<Rightarrow> u64) \<Rightarrow> u64 \<Rightarrow> 'r list \<Rightarrow> bool" where
  "contiguous seqn s [] = True"
| "contiguous seqn s (r # rs) = (seqn r = s \<and> contiguous seqn (saturating_add s 1) rs)"

lemma linked_append [simp]:
  "linked prev hash l (rs @ ss) \<longleftrightarrow> linked prev hash l rs \<and> linked prev hash (head_link hash l rs) ss"
  by (induction rs arbitrary: l) auto

lemma head_link_last: "rs \<noteq> [] \<Longrightarrow> head_link hash l rs = hash (last rs)"
  by (induction rs arbitrary: l) auto

lemma head_link_append [simp]: "head_link hash l (rs @ ss) = head_link hash (head_link hash l rs) ss"
  by (induction rs arbitrary: l) auto

text \<open>The sequence numbers count up by one and stop at the largest \<open>u64\<close>.\<close>

lemma contiguous_nth:
  "contiguous seqn s rs \<Longrightarrow> i < length rs \<Longrightarrow> unat (seqn (rs ! i)) = min (unat s + i) (2 ^ 64 - 1)"
proof (induction rs arbitrary: s i)
  case Nil
  then show ?case by simp
next
  case (Cons r rs)
  have "unat s \<le> 2 ^ 64 - 1"
    using unat_less_pow [of s] by simp
  moreover have "unat (saturating_add s 1) = min (unat s + 1) (2 ^ 64 - 1)"
    by (simp add: unat_saturating_add)
  ultimately show ?case using Cons by (cases i) auto
qed

lemma contiguous_strict:
  assumes "contiguous seqn s rs" and "unat s + length rs \<le> 2 ^ 64" and "i < j" and "j < length rs"
  shows "seqn (rs ! i) < seqn (rs ! j)"
  using assms contiguous_nth [of seqn s rs i] contiguous_nth [of seqn s rs j]
  by (simp add: word_less_nat_alt)

locale hash_chain =
  fixes prev :: "'r \<Rightarrow> 'h" and hash :: "'r \<Rightarrow> 'h" and dom :: "'r \<Rightarrow> bool"
    and coll :: "'r \<Rightarrow> 'r \<Rightarrow> bool"
  assumes binds: "dom r \<Longrightarrow> dom s \<Longrightarrow> hash r = hash s \<Longrightarrow> r = s \<or> coll r s"
begin

lemma head_commits:
  assumes "linked prev hash l rs" and "linked prev hash m ss" and "length rs = length ss"
    and "head_link hash l rs = head_link hash m ss"
    and "\<And>r. r \<in> set rs \<union> set ss \<Longrightarrow> dom r"
  shows "rs = ss \<and> l = m \<or> (\<exists>r \<in> set rs. \<exists>s \<in> set ss. coll r s)"
  using assms
proof (induction rs arbitrary: ss rule: rev_induct)
  case Nil
  then show ?case by simp
next
  case (snoc r rs)
  then obtain s ss' where ss: "ss = ss' @ [s]"
    by (cases ss rule: rev_cases) auto
  have "r = s \<or> coll r s"
    using snoc.prems binds by (auto simp: ss)
  then show ?case
  proof
    assume "r = s"
    have "rs = ss' \<and> l = m \<or> (\<exists>r \<in> set rs. \<exists>s \<in> set ss'. coll r s)"
      using snoc.prems \<open>r = s\<close> by (intro snoc.IH) (auto simp: ss)
    with \<open>r = s\<close> show ?thesis by (auto simp: ss)
  qed (auto simp: ss)
qed

lemma common_prefix:
  assumes "linked prev hash l rs" and "linked prev hash m ss" and "i < length rs" and "i < length ss"
    and "hash (rs ! i) = hash (ss ! i)" and "\<And>r. r \<in> set rs \<union> set ss \<Longrightarrow> dom r"
  shows "take (Suc i) rs = take (Suc i) ss \<and> l = m \<or> (\<exists>r \<in> set rs. \<exists>s \<in> set ss. coll r s)"
proof -
  have split: "linked prev hash k xs \<Longrightarrow> i < length xs \<Longrightarrow>
      linked prev hash k (take (Suc i) xs) \<and> head_link hash k (take (Suc i) xs) = hash (xs ! i)"
    for k xs
    by (metis append_take_drop_id linked_append head_link_append take_Suc_conv_app_nth
        head_link.simps)
  have "take (Suc i) rs = take (Suc i) ss \<and> l = m \<or>
      (\<exists>r \<in> set (take (Suc i) rs). \<exists>s \<in> set (take (Suc i) ss). coll r s)"
    using split [OF assms(1,3)] split [OF assms(2,4)] assms(3-6)
    by (intro head_commits) (auto dest: in_set_takeD)
  then show ?thesis by (meson in_set_takeD)
qed

end

end
