(* ===== verification/BTree.thy ===== *)
theory BTree
  imports Prelude
begin

text \<open>
  The standard library's \<open>BTreeMap\<close> and \<open>BTreeSet\<close>, whose iteration order the sources rely on
  (canonical encodings, the lowest forked sequence): a set is a strictly ascending list, a map
  an association list with strictly ascending keys. The interface a client may rely on is the
  locale \<open>ordered_map\<close>, with \<open>ordered_set\<close> for sets; both are interpreted on the list
  operations below.
\<close>

named_theorems btree_simps

section \<open>Interfaces\<close>

locale ordered_set =
  fixes empty_s :: "'s" and insert_s :: "'a::linorder \<Rightarrow> 's \<Rightarrow> 's" and remove_s :: "'a \<Rightarrow> 's \<Rightarrow> 's"
    and elems :: "'s \<Rightarrow> 'a list" and inv_s :: "'s \<Rightarrow> bool"
  assumes elems_empty: "elems empty_s = []"
    and inv_empty_s: "inv_s empty_s"
    and elems_ascending: "inv_s s \<Longrightarrow> sorted_wrt (<) (elems s)"
    and set_insert_s: "inv_s s \<Longrightarrow> set (elems (insert_s x s)) = insert x (set (elems s))"
    and inv_insert_s: "inv_s s \<Longrightarrow> inv_s (insert_s x s)"
    and set_remove_s: "inv_s s \<Longrightarrow> set (elems (remove_s x s)) = set (elems s) - {x}"
    and inv_remove_s: "inv_s s \<Longrightarrow> inv_s (remove_s x s)"
begin

lemma inv_fold_insert: "inv_s s \<Longrightarrow> inv_s (fold insert_s xs s)"
  by (induction xs arbitrary: s) (auto simp: inv_insert_s)

lemma set_fold_insert: "inv_s s \<Longrightarrow> set (elems (fold insert_s xs s)) = set xs \<union> set (elems s)"
  by (induction xs arbitrary: s) (auto simp: set_insert_s inv_insert_s)

lemma inv_fold_remove: "inv_s s \<Longrightarrow> inv_s (fold remove_s xs s)"
  by (induction xs arbitrary: s) (auto simp: inv_remove_s)

lemma set_fold_remove: "inv_s s \<Longrightarrow> set (elems (fold remove_s xs s)) = set (elems s) - set xs"
  by (induction xs arbitrary: s) (auto simp: set_remove_s inv_remove_s)

lemma length_elems: "inv_s s \<Longrightarrow> length (elems s) = card (set (elems s))"
  by (metis distinct_card elems_ascending strict_sorted_iff)

lemma elems_unique: "inv_s s \<Longrightarrow> inv_s t \<Longrightarrow> set (elems s) = set (elems t) \<Longrightarrow> elems s = elems t"
  by (simp add: elems_ascending strict_sorted_equal)

end

locale ordered_map =
  fixes empty_m :: "'m" and insert_m :: "'k::linorder \<Rightarrow> 'v \<Rightarrow> 'm \<Rightarrow> 'm"
    and remove_m :: "'k \<Rightarrow> 'm \<Rightarrow> 'm" and get_m :: "'m \<Rightarrow> 'k \<Rightarrow> 'v option"
    and entries :: "'m \<Rightarrow> ('k \<times> 'v) list" and inv_m :: "'m \<Rightarrow> bool"
  assumes inv_empty_m: "inv_m empty_m"
    and get_empty_m: "get_m empty_m k = None"
    and entries_ascending: "inv_m m \<Longrightarrow> sorted_wrt (<) (map fst (entries m))"
    and get_entries: "inv_m m \<Longrightarrow> get_m m k = map_of (entries m) k"
    and get_insert_m: "inv_m m \<Longrightarrow> get_m (insert_m k v m) = (get_m m)(k \<mapsto> v)"
    and inv_insert_m: "inv_m m \<Longrightarrow> inv_m (insert_m k v m)"
    and get_remove_m: "inv_m m \<Longrightarrow> get_m (remove_m k m) = (get_m m)(k := None)"
    and inv_remove_m: "inv_m m \<Longrightarrow> inv_m (remove_m k m)"
begin

lemma get_Some_iff: "inv_m m \<Longrightarrow> get_m m k = Some v \<longleftrightarrow> (k, v) \<in> set (entries m)"
  by (metis entries_ascending get_entries map_of_eq_Some_iff strict_sorted_iff)

lemma get_insert_same: "inv_m m \<Longrightarrow> get_m (insert_m k v m) k = Some v"
  by (simp add: get_insert_m)

lemma get_insert_other: "inv_m m \<Longrightarrow> j \<noteq> k \<Longrightarrow> get_m (insert_m k v m) j = get_m m j"
  by (simp add: get_insert_m)

end

section \<open>\<open>BTreeSet\<close>\<close>

type_synonym 'a btreeset = "'a list"

fun bts_insert :: "'a::linorder \<Rightarrow> 'a btreeset \<Rightarrow> 'a btreeset" where
  "bts_insert x [] = [x]"
| "bts_insert x (y # ys) =
    (if x < y then x # y # ys else if x = y then y # ys else y # bts_insert x ys)"

fun bts_remove :: "'a::linorder \<Rightarrow> 'a btreeset \<Rightarrow> 'a btreeset" where
  "bts_remove x [] = []"
| "bts_remove x (y # ys) = (if x = y then ys else y # bts_remove x ys)"

definition bts_of_list :: "'a::linorder list \<Rightarrow> 'a btreeset" where
  "bts_of_list xs = fold bts_insert xs []"

abbreviation bts_inv :: "'a::linorder btreeset \<Rightarrow> bool" where
  "bts_inv \<equiv> sorted_wrt (<)"

lemma set_bts_insert [simp]: "set (bts_insert x ys) = insert x (set ys)"
  by (induction ys) auto

lemma bts_inv_insert [simp]: "bts_inv ys \<Longrightarrow> bts_inv (bts_insert x ys)"
  by (induction ys) auto

lemma set_bts_remove: "bts_inv ys \<Longrightarrow> set (bts_remove x ys) = set ys - {x}"
  by (induction ys) auto

lemma set_bts_remove_subset: "set (bts_remove x ys) \<subseteq> set ys"
  by (induction ys) auto

lemma bts_inv_remove [simp]: "bts_inv ys \<Longrightarrow> bts_inv (bts_remove x ys)"
proof (induction ys)
  case Nil
  then show ?case by simp
next
  case (Cons y ys)
  then show ?case using set_bts_remove_subset [of x ys] by auto
qed

interpretation bts: ordered_set "[]" bts_insert bts_remove "\<lambda>s. s" bts_inv
  by unfold_locales (auto simp: set_bts_remove)

lemma bts_of_list_inv [simp, btree_simps]: "bts_inv (bts_of_list xs)"
  by (simp add: bts_of_list_def bts.inv_fold_insert)

lemma set_bts_of_list [simp, btree_simps]: "set (bts_of_list xs) = set xs"
  by (simp add: bts_of_list_def bts.set_fold_insert)

lemma bts_of_list_id: "bts_inv xs \<Longrightarrow> bts_of_list xs = xs"
  by (rule strict_sorted_equal) auto

section \<open>\<open>BTreeMap\<close>\<close>

type_synonym ('k, 'v) btreemap = "('k \<times> 'v) list"

fun btm_insert :: "'k::linorder \<Rightarrow> 'v \<Rightarrow> ('k, 'v) btreemap \<Rightarrow> ('k, 'v) btreemap" where
  "btm_insert k v [] = [(k, v)]"
| "btm_insert k v ((j, w) # m) =
    (if k < j then (k, v) # (j, w) # m
     else if k = j then (k, v) # m else (j, w) # btm_insert k v m)"

fun btm_remove :: "'k::linorder \<Rightarrow> ('k, 'v) btreemap \<Rightarrow> ('k, 'v) btreemap" where
  "btm_remove k [] = []"
| "btm_remove k ((j, w) # m) = (if k = j then m else (j, w) # btm_remove k m)"

abbreviation btm_get :: "('k, 'v) btreemap \<Rightarrow> 'k \<Rightarrow> 'v option" where
  "btm_get \<equiv> map_of"

abbreviation btm_inv :: "('k::linorder, 'v) btreemap \<Rightarrow> bool" where
  "btm_inv m \<equiv> sorted_wrt (<) (map fst m)"

lemma btm_get_insert [simp, btree_simps]: "btm_get (btm_insert k v m) = (btm_get m)(k \<mapsto> v)"
  by (induction m) (auto simp: fun_eq_iff)

lemma keys_btm_insert [simp]: "fst ` set (btm_insert k v m) = insert k (fst ` set m)"
  by (induction k v m rule: btm_insert.induct) (auto intro: rev_image_eqI)

lemma btm_inv_insert [simp, btree_simps]: "btm_inv m \<Longrightarrow> btm_inv (btm_insert k v m)"
proof (induction m)
  case Nil
  then show ?case by simp
next
  case (Cons p m)
  obtain j w where p: "p = (j, w)" by (cases p)
  have "\<forall>x \<in> fst ` set m. j < x" using Cons.prems p by auto
  then show ?case
    using Cons p keys_btm_insert [of k v m] by (auto simp del: keys_btm_insert)
qed

lemma btm_insert_last: "\<forall>k \<in> fst ` set m. k < n \<Longrightarrow> btm_insert n v m = m @ [(n, v)]"
  by (induction m) (auto dest: less_asym)

lemma set_btm_insert_subset: "set (btm_insert k v m) \<subseteq> insert (k, v) (set m)"
  by (induction k v m rule: btm_insert.induct) auto

lemma btm_remove_subset: "set (btm_remove k m) \<subseteq> set m"
  by (induction m) (auto split: if_splits)

lemma btm_inv_remove [simp, btree_simps]: "btm_inv m \<Longrightarrow> btm_inv (btm_remove k m)"
proof (induction m)
  case Nil
  then show ?case by simp
next
  case (Cons p m)
  then show ?case using btm_remove_subset [of k m] by (cases p) auto
qed

lemma btm_get_remove: "btm_inv m \<Longrightarrow> btm_get (btm_remove k m) = (btm_get m)(k := None)"
proof (induction m)
  case Nil
  then show ?case by (simp add: fun_eq_iff)
next
  case (Cons p m)
  then have "map_of m (fst p) = None"
    by (cases p) (fastforce simp: map_of_eq_None_iff)
  with Cons show ?case by (cases p) (auto simp: fun_eq_iff)
qed

interpretation btm: ordered_map "[]" btm_insert btm_remove btm_get "\<lambda>m. m" btm_inv
  by unfold_locales (auto simp: btm_get_remove)

text \<open>\<open>entry(k).or_default()\<close> followed by an in-place update of the value.\<close>

definition btm_upsert :: "'k::linorder \<Rightarrow> 'v \<Rightarrow> ('v \<Rightarrow> 'v) \<Rightarrow> ('k, 'v) btreemap \<Rightarrow> ('k, 'v) btreemap" where
  "btm_upsert k d f m = btm_insert k (f (case btm_get m k of None \<Rightarrow> d | Some v \<Rightarrow> v)) m"

lemma btm_get_upsert:
  "btm_get (btm_upsert k d f m) j =
    (if j = k then Some (f (case btm_get m k of None \<Rightarrow> d | Some v \<Rightarrow> v)) else btm_get m j)"
  by (simp add: btm_upsert_def)

lemma btm_inv_upsert [simp]: "btm_inv m \<Longrightarrow> btm_inv (btm_upsert k d f m)"
  by (simp add: btm_upsert_def)

text \<open>\<open>entry(k).or_insert(v)\<close>: the first value filed under a key stays.\<close>

definition btm_or_insert :: "'k::linorder \<Rightarrow> 'v \<Rightarrow> ('k, 'v) btreemap \<Rightarrow> ('k, 'v) btreemap" where
  "btm_or_insert k v m = (case btm_get m k of None \<Rightarrow> btm_insert k v m | Some _ \<Rightarrow> m)"

lemma btm_get_or_insert:
  "btm_get (btm_or_insert k v m) j =
    (if j = k \<and> btm_get m k = None then Some v else btm_get m j)"
  by (auto simp: btm_or_insert_def split: option.splits)

lemma btm_inv_or_insert [simp]: "btm_inv m \<Longrightarrow> btm_inv (btm_or_insert k v m)"
  by (auto simp: btm_or_insert_def split: option.splits)

end
