(* ===== verification/Slot_Chain.thy ===== *)
theory Slot_Chain
  imports Slot_Record Hash_Chain BTree
begin

text \<open>
  \<open>nas-slots/src/roster.rs\<close>, \<open>handoff.rs\<close> and \<open>chain.rs\<close>: who may write a slot, the signed
  change of a single writer, and the walk that verifies a slot's history. \<open>valid_slot_chain\<close> is
  the specification of a history the walk must accept, and nothing else.
\<close>

section \<open>The roster\<close>

type_synonym roster = "(writer_id, bytes) btreemap"

datatype roster_error = BadKeyLength usize | Duplicate writer_id

definition Roster_new :: roster where
  "Roster_new = []"

definition Roster_add :: "backend \<Rightarrow> roster \<Rightarrow> bytes \<Rightarrow> roster_error + (roster \<times> writer_id)" where
  "Roster_add B ros vk =
    (if length vk \<noteq> VK_SIZE B then Err (BadKeyLength (length vk))
     else let wid = WriterId_of_key B vk
          in if btm_get ros wid \<noteq> None then Err (Duplicate wid)
             else Ok (btm_insert wid vk ros, wid))"

definition Roster_get :: "roster \<Rightarrow> writer_id \<Rightarrow> bytes option" where
  "Roster_get ros wid = btm_get ros wid"

definition Roster_contains :: "roster \<Rightarrow> writer_id \<Rightarrow> bool" where
  "Roster_contains ros wid = (btm_get ros wid \<noteq> None)"

definition Roster_remove :: "roster \<Rightarrow> writer_id \<Rightarrow> roster \<times> bool" where
  "Roster_remove ros wid = (btm_remove wid ros, btm_get ros wid \<noteq> None)"

definition Roster_len :: "roster \<Rightarrow> usize" where
  "Roster_len ros = length ros"

text \<open>Every key is filed under its own id, once, and has the backend's key length.\<close>

definition roster_inv :: "backend \<Rightarrow> roster \<Rightarrow> bool" where
  "roster_inv B ros \<longleftrightarrow> btm_inv ros \<and>
    (\<forall>wid vk. Roster_get ros wid = Some vk \<longrightarrow> WriterId_of_key B vk = wid \<and> length vk = VK_SIZE B)"

lemma roster_inv_new [simp]: "roster_inv B Roster_new"
  by (simp add: roster_inv_def Roster_new_def Roster_get_def)

lemma roster_inv_add:
  "roster_inv B ros \<Longrightarrow> Roster_add B ros vk = Inr (ros', wid) \<Longrightarrow>
    roster_inv B ros' \<and> wid = WriterId_of_key B vk \<and> Roster_get ros' = (Roster_get ros)(wid \<mapsto> vk) \<and>
    Roster_get ros wid = None"
  by (auto simp: Roster_add_def roster_inv_def Roster_get_def Let_def split: if_splits)

lemma roster_inv_remove:
  "roster_inv B ros \<Longrightarrow> roster_inv B (fst (Roster_remove ros wid)) \<and>
    Roster_get (fst (Roster_remove ros wid)) = (Roster_get ros)(wid := None)"
  by (auto simp: Roster_remove_def roster_inv_def Roster_get_def btm_get_remove)

section \<open>Handoffs\<close>

datatype handoff_error =
    Decode decode_error
  | Sign sign_error
  | BadWidth string usize usize
  | FieldCount usize usize
  | BadSignature
  | SelfHandoff writer_id

record slot_handoff =
  sh_slot_id :: slot_id
  sh_at_seq :: u64
  sh_from_pk :: bytes
  sh_to :: writer_id
  sh_sig :: bytes

definition handoff_body :: "slot_id \<Rightarrow> u64 \<Rightarrow> writer_id \<Rightarrow> writer_id \<Rightarrow> bytes" where
  "handoff_body slot at_seq from to = expect_ok (encode_fields [slot, u64_le at_seq, from, to])"

definition SlotHandoff_sign ::
  "backend \<Rightarrow> identity \<Rightarrow> slot_id \<Rightarrow> u64 \<Rightarrow> writer_id \<Rightarrow> handoff_error + slot_handoff" where
  "SlotHandoff_sign B outgoing slot at_seq to =
    (let from = WriterId_of_key B (verifying_key outgoing)
     in if from = to then Err (SelfHandoff to)
        else rbind (map_err Sign (Identity_sign outgoing CtxSlotHandoff (handoff_body slot at_seq from to)))
               (\<lambda>sig. Ok \<lparr>sh_slot_id = slot, sh_at_seq = at_seq,
                   sh_from_pk = verifying_key outgoing, sh_to = to, sh_sig = sig\<rparr>))"

definition SlotHandoff_from :: "backend \<Rightarrow> slot_handoff \<Rightarrow> writer_id" where
  "SlotHandoff_from B h = key_id B (sh_from_pk h)"

definition SlotHandoff_verify :: "backend \<Rightarrow> slot_handoff \<Rightarrow> handoff_error + unit" where
  "SlotHandoff_verify B h =
    (let from = SlotHandoff_from B h
     in if from = sh_to h then Err (SelfHandoff (sh_to h))
        else map_err (\<lambda>_. BadSignature)
               (sig_check B (sh_from_pk h) CtxSlotHandoff
                  (handoff_body (sh_slot_id h) (sh_at_seq h) from (sh_to h)) (sh_sig h)))"

definition authorises :: "backend \<Rightarrow> slot_handoff \<Rightarrow> slot_id \<Rightarrow> u64 \<Rightarrow> writer_id \<Rightarrow> writer_id \<Rightarrow> bool" where
  "authorises B h slot at_seq from to \<longleftrightarrow>
    sh_slot_id h = slot \<and> sh_at_seq h = at_seq \<and> SlotHandoff_from B h = from \<and> sh_to h = to \<and>
    \<not> is_err (SlotHandoff_verify B h)"

definition SlotHandoff_fields :: "slot_handoff \<Rightarrow> bytes list" where
  "SlotHandoff_fields h = [sh_slot_id h, u64_le (sh_at_seq h), sh_from_pk h, sh_to h, sh_sig h]"

definition SlotHandoff_encode :: "slot_handoff \<Rightarrow> handoff_error + bytes" where
  "SlotHandoff_encode h = map_err Decode (encode_fields (SlotHandoff_fields h))"

definition SlotHandoff_of_fields :: "backend \<Rightarrow> bytes list \<Rightarrow> handoff_error + slot_handoff" where
  "SlotHandoff_of_fields B f =
    (if length f \<noteq> 5 then Err (FieldCount 5 (length f))
     else if length (f ! 2) \<noteq> VK_SIZE B then Err (BadWidth ''from_pk'' (VK_SIZE B) (length (f ! 2)))
     else if length (f ! 4) \<noteq> SIG_SIZE B then Err (BadWidth ''sig'' (SIG_SIZE B) (length (f ! 4)))
     else rbind (fixed_width BadWidth 32 ''slot_id'' (f ! 0)) (\<lambda>slot.
          rbind (fixed_width BadWidth 8 ''at_seq'' (f ! 1)) (\<lambda>at_seq.
          rbind (fixed_width BadWidth 32 ''to'' (f ! 3)) (\<lambda>to.
          Ok \<lparr>sh_slot_id = slot, sh_at_seq = u64_of_le at_seq, sh_from_pk = f ! 2, sh_to = to,
              sh_sig = f ! 4\<rparr>))))"

definition SlotHandoff_decode :: "backend \<Rightarrow> bytes \<Rightarrow> handoff_error + slot_handoff" where
  "SlotHandoff_decode B bs = rbind (map_err Decode (decode_fields bs)) (SlotHandoff_of_fields B)"

definition wf_SlotHandoff :: "backend \<Rightarrow> slot_handoff \<Rightarrow> bool" where
  "wf_SlotHandoff B h \<longleftrightarrow> arr 32 (sh_slot_id h) \<and> arr (VK_SIZE B) (sh_from_pk h) \<and>
    arr 32 (sh_to h) \<and> arr (SIG_SIZE B) (sh_sig h)"

interpretation slot_handoff: field_codec SlotHandoff_fields "SlotHandoff_of_fields B" "wf_SlotHandoff B" Decode
  for B
proof unfold_locales
  fix fs and h :: slot_handoff
  show "SlotHandoff_of_fields B fs = Inr h \<longleftrightarrow> wf_SlotHandoff B h \<and> SlotHandoff_fields h = fs"
  proof (cases "length fs = 5")
    case True
    then obtain a b c d e where fs: "fs = [a, b, c, d, e]"
      by (auto simp: length_Suc_conv numeral_eq_Suc)
    show ?thesis
      unfolding fs SlotHandoff_of_fields_def SlotHandoff_fields_def wf_SlotHandoff_def
      by (auto simp: result_elims)
  next
    case False
    then show ?thesis by (auto simp: SlotHandoff_of_fields_def SlotHandoff_fields_def)
  qed
qed

lemma slot_handoff_decode_Inr_iff:
  "SlotHandoff_decode B bs = Inr h \<longleftrightarrow> wf_SlotHandoff B h \<and> SlotHandoff_encode h = Inr bs"
  unfolding SlotHandoff_decode_def SlotHandoff_encode_def by (rule slot_handoff.dec_iff)

lemma authorises_signed:
  "authorises B h slot at_seq from to \<Longrightarrow>
    from \<noteq> to \<and> key_id B (sh_from_pk h) = from \<and>
    sig_check B (sh_from_pk h) CtxSlotHandoff (handoff_body slot at_seq from to) (sh_sig h) = Inr ()"
  by (auto simp: authorises_def SlotHandoff_verify_def SlotHandoff_from_def is_err_iff Let_def
      result_elims split: if_splits)

section \<open>The walk\<close>

datatype chain_error =
    Record u64 record_error
  | UnknownWriter u64 writer_id
  | WrongSlot u64 slot_id slot_id
  | NotContiguous u64 u64
  | BrokenLink u64
  | RegimeChanged u64 regime regime
  | ConcurrentWriters u64 writer_id writer_id
  | Empty

record walk =
  wk_slot_id :: slot_id
  wk_regime :: regime
  wk_first_seq :: u64
  wk_head_seq :: u64
  wk_head_hash :: hash32

definition handed_over :: "backend \<Rightarrow> slot_handoff list \<Rightarrow> slot_id \<Rightarrow> writer_id \<Rightarrow> slot_record \<Rightarrow> bool" where
  "handed_over B handoffs slot w r =
    list_ex (\<lambda>h. authorises B h slot (sr_seq r) w (sr_writer_id r)) handoffs"

text \<open>The single-writer bookkeeping of one iteration: the new \<open>sole_writer\<close>, or the alarm.\<close>

definition track_writer ::
  "backend \<Rightarrow> slot_handoff list \<Rightarrow> slot_id \<Rightarrow> regime \<Rightarrow> writer_id option \<Rightarrow> slot_record
    \<Rightarrow> chain_error + writer_id option" where
  "track_writer B handoffs slot regime sole r =
    (if regime = SingleWriter then
       case sole of
         None \<Rightarrow> Ok (Some (sr_writer_id r))
       | Some w \<Rightarrow>
           if w \<noteq> sr_writer_id r then
             if handed_over B handoffs slot w r then Ok (Some (sr_writer_id r))
             else Err (ConcurrentWriters (sr_seq r) w (sr_writer_id r))
           else Ok (Some w)
     else Ok sole)"

fun chain_loop ::
  "backend \<Rightarrow> slot_id \<Rightarrow> roster \<Rightarrow> slot_handoff list \<Rightarrow> regime \<Rightarrow> u64 \<Rightarrow> hash32 \<Rightarrow> writer_id option
    \<Rightarrow> slot_record list \<Rightarrow> chain_error + hash32" where
  "chain_loop B slot ros handoffs regime expected link sole [] = Ok link"
| "chain_loop B slot ros handoffs regime expected link sole (r # rs) =
    (if sr_slot_id r \<noteq> slot then Err (WrongSlot (sr_seq r) slot (sr_slot_id r))
     else if sr_seq r \<noteq> expected then Err (NotContiguous expected (sr_seq r))
     else if sr_regime r \<noteq> regime then Err (RegimeChanged (sr_seq r) regime (sr_regime r))
     else if sr_prev r \<noteq> link then Err (BrokenLink (sr_seq r))
     else case Roster_get ros (sr_writer_id r) of
            None \<Rightarrow> Err (UnknownWriter (sr_seq r) (sr_writer_id r))
          | Some vk \<Rightarrow>
              rbind (map_err (Record (sr_seq r)) (SlotRecord_verify B r vk)) (\<lambda>_.
              rbind (track_writer B handoffs slot regime sole r) (\<lambda>sole'.
              chain_loop B slot ros handoffs regime (saturating_add (sr_seq r) 1)
                (record_hash B r) sole' rs)))"

definition ZERO32 :: hash32 where
  "ZERO32 = replicate 32 0"

definition verify_chain_with_handoffs ::
  "backend \<Rightarrow> slot_record list \<Rightarrow> slot_id \<Rightarrow> roster \<Rightarrow> hash32 option \<Rightarrow> slot_handoff list
    \<Rightarrow> chain_error + walk" where
  "verify_chain_with_handoffs B records slot ros expect_prev handoffs =
    (case records of
       [] \<Rightarrow> Err Empty
     | first # _ \<Rightarrow>
         rbind (chain_loop B slot ros handoffs (sr_regime first) (sr_seq first)
                  (case expect_prev of None \<Rightarrow> ZERO32 | Some h \<Rightarrow> h) None records) (\<lambda>link.
         Ok \<lparr>wk_slot_id = slot, wk_regime = sr_regime first, wk_first_seq = sr_seq first,
             wk_head_seq = sr_seq (last records), wk_head_hash = link\<rparr>))"

definition verify_chain ::
  "backend \<Rightarrow> slot_record list \<Rightarrow> slot_id \<Rightarrow> roster \<Rightarrow> hash32 option \<Rightarrow> chain_error + walk" where
  "verify_chain B records slot ros expect_prev =
    verify_chain_with_handoffs B records slot ros expect_prev []"

section \<open>What the walk accepts\<close>

definition record_accepted :: "backend \<Rightarrow> slot_id \<Rightarrow> roster \<Rightarrow> regime \<Rightarrow> slot_record \<Rightarrow> bool" where
  "record_accepted B slot ros regime r \<longleftrightarrow> sr_slot_id r = slot \<and> sr_regime r = regime \<and>
    (\<exists>vk. Roster_get ros (sr_writer_id r) = Some vk \<and> SlotRecord_verify B r vk = Ok ())"

fun writers_ok :: "(writer_id \<Rightarrow> slot_record \<Rightarrow> bool) \<Rightarrow> writer_id option \<Rightarrow> slot_record list \<Rightarrow> bool" where
  "writers_ok ok sole [] = True"
| "writers_ok ok sole (r # rs) =
    ((case sole of None \<Rightarrow> True | Some w \<Rightarrow> w = sr_writer_id r \<or> ok w r) \<and>
     writers_ok ok (Some (sr_writer_id r)) rs)"

abbreviation start_link :: "hash32 option \<Rightarrow> hash32" where
  "start_link ep \<equiv> case ep of None \<Rightarrow> ZERO32 | Some h \<Rightarrow> h"

definition valid_slot_chain ::
  "backend \<Rightarrow> slot_record list \<Rightarrow> slot_id \<Rightarrow> roster \<Rightarrow> hash32 option \<Rightarrow> slot_handoff list \<Rightarrow> bool" where
  "valid_slot_chain B rs slot ros ep handoffs \<longleftrightarrow> rs \<noteq> [] \<and>
    (\<forall>r \<in> set rs. record_accepted B slot ros (sr_regime (hd rs)) r) \<and>
    contiguous sr_seq (sr_seq (hd rs)) rs \<and>
    linked sr_prev (record_hash B) (start_link ep) rs \<and>
    (sr_regime (hd rs) = SingleWriter \<longrightarrow> writers_ok (handed_over B handoffs slot) None rs)"

definition walk_of :: "backend \<Rightarrow> slot_record list \<Rightarrow> slot_id \<Rightarrow> hash32 option \<Rightarrow> walk" where
  "walk_of B rs slot ep =
    \<lparr>wk_slot_id = slot, wk_regime = sr_regime (hd rs), wk_first_seq = sr_seq (hd rs),
     wk_head_seq = sr_seq (last rs), wk_head_hash = head_link (record_hash B) (start_link ep) rs\<rparr>"

lemma track_writer_Inr_iff:
  "track_writer B handoffs slot regime sole r = Inr s \<longleftrightarrow>
    (if regime = SingleWriter
     then (case sole of None \<Rightarrow> True | Some w \<Rightarrow> w = sr_writer_id r \<or> handed_over B handoffs slot w r) \<and>
          s = Some (sr_writer_id r)
     else s = sole)"
  by (auto simp: track_writer_def split: option.splits)

lemma chain_loop_Inr_iff:
  "chain_loop B slot ros handoffs regime expected link sole rs = Inr l \<longleftrightarrow>
    (\<forall>r \<in> set rs. record_accepted B slot ros regime r) \<and> contiguous sr_seq expected rs \<and>
    linked sr_prev (record_hash B) link rs \<and>
    (regime = SingleWriter \<longrightarrow> writers_ok (handed_over B handoffs slot) sole rs) \<and>
    l = head_link (record_hash B) link rs"
proof (induction rs arbitrary: slot regime expected link sole)
  case Nil
  then show ?case by auto
next
  case (Cons r rs)
  show ?case
    by (cases "regime = SingleWriter"; cases "Roster_get ros (sr_writer_id r)")
       (auto simp: Cons.IH rbind_Inr_iff map_err_Inr_iff track_writer_Inr_iff record_accepted_def
         split: if_splits)
qed

lemma verify_chain_Inr_iff:
  "verify_chain_with_handoffs B rs slot ros ep handoffs = Inr w \<longleftrightarrow>
    valid_slot_chain B rs slot ros ep handoffs \<and> w = walk_of B rs slot ep"
  by (cases rs)
     (auto simp: verify_chain_with_handoffs_def valid_slot_chain_def walk_of_def rbind_Inr_iff
       chain_loop_Inr_iff simp del: chain_loop.simps)

lemma record_accepted_wf:
  "record_accepted B slot ros regime r \<Longrightarrow>
    genesis_ok (sr_seq r) (sr_prev r) \<and> length (sr_sig r) = SIG_SIZE B"
  by (auto simp: record_accepted_def SlotRecord_verify_Inr_iff sig_check_Inr_iff)

lemma all_zero_ZERO32 [simp]: "all_zero ZERO32"
  by (simp add: all_zero_def ZERO32_def list_all_iff)

interpretation slot_chain: hash_chain sr_prev "record_hash B" widths_SlotRecord
    "\<lambda>r s. collision B (record_hash_preimage r) (record_hash_preimage s)"
  for B
  by unfold_locales (rule record_hash_binds)

lemma writers_ok_nth:
  "writers_ok ok sole rs \<Longrightarrow> Suc i < length rs \<Longrightarrow>
    sr_writer_id (rs ! i) = sr_writer_id (rs ! Suc i) \<or> ok (sr_writer_id (rs ! i)) (rs ! Suc i)"
proof (induction rs arbitrary: sole i)
  case Nil
  then show ?case by simp
next
  case (Cons r rs)
  have rest: "writers_ok ok (Some (sr_writer_id r)) rs" using Cons.prems(1) by simp
  show ?case
  proof (cases i)
    case 0
    then show ?thesis using rest Cons.prems(2) by (cases rs) auto
  next
    case (Suc j)
    then show ?thesis using Cons.IH [OF rest, of j] Cons.prems(2) by simp
  qed
qed

section \<open>Properties\<close>

text \<open>
  C8. The walk accepts exactly the valid histories: every record for this slot and regime, from
  a rostered writer whose key verifies it, sequence numbers contiguous, each record naming the
  hash of its predecessor from the given start, and under \<open>single-writer\<close> no change of writer
  without a handoff; and what it returns is the first and head sequence and the head's hash.
\<close>

theorem verify_chain_accepts_iff:
  "verify_chain_with_handoffs B rs slot ros ep handoffs = Ok w \<longleftrightarrow>
    valid_slot_chain B rs slot ros ep handoffs \<and> w = walk_of B rs slot ep"
  by (rule verify_chain_Inr_iff)

text \<open>
  A walk with no expected predecessor starts at genesis: an accepted unanchored history
  begins at sequence 0 and record \<open>i\<close> has sequence \<open>i\<close> (up to the saturation of \<open>u64\<close>), so a
  peer cannot pass off a suffix as a whole history.
\<close>

theorem unanchored_walk_starts_at_genesis:
  assumes "verify_chain_with_handoffs B rs slot ros None handoffs = Ok w"
  shows "wk_first_seq w = 0 \<and> (\<forall>i < length rs. unat (sr_seq (rs ! i)) = min i (2 ^ 64 - 1))"
proof -
  have v: "valid_slot_chain B rs slot ros None handoffs" and w: "w = walk_of B rs slot None"
    using assms by (simp_all add: verify_chain_Inr_iff)
  obtain r rest where rs: "rs = r # rest"
    using v by (cases rs) (auto simp: valid_slot_chain_def)
  have "record_accepted B slot ros (sr_regime r) r" and prev: "sr_prev r = ZERO32"
    using v by (auto simp: valid_slot_chain_def rs)
  then have "genesis_ok (sr_seq r) (sr_prev r)" using record_accepted_wf by blast
  with prev have "sr_seq r = 0" by (simp add: genesis_ok_def)
  moreover have "contiguous sr_seq (sr_seq r) rs"
    using v by (simp add: valid_slot_chain_def rs)
  ultimately show ?thesis
    using contiguous_nth [of sr_seq 0 rs] by (simp add: w walk_of_def rs)
qed

text \<open>
  C9. The head hash commits to the history: two accepted walks of the same length that end in
  the same head hash are walks of the same records from the same start, unless two of their
  records exhibit a collision of the hash function.
\<close>

theorem head_hash_commits_to_history:
  assumes "verify_chain_with_handoffs B rs slot ros ep handoffs = Ok w"
    and "verify_chain_with_handoffs B ss slot' ros' ep' handoffs' = Ok w'"
    and "wk_head_hash w = wk_head_hash w'" and "length rs = length ss"
    and "list_all widths_SlotRecord (rs @ ss)"
  shows "rs = ss \<and> start_link ep = start_link ep' \<or>
    (\<exists>r \<in> set rs. \<exists>s \<in> set ss. collision B (record_hash_preimage r) (record_hash_preimage s))"
  using assms
  by (intro slot_chain.head_commits)
     (auto simp: verify_chain_Inr_iff valid_slot_chain_def walk_of_def list_all_iff)

text \<open>
  Under \<open>single-writer\<close> ownership moves only by a signed handoff: wherever an accepted
  history changes writer, one of the handoffs names this slot, this sequence and both writers,
  and carries a valid signature of the outgoing writer's key.
\<close>

theorem writer_change_needs_outgoing_signature:
  assumes "verify_chain_with_handoffs B rs slot ros ep handoffs = Ok w"
    and "wk_regime w = SingleWriter" and "Suc i < length rs"
    and "sr_writer_id (rs ! i) \<noteq> sr_writer_id (rs ! Suc i)"
  shows "\<exists>h \<in> set handoffs. key_id B (sh_from_pk h) = sr_writer_id (rs ! i) \<and>
    sig_check B (sh_from_pk h) CtxSlotHandoff
      (handoff_body slot (sr_seq (rs ! Suc i)) (sr_writer_id (rs ! i)) (sr_writer_id (rs ! Suc i)))
      (sh_sig h) = Ok ()"
proof -
  have "writers_ok (handed_over B handoffs slot) None rs"
    using assms(1,2) by (auto simp: verify_chain_Inr_iff valid_slot_chain_def walk_of_def)
  then have "handed_over B handoffs slot (sr_writer_id (rs ! i)) (rs ! Suc i)"
    using writers_ok_nth assms(3,4) by blast
  then show ?thesis
    by (auto simp: handed_over_def list_ex_iff dest: authorises_signed)
qed

section \<open>A concrete history\<close>

text \<open>
  A two-record history over the toy backend: writer 7 starts the slot and hands it to writer 9
  at sequence 1. It instantiates the hypotheses of the properties above.
\<close>

definition toy_slot :: slot_id where
  "toy_slot = replicate 32 1"

definition toy_second :: slot_record where
  "toy_second = toy_genesis\<lparr>sr_seq := 1, sr_prev := record_hash toy_backend toy_genesis,
     sr_writer_id := toy_hash [9], sr_sig := [9]\<rparr>"

definition toy_handoff :: slot_handoff where
  "toy_handoff = \<lparr>sh_slot_id = toy_slot, sh_at_seq = 1, sh_from_pk = [7], sh_to = toy_hash [9],
     sh_sig = [7]\<rparr>"

definition toy_roster :: roster where
  "toy_roster = btm_insert (toy_hash [9]) [9] (btm_insert (toy_hash [7]) [7] [])"

lemma toy_hash_77: "toy_hash [9] \<noteq> toy_hash [7]"
  by (simp add: toy_hash_def)

lemma toy_widths [simp]: "widths_SlotRecord toy_genesis" "widths_SlotRecord toy_second"
  by (simp_all add: widths_SlotRecord_def toy_genesis_def toy_second_def record_hash_def
      ADDR_LEN_def ROOT_NONCE_LEN_def)

lemma toy_prev_first: "record_hash toy_backend r ! 0 = 110"
  by (simp add: record_hash_def record_hash_preimage_def RECORD_HASH_DOMAIN_def byte_str_def
      toy_hash_def Let_def)

lemma toy_second_genesis_ok: "genesis_ok (sr_seq toy_second) (sr_prev toy_second)"
proof -
  have "length (record_hash toy_backend toy_genesis) = 32" by (simp add: record_hash_def)
  then have "record_hash toy_backend toy_genesis ! 0 \<in> set (record_hash toy_backend toy_genesis)"
    by simp
  moreover have "(110 :: u8) \<noteq> 0" by simp
  ultimately have "\<not> all_zero (record_hash toy_backend toy_genesis)"
    unfolding all_zero_def list_all_iff toy_prev_first by blast
  then show ?thesis by (simp add: genesis_ok_def toy_second_def)
qed

lemma toy_verify:
  "SlotRecord_verify toy_backend toy_genesis [7] = Ok ()"
  "SlotRecord_verify toy_backend toy_second [9] = Ok ()"
  using toy_second_genesis_ok slot_body_total [OF toy_widths(1)] slot_body_total [OF toy_widths(2)]
  by (simp_all add: SlotRecord_verify_Inr_iff sig_check_Inr_iff WriterId_of_key_def key_id_def)
     (simp_all add: toy_genesis_def toy_second_def genesis_ok_def all_zero_def list_all_iff)

lemma toy_handed_over: "handed_over toy_backend [toy_handoff] toy_slot (toy_hash [7]) toy_second"
  using toy_hash_77
  by (simp add: handed_over_def authorises_def toy_handoff_def toy_second_def SlotHandoff_verify_def
      SlotHandoff_from_def key_id_def sig_check_def is_err_def Let_def)

lemma toy_chain_valid:
  "valid_slot_chain toy_backend [toy_genesis, toy_second] toy_slot toy_roster None [toy_handoff]"
proof -
  have slots: "sr_slot_id toy_genesis = toy_slot" "sr_slot_id toy_second = toy_slot"
    and regs: "sr_regime toy_genesis = SingleWriter" "sr_regime toy_second = SingleWriter"
    and wids: "sr_writer_id toy_genesis = toy_hash [7]" "sr_writer_id toy_second = toy_hash [9]"
    and seqs: "sr_seq toy_genesis = 0" "sr_seq toy_second = 1"
    and prevs: "sr_prev toy_genesis = ZERO32" "sr_prev toy_second = record_hash toy_backend toy_genesis"
    by (simp_all add: toy_genesis_def toy_second_def toy_slot_def ZERO32_def)
  have ros: "Roster_get toy_roster (toy_hash [7]) = Some [7]" "Roster_get toy_roster (toy_hash [9]) = Some [9]"
    using toy_hash_77 by (simp_all add: Roster_get_def toy_roster_def)
  have "saturating_add (0 :: u64) 1 = 1" by (simp add: saturating_add_def)
  then show ?thesis
    using toy_verify toy_handed_over
    by (simp add: valid_slot_chain_def record_accepted_def slots regs wids seqs prevs ros)
qed

lemma toy_chain_accepted:
  "verify_chain_with_handoffs toy_backend [toy_genesis, toy_second] toy_slot toy_roster None
     [toy_handoff] = Ok (walk_of toy_backend [toy_genesis, toy_second] toy_slot None)"
  by (simp add: verify_chain_Inr_iff toy_chain_valid)

theorem unanchored_walk_starts_at_genesis_witness:
  "wk_first_seq (walk_of toy_backend [toy_genesis, toy_second] toy_slot None) = 0 \<and>
   unat (sr_seq ([toy_genesis, toy_second] ! 1)) = 1"
  using unanchored_walk_starts_at_genesis [OF toy_chain_accepted] by auto

theorem head_hash_commits_to_history_witness:
  "[toy_genesis, toy_second] = [toy_genesis, toy_second] \<and> start_link None = start_link None \<or>
   (\<exists>r \<in> set [toy_genesis, toy_second]. \<exists>s \<in> set [toy_genesis, toy_second].
      collision toy_backend (record_hash_preimage r) (record_hash_preimage s))"
  by (rule head_hash_commits_to_history [OF toy_chain_accepted toy_chain_accepted]) simp_all

theorem writer_change_needs_outgoing_signature_witness:
  "\<exists>h \<in> set [toy_handoff]. key_id toy_backend (sh_from_pk h) = sr_writer_id toy_genesis \<and>
     sig_check toy_backend (sh_from_pk h) CtxSlotHandoff
       (handoff_body toy_slot (sr_seq toy_second) (sr_writer_id toy_genesis) (sr_writer_id toy_second))
       (sh_sig h) = Ok ()"
proof -
  have reg: "wk_regime (walk_of toy_backend [toy_genesis, toy_second] toy_slot None) = SingleWriter"
    by (simp add: walk_of_def toy_genesis_def)
  have "sr_writer_id ([toy_genesis, toy_second] ! 0) \<noteq> sr_writer_id ([toy_genesis, toy_second] ! Suc 0)"
    using toy_hash_77 by (simp add: toy_genesis_def toy_second_def)
  then show ?thesis
    using writer_change_needs_outgoing_signature [OF toy_chain_accepted reg, of 0] by simp
qed

end
