(* ===== verification/Witness.thy ===== *)
theory Witness
  imports Slot_Chain
begin

text \<open>
  \<open>nas-slots/src/witness.rs\<close>: signed observations of a slot head together with the edge below
  it, and fork proofs, the publishable evidence that a slot has two histories. \<open>on_history\<close> says
  what it means for a witness to describe a given history (a hash per sequence number); a fork
  proof that verifies is shown to be inconsistent with every history.
\<close>

section \<open>Witnesses\<close>

definition WITNESS_FIELDS :: usize where
  "WITNESS_FIELDS = 7"

definition MAX_LINK :: usize where
  "MAX_LINK = 64"

datatype witness_error =
    Decode decode_error
  | Sign sign_error
  | BadWidth string usize usize
  | FieldCount usize usize
  | LegacyV1
  | GenesisMismatch u64 bool
  | BadSignature

record witness =
  wt_witness_pk :: bytes
  wt_slot_id :: slot_id
  wt_seq :: u64
  wt_record_hash :: hash32
  wt_prev :: hash32
  wt_logical_time :: u64
  wt_sig :: bytes

definition witness_body :: "slot_id \<Rightarrow> u64 \<Rightarrow> hash32 \<Rightarrow> hash32 \<Rightarrow> u64 \<Rightarrow> bytes" where
  "witness_body slot seq rh prev logical_time =
    expect_ok (encode_fields [slot, u64_le seq, rh, prev, u64_le logical_time])"

definition witness_check_genesis :: "u64 \<Rightarrow> hash32 \<Rightarrow> witness_error + unit" where
  "witness_check_genesis seq prev =
    require (genesis_ok seq prev) (GenesisMismatch seq (all_zero prev))"

definition Witness_sign ::
  "identity \<Rightarrow> slot_id \<Rightarrow> u64 \<Rightarrow> hash32 \<Rightarrow> hash32 \<Rightarrow> u64 \<Rightarrow> witness_error + witness" where
  "Witness_sign i slot seq rh prev logical_time =
    rbind (witness_check_genesis seq prev) (\<lambda>_.
    rbind (map_err Sign (Identity_sign i CtxWitness (witness_body slot seq rh prev logical_time))) (\<lambda>sig.
    Ok \<lparr>wt_witness_pk = verifying_key i, wt_slot_id = slot, wt_seq = seq, wt_record_hash = rh,
        wt_prev = prev, wt_logical_time = logical_time, wt_sig = sig\<rparr>))"

definition Witness_of_record ::
  "backend \<Rightarrow> identity \<Rightarrow> slot_record \<Rightarrow> u64 \<Rightarrow> witness_error + witness" where
  "Witness_of_record B i r logical_time =
    Witness_sign i (sr_slot_id r) (sr_seq r) (record_hash B r) (sr_prev r) logical_time"

definition Witness_verify :: "backend \<Rightarrow> witness \<Rightarrow> witness_error + unit" where
  "Witness_verify B w =
    rbind (witness_check_genesis (wt_seq w) (wt_prev w)) (\<lambda>_.
    map_err (\<lambda>_. BadSignature)
      (sig_check B (wt_witness_pk w) CtxWitness
         (witness_body (wt_slot_id w) (wt_seq w) (wt_record_hash w) (wt_prev w) (wt_logical_time w))
         (wt_sig w)))"

definition witness_id :: "backend \<Rightarrow> witness \<Rightarrow> hash32" where
  "witness_id B w = key_id B (wt_witness_pk w)"

definition Witness_fields :: "witness \<Rightarrow> bytes list" where
  "Witness_fields w =
    [wt_witness_pk w, wt_slot_id w, u64_le (wt_seq w), wt_record_hash w, wt_prev w,
     u64_le (wt_logical_time w), wt_sig w]"

definition Witness_encode :: "witness \<Rightarrow> witness_error + bytes" where
  "Witness_encode w = map_err Decode (encode_fields (Witness_fields w))"

definition Witness_of_fields :: "backend \<Rightarrow> bytes list \<Rightarrow> witness_error + witness" where
  "Witness_of_fields B f =
    (if length f \<noteq> WITNESS_FIELDS then
       (if length f = 6 then Err LegacyV1 else Err (FieldCount WITNESS_FIELDS (length f)))
     else if length (f ! 0) \<noteq> VK_SIZE B then Err (BadWidth ''witness_pk'' (VK_SIZE B) (length (f ! 0)))
     else if length (f ! 6) \<noteq> SIG_SIZE B then Err (BadWidth ''sig'' (SIG_SIZE B) (length (f ! 6)))
     else rbind (fixed_width BadWidth 8 ''seq'' (f ! 2)) (\<lambda>seq.
          rbind (fixed_width BadWidth 32 ''prev'' (f ! 4)) (\<lambda>prev.
          rbind (witness_check_genesis (u64_of_le seq) prev) (\<lambda>_.
          rbind (fixed_width BadWidth 32 ''slot_id'' (f ! 1)) (\<lambda>slot.
          rbind (fixed_width BadWidth 32 ''record_hash'' (f ! 3)) (\<lambda>rh.
          rbind (fixed_width BadWidth 8 ''logical_time'' (f ! 5)) (\<lambda>lt.
          Ok \<lparr>wt_witness_pk = f ! 0, wt_slot_id = slot, wt_seq = u64_of_le seq,
              wt_record_hash = rh, wt_prev = prev, wt_logical_time = u64_of_le lt,
              wt_sig = f ! 6\<rparr>)))))))"

definition Witness_decode :: "backend \<Rightarrow> bytes \<Rightarrow> witness_error + witness" where
  "Witness_decode B bs = rbind (map_err Decode (decode_fields bs)) (Witness_of_fields B)"

definition wf_Witness :: "backend \<Rightarrow> witness \<Rightarrow> bool" where
  "wf_Witness B w \<longleftrightarrow> arr (VK_SIZE B) (wt_witness_pk w) \<and> arr 32 (wt_slot_id w) \<and>
    arr 32 (wt_record_hash w) \<and> arr 32 (wt_prev w) \<and> arr (SIG_SIZE B) (wt_sig w) \<and>
    genesis_ok (wt_seq w) (wt_prev w)"

lemma witness_check_genesis_Inr_iff [result_elims]:
  "witness_check_genesis seq prev = Inr u \<longleftrightarrow> genesis_ok seq prev"
  by (simp add: witness_check_genesis_def require_Inr_iff)

interpretation witness: field_codec Witness_fields "Witness_of_fields B" "wf_Witness B" Decode
  for B
proof unfold_locales
  fix fs and w :: witness
  show "Witness_of_fields B fs = Inr w \<longleftrightarrow> wf_Witness B w \<and> Witness_fields w = fs"
  proof (cases "length fs = 7")
    case True
    then obtain a b c d e f g where fs: "fs = [a, b, c, d, e, f, g]"
      by (auto simp: length_Suc_conv numeral_eq_Suc)
    show ?thesis
      unfolding fs Witness_of_fields_def Witness_fields_def wf_Witness_def WITNESS_FIELDS_def
      by (auto simp: result_elims)
  next
    case False
    then show ?thesis by (auto simp: Witness_of_fields_def Witness_fields_def WITNESS_FIELDS_def)
  qed
qed

lemma witness_decode_Inr_iff:
  "Witness_decode B bs = Inr w \<longleftrightarrow> wf_Witness B w \<and> Witness_encode w = Inr bs"
  unfolding Witness_decode_def Witness_encode_def by (rule witness.dec_iff)

lemma Witness_sign_fields:
  "Witness_sign i slot seq rh prev lt = Inr w \<Longrightarrow>
    genesis_ok seq prev \<and> wt_slot_id w = slot \<and> wt_seq w = seq \<and> wt_record_hash w = rh \<and>
    wt_prev w = prev \<and> wt_logical_time w = lt \<and> wt_witness_pk w = verifying_key i \<and>
    Identity_sign i CtxWitness (witness_body slot seq rh prev lt) = Inr (wt_sig w)"
  by (auto simp: Witness_sign_def result_elims)

lemma Witness_sign_verifies:
  "sound_keypair B (id_kp i) \<Longrightarrow> Witness_sign i slot seq rh prev lt = Inr w \<Longrightarrow>
    Witness_verify B w = Inr ()"
  using sign_then_check by (fastforce simp: Witness_verify_def result_elims dest: Witness_sign_fields)

section \<open>Fork proofs\<close>

record fork_proof =
  fp_slot_id :: slot_id
  fp_seq :: u64
  fp_a :: witness
  fp_b :: witness
  fp_link :: "witness list"

text \<open>The loop of \<open>ForkProof::verify\<close>: where the walk down the link arrives, if it gets there.\<close>

fun proof_walk ::
  "backend \<Rightarrow> slot_id \<Rightarrow> u64 \<Rightarrow> hash32 \<Rightarrow> u64 \<Rightarrow> witness list \<Rightarrow> (hash32 \<times> u64) option" where
  "proof_walk B slot target hash seq [] = Some (hash, seq)"
| "proof_walk B slot target hash seq (w # ws) =
    (if seq = target then None
     else if wt_slot_id w \<noteq> slot \<or> wt_seq w \<noteq> seq \<or> wt_record_hash w \<noteq> hash \<or>
             is_err (Witness_verify B w) then None
     else proof_walk B slot target (wt_prev w) (seq - 1) ws)"

definition ForkProof_verify :: "backend \<Rightarrow> fork_proof \<Rightarrow> bool" where
  "ForkProof_verify B p =
    (let a = fp_a p; b = fp_b p in
     if wt_slot_id a \<noteq> fp_slot_id p \<or> wt_slot_id b \<noteq> fp_slot_id p then False
     else if wt_seq a \<noteq> fp_seq p \<or> is_err (Witness_verify B a) \<or> is_err (Witness_verify B b) then False
     else if wt_seq b = fp_seq p then fp_link p = [] \<and> wt_record_hash a \<noteq> wt_record_hash b
     else if wt_seq b < fp_seq p \<or> length (fp_link p) > MAX_LINK then False
     else case proof_walk B (fp_slot_id p) (fp_seq p) (wt_prev b) (wt_seq b - 1) (fp_link p) of
            None \<Rightarrow> False
          | Some (hash, seq) \<Rightarrow> seq = fp_seq p \<and> hash \<noteq> wt_record_hash a)"

definition ForkProof_try_new :: "backend \<Rightarrow> witness \<Rightarrow> witness \<Rightarrow> fork_proof option" where
  "ForkProof_try_new B a b =
    (if wt_slot_id a \<noteq> wt_slot_id b \<or> wt_seq a \<noteq> wt_seq b \<or> wt_record_hash a = wt_record_hash b then None
     else if is_err (Witness_verify B a) then None
     else if is_err (Witness_verify B b) then None
     else Some \<lparr>fp_slot_id = wt_slot_id a, fp_seq = wt_seq a, fp_a = a, fp_b = b, fp_link = []\<rparr>)"

definition ForkProof_try_linked ::
  "backend \<Rightarrow> witness \<Rightarrow> witness \<Rightarrow> witness list \<Rightarrow> fork_proof option" where
  "ForkProof_try_linked B a b link =
    (if wt_slot_id a \<noteq> wt_slot_id b \<or> wt_seq b \<le> wt_seq a then None
     else let p = \<lparr>fp_slot_id = wt_slot_id a, fp_seq = wt_seq a, fp_a = a, fp_b = b, fp_link = link\<rparr>
          in if ForkProof_verify B p then Some p else None)"

section \<open>Histories and soundness\<close>

text \<open>
  A history assigns a record hash to every sequence number; a witness is on it when it names the
  history's record at its sequence and, above genesis, the history's record below as \<open>prev\<close>.
\<close>

definition on_history :: "(nat \<Rightarrow> hash32) \<Rightarrow> witness \<Rightarrow> bool" where
  "on_history h w \<longleftrightarrow> wt_record_hash w = h (unat (wt_seq w)) \<and>
    (0 < unat (wt_seq w) \<longrightarrow> wt_prev w = h (unat (wt_seq w) - 1))"

definition fp_witnesses :: "fork_proof \<Rightarrow> witness list" where
  "fp_witnesses p = fp_a p # fp_b p # fp_link p"

lemma unat_pred: "(x :: u64) \<noteq> 0 \<Longrightarrow> unat (x - 1) = unat x - 1"
  by (simp add: unat_sub unat_gt_0 word_le_nat_alt Suc_leI)

lemma proof_walk_on_history:
  "proof_walk B slot target hash seq ws = Some (hash', seq') \<Longrightarrow> list_all (on_history h) ws \<Longrightarrow>
    target \<le> seq \<Longrightarrow> hash = h (unat seq) \<Longrightarrow> target \<le> seq' \<and> hash' = h (unat seq')"
proof (induction ws arbitrary: hash seq)
  case Nil
  then show ?case by auto
next
  case (Cons w ws)
  have neq: "seq \<noteq> target" and w: "wt_seq w = seq"
    and rec: "proof_walk B slot target (wt_prev w) (seq - 1) ws = Some (hash', seq')"
    using Cons.prems(1) by (auto split: if_splits)
  have lt: "unat target < unat seq"
    using neq Cons.prems(3) order.not_eq_order_implies_strict [of target seq]
    by (simp add: word_less_nat_alt)
  then have pred: "unat (seq - 1) = unat seq - 1" by (intro unat_pred) auto
  then have le: "target \<le> seq - 1" using lt by (simp add: word_le_nat_alt)
  have "wt_prev w = h (unat (seq - 1))"
    using Cons.prems(2) w lt pred by (simp add: on_history_def)
  then show ?case using Cons.IH [OF rec] Cons.prems(2) le by simp
qed

lemma fork_proof_refutes_history:
  assumes "ForkProof_verify B p"
  shows "\<not> list_all (on_history h) (fp_witnesses p)"
proof
  assume all: "list_all (on_history h) (fp_witnesses p)"
  let ?a = "fp_a p" and ?b = "fp_b p"
  have on: "on_history h ?a" "on_history h ?b" "list_all (on_history h) (fp_link p)"
    using all by (auto simp: fp_witnesses_def)
  have a: "wt_seq ?a = fp_seq p" using assms by (auto simp: ForkProof_verify_def Let_def split: if_splits)
  show False
  proof (cases "wt_seq ?b = fp_seq p")
    case True
    then show False
      using assms on(1,2) a by (auto simp: ForkProof_verify_def Let_def on_history_def split: if_splits)
  next
    case False
    then obtain hash where lt: "\<not> wt_seq ?b < fp_seq p" and hash: "hash \<noteq> wt_record_hash ?a"
      and walk: "proof_walk B (fp_slot_id p) (fp_seq p) (wt_prev ?b) (wt_seq ?b - 1) (fp_link p)
        = Some (hash, fp_seq p)"
      using assms by (auto simp: ForkProof_verify_def Let_def split: if_splits option.splits)
    have gt: "unat (fp_seq p) < unat (wt_seq ?b)"
      using lt False linorder_neqE [of "wt_seq ?b" "fp_seq p"] by (auto simp flip: word_less_nat_alt)
    then have pred: "unat (wt_seq ?b - 1) = unat (wt_seq ?b) - 1" by (intro unat_pred) auto
    have "wt_prev ?b = h (unat (wt_seq ?b - 1))" and "fp_seq p \<le> wt_seq ?b - 1"
      using on(2) gt pred by (auto simp: on_history_def word_le_nat_alt)
    then have "hash = h (unat (fp_seq p))"
      using proof_walk_on_history [OF walk on(3)] by simp
    with hash on(1) a show False by (simp add: on_history_def)
  qed
qed

lemma try_new_verifies: "ForkProof_try_new B a b = Some p \<Longrightarrow> ForkProof_verify B p"
  by (auto simp: ForkProof_try_new_def ForkProof_verify_def Let_def split: if_splits)

lemma try_linked_verifies: "ForkProof_try_linked B a b link = Some p \<Longrightarrow> ForkProof_verify B p"
  by (auto simp: ForkProof_try_linked_def Let_def split: if_splits)

lemma try_new_witnesses: "ForkProof_try_new B a b = Some p \<Longrightarrow> fp_witnesses p = [a, b]"
  by (auto simp: ForkProof_try_new_def fp_witnesses_def split: if_splits)

lemma try_linked_witnesses: "ForkProof_try_linked B a b link = Some p \<Longrightarrow> fp_witnesses p = a # b # link"
  by (auto simp: ForkProof_try_linked_def fp_witnesses_def Let_def split: if_splits)

section \<open>Properties\<close>

text \<open>
  A witness has one wire form, and a six-field v1 witness is refused as such: the decoder
  accepts exactly the encodings of witnesses with the right widths that obey the genesis rule.
\<close>

theorem witness_decode_iff:
  "Witness_decode B bs = Ok w \<longleftrightarrow> wf_Witness B w \<and> Witness_encode w = Ok bs"
  by (rule witness_decode_Inr_iff)

text \<open>
  C7. A fork proof that verifies carries a contradiction: no assignment of one record hash to each
  sequence number is consistent with every witness in it, so a proof cannot be made from witnesses
  that all describe one history. It says nothing about who signed them: the keys of a proof may
  have been minted to make it, and it accuses a slot only if its signers are trusted.
\<close>

theorem verified_fork_proof_refutes_every_history:
  assumes "ForkProof_verify B p"
  shows "\<not> (\<exists>h. list_all (on_history h) (fp_a p # fp_b p # fp_link p))"
  using fork_proof_refutes_history [OF assms] by (simp add: fp_witnesses_def)

definition toy_witness :: "u8 \<Rightarrow> u8 \<Rightarrow> witness" where
  "toy_witness k x = \<lparr>wt_witness_pk = [k], wt_slot_id = toy_slot, wt_seq = 0,
     wt_record_hash = replicate 32 x, wt_prev = replicate 32 0, wt_logical_time = 0, wt_sig = [k]\<rparr>"

lemma toy_witness_verifies: "Witness_verify toy_backend (toy_witness k x) = Ok ()"
  by (simp add: Witness_verify_def toy_witness_def witness_check_genesis_def genesis_ok_def
      all_zero_def list_all_iff sig_check_def)

definition toy_proof :: fork_proof where
  "toy_proof = \<lparr>fp_slot_id = toy_slot, fp_seq = 0, fp_a = toy_witness 1 5, fp_b = toy_witness 2 6,
     fp_link = []\<rparr>"

lemma toy_proof_verifies: "ForkProof_verify toy_backend toy_proof"
  using toy_witness_verifies
  by (simp add: ForkProof_verify_def toy_proof_def Let_def)
     (simp add: toy_witness_def)

theorem verified_fork_proof_refutes_every_history_witness:
  "\<not> (\<exists>h. list_all (on_history h) (fp_a toy_proof # fp_b toy_proof # fp_link toy_proof))"
  by (rule verified_fork_proof_refutes_every_history [OF toy_proof_verifies])

end
