(* ===== verification/Slot_Client.thy ===== *)
theory Slot_Client
  imports Witness "HOL-Library.Product_Lexorder" "HOL-Library.Sublist"
begin

text \<open>
  \<open>nas-slots/src/client.rs\<close>: one client's view of one slot. The state is the record
  \<open>slot_client\<close>; every method of \<open>SlotClient\<close> that changes it is a definition returning the new
  state, and the rules of \<open>client_step\<close> say how a peer may drive a client. The invariants proved
  of every reachable client are the ones the module's header names: the anchor floor, monotone
  pins, bounded and append-only evidence, and no alarm without a verifying proof.
\<close>

definition MAX_HASHES_PER_SEQ :: usize where
  "MAX_HASHES_PER_SEQ = 2"

definition MAX_WITNESSES :: usize where
  "MAX_WITNESSES = 64"

definition MAX_WALK_STEPS :: usize where
  "MAX_WALK_STEPS = MAX_WITNESSES"

section \<open>Evidence\<close>

type_synonym evidence = "(u64, hash32 btreeset) btreemap"

definition add_bounded :: "evidence \<Rightarrow> u64 \<Rightarrow> hash32 \<Rightarrow> evidence" where
  "add_bounded m seq hash =
    btm_upsert seq []
      (\<lambda>s. if length s < MAX_HASHES_PER_SEQ \<or> hash \<in> set s then bts_insert hash s else s) m"

definition evidence_set :: "evidence \<Rightarrow> u64 \<Rightarrow> hash32 btreeset" where
  "evidence_set m seq = (case btm_get m seq of None \<Rightarrow> [] | Some s \<Rightarrow> s)"

function walk_loop ::
  "(hash32, witness) btreemap \<Rightarrow> u64 \<Rightarrow> witness list \<Rightarrow> hash32 \<Rightarrow> u64 \<Rightarrow> (witness list \<times> hash32) option"
where
  "walk_loop edges target link hash seq =
    (if target < seq then
       case btm_get edges hash of
         None \<Rightarrow> None
       | Some w \<Rightarrow> if wt_seq w \<noteq> seq then None
                   else walk_loop edges target (link @ [w]) (wt_prev w) (seq - 1)
     else Some (link, hash))"
  by pat_completeness auto
termination
proof (relation "measure (\<lambda>(edges, target, link, hash, seq). unat seq)", goal_cases)
  case 1
  then show ?case by simp
next
  case (2 edges target link hash seq w)
  then have "unat target < unat seq" by (simp add: word_less_nat_alt)
  then have "seq \<noteq> 0" by auto
  with 2 show ?case by (simp add: unat_pred unat_gt_0)
qed

declare walk_loop.simps [simp del]

definition walk_to ::
  "(hash32, witness) btreemap \<Rightarrow> witness \<Rightarrow> u64 \<Rightarrow> (witness list \<times> hash32) option" where
  "walk_to edges high target =
    (if wt_seq high \<le> target \<or> unat (wt_seq high - target) > MAX_WALK_STEPS then None
     else walk_loop edges target [] (wt_prev high) (wt_seq high - 1))"

section \<open>The client\<close>

record anchor =
  an_seq :: u64
  an_sig_hash :: hash32

record pin =
  pn_seq :: u64
  pn_record_hash :: hash32

datatype reject =
    BelowAnchor u64 u64
  | AnchorMismatch u64
  | Rollback u64 u64
  | Chain chain_error
  | RejWrongSlot

datatype verdict =
    Accepted pin
  | Degraded pin string
  | Rejected reject
  | Alarm fork_proof

record slot_client =
  cl_slot_id :: slot_id
  cl_regime :: regime
  cl_anchor :: anchor
  cl_pin :: "pin option"
  cl_evidence :: evidence
  cl_record_evidence :: evidence
  cl_witnesses :: "witness list"
  cl_witness_roster :: roster

definition SlotClient_new :: "slot_id \<Rightarrow> regime \<Rightarrow> anchor \<Rightarrow> slot_client" where
  "SlotClient_new slot reg an =
    \<lparr>cl_slot_id = slot, cl_regime = reg, cl_anchor = an, cl_pin = None,
     cl_evidence = btm_insert (an_seq an) [an_sig_hash an] [], cl_record_evidence = [],
     cl_witnesses = [], cl_witness_roster = Roster_new\<rparr>"

definition trust_witness :: "backend \<Rightarrow> slot_client \<Rightarrow> bytes \<Rightarrow> slot_client \<times> (roster_error + unit)" where
  "trust_witness B c vk =
    (case Roster_add B (cl_witness_roster c) vk of
       Inl e \<Rightarrow> (c, Err e)
     | Inr (ros, _) \<Rightarrow> (c\<lparr>cl_witness_roster := ros\<rparr>, Ok ()))"

definition observe :: "slot_client \<Rightarrow> u64 \<Rightarrow> hash32 \<Rightarrow> slot_client" where
  "observe c seq h = c\<lparr>cl_evidence := add_bounded (cl_evidence c) seq h\<rparr>"

definition observe_record_hash :: "slot_client \<Rightarrow> u64 \<Rightarrow> hash32 \<Rightarrow> slot_client" where
  "observe_record_hash c seq h = c\<lparr>cl_record_evidence := add_bounded (cl_record_evidence c) seq h\<rparr>"

definition observe_witness :: "backend \<Rightarrow> slot_client \<Rightarrow> witness \<Rightarrow> slot_client \<times> bool" where
  "observe_witness B c w =
    (if wt_slot_id w \<noteq> cl_slot_id c then (c, False)
     else if \<not> Roster_contains (cl_witness_roster c) (WriterId_of_key B (wt_witness_pk w)) then (c, False)
     else if is_err (Witness_verify B w) then (c, False)
     else let c1 = observe_record_hash c (wt_seq w) (wt_record_hash w)
          in (if length (cl_witnesses c1) < MAX_WITNESSES
              then c1\<lparr>cl_witnesses := cl_witnesses c1 @ [w]\<rparr> else c1, True))"

definition evidence_at :: "slot_client \<Rightarrow> u64 \<Rightarrow> usize" where
  "evidence_at c seq = length (evidence_set (cl_evidence c) seq)"

definition record_evidence_at :: "slot_client \<Rightarrow> u64 \<Rightarrow> usize" where
  "record_evidence_at c seq = length (evidence_set (cl_record_evidence c) seq)"

definition client_edges :: "slot_client \<Rightarrow> (hash32, witness) btreemap" where
  "client_edges c = fold (\<lambda>w m. btm_or_insert (wt_record_hash w) w m) (cl_witnesses c) []"

type_synonym conflict = "u64 \<times> witness \<times> witness \<times> witness list"

definition consider_pair ::
  "(hash32, witness) btreemap \<Rightarrow> witness \<Rightarrow> witness \<Rightarrow> conflict option \<Rightarrow> conflict option" where
  "consider_pair edges high low best =
    (if wt_seq high \<le> wt_seq low then best
     else if (case best of None \<Rightarrow> False
              | Some (s, _, h, _) \<Rightarrow> (s, wt_seq h) \<le> (wt_seq low, wt_seq high)) then best
     else case walk_to edges high (wt_seq low) of
            None \<Rightarrow> best
          | Some (link, reached) \<Rightarrow>
              if reached \<noteq> wt_record_hash low then Some (wt_seq low, low, high, link) else best)"

definition witness_conflict :: "slot_client \<Rightarrow> conflict option" where
  "witness_conflict c =
    (let edges = client_edges c; ws = cl_witnesses c
     in fold (\<lambda>high best. fold (\<lambda>low best. consider_pair edges high low best) ws best) ws None)"

definition by_hash :: "evidence \<Rightarrow> u64 option" where
  "by_hash m = map_option fst (find (\<lambda>(_, hs). length hs > 1) m)"

definition opt_min :: "u64 option \<Rightarrow> u64 option \<Rightarrow> u64 option" where
  "opt_min a b =
    (case a of None \<Rightarrow> b | Some x \<Rightarrow> (case b of None \<Rightarrow> Some x | Some y \<Rightarrow> Some (min x y)))"

definition forked :: "slot_client \<Rightarrow> u64 option" where
  "forked c =
    opt_min (by_hash (cl_evidence c))
      (opt_min (by_hash (cl_record_evidence c)) (map_option fst (witness_conflict c)))"

fun find_map :: "('a \<Rightarrow> 'b option) \<Rightarrow> 'a list \<Rightarrow> 'b option" where
  "find_map f [] = None"
| "find_map f (x # xs) = (case f x of None \<Rightarrow> find_map f xs | Some y \<Rightarrow> Some y)"

fun same_seq_proof :: "backend \<Rightarrow> witness list \<Rightarrow> fork_proof option" where
  "same_seq_proof B [] = None"
| "same_seq_proof B (a # ws) =
    (case find_map (ForkProof_try_new B a) ws of
       Some p \<Rightarrow> Some p
     | None \<Rightarrow> same_seq_proof B ws)"

definition client_fork_proof :: "backend \<Rightarrow> slot_client \<Rightarrow> fork_proof option" where
  "client_fork_proof B c =
    (case same_seq_proof B (cl_witnesses c) of
       Some p \<Rightarrow> Some p
     | None \<Rightarrow>
         (case witness_conflict c of
            None \<Rightarrow> None
          | Some (_, low, high, link) \<Rightarrow> ForkProof_try_linked B low high link))"

section \<open>Offers\<close>

definition DEGRADED_REASON :: string where
  "DEGRADED_REASON = ''peer no longer retains history back to the pin; verified on cap anchor and head signature only''"

definition observe_record :: "backend \<Rightarrow> slot_record \<Rightarrow> slot_client \<Rightarrow> slot_client" where
  "observe_record B r c =
    observe_record_hash (observe c (sr_seq r) (sig_hash B r)) (sr_seq r) (record_hash B r)"

definition anchor_violated :: "backend \<Rightarrow> slot_client \<Rightarrow> slot_record list \<Rightarrow> bool" where
  "anchor_violated B c records =
    (case find (\<lambda>r. sr_seq r = an_seq (cl_anchor c)) records of
       None \<Rightarrow> False
     | Some r \<Rightarrow> sig_hash B r \<noteq> an_sig_hash (cl_anchor c))"

definition behind_pin :: "slot_client \<Rightarrow> u64 \<Rightarrow> pin option" where
  "behind_pin c seq =
    (case cl_pin c of None \<Rightarrow> None | Some p \<Rightarrow> if seq < pn_seq p then Some p else None)"

text \<open>\<open>offer\<close> after the evidence is in: \<open>c\<close> is the state with every offered record observed.\<close>

definition decide_offer ::
  "backend \<Rightarrow> slot_client \<Rightarrow> slot_record list \<Rightarrow> slot_record \<Rightarrow> roster \<Rightarrow> slot_client \<times> verdict" where
  "decide_offer B c records head ros =
    (case client_fork_proof B c of
       Some p \<Rightarrow> (c, Alarm p)
     | None \<Rightarrow>
    if sr_seq head < an_seq (cl_anchor c)
    then (c, Rejected (BelowAnchor (sr_seq head) (an_seq (cl_anchor c))))
    else case behind_pin c (sr_seq head) of
       Some p \<Rightarrow> (c, Rejected (Rollback (sr_seq head) (pn_seq p)))
     | None \<Rightarrow>
    (case verify_chain B records (cl_slot_id c) ros (map_option pn_record_hash (cl_pin c)) of
       Inl e \<Rightarrow> (c, Rejected (Chain e))
     | Inr w \<Rightarrow>
    if wk_regime w \<noteq> cl_regime c
    then (c, Rejected (Chain (RegimeChanged (wk_first_seq w) (cl_regime c) (wk_regime w))))
    else if anchor_violated B c records
    then (c, Rejected (AnchorMismatch (an_seq (cl_anchor c))))
    else let p = \<lparr>pn_seq = wk_head_seq w, pn_record_hash = wk_head_hash w\<rparr>
         in (c\<lparr>cl_pin := Some p\<rparr>, Accepted p)))"

definition offer :: "backend \<Rightarrow> slot_client \<Rightarrow> slot_record list \<Rightarrow> roster \<Rightarrow> slot_client \<times> verdict" where
  "offer B c records ros =
    (if records = [] then (c, Rejected (Chain Empty))
     else let head = last records
          in if sr_slot_id head \<noteq> cl_slot_id c then (c, Rejected RejWrongSlot)
             else decide_offer B (fold (observe_record B) records c) records head ros)"

definition decide_head_only :: "backend \<Rightarrow> slot_client \<Rightarrow> slot_record \<Rightarrow> roster \<Rightarrow> slot_client \<times> verdict" where
  "decide_head_only B c head ros =
    (case client_fork_proof B c of
       Some p \<Rightarrow> (c, Alarm p)
     | None \<Rightarrow>
    if sr_seq head < an_seq (cl_anchor c)
    then (c, Rejected (BelowAnchor (sr_seq head) (an_seq (cl_anchor c))))
    else if sr_seq head = an_seq (cl_anchor c) \<and> sig_hash B head \<noteq> an_sig_hash (cl_anchor c)
    then (c, Rejected (AnchorMismatch (sr_seq head)))
    else case behind_pin c (sr_seq head) of
       Some p \<Rightarrow> (c, Rejected (Rollback (sr_seq head) (pn_seq p)))
     | None \<Rightarrow>
    (case Roster_get ros (sr_writer_id head) of
       None \<Rightarrow> (c, Rejected (Chain (UnknownWriter (sr_seq head) (sr_writer_id head))))
     | Some vk \<Rightarrow>
    (case SlotRecord_verify B head vk of
       Inl e \<Rightarrow> (c, Rejected (Chain (Record (sr_seq head) e)))
     | Inr _ \<Rightarrow>
    if sr_regime head \<noteq> cl_regime c
    then (c, Rejected (Chain (RegimeChanged (sr_seq head) (cl_regime c) (sr_regime head))))
    else let p = \<lparr>pn_seq = sr_seq head, pn_record_hash = record_hash B head\<rparr>
         in (c\<lparr>cl_pin := Some p\<rparr>, Degraded p DEGRADED_REASON))))"

definition offer_head_only :: "backend \<Rightarrow> slot_client \<Rightarrow> slot_record \<Rightarrow> roster \<Rightarrow> slot_client \<times> verdict" where
  "offer_head_only B c head ros =
    (if sr_slot_id head \<noteq> cl_slot_id c then (c, Rejected RejWrongSlot)
     else decide_head_only B (observe_record B head c) head ros)"

section \<open>Evidence is bounded and only grows\<close>

definition evidence_ok :: "evidence \<Rightarrow> bool" where
  "evidence_ok m \<longleftrightarrow> btm_inv m \<and>
    (\<forall>seq. bts_inv (evidence_set m seq) \<and> length (evidence_set m seq) \<le> MAX_HASHES_PER_SEQ)"

lemma evidence_set_add_bounded:
  "evidence_set (add_bounded m q h) seq =
    (if seq = q
     then (let s = evidence_set m q
           in if length s < MAX_HASHES_PER_SEQ \<or> h \<in> set s then bts_insert h s else s)
     else evidence_set m seq)"
  by (simp add: evidence_set_def add_bounded_def btm_get_upsert Let_def)

lemma evidence_add_grows: "set (evidence_set m seq) \<subseteq> set (evidence_set (add_bounded m q h) seq)"
  by (auto simp: evidence_set_add_bounded Let_def)

lemma evidence_add_subset:
  "set (evidence_set (add_bounded m q h) seq) \<subseteq> set (evidence_set m seq) \<union> (if seq = q then {h} else {})"
  by (auto simp: evidence_set_add_bounded Let_def)

lemma length_bts_insert_le: "length (bts_insert x s) \<le> Suc (length s)"
  by (induction s) auto

lemma length_bts_insert_mem: "bts_inv s \<Longrightarrow> x \<in> set s \<Longrightarrow> length (bts_insert x s) = length s"
  by (simp add: bts.length_elems insert_absorb)

lemma evidence_ok_add: "evidence_ok m \<Longrightarrow> evidence_ok (add_bounded m q h)"
proof -
  assume ok: "evidence_ok m"
  let ?s = "evidence_set m q"
  have inv: "bts_inv ?s" and len: "length ?s \<le> MAX_HASHES_PER_SEQ" and m: "btm_inv m"
    using ok by (auto simp: evidence_ok_def)
  have "length (bts_insert h ?s) \<le> MAX_HASHES_PER_SEQ"
    if "length ?s < MAX_HASHES_PER_SEQ \<or> h \<in> set ?s"
    using that length_bts_insert_le [of h ?s] length_bts_insert_mem [OF inv] len
    by (auto simp del: length_bts_insert_mem)
  with inv len m ok show "evidence_ok (add_bounded m q h)"
    by (auto simp: evidence_ok_def evidence_set_add_bounded Let_def)
       (auto simp: add_bounded_def)
qed

lemma evidence_ok_Nil [simp]: "evidence_ok []"
  by (simp add: evidence_ok_def evidence_set_def)

lemma evidence_ok_single [simp]: "evidence_ok (btm_insert q [h] [])"
  by (simp add: evidence_ok_def evidence_set_def MAX_HASHES_PER_SEQ_def)

section \<open>The client as a state machine\<close>

datatype client_event =
    TrustWitness bytes
  | Observe u64 hash32
  | ObserveWitness witness
  | Offer "slot_record list" roster
  | OfferHeadOnly slot_record roster

inductive client_step :: "backend \<Rightarrow> slot_client \<Rightarrow> client_event \<Rightarrow> slot_client \<Rightarrow> bool" for B where
  step_trust: "client_step B c (TrustWitness vk) (fst (trust_witness B c vk))"
| step_observe: "client_step B c (Observe seq h) (observe c seq h)"
| step_witness: "client_step B c (ObserveWitness w) (fst (observe_witness B c w))"
| step_offer: "client_step B c (Offer records ros) (fst (offer B c records ros))"
| step_head_only: "client_step B c (OfferHeadOnly head ros) (fst (offer_head_only B c head ros))"

inductive_cases client_stepE: "client_step B c ev c'"

text \<open>A run of events that all satisfy \<open>ok\<close>, from the client \<open>c0\<close>.\<close>

inductive client_run :: "backend \<Rightarrow> (client_event \<Rightarrow> bool) \<Rightarrow> slot_client \<Rightarrow> slot_client \<Rightarrow> bool"
  for B ok c0 where
  run_start: "client_run B ok c0 c0"
| run_step: "client_run B ok c0 c \<Longrightarrow> ok ev \<Longrightarrow> client_step B c ev c' \<Longrightarrow> client_run B ok c0 c'"

definition client_reachable :: "backend \<Rightarrow> slot_client \<Rightarrow> bool" where
  "client_reachable B c \<longleftrightarrow>
    (\<exists>slot reg an. client_run B (\<lambda>_. True) (SlotClient_new slot reg an) c)"

text \<open>What a step may do: keep the identity, move the pin forward, add evidence and witnesses.\<close>

definition pin_le :: "pin option \<Rightarrow> pin option \<Rightarrow> bool" where
  "pin_le a b = (case a of None \<Rightarrow> True | Some p \<Rightarrow> (case b of None \<Rightarrow> False | Some q \<Rightarrow> pn_seq p \<le> pn_seq q))"

definition evidence_le :: "evidence \<Rightarrow> evidence \<Rightarrow> bool" where
  "evidence_le m n \<longleftrightarrow> (\<forall>seq. set (evidence_set m seq) \<subseteq> set (evidence_set n seq))"

definition client_le :: "slot_client \<Rightarrow> slot_client \<Rightarrow> bool" where
  "client_le c d \<longleftrightarrow> cl_slot_id d = cl_slot_id c \<and> cl_regime d = cl_regime c \<and>
    cl_anchor d = cl_anchor c \<and> pin_le (cl_pin c) (cl_pin d) \<and>
    evidence_le (cl_evidence c) (cl_evidence d) \<and>
    evidence_le (cl_record_evidence c) (cl_record_evidence d) \<and>
    (\<exists>ws. cl_witnesses d = cl_witnesses c @ ws)"

lemma pin_le_refl [simp]: "pin_le a a"
  by (simp add: pin_le_def split: option.splits)

lemma pin_le_trans: "pin_le a b \<Longrightarrow> pin_le b c \<Longrightarrow> pin_le a c"
  by (auto simp: pin_le_def split: option.splits)

lemma evidence_le_refl [simp]: "evidence_le m m"
  by (simp add: evidence_le_def)

lemma evidence_le_trans: "evidence_le a b \<Longrightarrow> evidence_le b c \<Longrightarrow> evidence_le a c"
  by (fastforce simp: evidence_le_def)

lemma client_le_refl [simp]: "client_le c c"
  by (simp add: client_le_def)

lemma client_le_trans: "client_le a b \<Longrightarrow> client_le b c \<Longrightarrow> client_le a c"
  by (auto simp: client_le_def intro: pin_le_trans evidence_le_trans)

lemma client_le_observe [simp]: "client_le c (observe c seq h)"
  by (auto simp: client_le_def observe_def evidence_le_def dest: evidence_add_grows [THEN subsetD])

lemma client_le_observe_record_hash [simp]: "client_le c (observe_record_hash c seq h)"
  by (auto simp: client_le_def observe_record_hash_def evidence_le_def
      dest: evidence_add_grows [THEN subsetD])

lemma client_le_observe_record: "client_le c (observe_record B r c)"
  unfolding observe_record_def
  by (rule client_le_trans [OF client_le_observe client_le_observe_record_hash])

lemma client_le_observe_records: "client_le c (fold (observe_record B) rs c)"
proof (induction rs arbitrary: c)
  case Nil
  then show ?case by simp
next
  case (Cons r rs)
  have "client_le c (fold (observe_record B) rs (observe_record B r c))"
    by (rule client_le_trans [OF client_le_observe_record Cons.IH])
  then show ?case by simp
qed

lemma client_le_witness: "client_le c (fst (observe_witness B c w))"
  by (auto simp: observe_witness_def Let_def client_le_def observe_record_hash_def evidence_le_def
      dest: evidence_add_grows [THEN subsetD])

lemma client_le_set_pin:
  "behind_pin c seq = None \<Longrightarrow> pn_seq p = seq \<Longrightarrow> client_le c (c\<lparr>cl_pin := Some p\<rparr>)"
  by (auto simp: client_le_def pin_le_def behind_pin_def split: option.splits if_splits)

lemma decide_offer_cases:
  assumes "decide_offer B c records head ros = (c', v)"
  obtains (kept) "c' = c" "\<And>p. v \<noteq> Accepted p" "\<And>p t. v \<noteq> Degraded p t"
      "\<And>p. v = Alarm p \<Longrightarrow> client_fork_proof B c = Some p"
  | (moved) w where "c' = c\<lparr>cl_pin := Some \<lparr>pn_seq = wk_head_seq w, pn_record_hash = wk_head_hash w\<rparr>\<rparr>"
      "v = Accepted \<lparr>pn_seq = wk_head_seq w, pn_record_hash = wk_head_hash w\<rparr>"
      "client_fork_proof B c = None"
      "\<not> sr_seq head < an_seq (cl_anchor c)" "behind_pin c (sr_seq head) = None"
      "verify_chain B records (cl_slot_id c) ros (map_option pn_record_hash (cl_pin c)) = Ok w"
      "wk_regime w = cl_regime c" "\<not> anchor_violated B c records"
  using assms
  by (auto simp: decide_offer_def Let_def split: option.splits if_splits sum.splits)

lemma decide_head_only_cases:
  assumes "decide_head_only B c head ros = (c', v)"
  obtains (kept) "c' = c" "\<And>p. v \<noteq> Accepted p" "\<And>p t. v \<noteq> Degraded p t"
      "\<And>p. v = Alarm p \<Longrightarrow> client_fork_proof B c = Some p"
  | (moved) vk where "c' = c\<lparr>cl_pin := Some \<lparr>pn_seq = sr_seq head, pn_record_hash = record_hash B head\<rparr>\<rparr>"
      "v = Degraded \<lparr>pn_seq = sr_seq head, pn_record_hash = record_hash B head\<rparr> DEGRADED_REASON"
      "client_fork_proof B c = None"
      "\<not> sr_seq head < an_seq (cl_anchor c)" "behind_pin c (sr_seq head) = None"
      "Roster_get ros (sr_writer_id head) = Some vk" "SlotRecord_verify B head vk = Ok ()"
      "sr_regime head = cl_regime c"
  using assms
  by (auto simp: decide_head_only_def Let_def split: option.splits if_splits sum.splits)

text \<open>Where the pin ends up after an offer: unchanged, or exactly at the offered head.\<close>

lemma client_le_decide_offer:
  assumes "records \<noteq> []"
  shows "client_le c (fst (decide_offer B c records (last records) ros))"
proof -
  obtain c' v where eq: "decide_offer B c records (last records) ros = (c', v)" by force
  then show ?thesis
  proof (cases rule: decide_offer_cases)
    case kept
    then show ?thesis using eq by simp
  next
    case (moved w)
    then have "wk_head_seq w = sr_seq (last records)"
      by (simp add: verify_chain_def verify_chain_Inr_iff walk_of_def)
    with moved(5) have "client_le c c'" unfolding moved(1) by (intro client_le_set_pin) simp_all
    with eq show ?thesis by simp
  qed
qed

lemma client_le_decide_head_only: "client_le c (fst (decide_head_only B c head ros))"
proof -
  obtain c' v where eq: "decide_head_only B c head ros = (c', v)" by force
  then show ?thesis
  proof (cases rule: decide_head_only_cases)
    case kept
    then show ?thesis using eq by simp
  next
    case (moved vk)
    then have "client_le c c'" unfolding moved(1) by (intro client_le_set_pin) simp_all
    with eq show ?thesis by simp
  qed
qed

lemma client_le_offer: "client_le c (fst (offer B c records ros))"
  by (auto simp: offer_def Let_def
      intro: client_le_trans [OF client_le_observe_records client_le_decide_offer])

lemma client_le_offer_head_only: "client_le c (fst (offer_head_only B c head ros))"
  by (auto simp: offer_head_only_def
      intro: client_le_trans [OF client_le_observe_record client_le_decide_head_only])

lemma client_le_trust: "client_le c (fst (trust_witness B c vk))"
  by (auto simp: trust_witness_def client_le_def split: sum.splits)

lemma client_le_step: "client_step B c ev c' \<Longrightarrow> client_le c c'"
  by (erule client_stepE)
     (auto intro: client_le_trust client_le_witness client_le_offer client_le_offer_head_only)

section \<open>The invariant of a client\<close>

definition witness_admitted :: "backend \<Rightarrow> slot_client \<Rightarrow> witness \<Rightarrow> bool" where
  "witness_admitted B c w \<longleftrightarrow> wt_slot_id w = cl_slot_id c \<and> Witness_verify B w = Ok () \<and>
    Roster_contains (cl_witness_roster c) (WriterId_of_key B (wt_witness_pk w))"

definition pin_floor :: "slot_client \<Rightarrow> bool" where
  "pin_floor c = (case cl_pin c of None \<Rightarrow> True | Some p \<Rightarrow> an_seq (cl_anchor c) \<le> pn_seq p)"

definition client_inv :: "backend \<Rightarrow> slot_client \<Rightarrow> bool" where
  "client_inv B c \<longleftrightarrow> pin_floor c \<and> evidence_ok (cl_evidence c) \<and> evidence_ok (cl_record_evidence c) \<and>
    length (cl_witnesses c) \<le> MAX_WITNESSES \<and> list_all (witness_admitted B c) (cl_witnesses c) \<and>
    roster_inv B (cl_witness_roster c) \<and>
    an_sig_hash (cl_anchor c) \<in> set (evidence_set (cl_evidence c) (an_seq (cl_anchor c)))"

lemma client_inv_new: "client_inv B (SlotClient_new slot reg an)"
  using evidence_ok_single [of "an_seq an" "an_sig_hash an"]
  by (simp add: client_inv_def SlotClient_new_def pin_floor_def evidence_set_def)

lemma client_inv_update:
  assumes "client_inv B c" "cl_anchor d = cl_anchor c" "cl_slot_id d = cl_slot_id c" "pin_floor d"
    "cl_witnesses d = cl_witnesses c" "cl_witness_roster d = cl_witness_roster c"
    "evidence_ok (cl_evidence d)" "evidence_ok (cl_record_evidence d)"
    "evidence_le (cl_evidence c) (cl_evidence d)"
  shows "client_inv B d"
  using assms by (auto simp: client_inv_def witness_admitted_def [abs_def] evidence_le_def)

lemma client_inv_observe: "client_inv B c \<Longrightarrow> client_inv B (observe c seq h)"
  by (rule client_inv_update [of B c])
     (simp_all add: observe_def pin_floor_def client_inv_def evidence_ok_add evidence_le_def
       evidence_add_grows split: option.splits)

lemma client_inv_observe_record_hash: "client_inv B c \<Longrightarrow> client_inv B (observe_record_hash c seq h)"
  by (rule client_inv_update [of B c])
     (simp_all add: observe_record_hash_def pin_floor_def client_inv_def evidence_ok_add
       split: option.splits)

lemma client_inv_observe_records: "client_inv B c \<Longrightarrow> client_inv B (fold (observe_record B) rs c)"
  by (induction rs arbitrary: c)
     (simp_all add: observe_record_def client_inv_observe client_inv_observe_record_hash)

lemma client_inv_set_pin:
  "client_inv B c \<Longrightarrow> an_seq (cl_anchor c) \<le> pn_seq p \<Longrightarrow> client_inv B (c\<lparr>cl_pin := Some p\<rparr>)"
  by (rule client_inv_update [of B c]) (simp_all add: pin_floor_def client_inv_def)

lemma client_inv_push_witness:
  "client_inv B c \<Longrightarrow> witness_admitted B c w \<Longrightarrow> length (cl_witnesses c) < MAX_WITNESSES \<Longrightarrow>
    client_inv B (c\<lparr>cl_witnesses := cl_witnesses c @ [w]\<rparr>)"
  by (auto simp: client_inv_def witness_admitted_def [abs_def] pin_floor_def split: option.splits)

lemma client_inv_witness: "client_inv B c \<Longrightarrow> client_inv B (fst (observe_witness B c w))"
proof -
  assume "client_inv B c"
  then have inv: "client_inv B (observe_record_hash c (wt_seq w) (wt_record_hash w))"
    by (rule client_inv_observe_record_hash)
  show ?thesis
    using \<open>client_inv B c\<close> client_inv_push_witness [OF inv, of w] inv
    by (auto simp: observe_witness_def Let_def witness_admitted_def is_err_iff)
       (simp_all add: observe_record_hash_def)
qed

lemma Roster_add_contains:
  "Roster_add B ros vk = Inr (ros', wid) \<Longrightarrow> Roster_contains ros x \<Longrightarrow> Roster_contains ros' x"
  by (auto simp: Roster_add_def Roster_contains_def Let_def split: if_splits)

lemma client_inv_trust: "client_inv B c \<Longrightarrow> client_inv B (fst (trust_witness B c vk))"
  using Roster_add_contains [of B "cl_witness_roster c" vk] roster_inv_add [of B "cl_witness_roster c" vk]
  by (auto simp: trust_witness_def client_inv_def pin_floor_def witness_admitted_def list_all_iff
      split: sum.splits option.splits)

lemma client_inv_offer: "client_inv B c \<Longrightarrow> client_inv B (fst (offer B c records ros))"
proof -
  assume inv: "client_inv B c"
  let ?o = "fold (observe_record B) records c"
  obtain c' v where eq: "decide_offer B ?o records (last records) ros = (c', v)" by force
  then have "client_inv B c'" if "records \<noteq> []"
  proof (cases rule: decide_offer_cases)
    case kept
    then show ?thesis using client_inv_observe_records [OF inv] by simp
  next
    case (moved w)
    then have "wk_head_seq w = sr_seq (last records)"
      by (simp add: verify_chain_def verify_chain_Inr_iff walk_of_def)
    with moved show ?thesis by (auto intro!: client_inv_set_pin client_inv_observe_records inv)
  qed
  with inv eq show ?thesis by (simp add: offer_def Let_def)
qed

lemma client_inv_offer_head_only:
  "client_inv B c \<Longrightarrow> client_inv B (fst (offer_head_only B c head ros))"
proof -
  assume inv: "client_inv B c"
  have inv': "client_inv B (observe_record B head c)"
    using client_inv_observe_records [OF inv, of "[head]"] by simp
  obtain c' v where eq: "decide_head_only B (observe_record B head c) head ros = (c', v)" by force
  then have "client_inv B c'"
  proof (cases rule: decide_head_only_cases)
    case kept
    then show ?thesis using inv' by simp
  next
    case (moved vk)
    then show ?thesis by (auto intro!: client_inv_set_pin inv')
  qed
  with inv eq show ?thesis by (simp add: offer_head_only_def)
qed

lemma client_inv_step: "client_step B c ev c' \<Longrightarrow> client_inv B c \<Longrightarrow> client_inv B c'"
  by (erule client_stepE)
     (auto intro: client_inv_trust client_inv_observe client_inv_witness client_inv_offer
       client_inv_offer_head_only)

lemma client_run_inv: "client_run B ok c0 c \<Longrightarrow> client_inv B c0 \<Longrightarrow> client_inv B c"
  by (induction rule: client_run.induct) (auto intro: client_inv_step)

lemma client_run_le: "client_run B ok c0 c \<Longrightarrow> client_le c0 c"
  by (induction rule: client_run.induct) (auto intro: client_le_trans client_le_step)

lemma client_reachable_inv: "client_reachable B c \<Longrightarrow> client_inv B c"
  by (auto simp: client_reachable_def intro: client_run_inv client_inv_new)

section \<open>The ancestry walk and the proofs it yields\<close>

definition edges_ok :: "witness list \<Rightarrow> (hash32, witness) btreemap \<Rightarrow> bool" where
  "edges_ok ws m \<longleftrightarrow> (\<forall>h w. btm_get m h = Some w \<longrightarrow> w \<in> set ws \<and> wt_record_hash w = h)"

lemma edges_ok_fold:
  "edges_ok us m \<Longrightarrow> set ws \<subseteq> set us \<Longrightarrow>
    edges_ok us (fold (\<lambda>w m. btm_or_insert (wt_record_hash w) w m) ws m)"
proof (induction ws arbitrary: m)
  case Nil
  then show ?case by simp
next
  case (Cons w ws)
  have "edges_ok us (btm_or_insert (wt_record_hash w) w m)"
    using Cons.prems by (auto simp: edges_ok_def btm_get_or_insert split: if_splits option.splits)
  then show ?case using Cons by simp
qed

lemma edges_ok_client: "edges_ok (cl_witnesses c) (client_edges c)"
  unfolding client_edges_def by (rule edges_ok_fold) (simp_all add: edges_ok_def)

lemma walk_loop_link:
  assumes "walk_loop edges target link hash seq = Some (link', reached)" "target \<le> seq"
    "edges_ok us edges" "list_all (\<lambda>w. wt_slot_id w = slot \<and> Witness_verify B w = Ok ()) us"
  shows "\<exists>ws. link' = link @ ws \<and> set ws \<subseteq> set us \<and> length ws = unat seq - unat target \<and>
    proof_walk B slot target hash seq ws = Some (reached, target) \<and>
    (ws \<noteq> [] \<longrightarrow> wt_prev (last ws) = reached \<and> unat (wt_seq (last ws)) = Suc (unat target))"
  using assms
proof (induction edges target link hash seq rule: walk_loop.induct)
  case (1 edges target link hash seq)
  show ?case
  proof (cases "target < seq")
    case False
    with "1.prems" show ?thesis by (auto simp: walk_loop.simps [of edges target link])
  next
    case True
    then obtain w where w: "btm_get edges hash = Some w" "wt_seq w = seq"
      and rec: "walk_loop edges target (link @ [w]) (wt_prev w) (seq - 1) = Some (link', reached)"
      using "1.prems"(1) by (subst (asm) walk_loop.simps) (auto split: option.splits if_splits)
    have lt: "unat target < unat seq" using True by (simp add: word_less_nat_alt)
    then have pred: "unat (seq - 1) = unat seq - 1" by (intro unat_pred) auto
    then have le: "target \<le> seq - 1" using lt by (simp add: word_le_nat_alt)
    have wu: "w \<in> set us" "wt_record_hash w = hash" using "1.prems"(3) w by (auto simp: edges_ok_def)
    obtain ws where ws: "link' = (link @ [w]) @ ws" "set ws \<subseteq> set us"
        "length ws = unat (seq - 1) - unat target"
        "proof_walk B slot target (wt_prev w) (seq - 1) ws = Some (reached, target)"
        "ws \<noteq> [] \<longrightarrow> wt_prev (last ws) = reached \<and> unat (wt_seq (last ws)) = Suc (unat target)"
      using "1.IH" [OF True w(1) _ rec le] "1.prems"(3,4) w(2) by blast
    have "proof_walk B slot target hash seq (w # ws) = Some (reached, target)"
      using wu w(2) ws(4) True "1.prems"(4) by (auto simp: list_all_iff is_err_iff)
    moreover have "wt_prev w = reached \<and> unat (wt_seq w) = Suc (unat target)" if "ws = []"
      using ws(3,4) that pred lt w(2) by simp
    ultimately show ?thesis
      using ws wu lt pred by (intro exI [of _ "w # ws"]) auto
  qed
qed

text \<open>A conflicting pair, and how the double loop of \<open>witness_conflict\<close> keeps the least one.\<close>

definition conflicting :: "(hash32, witness) btreemap \<Rightarrow> witness \<Rightarrow> witness \<Rightarrow> witness list \<Rightarrow> bool" where
  "conflicting edges high low link \<longleftrightarrow> wt_seq low < wt_seq high \<and>
    (\<exists>reached. walk_to edges high (wt_seq low) = Some (link, reached) \<and> reached \<noteq> wt_record_hash low)"

fun conflict_key :: "conflict \<Rightarrow> u64 \<times> u64" where
  "conflict_key (s, low, high, link) = (s, wt_seq high)"

definition best_le :: "conflict option \<Rightarrow> u64 \<times> u64 \<Rightarrow> bool" where
  "best_le best k = (case best of None \<Rightarrow> False | Some b \<Rightarrow> conflict_key b \<le> k)"

fun conflict_ok :: "(hash32, witness) btreemap \<Rightarrow> witness list \<Rightarrow> conflict option \<Rightarrow> bool" where
  "conflict_ok edges ws None = True"
| "conflict_ok edges ws (Some (s, low, high, link)) =
    (s = wt_seq low \<and> low \<in> set ws \<and> high \<in> set ws \<and> conflicting edges high low link)"

definition all_pairs :: "'a list \<Rightarrow> ('a \<times> 'a) list" where
  "all_pairs xs = concat (map (\<lambda>x. map (Pair x) xs) xs)"

lemma fold_all_pairs:
  "fold (\<lambda>x b. fold (\<lambda>y b. f x y b) ys b) xs b0 =
    fold (\<lambda>(x, y) b. f x y b) (concat (map (\<lambda>x. map (Pair x) ys) xs)) b0"
  by (induction xs arbitrary: b0) (simp_all add: fold_map comp_def)

lemma witness_conflict_pairs:
  "witness_conflict c =
    fold (\<lambda>(high, low). consider_pair (client_edges c) high low) (all_pairs (cl_witnesses c)) None"
  unfolding witness_conflict_def Let_def all_pairs_def fold_all_pairs ..

lemma set_all_pairs [simp]: "set (all_pairs xs) = set xs \<times> set xs"
  by (auto simp: all_pairs_def)

lemma consider_pair_ok:
  "conflict_ok edges ws best \<Longrightarrow> high \<in> set ws \<Longrightarrow> low \<in> set ws \<Longrightarrow>
    conflict_ok edges ws (consider_pair edges high low best)"
  by (auto simp: consider_pair_def conflicting_def not_le split: option.splits)

lemma consider_pair_keeps: "best_le best k \<Longrightarrow> best_le (consider_pair edges high low best) k"
  by (auto simp: consider_pair_def best_le_def less_eq_prod_def split: option.splits if_splits)

lemma consider_pair_finds:
  "conflicting edges high low link \<Longrightarrow>
    best_le (consider_pair edges high low best) (wt_seq low, wt_seq high)"
  by (auto simp: consider_pair_def best_le_def conflicting_def not_le split: option.splits)

lemma fold_consider_ok:
  "conflict_ok edges ws best \<Longrightarrow> set ps \<subseteq> set ws \<times> set ws \<Longrightarrow>
    conflict_ok edges ws (fold (\<lambda>(high, low). consider_pair edges high low) ps best)"
  by (induction ps arbitrary: best) (auto intro: consider_pair_ok)

lemma fold_consider_keeps:
  "best_le best k \<Longrightarrow> best_le (fold (\<lambda>(high, low). consider_pair edges high low) ps best) k"
  by (induction ps arbitrary: best) (auto intro: consider_pair_keeps)

lemma fold_consider_finds:
  "(high, low) \<in> set ps \<Longrightarrow> conflicting edges high low link \<Longrightarrow>
    best_le (fold (\<lambda>(high, low). consider_pair edges high low) ps best) (wt_seq low, wt_seq high)"
  by (induction ps arbitrary: best) (auto intro: fold_consider_keeps consider_pair_finds)

lemma witness_conflict_ok: "conflict_ok (client_edges c) (cl_witnesses c) (witness_conflict c)"
  unfolding witness_conflict_pairs by (rule fold_consider_ok) simp_all

lemma witness_conflict_least:
  "high \<in> set (cl_witnesses c) \<Longrightarrow> low \<in> set (cl_witnesses c) \<Longrightarrow>
    conflicting (client_edges c) high low link \<Longrightarrow>
    best_le (witness_conflict c) (wt_seq low, wt_seq high)"
  unfolding witness_conflict_pairs by (rule fold_consider_finds) simp_all

lemma walk_to_link:
  assumes "walk_to (client_edges c) high target = Some (link, reached)" "client_inv B c"
    "high \<in> set (cl_witnesses c)"
  shows "target < wt_seq high \<and> set link \<subseteq> set (cl_witnesses c) \<and> length link \<le> MAX_LINK \<and>
    proof_walk B (cl_slot_id c) target (wt_prev high) (wt_seq high - 1) link = Some (reached, target) \<and>
    unat (wt_seq high) = Suc (unat target + length link) \<and>
    (link \<noteq> [] \<longrightarrow> wt_prev (last link) = reached \<and> unat (wt_seq (last link)) = Suc (unat target))"
proof -
  have gt: "target < wt_seq high" and steps: "unat (wt_seq high - target) \<le> MAX_WALK_STEPS"
    and loop: "walk_loop (client_edges c) target [] (wt_prev high) (wt_seq high - 1) = Some (link, reached)"
    using assms(1) by (auto simp: walk_to_def not_le not_less split: if_splits)
  have lt: "unat target < unat (wt_seq high)" using gt by (simp add: word_less_nat_alt)
  then have pred: "unat (wt_seq high - 1) = unat (wt_seq high) - 1" by (intro unat_pred) auto
  then have le: "target \<le> wt_seq high - 1" using lt by (simp add: word_le_nat_alt)
  have ok: "list_all (\<lambda>w. wt_slot_id w = cl_slot_id c \<and> Witness_verify B w = Ok ()) (cl_witnesses c)"
    using assms(2) by (auto simp: client_inv_def witness_admitted_def list_all_iff)
  have "unat (wt_seq high - target) = unat (wt_seq high) - unat target"
    using gt by (simp add: unat_sub order.strict_implies_order)
  then show ?thesis
    using walk_loop_link [OF loop le edges_ok_client ok] gt steps lt pred
    by (auto simp: MAX_WALK_STEPS_def MAX_WITNESSES_def MAX_LINK_def)
qed

lemma conflicting_try_linked:
  assumes "conflicting (client_edges c) high low link" "client_inv B c"
    "high \<in> set (cl_witnesses c)" "low \<in> set (cl_witnesses c)"
  shows "ForkProof_try_linked B low high link =
    Some \<lparr>fp_slot_id = wt_slot_id low, fp_seq = wt_seq low, fp_a = low, fp_b = high, fp_link = link\<rparr>"
proof -
  obtain reached where walk: "walk_to (client_edges c) high (wt_seq low) = Some (link, reached)"
    and diff: "reached \<noteq> wt_record_hash low" and lt: "wt_seq low < wt_seq high"
    using assms(1) by (auto simp: conflicting_def)
  have adm: "witness_admitted B c high" "witness_admitted B c low"
    using assms(2-4) by (auto simp: client_inv_def list_all_iff)
  then show ?thesis
    using walk_to_link [OF walk assms(2,3)] diff lt
    by (auto simp: ForkProof_try_linked_def ForkProof_verify_def Let_def witness_admitted_def is_err_iff)
qed

lemma find_map_Some: "find_map f xs = Some y \<Longrightarrow> \<exists>x \<in> set xs. f x = Some y"
  by (induction xs) (auto split: option.splits)

lemma find_map_None: "find_map f xs = None \<longleftrightarrow> (\<forall>x \<in> set xs. f x = None)"
  by (induction xs) (auto split: option.splits)

lemma same_seq_proof_Some:
  "same_seq_proof B ws = Some p \<Longrightarrow> \<exists>a \<in> set ws. \<exists>b \<in> set ws. ForkProof_try_new B a b = Some p"
  by (induction ws) (auto dest: find_map_Some split: option.splits)

lemma try_new_commute_None: "ForkProof_try_new B a b = None \<longleftrightarrow> ForkProof_try_new B b a = None"
  by (auto simp: ForkProof_try_new_def)

lemma same_seq_proof_None:
  "same_seq_proof B ws = None \<longleftrightarrow> (\<forall>a \<in> set ws. \<forall>b \<in> set ws. ForkProof_try_new B a b = None)"
proof (induction ws)
  case Nil
  then show ?case by simp
next
  case (Cons a ws)
  have "ForkProof_try_new B a a = None" by (simp add: ForkProof_try_new_def)
  moreover have "same_seq_proof B (a # ws) = None \<longleftrightarrow>
      find_map (ForkProof_try_new B a) ws = None \<and> same_seq_proof B ws = None"
    by (simp split: option.split)
  ultimately show ?case
    using Cons by (simp add: find_map_None del: same_seq_proof.simps) (metis try_new_commute_None)
qed

text \<open>
  The documented reduction: a walk that arrives through a non-empty link has passed a witness one
  step above \<open>low\<close>, and that witness with \<open>low\<close> is a smaller conflict, which the loop prefers.
\<close>

lemma witness_conflict_link_empty:
  assumes "witness_conflict c = Some (s, low, high, link)" "client_inv B c"
  shows "link = []"
proof (rule ccontr)
  assume ne: "link \<noteq> []"
  have ok: "low \<in> set (cl_witnesses c)" "high \<in> set (cl_witnesses c)" "s = wt_seq low"
    "conflicting (client_edges c) high low link"
    using witness_conflict_ok [of c] assms(1) by auto
  then obtain reached where walk: "walk_to (client_edges c) high (wt_seq low) = Some (link, reached)"
    and diff: "reached \<noteq> wt_record_hash low"
    by (auto simp: conflicting_def)
  let ?w = "last link"
  have w: "?w \<in> set (cl_witnesses c)" "wt_prev ?w = reached" "unat (wt_seq ?w) = Suc (unat (wt_seq low))"
    using walk_to_link [OF walk assms(2) ok(2)] ne last_in_set [OF ne] by auto
  have one: "wt_seq ?w = wt_seq low + 1"
    using arg_cong [OF w(3), of "of_nat :: nat \<Rightarrow> u64"] by simp
  have gt: "wt_seq low < wt_seq ?w" using w(3) by (simp add: word_less_nat_alt)
  have "walk_to (client_edges c) ?w (wt_seq low) = Some ([], reached)"
    using gt w(2) one
    by (simp add: walk_to_def walk_loop.simps MAX_WALK_STEPS_def MAX_WITNESSES_def not_le)
  then have "conflicting (client_edges c) ?w low []" using gt diff by (auto simp: conflicting_def)
  then have "best_le (witness_conflict c) (wt_seq low, wt_seq ?w)"
    using witness_conflict_least w(1) ok(1) by blast
  then have "wt_seq high \<le> wt_seq ?w" using assms(1) ok(3) by (auto simp: best_le_def)
  then have "unat (wt_seq high) \<le> Suc (unat (wt_seq low))" using w(3) by (simp add: word_le_nat_alt)
  moreover have "unat (wt_seq high) > Suc (unat (wt_seq low))"
    using ne walk_to_link [OF walk assms(2) ok(2)] by (cases link) auto
  ultimately show False by simp
qed

lemma client_fork_proof_facts:
  assumes "client_fork_proof B c = Some p"
  shows "ForkProof_verify B p" "client_inv B c \<Longrightarrow> set (fp_witnesses p) \<subseteq> set (cl_witnesses c)"
    "client_inv B c \<Longrightarrow> fp_link p = []"
proof -
  consider (same) a b where "a \<in> set (cl_witnesses c)" "b \<in> set (cl_witnesses c)"
      "ForkProof_try_new B a b = Some p"
    | (linked) s low high link where "witness_conflict c = Some (s, low, high, link)"
      "ForkProof_try_linked B low high link = Some p"
    using assms by (auto simp: client_fork_proof_def dest: same_seq_proof_Some split: option.splits)
  then show "ForkProof_verify B p" "client_inv B c \<Longrightarrow> set (fp_witnesses p) \<subseteq> set (cl_witnesses c)"
    "client_inv B c \<Longrightarrow> fp_link p = []"
  proof (atomize (full), cases)
    case same
    then show "ForkProof_verify B p \<and> (client_inv B c \<longrightarrow> set (fp_witnesses p) \<subseteq> set (cl_witnesses c)) \<and>
      (client_inv B c \<longrightarrow> fp_link p = [])"
      using try_new_verifies try_new_witnesses by (auto simp: fp_witnesses_def)
  next
    case linked
    then show "ForkProof_verify B p \<and> (client_inv B c \<longrightarrow> set (fp_witnesses p) \<subseteq> set (cl_witnesses c)) \<and>
      (client_inv B c \<longrightarrow> fp_link p = [])"
      using try_linked_verifies [OF linked(2)] try_linked_witnesses [OF linked(2)]
        witness_conflict_ok [of c] witness_conflict_link_empty [OF linked(1)]
      by (auto simp: fp_witnesses_def)
  qed
qed

definition clashing :: "slot_client \<Rightarrow> witness \<Rightarrow> witness \<Rightarrow> bool" where
  "clashing c a b \<longleftrightarrow> (if wt_seq a = wt_seq b then wt_record_hash a \<noteq> wt_record_hash b
     else \<exists>link. conflicting (client_edges c) b a link)"

lemma client_fork_proof_None_iff:
  assumes "client_inv B c"
  shows "client_fork_proof B c = None \<longleftrightarrow>
    \<not> (\<exists>a \<in> set (cl_witnesses c). \<exists>b \<in> set (cl_witnesses c). clashing c a b)"
proof -
  have adm: "w \<in> set (cl_witnesses c) \<Longrightarrow> wt_slot_id w = cl_slot_id c \<and> Witness_verify B w = Ok ()" for w
    using assms by (auto simp: client_inv_def witness_admitted_def list_all_iff)
  have same: "same_seq_proof B (cl_witnesses c) = None \<longleftrightarrow>
    (\<forall>a \<in> set (cl_witnesses c). \<forall>b \<in> set (cl_witnesses c).
      wt_seq a = wt_seq b \<longrightarrow> wt_record_hash a = wt_record_hash b)"
    using adm by (auto simp: same_seq_proof_None ForkProof_try_new_def is_err_iff)
  have none: "\<not> conflicting (client_edges c) b a link"
    if "witness_conflict c = None" "a \<in> set (cl_witnesses c)" "b \<in> set (cl_witnesses c)" for a b link
    using witness_conflict_least [of b c a link] that by (auto simp: best_le_def)
  show ?thesis
  proof (cases "witness_conflict c")
    case None
    then have "client_fork_proof B c = same_seq_proof B (cl_witnesses c)"
      by (simp add: client_fork_proof_def split: option.split)
    moreover have "clashing c a b \<longleftrightarrow> wt_seq a = wt_seq b \<and> wt_record_hash a \<noteq> wt_record_hash b"
      if "a \<in> set (cl_witnesses c)" "b \<in> set (cl_witnesses c)" for a b
      using none [OF None that] by (simp add: clashing_def)
    ultimately show ?thesis using same by auto
  next
    case (Some k)
    then obtain s a b link where k: "witness_conflict c = Some (s, a, b, link)" by (cases k) auto
    then have ab: "a \<in> set (cl_witnesses c)" "b \<in> set (cl_witnesses c)"
      and con: "conflicting (client_edges c) b a link"
      using witness_conflict_ok [of c] by auto
    have "ForkProof_try_linked B a b link \<noteq> None"
      using conflicting_try_linked [OF con assms ab(2,1)] by simp
    then have "client_fork_proof B c \<noteq> None"
      using k by (simp add: client_fork_proof_def split: option.split)
    moreover have "clashing c a b" using con by (auto simp: clashing_def conflicting_def)
    ultimately show ?thesis using ab by auto
  qed
qed

section \<open>Honest histories\<close>

text \<open>
  \<open>g\<close> and \<open>h\<close> give the signature hash and the record hash of the one history; an event is honest
  when everything it carries about this slot is on that history.
\<close>

fun honest_event :: "backend \<Rightarrow> (nat \<Rightarrow> hash32) \<Rightarrow> (nat \<Rightarrow> hash32) \<Rightarrow> client_event \<Rightarrow> bool" where
  "honest_event B g h (TrustWitness vk) = True"
| "honest_event B g h (Observe seq x) = (x = g (unat seq))"
| "honest_event B g h (ObserveWitness w) = on_history h w"
| "honest_event B g h (Offer records ros) =
    list_all (\<lambda>r. sig_hash B r = g (unat (sr_seq r)) \<and> record_hash B r = h (unat (sr_seq r))) records"
| "honest_event B g h (OfferHeadOnly r ros) =
    (sig_hash B r = g (unat (sr_seq r)) \<and> record_hash B r = h (unat (sr_seq r)))"

definition evidence_on :: "(nat \<Rightarrow> hash32) \<Rightarrow> evidence \<Rightarrow> bool" where
  "evidence_on g m \<longleftrightarrow> (\<forall>seq. set (evidence_set m seq) \<subseteq> {g (unat seq)})"

definition honest_client :: "(nat \<Rightarrow> hash32) \<Rightarrow> (nat \<Rightarrow> hash32) \<Rightarrow> slot_client \<Rightarrow> bool" where
  "honest_client g h c \<longleftrightarrow> evidence_on g (cl_evidence c) \<and> evidence_on h (cl_record_evidence c) \<and>
    list_all (on_history h) (cl_witnesses c)"

lemma evidence_on_add: "evidence_on g m \<Longrightarrow> x = g (unat q) \<Longrightarrow> evidence_on g (add_bounded m q x)"
  using evidence_add_subset [of m q x] by (fastforce simp: evidence_on_def split: if_splits)

lemma honest_observe_record:
  "honest_client g h c \<Longrightarrow> honest_event B g h (OfferHeadOnly r ros) \<Longrightarrow>
    honest_client g h (observe_record B r c)"
  by (simp add: honest_client_def observe_record_def observe_def observe_record_hash_def evidence_on_add)

lemma honest_observe_records:
  "honest_client g h c \<Longrightarrow> honest_event B g h (Offer rs ros) \<Longrightarrow>
    honest_client g h (fold (observe_record B) rs c)"
  by (induction rs arbitrary: c) (simp_all add: honest_observe_record)

lemma honest_set_pin [simp]: "honest_client g h (c\<lparr>cl_pin := p\<rparr>) = honest_client g h c"
  by (simp add: honest_client_def)

lemma honest_decide_offer:
  "honest_client g h c \<Longrightarrow> honest_client g h (fst (decide_offer B c rs head ros))"
  by (simp add: decide_offer_def Let_def split: option.split sum.split)

lemma honest_decide_head_only:
  "honest_client g h c \<Longrightarrow> honest_client g h (fst (decide_head_only B c head ros))"
  by (simp add: decide_head_only_def Let_def split: option.split sum.split)

lemma honest_step:
  assumes "client_step B c ev c'" "honest_event B g h ev" "honest_client g h c"
  shows "honest_client g h c'"
  using assms(1)
proof cases
  case (step_trust vk)
  then show ?thesis using assms(3) by (simp add: trust_witness_def honest_client_def split: sum.split)
next
  case (step_observe seq x)
  then show ?thesis using assms(2,3) by (simp add: observe_def honest_client_def evidence_on_add)
next
  case (step_witness w)
  then show ?thesis using assms(2,3)
    by (auto simp: observe_witness_def observe_record_hash_def honest_client_def Let_def on_history_def
        intro: evidence_on_add)
next
  case (step_offer records ros)
  then show ?thesis using assms(2,3) honest_observe_records
    by (auto simp: offer_def Let_def intro!: honest_decide_offer)
next
  case (step_head_only head ros)
  then show ?thesis using assms(2,3) honest_observe_record
    by (auto simp: offer_head_only_def intro!: honest_decide_head_only)
qed

lemma honest_run:
  "client_run B (honest_event B g h) c0 c \<Longrightarrow> honest_client g h c0 \<Longrightarrow> honest_client g h c"
  by (induction rule: client_run.induct) (auto intro: honest_step)

lemma honest_new: "an_sig_hash an = g (unat (an_seq an)) \<Longrightarrow> honest_client g h (SlotClient_new slot reg an)"
  by (auto simp: honest_client_def SlotClient_new_def evidence_on_def evidence_set_def)

lemma evidence_on_by_hash:
  assumes "evidence_ok m" "evidence_on g m"
  shows "by_hash m = None"
proof -
  have "length hs \<le> 1" if "(k, hs) \<in> set m" for k hs
  proof -
    have "evidence_set m k = hs"
      using assms(1) that by (auto simp: evidence_ok_def evidence_set_def strict_sorted_iff)
    then have "bts_inv hs" and "set hs \<subseteq> {g (unat k)}"
      using assms by (auto simp: evidence_ok_def evidence_on_def)
    then have "length hs = card (set hs)" "card (set hs) \<le> card {g (unat k)}"
      using card_mono [of "{g (unat k)}" "set hs"] by (simp_all add: bts.length_elems)
    then show ?thesis by simp
  qed
  then show ?thesis by (force simp: by_hash_def find_None_iff)
qed

lemma honest_client_quiet:
  assumes "client_inv B c" "honest_client g h c"
  shows "client_fork_proof B c = None \<and> forked c = None"
proof -
  have none: "client_fork_proof B c = None"
  proof (rule ccontr)
    assume "client_fork_proof B c \<noteq> None"
    then obtain p where "client_fork_proof B c = Some p" by auto
    then have "ForkProof_verify B p" "set (fp_witnesses p) \<subseteq> set (cl_witnesses c)"
      using client_fork_proof_facts(1,2) assms(1) by auto
    then show False
      using assms(2) fork_proof_refutes_history [of B p h] by (auto simp: honest_client_def list_all_iff)
  qed
  moreover have "witness_conflict c = None"
    using none conflicting_try_linked [OF _ assms(1)] witness_conflict_ok [of c]
    by (auto simp: client_fork_proof_def split: option.splits)
  moreover have "by_hash (cl_evidence c) = None" "by_hash (cl_record_evidence c) = None"
    using assms by (auto simp: client_inv_def honest_client_def intro: evidence_on_by_hash)
  ultimately show ?thesis by (simp add: forked_def opt_min_def)
qed

section \<open>What an offer needs to be accepted\<close>

lemma observe_records_fields [simp]:
  "cl_slot_id (fold (observe_record B) rs c) = cl_slot_id c"
  "cl_regime (fold (observe_record B) rs c) = cl_regime c"
  "cl_anchor (fold (observe_record B) rs c) = cl_anchor c"
  "cl_pin (fold (observe_record B) rs c) = cl_pin c"
  "cl_witnesses (fold (observe_record B) rs c) = cl_witnesses c"
  by (induction rs arbitrary: c)
     (simp_all add: observe_record_def observe_def observe_record_hash_def)

lemma client_fork_proof_cong: "cl_witnesses d = cl_witnesses c \<Longrightarrow> client_fork_proof B d = client_fork_proof B c"
  by (simp only: client_fork_proof_def witness_conflict_def client_edges_def)

lemma observe_records_fork_proof [simp]:
  "client_fork_proof B (fold (observe_record B) rs c) = client_fork_proof B c"
  by (rule client_fork_proof_cong) simp

lemma behind_pin_cong: "cl_pin d = cl_pin c \<Longrightarrow> behind_pin d = behind_pin c"
  by (simp add: behind_pin_def fun_eq_iff)

lemma anchor_violated_cong: "cl_anchor d = cl_anchor c \<Longrightarrow> anchor_violated B d = anchor_violated B c"
  by (simp only: anchor_violated_def [abs_def])

lemma observe_records_guards [simp]:
  "behind_pin (fold (observe_record B) rs c) = behind_pin c"
  "anchor_violated B (fold (observe_record B) rs c) = anchor_violated B c"
  by (rule behind_pin_cong, simp) (rule anchor_violated_cong, simp)

lemma offer_Accepted_iff:
  "offer B c records ros = (c', Accepted p) \<longleftrightarrow>
    valid_slot_chain B records (cl_slot_id c) ros (map_option pn_record_hash (cl_pin c)) [] \<and>
    sr_regime (hd records) = cl_regime c \<and> an_seq (cl_anchor c) \<le> sr_seq (last records) \<and>
    behind_pin c (sr_seq (last records)) = None \<and> \<not> anchor_violated B c records \<and>
    client_fork_proof B c = None \<and>
    p = \<lparr>pn_seq = sr_seq (last records), pn_record_hash = record_hash B (last records)\<rparr> \<and>
    c' = (fold (observe_record B) records c)\<lparr>cl_pin := Some p\<rparr>"
    (is "?l \<longleftrightarrow> ?v \<and> ?r")
proof (cases "records = []")
  case True
  then show ?thesis by (simp add: offer_def valid_slot_chain_def)
next
  case False
  let ?e = "map_option pn_record_hash (cl_pin c)"
  have slot: "sr_slot_id (last records) = cl_slot_id c" if ?v
    using that last_in_set [OF False] by (auto simp: valid_slot_chain_def record_accepted_def)
  have ok: "verify_chain B records (cl_slot_id c) ros ?e = Inr w \<longleftrightarrow> ?v \<and> w = walk_of B records (cl_slot_id c) ?e" for w
    by (simp add: verify_chain_def verify_chain_Inr_iff)
  have head: "head_link (record_hash B) l records = record_hash B (last records)" for l
    using False by (simp add: head_link_last)
  show ?thesis
  proof (cases "verify_chain B records (cl_slot_id c) ros ?e")
    case (Inl e)
    then have "\<not> ?v" using ok by fastforce
    then show ?thesis using Inl False
      by (simp add: offer_def decide_offer_def Let_def split: option.split)
  next
    case (Inr w)
    then have "?v" and w: "w = walk_of B records (cl_slot_id c) ?e" using ok by auto
    then show ?thesis using Inr False slot
      by (auto simp: offer_def decide_offer_def Let_def walk_of_def head not_less split: option.splits)
  qed
qed

lemma offer_head_only_Degraded_iff:
  "offer_head_only B c head ros = (c', Degraded p t) \<longleftrightarrow>
    record_accepted B (cl_slot_id c) ros (cl_regime c) head \<and> an_seq (cl_anchor c) \<le> sr_seq head \<and>
    behind_pin c (sr_seq head) = None \<and> \<not> anchor_violated B c [head] \<and> client_fork_proof B c = None \<and>
    p = \<lparr>pn_seq = sr_seq head, pn_record_hash = record_hash B head\<rparr> \<and> t = DEGRADED_REASON \<and>
    c' = (observe_record B head c)\<lparr>cl_pin := Some p\<rparr>"
proof -
  note obs = observe_records_fields [of B "[head]" c, simplified]
    observe_records_guards [of B "[head]" c, simplified]
    observe_records_fork_proof [of B "[head]" c, simplified]
  show ?thesis
    by (auto simp: offer_head_only_def decide_head_only_def Let_def obs anchor_violated_def
        record_accepted_def not_less split: option.splits sum.splits if_splits)
qed

section \<open>A concrete client\<close>

definition toy_client :: slot_client where
  "toy_client = SlotClient_new toy_slot SingleWriter \<lparr>an_seq = 0, an_sig_hash = sig_hash toy_backend toy_genesis\<rparr>"

definition toy_pin :: pin where
  "toy_pin = \<lparr>pn_seq = 0, pn_record_hash = record_hash toy_backend toy_genesis\<rparr>"

definition toy_pinned :: slot_client where
  "toy_pinned = (observe_record toy_backend toy_genesis toy_client)\<lparr>cl_pin := Some toy_pin\<rparr>"

definition toy_watching :: slot_client where
  "toy_watching = fst (trust_witness toy_backend (fst (trust_witness toy_backend toy_client [1])) [2])"

definition toy_forked :: slot_client where
  "toy_forked = fst (observe_witness toy_backend
     (fst (observe_witness toy_backend toy_watching (toy_witness 1 5))) (toy_witness 2 6))"

lemma toy_client_fields:
  "cl_slot_id toy_client = toy_slot" "cl_regime toy_client = SingleWriter" "cl_pin toy_client = None"
  "cl_witnesses toy_client = []" "an_seq (cl_anchor toy_client) = 0"
  "an_sig_hash (cl_anchor toy_client) = sig_hash toy_backend toy_genesis"
  by (simp_all add: toy_client_def SlotClient_new_def)

lemma toy_no_proof: "client_fork_proof toy_backend toy_client = None"
  by (simp add: client_fork_proof_def witness_conflict_def Let_def toy_client_fields)

lemma toy_genesis_valid: "valid_slot_chain toy_backend [toy_genesis] toy_slot toy_roster None []"
  using toy_chain_valid by (auto simp: valid_slot_chain_def)

lemma toy_offer_accepted:
  "offer toy_backend toy_client [toy_genesis] toy_roster = (toy_pinned, Accepted toy_pin)"
proof -
  have "sr_regime toy_genesis = SingleWriter" "sr_seq toy_genesis = 0"
    by (simp_all add: toy_genesis_def)
  then show ?thesis
    by (simp add: offer_Accepted_iff toy_client_fields toy_genesis_valid toy_no_proof behind_pin_def
        anchor_violated_def toy_pinned_def toy_pin_def)
qed

lemma toy_run_pinned:
  "ok (Offer [toy_genesis] toy_roster) \<Longrightarrow> client_run toy_backend ok toy_client toy_pinned"
  using run_step [OF run_start, of ok "Offer [toy_genesis] toy_roster" toy_backend toy_client toy_pinned]
    step_offer [of toy_backend toy_client "[toy_genesis]" toy_roster] toy_offer_accepted by simp

lemma toy_reachable_pinned: "client_reachable toy_backend toy_pinned"
  using toy_run_pinned [of "\<lambda>_. True"] by (auto simp: client_reachable_def toy_client_def)

lemma toy_reachable_forked: "client_reachable toy_backend toy_forked"
proof -
  have "client_run toy_backend (\<lambda>_. True) toy_client toy_forked"
    unfolding toy_forked_def toy_watching_def
    by (rule run_step [OF run_step [OF run_step [OF run_step [OF run_start]]]])
       (rule TrueI step_trust step_witness)+
  then show ?thesis by (auto simp: client_reachable_def toy_client_def)
qed

lemma toy_watching_fields:
  "cl_slot_id toy_watching = toy_slot" "cl_witnesses toy_watching = []"
  "Roster_contains (cl_witness_roster toy_watching) (toy_hash [1])"
  "Roster_contains (cl_witness_roster toy_watching) (toy_hash [2])"
proof -
  have "toy_hash [1] \<noteq> toy_hash [2]" by (simp add: toy_hash_def)
  then show "cl_slot_id toy_watching = toy_slot" "cl_witnesses toy_watching = []"
    "Roster_contains (cl_witness_roster toy_watching) (toy_hash [1])"
    "Roster_contains (cl_witness_roster toy_watching) (toy_hash [2])"
    by (auto simp: toy_watching_def trust_witness_def Roster_add_def Let_def toy_client_def
        SlotClient_new_def Roster_new_def Roster_contains_def WriterId_of_key_def key_id_def
        split: sum.split)
qed

lemma toy_forked_fields:
  "cl_witnesses toy_forked = [toy_witness 1 5, toy_witness 2 6]" "cl_slot_id toy_forked = toy_slot"
proof -
  have "wt_slot_id (toy_witness k x) = toy_slot" "wt_witness_pk (toy_witness k x) = [k]" for k x
    by (simp_all add: toy_witness_def)
  then show "cl_witnesses toy_forked = [toy_witness 1 5, toy_witness 2 6]" "cl_slot_id toy_forked = toy_slot"
    using toy_watching_fields toy_witness_verifies
    by (simp_all add: toy_forked_def observe_witness_def observe_record_hash_def Let_def is_err_iff
        WriterId_of_key_def key_id_def MAX_WITNESSES_def)
qed

lemma toy_forked_proof: "client_fork_proof toy_backend toy_forked = Some toy_proof"
  using toy_witness_verifies
  by (simp add: client_fork_proof_def toy_forked_fields ForkProof_try_new_def is_err_iff toy_proof_def)
     (simp add: toy_witness_def)

lemma toy_offer_alarm:
  "snd (offer toy_backend toy_forked [toy_genesis] toy_roster) = Alarm toy_proof"
  by (simp add: offer_def decide_offer_def toy_forked_fields toy_forked_proof
      observe_records_fork_proof [of _ "[toy_genesis]", simplified])
     (simp add: toy_genesis_def toy_slot_def)

section \<open>Properties\<close>

text \<open>
  C2. The state of every reachable client: its pin never sits below the anchor of its capability,
  at most two hashes are retained per sequence in either evidence map, at most 64 witnesses are
  kept, and every kept witness is about this slot, verifies, and was signed by a rostered observer.
\<close>

theorem reachable_client_invariant:
  assumes "client_reachable B c"
  shows "(\<forall>p. cl_pin c = Some p \<longrightarrow> an_seq (cl_anchor c) \<le> pn_seq p) \<and>
    (\<forall>seq. evidence_at c seq \<le> 2 \<and> record_evidence_at c seq \<le> 2) \<and> length (cl_witnesses c) \<le> 64 \<and>
    (\<forall>w \<in> set (cl_witnesses c). wt_slot_id w = cl_slot_id c \<and> Witness_verify B w = Ok () \<and>
       Roster_contains (cl_witness_roster c) (WriterId_of_key B (wt_witness_pk w)))"
  using client_reachable_inv [OF assms]
  by (auto simp: client_inv_def pin_floor_def evidence_ok_def evidence_at_def record_evidence_at_def
      MAX_HASHES_PER_SEQ_def MAX_WITNESSES_def witness_admitted_def list_all_iff)

theorem reachable_client_invariant_witness:
  "an_seq (cl_anchor toy_pinned) \<le> pn_seq toy_pin \<and> evidence_at toy_pinned 0 \<le> 2"
  using reachable_client_invariant [OF toy_reachable_pinned] by (auto simp: toy_pinned_def)

text \<open>
  C3. Nothing a peer sends makes a client forget: along every run the slot, the regime and the
  anchor stay fixed, the pin only moves forward, and no hash and no witness once retained is dropped.
\<close>

theorem client_only_moves_forward:
  assumes "client_run B ok c0 c"
  shows "cl_slot_id c = cl_slot_id c0 \<and> cl_regime c = cl_regime c0 \<and> cl_anchor c = cl_anchor c0 \<and>
    (\<forall>p. cl_pin c0 = Some p \<longrightarrow> (\<exists>q. cl_pin c = Some q \<and> pn_seq p \<le> pn_seq q)) \<and>
    (\<forall>seq. set (evidence_set (cl_evidence c0) seq) \<subseteq> set (evidence_set (cl_evidence c) seq) \<and>
       set (evidence_set (cl_record_evidence c0) seq) \<subseteq> set (evidence_set (cl_record_evidence c) seq)) \<and>
    prefix (cl_witnesses c0) (cl_witnesses c)"
  using client_run_le [OF assms]
  by (auto simp: client_le_def pin_le_def evidence_le_def prefix_def split: option.splits)

theorem client_only_moves_forward_witness:
  "cl_anchor toy_pinned = cl_anchor toy_client \<and>
   set (evidence_set (cl_evidence toy_client) 0) \<subseteq> set (evidence_set (cl_evidence toy_pinned) 0)"
  using client_only_moves_forward [OF toy_run_pinned [of "\<lambda>_. True"]] by simp

text \<open>
  C1. A full offer is accepted exactly when it is a valid chain continuing from the pin (from
  genesis for a client without one), in the client's regime, reaching at least the anchor and the
  pin, carrying the anchor's own record if it passes the anchor, with no fork provable from the
  witnesses held; then, and only then, the pin moves to the head.
\<close>

theorem offer_accepts_iff:
  "offer B c records ros = (c', Accepted p) \<longleftrightarrow>
    valid_slot_chain B records (cl_slot_id c) ros (map_option pn_record_hash (cl_pin c)) [] \<and>
    sr_regime (hd records) = cl_regime c \<and> an_seq (cl_anchor c) \<le> sr_seq (last records) \<and>
    behind_pin c (sr_seq (last records)) = None \<and> \<not> anchor_violated B c records \<and>
    client_fork_proof B c = None \<and>
    p = \<lparr>pn_seq = sr_seq (last records), pn_record_hash = record_hash B (last records)\<rparr> \<and>
    c' = (fold (observe_record B) records c)\<lparr>cl_pin := Some p\<rparr>"
  by (rule offer_Accepted_iff)

text \<open>
  Head-only verification never passes for a full one: it never answers \<open>Accepted\<close>, and answers
  \<open>Degraded\<close> exactly when the head alone verifies for this slot and regime under the roster, is not
  behind the anchor or the pin, does not contradict the anchor, and no fork is provable.
\<close>

theorem head_only_is_degraded:
  "snd (offer_head_only B c head ros) \<noteq> Accepted q \<and>
   (offer_head_only B c head ros = (c', Degraded p t) \<longleftrightarrow>
     record_accepted B (cl_slot_id c) ros (cl_regime c) head \<and> an_seq (cl_anchor c) \<le> sr_seq head \<and>
     behind_pin c (sr_seq head) = None \<and> \<not> anchor_violated B c [head] \<and> client_fork_proof B c = None \<and>
     p = \<lparr>pn_seq = sr_seq head, pn_record_hash = record_hash B head\<rparr> \<and> t = DEGRADED_REASON \<and>
     c' = (observe_record B head c)\<lparr>cl_pin := Some p\<rparr>)"
proof -
  have "snd (decide_head_only B d head ros) \<noteq> Accepted q" for d
    by (rule decide_head_only_cases [of B d head ros "fst (decide_head_only B d head ros)"
          "snd (decide_head_only B d head ros)"]) auto
  then show ?thesis using offer_head_only_Degraded_iff by (simp add: offer_head_only_def)
qed

text \<open>
  C6. An alarm is never bare: when an offer to a reachable client answers with an alarm, the proof
  it carries verifies on its own, consists of witnesses this client admitted (so signed by rostered
  observers), and is in the shortest form, with no link to walk.
\<close>

theorem alarm_carries_a_proof:
  assumes "client_reachable B c" "snd (offer B c records ros) = Alarm p"
  shows "ForkProof_verify B p \<and> set (fp_a p # fp_b p # fp_link p) \<subseteq> set (cl_witnesses c) \<and> fp_link p = []"
proof -
  let ?o = "fold (observe_record B) records c"
  have "client_fork_proof B c = Some p"
    using assms(2) decide_offer_cases [of B ?o records "last records" ros
        "fst (decide_offer B ?o records (last records) ros)" "Alarm p"]
    by (auto simp: offer_def Let_def prod_eq_iff split: if_splits)
  with client_fork_proof_facts [OF this] client_reachable_inv [OF assms(1)] show ?thesis
    by (simp add: fp_witnesses_def)
qed

theorem alarm_carries_a_proof_witness:
  "ForkProof_verify toy_backend toy_proof \<and>
   set (fp_a toy_proof # fp_b toy_proof # fp_link toy_proof) \<subseteq> set (cl_witnesses toy_forked) \<and>
   fp_link toy_proof = []"
  by (rule alarm_carries_a_proof [OF toy_reachable_forked toy_offer_alarm])

text \<open>
  C5. Detection is complete for what the client holds: a reachable client has a publishable proof
  exactly when two of its witnesses name different records at one sequence, or one of them can be
  walked down the retained edges, within the bound, to a record other than the one the lower names.
\<close>

theorem fork_proof_exists_iff:
  assumes "client_reachable B c"
  shows "client_fork_proof B c \<noteq> None \<longleftrightarrow>
    (\<exists>a \<in> set (cl_witnesses c). \<exists>b \<in> set (cl_witnesses c).
       if wt_seq a = wt_seq b then wt_record_hash a \<noteq> wt_record_hash b
       else wt_seq a < wt_seq b \<and>
         (\<exists>link h. walk_to (client_edges c) b (wt_seq a) = Some (link, h) \<and> h \<noteq> wt_record_hash a))"
  unfolding client_fork_proof_None_iff [OF client_reachable_inv [OF assms]] clashing_def conflicting_def
  by auto

theorem fork_proof_exists_iff_witness:
  "client_fork_proof toy_backend toy_forked \<noteq> None"
  using fork_proof_exists_iff [OF toy_reachable_forked] by (simp add: toy_forked_fields) (simp add: toy_witness_def)

text \<open>
  C4. No false alarms: if the anchor and every record, hash and witness that reach a client are on
  one history, then after any sequence of such events the client reports no fork and has no proof.
\<close>

theorem honest_history_raises_no_alarm:
  assumes "client_run B (honest_event B g h) (SlotClient_new slot reg an) c"
    and "an_sig_hash an = g (unat (an_seq an))"
  shows "forked c = None \<and> client_fork_proof B c = None"
  using honest_client_quiet [OF client_run_inv [OF assms(1) client_inv_new]
      honest_run [OF assms(1) honest_new]] assms(2) by simp

theorem honest_history_raises_no_alarm_witness:
  "forked toy_pinned = None \<and> client_fork_proof toy_backend toy_pinned = None"
proof (rule honest_history_raises_no_alarm)
  show "client_run toy_backend (honest_event toy_backend (\<lambda>_. sig_hash toy_backend toy_genesis)
      (\<lambda>_. record_hash toy_backend toy_genesis)) (SlotClient_new toy_slot SingleWriter
      \<lparr>an_seq = 0, an_sig_hash = sig_hash toy_backend toy_genesis\<rparr>) toy_pinned"
    using toy_run_pinned by (simp add: toy_client_def)
qed simp

text \<open>
  A client with no pin accepts only a history that starts at genesis: the walk has no expected
  predecessor, so an offer that starts at the capability's anchor is refused unless the anchor is
  the genesis record.
\<close>

theorem fresh_client_needs_genesis:
  assumes "offer B c records ros = (c', Accepted p)" "cl_pin c = None"
  shows "sr_seq (hd records) = 0"
  using assms unfolding offer_Accepted_iff
  by (cases records) (auto simp: valid_slot_chain_def dest: record_accepted_wf simp: genesis_ok_def)

theorem fresh_client_needs_genesis_witness: "sr_seq (hd [toy_genesis]) = 0"
  by (rule fresh_client_needs_genesis [OF toy_offer_accepted]) (simp add: toy_client_fields)

end
