(* ===== verification/Wire.thy ===== *)
theory Wire
  imports Slot_Record
begin

text \<open>
  \<open>nas-transfer/src/wire.rs\<close>: the request and response format spoken to a peer, and the framing of
  \<open>session.rs\<close> it travels in. Every message is bounded before it is believed, and each decoder
  accepts exactly the messages the encoder emits.
\<close>

section \<open>Limits and errors\<close>

definition MAX_FRAME :: usize where
  "MAX_FRAME = 256 * 1024 + 4096"

definition MAX_RECORDS :: usize where
  "MAX_RECORDS = 256"

definition RECORD_BUDGET :: usize where
  "RECORD_BUDGET = MAX_FRAME - 4096"

definition record_cost :: "usize \<Rightarrow> usize" where
  "record_cost encoded_len = encoded_len + 4"

datatype wire_error =
    Decode decode_error
  | FrameTooLarge usize
  | UnknownTag u8
  | BadWidth string usize usize
  | FieldCount usize usize
  | TooManyRecords usize
  | NonCanonical string

section \<open>Messages\<close>

datatype request =
    GetBlob addr
  | HasBlob addr
  | PutBlob bytes
  | Prove addr hash32
  | SlotHead slot_id
  | SlotHistory slot_id u64
  | PublishSlot bytes
  | PublishWitness bytes
  | Witnesses slot_id
  | PublishHandoff bytes
  | Handoffs slot_id
  | PublishCheckpoint bytes
  | Checkpoints slot_id u64
  | TakeLease "addr list"
  | ReleaseLease "addr list"
  | Leases
  | SweepWarnings
  | PublishDeleteRequest bytes
  | PublishDeleteApproval bytes
  | ExecuteDelete bytes
  | DeleteRequestRecord hash32
  | DeleteApprovals hash32
  | ForgetRetention "addr list" bytes

text \<open>An \<open>Error\<close> text is a \<open>String\<close>, here its UTF-8 bytes.\<close>

datatype response =
    Blob bytes
  | BoolRsp bool
  | Stored addr
  | ProofRsp hash32
  | RecordRsp "bytes option"
  | Records "bytes list"
  | OkRsp
  | Addrs "addr list"
  | ErrorRsp bytes

definition REQ_GET_BLOB :: u8 where "REQ_GET_BLOB = 0"
definition REQ_HAS_BLOB :: u8 where "REQ_HAS_BLOB = 1"
definition REQ_PUT_BLOB :: u8 where "REQ_PUT_BLOB = 2"
definition REQ_PROVE :: u8 where "REQ_PROVE = 3"
definition REQ_SLOT_HEAD :: u8 where "REQ_SLOT_HEAD = 4"
definition REQ_SLOT_HISTORY :: u8 where "REQ_SLOT_HISTORY = 5"
definition REQ_PUBLISH_SLOT :: u8 where "REQ_PUBLISH_SLOT = 6"
definition REQ_PUBLISH_WITNESS :: u8 where "REQ_PUBLISH_WITNESS = 7"
definition REQ_WITNESSES :: u8 where "REQ_WITNESSES = 8"
definition REQ_PUBLISH_HANDOFF :: u8 where "REQ_PUBLISH_HANDOFF = 9"
definition REQ_HANDOFFS :: u8 where "REQ_HANDOFFS = 10"
definition REQ_PUBLISH_CHECKPOINT :: u8 where "REQ_PUBLISH_CHECKPOINT = 11"
definition REQ_CHECKPOINTS :: u8 where "REQ_CHECKPOINTS = 12"
definition REQ_TAKE_LEASE :: u8 where "REQ_TAKE_LEASE = 13"
definition REQ_RELEASE_LEASE :: u8 where "REQ_RELEASE_LEASE = 14"
definition REQ_LEASES :: u8 where "REQ_LEASES = 15"
definition REQ_SWEEP_WARNINGS :: u8 where "REQ_SWEEP_WARNINGS = 16"
definition REQ_PUBLISH_DELETE_REQUEST :: u8 where "REQ_PUBLISH_DELETE_REQUEST = 17"
definition REQ_PUBLISH_DELETE_APPROVAL :: u8 where "REQ_PUBLISH_DELETE_APPROVAL = 18"
definition REQ_EXECUTE_DELETE :: u8 where "REQ_EXECUTE_DELETE = 19"
definition REQ_DELETE_REQUEST_RECORD :: u8 where "REQ_DELETE_REQUEST_RECORD = 20"
definition REQ_DELETE_APPROVALS :: u8 where "REQ_DELETE_APPROVALS = 21"
definition REQ_FORGET_RETENTION :: u8 where "REQ_FORGET_RETENTION = 22"

definition RSP_BLOB :: u8 where "RSP_BLOB = 0"
definition RSP_BOOL :: u8 where "RSP_BOOL = 1"
definition RSP_STORED :: u8 where "RSP_STORED = 2"
definition RSP_PROOF :: u8 where "RSP_PROOF = 3"
definition RSP_RECORD :: u8 where "RSP_RECORD = 4"
definition RSP_RECORDS :: u8 where "RSP_RECORDS = 5"
definition RSP_OK :: u8 where "RSP_OK = 6"
definition RSP_ADDRS :: u8 where "RSP_ADDRS = 7"
definition RSP_ERROR :: u8 where "RSP_ERROR = 8"

lemmas req_tags =
  REQ_GET_BLOB_def REQ_HAS_BLOB_def REQ_PUT_BLOB_def
  REQ_PROVE_def REQ_SLOT_HEAD_def REQ_SLOT_HISTORY_def
  REQ_PUBLISH_SLOT_def REQ_PUBLISH_WITNESS_def REQ_WITNESSES_def
  REQ_PUBLISH_HANDOFF_def REQ_HANDOFFS_def REQ_PUBLISH_CHECKPOINT_def
  REQ_CHECKPOINTS_def REQ_TAKE_LEASE_def REQ_RELEASE_LEASE_def
  REQ_LEASES_def REQ_SWEEP_WARNINGS_def REQ_PUBLISH_DELETE_REQUEST_def
  REQ_PUBLISH_DELETE_APPROVAL_def REQ_EXECUTE_DELETE_def REQ_DELETE_REQUEST_RECORD_def
  REQ_DELETE_APPROVALS_def REQ_FORGET_RETENTION_def

lemmas rsp_tags =
  RSP_BLOB_def RSP_BOOL_def RSP_STORED_def RSP_PROOF_def RSP_RECORD_def
  RSP_RECORDS_def RSP_OK_def RSP_ADDRS_def RSP_ERROR_def

section \<open>Encoding\<close>

definition check_size :: "bytes \<Rightarrow> wire_error + bytes" where
  "check_size out = (if length out > MAX_FRAME then Err (FrameTooLarge (length out)) else Ok out)"

text \<open>\<open>encode_fields(..)?\<close> under \<open>From<DecodeError>\<close>.\<close>

definition wire_fields :: "bytes list \<Rightarrow> wire_error + bytes" where
  "wire_fields fs = map_err Decode (encode_fields fs)"

definition encode_addrs :: "u8 \<Rightarrow> addr list \<Rightarrow> wire_error + bytes" where
  "encode_addrs tag addrs =
    (if length addrs > MAX_RECORDS then Err (TooManyRecords (length addrs))
     else wire_fields ([tag] # addrs))"

definition encode_forget :: "u8 \<Rightarrow> bytes \<Rightarrow> addr list \<Rightarrow> wire_error + bytes" where
  "encode_forget tag proof_bytes addrs =
    (if length addrs > MAX_RECORDS then Err (TooManyRecords (length addrs))
     else wire_fields ([tag] # proof_bytes # addrs))"

fun Request_arm :: "request \<Rightarrow> wire_error + bytes" where
  "Request_arm (GetBlob a) = wire_fields [[REQ_GET_BLOB], a]"
| "Request_arm (HasBlob a) = wire_fields [[REQ_HAS_BLOB], a]"
| "Request_arm (PutBlob b) = wire_fields [[REQ_PUT_BLOB], b]"
| "Request_arm (Prove a n) = wire_fields [[REQ_PROVE], a, n]"
| "Request_arm (SlotHead s) = wire_fields [[REQ_SLOT_HEAD], s]"
| "Request_arm (SlotHistory s q) = wire_fields [[REQ_SLOT_HISTORY], s, u64_le q]"
| "Request_arm (PublishSlot b) = wire_fields [[REQ_PUBLISH_SLOT], b]"
| "Request_arm (PublishWitness b) = wire_fields [[REQ_PUBLISH_WITNESS], b]"
| "Request_arm (Witnesses s) = wire_fields [[REQ_WITNESSES], s]"
| "Request_arm (PublishHandoff b) = wire_fields [[REQ_PUBLISH_HANDOFF], b]"
| "Request_arm (Handoffs s) = wire_fields [[REQ_HANDOFFS], s]"
| "Request_arm (PublishCheckpoint b) = wire_fields [[REQ_PUBLISH_CHECKPOINT], b]"
| "Request_arm (Checkpoints s q) = wire_fields [[REQ_CHECKPOINTS], s, u64_le q]"
| "Request_arm (TakeLease as) = encode_addrs REQ_TAKE_LEASE as"
| "Request_arm (ReleaseLease as) = encode_addrs REQ_RELEASE_LEASE as"
| "Request_arm Leases = wire_fields [[REQ_LEASES]]"
| "Request_arm SweepWarnings = wire_fields [[REQ_SWEEP_WARNINGS]]"
| "Request_arm (PublishDeleteRequest b) = wire_fields [[REQ_PUBLISH_DELETE_REQUEST], b]"
| "Request_arm (PublishDeleteApproval b) = wire_fields [[REQ_PUBLISH_DELETE_APPROVAL], b]"
| "Request_arm (ExecuteDelete b) = wire_fields [[REQ_EXECUTE_DELETE], b]"
| "Request_arm (DeleteRequestRecord h) = wire_fields [[REQ_DELETE_REQUEST_RECORD], h]"
| "Request_arm (DeleteApprovals h) = wire_fields [[REQ_DELETE_APPROVALS], h]"
| "Request_arm (ForgetRetention as b) = encode_forget REQ_FORGET_RETENTION b as"

definition Request_encode :: "request \<Rightarrow> wire_error + bytes" where
  "Request_encode r = rbind (Request_arm r) check_size"

fun Response_arm :: "response \<Rightarrow> wire_error + bytes" where
  "Response_arm (Blob b) = wire_fields [[RSP_BLOB], b]"
| "Response_arm (BoolRsp v) = wire_fields [[RSP_BOOL], [if v then 1 else 0]]"
| "Response_arm (Stored a) = wire_fields [[RSP_STORED], a]"
| "Response_arm (ProofRsp h) = wire_fields [[RSP_PROOF], h]"
| "Response_arm (RecordRsp None) = wire_fields [[RSP_RECORD], [0]]"
| "Response_arm (RecordRsp (Some r)) = wire_fields [[RSP_RECORD], [1], r]"
| "Response_arm (Records rs) =
    (if length rs > MAX_RECORDS then Err (TooManyRecords (length rs))
     else wire_fields ([RSP_RECORDS] # rs))"
| "Response_arm (Addrs as) = encode_addrs RSP_ADDRS as"
| "Response_arm OkRsp = wire_fields [[RSP_OK]]"
| "Response_arm (ErrorRsp m) = wire_fields [[RSP_ERROR], m]"

definition Response_encode :: "response \<Rightarrow> wire_error + bytes" where
  "Response_encode r = rbind (Response_arm r) check_size"

section \<open>Decoding\<close>

definition tag_of :: "bytes list \<Rightarrow> wire_error + u8" where
  "tag_of f =
    (case f of [] \<Rightarrow> Err (FieldCount 1 0)
     | t # _ \<Rightarrow> if length t = 1 then Ok (t ! 0) else Err (BadWidth ''tag'' 1 (length t)))"

definition exact :: "bytes list \<Rightarrow> usize \<Rightarrow> wire_error + unit" where
  "exact f n = (if length f = n then Ok () else Err (FieldCount n (length f)))"

definition wire_fixed :: "usize \<Rightarrow> string \<Rightarrow> bytes \<Rightarrow> wire_error + bytes" where
  "wire_fixed = fixed_width BadWidth"

definition decode_addrs :: "bytes list \<Rightarrow> wire_error + addr list" where
  "decode_addrs f =
    (if length f - 1 > MAX_RECORDS then Err (TooManyRecords (length f - 1))
     else traverse (wire_fixed ADDR_LEN ''addr'') (drop 1 f))"

definition decode_forget_addrs :: "bytes list \<Rightarrow> wire_error + addr list" where
  "decode_forget_addrs f =
    (if length f < 2 then Err (FieldCount 2 (length f))
     else if length f - 2 > MAX_RECORDS then Err (TooManyRecords (length f - 2))
     else traverse (wire_fixed ADDR_LEN ''addr'') (drop 2 f))"

text \<open>The arms of the two \<open>match tag\<close>, on the fields with the tag still in front.\<close>

definition Request_match :: "u8 \<Rightarrow> bytes list \<Rightarrow> wire_error + request" where
  "Request_match tag f =
    (if tag = REQ_GET_BLOB then
       rbind (exact f 2) (\<lambda>_.
       rbind (wire_fixed ADDR_LEN ''addr'' (f ! 1)) (\<lambda>a. Ok (GetBlob a)))
     else if tag = REQ_HAS_BLOB then
       rbind (exact f 2) (\<lambda>_.
       rbind (wire_fixed ADDR_LEN ''addr'' (f ! 1)) (\<lambda>a. Ok (HasBlob a)))
     else if tag = REQ_PUT_BLOB then
       rbind (exact f 2) (\<lambda>_. Ok (PutBlob (f ! 1)))
     else if tag = REQ_PROVE then
       rbind (exact f 3) (\<lambda>_.
       rbind (wire_fixed ADDR_LEN ''addr'' (f ! 1)) (\<lambda>a. rbind (wire_fixed 32 ''nonce'' (f ! 2)) (\<lambda>n. Ok (Prove a n))))
     else if tag = REQ_SLOT_HEAD then
       rbind (exact f 2) (\<lambda>_.
       rbind (wire_fixed 32 ''slot'' (f ! 1)) (\<lambda>s. Ok (SlotHead s)))
     else if tag = REQ_SLOT_HISTORY then
       rbind (exact f 3) (\<lambda>_.
       rbind (wire_fixed 32 ''slot'' (f ! 1)) (\<lambda>s. rbind (wire_fixed 8 ''from'' (f ! 2)) (\<lambda>q. Ok (SlotHistory s (u64_of_le q)))))
     else if tag = REQ_PUBLISH_SLOT then
       rbind (exact f 2) (\<lambda>_. Ok (PublishSlot (f ! 1)))
     else if tag = REQ_PUBLISH_WITNESS then
       rbind (exact f 2) (\<lambda>_. Ok (PublishWitness (f ! 1)))
     else if tag = REQ_WITNESSES then
       rbind (exact f 2) (\<lambda>_.
       rbind (wire_fixed 32 ''slot'' (f ! 1)) (\<lambda>s. Ok (Witnesses s)))
     else if tag = REQ_PUBLISH_HANDOFF then
       rbind (exact f 2) (\<lambda>_. Ok (PublishHandoff (f ! 1)))
     else if tag = REQ_HANDOFFS then
       rbind (exact f 2) (\<lambda>_.
       rbind (wire_fixed 32 ''slot'' (f ! 1)) (\<lambda>s. Ok (Handoffs s)))
     else if tag = REQ_PUBLISH_CHECKPOINT then
       rbind (exact f 2) (\<lambda>_. Ok (PublishCheckpoint (f ! 1)))
     else if tag = REQ_CHECKPOINTS then
       rbind (exact f 3) (\<lambda>_.
       rbind (wire_fixed 32 ''slot'' (f ! 1)) (\<lambda>s. rbind (wire_fixed 8 ''from'' (f ! 2)) (\<lambda>q. Ok (Checkpoints s (u64_of_le q)))))
     else if tag = REQ_TAKE_LEASE then
       rbind (decode_addrs f) (\<lambda>as. Ok (TakeLease as))
     else if tag = REQ_RELEASE_LEASE then
       rbind (decode_addrs f) (\<lambda>as. Ok (ReleaseLease as))
     else if tag = REQ_LEASES then
       rbind (exact f 1) (\<lambda>_. Ok Leases)
     else if tag = REQ_SWEEP_WARNINGS then
       rbind (exact f 1) (\<lambda>_. Ok SweepWarnings)
     else if tag = REQ_PUBLISH_DELETE_REQUEST then
       rbind (exact f 2) (\<lambda>_. Ok (PublishDeleteRequest (f ! 1)))
     else if tag = REQ_PUBLISH_DELETE_APPROVAL then
       rbind (exact f 2) (\<lambda>_. Ok (PublishDeleteApproval (f ! 1)))
     else if tag = REQ_EXECUTE_DELETE then
       rbind (exact f 2) (\<lambda>_. Ok (ExecuteDelete (f ! 1)))
     else if tag = REQ_DELETE_REQUEST_RECORD then
       rbind (exact f 2) (\<lambda>_.
       rbind (wire_fixed 32 ''request'' (f ! 1)) (\<lambda>h. Ok (DeleteRequestRecord h)))
     else if tag = REQ_DELETE_APPROVALS then
       rbind (exact f 2) (\<lambda>_.
       rbind (wire_fixed 32 ''request'' (f ! 1)) (\<lambda>h. Ok (DeleteApprovals h)))
     else if tag = REQ_FORGET_RETENTION then
       rbind (ok_or (if length f > 1 then Some (f ! 1) else None) (FieldCount 2 (length f))) (\<lambda>b.
       rbind (decode_forget_addrs f) (\<lambda>as. Ok (ForgetRetention as b)))
     else Err (UnknownTag tag))"

definition Request_decode :: "bytes \<Rightarrow> wire_error + request" where
  "Request_decode bs =
    (if length bs > MAX_FRAME then Err (FrameTooLarge (length bs))
     else rbind (map_err Decode (decode_fields bs)) (\<lambda>f.
          rbind (tag_of f) (\<lambda>tag. Request_match tag f)))"

definition Response_match :: "u8 \<Rightarrow> bytes list \<Rightarrow> wire_error + response" where
  "Response_match tag f =
    (if tag = RSP_BLOB then rbind (exact f 2) (\<lambda>_. Ok (Blob (f ! 1)))
     else if tag = RSP_BOOL then
       rbind (exact f 2) (\<lambda>_. rbind (wire_fixed 1 ''bool'' (f ! 1)) (\<lambda>b.
       if b ! 0 = 0 then Ok (BoolRsp False)
       else if b ! 0 = 1 then Ok (BoolRsp True)
       else Err (NonCanonical ''bool is not 0 or 1'')))
     else if tag = RSP_STORED then
       rbind (exact f 2) (\<lambda>_. rbind (wire_fixed ADDR_LEN ''addr'' (f ! 1)) (\<lambda>a. Ok (Stored a)))
     else if tag = RSP_PROOF then
       rbind (exact f 2) (\<lambda>_. rbind (wire_fixed 32 ''proof'' (f ! 1)) (\<lambda>h. Ok (ProofRsp h)))
     else if tag = RSP_RECORD then
       (if length f = 2 then
          rbind (wire_fixed 1 ''present'' (f ! 1)) (\<lambda>b.
          if b ! 0 \<noteq> 0 then Err (NonCanonical ''record marked present but absent'')
          else Ok (RecordRsp None))
        else if length f = 3 then
          rbind (wire_fixed 1 ''present'' (f ! 1)) (\<lambda>b.
          if b ! 0 \<noteq> 1 then Err (NonCanonical ''record marked absent but present'')
          else Ok (RecordRsp (Some (f ! 2))))
        else Err (FieldCount 3 (length f)))
     else if tag = RSP_RECORDS then
       (if length f - 1 > MAX_RECORDS then Err (TooManyRecords (length f - 1))
        else Ok (Records (drop 1 f)))
     else if tag = RSP_ADDRS then rbind (decode_addrs f) (\<lambda>as. Ok (Addrs as))
     else if tag = RSP_OK then rbind (exact f 1) (\<lambda>_. Ok OkRsp)
     else if tag = RSP_ERROR then
       rbind (exact f 2) (\<lambda>_.
       if from_utf8_ok (f ! 1) then Ok (ErrorRsp (f ! 1))
       else Err (NonCanonical ''error text is not valid UTF-8''))
     else Err (UnknownTag tag))"

definition Response_decode :: "bytes \<Rightarrow> wire_error + response" where
  "Response_decode bs =
    (if length bs > MAX_FRAME then Err (FrameTooLarge (length bs))
     else rbind (map_err Decode (decode_fields bs)) (\<lambda>f.
          rbind (tag_of f) (\<lambda>tag. Response_match tag f)))"

section \<open>The field layout of a message\<close>

fun Request_fields :: "request \<Rightarrow> u8 \<times> bytes list" where
  "Request_fields (GetBlob a) = (REQ_GET_BLOB, [a])"
| "Request_fields (HasBlob a) = (REQ_HAS_BLOB, [a])"
| "Request_fields (PutBlob b) = (REQ_PUT_BLOB, [b])"
| "Request_fields (Prove a n) = (REQ_PROVE, [a, n])"
| "Request_fields (SlotHead s) = (REQ_SLOT_HEAD, [s])"
| "Request_fields (SlotHistory s q) = (REQ_SLOT_HISTORY, [s, u64_le q])"
| "Request_fields (PublishSlot b) = (REQ_PUBLISH_SLOT, [b])"
| "Request_fields (PublishWitness b) = (REQ_PUBLISH_WITNESS, [b])"
| "Request_fields (Witnesses s) = (REQ_WITNESSES, [s])"
| "Request_fields (PublishHandoff b) = (REQ_PUBLISH_HANDOFF, [b])"
| "Request_fields (Handoffs s) = (REQ_HANDOFFS, [s])"
| "Request_fields (PublishCheckpoint b) = (REQ_PUBLISH_CHECKPOINT, [b])"
| "Request_fields (Checkpoints s q) = (REQ_CHECKPOINTS, [s, u64_le q])"
| "Request_fields (TakeLease as) = (REQ_TAKE_LEASE, as)"
| "Request_fields (ReleaseLease as) = (REQ_RELEASE_LEASE, as)"
| "Request_fields Leases = (REQ_LEASES, [])"
| "Request_fields SweepWarnings = (REQ_SWEEP_WARNINGS, [])"
| "Request_fields (PublishDeleteRequest b) = (REQ_PUBLISH_DELETE_REQUEST, [b])"
| "Request_fields (PublishDeleteApproval b) = (REQ_PUBLISH_DELETE_APPROVAL, [b])"
| "Request_fields (ExecuteDelete b) = (REQ_EXECUTE_DELETE, [b])"
| "Request_fields (DeleteRequestRecord h) = (REQ_DELETE_REQUEST_RECORD, [h])"
| "Request_fields (DeleteApprovals h) = (REQ_DELETE_APPROVALS, [h])"
| "Request_fields (ForgetRetention as b) = (REQ_FORGET_RETENTION, b # as)"

text \<open>The array widths the Rust types carry, and the list bound both sides enforce.\<close>

definition wf_wire_addrs :: "addr list \<Rightarrow> bool" where
  "wf_wire_addrs as \<longleftrightarrow> length as \<le> MAX_RECORDS \<and> list_all (arr ADDR_LEN) as"

fun wf_Request :: "request \<Rightarrow> bool" where
  "wf_Request (GetBlob a) = arr ADDR_LEN a"
| "wf_Request (HasBlob a) = arr ADDR_LEN a"
| "wf_Request (PutBlob b) = True"
| "wf_Request (Prove a n) = (arr ADDR_LEN a \<and> arr 32 n)"
| "wf_Request (SlotHead s) = arr 32 s"
| "wf_Request (SlotHistory s q) = arr 32 s"
| "wf_Request (PublishSlot b) = True"
| "wf_Request (PublishWitness b) = True"
| "wf_Request (Witnesses s) = arr 32 s"
| "wf_Request (PublishHandoff b) = True"
| "wf_Request (Handoffs s) = arr 32 s"
| "wf_Request (PublishCheckpoint b) = True"
| "wf_Request (Checkpoints s q) = arr 32 s"
| "wf_Request (TakeLease as) = wf_wire_addrs as"
| "wf_Request (ReleaseLease as) = wf_wire_addrs as"
| "wf_Request Leases = True"
| "wf_Request SweepWarnings = True"
| "wf_Request (PublishDeleteRequest b) = True"
| "wf_Request (PublishDeleteApproval b) = True"
| "wf_Request (ExecuteDelete b) = True"
| "wf_Request (DeleteRequestRecord h) = arr 32 h"
| "wf_Request (DeleteApprovals h) = arr 32 h"
| "wf_Request (ForgetRetention as b) = wf_wire_addrs as"

fun Response_fields :: "response \<Rightarrow> u8 \<times> bytes list" where
  "Response_fields (Blob b) = (RSP_BLOB, [b])"
| "Response_fields (BoolRsp v) = (RSP_BOOL, [[if v then 1 else 0]])"
| "Response_fields (Stored a) = (RSP_STORED, [a])"
| "Response_fields (ProofRsp h) = (RSP_PROOF, [h])"
| "Response_fields (RecordRsp None) = (RSP_RECORD, [[0]])"
| "Response_fields (RecordRsp (Some r)) = (RSP_RECORD, [[1], r])"
| "Response_fields (Records rs) = (RSP_RECORDS, rs)"
| "Response_fields (Addrs as) = (RSP_ADDRS, as)"
| "Response_fields OkRsp = (RSP_OK, [])"
| "Response_fields (ErrorRsp m) = (RSP_ERROR, [m])"

fun wf_Response :: "response \<Rightarrow> bool" where
  "wf_Response (Stored a) = arr ADDR_LEN a"
| "wf_Response (ProofRsp h) = arr 32 h"
| "wf_Response (Records rs) = (length rs \<le> MAX_RECORDS)"
| "wf_Response (Addrs as) = wf_wire_addrs as"
| "wf_Response (ErrorRsp m) = from_utf8_ok m"
| "wf_Response _ = True"
section \<open>Canonicity\<close>

lemma tag_of_Cons [simp]: "tag_of ([t] # fs) = Inr t"
  by (simp add: tag_of_def)

lemma tag_of_Inr_iff: "tag_of f = Inr t \<longleftrightarrow> (\<exists>fs. f = [t] # fs)"
  by (auto simp: tag_of_def length_Suc_conv split: list.splits if_splits)

lemma exact_Cons_iff [simp]: "exact (x # fs) n = Inr u \<longleftrightarrow> Suc (length fs) = n"
  by (auto simp: exact_def)

lemma wire_fixed_Inr_iff [simp]: "wire_fixed n s b = Inr x \<longleftrightarrow> x = b \<and> arr n b"
  by (simp add: wire_fixed_def fixed_width_Inr_iff)

lemma wire_fixed_ok [simp]: "length b = n \<Longrightarrow> wire_fixed n s b = Inr b"
  by (simp add: wire_fixed_def)

lemma traverse_fixed_iff [simp]:
  "traverse (wire_fixed n s) bs = Inr xs \<longleftrightarrow> xs = bs \<and> list_all (arr n) bs"
  by (auto simp: traverse_Inr_iff list_all2_conv_all_nth list_all_length intro: nth_equalityI)

lemma decode_addrs_Cons_iff [simp]:
  "decode_addrs (t # fs) = Inr as \<longleftrightarrow> as = fs \<and> wf_wire_addrs as"
  by (auto simp: decode_addrs_def wf_wire_addrs_def)

lemma decode_forget_Cons_iff [simp]:
  "decode_forget_addrs (t # fs) = Inr as \<longleftrightarrow> (\<exists>b. fs = b # as) \<and> wf_wire_addrs as"
  by (cases fs) (auto simp: decode_forget_addrs_def wf_wire_addrs_def)

lemma one_field_eq [simp]: "[fs ! 0] = fs \<longleftrightarrow> length fs = Suc 0"
  by (cases fs) auto

lemma two_fields_eq [simp]: "[x, fs ! Suc 0] = fs \<longleftrightarrow> length fs = 2 \<and> x = fs ! 0"
  by (cases fs; cases "tl fs") auto

lemma if_chainE: "(if c then x else y) = z \<Longrightarrow> (c \<Longrightarrow> x = z \<Longrightarrow> P) \<Longrightarrow> (\<not> c \<Longrightarrow> y = z \<Longrightarrow> P) \<Longrightarrow> P"
  by (cases c) auto

lemma Request_match_iff:
  "Request_match t ([t] # fs) = Inr r \<longleftrightarrow> wf_Request r \<and> Request_fields r = (t, fs)"
proof
  assume "Request_match t ([t] # fs) = Inr r"
  then show "wf_Request r \<and> Request_fields r = (t, fs)"
    unfolding Request_match_def
    by (elim if_chainE) (auto simp: rbind_Inr_iff ok_or_Inr_iff split: if_splits)
next
  assume "wf_Request r \<and> Request_fields r = (t, fs)"
  then show "Request_match t ([t] # fs) = Inr r"
    by (cases r) (auto simp: Request_match_def req_tags exact_def rbind_Inr_iff)
qed

lemma byte_conv: "length b = Suc 0 \<Longrightarrow> b ! 0 = v \<longleftrightarrow> b = [v]"
  by (cases b) auto

lemma Response_match_iff:
  "Response_match t ([t] # fs) = Inr r \<longleftrightarrow> wf_Response r \<and> Response_fields r = (t, fs)"
proof
  assume "Response_match t ([t] # fs) = Inr r"
  then show "wf_Response r \<and> Response_fields r = (t, fs)"
    unfolding Response_match_def
    by (elim if_chainE) (auto simp: rbind_Inr_iff byte_conv split: if_splits)
next
  assume "wf_Response r \<and> Response_fields r = (t, fs)"
  then show "Response_match t ([t] # fs) = Inr r"
    by (cases r; (cases "case r of RecordRsp x \<Rightarrow> x | _ \<Rightarrow> None")?)
      (auto simp: Response_match_def rsp_tags exact_def rbind_Inr_iff split: if_splits)
qed

lemma wire_fields_Inr_iff: "wire_fields fs = Inr bs \<longleftrightarrow> encode_fields fs = Inr bs"
  by (simp add: wire_fields_def map_err_Inr_iff)

lemma Request_arm_iff:
  "wf_Request r \<Longrightarrow> Request_arm r = Inr bs \<longleftrightarrow>
    encode_fields ([fst (Request_fields r)] # snd (Request_fields r)) = Inr bs"
  by (cases r) (auto simp: wire_fields_Inr_iff encode_addrs_def encode_forget_def wf_wire_addrs_def)

lemma Response_arm_iff:
  "wf_Response r \<Longrightarrow> Response_arm r = Inr bs \<longleftrightarrow>
    encode_fields ([fst (Response_fields r)] # snd (Response_fields r)) = Inr bs"
  by (cases r rule: Response_fields.cases) (auto simp: wire_fields_Inr_iff encode_addrs_def wf_wire_addrs_def)

lemma check_size_Inr_iff: "check_size out = Inr bs \<longleftrightarrow> bs = out \<and> length bs \<le> MAX_FRAME"
  by (auto simp: check_size_def)

text \<open>
  The shape both message types share: a tagged list of fields, matched by tag, with the size of
  the frame checked on both sides.
\<close>

locale tagged_codec =
  fixes fields :: "'m \<Rightarrow> u8 \<times> bytes list" and wf_m :: "'m \<Rightarrow> bool"
    and arm :: "'m \<Rightarrow> wire_error + bytes" and dispatch :: "u8 \<Rightarrow> bytes list \<Rightarrow> wire_error + 'm"
  assumes dispatch_iff: "dispatch t ([t] # fs) = Inr r \<longleftrightarrow> wf_m r \<and> fields r = (t, fs)"
    and arm_iff: "wf_m r \<Longrightarrow>
      arm r = Inr bs \<longleftrightarrow> encode_fields ([fst (fields r)] # snd (fields r)) = Inr bs"
begin

lemma parse_iff:
  "rbind (tag_of f) (\<lambda>tag. dispatch tag f) = Inr r \<longleftrightarrow>
    wf_m r \<and> f = [fst (fields r)] # snd (fields r)"
  by (auto simp: rbind_Inr_iff tag_of_Inr_iff dispatch_iff)

sublocale codec "\<lambda>r. rbind (arm r) check_size"
  "\<lambda>bs. if length bs > MAX_FRAME then Err (FrameTooLarge (length bs))
    else rbind (map_err Decode (decode_fields bs)) (\<lambda>f. rbind (tag_of f) (\<lambda>tag. dispatch tag f))"
  wf_m
  by unfold_locales
    (auto simp: rbind_Inr_iff [of "map_err Decode _"] rbind_Inr_iff [of "arm _"] map_err_Inr_iff parse_iff
      check_size_Inr_iff arm_iff fields.dec_iff)

end

interpretation req: tagged_codec Request_fields wf_Request Request_arm Request_match
  by unfold_locales (simp_all add: Request_match_iff Request_arm_iff)

interpretation rsp: tagged_codec Response_fields wf_Response Response_arm Response_match
  by unfold_locales (simp_all add: Response_match_iff Response_arm_iff)

lemma request_decode_Inr_iff: "Request_decode bs = Inr q \<longleftrightarrow> wf_Request q \<and> Request_encode q = Inr bs"
  unfolding Request_decode_def Request_encode_def by (rule req.dec_iff)

lemma response_decode_Inr_iff: "Response_decode bs = Inr r \<longleftrightarrow> wf_Response r \<and> Response_encode r = Inr bs"
  unfolding Response_decode_def Response_encode_def by (rule rsp.dec_iff)

text \<open>
  Requests and responses have one encoding each: a decoder accepts a byte string exactly when
  it is the encoding of a message whose fields have their widths and whose lists are within
  bounds (a frame above the limit is never emitted, so it is never accepted).
\<close>

theorem wire_messages_decode_iff:
  "(Request_decode bs = Ok q \<longleftrightarrow> wf_Request q \<and> Request_encode q = Ok bs) \<and>
   (Response_decode bs = Ok r \<longleftrightarrow> wf_Response r \<and> Response_encode r = Ok bs)"
  by (simp only: request_decode_Inr_iff response_decode_Inr_iff)

lemma encoded_messages_bounded:
  "Request_encode q = Ok bs \<Longrightarrow> length bs \<le> MAX_FRAME"
  "Response_encode r = Ok bs \<Longrightarrow> length bs \<le> MAX_FRAME"
  by (auto simp: Request_encode_def Response_encode_def rbind_Inr_iff check_size_Inr_iff)

lemma length_frames: "length (concat (map frame rs)) = sum_list (map (record_cost \<circ> length) rs)"
  by (induction rs) (simp_all add: record_cost_def)

lemma record_cost_member: "r \<in> set rs \<Longrightarrow> length r \<le> sum_list (map (record_cost \<circ> length) rs)"
  using member_le_sum_list [of "record_cost (length r)" "map (record_cost \<circ> length) rs"]
  by (auto simp: record_cost_def)

lemma records_fit:
  assumes "length rs \<le> MAX_RECORDS" and "sum_list (map (record_cost \<circ> length) rs) \<le> RECORD_BUDGET"
  shows "\<exists>bs. Response_encode (Records rs) = Ok bs \<and> Response_decode bs = Ok (Records rs)"
proof -
  let ?fs = "[RSP_RECORDS] # rs"
  have "list_all field_ok ?fs"
    using assms(2) record_cost_member [of _ rs]
    by (fastforce simp: list_all_iff MAX_FIELD_def RECORD_BUDGET_def MAX_FRAME_def)
  then have "encode_fields ?fs = Inr (concat (map frame ?fs))"
    by (rule encode_fields_ok)
  moreover have "length (concat (map frame ?fs)) \<le> MAX_FRAME"
    using assms(2) length_frames [of rs] by (simp add: RECORD_BUDGET_def MAX_FRAME_def)
  ultimately have "Response_encode (Records rs) = Inr (concat (map frame ?fs))"
    using assms(1) by (simp add: Response_encode_def wire_fields_def check_size_def)
  then show ?thesis
    using rsp.roundtrip [of "Records rs"] assms(1)
    by (simp add: Response_encode_def Response_decode_def)
qed

text \<open>
  A list of at most \<open>MAX_RECORDS\<close> records whose \<open>record_cost\<close> is within \<open>RECORD_BUDGET\<close> always
  encodes, and decodes to the same list: the slack covers the envelope, so a peer that stops at the
  budget never drops the connection on a response it cannot send.
\<close>

theorem records_within_budget_are_sent:
  assumes "length rs \<le> MAX_RECORDS" and "sum_list (map (record_cost \<circ> length) rs) \<le> RECORD_BUDGET"
  shows "\<exists>bs. Response_encode (Records rs) = Ok bs \<and> Response_decode bs = Ok (Records rs)"
  using assms by (rule records_fit)

theorem records_within_budget_are_sent_witness:
  "\<exists>bs. Response_encode (Records [[1, 2], [3]]) = Ok bs \<and> Response_decode bs = Ok (Records [[1, 2], [3]])"
  by (rule records_within_budget_are_sent)
    (simp_all add: MAX_RECORDS_def RECORD_BUDGET_def MAX_FRAME_def record_cost_def)

end
