(* ===== verification/Session.thy ===== *)
theory Session
  imports Wire
begin

text \<open>
  \<open>nas-transfer/src/session.rs\<close>: framed messages over an authenticated session. The post-quantum
  handshake and the sealing of a frame belong to the \<open>simple-network\<close> crate and the JSON reader to
  \<open>serde_json\<close>: they are the fields of the record \<open>pqc\<close>. A socket is what has arrived on it, with how
  reading past that ends, and what it still takes before writing to it fails.
\<close>

section \<open>Sockets\<close>

text \<open>The kinds of \<open>io::Error\<close> the code tells apart.\<close>

datatype io_kind = UnexpectedEof | WouldBlock | KTimedOut | OtherKind nat

record wire_in =
  wi_bytes :: bytes
  wi_stop :: io_kind

text \<open>A socket that breaks after \<open>k\<close> more bytes, or never.\<close>

record wire_out =
  wo_bytes :: bytes
  wo_break :: "(nat \<times> io_kind) option"

definition read_exact :: "usize \<Rightarrow> wire_in \<Rightarrow> wire_in \<times> (io_kind + bytes)" where
  "read_exact n r =
    (if n \<le> length (wi_bytes r) then (r\<lparr>wi_bytes := drop n (wi_bytes r)\<rparr>, Ok (take n (wi_bytes r)))
     else (r\<lparr>wi_bytes := []\<rparr>, Err (wi_stop r)))"

definition write_all :: "bytes \<Rightarrow> wire_out \<Rightarrow> wire_out \<times> (io_kind + unit)" where
  "write_all bs w =
    (case wo_break w of
       None \<Rightarrow> (w\<lparr>wo_bytes := wo_bytes w @ bs\<rparr>, Ok ())
     | Some (k, e) \<Rightarrow>
         if length bs \<le> k then (w\<lparr>wo_bytes := wo_bytes w @ bs, wo_break := Some (k - length bs, e)\<rparr>, Ok ())
         else (w\<lparr>wo_bytes := wo_bytes w @ take k bs, wo_break := Some (0, e)\<rparr>, Err e))"

section \<open>Frames\<close>

datatype session_error =
    SIo io_kind
  | SWire wire_error
  | Crypto bytes
  | SFrameTooLarge usize
  | Truncated
  | TimedOut

definition is_timeout :: "io_kind \<Rightarrow> bool" where
  "is_timeout e = (case e of WouldBlock \<Rightarrow> True | KTimedOut \<Rightarrow> True | _ \<Rightarrow> False)"

definition write_frame :: "bytes \<Rightarrow> wire_out \<Rightarrow> wire_out \<times> (session_error + unit)" where
  "write_frame bs w =
    (if MAX_FRAME < length bs then (w, Err (SFrameTooLarge (length bs)))
     else case write_all (u32_le (of_nat (length bs))) w of
            (w1, Inl e) \<Rightarrow> (w1, Err (SIo e))
          | (w1, Inr _) \<Rightarrow>
              (case write_all bs w1 of
                 (w2, Inl e) \<Rightarrow> (w2, Err (SIo e))
               | (w2, Inr _) \<Rightarrow> (w2, Ok ())))"

definition read_frame :: "wire_in \<Rightarrow> wire_in \<times> (session_error + bytes)" where
  "read_frame r =
    (case read_exact 4 r of
       (r1, Inl e) \<Rightarrow> (r1, Err (if e = UnexpectedEof then Truncated else SIo e))
     | (r1, Inr len) \<Rightarrow>
         let n = unat (u32_of_le len)
         in if MAX_FRAME < n then (r1, Err (SFrameTooLarge n))
            else case read_exact n r1 of
                   (r2, Inr body) \<Rightarrow> (r2, Ok body)
                 | (r2, Inl e) \<Rightarrow>
                     (r2, Err (if e = UnexpectedEof then Truncated
                               else if is_timeout e then TimedOut else SIo e)))"

section \<open>The handshake\<close>

datatype json = JNum nat | JArray "json list" | JObject "(bytes \<times> json) list" | JOther

text \<open>
  The external code: reading JSON; making an initiator pinned to a key (with the cloned identity),
  its hello, and finishing on the reply; answering a hello as a responder pinned to a key; and
  sealing and opening under the session's counters.
\<close>

record ('i, 's) pqc =
  pq_json :: "bytes \<Rightarrow> json option"
  pq_initiator :: "bytes \<Rightarrow> bytes + 'i"
  pq_hello :: "'i \<Rightarrow> bytes + bytes"
  pq_finish :: "'i \<Rightarrow> bytes \<Rightarrow> bytes + 's"
  pq_respond :: "bytes \<Rightarrow> bytes \<Rightarrow> bytes + (bytes \<times> 's)"
  pq_seal :: "'s \<Rightarrow> bytes \<Rightarrow> 's \<times> (bytes + bytes)"
  pq_open :: "'s \<Rightarrow> bytes \<Rightarrow> 's \<times> (bytes + bytes)"

record 's channel =
  ch_in :: wire_in
  ch_out :: wire_out
  ch_session :: 's
  ch_peer_vk :: bytes

definition json_get :: "bytes \<Rightarrow> json \<Rightarrow> json option" where
  "json_get k v = (case v of JObject kvs \<Rightarrow> map_of kvs k | _ \<Rightarrow> None)"

definition json_u8 :: "json \<Rightarrow> u8 option" where
  "json_u8 v = (case v of JNum n \<Rightarrow> if n < 256 then Some (of_nat n) else None | _ \<Rightarrow> None)"

definition claimed_client_vk :: "('i, 's) pqc \<Rightarrow> bytes \<Rightarrow> session_error + bytes" where
  "claimed_client_vk X hello =
    (case pq_json X hello of
       None \<Rightarrow> Err (Crypto (byte_str ''client hello is not JSON''))
     | Some v \<Rightarrow>
         (case json_get (byte_str ''client_vk'') v of
            Some (JArray vs) \<Rightarrow>
              traverse (\<lambda>n. case json_u8 n of None \<Rightarrow> Err (Crypto (byte_str ''client_vk is not a byte array''))
                                           | Some b \<Rightarrow> Ok b) vs
          | _ \<Rightarrow> Err (Crypto (byte_str ''client hello carries no client_vk''))))"

text \<open>The handshake of either side, with the sockets as they are after it.\<close>

definition Channel_connect ::
  "('i, 's) pqc \<Rightarrow> wire_in \<Rightarrow> wire_out \<Rightarrow> bytes \<Rightarrow> (wire_in \<times> wire_out) \<times> (session_error + 's channel)" where
  "Channel_connect X r w peer_vk =
    (case pq_initiator X peer_vk of
       Inl e \<Rightarrow> ((r, w), Err (Crypto e))
     | Inr init \<Rightarrow>
       (case pq_hello X init of
          Inl e \<Rightarrow> ((r, w), Err (Crypto e))
        | Inr hello \<Rightarrow>
          (case write_frame hello w of
             (w1, Inl e) \<Rightarrow> ((r, w1), Err e)
           | (w1, Inr _) \<Rightarrow>
             (case read_frame r of
                (r1, Inl e) \<Rightarrow> ((r1, w1), Err e)
              | (r1, Inr reply) \<Rightarrow>
                (case pq_finish X init reply of
                   Inl e \<Rightarrow> ((r1, w1), Err (Crypto e))
                 | Inr s \<Rightarrow> ((r1, w1), Ok \<lparr>ch_in = r1, ch_out = w1, ch_session = s, ch_peer_vk = peer_vk\<rparr>))))))"

definition Channel_respond ::
  "('i, 's) pqc \<Rightarrow> wire_in \<Rightarrow> wire_out \<Rightarrow> bytes \<Rightarrow> bytes \<Rightarrow> (wire_in \<times> wire_out) \<times> (session_error + 's channel)" where
  "Channel_respond X r w peer_vk hello =
    (case pq_respond X peer_vk hello of
       Inl e \<Rightarrow> ((r, w), Err (Crypto e))
     | Inr (reply, s) \<Rightarrow>
       (case write_frame reply w of
          (w1, Inl e) \<Rightarrow> ((r, w1), Err e)
        | (w1, Inr _) \<Rightarrow> ((r, w1), Ok \<lparr>ch_in = r, ch_out = w1, ch_session = s, ch_peer_vk = peer_vk\<rparr>)))"

definition Channel_accept ::
  "('i, 's) pqc \<Rightarrow> wire_in \<Rightarrow> wire_out \<Rightarrow> bytes \<Rightarrow> (wire_in \<times> wire_out) \<times> (session_error + 's channel)" where
  "Channel_accept X r w peer_vk =
    (case read_frame r of
       (r1, Inl e) \<Rightarrow> ((r1, w), Err e)
     | (r1, Inr hello) \<Rightarrow> Channel_respond X r1 w peer_vk hello)"

definition accept_from ::
  "('i, 's) pqc \<Rightarrow> wire_in \<Rightarrow> wire_out \<Rightarrow> (bytes \<Rightarrow> bool) \<Rightarrow> (wire_in \<times> wire_out) \<times> (session_error + 's channel)" where
  "accept_from X r w allowed =
    (case read_frame r of
       (r1, Inl e) \<Rightarrow> ((r1, w), Err e)
     | (r1, Inr hello) \<Rightarrow>
       (case claimed_client_vk X hello of
          Inl e \<Rightarrow> ((r1, w), Err e)
        | Inr claimed \<Rightarrow>
          if \<not> allowed claimed then ((r1, w), Err (Crypto (byte_str ''client key is not on this peer's list'')))
          else Channel_respond X r1 w claimed hello))"

definition peer_identity :: "'s channel \<Rightarrow> bytes" where
  "peer_identity ch = ch_peer_vk ch"

section \<open>Messages\<close>

definition Channel_send :: "('i, 's) pqc \<Rightarrow> 's channel \<Rightarrow> bytes \<Rightarrow> 's channel \<times> (session_error + unit)" where
  "Channel_send X ch plain =
    (case pq_seal X (ch_session ch) plain of
       (s, Inl e) \<Rightarrow> (ch\<lparr>ch_session := s\<rparr>, Err (Crypto e))
     | (s, Inr sealed) \<Rightarrow>
         (case write_frame sealed (ch_out ch) of
            (w, r) \<Rightarrow> (ch\<lparr>ch_session := s, ch_out := w\<rparr>, r)))"

definition Channel_recv :: "('i, 's) pqc \<Rightarrow> 's channel \<Rightarrow> 's channel \<times> (session_error + bytes)" where
  "Channel_recv X ch =
    (case read_frame (ch_in ch) of
       (r, Inl e) \<Rightarrow> (ch\<lparr>ch_in := r\<rparr>, Err e)
     | (r, Inr sealed) \<Rightarrow>
         (case pq_open X (ch_session ch) sealed of
            (s, Inl e) \<Rightarrow> (ch\<lparr>ch_in := r, ch_session := s\<rparr>, Err (Crypto e))
          | (s, Inr plain) \<Rightarrow> (ch\<lparr>ch_in := r, ch_session := s\<rparr>, Ok plain)))"

definition send_request :: "('i, 's) pqc \<Rightarrow> 's channel \<Rightarrow> request \<Rightarrow> 's channel \<times> (session_error + unit)" where
  "send_request X ch q =
    (case Request_encode q of Inl e \<Rightarrow> (ch, Err (SWire e)) | Inr bs \<Rightarrow> Channel_send X ch bs)"

definition recv_request :: "('i, 's) pqc \<Rightarrow> 's channel \<Rightarrow> 's channel \<times> (session_error + request)" where
  "recv_request X ch =
    (case Channel_recv X ch of
       (ch1, Inl e) \<Rightarrow> (ch1, Err e)
     | (ch1, Inr bs) \<Rightarrow> (ch1, map_err SWire (Request_decode bs)))"

definition send_response :: "('i, 's) pqc \<Rightarrow> 's channel \<Rightarrow> response \<Rightarrow> 's channel \<times> (session_error + unit)" where
  "send_response X ch q =
    (case Response_encode q of Inl e \<Rightarrow> (ch, Err (SWire e)) | Inr bs \<Rightarrow> Channel_send X ch bs)"

definition recv_response :: "('i, 's) pqc \<Rightarrow> 's channel \<Rightarrow> 's channel \<times> (session_error + response)" where
  "recv_response X ch =
    (case Channel_recv X ch of
       (ch1, Inl e) \<Rightarrow> (ch1, Err e)
     | (ch1, Inr bs) \<Rightarrow> (ch1, map_err SWire (Response_decode bs)))"

definition Channel_call :: "('i, 's) pqc \<Rightarrow> 's channel \<Rightarrow> request \<Rightarrow> 's channel \<times> (session_error + response)" where
  "Channel_call X ch q =
    (case send_request X ch q of
       (ch1, Inl e) \<Rightarrow> (ch1, Err e)
     | (ch1, Inr _) \<Rightarrow> recv_response X ch1)"

section \<open>Framing\<close>

lemma unat_frame_length: "n \<le> MAX_FRAME \<Longrightarrow> unat (of_nat n :: u32) = n"
  by (simp add: unat_of_nat MAX_FRAME_def)

lemma read_exact_Inr_iff:
  "read_exact n r = (r', Inr b) \<longleftrightarrow> length b = n \<and> wi_bytes r = b @ wi_bytes r' \<and> wi_stop r' = wi_stop r"
proof (cases "n \<le> length (wi_bytes r)")
  case True
  then show ?thesis
    by (cases r; cases r') (auto simp: read_exact_def append_eq_conv_conj)
qed (auto simp: read_exact_def)

text \<open>
  A frame is read exactly when a length prefix within \<open>MAX_FRAME\<close> and that many bytes have arrived:
  the body is what followed the prefix, and the rest of the stream is untouched. No larger body is
  ever asked for.
\<close>

theorem read_frame_iff:
  "read_frame r = (r', Ok b) \<longleftrightarrow> length b \<le> MAX_FRAME \<and> wi_stop r' = wi_stop r \<and>
    wi_bytes r = u32_le (of_nat (length b)) @ b @ wi_bytes r'"
proof
  assume l: "read_frame r = (r', Ok b)"
  obtain r1 len where h: "read_exact 4 r = (r1, Inr len)"
    using l by (cases "read_exact 4 r"; cases "snd (read_exact 4 r)") (auto simp: read_frame_def)
  then have n: "unat (u32_of_le len) \<le> MAX_FRAME" and b: "read_exact (unat (u32_of_le len)) r1 = (r', Inr b)"
    using l by (auto simp: read_frame_def Let_def split: if_splits prod.splits sum.splits)
  have "u32_le (of_nat (length b)) = len" using h b by (auto simp: read_exact_Inr_iff)
  with h b n show "length b \<le> MAX_FRAME \<and> wi_stop r' = wi_stop r \<and>
      wi_bytes r = u32_le (of_nat (length b)) @ b @ wi_bytes r'"
    by (auto simp: read_exact_Inr_iff)
next
  assume r: "length b \<le> MAX_FRAME \<and> wi_stop r' = wi_stop r \<and>
    wi_bytes r = u32_le (of_nat (length b)) @ b @ wi_bytes r'"
  let ?r1 = "r\<lparr>wi_bytes := b @ wi_bytes r'\<rparr>"
  have "read_exact 4 r = (?r1, Inr (u32_le (of_nat (length b))))"
    using r by (simp add: read_exact_Inr_iff)
  moreover have "read_exact (length b) ?r1 = (r', Inr b)"
    using r by (simp add: read_exact_Inr_iff)
  ultimately show "read_frame r = (r', Ok b)"
    using r unat_frame_length [of "length b"] by (simp add: read_frame_def)
qed

lemma write_all_Inr: "write_all bs w = (w', Inr u) \<Longrightarrow> wo_bytes w' = wo_bytes w @ bs"
  by (auto simp: write_all_def split: option.splits if_splits)

lemma write_frame_Inr:
  "write_frame b w = (w', Inr u) \<Longrightarrow> length b \<le> MAX_FRAME \<and>
    wo_bytes w' = wo_bytes w @ u32_le (of_nat (length b)) @ b"
  by (auto simp: write_frame_def dest!: write_all_Inr split: if_splits prod.splits sum.splits)

lemma read_frame_stop: "wi_stop (fst (read_frame r)) = wi_stop r"
  by (auto simp: read_frame_def read_exact_def Let_def split: prod.splits sum.splits if_splits)

lemma read_frame_shorter:
  "read_frame r = (r', Inr b) \<Longrightarrow> length (wi_bytes r') < length (wi_bytes r)"
  using read_frame_iff [of r r' b] by simp

section \<open>Delivery\<close>

text \<open>
  A message that was sent is the message received. Suppose the receiving session opens what the
  sending session sealed (the contract of the external session). Then a request the client's
  \<open>send_request\<close> accepted, arriving on the server's socket, is returned by \<open>recv_request\<close>, whatever
  follows it on the wire.
\<close>

theorem sent_request_is_received:
  assumes "wf_Request q" and "send_request X c q = (c', Ok ())"
    and "\<And>plain sealed t. pq_seal X (ch_session c) plain = (t, Inr sealed) \<Longrightarrow>
      \<exists>u. pq_open X (ch_session s) sealed = (u, Inr plain)"
    and "wi_bytes (ch_in s) = drop (length (wo_bytes (ch_out c))) (wo_bytes (ch_out c')) @ rest"
  shows "\<exists>s'. recv_request X s = (s', Ok q) \<and> wi_bytes (ch_in s') = rest"
proof -
  obtain bs where enc: "Request_encode q = Inr bs" and "Channel_send X c bs = (c', Inr ())"
    using assms(2) by (auto simp: send_request_def split: sum.splits)
  then obtain t sealed w where seal: "pq_seal X (ch_session c) bs = (t, Inr sealed)"
    and w: "write_frame sealed (ch_out c) = (w, Inr ())" and c': "ch_out c' = w"
    by (auto simp: Channel_send_def split: prod.splits sum.splits)
  obtain u where op: "pq_open X (ch_session s) sealed = (u, Inr bs)" using assms(3) [OF seal] by blast
  let ?r = "(ch_in s)\<lparr>wi_bytes := rest\<rparr>"
  have "read_frame (ch_in s) = (?r, Ok sealed)"
    using write_frame_Inr [OF w] assms(4) by (simp add: read_frame_iff c')
  moreover have "Request_decode bs = Inr q" using enc assms(1) by (simp add: request_decode_Inr_iff)
  ultimately show ?thesis using op by (simp add: recv_request_def Channel_recv_def)
qed

section \<open>Who is on the other side\<close>

text \<open>
  \<open>accept_from\<close> opens a channel only for a key its caller admitted: the channel is authenticated
  against exactly the key the client's hello claims, that key was allowed, and the external responder
  pinned to that key accepted the hello. A key that is not allowed gets no answer: nothing is written
  and the responder is never reached.
\<close>

theorem accepted_channel_is_admitted:
  "case accept_from X r w allowed of
     ((r', w'), Inr ch) \<Rightarrow> \<exists>hello reply. read_frame r = (r', Ok hello) \<and>
       claimed_client_vk X hello = Ok (peer_identity ch) \<and> allowed (peer_identity ch) \<and>
       pq_respond X (peer_identity ch) hello = Inr (reply, ch_session ch) \<and>
       wo_bytes (ch_out ch) = wo_bytes w @ u32_le (of_nat (length reply)) @ reply
   | ((r', w'), Inl e) \<Rightarrow> w' = w \<or> (\<exists>hello vk. read_frame r = (r', Ok hello) \<and>
       claimed_client_vk X hello = Ok vk \<and> allowed vk)"
proof -
  obtain r1 f where f: "read_frame r = (r1, f)" by fastforce
  show ?thesis
  proof (cases f)
    case (Inl e)
    then show ?thesis using f by (simp add: accept_from_def)
  next
    case (Inr hello)
    show ?thesis
    proof (cases "claimed_client_vk X hello")
      case (Inl e)
      then show ?thesis using f \<open>f = Inr hello\<close> by (simp add: accept_from_def)
    next
      case (Inr vk)
      then show ?thesis
        using f \<open>f = Inr hello\<close>
        by (auto simp: accept_from_def Channel_respond_def peer_identity_def dest: write_frame_Inr
            split: sum.splits prod.splits if_splits)
    qed
  qed
qed

section \<open>A concrete session\<close>

definition toy_pqc :: "(unit, nat) pqc" where
  "toy_pqc = \<lparr>pq_json = (\<lambda>_. None), pq_initiator = (\<lambda>_. Ok ()), pq_hello = (\<lambda>_. Ok [1]),
     pq_finish = (\<lambda>_ _. Ok 0), pq_respond = (\<lambda>_ _. Ok ([2], 0)),
     pq_seal = (\<lambda>n m. (Suc n, Ok (of_nat n # m))),
     pq_open = (\<lambda>n c. (Suc n, if c \<noteq> [] \<and> hd c = of_nat n then Ok (tl c) else Err []))\<rparr>"

definition toy_socket :: "bytes \<Rightarrow> nat channel" where
  "toy_socket bs = \<lparr>ch_in = \<lparr>wi_bytes = bs, wi_stop = UnexpectedEof\<rparr>, ch_out = \<lparr>wo_bytes = [], wo_break = None\<rparr>,
     ch_session = 0, ch_peer_vk = [7]\<rparr>"

theorem sent_request_is_received_witness:
  "\<exists>c' s'. send_request toy_pqc (toy_socket []) Leases = (c', Ok ()) \<and>
     recv_request toy_pqc (toy_socket (wo_bytes (ch_out c') @ [9])) = (s', Ok Leases) \<and> wi_bytes (ch_in s') = [9]"
proof -
  obtain bs where bs: "Request_encode Leases = Inr bs" "length bs \<le> 9"
    by (simp add: Request_encode_def wire_fields_def encode_fields_ok MAX_FIELD_def check_size_def MAX_FRAME_def
        frame_def)
  then have "\<exists>c'. send_request toy_pqc (toy_socket []) Leases = (c', Ok ())"
    by (simp add: send_request_def Channel_send_def toy_pqc_def toy_socket_def write_frame_def write_all_def
        MAX_FRAME_def)
  then obtain c' where c': "send_request toy_pqc (toy_socket []) Leases = (c', Ok ())" ..
  have "\<exists>s'. recv_request toy_pqc (toy_socket (wo_bytes (ch_out c') @ [9])) = (s', Ok Leases) \<and>
      wi_bytes (ch_in s') = [9]"
    by (rule sent_request_is_received [OF _ c']) (auto simp: toy_pqc_def toy_socket_def)
  with c' show ?thesis by blast
qed

end
