(* ===== verification/Blob_Store.thy ===== *)
theory Blob_Store
  imports Slot_Record BTree
begin

text \<open>
  \<open>nas-store/src/blobs.rs\<close>: content-addressed blobs. The directory is a map from address to the file
  filed under it (\<open>path\<close> is injective), with the modification time the peer reports as the upload
  time; writes go through a temporary file and a rename, so a failed write leaves the map as it
  was. What the operating system answers to one call is the record \<open>io_env\<close>: the outcome of its
  reads and of each of its writes, how much of a file a failed write has written (nothing at all, not
  even truncated, or that many bytes), which files of a directory a scan yields and in which order,
  and the time.
\<close>

type_synonym io_error = nat

record io_env =
  io_read :: "io_error option"
  io_write :: "nat \<Rightarrow> io_error option"
  io_torn :: "nat option"
  io_listing :: "bytes list \<Rightarrow> bytes list"
  io_now :: timestamp

datatype store_error =
    StoreIo io_error
  | Corrupt addr addr
  | Missing addr

datatype addressing = Content | Salted bytes

definition salted_preimage :: "bytes \<Rightarrow> bytes \<Rightarrow> bytes" where
  "salted_preimage salt bs = u64_le (of_nat (length salt)) @ salt @ bs"

fun addr_of :: "backend \<Rightarrow> addressing \<Rightarrow> bytes \<Rightarrow> addr" where
  "addr_of B Content bs = of_ciphertext (blake3 B) bs"
| "addr_of B (Salted salt) bs = blake3 B (salted_preimage salt bs)"

definition Addressing_verifies :: "backend \<Rightarrow> addressing \<Rightarrow> addr \<Rightarrow> bytes \<Rightarrow> bool" where
  "Addressing_verifies B ad a bs = (addr_of B ad bs = a)"

record blob_file =
  bf_bytes :: bytes
  bf_mtime :: timestamp

record blob_store =
  bs_addressing :: addressing
  bs_files :: "(addr, blob_file) btreemap"

definition BlobStore_open_with :: "addressing \<Rightarrow> (addr, blob_file) btreemap \<Rightarrow> blob_store" where
  "BlobStore_open_with ad files = \<lparr>bs_addressing = ad, bs_files = files\<rparr>"

definition BlobStore_has :: "blob_store \<Rightarrow> addr \<Rightarrow> bool" where
  "BlobStore_has st a = (btm_get (bs_files st) a \<noteq> None)"

definition touch_path :: "io_env \<Rightarrow> blob_store \<Rightarrow> addr \<Rightarrow> blob_file \<Rightarrow> blob_store \<times> (store_error + unit)" where
  "touch_path io st a f =
    (case io_write io 0 of
       Some e \<Rightarrow> (st, Err (StoreIo e))
     | None \<Rightarrow> (st\<lparr>bs_files := btm_insert a (f\<lparr>bf_mtime := io_now io\<rparr>) (bs_files st)\<rparr>, Ok ()))"

definition BlobStore_touch :: "io_env \<Rightarrow> blob_store \<Rightarrow> addr \<Rightarrow> blob_store \<times> (store_error + unit)" where
  "BlobStore_touch io st a =
    (case btm_get (bs_files st) a of
       None \<Rightarrow> (st, Err (Missing a))
     | Some f \<Rightarrow> touch_path io st a f)"

definition BlobStore_put :: "backend \<Rightarrow> io_env \<Rightarrow> blob_store \<Rightarrow> bytes \<Rightarrow> blob_store \<times> (store_error + addr)" where
  "BlobStore_put B io st ciphertext =
    (let a = addr_of B (bs_addressing st) ciphertext;
         write = (case io_write io 0 of
                    Some e \<Rightarrow> (st, Err (StoreIo e))
                  | None \<Rightarrow> (st\<lparr>bs_files := btm_insert a
                       \<lparr>bf_bytes = ciphertext, bf_mtime = io_now io\<rparr> (bs_files st)\<rparr>, Ok a))
     in case btm_get (bs_files st) a of
          None \<Rightarrow> write
        | Some f \<Rightarrow>
            if io_read io = None \<and> Addressing_verifies B (bs_addressing st) a (bf_bytes f)
            then (case touch_path io st a f of (st', r) \<Rightarrow> (st', rbind r (\<lambda>_. Ok a)))
            else write)"

definition BlobStore_get :: "backend \<Rightarrow> io_env \<Rightarrow> blob_store \<Rightarrow> addr \<Rightarrow> store_error + bytes" where
  "BlobStore_get B io st a =
    (case btm_get (bs_files st) a of
       None \<Rightarrow> Err (Missing a)
     | Some f \<Rightarrow>
         (case io_read io of
            Some e \<Rightarrow> Err (StoreIo e)
          | None \<Rightarrow>
              if Addressing_verifies B (bs_addressing st) a (bf_bytes f) then Ok (bf_bytes f)
              else Err (Corrupt a (addr_of B (bs_addressing st) (bf_bytes f)))))"

definition possession_proof :: "backend \<Rightarrow> bytes \<Rightarrow> bytes \<Rightarrow> hash32" where
  "possession_proof B ciphertext nonce = blake3 B (nonce @ ciphertext)"

definition BlobStore_prove ::
  "backend \<Rightarrow> io_env \<Rightarrow> blob_store \<Rightarrow> addr \<Rightarrow> bytes \<Rightarrow> blob_store \<times> (store_error + hash32)" where
  "BlobStore_prove B io st a nonce =
    (case BlobStore_get B io st a of
       Inl e \<Rightarrow> (st, Err e)
     | Inr ct \<Rightarrow>
         (case BlobStore_touch io st a of (st', r) \<Rightarrow>
            (st', rbind r (\<lambda>_. Ok (possession_proof B ct nonce)))))"

definition check_proof :: "backend \<Rightarrow> bytes \<Rightarrow> bytes \<Rightarrow> hash32 \<Rightarrow> bool" where
  "check_proof B ciphertext nonce answer = (possession_proof B ciphertext nonce = answer)"

definition BlobStore_addrs :: "io_env \<Rightarrow> blob_store \<Rightarrow> store_error + addr list" where
  "BlobStore_addrs io st =
    (case io_read io of Some e \<Rightarrow> Err (StoreIo e) | None \<Rightarrow> Ok (map fst (bs_files st)))"

definition BlobStore_remove :: "io_env \<Rightarrow> blob_store \<Rightarrow> addr \<Rightarrow> blob_store \<times> (store_error + unit)" where
  "BlobStore_remove io st a =
    (if btm_get (bs_files st) a = None then (st, Ok ())
     else case io_write io 0 of
            Some e \<Rightarrow> (st, Err (StoreIo e))
          | None \<Rightarrow> (st\<lparr>bs_files := btm_remove a (bs_files st)\<rparr>, Ok ()))"

section \<open>Properties\<close>

lemma touch_path_files:
  "touch_path io st a f = (st', r) \<Longrightarrow> bs_addressing st' = bs_addressing st \<and>
    (r = Ok () \<and> btm_get (bs_files st') = (btm_get (bs_files st))(a \<mapsto> f\<lparr>bf_mtime := io_now io\<rparr>) \<or>
     is_err r \<and> st' = st)"
  by (auto simp: touch_path_def split: option.splits)

lemma salted_preimage_inj [simp]: "salted_preimage salt bs = salted_preimage salt cs \<longleftrightarrow> bs = cs"
  by (simp add: salted_preimage_def)

text \<open>The bytes \<open>addr_of\<close> hashes.\<close>

definition addr_preimage :: "addressing \<Rightarrow> bytes \<Rightarrow> bytes" where
  "addr_preimage ad bs = (case ad of Content \<Rightarrow> bs | Salted salt \<Rightarrow> salted_preimage salt bs)"

lemma addr_of_binds:
  "addr_of B ad bs = addr_of B ad cs \<Longrightarrow>
    bs = cs \<or> collision B (addr_preimage ad bs) (addr_preimage ad cs)"
  by (cases ad) (auto simp: collision_def of_ciphertext_def addr_preimage_def)

lemma put_cases:
  assumes "BlobStore_put B io st bs = (st', r)"
  shows "bs_addressing st' = bs_addressing st"
    and "r = Ok a \<Longrightarrow> a = addr_of B (bs_addressing st) bs \<and>
      (\<exists>f. btm_get (bs_files st') = (btm_get (bs_files st))(a \<mapsto> f) \<and> bf_mtime f = io_now io \<and>
        addr_of B (bs_addressing st) (bf_bytes f) = a)"
    and "is_err r \<Longrightarrow> st' = st"
  using assms
  by (auto simp: BlobStore_put_def Let_def touch_path_def Addressing_verifies_def
      split: option.splits if_splits)

text \<open>
  A stored blob is served back: after \<open>put\<close> answers with an address, \<open>get\<close> of that address returns
  bytes that hash to it, the very bytes stored unless they exhibit a collision; every other blob
  is untouched, and the file carries the time of this upload even when it was already there.
\<close>

theorem put_then_get:
  assumes "BlobStore_put B io st bs = (st', Ok a)" and "io_read io' = None"
  shows "(\<exists>cs. BlobStore_get B io' st' a = Ok cs \<and> addr_of B (bs_addressing st) cs = a \<and>
      (cs = bs \<or> collision B (addr_preimage (bs_addressing st) cs) (addr_preimage (bs_addressing st) bs))) \<and>
    (\<forall>b. b \<noteq> a \<longrightarrow> btm_get (bs_files st') b = btm_get (bs_files st) b) \<and>
    map_option bf_mtime (btm_get (bs_files st') a) = Some (io_now io)"
proof -
  obtain f where a: "a = addr_of B (bs_addressing st) bs" and ad: "bs_addressing st' = bs_addressing st"
    and files: "btm_get (bs_files st') = (btm_get (bs_files st))(a \<mapsto> f)"
    and f: "bf_mtime f = io_now io" "addr_of B (bs_addressing st) (bf_bytes f) = a"
    using put_cases [OF assms(1)] by blast
  have "bf_bytes f = bs \<or>
      collision B (addr_preimage (bs_addressing st) (bf_bytes f)) (addr_preimage (bs_addressing st) bs)"
    using f(2) a by (intro addr_of_binds) simp
  then show ?thesis
    using f files ad assms(2) by (auto simp: BlobStore_get_def Addressing_verifies_def)
qed

text \<open>
  Whatever is on disk, \<open>get\<close> never returns bytes that do not hash to the address asked for: a
  substituted or damaged file is reported as corrupt.
\<close>

theorem get_returns_only_matching_bytes:
  "BlobStore_get B io st a = Ok bs \<longleftrightarrow>
    io_read io = None \<and> addr_of B (bs_addressing st) bs = a \<and>
    map_option bf_bytes (btm_get (bs_files st) a) = Some bs"
  by (auto simp: BlobStore_get_def Addressing_verifies_def split: option.splits)

text \<open>
  Proof of possession: an answered challenge convinces a client holding the same bytes and restarts
  the blob's upload time; and an answer that convinces a client was computed from bytes that hash,
  with the nonce, like its own, so a peer without them would have needed a collision.
\<close>

theorem proof_of_possession:
  assumes "BlobStore_prove B io st a nonce = (st', Ok answer)"
  shows "(\<exists>f. btm_get (bs_files st) a = Some f \<and> addr_of B (bs_addressing st) (bf_bytes f) = a \<and>
      btm_get (bs_files st') a = Some (f\<lparr>bf_mtime := io_now io\<rparr>) \<and>
      check_proof B (bf_bytes f) nonce answer \<and>
      (\<forall>ct. check_proof B ct nonce answer \<longrightarrow> ct = bf_bytes f \<or> collision B (nonce @ ct) (nonce @ bf_bytes f)))"
  using assms
  by (auto simp: BlobStore_prove_def BlobStore_touch_def touch_path_def check_proof_def
      possession_proof_def BlobStore_get_def Addressing_verifies_def collision_def
      split: option.splits if_splits sum.splits)

definition toy_io :: io_env where
  "toy_io = \<lparr>io_read = None, io_write = (\<lambda>_. None), io_torn = None, io_listing = (\<lambda>fs. fs), io_now = 5\<rparr>"

definition toy_store :: blob_store where
  "toy_store = BlobStore_open_with Content []"

definition toy_stored :: blob_store where
  "toy_stored = toy_store\<lparr>bs_files := [(toy_hash [4, 2], \<lparr>bf_bytes = [4, 2], bf_mtime = 5\<rparr>)]\<rparr>"

lemma toy_put: "BlobStore_put toy_backend toy_io toy_store [4, 2] = (toy_stored, Ok (toy_hash [4, 2]))"
  by (simp add: BlobStore_put_def toy_io_def toy_store_def toy_stored_def BlobStore_open_with_def
      of_ciphertext_def Let_def)

theorem put_then_get_witness:
  "\<exists>cs. BlobStore_get toy_backend toy_io toy_stored (toy_hash [4, 2]) = Ok cs \<and>
     addr_of toy_backend Content cs = toy_hash [4, 2]"
  using put_then_get [OF toy_put, of toy_io] by (auto simp: toy_io_def toy_store_def BlobStore_open_with_def)

lemma toy_prove: "BlobStore_prove toy_backend toy_io toy_stored (toy_hash [4, 2]) (replicate 32 1)
    = (toy_stored, Ok (toy_hash (replicate 32 1 @ [4, 2])))"
  by (simp add: BlobStore_prove_def BlobStore_get_def BlobStore_touch_def touch_path_def toy_io_def
      toy_store_def toy_stored_def BlobStore_open_with_def Addressing_verifies_def of_ciphertext_def
      possession_proof_def)

theorem proof_of_possession_witness:
  "\<exists>f. btm_get (bs_files toy_stored) (toy_hash [4, 2]) = Some f \<and>
     check_proof toy_backend (bf_bytes f) (replicate 32 1) (toy_hash (replicate 32 1 @ [4, 2]))"
  using proof_of_possession [OF toy_prove] by blast

end
