(* ===== verification/Acl.thy ===== *)
theory Acl
  imports Core_Types BTree Encoding
begin

text \<open>
  \<open>nas-peer/src/acl.rs\<close>: the access control list a peer evaluates, its four answers, and its
  canonical encoding. A subject is a \<open>String\<close>, here its UTF-8 bytes.
\<close>

section \<open>Rights\<close>

datatype right = Read | Write | Append | DeleteRequest | DeleteApprove | Publish | Admin

fun right_u8 :: "right \<Rightarrow> u8" where
  "right_u8 Read = 0"
| "right_u8 Write = 1"
| "right_u8 Append = 2"
| "right_u8 DeleteRequest = 3"
| "right_u8 DeleteApprove = 4"
| "right_u8 Publish = 5"
| "right_u8 Admin = 6"

lemma right_u8_inj [simp]: "right_u8 r = right_u8 q \<longleftrightarrow> r = q"
  by (cases r; cases q) simp_all

text \<open>The derived \<open>Ord\<close> is the order of the discriminants.\<close>

instantiation right :: linorder
begin

definition less_eq_right :: "right \<Rightarrow> right \<Rightarrow> bool" where
  "less_eq_right r q \<longleftrightarrow> right_u8 r \<le> right_u8 q"

definition less_right :: "right \<Rightarrow> right \<Rightarrow> bool" where
  "less_right r q \<longleftrightarrow> right_u8 r < right_u8 q"

instance
  by standard (auto simp: less_eq_right_def less_right_def less_le)

end

definition Right_ALL :: "right list" where
  "Right_ALL = [Read, Write, Append, DeleteRequest, DeleteApprove, Publish, Admin]"

fun Right_as_str :: "right \<Rightarrow> string" where
  "Right_as_str Read = ''read''"
| "Right_as_str Write = ''write''"
| "Right_as_str Append = ''append''"
| "Right_as_str DeleteRequest = ''delete-request''"
| "Right_as_str DeleteApprove = ''delete-approve''"
| "Right_as_str Publish = ''publish''"
| "Right_as_str Admin = ''admin''"

definition Right_parse :: "string \<Rightarrow> right option" where
  "Right_parse s = find (\<lambda>r. Right_as_str r = s) Right_ALL"

definition Right_from_u8 :: "u8 \<Rightarrow> right option" where
  "Right_from_u8 v = find (\<lambda>r. right_u8 r = v) Right_ALL"

definition enforceable_in :: "right \<Rightarrow> mode \<Rightarrow> bool" where
  "enforceable_in r m = (case r of Read \<Rightarrow> peer_can_enforce_read_acl m | _ \<Rightarrow> True)"

datatype decision = Allowed | Denied | UnknownSubject | NotEnforceable mode right

definition permits :: "decision \<Rightarrow> bool" where
  "permits d = (case d of Allowed \<Rightarrow> True | _ \<Rightarrow> False)"

datatype acl_error =
    Decode decode_error
  | UnknownRight u8
  | BadSubject
  | RaggedEntries usize
  | NonCanonical string

definition ACL_MAGIC :: bytes where
  "ACL_MAGIC = byte_str ''NASA''"

section \<open>The list\<close>

record acl =
  ac_entries :: "(bytes, right btreeset) btreemap"

definition Acl_new :: acl where
  "Acl_new = \<lparr>ac_entries = []\<rparr>"

definition Acl_grant :: "acl \<Rightarrow> bytes \<Rightarrow> right list \<Rightarrow> acl" where
  "Acl_grant a subject rights =
    a\<lparr>ac_entries := btm_upsert subject [] (fold bts_insert rights) (ac_entries a)\<rparr>"

definition Acl_revoke :: "acl \<Rightarrow> bytes \<Rightarrow> right \<Rightarrow> acl \<times> bool" where
  "Acl_revoke a subject right =
    (case btm_get (ac_entries a) subject of
       None \<Rightarrow> (a, False)
     | Some s \<Rightarrow> (a\<lparr>ac_entries := btm_insert subject (bts_remove right s) (ac_entries a)\<rparr>,
                  right \<in> set s))"

definition Acl_remove_subject :: "acl \<Rightarrow> bytes \<Rightarrow> acl \<times> bool" where
  "Acl_remove_subject a subject =
    (a\<lparr>ac_entries := btm_remove subject (ac_entries a)\<rparr>, btm_get (ac_entries a) subject \<noteq> None)"

definition Acl_subjects :: "acl \<Rightarrow> bytes list" where
  "Acl_subjects a = map fst (ac_entries a)"

definition rights_of :: "acl \<Rightarrow> bytes \<Rightarrow> right btreeset option" where
  "rights_of a subject = btm_get (ac_entries a) subject"

definition Acl_check :: "acl \<Rightarrow> bytes \<Rightarrow> right \<Rightarrow> mode \<Rightarrow> decision" where
  "Acl_check a subject right mode =
    (if \<not> enforceable_in right mode then NotEnforceable mode right
     else case btm_get (ac_entries a) subject of
            None \<Rightarrow> UnknownSubject
          | Some rights \<Rightarrow> if right \<in> set rights then Allowed else Denied)"

section \<open>Encoding\<close>

definition Acl_fields :: "acl \<Rightarrow> bytes list" where
  "Acl_fields a = ACL_MAGIC # concat (map (\<lambda>(subject, rights). [subject, map right_u8 rights]) (ac_entries a))"

definition Acl_encode :: "acl \<Rightarrow> acl_error + bytes" where
  "Acl_encode a = map_err Decode (encode_fields (Acl_fields a))"

text \<open>The inner loop of \<open>decode\<close> over one entry's rights.\<close>

fun decode_rights :: "u8 option \<Rightarrow> right btreeset \<Rightarrow> bytes \<Rightarrow> acl_error + right btreeset" where
  "decode_rights lst rights [] = Ok rights"
| "decode_rights lst rights (b # bs) =
    (if (case lst of None \<Rightarrow> False | Some l \<Rightarrow> b \<le> l)
     then Err (NonCanonical ''rights are not in ascending order'')
     else case Right_from_u8 b of
            None \<Rightarrow> Err (UnknownRight b)
          | Some r \<Rightarrow> decode_rights (Some b) (bts_insert r rights) bs)"

text \<open>The outer loop, two fields at a time, with the previous subject.\<close>

fun decode_entries ::
  "bytes option \<Rightarrow> (bytes, right btreeset) btreemap \<Rightarrow> bytes list
    \<Rightarrow> acl_error + (bytes, right btreeset) btreemap" where
  "decode_entries prev entries (subject # rs # fs) =
    (if \<not> from_utf8_ok subject then Err BadSubject
     else if subject = [] then Err BadSubject
     else if (case prev of None \<Rightarrow> False | Some p \<Rightarrow> subject \<le> p)
     then Err (NonCanonical ''subjects are not in ascending order'')
     else rbind (decode_rights None [] rs) (\<lambda>rights.
          decode_entries (Some subject) (btm_insert subject rights entries) fs))"
| "decode_entries prev entries fs = Ok entries"

definition Acl_of_fields :: "bytes list \<Rightarrow> acl_error + acl" where
  "Acl_of_fields f =
    (if (case f of [] \<Rightarrow> True | m # _ \<Rightarrow> m \<noteq> ACL_MAGIC) then Err BadSubject
     else let body = length f - 1 in
       if \<not> 2 dvd body then Err (RaggedEntries body)
       else rbind (decode_entries None [] (drop 1 f)) (\<lambda>entries. Ok \<lparr>ac_entries = entries\<rparr>))"

definition Acl_decode :: "bytes \<Rightarrow> acl_error + acl" where
  "Acl_decode bs = rbind (map_err Decode (decode_fields bs)) Acl_of_fields"

definition wf_Acl :: "acl \<Rightarrow> bool" where
  "wf_Acl a \<longleftrightarrow> btm_inv (ac_entries a) \<and>
    list_all (\<lambda>(s, rs). from_utf8_ok s \<and> s \<noteq> [] \<and> bts_inv rs) (ac_entries a)"

section \<open>Canonicity\<close>

lemma Right_from_u8_iff: "Right_from_u8 v = Some r \<longleftrightarrow> v = right_u8 r"
  by (cases r) (auto simp: Right_from_u8_def Right_ALL_def split: if_splits)

lemma Right_parse_iff: "Right_parse s = Some r \<longleftrightarrow> s = Right_as_str r"
  by (cases r) (auto simp: Right_parse_def Right_ALL_def split: if_splits)

lemma bts_insert_last: "\<forall>y \<in> set ys. y < x \<Longrightarrow> bts_insert x ys = ys @ [x]"
  by (induction ys) auto

lemma decode_rights_iff:
  assumes "bts_inv acc" and "\<forall>r \<in> set acc. case lst of None \<Rightarrow> False | Some l \<Rightarrow> right_u8 r \<le> l"
  shows "decode_rights lst acc bs = Inr rs \<longleftrightarrow>
    (\<exists>new. rs = acc @ new \<and> bts_inv new \<and> bs = map right_u8 new \<and>
      (\<forall>r \<in> set new. case lst of None \<Rightarrow> True | Some l \<Rightarrow> l < right_u8 r))"
  using assms
proof (induction lst acc bs rule: decode_rights.induct)
  case (1 lst acc)
  then show ?case by auto
next
  case (2 lst acc b bs)
  show ?case
  proof (cases "Right_from_u8 b")
    case None
    then have "b \<noteq> right_u8 r" for r using Right_from_u8_iff [of b r] by auto
    with None show ?thesis by auto
  next
    case (Some r)
    then have b: "b = right_u8 r" by (simp add: Right_from_u8_iff)
    show ?thesis
    proof (cases "case lst of None \<Rightarrow> False | Some l \<Rightarrow> b \<le> l")
      case True
      then show ?thesis using b by (auto split: option.splits)
    next
      case False
      have lt: "\<forall>q \<in> set acc. q < r"
        using False "2.prems"(2) b by (auto simp: less_right_def split: option.splits)
      then have ins: "bts_insert r acc = acc @ [r]" by (rule bts_insert_last)
      have inv: "bts_inv (acc @ [r])" using "2.prems"(1) lt by (simp add: sorted_wrt_append)
      have up: "\<forall>q \<in> set (acc @ [r]). right_u8 q \<le> b"
        using lt b by (auto simp: less_right_def)
      have "decode_rights lst acc (b # bs) = Inr rs \<longleftrightarrow>
          (\<exists>new. rs = (acc @ [r]) @ new \<and> bts_inv new \<and> bs = map right_u8 new \<and>
            (\<forall>q \<in> set new. b < right_u8 q))"
        using "2.IH" [OF False Some] inv up False Some ins by simp
      also have "\<dots> \<longleftrightarrow> (\<exists>new. rs = acc @ (r # new) \<and> bts_inv (r # new) \<and> b # bs = map right_u8 (r # new))"
        using b by (auto simp: less_right_def)
      also have "\<dots> \<longleftrightarrow> (\<exists>new. rs = acc @ new \<and> bts_inv new \<and> b # bs = map right_u8 new \<and>
          (\<forall>q \<in> set new. case lst of None \<Rightarrow> True | Some l \<Rightarrow> l < right_u8 q))"
        using False b by (fastforce simp: less_right_def Cons_eq_map_conv split: option.splits)
      finally show ?thesis .
    qed
  qed
qed

lemma decode_rights_None: "decode_rights None [] bs = Inr rs \<longleftrightarrow> bts_inv rs \<and> bs = map right_u8 rs"
  by (subst decode_rights_iff) auto

definition entry_fields :: "(bytes, right btreeset) btreemap \<Rightarrow> bytes list" where
  "entry_fields m = concat (map (\<lambda>(subject, rights). [subject, map right_u8 rights]) m)"

definition wf_entries :: "bytes option \<Rightarrow> (bytes, right btreeset) btreemap \<Rightarrow> bool" where
  "wf_entries prev m \<longleftrightarrow> btm_inv m \<and> list_all (\<lambda>(s, rs). from_utf8_ok s \<and> s \<noteq> [] \<and> bts_inv rs) m \<and>
    (\<forall>k \<in> fst ` set m. case prev of None \<Rightarrow> True | Some p \<Rightarrow> p < k)"

lemma entry_fields_simps [simp]:
  "entry_fields [] = []" "entry_fields ((s, rs) # m) = s # map right_u8 rs # entry_fields m"
  by (simp_all add: entry_fields_def)

lemma entry_fields_Nil_iff [simp]: "entry_fields m = [] \<longleftrightarrow> m = []" "[] = entry_fields m \<longleftrightarrow> m = []"
  by (cases m; simp add: entry_fields_def split: prod.splits)+

lemma even_length_entry_fields [simp]: "even (length (entry_fields m))"
  by (induction m) auto

lemma wf_entries_Cons:
  "wf_entries prev ((s, rs) # m) \<longleftrightarrow>
    from_utf8_ok s \<and> s \<noteq> [] \<and> bts_inv rs \<and> (case prev of None \<Rightarrow> True | Some p \<Rightarrow> p < s) \<and> wf_entries (Some s) m"
  by (cases prev) (auto simp: wf_entries_def)

lemma entry_fields_Cons_iff:
  "entry_fields m = s # b # fs \<longleftrightarrow> (\<exists>rs m'. m = (s, rs) # m' \<and> b = map right_u8 rs \<and> fs = entry_fields m')"
  by (cases m) (auto simp: entry_fields_def)

lemma decode_entries_iff:
  assumes "even (length fs)" and "\<forall>k \<in> fst ` set acc. case prev of None \<Rightarrow> False | Some p \<Rightarrow> k \<le> p"
  shows "decode_entries prev acc fs = Inr m \<longleftrightarrow>
    (\<exists>new. m = acc @ new \<and> wf_entries prev new \<and> fs = entry_fields new)"
  using assms
proof (induction prev acc fs rule: decode_entries.induct)
  case (1 prev acc s b fs)
  show ?case
  proof (cases "from_utf8_ok s \<and> s \<noteq> [] \<and> (case prev of None \<Rightarrow> True | Some p \<Rightarrow> p < s)")
    case False
    then have "\<not> (wf_entries prev new \<and> entry_fields new = s # b # fs)" for new
      by (auto simp: entry_fields_Cons_iff wf_entries_Cons)
    moreover have "decode_entries prev acc (s # b # fs) \<noteq> Inr m"
      using False by (auto split: option.splits)
    ultimately show ?thesis by metis
  next
    case True
    then have lt: "\<forall>k \<in> fst ` set acc. k < s" using "1.prems"(2) by (cases prev) fastforce+
    note ins = btm_insert_last [OF lt]
    have guards: "from_utf8_ok s" "s \<noteq> []" "\<not> (case prev of None \<Rightarrow> False | Some p \<Rightarrow> s \<le> p)"
      using True by (auto split: option.splits)
    have step: "decode_entries (Some s) (btm_insert s rs acc) fs = Inr m \<longleftrightarrow>
        (\<exists>new. m = acc @ (s, rs) # new \<and> wf_entries (Some s) new \<and> fs = entry_fields new)" for rs
      using "1.IH" [of rs] guards "1.prems"(1) lt by (auto simp: ins less_imp_le)
    have "decode_entries prev acc (s # b # fs) = Inr m \<longleftrightarrow>
        (\<exists>rs. (bts_inv rs \<and> b = map right_u8 rs) \<and>
          decode_entries (Some s) (btm_insert s rs acc) fs = Inr m)"
      using guards by (simp add: rbind_Inr_iff decode_rights_None)
    also have "\<dots> \<longleftrightarrow> (\<exists>new. m = acc @ new \<and> wf_entries prev new \<and> s # b # fs = entry_fields new)"
      unfolding step eq_commute [of "s # b # fs"] entry_fields_Cons_iff
      using guards True by (auto simp: wf_entries_Cons)
    finally show ?thesis .
  qed
qed (auto simp: wf_entries_def)

lemma Acl_of_fields_iff: "Acl_of_fields f = Inr a \<longleftrightarrow> wf_Acl a \<and> Acl_fields a = f"
proof (cases f)
  case Nil
  then show ?thesis by (simp add: Acl_of_fields_def Acl_fields_def)
next
  case (Cons x fs)
  have "Acl_of_fields (x # fs) = Inr a \<longleftrightarrow>
      x = ACL_MAGIC \<and> even (length fs) \<and> decode_entries None [] fs = Inr (ac_entries a)"
    by (cases a) (auto simp: Acl_of_fields_def Let_def rbind_Inr_iff split: if_splits)
  also have "\<dots> \<longleftrightarrow> wf_Acl a \<and> Acl_fields a = x # fs"
    unfolding Acl_fields_def entry_fields_def [symmetric]
    by (auto simp: decode_entries_iff wf_entries_def wf_Acl_def)
  finally show ?thesis using Cons by simp
qed

interpretation acl: field_codec Acl_fields Acl_of_fields wf_Acl Decode
  by unfold_locales (rule Acl_of_fields_iff)

text \<open>
  An access control list has one encoding: \<open>decode\<close> accepts exactly the encodings of lists with
  non-empty UTF-8 subjects and ascending rights, so neither order nor repetition can carry data.
\<close>

theorem acl_decode_iff: "Acl_decode bs = Ok a \<longleftrightarrow> wf_Acl a \<and> Acl_encode a = Ok bs"
  unfolding Acl_decode_def Acl_encode_def by (rule acl.dec_iff)

section \<open>Grants and revocations\<close>

datatype acl_op = Grant bytes "right list" | Revoke bytes right | RemoveSubject bytes

fun acl_step :: "acl_op \<Rightarrow> acl \<Rightarrow> acl" where
  "acl_step (Grant s rs) a = Acl_grant a s rs"
| "acl_step (Revoke s r) a = fst (Acl_revoke a s r)"
| "acl_step (RemoveSubject s) a = fst (Acl_remove_subject a s)"

text \<open>What the operations promise, as a relation between subjects and rights.\<close>

fun acl_spec_step :: "acl_op \<Rightarrow> (bytes \<times> right) set \<Rightarrow> (bytes \<times> right) set" where
  "acl_spec_step (Grant s rs) g = g \<union> {s} \<times> set rs"
| "acl_spec_step (Revoke s r) g = g - {(s, r)}"
| "acl_spec_step (RemoveSubject s) g = g - {s} \<times> UNIV"

definition acl_abs :: "acl \<Rightarrow> (bytes \<times> right) set" where
  "acl_abs a = {(s, r). \<exists>rs. btm_get (ac_entries a) s = Some rs \<and> r \<in> set rs}"

definition acl_inv :: "acl \<Rightarrow> bool" where
  "acl_inv a \<longleftrightarrow> btm_inv (ac_entries a) \<and> (\<forall>s rs. btm_get (ac_entries a) s = Some rs \<longrightarrow> bts_inv rs)"

lemma acl_step_inv: "acl_inv a \<Longrightarrow> acl_inv (acl_step op a)"
  by (cases op)
    (auto simp: acl_inv_def Acl_grant_def Acl_revoke_def Acl_remove_subject_def btm_get_upsert
      btm_get_remove bts.inv_fold_insert split: option.splits if_splits)

lemma acl_step_refines: "acl_inv a \<Longrightarrow> acl_abs (acl_step op a) = acl_spec_step op (acl_abs a)"
  by (cases op)
    (auto simp: acl_inv_def acl_abs_def Acl_grant_def Acl_revoke_def Acl_remove_subject_def
      btm_get_upsert btm_get_remove bts.set_fold_insert set_bts_remove split: option.splits if_splits)

lemma acl_run: "acl_inv a \<Longrightarrow> acl_inv (fold acl_step ops a) \<and>
    acl_abs (fold acl_step ops a) = fold acl_spec_step ops (acl_abs a)"
  by (induction ops arbitrary: a) (simp_all add: acl_step_inv acl_step_refines)

text \<open>
  After any sequence of grants, revocations and removals a request is permitted exactly when the
  peer can enforce that right in this mode and the sequence leaves it granted: a revocation takes
  effect at once, an unknown subject holds nothing, and a right the peer cannot enforce is never
  reported as permission.
\<close>

theorem acl_permits_iff_granted:
  "permits (Acl_check (fold acl_step ops Acl_new) s r m) \<longleftrightarrow>
    enforceable_in r m \<and> (s, r) \<in> fold acl_spec_step ops {}"
proof -
  have "acl_abs (fold acl_step ops Acl_new) = fold acl_spec_step ops {}"
    using acl_run [of Acl_new ops] by (simp add: acl_inv_def acl_abs_def Acl_new_def)
  moreover have "permits (Acl_check a s r m) \<longleftrightarrow> enforceable_in r m \<and> (s, r) \<in> acl_abs a" for a
    by (auto simp: acl_abs_def Acl_check_def permits_def split: option.splits)
  ultimately show ?thesis by simp
qed

end
