(* ===== verification/Checkpoint.thy ===== *)
theory Checkpoint
  imports Slot_Chain
begin

text \<open>
  \<open>nas-slots/src/checkpoint.rs\<close>: the signed ladder over a slot's history, the walk that climbs it
  and then verifies the tail record by record, and the choice of a walk.
\<close>

section \<open>Rungs\<close>

definition RETAIN_N :: usize where
  "RETAIN_N = 1024"

definition CHECKPOINT_INTERVAL :: u64 where
  "CHECKPOINT_INTERVAL = 256"

definition is_checkpoint_seq :: "u64 \<Rightarrow> bool" where
  "is_checkpoint_seq seq = (seq mod CHECKPOINT_INTERVAL = 0)"

definition CHECKPOINT_HASH_DOMAIN :: bytes where
  "CHECKPOINT_HASH_DOMAIN = byte_str ''nas-tools/slot-checkpoint-hash/v1''"

datatype checkpoint_error =
    Decode decode_error
  | Sign sign_error
  | BadWidth string usize usize
  | FieldCount usize usize
  | BadSignature
  | GenesisMismatch u64
  | NotDescending u64 u64

record checkpoint =
  cp_slot_id :: slot_id
  cp_seq :: u64
  cp_record_hash :: hash32
  cp_prev_seq :: u64
  cp_prev_hash :: hash32
  cp_writer_pk :: bytes
  cp_sig :: bytes

definition checkpoint_body :: "slot_id \<Rightarrow> u64 \<Rightarrow> hash32 \<Rightarrow> u64 \<Rightarrow> hash32 \<Rightarrow> bytes" where
  "checkpoint_body slot seq rh prev_seq prev_hash =
    expect_ok (encode_fields [slot, u64_le seq, rh, u64_le prev_seq, prev_hash])"

definition cp_check_genesis :: "u64 \<Rightarrow> u64 \<Rightarrow> hash32 \<Rightarrow> checkpoint_error + unit" where
  "cp_check_genesis seq prev_seq prev_hash =
    (let genesis = (prev_hash = ZERO32)
     in if genesis \<noteq> (seq = 0) then Err (GenesisMismatch seq)
        else if \<not> genesis \<and> seq \<le> prev_seq then Err (NotDescending seq prev_seq)
        else if genesis \<and> prev_seq \<noteq> 0 then Err (GenesisMismatch seq)
        else Ok ())"

definition Checkpoint_sign ::
  "identity \<Rightarrow> slot_id \<Rightarrow> u64 \<Rightarrow> hash32 \<Rightarrow> u64 \<Rightarrow> hash32 \<Rightarrow> checkpoint_error + checkpoint" where
  "Checkpoint_sign i slot seq rh prev_seq prev_hash =
    rbind (cp_check_genesis seq prev_seq prev_hash) (\<lambda>_.
    rbind (map_err Sign (Identity_sign i CtxSlotCheckpoint
             (checkpoint_body slot seq rh prev_seq prev_hash))) (\<lambda>sig.
    Ok \<lparr>cp_slot_id = slot, cp_seq = seq, cp_record_hash = rh, cp_prev_seq = prev_seq,
        cp_prev_hash = prev_hash, cp_writer_pk = verifying_key i, cp_sig = sig\<rparr>))"

definition Checkpoint_writer_id :: "backend \<Rightarrow> checkpoint \<Rightarrow> writer_id" where
  "Checkpoint_writer_id B c = key_id B (cp_writer_pk c)"

definition cp_body :: "checkpoint \<Rightarrow> bytes" where
  "cp_body c = checkpoint_body (cp_slot_id c) (cp_seq c) (cp_record_hash c) (cp_prev_seq c) (cp_prev_hash c)"

definition checkpoint_hash_preimage :: "checkpoint \<Rightarrow> bytes" where
  "checkpoint_hash_preimage c =
    (let b = cp_body c in CHECKPOINT_HASH_DOMAIN @ u64_le (of_nat (length b)) @ b @ cp_sig c)"

definition checkpoint_hash :: "backend \<Rightarrow> checkpoint \<Rightarrow> hash32" where
  "checkpoint_hash B c = blake3 B (checkpoint_hash_preimage c)"

definition Checkpoint_of_record ::
  "backend \<Rightarrow> identity \<Rightarrow> slot_record \<Rightarrow> checkpoint option \<Rightarrow> checkpoint_error + checkpoint" where
  "Checkpoint_of_record B i r prev =
    (case (case prev of Some p \<Rightarrow> (cp_seq p, checkpoint_hash B p) | None \<Rightarrow> (0, ZERO32)) of
       (prev_seq, prev_hash) \<Rightarrow>
         Checkpoint_sign i (sr_slot_id r) (sr_seq r) (record_hash B r) prev_seq prev_hash)"

definition Checkpoint_verify :: "backend \<Rightarrow> checkpoint \<Rightarrow> bytes \<Rightarrow> checkpoint_error + unit" where
  "Checkpoint_verify B c vk =
    rbind (cp_check_genesis (cp_seq c) (cp_prev_seq c) (cp_prev_hash c)) (\<lambda>_.
    map_err (\<lambda>_. BadSignature) (sig_check B vk CtxSlotCheckpoint (cp_body c) (cp_sig c)))"

definition Checkpoint_verify_self :: "backend \<Rightarrow> checkpoint \<Rightarrow> checkpoint_error + unit" where
  "Checkpoint_verify_self B c = Checkpoint_verify B c (cp_writer_pk c)"

definition Checkpoint_fields :: "checkpoint \<Rightarrow> bytes list" where
  "Checkpoint_fields c =
    [cp_slot_id c, u64_le (cp_seq c), cp_record_hash c, u64_le (cp_prev_seq c), cp_prev_hash c,
     cp_writer_pk c, cp_sig c]"

definition Checkpoint_encode :: "checkpoint \<Rightarrow> checkpoint_error + bytes" where
  "Checkpoint_encode c = map_err Decode (encode_fields (Checkpoint_fields c))"

definition Checkpoint_of_fields :: "backend \<Rightarrow> bytes list \<Rightarrow> checkpoint_error + checkpoint" where
  "Checkpoint_of_fields B f =
    (if length f \<noteq> 7 then Err (FieldCount 7 (length f))
     else if length (f ! 5) \<noteq> VK_SIZE B then Err (BadWidth ''writer_pk'' (VK_SIZE B) (length (f ! 5)))
     else if length (f ! 6) \<noteq> SIG_SIZE B then Err (BadWidth ''sig'' (SIG_SIZE B) (length (f ! 6)))
     else rbind (fixed_width BadWidth 32 ''slot_id'' (f ! 0)) (\<lambda>slot.
          rbind (fixed_width BadWidth 8 ''seq'' (f ! 1)) (\<lambda>seq.
          rbind (fixed_width BadWidth 32 ''record_hash'' (f ! 2)) (\<lambda>rh.
          rbind (fixed_width BadWidth 8 ''prev_seq'' (f ! 3)) (\<lambda>prev_seq.
          rbind (fixed_width BadWidth 32 ''prev_hash'' (f ! 4)) (\<lambda>prev_hash.
          Ok \<lparr>cp_slot_id = slot, cp_seq = u64_of_le seq, cp_record_hash = rh,
              cp_prev_seq = u64_of_le prev_seq, cp_prev_hash = prev_hash, cp_writer_pk = f ! 5,
              cp_sig = f ! 6\<rparr>))))))"

definition Checkpoint_decode :: "backend \<Rightarrow> bytes \<Rightarrow> checkpoint_error + checkpoint" where
  "Checkpoint_decode B bs = rbind (map_err Decode (decode_fields bs)) (Checkpoint_of_fields B)"

section \<open>Climbing the ladder\<close>

datatype skip_error =
    CheckpointErr u64 checkpoint_error
  | WrongSlot u64
  | UnknownWriter u64 writer_id
  | BrokenLadder u64
  | NotAnchored u64
  | TailDetached u64 u64
  | TailMismatch u64
  | ChainErr chain_error
  | Empty

record skip_walk =
  sw_slot_id :: slot_id
  sw_from_seq :: u64
  sw_head_seq :: u64
  sw_head_hash :: hash32
  sw_top_checkpoint :: hash32
  sw_checkpoints :: usize
  sw_records :: usize
  sw_skipped :: u64

text \<open>The \<open>match link\<close> of one iteration.\<close>

definition check_rung ::
  "backend \<Rightarrow> hash32 option \<Rightarrow> (u64 \<times> hash32) option \<Rightarrow> checkpoint \<Rightarrow> skip_error + unit" where
  "check_rung B anchor link c =
    (case link of
       None \<Rightarrow>
         (case anchor of
            Some h \<Rightarrow> if checkpoint_hash B c \<noteq> h then Err (NotAnchored (cp_seq c)) else Ok ()
          | None \<Rightarrow> if cp_seq c \<noteq> 0 then Err (NotAnchored (cp_seq c)) else Ok ())
     | Some (prev_seq, prev_hash) \<Rightarrow>
         if cp_prev_seq c \<noteq> prev_seq \<or> cp_prev_hash c \<noteq> prev_hash
         then Err (BrokenLadder (cp_seq c)) else Ok ())"

fun climb ::
  "backend \<Rightarrow> slot_id \<Rightarrow> roster \<Rightarrow> hash32 option \<Rightarrow> (u64 \<times> hash32) option \<Rightarrow> checkpoint list
    \<Rightarrow> skip_error + unit" where
  "climb B slot ros anchor link [] = Ok ()"
| "climb B slot ros anchor link (c # cs) =
    (if cp_slot_id c \<noteq> slot then Err (WrongSlot (cp_seq c))
     else case Roster_get ros (Checkpoint_writer_id B c) of
            None \<Rightarrow> Err (UnknownWriter (cp_seq c) (Checkpoint_writer_id B c))
          | Some vk \<Rightarrow>
              rbind (map_err (CheckpointErr (cp_seq c)) (Checkpoint_verify B c vk)) (\<lambda>_.
              rbind (check_rung B anchor link c) (\<lambda>_.
              climb B slot ros anchor (Some (cp_seq c, checkpoint_hash B c)) cs)))"

definition tail_joins :: "backend \<Rightarrow> checkpoint list \<Rightarrow> slot_record list \<Rightarrow> skip_error + unit" where
  "tail_joins B cs tail =
    (if cs = [] \<or> tail = [] then Ok ()
     else let c = last cs; first = hd tail
          in if sr_seq first \<noteq> cp_seq c then Err (TailDetached (cp_seq c) (sr_seq first))
             else if record_hash B first \<noteq> cp_record_hash c then Err (TailMismatch (cp_seq c))
             else Ok ())"

definition verify_skip_chain ::
  "backend \<Rightarrow> checkpoint list \<Rightarrow> slot_record list \<Rightarrow> slot_id \<Rightarrow> roster \<Rightarrow> hash32 option
    \<Rightarrow> slot_handoff list \<Rightarrow> skip_error + skip_walk" where
  "verify_skip_chain B cs tail slot ros anchor handoffs =
    (if cs = [] \<and> tail = [] then Err Empty
     else rbind (climb B slot ros anchor None cs) (\<lambda>_.
          rbind (tail_joins B cs tail) (\<lambda>_.
          case tail of
            [] \<Rightarrow>
              let c = last cs
              in Ok \<lparr>sw_slot_id = slot, sw_from_seq = cp_seq (hd cs), sw_head_seq = cp_seq c,
                  sw_head_hash = cp_record_hash c, sw_top_checkpoint = checkpoint_hash B c,
                  sw_checkpoints = length cs, sw_records = 0,
                  sw_skipped = saturating_sub (cp_seq c) (cp_seq (hd cs))\<rparr>
          | first # _ \<Rightarrow>
              rbind (if cs \<noteq> [] then Ok (Some (sr_prev first))
                     else if sr_seq first = 0 then Ok None
                     else Err (NotAnchored (sr_seq first))) (\<lambda>expect_prev.
              rbind (map_err ChainErr
                       (verify_chain_with_handoffs B tail slot ros expect_prev handoffs)) (\<lambda>w.
              let from_seq = (case cs of [] \<Rightarrow> wk_first_seq w | c # _ \<Rightarrow> cp_seq c)
              in Ok \<lparr>sw_slot_id = slot, sw_from_seq = from_seq, sw_head_seq = wk_head_seq w,
                  sw_head_hash = wk_head_hash w,
                  sw_top_checkpoint = (if cs = [] then ZERO32 else checkpoint_hash B (last cs)),
                  sw_checkpoints = length cs, sw_records = length tail,
                  sw_skipped = saturating_sub (sr_seq first) from_seq\<rparr>)))))"

section \<open>Choosing a walk\<close>

datatype walk_plan =
    Full u64 u64
  | Skip u64 u64 u64
  | Unreachable u64 "u64 option"

fun iter_max :: "u64 list \<Rightarrow> u64 option" where
  "iter_max [] = None"
| "iter_max (x # xs) = (case iter_max xs of None \<Rightarrow> Some x | Some y \<Rightarrow> Some (max x y))"

definition plan_walk :: "u64 \<Rightarrow> u64 \<Rightarrow> u64 list \<Rightarrow> u64 \<Rightarrow> walk_plan" where
  "plan_walk from head_seq rung_seqs budget =
    (let span = saturating_sub head_seq from
     in if budget > 0 \<and> span < budget then Full from (span + 1)
        else case iter_max (filter (\<lambda>r. r \<ge> from \<and> r \<le> head_seq \<and> head_seq - r < budget) rung_seqs) of
               Some top_seq \<Rightarrow> Skip top_seq (top_seq - from) (head_seq - top_seq + 1)
             | None \<Rightarrow> Unreachable span (iter_max rung_seqs))"

section \<open>The codec\<close>

definition wf_Checkpoint :: "backend \<Rightarrow> checkpoint \<Rightarrow> bool" where
  "wf_Checkpoint B c \<longleftrightarrow> arr 32 (cp_slot_id c) \<and> arr 32 (cp_record_hash c) \<and> arr 32 (cp_prev_hash c) \<and>
    arr (VK_SIZE B) (cp_writer_pk c) \<and> arr (SIG_SIZE B) (cp_sig c)"

interpretation checkpoint: field_codec Checkpoint_fields "Checkpoint_of_fields B" "wf_Checkpoint B" Decode
  for B
proof unfold_locales
  fix fs and c :: checkpoint
  show "Checkpoint_of_fields B fs = Inr c \<longleftrightarrow> wf_Checkpoint B c \<and> Checkpoint_fields c = fs"
  proof (cases "length fs = 7")
    case True
    then obtain a b d e f g h where fs: "fs = [a, b, d, e, f, g, h]"
      by (auto simp: length_Suc_conv numeral_eq_Suc)
    show ?thesis
      unfolding fs Checkpoint_of_fields_def Checkpoint_fields_def wf_Checkpoint_def
      by (cases c) (auto simp: result_elims)
  next
    case False
    then show ?thesis by (auto simp: Checkpoint_of_fields_def Checkpoint_fields_def)
  qed
qed

lemma Checkpoint_decode_Inr_iff:
  "Checkpoint_decode B bs = Inr c \<longleftrightarrow> wf_Checkpoint B c \<and> Checkpoint_encode c = Inr bs"
  unfolding Checkpoint_decode_def Checkpoint_encode_def by (rule checkpoint.dec_iff)

section \<open>What the climb accepts\<close>

definition rung_accepted :: "backend \<Rightarrow> slot_id \<Rightarrow> roster \<Rightarrow> checkpoint \<Rightarrow> bool" where
  "rung_accepted B slot ros c \<longleftrightarrow> cp_slot_id c = slot \<and>
    (\<exists>vk. Roster_get ros (Checkpoint_writer_id B c) = Some vk \<and> Checkpoint_verify B c vk = Ok ())"

abbreviation rung_prev :: "checkpoint \<Rightarrow> u64 \<times> hash32" where
  "rung_prev c \<equiv> (cp_prev_seq c, cp_prev_hash c)"

abbreviation rung_id :: "backend \<Rightarrow> checkpoint \<Rightarrow> u64 \<times> hash32" where
  "rung_id B c \<equiv> (cp_seq c, checkpoint_hash B c)"

definition valid_ladder :: "backend \<Rightarrow> slot_id \<Rightarrow> roster \<Rightarrow> hash32 option \<Rightarrow> checkpoint list \<Rightarrow> bool" where
  "valid_ladder B slot ros anchor cs \<longleftrightarrow> (\<forall>c \<in> set cs. rung_accepted B slot ros c) \<and>
    (case cs of [] \<Rightarrow> True
     | c # rest \<Rightarrow> (case anchor of None \<Rightarrow> cp_seq c = 0 | Some h \<Rightarrow> checkpoint_hash B c = h) \<and>
         linked rung_prev (rung_id B) (rung_id B c) rest)"

lemma check_rung_Inr_iff:
  "check_rung B anchor None c = Inr u \<longleftrightarrow>
    (case anchor of None \<Rightarrow> cp_seq c = 0 | Some h \<Rightarrow> checkpoint_hash B c = h)"
  "check_rung B anchor (Some l) c = Inr u \<longleftrightarrow> rung_prev c = l"
  by (auto simp: check_rung_def split: option.splits prod.splits)

lemma climb_Some_iff:
  "climb B slot ros anchor (Some l) cs = Inr u \<longleftrightarrow>
    (\<forall>c \<in> set cs. rung_accepted B slot ros c) \<and> linked rung_prev (rung_id B) l cs"
  by (induction cs arbitrary: l)
    (auto simp: rbind_Inr_iff map_err_Inr_iff check_rung_Inr_iff rung_accepted_def split: option.splits)

lemma climb_None_iff: "climb B slot ros anchor None cs = Inr u \<longleftrightarrow> valid_ladder B slot ros anchor cs"
  by (cases cs)
    (auto simp: valid_ladder_def rbind_Inr_iff map_err_Inr_iff check_rung_Inr_iff climb_Some_iff
      rung_accepted_def split: option.splits)

definition valid_skip_chain ::
  "backend \<Rightarrow> checkpoint list \<Rightarrow> slot_record list \<Rightarrow> slot_id \<Rightarrow> roster \<Rightarrow> hash32 option
    \<Rightarrow> slot_handoff list \<Rightarrow> bool" where
  "valid_skip_chain B cs tail slot ros anchor handoffs \<longleftrightarrow>
    valid_ladder B slot ros anchor cs \<and> (cs \<noteq> [] \<or> tail \<noteq> []) \<and>
    (tail \<noteq> [] \<longrightarrow>
      valid_slot_chain B tail slot ros (if cs = [] then None else Some (sr_prev (hd tail))) handoffs \<and>
      (if cs = [] then sr_seq (hd tail) = 0
       else sr_seq (hd tail) = cp_seq (last cs) \<and> record_hash B (hd tail) = cp_record_hash (last cs)))"

definition skip_walk_of ::
  "backend \<Rightarrow> checkpoint list \<Rightarrow> slot_record list \<Rightarrow> slot_id \<Rightarrow> skip_walk" where
  "skip_walk_of B cs tail slot =
    (let from = (if cs = [] then sr_seq (hd tail) else cp_seq (hd cs));
         joint = (if tail = [] then cp_seq (last cs) else sr_seq (hd tail))
     in \<lparr>sw_slot_id = slot, sw_from_seq = from,
         sw_head_seq = (if tail = [] then cp_seq (last cs) else sr_seq (last tail)),
         sw_head_hash = (if tail = [] then cp_record_hash (last cs) else record_hash B (last tail)),
         sw_top_checkpoint = (if cs = [] then ZERO32 else checkpoint_hash B (last cs)),
         sw_checkpoints = length cs, sw_records = length tail,
         sw_skipped = saturating_sub joint from\<rparr>)"

lemma tail_joins_Inr_iff:
  "tail_joins B cs tail = Inr u \<longleftrightarrow>
    (cs \<noteq> [] \<and> tail \<noteq> [] \<longrightarrow>
      sr_seq (hd tail) = cp_seq (last cs) \<and> record_hash B (hd tail) = cp_record_hash (last cs))"
  by (auto simp: tail_joins_def Let_def)

lemma verify_skip_chain_Inr_iff:
  "verify_skip_chain B cs tail slot ros anchor handoffs = Inr w \<longleftrightarrow>
    valid_skip_chain B cs tail slot ros anchor handoffs \<and> w = skip_walk_of B cs tail slot"
proof (cases tail)
  case Nil
  then show ?thesis
    by (auto simp: verify_skip_chain_def valid_skip_chain_def skip_walk_of_def Let_def rbind_Inr_iff
        climb_None_iff tail_joins_Inr_iff)
next
  case (Cons r rs)
  have head: "head_link (record_hash B) l (r # rs) = record_hash B (last (r # rs))" for l
    by (rule head_link_last) simp
  show ?thesis
    unfolding Cons verify_skip_chain_def valid_skip_chain_def skip_walk_of_def
    by (cases cs)
      (auto simp: Let_def rbind_Inr_iff map_err_Inr_iff climb_None_iff tail_joins_Inr_iff
        verify_chain_Inr_iff walk_of_def head simp del: head_link.simps climb.simps split: if_splits)
qed

text \<open>
  A rung without its key: what \<open>checkpoint_hash\<close> covers. The verifying key a rung carries is
  neither signed nor hashed, so a ladder is committed to up to that field.
\<close>

definition rung_core :: "checkpoint \<Rightarrow> checkpoint" where
  "rung_core c = c\<lparr>cp_writer_pk := []\<rparr>"

definition widths_Checkpoint :: "checkpoint \<Rightarrow> bool" where
  "widths_Checkpoint c \<longleftrightarrow> arr 32 (cp_slot_id c) \<and> arr 32 (cp_record_hash c) \<and> arr 32 (cp_prev_hash c)"

definition cp_body_fields :: "checkpoint \<Rightarrow> bytes list" where
  "cp_body_fields c =
    [cp_slot_id c, u64_le (cp_seq c), cp_record_hash c, u64_le (cp_prev_seq c), cp_prev_hash c]"

lemma cp_body_total: "widths_Checkpoint c \<Longrightarrow> encode_fields (cp_body_fields c) = Ok (cp_body c)"
  using encode_fields_ok [of "cp_body_fields c"]
  by (simp add: cp_body_def checkpoint_body_def cp_body_fields_def widths_Checkpoint_def MAX_FIELD_def
      expect_ok_def)

lemma length_cp_body: "widths_Checkpoint c \<Longrightarrow> length (cp_body c) = 132"
  using cp_body_total [of c] by (auto simp: encode_fields_Inr_iff cp_body_fields_def widths_Checkpoint_def)

lemma rung_core_simps [simp]:
  "cp_prev_hash (rung_core c) = cp_prev_hash c" "checkpoint_hash B (rung_core c) = checkpoint_hash B c"
  "checkpoint_hash_preimage (rung_core c) = checkpoint_hash_preimage c"
  "widths_Checkpoint (rung_core c) = widths_Checkpoint c"
  by (simp_all add: rung_core_def checkpoint_hash_def checkpoint_hash_preimage_def cp_body_def
      widths_Checkpoint_def)

lemma rung_core_idem [simp]: "rung_core (rung_core c) = rung_core c"
  by (simp add: rung_core_def)

lemma checkpoint_hash_binds:
  assumes "widths_Checkpoint c" and "widths_Checkpoint d" and "checkpoint_hash B c = checkpoint_hash B d"
  shows "rung_core c = rung_core d \<or> collision B (checkpoint_hash_preimage c) (checkpoint_hash_preimage d)"
proof (cases "checkpoint_hash_preimage c = checkpoint_hash_preimage d")
  case True
  then have "cp_body c = cp_body d" and sig: "cp_sig c = cp_sig d"
    using length_cp_body [OF assms(1)] length_cp_body [OF assms(2)]
    by (auto simp: checkpoint_hash_preimage_def Let_def)
  then have "cp_body_fields c = cp_body_fields d"
    using cp_body_total [OF assms(1)] cp_body_total [OF assms(2)] fields.enc_inj by metis
  with sig show ?thesis by (simp add: rung_core_def cp_body_fields_def)
next
  case False
  with assms(3) show ?thesis by (simp add: checkpoint_hash_def collision_def)
qed

interpretation ladder: hash_chain cp_prev_hash "checkpoint_hash B"
    "\<lambda>c. widths_Checkpoint c \<and> rung_core c = c"
    "\<lambda>c d. collision B (checkpoint_hash_preimage c) (checkpoint_hash_preimage d)"
  for B
  by unfold_locales (metis checkpoint_hash_binds)

lemma linked_hashes:
  "linked rung_prev (rung_id B) l cs \<Longrightarrow> linked cp_prev_hash (checkpoint_hash B) (snd l) (map rung_core cs)"
  by (induction cs arbitrary: l) auto

lemma valid_ladder_linked:
  "valid_ladder B slot ros anchor (c # cs) \<Longrightarrow>
    linked cp_prev_hash (checkpoint_hash B) (cp_prev_hash c) (map rung_core (c # cs))"
  using linked_hashes [of B "rung_id B c" cs] by (simp add: valid_ladder_def)

lemma rung_accepted_seq:
  "rung_accepted B slot ros c \<Longrightarrow> cp_prev_seq c < cp_seq c \<or> cp_prev_hash c = ZERO32"
  by (auto simp: rung_accepted_def Checkpoint_verify_def cp_check_genesis_def Let_def not_le
      split: if_splits)

section \<open>Properties\<close>

text \<open>
  The skip walk accepts exactly a ladder of rostered, verified rungs of this slot that starts at
  the caller's anchor (at sequence 0 without one), each naming the sequence and hash of the rung
  below, followed by a valid record chain whose first record is the one the top rung names; what
  it returns counts the rungs climbed, the records walked and the records skipped.
\<close>

theorem skip_walk_accepts_iff:
  "verify_skip_chain B cs tail slot ros anchor handoffs = Ok w \<longleftrightarrow>
    valid_skip_chain B cs tail slot ros anchor handoffs \<and> w = skip_walk_of B cs tail slot"
  by (rule verify_skip_chain_Inr_iff)

text \<open>
  The hash of the top rung commits to the ladder: two accepted skip walks over ladders of the same
  length with the same top rung climbed the same rungs (their signed content and signatures), unless
  two of those rungs exhibit a collision of the hash function.
\<close>

theorem top_checkpoint_commits_to_ladder:
  assumes "verify_skip_chain B cs tail slot ros anchor handoffs = Ok w"
    and "verify_skip_chain B ds tail' slot' ros' anchor' handoffs' = Ok w'"
    and "sw_top_checkpoint w = sw_top_checkpoint w'" and "length cs = length ds"
    and "list_all widths_Checkpoint (cs @ ds)"
  shows "map rung_core cs = map rung_core ds \<or>
    (\<exists>c \<in> set cs. \<exists>d \<in> set ds. collision B (checkpoint_hash_preimage c) (checkpoint_hash_preimage d))"
proof (cases cs)
  case Nil
  with assms(4) show ?thesis by simp
next
  case (Cons c cs')
  with assms(4) obtain d ds' where ds: "ds = d # ds'" by (cases ds) auto
  have v: "valid_ladder B slot ros anchor (c # cs')" "valid_ladder B slot' ros' anchor' (d # ds')"
    using assms(1,2) by (auto simp: verify_skip_chain_Inr_iff valid_skip_chain_def Cons ds)
  have top: "checkpoint_hash B (last cs) = checkpoint_hash B (last ds)"
    using assms(1-3) by (simp add: verify_skip_chain_Inr_iff skip_walk_of_def Let_def Cons ds)
  have "map rung_core cs = map rung_core ds \<and> cp_prev_hash c = cp_prev_hash d \<or>
      (\<exists>x \<in> set (map rung_core cs). \<exists>y \<in> set (map rung_core ds).
        collision B (checkpoint_hash_preimage x) (checkpoint_hash_preimage y))"
  proof (rule ladder.head_commits)
    show "linked cp_prev_hash (checkpoint_hash B) (cp_prev_hash c) (map rung_core cs)"
      "linked cp_prev_hash (checkpoint_hash B) (cp_prev_hash d) (map rung_core ds)"
      using v valid_ladder_linked by (auto simp: Cons ds)
    show "head_link (checkpoint_hash B) (cp_prev_hash c) (map rung_core cs) =
        head_link (checkpoint_hash B) (cp_prev_hash d) (map rung_core ds)"
      using top by (simp add: head_link_last Cons ds last_map del: list.map)
    show "widths_Checkpoint r \<and> rung_core r = r"
      if "r \<in> set (map rung_core cs) \<union> set (map rung_core ds)" for r
      using that assms(5) by (auto simp: list_all_iff)
  qed (use assms(4) in simp)
  then show ?thesis by auto
qed

text \<open>
  An accepted ladder climbs: each rung is above the one before it, so a walk over it cannot loop
  (unless a rung hashes to the all-zero digest that marks genesis).
\<close>

theorem ladder_climbs:
  assumes "verify_skip_chain B cs tail slot ros anchor handoffs = Ok w" and "Suc i < length cs"
  shows "cp_seq (cs ! i) < cp_seq (cs ! Suc i) \<or> checkpoint_hash B (cs ! i) = ZERO32"
proof -
  have v: "valid_ladder B slot ros anchor cs"
    using assms(1) by (simp add: verify_skip_chain_Inr_iff valid_skip_chain_def)
  have step: "linked rung_prev (rung_id B) l xs \<Longrightarrow> Suc j < length xs \<Longrightarrow>
      rung_prev (xs ! Suc j) = rung_id B (xs ! j)" for l xs j
  proof (induction xs arbitrary: l j)
    case (Cons x xs)
    then show ?case by (cases j; cases xs) auto
  qed simp
  obtain c rest where cs: "cs = c # rest" using assms(2) by (cases cs) auto
  have "linked rung_prev (rung_id B) (rung_prev c) cs" using v by (auto simp: valid_ladder_def cs)
  then have link: "rung_prev (cs ! Suc i) = rung_id B (cs ! i)" using step assms(2) by blast
  have "rung_accepted B slot ros (cs ! Suc i)"
    using v assms(2) nth_mem [of "Suc i" cs] by (simp add: valid_ladder_def)
  from rung_accepted_seq [OF this] link show ?thesis by auto
qed

section \<open>The plan\<close>

lemma iter_max_None_iff [simp]: "iter_max xs = None \<longleftrightarrow> xs = []"
  by (cases xs) (auto split: option.splits)

lemma iter_max_Some: "iter_max xs = Some m \<Longrightarrow> m \<in> set xs \<and> (\<forall>x \<in> set xs. x \<le> m)"
proof (induction xs arbitrary: m)
  case (Cons x xs)
  then show ?case
    by (cases "iter_max xs") (fastforce simp: max_def split: if_splits)+
qed simp

lemma unat_succ_less: "(x :: u64) < y \<Longrightarrow> unat (x + 1) = unat x + 1"
  using unat_less_pow [of y] by (simp add: word_less_nat_alt unat_word_ariths)

lemma unat_diff: "(y :: u64) \<le> x \<Longrightarrow> unat (x - y) = unat x - unat y"
  by (simp add: unat_sub)

text \<open>
  \<open>plan_walk\<close> never plans more link-by-link records than the budget. A full walk is planned
  whenever it is affordable. A skip walk is planned only when it is not, over the highest rung
  between the client and the head that leaves an affordable tail, and the records skipped and
  walked add up to the whole span. Otherwise no rung would do.
\<close>

theorem plan_walk_is_exact:
  "case plan_walk base head_seq rungs budget of
     Full f n \<Rightarrow> f = base \<and> unat n = (unat head_seq - unat base) + 1 \<and> n \<le> budget
   | Skip t s n \<Rightarrow> unat budget \<le> unat head_seq - unat base \<and> t \<in> set rungs \<and> base \<le> t \<and>
       t \<le> head_seq \<and> unat s + unat n = (unat head_seq - unat base) + 1 \<and> n \<le> budget \<and>
       (\<forall>r \<in> set rungs. r \<le> head_seq \<and> unat head_seq - unat r < unat budget \<longrightarrow> r \<le> t)
   | Unreachable span best \<Rightarrow> unat span = unat head_seq - unat base \<and> unat budget \<le> unat span \<and>
       (\<forall>r \<in> set rungs. base \<le> r \<and> r \<le> head_seq \<longrightarrow> unat budget \<le> unat head_seq - unat r) \<and>
       best = iter_max rungs"
proof -
  define span where "span = saturating_sub head_seq base"
  let ?ok = "\<lambda>r. r \<ge> base \<and> r \<le> head_seq \<and> head_seq - r < budget"
  have span: "unat span = unat head_seq - unat base" by (simp add: span_def unat_saturating_sub)
  show ?thesis
  proof (cases "budget > 0 \<and> span < budget")
    case True
    then have "unat (span + 1) = unat span + 1" using unat_succ_less by blast
    with True span show ?thesis
      by (simp add: plan_walk_def span_def [symmetric] word_le_nat_alt word_less_nat_alt)
  next
    case False
    then have big: "unat budget \<le> unat span" by (auto simp: word_less_nat_alt not_less)
    show ?thesis
    proof (cases "iter_max (filter ?ok rungs)")
      case None
      then have "\<not> ?ok r" if "r \<in> set rungs" for r using that by (auto simp: filter_empty_conv)
      then have "unat budget \<le> unat head_seq - unat r" if "r \<in> set rungs" "base \<le> r" "r \<le> head_seq" for r
        using that unat_diff [of r head_seq] by (force simp: word_less_nat_alt not_less)
      with None False span big show ?thesis
        by (auto simp: plan_walk_def span_def [symmetric])
    next
      case (Some t)
      from iter_max_Some [OF Some] have t: "t \<in> set rungs" "?ok t"
        and best: "\<And>r. r \<in> set rungs \<Longrightarrow> ?ok r \<Longrightarrow> r \<le> t" by auto
      have n: "unat (head_seq - t + 1) = unat head_seq - unat t + 1"
        using unat_succ_less [of "head_seq - t" budget] t(2) by (simp add: unat_diff)
      have m: "unat (t - base) = unat t - unat base" using t(2) by (simp add: unat_diff)
      have "r \<le> t" if "r \<in> set rungs" "r \<le> head_seq" "unat head_seq - unat r < unat budget" for r
      proof (cases "base \<le> r")
        case True
        with that show ?thesis by (intro best) (auto simp: word_less_nat_alt unat_diff)
      next
        case False
        with t(2) show ?thesis by (simp add: word_le_nat_alt)
      qed
      moreover have "unat base \<le> unat t" "unat t \<le> unat head_seq" "unat head_seq - unat t < unat budget"
        using t(2) by (auto simp: word_less_nat_alt word_le_nat_alt unat_diff)
      moreover have "plan_walk base head_seq rungs budget = Skip t (t - base) (head_seq - t + 1)"
        using Some False by (auto simp: plan_walk_def span_def [symmetric])
      ultimately show ?thesis
        using span big t n m by (simp add: word_le_nat_alt)
    qed
  qed
qed

lemma toy_plan: "plan_walk 0 1000 [256, 512, 768] 300 = Skip 768 768 233"
  by (simp add: plan_walk_def saturating_sub_def max_def)

theorem plan_walk_is_exact_witness:
  "plan_walk 0 1000 [256, 512, 768] 300 = Skip 768 768 233 \<and> unat (300 :: u64) \<le> 1000 \<and>
   unat (768 :: u64) + unat (233 :: u64) = 1001 \<and> (233 :: u64) \<le> 300"
  using plan_walk_is_exact [where base = 0 and head_seq = 1000 and rungs = "[256, 512, 768]" and budget = 300]
  by (simp add: toy_plan)

section \<open>A concrete ladder\<close>

definition toy_rung0 :: checkpoint where
  "toy_rung0 = \<lparr>cp_slot_id = toy_slot, cp_seq = 0, cp_record_hash = record_hash toy_backend toy_genesis,
     cp_prev_seq = 0, cp_prev_hash = ZERO32, cp_writer_pk = [7], cp_sig = [7]\<rparr>"

definition toy_rung1 :: checkpoint where
  "toy_rung1 = \<lparr>cp_slot_id = toy_slot, cp_seq = 1, cp_record_hash = record_hash toy_backend toy_second,
     cp_prev_seq = 0, cp_prev_hash = checkpoint_hash toy_backend toy_rung0, cp_writer_pk = [9],
     cp_sig = [9]\<rparr>"

lemma toy_rung_hash: "checkpoint_hash toy_backend c \<noteq> ZERO32"
proof -
  have "checkpoint_hash toy_backend c ! 0 = 110"
    by (simp add: checkpoint_hash_def checkpoint_hash_preimage_def CHECKPOINT_HASH_DOMAIN_def
        byte_str_def toy_hash_def Let_def)
  moreover have "ZERO32 ! 0 = 0" by (simp add: ZERO32_def)
  ultimately show ?thesis by auto
qed

lemma toy_rungs_accepted:
  "rung_accepted toy_backend toy_slot toy_roster toy_rung0"
  "rung_accepted toy_backend toy_slot toy_roster toy_rung1"
  using toy_hash_77 toy_rung_hash [of toy_rung0]
  by (simp_all add: rung_accepted_def Checkpoint_verify_def cp_check_genesis_def Checkpoint_writer_id_def
      key_id_def sig_check_def Roster_get_def toy_roster_def Let_def)
    (simp_all add: toy_rung0_def toy_rung1_def)

lemma toy_ladder_accepted:
  "verify_skip_chain toy_backend [toy_rung0, toy_rung1] [] toy_slot toy_roster None []
    = Ok (skip_walk_of toy_backend [toy_rung0, toy_rung1] [] toy_slot)"
proof -
  have "cp_seq toy_rung0 = 0" "rung_prev toy_rung1 = rung_id toy_backend toy_rung0"
    by (simp_all add: toy_rung1_def) (simp_all add: toy_rung0_def)
  then show ?thesis
    using toy_rungs_accepted
    by (simp add: verify_skip_chain_Inr_iff valid_skip_chain_def valid_ladder_def)
qed

theorem top_checkpoint_commits_to_ladder_witness:
  "map rung_core [toy_rung0, toy_rung1] = map rung_core [toy_rung0, toy_rung1] \<or>
   (\<exists>c \<in> set [toy_rung0, toy_rung1]. \<exists>d \<in> set [toy_rung0, toy_rung1].
      collision toy_backend (checkpoint_hash_preimage c) (checkpoint_hash_preimage d))"
  by (rule top_checkpoint_commits_to_ladder [OF toy_ladder_accepted toy_ladder_accepted])
    (simp_all add: widths_Checkpoint_def toy_rung0_def toy_rung1_def toy_slot_def ZERO32_def
      record_hash_def checkpoint_hash_def)

theorem ladder_climbs_witness:
  "cp_seq toy_rung0 < cp_seq toy_rung1 \<or> checkpoint_hash toy_backend toy_rung0 = ZERO32"
  using ladder_climbs [OF toy_ladder_accepted, of 0] by simp

end
