(* ===== verification/Merkle.thy ===== *)
theory Merkle
  imports Slot_Record BTree
begin

text \<open>
  \<open>nas-lease/src/merkle.rs\<close>: the root a lease checkpoint commits to. Odd nodes are promoted, leaves
  and inner nodes carry different tags, and the element count is hashed with the tree. The main
  fact is the one the module's header argues for: two address sets with the same root are equal
  unless two different inputs to BLAKE3 collide.
\<close>

definition TAG_LEAF :: u8 where "TAG_LEAF = 0"
definition TAG_NODE :: u8 where "TAG_NODE = 1"
definition TAG_ROOT :: bytes where "TAG_ROOT = byte_str ''nas-tools/lease-merkle/v1''"

definition leaf :: "backend \<Rightarrow> addr \<Rightarrow> hash32" where
  "leaf B a = blake3 B (TAG_LEAF # a)"

definition node :: "backend \<Rightarrow> hash32 \<Rightarrow> hash32 \<Rightarrow> hash32" where
  "node B l r = blake3 B (TAG_NODE # l @ r)"

text \<open>The inner loop: one level up, the odd node promoted.\<close>

fun next_level :: "backend \<Rightarrow> hash32 list \<Rightarrow> hash32 list" where
  "next_level B (l # r # rest) = node B l r # next_level B rest"
| "next_level B [x] = [x]"
| "next_level B [] = []"

lemma length_next_level: "length (next_level B xs) = (length xs + 1) div 2"
  by (induction B xs rule: next_level.induct) auto

function tree_levels :: "backend \<Rightarrow> hash32 list \<Rightarrow> hash32 list" where
  "tree_levels B level = (if length level > 1 then tree_levels B (next_level B level) else level)"
  by pat_completeness auto
termination
  by (relation "measure (\<lambda>(B, level). length level)") (auto simp: length_next_level)

declare tree_levels.simps [simp del]

text \<open>\<open>sort_unstable\<close> then \<open>dedup\<close>.\<close>

definition sort_dedup :: "'a::linorder list \<Rightarrow> 'a list" where
  "sort_dedup xs = remdups_adj (sort xs)"

definition root_preimage :: "backend \<Rightarrow> addr list \<Rightarrow> bytes" where
  "root_preimage B addrs =
    (let sorted = sort_dedup addrs;
         level = tree_levels B (map (leaf B) sorted);
         tree = (case level of [] \<Rightarrow> replicate 32 0 | x # _ \<Rightarrow> x)
     in TAG_ROOT @ u64_le (of_nat (length sorted)) @ tree)"

definition merkle_root :: "backend \<Rightarrow> addr list \<Rightarrow> hash32" where
  "merkle_root B addrs = blake3 B (root_preimage B addrs)"

section \<open>Sorting and de-duplication\<close>

lemma set_sort_dedup [simp]: "set (sort_dedup xs) = set xs"
  by (simp add: sort_dedup_def)

lemma sort_dedup_ascending [simp]: "sorted_wrt (<) (sort_dedup xs)"
proof -
  have "sorted xs \<Longrightarrow> sorted_wrt (<) (remdups_adj xs)" for xs :: "'a list"
    by (induction xs rule: remdups_adj.induct) (auto simp: less_le)
  then show ?thesis by (simp add: sort_dedup_def)
qed

lemma sort_dedup_eq_iff: "sort_dedup xs = sort_dedup ys \<longleftrightarrow> set xs = set ys"
  by (metis set_sort_dedup sort_dedup_ascending strict_sorted_equal)

lemma sort_dedup_id: "sorted_wrt (<) xs \<Longrightarrow> sort_dedup xs = xs"
  by (metis set_sort_dedup sort_dedup_ascending strict_sorted_equal)

lemma length_sort_dedup: "length (sort_dedup xs) = card (set xs)"
  using distinct_card [of "sort_dedup xs"] sort_dedup_ascending [of xs]
  by (simp add: strict_sorted_iff)

section \<open>The root binds the set\<close>

text \<open>
  The inputs hashed for a level, for the levels above a leaf row, and for a whole root. A finite
  hash always has collisions somewhere; what matters is that a wrong root exhibits one among
  the inputs hashed for the two trees, and that is what the theorems produce.
\<close>

fun level_inputs :: "hash32 list \<Rightarrow> bytes list" where
  "level_inputs (l # r # rest) = (TAG_NODE # l @ r) # level_inputs rest"
| "level_inputs _ = []"

function tree_inputs :: "backend \<Rightarrow> hash32 list \<Rightarrow> bytes list" where
  "tree_inputs B level =
    (if length level > 1 then level_inputs level @ tree_inputs B (next_level B level) else [])"
  by pat_completeness auto
termination
  by (relation "measure (\<lambda>(B, level). length level)") (auto simp: length_next_level)

declare tree_inputs.simps [simp del]

definition merkle_inputs :: "backend \<Rightarrow> addr list \<Rightarrow> bytes list" where
  "merkle_inputs B addrs =
    root_preimage B addrs # map (Cons TAG_LEAF) (sort_dedup addrs) @
    tree_inputs B (map (leaf B) (sort_dedup addrs))"

definition collides :: "backend \<Rightarrow> bytes list \<Rightarrow> bytes list \<Rightarrow> bool" where
  "collides B xs ys \<longleftrightarrow> (\<exists>x \<in> set xs. \<exists>y \<in> set ys. collision B x y)"

definition hash_width :: "backend \<Rightarrow> bool" where
  "hash_width B \<longleftrightarrow> (\<forall>x. length (blake3 B x) = 32)"

lemma collides_mono:
  "collides B xs ys \<Longrightarrow> set xs \<subseteq> set xs' \<Longrightarrow> set ys \<subseteq> set ys' \<Longrightarrow> collides B xs' ys'"
  by (auto simp: collides_def)

lemma blake3_inj:
  "blake3 B x = blake3 B y \<Longrightarrow> x \<in> set xs \<Longrightarrow> y \<in> set ys \<Longrightarrow> x = y \<or> collides B xs ys"
  by (auto simp: collides_def collision_def)

lemma next_level_width:
  "hash_width B \<Longrightarrow> list_all (arr 32) xs \<Longrightarrow> list_all (arr 32) (next_level B xs)"
  by (induction B xs rule: next_level.induct) (auto simp: node_def hash_width_def)

lemma next_level_inj:
  "length xs = length ys \<Longrightarrow> list_all (arr 32) xs \<Longrightarrow> list_all (arr 32) ys \<Longrightarrow>
    next_level B xs = next_level B ys \<Longrightarrow> xs = ys \<or> collides B (level_inputs xs) (level_inputs ys)"
proof (induction B xs arbitrary: ys rule: next_level.induct)
  case (1 B l r rest)
  then obtain l' r' rest' where ys: "ys = l' # r' # rest'"
    by (cases ys; cases "tl ys") auto
  have "TAG_NODE # l @ r = TAG_NODE # l' @ r' \<or> collides B (level_inputs (l # r # rest)) (level_inputs ys)"
    using "1.prems" by (intro blake3_inj) (simp_all add: ys node_def)
  moreover have "rest = rest' \<or> collides B (level_inputs (l # r # rest)) (level_inputs ys)"
    using "1.IH" [of rest'] "1.prems" by (auto simp: ys intro: collides_mono)
  ultimately show ?case using "1.prems" by (auto simp: ys)
next
  case (2 B x)
  then show ?case by (cases ys) auto
qed auto

lemma tree_levels_inj:
  "hash_width B \<Longrightarrow> length xs = length ys \<Longrightarrow> list_all (arr 32) xs \<Longrightarrow> list_all (arr 32) ys \<Longrightarrow>
    tree_levels B xs = tree_levels B ys \<Longrightarrow> xs = ys \<or> collides B (tree_inputs B xs) (tree_inputs B ys)"
proof (induction B xs arbitrary: ys rule: tree_levels.induct)
  case (1 B xs)
  show ?case
  proof (cases "length xs > 1")
    case True
    have "tree_levels B (next_level B xs) = tree_levels B (next_level B ys)"
      using "1.prems" True by (simp add: tree_levels.simps [of B xs] tree_levels.simps [of B ys])
    then have "next_level B xs = next_level B ys \<or>
        collides B (tree_inputs B (next_level B xs)) (tree_inputs B (next_level B ys))"
      using "1.prems" True
      by (intro "1.IH") (simp_all add: next_level_width length_next_level)
    moreover have "tree_inputs B zs = level_inputs zs @ tree_inputs B (next_level B zs)"
      if "length zs > 1" for zs
      using that by (simp add: tree_inputs.simps [of B zs])
    ultimately show ?thesis
      using next_level_inj [of xs ys B] "1.prems" True by (auto intro: collides_mono)
  next
    case False
    then show ?thesis
      using "1.prems" by (simp add: tree_levels.simps [of B xs] tree_levels.simps [of B ys])
  qed
qed

lemma length_tree_levels: "length (tree_levels B xs) = (if xs = [] then 0 else 1)"
proof (induction B xs rule: tree_levels.induct)
  case (1 B xs)
  show ?case
  proof (cases "length xs > 1")
    case True
    moreover have "next_level B xs \<noteq> []" using True length_next_level [of B xs] by auto
    ultimately show ?thesis using "1.IH" by (subst tree_levels.simps) auto
  next
    case False
    then show ?thesis by (subst tree_levels.simps) (cases xs; auto)
  qed
qed

lemma leaves_inj:
  "map (leaf B) xs = map (leaf B) ys \<Longrightarrow>
    xs = ys \<or> collides B (map (Cons TAG_LEAF) xs) (map (Cons TAG_LEAF) ys)"
proof (induction xs arbitrary: ys)
  case Nil
  then show ?case by simp
next
  case (Cons x xs)
  then obtain y ys' where ys: "ys = y # ys'" by (cases ys) auto
  have "TAG_LEAF # x = TAG_LEAF # y \<or> collides B (map (Cons TAG_LEAF) (x # xs)) (map (Cons TAG_LEAF) ys)"
    using Cons.prems by (intro blake3_inj) (simp_all add: ys leaf_def)
  moreover have "xs = ys' \<or> collides B (map (Cons TAG_LEAF) (x # xs)) (map (Cons TAG_LEAF) ys)"
    using Cons.IH [of ys'] Cons.prems by (auto simp: ys intro: collides_mono)
  ultimately show ?case by (auto simp: ys)
qed

lemma of_nat_u64_inj: "m < 2 ^ 64 \<Longrightarrow> n < 2 ^ 64 \<Longrightarrow> (of_nat m :: u64) = of_nat n \<longleftrightarrow> m = n"
proof -
  assume "m < 2 ^ 64" "n < 2 ^ 64"
  then have "unat (of_nat m :: u64) = m" "unat (of_nat n :: u64) = n"
    by (simp_all add: unat_of_nat take_bit_nat_eq_self)
  then show ?thesis by metis
qed

lemma root_preimage_inj:
  assumes "hash_width B" "card (set xs) < 2 ^ 64" "card (set ys) < 2 ^ 64"
    and "root_preimage B xs = root_preimage B ys"
  shows "set xs = set ys \<or> collides B (merkle_inputs B xs) (merkle_inputs B ys)"
proof -
  let ?s = "sort_dedup xs" and ?t = "sort_dedup ys"
  let ?ls = "map (leaf B) ?s" and ?lt = "map (leaf B) ?t"
  have len: "(of_nat (length ?s) :: u64) = of_nat (length ?t)"
    and tree: "(case tree_levels B ?ls of [] \<Rightarrow> replicate 32 0 | x # _ \<Rightarrow> x) =
      (case tree_levels B ?lt of [] \<Rightarrow> replicate 32 0 | x # _ \<Rightarrow> x)"
    using assms(4) by (auto simp: root_preimage_def Let_def)
  have eq: "length ?s = length ?t"
    using len of_nat_u64_inj assms(2,3) by (simp add: length_sort_dedup)
  have "tree_levels B ?ls = tree_levels B ?lt"
    using tree eq length_tree_levels [of B ?ls] length_tree_levels [of B ?lt]
    by (cases "tree_levels B ?ls"; cases "tree_levels B ?lt") (auto split: if_splits)
  then have "?ls = ?lt \<or> collides B (tree_inputs B ?ls) (tree_inputs B ?lt)"
    using eq assms(1) by (intro tree_levels_inj) (auto simp: list_all_iff leaf_def hash_width_def)
  then have "?s = ?t \<or> collides B (merkle_inputs B xs) (merkle_inputs B ys)"
    using leaves_inj [of B ?s ?t] by (auto simp: merkle_inputs_def intro: collides_mono)
  then show ?thesis by (auto simp: sort_dedup_eq_iff)
qed

section \<open>Properties\<close>

text \<open>
  The Merkle root is a function of the set and commits to it: reordering or repeating addresses
  does not change it, and two lists (of fewer than \<open>2^64\<close> distinct addresses) with the same root
  hold the same set, unless two of the inputs hashed for the two trees collide under BLAKE3.
\<close>

theorem merkle_root_commits_to_the_set:
  assumes "hash_width B" "card (set xs) < 2 ^ 64" "card (set ys) < 2 ^ 64"
  shows "(set xs = set ys \<longrightarrow> merkle_root B xs = merkle_root B ys) \<and>
    (merkle_root B xs = merkle_root B ys \<longrightarrow>
      set xs = set ys \<or> collides B (merkle_inputs B xs) (merkle_inputs B ys))"
proof (intro conjI impI)
  assume "set xs = set ys"
  then have "sort_dedup xs = sort_dedup ys" by (simp add: sort_dedup_eq_iff)
  then show "merkle_root B xs = merkle_root B ys" by (simp add: merkle_root_def root_preimage_def)
next
  assume "merkle_root B xs = merkle_root B ys"
  then have "root_preimage B xs = root_preimage B ys \<or> collides B (merkle_inputs B xs) (merkle_inputs B ys)"
    unfolding merkle_root_def by (rule blake3_inj) (simp_all add: merkle_inputs_def)
  then show "set xs = set ys \<or> collides B (merkle_inputs B xs) (merkle_inputs B ys)"
    using root_preimage_inj [OF assms] by blast
qed

lemma toy_hash_width: "hash_width toy_backend"
  by (simp add: hash_width_def)

theorem merkle_root_commits_to_the_set_witness:
  "merkle_root toy_backend [[1], [2], [1]] = merkle_root toy_backend [[2], [1]]"
  using merkle_root_commits_to_the_set [OF toy_hash_width, of "[[1], [2], [1]]" "[[2], [1]]"]
  by (auto simp: card_insert_if)

end
