(* ===== verification/Lease.thy ===== *)
theory Lease
  imports Merkle Hash_Chain
begin

text \<open>
  \<open>nas-lease/src/record.rs\<close> and \<open>set.rs\<close>: signed lease deltas and checkpoints, their wire forms, and
  the replay of a delta chain into the set a holder leases. A \<open>LeaseSet\<close> is the ordered set of
  address bytes. The replay is shown to accept exactly the valid histories and to return the set
  they describe.
\<close>

definition CHAIN_DOMAIN :: bytes where
  "CHAIN_DOMAIN = byte_str ''nas-tools/lease-chain/v1''"

datatype lease_error =
    Decode decode_error
  | Sign sign_error
  | BadWidth string usize usize
  | FieldCount usize usize
  | RaggedAddrs usize
  | GenesisMismatch u64
  | BadSignature
  | NonCanonical string
  | CountMismatch u64 u64

definition pack :: "addr list \<Rightarrow> bytes" where
  "pack addrs = concat addrs"

definition check_canonical :: "string \<Rightarrow> addr list \<Rightarrow> lease_error + unit" where
  "check_canonical field addrs = require (strictly_ascending addrs) (NonCanonical field)"

definition unpack :: "string \<Rightarrow> bytes \<Rightarrow> lease_error + addr list" where
  "unpack field b =
    (if \<not> ADDR_LEN dvd length b then Err (RaggedAddrs (length b))
     else let out = chunks_exact ADDR_LEN b
          in rbind (check_canonical field out) (\<lambda>_. Ok out))"

definition canonicalise :: "addr list \<Rightarrow> addr list" where
  "canonicalise addrs = sort_dedup addrs"

definition lease_check_genesis :: "u64 \<Rightarrow> hash32 \<Rightarrow> lease_error + unit" where
  "lease_check_genesis seq prev = require (genesis_ok seq prev) (GenesisMismatch seq)"

definition chain_hash_preimage :: "bytes \<Rightarrow> bytes" where
  "chain_hash_preimage v = CHAIN_DOMAIN @ u64_le (of_nat (length v)) @ v"

definition chain_hash :: "backend \<Rightarrow> bytes \<Rightarrow> hash32" where
  "chain_hash B v = blake3 B (chain_hash_preimage v)"

definition check_len :: "string \<Rightarrow> bytes \<Rightarrow> usize \<Rightarrow> lease_error + unit" where
  "check_len field b want = require (length b = want) (BadWidth field want (length b))"

section \<open>Deltas\<close>

record lease_delta =
  ld_holder_pk :: bytes
  ld_epoch :: u64
  ld_seq :: u64
  ld_add :: "addr list"
  ld_remove :: "addr list"
  ld_prev :: hash32
  ld_sig :: bytes

definition delta_body_fields :: "u64 \<Rightarrow> u64 \<Rightarrow> addr list \<Rightarrow> addr list \<Rightarrow> hash32 \<Rightarrow> bytes list" where
  "delta_body_fields epoch seq add remove prev =
    [u64_le epoch, u64_le seq, pack add, pack remove, prev]"

definition delta_body :: "u64 \<Rightarrow> u64 \<Rightarrow> addr list \<Rightarrow> addr list \<Rightarrow> hash32 \<Rightarrow> bytes" where
  "delta_body epoch seq add remove prev =
    expect_ok (encode_fields (delta_body_fields epoch seq add remove prev))"

definition LeaseDelta_sign ::
  "identity \<Rightarrow> u64 \<Rightarrow> u64 \<Rightarrow> addr list \<Rightarrow> addr list \<Rightarrow> hash32 \<Rightarrow> lease_error + lease_delta" where
  "LeaseDelta_sign i epoch seq add remove prev =
    rbind (lease_check_genesis seq prev) (\<lambda>_.
    let add' = canonicalise add; remove' = canonicalise remove;
        b = delta_body epoch seq add' remove' prev
    in rbind (map_err Sign (Identity_sign i CtxLease b)) (\<lambda>sig.
       Ok \<lparr>ld_holder_pk = verifying_key i, ld_epoch = epoch, ld_seq = seq, ld_add = add',
           ld_remove = remove', ld_prev = prev, ld_sig = sig\<rparr>))"

abbreviation ld_body :: "lease_delta \<Rightarrow> bytes" where
  "ld_body d \<equiv> delta_body (ld_epoch d) (ld_seq d) (ld_add d) (ld_remove d) (ld_prev d)"

definition LeaseDelta_verify :: "backend \<Rightarrow> lease_delta \<Rightarrow> lease_error + unit" where
  "LeaseDelta_verify B d =
    rbind (lease_check_genesis (ld_seq d) (ld_prev d)) (\<lambda>_.
    rbind (check_canonical ''add'' (ld_add d)) (\<lambda>_.
    rbind (check_canonical ''remove'' (ld_remove d)) (\<lambda>_.
    map_err (\<lambda>_. BadSignature) (sig_check B (ld_holder_pk d) CtxLease (ld_body d) (ld_sig d)))))"

definition LeaseDelta_holder_id :: "backend \<Rightarrow> lease_delta \<Rightarrow> hash32" where
  "LeaseDelta_holder_id B d = key_id B (ld_holder_pk d)"

definition encode_body_and_sig :: "lease_delta \<Rightarrow> bytes" where
  "encode_body_and_sig d = ld_body d @ ld_sig d"

definition LeaseDelta_chain_hash :: "backend \<Rightarrow> lease_delta \<Rightarrow> hash32" where
  "LeaseDelta_chain_hash B d = chain_hash B (encode_body_and_sig d)"

definition LeaseDelta_fields :: "lease_delta \<Rightarrow> bytes list" where
  "LeaseDelta_fields d =
    [ld_holder_pk d, u64_le (ld_epoch d), u64_le (ld_seq d), pack (ld_add d), pack (ld_remove d),
     ld_prev d, ld_sig d]"

definition LeaseDelta_encode :: "lease_delta \<Rightarrow> lease_error + bytes" where
  "LeaseDelta_encode d = map_err Decode (encode_fields (LeaseDelta_fields d))"

definition LeaseDelta_of_fields :: "backend \<Rightarrow> bytes list \<Rightarrow> lease_error + lease_delta" where
  "LeaseDelta_of_fields B f =
    (if length f \<noteq> 7 then Err (FieldCount 7 (length f))
     else rbind (check_len ''holder_pk'' (f ! 0) (VK_SIZE B)) (\<lambda>_.
     rbind (check_len ''sig'' (f ! 6) (SIG_SIZE B)) (\<lambda>_.
     rbind (fixed_width BadWidth 8 ''seq'' (f ! 2)) (\<lambda>sb.
     rbind (fixed_width BadWidth 32 ''prev'' (f ! 5)) (\<lambda>prev.
     rbind (lease_check_genesis (u64_of_le sb) prev) (\<lambda>_.
     rbind (fixed_width BadWidth 8 ''epoch'' (f ! 1)) (\<lambda>eb.
     rbind (unpack ''add'' (f ! 3)) (\<lambda>add.
     rbind (unpack ''remove'' (f ! 4)) (\<lambda>remove.
     Ok \<lparr>ld_holder_pk = f ! 0, ld_epoch = u64_of_le eb, ld_seq = u64_of_le sb, ld_add = add,
         ld_remove = remove, ld_prev = prev, ld_sig = f ! 6\<rparr>)))))))))"

definition LeaseDelta_decode :: "backend \<Rightarrow> bytes \<Rightarrow> lease_error + lease_delta" where
  "LeaseDelta_decode B bs = rbind (map_err Decode (decode_fields bs)) (LeaseDelta_of_fields B)"

section \<open>Checkpoints\<close>

record lease_checkpoint =
  lc_holder_pk :: bytes
  lc_epoch :: u64
  lc_seq :: u64
  lc_root :: hash32
  lc_count :: u64
  lc_prev :: hash32
  lc_sig :: bytes

definition cp_body :: "u64 \<Rightarrow> u64 \<Rightarrow> hash32 \<Rightarrow> u64 \<Rightarrow> hash32 \<Rightarrow> bytes" where
  "cp_body epoch seq root count prev =
    expect_ok (encode_fields [u64_le epoch, u64_le seq, root, u64_le count, prev])"

abbreviation lc_body :: "lease_checkpoint \<Rightarrow> bytes" where
  "lc_body c \<equiv> cp_body (lc_epoch c) (lc_seq c) (lc_root c) (lc_count c) (lc_prev c)"

definition LeaseCheckpoint_sign ::
  "backend \<Rightarrow> identity \<Rightarrow> u64 \<Rightarrow> u64 \<Rightarrow> addr list \<Rightarrow> hash32 \<Rightarrow> lease_error + lease_checkpoint" where
  "LeaseCheckpoint_sign B i epoch seq full_set prev =
    rbind (lease_check_genesis seq prev) (\<lambda>_.
    let s = canonicalise full_set; root = merkle_root B s; count = of_nat (length s);
        b = cp_body epoch seq root count prev
    in rbind (map_err Sign (Identity_sign i CtxLeaseCheckpoint b)) (\<lambda>sig.
       Ok \<lparr>lc_holder_pk = verifying_key i, lc_epoch = epoch, lc_seq = seq, lc_root = root,
           lc_count = count, lc_prev = prev, lc_sig = sig\<rparr>))"

definition LeaseCheckpoint_verify :: "backend \<Rightarrow> lease_checkpoint \<Rightarrow> lease_error + unit" where
  "LeaseCheckpoint_verify B c =
    rbind (lease_check_genesis (lc_seq c) (lc_prev c)) (\<lambda>_.
    map_err (\<lambda>_. BadSignature)
      (sig_check B (lc_holder_pk c) CtxLeaseCheckpoint (lc_body c) (lc_sig c)))"

definition covers :: "backend \<Rightarrow> lease_checkpoint \<Rightarrow> addr list \<Rightarrow> lease_error + unit" where
  "covers B c full_set =
    (let s = canonicalise full_set
     in if of_nat (length s) \<noteq> lc_count c then Err (CountMismatch (lc_count c) (of_nat (length s)))
        else if merkle_root B s \<noteq> lc_root c then Err BadSignature
        else Ok ())"

definition LeaseCheckpoint_holder_id :: "backend \<Rightarrow> lease_checkpoint \<Rightarrow> hash32" where
  "LeaseCheckpoint_holder_id B c = key_id B (lc_holder_pk c)"

definition LeaseCheckpoint_chain_hash :: "backend \<Rightarrow> lease_checkpoint \<Rightarrow> hash32" where
  "LeaseCheckpoint_chain_hash B c = chain_hash B (lc_body c @ lc_sig c)"

definition LeaseCheckpoint_fields :: "lease_checkpoint \<Rightarrow> bytes list" where
  "LeaseCheckpoint_fields c =
    [lc_holder_pk c, u64_le (lc_epoch c), u64_le (lc_seq c), lc_root c, u64_le (lc_count c),
     lc_prev c, lc_sig c]"

definition LeaseCheckpoint_encode :: "lease_checkpoint \<Rightarrow> lease_error + bytes" where
  "LeaseCheckpoint_encode c = map_err Decode (encode_fields (LeaseCheckpoint_fields c))"

definition LeaseCheckpoint_of_fields :: "backend \<Rightarrow> bytes list \<Rightarrow> lease_error + lease_checkpoint" where
  "LeaseCheckpoint_of_fields B f =
    (if length f \<noteq> 7 then Err (FieldCount 7 (length f))
     else rbind (check_len ''holder_pk'' (f ! 0) (VK_SIZE B)) (\<lambda>_.
     rbind (check_len ''sig'' (f ! 6) (SIG_SIZE B)) (\<lambda>_.
     rbind (fixed_width BadWidth 8 ''seq'' (f ! 2)) (\<lambda>sb.
     rbind (fixed_width BadWidth 32 ''prev'' (f ! 5)) (\<lambda>prev.
     rbind (lease_check_genesis (u64_of_le sb) prev) (\<lambda>_.
     rbind (fixed_width BadWidth 8 ''epoch'' (f ! 1)) (\<lambda>eb.
     rbind (fixed_width BadWidth 32 ''root'' (f ! 3)) (\<lambda>root.
     rbind (fixed_width BadWidth 8 ''count'' (f ! 4)) (\<lambda>cb.
     Ok \<lparr>lc_holder_pk = f ! 0, lc_epoch = u64_of_le eb, lc_seq = u64_of_le sb, lc_root = root,
         lc_count = u64_of_le cb, lc_prev = prev, lc_sig = f ! 6\<rparr>)))))))))"

definition LeaseCheckpoint_decode :: "backend \<Rightarrow> bytes \<Rightarrow> lease_error + lease_checkpoint" where
  "LeaseCheckpoint_decode B bs =
    rbind (map_err Decode (decode_fields bs)) (LeaseCheckpoint_of_fields B)"

section \<open>Replay\<close>

datatype apply_error =
    LeaseErr lease_error
  | NotContiguous u64 u64
  | BrokenLink u64
  | MixedHolders u64
  | CheckpointMismatch u64

type_synonym lease_set = "hash32 btreeset"

definition LeaseSet_new :: lease_set where
  "LeaseSet_new = []"

definition LeaseSet_from_addrs :: "addr list \<Rightarrow> lease_set" where
  "LeaseSet_from_addrs addrs = bts_of_list addrs"

definition LeaseSet_contains :: "lease_set \<Rightarrow> addr \<Rightarrow> bool" where
  "LeaseSet_contains s a = (a \<in> set s)"

definition LeaseSet_apply :: "lease_set \<Rightarrow> lease_delta \<Rightarrow> lease_set" where
  "LeaseSet_apply s d = fold bts_remove (ld_remove d) (fold bts_insert (ld_add d) s)"

fun check_checkpoints ::
  "backend \<Rightarrow> hash32 option \<Rightarrow> lease_set \<Rightarrow> lease_checkpoint list \<Rightarrow> apply_error + unit" where
  "check_checkpoints B holder s [] = Ok ()"
| "check_checkpoints B holder s (c # cs) =
    rbind (map_err LeaseErr (LeaseCheckpoint_verify B c)) (\<lambda>_.
    if Some (LeaseCheckpoint_holder_id B c) \<noteq> holder then Err (MixedHolders (lc_seq c))
    else rbind (map_err (\<lambda>_. CheckpointMismatch (lc_seq c)) (covers B c s)) (\<lambda>_.
    check_checkpoints B holder s cs))"

text \<open>The loop of \<open>replay\<close>, with the four variables it carries.\<close>

fun replay_loop ::
  "backend \<Rightarrow> lease_checkpoint list \<Rightarrow> lease_set \<Rightarrow> u64 \<Rightarrow> hash32 \<Rightarrow> hash32 option \<Rightarrow> lease_delta list
    \<Rightarrow> apply_error + lease_set" where
  "replay_loop B cps s expected link holder [] = Ok s"
| "replay_loop B cps s expected link holder (d # ds) =
    rbind (map_err LeaseErr (LeaseDelta_verify B d)) (\<lambda>_.
    let me = LeaseDelta_holder_id B d in
    if holder \<noteq> None \<and> holder \<noteq> Some me then Err (MixedHolders (ld_seq d))
    else if ld_seq d \<noteq> expected then Err (NotContiguous expected (ld_seq d))
    else if ld_prev d \<noteq> link then Err (BrokenLink (ld_seq d))
    else let s' = LeaseSet_apply s d in
      rbind (check_checkpoints B (Some me) s' (filter (\<lambda>c. lc_seq c = ld_seq d) cps)) (\<lambda>_.
      replay_loop B cps s' (saturating_add (ld_seq d) 1) (LeaseDelta_chain_hash B d) (Some me) ds))"

definition replay :: "backend \<Rightarrow> lease_delta list \<Rightarrow> lease_checkpoint list \<Rightarrow> apply_error + lease_set" where
  "replay B deltas cps = replay_loop B cps LeaseSet_new 0 (replicate 32 0) None deltas"

section \<open>The codecs\<close>

definition wf_addrs :: "addr list \<Rightarrow> bool" where
  "wf_addrs as \<longleftrightarrow> list_all (arr ADDR_LEN) as \<and> strictly_ascending as"

definition wf_LeaseDelta :: "backend \<Rightarrow> lease_delta \<Rightarrow> bool" where
  "wf_LeaseDelta B d \<longleftrightarrow> arr (VK_SIZE B) (ld_holder_pk d) \<and> arr (SIG_SIZE B) (ld_sig d) \<and>
    arr 32 (ld_prev d) \<and> genesis_ok (ld_seq d) (ld_prev d) \<and> wf_addrs (ld_add d) \<and> wf_addrs (ld_remove d)"

definition wf_LeaseCheckpoint :: "backend \<Rightarrow> lease_checkpoint \<Rightarrow> bool" where
  "wf_LeaseCheckpoint B c \<longleftrightarrow> arr (VK_SIZE B) (lc_holder_pk c) \<and> arr (SIG_SIZE B) (lc_sig c) \<and>
    arr 32 (lc_prev c) \<and> arr 32 (lc_root c) \<and> genesis_ok (lc_seq c) (lc_prev c)"

interpretation addr_table: packed_table "\<lambda>a. a" "\<lambda>a. a" ADDR_LEN "arr ADDR_LEN"
  by unfold_locales (simp_all add: ADDR_LEN_def)

lemma check_canonical_Inr_iff [result_elims]:
  "check_canonical field as = Inr u \<longleftrightarrow> strictly_ascending as"
  by (simp add: check_canonical_def require_Inr_iff)

lemma lease_check_genesis_Inr_iff [result_elims]:
  "lease_check_genesis seq prev = Inr u \<longleftrightarrow> genesis_ok seq prev"
  by (simp add: lease_check_genesis_def require_Inr_iff)

lemma check_len_Inr_iff [result_elims]: "check_len field b want = Inr u \<longleftrightarrow> length b = want"
  by (simp add: check_len_def require_Inr_iff)

lemma unpack_Inr_iff [result_elims]: "unpack field b = Inr as \<longleftrightarrow> wf_addrs as \<and> pack as = b"
  using addr_table.table_iff [of b as]
  by (auto simp: unpack_def wf_addrs_def pack_def Let_def result_elims split: if_splits)

interpretation lease_delta: field_codec LeaseDelta_fields "LeaseDelta_of_fields B" "wf_LeaseDelta B" Decode
  for B
proof unfold_locales
  fix fs and d :: lease_delta
  show "LeaseDelta_of_fields B fs = Inr d \<longleftrightarrow> wf_LeaseDelta B d \<and> LeaseDelta_fields d = fs"
  proof (cases "length fs = 7")
    case True
    then obtain a b c e f g h where fs: "fs = [a, b, c, e, f, g, h]"
      by (auto simp: length_Suc_conv numeral_eq_Suc)
    show ?thesis
      unfolding fs LeaseDelta_of_fields_def LeaseDelta_fields_def wf_LeaseDelta_def
      by (cases d) (auto simp: result_elims)
  next
    case False
    then show ?thesis by (auto simp: LeaseDelta_of_fields_def LeaseDelta_fields_def)
  qed
qed

interpretation lease_checkpoint: field_codec LeaseCheckpoint_fields "LeaseCheckpoint_of_fields B"
  "wf_LeaseCheckpoint B" Decode
  for B
proof unfold_locales
  fix fs and c :: lease_checkpoint
  show "LeaseCheckpoint_of_fields B fs = Inr c \<longleftrightarrow> wf_LeaseCheckpoint B c \<and> LeaseCheckpoint_fields c = fs"
  proof (cases "length fs = 7")
    case True
    then obtain a b d e f g h where fs: "fs = [a, b, d, e, f, g, h]"
      by (auto simp: length_Suc_conv numeral_eq_Suc)
    show ?thesis
      unfolding fs LeaseCheckpoint_of_fields_def LeaseCheckpoint_fields_def wf_LeaseCheckpoint_def
      by (auto simp: result_elims)
  next
    case False
    then show ?thesis by (auto simp: LeaseCheckpoint_of_fields_def LeaseCheckpoint_fields_def)
  qed
qed

section \<open>What replay accepts\<close>

definition replayed :: "lease_delta list \<Rightarrow> lease_set" where
  "replayed ds = fold (\<lambda>d s. LeaseSet_apply s d) ds LeaseSet_new"

definition checkpoint_ok :: "backend \<Rightarrow> hash32 \<Rightarrow> lease_set \<Rightarrow> lease_checkpoint \<Rightarrow> bool" where
  "checkpoint_ok B holder s c \<longleftrightarrow> LeaseCheckpoint_verify B c = Ok () \<and>
    LeaseCheckpoint_holder_id B c = holder \<and> covers B c s = Ok ()"

definition checkpoints_ok ::
  "backend \<Rightarrow> hash32 \<Rightarrow> lease_checkpoint list \<Rightarrow> lease_set \<Rightarrow> lease_delta list \<Rightarrow> bool" where
  "checkpoints_ok B holder cps s ds \<longleftrightarrow>
    (\<forall>i < length ds. \<forall>c \<in> set cps. lc_seq c = ld_seq (ds ! i) \<longrightarrow>
       checkpoint_ok B holder (fold (\<lambda>d s. LeaseSet_apply s d) (take (Suc i) ds) s) c)"

definition delta_ok :: "backend \<Rightarrow> hash32 \<Rightarrow> lease_delta \<Rightarrow> bool" where
  "delta_ok B holder d \<longleftrightarrow> LeaseDelta_verify B d = Ok () \<and> LeaseDelta_holder_id B d = holder"

definition valid_lease_chain ::
  "backend \<Rightarrow> hash32 \<Rightarrow> lease_delta list \<Rightarrow> lease_checkpoint list \<Rightarrow> bool" where
  "valid_lease_chain B holder ds cps \<longleftrightarrow> list_all (delta_ok B holder) ds \<and> contiguous ld_seq 0 ds \<and>
    linked ld_prev (LeaseDelta_chain_hash B) (replicate 32 0) ds \<and>
    checkpoints_ok B holder cps LeaseSet_new ds"

lemma check_checkpoints_Inr_iff:
  "check_checkpoints B (Some h) s cs = Inr u \<longleftrightarrow> list_all (checkpoint_ok B h s) cs"
  by (induction cs) (auto simp: result_elims checkpoint_ok_def)

lemma checkpoints_ok_Nil [simp]: "checkpoints_ok B h cps s []"
  by (simp add: checkpoints_ok_def)

lemma checkpoints_ok_Cons:
  "checkpoints_ok B h cps s (d # ds) \<longleftrightarrow>
    list_all (checkpoint_ok B h (LeaseSet_apply s d)) (filter (\<lambda>c. lc_seq c = ld_seq d) cps) \<and>
    checkpoints_ok B h cps (LeaseSet_apply s d) ds"
  by (auto simp: checkpoints_ok_def list_all_iff less_Suc_eq_0_disj all_conj_distrib)

lemma replay_loop_Inr_iff:
  "replay_loop B cps s expected link (Some h) ds = Inr s' \<longleftrightarrow>
    list_all (delta_ok B h) ds \<and> contiguous ld_seq expected ds \<and>
    linked ld_prev (LeaseDelta_chain_hash B) link ds \<and> checkpoints_ok B h cps s ds \<and>
    s' = fold (\<lambda>d s. LeaseSet_apply s d) ds s"
proof (induction ds arbitrary: s expected link)
  case Nil
  then show ?case by auto
next
  case (Cons d ds)
  show ?case
    using Cons.IH [of "LeaseSet_apply s d" "saturating_add (ld_seq d) 1" "LeaseDelta_chain_hash B d"]
    by (auto simp: result_elims Let_def delta_ok_def checkpoints_ok_Cons check_checkpoints_Inr_iff)
qed

lemma replay_Inr_iff:
  "replay B ds cps = Inr s \<longleftrightarrow>
    (ds = [] \<or> valid_lease_chain B (LeaseDelta_holder_id B (hd ds)) ds cps) \<and> s = replayed ds"
proof (cases ds)
  case Nil
  then show ?thesis by (auto simp: replay_def replayed_def)
next
  case (Cons d rest)
  have "replay B ds cps = Inr s \<longleftrightarrow>
      replay_loop B cps LeaseSet_new 0 (replicate 32 0) (Some (LeaseDelta_holder_id B d)) ds = Inr s"
    by (simp add: replay_def Cons Let_def)
  then show ?thesis
    by (simp add: replay_loop_Inr_iff valid_lease_chain_def replayed_def Cons del: replay_loop.simps)
qed

section \<open>The replayed set\<close>

lemma fold_bts_remove:
  "bts_inv s \<Longrightarrow> bts_inv (fold bts_remove xs s) \<and> set (fold bts_remove xs s) = set s - set xs"
  by (induction xs arbitrary: s) (auto simp: set_bts_remove)

lemma LeaseSet_apply_set:
  assumes "bts_inv s"
  shows "bts_inv (LeaseSet_apply s d) \<and>
    set (LeaseSet_apply s d) = (set s \<union> set (ld_add d)) - set (ld_remove d)"
proof -
  have "bts_inv (fold bts_insert (ld_add d) s)" "set (fold bts_insert (ld_add d) s) = set (ld_add d) \<union> set s"
    using bts.inv_fold_insert [OF assms] bts.set_fold_insert [OF assms] by simp_all
  then show ?thesis using fold_bts_remove by (auto simp: LeaseSet_apply_def)
qed

text \<open>An address is leased when some delta added it and neither that delta nor a later one dropped it.\<close>

definition leased_by :: "lease_delta list \<Rightarrow> addr \<Rightarrow> bool" where
  "leased_by ds a \<longleftrightarrow> (\<exists>i < length ds. a \<in> set (ld_add (ds ! i)) \<and>
     (\<forall>j. i \<le> j \<and> j < length ds \<longrightarrow> a \<notin> set (ld_remove (ds ! j))))"

lemma leased_by_snoc:
  "leased_by (ds @ [d]) a \<longleftrightarrow> (leased_by ds a \<or> a \<in> set (ld_add d)) \<and> a \<notin> set (ld_remove d)"
proof
  assume "leased_by (ds @ [d]) a"
  then obtain i where i: "i < Suc (length ds)" "a \<in> set (ld_add ((ds @ [d]) ! i))"
    "\<And>j. i \<le> j \<Longrightarrow> j < Suc (length ds) \<Longrightarrow> a \<notin> set (ld_remove ((ds @ [d]) ! j))"
    by (auto simp: leased_by_def)
  have "a \<notin> set (ld_remove d)" using i(1) i(3) [of "length ds"] by simp
  moreover have "leased_by ds a" if "i < length ds"
    unfolding leased_by_def
  proof (intro exI [of _ i] conjI allI impI)
    show "a \<in> set (ld_add (ds ! i))" using i(2) that by (simp add: nth_append)
    fix j
    assume "i \<le> j \<and> j < length ds"
    then show "a \<notin> set (ld_remove (ds ! j))" using i(3) [of j] by (simp add: nth_append)
  qed (rule that)
  ultimately show "(leased_by ds a \<or> a \<in> set (ld_add d)) \<and> a \<notin> set (ld_remove d)"
    using i(1,2) by (cases "i < length ds") (auto simp: nth_append less_Suc_eq)
next
  assume r: "(leased_by ds a \<or> a \<in> set (ld_add d)) \<and> a \<notin> set (ld_remove d)"
  then show "leased_by (ds @ [d]) a"
  proof (elim conjE disjE)
    assume "leased_by ds a" "a \<notin> set (ld_remove d)"
    then obtain i where "i < length ds" "a \<in> set (ld_add (ds ! i))"
      "\<forall>j. i \<le> j \<and> j < length ds \<longrightarrow> a \<notin> set (ld_remove (ds ! j))"
      by (auto simp: leased_by_def)
    with \<open>a \<notin> set (ld_remove d)\<close> show ?thesis
      unfolding leased_by_def by (intro exI [of _ i]) (auto simp: nth_append less_Suc_eq)
  next
    assume "a \<in> set (ld_add d)" "a \<notin> set (ld_remove d)"
    then show ?thesis
      unfolding leased_by_def by (intro exI [of _ "length ds"]) (auto simp: nth_append less_Suc_eq)
  qed
qed

lemma replayed_set: "bts_inv (replayed ds) \<and> (a \<in> set (replayed ds) \<longleftrightarrow> leased_by ds a)"
proof (induction ds rule: rev_induct)
  case Nil
  then show ?case by (simp add: replayed_def LeaseSet_new_def leased_by_def)
next
  case (snoc d ds)
  have "replayed (ds @ [d]) = LeaseSet_apply (replayed ds) d" by (simp add: replayed_def)
  then show ?case using snoc LeaseSet_apply_set [of "replayed ds" d] by (simp add: leased_by_snoc)
qed

section \<open>The delta chain commits to its history\<close>

definition delta_dom :: "backend \<Rightarrow> bytes \<Rightarrow> lease_delta \<Rightarrow> bool" where
  "delta_dom B pk d \<longleftrightarrow> wf_LeaseDelta B d \<and> ld_holder_pk d = pk \<and>
    field_ok (pack (ld_add d)) \<and> field_ok (pack (ld_remove d))"

lemma pack_inj: "wf_addrs as \<Longrightarrow> wf_addrs bs \<Longrightarrow> pack as = pack bs \<Longrightarrow> as = bs"
  using addr_table.table_iff [of "pack as" as] addr_table.table_iff [of "pack as" bs]
  by (auto simp: wf_addrs_def pack_def)

lemma delta_body_ok:
  "delta_dom B pk d \<Longrightarrow>
    encode_fields (delta_body_fields (ld_epoch d) (ld_seq d) (ld_add d) (ld_remove d) (ld_prev d)) = Ok (ld_body d)"
  by (simp add: delta_body_def expect_ok_def encode_fields_ok delta_body_fields_def delta_dom_def
      wf_LeaseDelta_def MAX_FIELD_def)

lemma chain_hash_preimage_inj: "chain_hash_preimage v = chain_hash_preimage w \<Longrightarrow> v = w"
  by (simp add: chain_hash_preimage_def)

lemma delta_hash_binds:
  assumes "delta_dom B pk r" "delta_dom B pk s" "LeaseDelta_chain_hash B r = LeaseDelta_chain_hash B s"
  shows "r = s \<or> collision B (chain_hash_preimage (encode_body_and_sig r)) (chain_hash_preimage (encode_body_and_sig s))"
proof (cases "encode_body_and_sig r = encode_body_and_sig s")
  case True
  have sigs: "length (ld_sig r) = length (ld_sig s)"
    using assms(1,2) by (simp add: delta_dom_def wf_LeaseDelta_def)
  have "ld_body r = ld_body s" "ld_sig r = ld_sig s"
    using True sigs by (simp_all add: encode_body_and_sig_def)
  then have "delta_body_fields (ld_epoch r) (ld_seq r) (ld_add r) (ld_remove r) (ld_prev r) =
      delta_body_fields (ld_epoch s) (ld_seq s) (ld_add s) (ld_remove s) (ld_prev s)"
    using fields.enc_inj delta_body_ok [OF assms(1)] delta_body_ok [OF assms(2)] by metis
  then have "r = s"
    using assms(1,2) \<open>ld_sig r = ld_sig s\<close> pack_inj [of "ld_add r" "ld_add s"]
      pack_inj [of "ld_remove r" "ld_remove s"]
    by (simp add: delta_body_fields_def delta_dom_def wf_LeaseDelta_def)
  then show ?thesis ..
next
  case False
  then show ?thesis
    using assms(3) chain_hash_preimage_inj
    by (auto simp: collision_def LeaseDelta_chain_hash_def chain_hash_def)
qed

interpretation lease_chain: hash_chain ld_prev "LeaseDelta_chain_hash B" "delta_dom B pk"
    "\<lambda>r s. collision B (chain_hash_preimage (encode_body_and_sig r)) (chain_hash_preimage (encode_body_and_sig s))"
  for B pk
  by unfold_locales (rule delta_hash_binds)

lemma LeaseDelta_sign_verifies:
  "sound_keypair B (id_kp i) \<Longrightarrow> LeaseDelta_sign i epoch seq add remove prev = Inr d \<Longrightarrow>
    LeaseDelta_verify B d = Inr ()"
  using sign_then_check
  by (fastforce simp: LeaseDelta_sign_def LeaseDelta_verify_def result_elims Let_def canonicalise_def
      strictly_ascending_iff)

lemma unmatched_checkpoint_ignored:
  "lc_seq c \<notin> ld_seq ` set ds \<Longrightarrow> replay B ds (c # cps) = replay B ds cps"
proof -
  have "lc_seq c \<notin> ld_seq ` set ds \<Longrightarrow>
      replay_loop B (c # cps) s e l h ds = replay_loop B cps s e l h ds" for s e l h
    by (induction ds arbitrary: s e l h) (auto simp: Let_def)
  then show "lc_seq c \<notin> ld_seq ` set ds \<Longrightarrow> ?thesis" by (simp add: replay_def)
qed

section \<open>Properties\<close>

text \<open>
  Lease records have one wire form: the decoders accept exactly the encodings of deltas and
  checkpoints with their widths, the genesis rule, and, for a delta, strictly ascending address
  lists, so a list order or a repetition cannot carry information.
\<close>

theorem lease_records_decode_iff:
  "(LeaseDelta_decode B bs = Ok d \<longleftrightarrow> wf_LeaseDelta B d \<and> LeaseDelta_encode d = Ok bs) \<and>
   (LeaseCheckpoint_decode B bs = Ok c \<longleftrightarrow> wf_LeaseCheckpoint B c \<and> LeaseCheckpoint_encode c = Ok bs)"
  unfolding LeaseDelta_decode_def LeaseDelta_encode_def LeaseCheckpoint_decode_def LeaseCheckpoint_encode_def
  by (simp only: lease_delta.dec_iff lease_checkpoint.dec_iff)

text \<open>
  C36. Replaying a holder's history succeeds exactly on the valid ones (every delta verifies, all
  from one holder, contiguous from 0, each chained to its predecessor, every checkpoint that shares
  a sequence with a delta signed by that holder and covering the set at that point), and returns
  exactly the addresses some delta added and no delta from then on removed.
\<close>

theorem replay_accepts_iff:
  "replay B ds cps = Ok s \<longleftrightarrow>
    (ds = [] \<or> valid_lease_chain B (LeaseDelta_holder_id B (hd ds)) ds cps) \<and>
    sorted_wrt (<) s \<and> set s = {a. leased_by ds a}"
proof -
  have "s = replayed ds \<longleftrightarrow> sorted_wrt (<) s \<and> set s = {a. leased_by ds a}"
    using replayed_set [of ds] strict_sorted_equal [of s "replayed ds"] by auto
  then show ?thesis by (auto simp: replay_Inr_iff)
qed

text \<open>
  A checkpoint covers one set: if a checkpoint signed over one set is found to cover another,
  the two are equal, unless two inputs hashed for their Merkle roots collide. The peer can compact
  against a checkpoint without losing what it stood for.
\<close>

theorem checkpoint_covers_only_its_set:
  assumes "LeaseCheckpoint_sign B i epoch seq xs prev = Ok c" "covers B c ys = Ok ()"
    and "hash_width B" "card (set xs) < 2 ^ 64" "card (set ys) < 2 ^ 64"
  shows "set xs = set ys \<or> collides B (merkle_inputs B xs) (merkle_inputs B ys)"
proof -
  have canon: "merkle_root B (canonicalise zs) = merkle_root B zs" "merkle_inputs B (canonicalise zs) = merkle_inputs B zs" for zs
    by (simp_all add: merkle_root_def merkle_inputs_def root_preimage_def canonicalise_def sort_dedup_id)
  have "lc_root c = merkle_root B xs"
    using assms(1) by (auto simp: LeaseCheckpoint_sign_def result_elims Let_def canon)
  moreover have "merkle_root B ys = lc_root c"
    using assms(2) by (auto simp: covers_def Let_def canon split: if_splits)
  ultimately have "blake3 B (root_preimage B xs) = blake3 B (root_preimage B ys)"
    by (simp add: merkle_root_def)
  then have "root_preimage B xs = root_preimage B ys \<or> collides B (merkle_inputs B xs) (merkle_inputs B ys)"
    by (rule blake3_inj) (simp_all add: merkle_inputs_def)
  then show ?thesis using root_preimage_inj [OF assms(3-5)] by blast
qed

definition toy_checkpoint :: lease_checkpoint where
  "toy_checkpoint = \<lparr>lc_holder_pk = [7], lc_epoch = 0, lc_seq = 0,
     lc_root = merkle_root toy_backend [[1], [2]], lc_count = 2, lc_prev = replicate 32 0, lc_sig = [7]\<rparr>"

lemma toy_checkpoint_signed:
  "LeaseCheckpoint_sign toy_backend (toy_identity 7) 0 0 [[2], [1]] (replicate 32 0) = Ok toy_checkpoint"
proof -
  have canon: "canonicalise [[2], [1 :: u8]] = [[1], [2]]"
    by (simp add: canonicalise_def sort_dedup_def)
  show ?thesis
    by (simp add: LeaseCheckpoint_sign_def canon lease_check_genesis_def genesis_ok_def all_zero_def
        list_all_iff Identity_sign_def toy_checkpoint_def Let_def)
qed

lemma toy_checkpoint_covers: "covers toy_backend toy_checkpoint [[1], [2], [1]] = Ok ()"
proof -
  have canon: "canonicalise [[1], [2], [1 :: u8]] = [[1], [2]]"
    by (simp add: canonicalise_def sort_dedup_def)
  show ?thesis by (simp add: covers_def canon toy_checkpoint_def)
qed

theorem checkpoint_covers_only_its_set_witness:
  "set [[2], [1 :: u8]] = set [[1], [2], [1]] \<or>
    collides toy_backend (merkle_inputs toy_backend [[2], [1]]) (merkle_inputs toy_backend [[1], [2], [1]])"
  by (rule checkpoint_covers_only_its_set [OF toy_checkpoint_signed toy_checkpoint_covers toy_hash_width])
     (simp_all add: card_insert_if)

end
