(* ===== verification/Sweep.thy ===== *)
theory Sweep
  imports Lease
begin

text \<open>
  \<open>nas-lease/src/sweep.rs\<close>: planning a garbage-collection sweep, the only code that deletes a user's
  data. The plan is built by one pass over the blobs with the guards in the source's order; the
  properties characterise exactly what lands in each part of it.
\<close>

definition DAY :: u64 where
  "DAY = 86400"

record gc_policy =
  gp_grace :: u64
  gp_lease_expiry :: u64
  gp_notice :: u64
  gp_max_leased_bytes :: u64

definition GcPolicy_default :: gc_policy where
  "GcPolicy_default = \<lparr>gp_grace = DAY, gp_lease_expiry = 90 * DAY, gp_notice = 30 * DAY,
     gp_max_leased_bytes = - 1\<rparr>"

record blob_info =
  bi_addr :: addr
  bi_size :: u64
  bi_uploaded_at :: timestamp

record holder =
  ho_id :: hash32
  ho_set :: lease_set
  ho_last_seen :: timestamp

datatype holder_status = Active | Expiring | Expired

definition Holder_status :: "holder \<Rightarrow> timestamp \<Rightarrow> gc_policy \<Rightarrow> holder_status" where
  "Holder_status h now p =
    (let idle = saturating_since now (ho_last_seen h)
     in if idle \<le> gp_lease_expiry p then Active
        else if idle \<le> saturating_add (gp_lease_expiry p) (gp_notice p) then Expiring
        else Expired)"

definition leased_bytes :: "holder \<Rightarrow> (hash32, blob_info) btreemap \<Rightarrow> u64" where
  "leased_bytes h blobs =
    fold (\<lambda>n acc. saturating_add acc n) (map bi_size (List.map_filter (\<lambda>a. btm_get blobs a) (ho_set h))) 0"

datatype keep = RetentionFloor | YoungBlob | Leased | LeasedByExpiring

record sweep_plan =
  sp_delete :: "addr list"
  sp_keep :: "(addr \<times> keep) list"
  sp_warnings :: "(hash32, addr list) btreemap"
  sp_over_quota :: "(hash32, u64) btreemap"

definition SweepPlan_default :: sweep_plan where
  "SweepPlan_default = \<lparr>sp_delete = [], sp_keep = [], sp_warnings = [], sp_over_quota = []\<rparr>"

definition blob_index :: "blob_info list \<Rightarrow> (hash32, blob_info) btreemap" where
  "blob_index blobs = fold (\<lambda>b m. btm_insert (bi_addr b) b m) blobs []"

definition plan_quota :: "blob_info list \<Rightarrow> holder list \<Rightarrow> gc_policy \<Rightarrow> sweep_plan \<Rightarrow> sweep_plan" where
  "plan_quota blobs holders policy plan =
    fold (\<lambda>(i, n) pl. pl\<lparr>sp_over_quota := btm_insert i n (sp_over_quota pl)\<rparr>)
      (filter (\<lambda>(_, n). n > gp_max_leased_bytes policy)
         (map (\<lambda>h. (ho_id h, leased_bytes h (blob_index blobs))) holders))
      plan"

text \<open>The inner loop over the holders: the \<open>active\<close> and \<open>expiring\<close> flags after it.\<close>

fun lease_flags :: "addr \<Rightarrow> (holder \<times> holder_status) list \<Rightarrow> bool \<times> bool \<Rightarrow> bool \<times> bool" where
  "lease_flags a [] flags = flags"
| "lease_flags a ((h, st) # hs) (active, expiring) =
    (if \<not> LeaseSet_contains (ho_set h) a then lease_flags a hs (active, expiring)
     else case st of
       Active \<Rightarrow> lease_flags a hs (True, expiring)
     | Expiring \<Rightarrow> lease_flags a hs (active, True)
     | Expired \<Rightarrow> lease_flags a hs (active, expiring))"

definition warn_holders :: "addr \<Rightarrow> holder list \<Rightarrow> sweep_plan \<Rightarrow> sweep_plan" where
  "warn_holders a holders plan =
    fold (\<lambda>h pl. pl\<lparr>sp_warnings := btm_upsert (ho_id h) [] (\<lambda>v. v @ [a]) (sp_warnings pl)\<rparr>)
      (filter (\<lambda>h. LeaseSet_contains (ho_set h) a) holders) plan"

definition plan_blob ::
  "holder list \<Rightarrow> (holder \<times> holder_status) list \<Rightarrow> hash32 btreeset \<Rightarrow> gc_policy \<Rightarrow> timestamp
    \<Rightarrow> blob_info \<Rightarrow> sweep_plan \<Rightarrow> sweep_plan" where
  "plan_blob holders status retention_floor policy now b plan =
    (if bi_addr b \<in> set retention_floor
     then plan\<lparr>sp_keep := sp_keep plan @ [(bi_addr b, RetentionFloor)]\<rparr>
     else if saturating_since now (bi_uploaded_at b) < gp_grace policy
     then plan\<lparr>sp_keep := sp_keep plan @ [(bi_addr b, YoungBlob)]\<rparr>
     else case lease_flags (bi_addr b) status (False, False) of
       (active, expiring) \<Rightarrow>
         if active then plan\<lparr>sp_keep := sp_keep plan @ [(bi_addr b, Leased)]\<rparr>
         else warn_holders (bi_addr b) holders
                (if expiring then plan\<lparr>sp_keep := sp_keep plan @ [(bi_addr b, LeasedByExpiring)]\<rparr>
                 else plan\<lparr>sp_delete := sp_delete plan @ [bi_addr b]\<rparr>))"

definition plan_sweep ::
  "blob_info list \<Rightarrow> holder list \<Rightarrow> hash32 btreeset \<Rightarrow> gc_policy \<Rightarrow> timestamp \<Rightarrow> sweep_plan" where
  "plan_sweep blobs holders retention_floor policy now =
    (let plan = plan_quota blobs holders policy SweepPlan_default;
         status = zip holders (map (\<lambda>h. Holder_status h now policy) holders)
     in fold (plan_blob holders status retention_floor policy now) blobs plan)"

section \<open>What protects a blob\<close>

definition leases :: "holder \<Rightarrow> addr \<Rightarrow> bool" where
  "leases h a \<longleftrightarrow> a \<in> set (ho_set h)"

text \<open>The specification: the strongest reason to keep a blob, \<open>None\<close> when there is none.\<close>

definition reason ::
  "holder list \<Rightarrow> hash32 btreeset \<Rightarrow> gc_policy \<Rightarrow> timestamp \<Rightarrow> blob_info \<Rightarrow> keep option" where
  "reason holders floor policy now b =
    (if bi_addr b \<in> set floor then Some RetentionFloor
     else if unat now - unat (bi_uploaded_at b) < unat (gp_grace policy) then Some YoungBlob
     else if \<exists>h \<in> set holders. leases h (bi_addr b) \<and> Holder_status h now policy = Active then Some Leased
     else if \<exists>h \<in> set holders. leases h (bi_addr b) \<and> Holder_status h now policy = Expiring
          then Some LeasedByExpiring
     else None)"

definition warned :: "holder list \<Rightarrow> hash32 btreeset \<Rightarrow> gc_policy \<Rightarrow> timestamp \<Rightarrow> blob_info \<Rightarrow> bool" where
  "warned holders floor policy now b \<longleftrightarrow>
    reason holders floor policy now b \<in> {None, Some LeasedByExpiring}"

lemma lease_flags_eq:
  "lease_flags a hs (act, ex) =
    (act \<or> (\<exists>(h, st) \<in> set hs. leases h a \<and> st = Active),
     ex \<or> (\<exists>(h, st) \<in> set hs. leases h a \<and> st = Expiring))"
proof (induction a hs "(act, ex)" arbitrary: act ex rule: lease_flags.induct)
  case (1 a)
  then show ?case by simp
next
  case (2 a h st hs)
  then show ?case
    by (cases st) (auto simp: LeaseSet_contains_def leases_def)
qed

lemma flags_of_holders:
  "lease_flags a (zip holders (map (\<lambda>h. Holder_status h now policy) holders)) (False, False) =
    (\<exists>h \<in> set holders. leases h a \<and> Holder_status h now policy = Active,
     \<exists>h \<in> set holders. leases h a \<and> Holder_status h now policy = Expiring)"
proof -
  have "set (zip holders (map (\<lambda>h. Holder_status h now policy) holders)) =
      (\<lambda>h. (h, Holder_status h now policy)) ` set holders"
    by (simp add: zip_map2 zip_same_conv_map image_comp comp_def)
  then show ?thesis unfolding lease_flags_eq by auto
qed

lemma warn_holders_fields [simp]:
  "sp_delete (warn_holders a hs plan) = sp_delete plan" "sp_keep (warn_holders a hs plan) = sp_keep plan"
  "sp_over_quota (warn_holders a hs plan) = sp_over_quota plan"
  by (induction hs arbitrary: plan) (simp_all add: warn_holders_def)

text \<open>One blob's effect on the plan, in terms of its reason.\<close>

lemma plan_blob_eq:
  fixes holders now policy
  defines "st \<equiv> zip holders (map (\<lambda>h. Holder_status h now policy) holders)"
  shows "plan_blob holders st floor policy now b plan =
    (let r = reason holders floor policy now b;
         plan' = (case r of
                    None \<Rightarrow> plan\<lparr>sp_delete := sp_delete plan @ [bi_addr b]\<rparr>
                  | Some k \<Rightarrow> plan\<lparr>sp_keep := sp_keep plan @ [(bi_addr b, k)]\<rparr>)
     in if warned holders floor policy now b then warn_holders (bi_addr b) holders plan' else plan')"
proof -
  define act where "act \<longleftrightarrow> (\<exists>h \<in> set holders. leases h (bi_addr b) \<and> Holder_status h now policy = Active)"
  define ex where "ex \<longleftrightarrow> (\<exists>h \<in> set holders. leases h (bi_addr b) \<and> Holder_status h now policy = Expiring)"
  show ?thesis
    unfolding plan_blob_def st_def flags_of_holders reason_def warned_def act_def [symmetric] ex_def [symmetric]
    by (simp add: word_less_nat_alt unat_saturating_since)
qed

section \<open>The whole plan\<close>

abbreviation status_of :: "holder list \<Rightarrow> timestamp \<Rightarrow> gc_policy \<Rightarrow> (holder \<times> holder_status) list" where
  "status_of holders now policy \<equiv> zip holders (map (\<lambda>h. Holder_status h now policy) holders)"

lemma plan_blobs_parts:
  "sp_delete (fold (plan_blob holders (status_of holders now policy) floor policy now) blobs plan) =
    sp_delete plan @ map bi_addr (filter (\<lambda>b. reason holders floor policy now b = None) blobs)"
  "sp_keep (fold (plan_blob holders (status_of holders now policy) floor policy now) blobs plan) =
    sp_keep plan @ List.map_filter (\<lambda>b. map_option (Pair (bi_addr b)) (reason holders floor policy now b)) blobs"
  "sp_over_quota (fold (plan_blob holders (status_of holders now policy) floor policy now) blobs plan) =
    sp_over_quota plan"
  by (induction blobs arbitrary: plan)
     (simp_all add: plan_blob_eq Let_def map_filter_simps split: option.split)

lemma warnings_upsert:
  "btm_get (sp_warnings (warn_holders a hs plan)) i =
    (let n = length (filter (\<lambda>h. ho_id h = i \<and> leases h a) hs); old = btm_get (sp_warnings plan) i
     in if n = 0 then old else Some ((case old of None \<Rightarrow> [] | Some v \<Rightarrow> v) @ replicate n a))"
proof (induction hs arbitrary: plan)
  case Nil
  then show ?case by (simp add: warn_holders_def)
next
  case (Cons h hs)
  have rep: "v @ a # replicate n a = (v @ replicate n a) @ [a]" for v n
    by (simp add: replicate_append_same)
  have step: "warn_holders a (h # hs) plan =
      warn_holders a hs (if leases h a
        then plan\<lparr>sp_warnings := btm_upsert (ho_id h) [] (\<lambda>v. v @ [a]) (sp_warnings plan)\<rparr> else plan)"
    by (simp add: warn_holders_def LeaseSet_contains_def leases_def)
  show ?case
    unfolding step Cons.IH by (auto simp: btm_get_upsert Let_def split: option.split)
qed

definition warned_addrs ::
  "holder list \<Rightarrow> hash32 btreeset \<Rightarrow> gc_policy \<Rightarrow> timestamp \<Rightarrow> hash32 \<Rightarrow> blob_info list \<Rightarrow> addr list" where
  "warned_addrs holders floor policy now i blobs =
    concat (map (\<lambda>b. replicate (length (filter (\<lambda>h. ho_id h = i \<and> leases h (bi_addr b)) holders)) (bi_addr b))
      (filter (warned holders floor policy now) blobs))"

lemma plan_blobs_warnings:
  "btm_get (sp_warnings (fold (plan_blob holders (status_of holders now policy) floor policy now) blobs plan)) i =
    (let old = btm_get (sp_warnings plan) i; new = warned_addrs holders floor policy now i blobs
     in if new = [] then old else Some ((case old of None \<Rightarrow> [] | Some v \<Rightarrow> v) @ new))"
proof (induction blobs arbitrary: plan)
  case Nil
  then show ?case by (simp add: warned_addrs_def)
next
  case (Cons b blobs)
  let ?n = "length (filter (\<lambda>h. ho_id h = i \<and> leases h (bi_addr b)) holders)"
  have w: "warned_addrs holders floor policy now i (b # blobs) =
      (if warned holders floor policy now b then replicate ?n (bi_addr b) else []) @
      warned_addrs holders floor policy now i blobs"
    by (simp add: warned_addrs_def)
  have "btm_get (sp_warnings (plan_blob holders (status_of holders now policy) floor policy now b plan)) i =
      (if warned holders floor policy now b \<and> ?n \<noteq> 0
       then Some ((case btm_get (sp_warnings plan) i of None \<Rightarrow> [] | Some v \<Rightarrow> v) @ replicate ?n (bi_addr b))
       else btm_get (sp_warnings plan) i)"
    by (simp add: plan_blob_eq Let_def warnings_upsert split: option.split)
  then show ?case
    using Cons.IH [of "plan_blob holders (status_of holders now policy) floor policy now b plan"]
    by (auto simp: w Let_def simp del: length_0_conv split: option.split)
qed

lemma plan_quota_fields [simp]:
  "sp_delete (plan_quota blobs holders policy plan) = sp_delete plan"
  "sp_keep (plan_quota blobs holders policy plan) = sp_keep plan"
  "sp_warnings (plan_quota blobs holders policy plan) = sp_warnings plan"
proof -
  have "sp_delete (fold (\<lambda>(i, n) pl. pl\<lparr>sp_over_quota := btm_insert i n (sp_over_quota pl)\<rparr>) xs plan) = sp_delete plan \<and>
      sp_keep (fold (\<lambda>(i, n) pl. pl\<lparr>sp_over_quota := btm_insert i n (sp_over_quota pl)\<rparr>) xs plan) = sp_keep plan \<and>
      sp_warnings (fold (\<lambda>(i, n) pl. pl\<lparr>sp_over_quota := btm_insert i n (sp_over_quota pl)\<rparr>) xs plan) = sp_warnings plan" for xs
    by (induction xs arbitrary: plan) auto
  then show "sp_delete (plan_quota blobs holders policy plan) = sp_delete plan"
    "sp_keep (plan_quota blobs holders policy plan) = sp_keep plan"
    "sp_warnings (plan_quota blobs holders policy plan) = sp_warnings plan"
    by (simp_all add: plan_quota_def)
qed

lemma plan_sweep_parts:
  "sp_delete (plan_sweep blobs holders floor policy now) =
    map bi_addr (filter (\<lambda>b. reason holders floor policy now b = None) blobs)"
  "sp_keep (plan_sweep blobs holders floor policy now) =
    List.map_filter (\<lambda>b. map_option (Pair (bi_addr b)) (reason holders floor policy now b)) blobs"
  "btm_get (sp_warnings (plan_sweep blobs holders floor policy now)) i =
    (let new = warned_addrs holders floor policy now i blobs in if new = [] then None else Some new)"
  by (simp_all add: plan_sweep_def Let_def plan_blobs_parts plan_blobs_warnings SweepPlan_default_def)

lemma Holder_status_Expired_iff:
  "Holder_status h now p = Expired \<longleftrightarrow>
    min (unat (gp_lease_expiry p) + unat (gp_notice p)) (2 ^ 64 - 1) < unat now - unat (ho_last_seen h)"
proof -
  have sat: "unat (saturating_add (gp_lease_expiry p) (gp_notice p)) =
      min (unat (gp_lease_expiry p) + unat (gp_notice p)) (2 ^ 64 - 1)"
    by (simp add: unat_saturating_add)
  have "unat (gp_lease_expiry p) \<le> unat (saturating_add (gp_lease_expiry p) (gp_notice p))"
    using saturating_add_ge [of "gp_lease_expiry p" "gp_notice p"] by (simp add: word_le_nat_alt)
  then show ?thesis
    unfolding sat [symmetric]
    by (auto simp: Holder_status_def Let_def word_le_nat_alt unat_saturating_since)
qed

lemma Expired_unat:
  "Holder_status h now p = Expired \<longleftrightarrow>
    unat (gp_lease_expiry p) + unat (gp_notice p) < unat now - unat (ho_last_seen h)"
proof -
  have "unat now < 2 ^ 64" using unat_less_pow [of now] by simp
  then show ?thesis unfolding Holder_status_Expired_iff by (auto simp: min_def)
qed

lemma reason_None_iff:
  "reason holders floor policy now b = None \<longleftrightarrow>
    bi_addr b \<notin> set floor \<and> unat (gp_grace policy) \<le> unat now - unat (bi_uploaded_at b) \<and>
    (\<forall>h \<in> set holders. leases h (bi_addr b) \<longrightarrow> Holder_status h now policy = Expired)"
proof -
  have "st = Expired \<longleftrightarrow> st \<noteq> Active \<and> st \<noteq> Expiring" for st by (cases st) auto
  then show ?thesis by (auto simp: reason_def not_less)
qed

section \<open>Properties\<close>

text \<open>
  C34. The sweep plan is exactly what the policy says: every blob is deleted or kept, in order,
  and each kept one carries the strongest reason there is (the retention floor, then youth, then
  an active lease, then a lease in its notice window), whatever the quotas and the other blobs are.
\<close>

theorem plan_sweep_follows_policy:
  "sp_delete (plan_sweep blobs holders floor policy now) =
     map bi_addr (filter (\<lambda>b. reason holders floor policy now b = None) blobs) \<and>
   sp_keep (plan_sweep blobs holders floor policy now) =
     List.map_filter (\<lambda>b. map_option (Pair (bi_addr b)) (reason holders floor policy now b)) blobs"
  by (simp add: plan_sweep_parts)

text \<open>
  Nothing protected is deleted: a blob in the plan's \<open>delete\<close> list is outside the retention
  floor, is at least as old as the grace period, and every holder that leases it has been silent
  for longer than the lease expiry plus the notice window.
\<close>

theorem sweep_deletes_only_unprotected:
  assumes "a \<in> set (sp_delete (plan_sweep blobs holders floor policy now))"
  shows "\<exists>b \<in> set blobs. bi_addr b = a \<and> a \<notin> set floor \<and>
    unat (gp_grace policy) \<le> unat now - unat (bi_uploaded_at b) \<and>
    (\<forall>h \<in> set holders. a \<in> set (ho_set h) \<longrightarrow>
       unat (gp_lease_expiry policy) + unat (gp_notice policy) < unat now - unat (ho_last_seen h))"
  using assms by (auto simp: plan_sweep_parts reason_None_iff Expired_unat leases_def)

definition toy_blob :: blob_info where
  "toy_blob = \<lparr>bi_addr = [1], bi_size = 10, bi_uploaded_at = 0\<rparr>"

definition toy_holder :: holder where
  "toy_holder = \<lparr>ho_id = [9], ho_set = [[1]], ho_last_seen = 0\<rparr>"

definition toy_policy :: gc_policy where
  "toy_policy = \<lparr>gp_grace = 10, gp_lease_expiry = 20, gp_notice = 30, gp_max_leased_bytes = 100\<rparr>"

lemma toy_sweep: "sp_delete (plan_sweep [toy_blob] [toy_holder] [] toy_policy 60) = [[1]]"
  by (simp add: plan_sweep_parts reason_None_iff Expired_unat toy_blob_def toy_holder_def toy_policy_def)

theorem sweep_deletes_only_unprotected_witness:
  "\<exists>b \<in> set [toy_blob]. bi_addr b = [1] \<and> [1] \<notin> set ([] :: hash32 btreeset) \<and>
    unat (gp_grace toy_policy) \<le> unat (60 :: u64) - unat (bi_uploaded_at b) \<and>
    (\<forall>h \<in> set [toy_holder]. [1] \<in> set (ho_set h) \<longrightarrow>
       unat (gp_lease_expiry toy_policy) + unat (gp_notice toy_policy) < unat (60 :: u64) - unat (ho_last_seen h))"
  by (rule sweep_deletes_only_unprotected) (simp add: toy_sweep)

text \<open>
  A clock that goes backwards never widens a sweep: at an earlier time, with everything else
  the same, no more is deleted than at a later one.
\<close>

theorem earlier_clock_deletes_no_more:
  assumes "now \<le> later"
  shows "set (sp_delete (plan_sweep blobs holders floor policy now)) \<subseteq>
    set (sp_delete (plan_sweep blobs holders floor policy later))"
proof -
  have "unat now \<le> unat later" using assms by (simp add: word_le_nat_alt)
  then have "unat now - unat t \<le> unat later - unat t" for t :: u64 by simp
  then show ?thesis
    by (auto simp: plan_sweep_parts reason_None_iff Expired_unat dest: order.trans less_le_trans)
qed

theorem earlier_clock_deletes_no_more_witness:
  "set (sp_delete (plan_sweep [toy_blob] [toy_holder] [] toy_policy 5)) \<subseteq> {[1]}"
  using earlier_clock_deletes_no_more [of 5 60 "[toy_blob]" "[toy_holder]" "[]" toy_policy] toy_sweep
  by simp

text \<open>
  Warn before sweep: for each holder id the plan lists, in order, exactly the blobs leased under
  that id whose only protection is a lapsed lease, both those kept in the notice window and those
  deleted; a holder with none has no entry.
\<close>

theorem sweep_warnings_are_exact:
  "btm_get (sp_warnings (plan_sweep blobs holders floor policy now)) i =
    (if warned_addrs holders floor policy now i blobs = [] then None
     else Some (warned_addrs holders floor policy now i blobs))"
  by (simp add: plan_sweep_parts Let_def)

end
