(* ===== verification/Delete.thy ===== *)
theory Delete
  imports Slot_Record BTree
begin

text \<open>
  \<open>nas-delete/src/record.rs\<close>: the three signed records of the deletion loop, their wire forms, and the
  approver's cooling-off gate. A Rust \<open>String\<close> is its UTF-8 bytes.
\<close>

definition MAX_APPROVALS :: usize where
  "MAX_APPROVALS = 64"

datatype delete_error =
    TooManyApprovals usize
  | Decode decode_error
  | Sign sign_error
  | BadWidth string usize usize
  | FieldCount usize usize
  | BadSignature
  | BadScope u8
  | BadScopePath
  | WrongRequest hash32 hash32

section \<open>Scopes\<close>

datatype scope = Object bytes | Prefix bytes | Namespace

fun scope_tag :: "scope \<Rightarrow> u8" where
  "scope_tag (Object p) = 0"
| "scope_tag (Prefix p) = 1"
| "scope_tag Namespace = 2"

fun scope_path :: "scope \<Rightarrow> bytes" where
  "scope_path (Object p) = p"
| "scope_path (Prefix p) = p"
| "scope_path Namespace = []"

fun scope_check :: "scope \<Rightarrow> delete_error + unit" where
  "scope_check (Object p) = (if p = [] then Err BadScopePath else Ok ())"
| "scope_check (Prefix p) = (if p = [] then Err BadScopePath else Ok ())"
| "scope_check Namespace = Ok ()"

definition scope_decode :: "u8 \<Rightarrow> bytes \<Rightarrow> delete_error + scope" where
  "scope_decode tag path =
    (if \<not> from_utf8_ok path then Err BadScopePath
     else rbind
       (if tag = 0 then Ok (Object path)
        else if tag = 1 then Ok (Prefix path)
        else if tag = 2 then (if path \<noteq> [] then Err BadScopePath else Ok Namespace)
        else Err (BadScope tag))
       (\<lambda>s. rbind (scope_check s) (\<lambda>_. Ok s)))"

section \<open>Requests\<close>

record delete_request =
  dr_scope :: scope
  dr_reason :: bytes
  dr_requested_by :: bytes
  dr_nonce :: bytes
  dr_sig :: bytes

definition request_body_fields :: "scope \<Rightarrow> bytes \<Rightarrow> bytes \<Rightarrow> bytes list" where
  "request_body_fields s reason nonce = [[scope_tag s], scope_path s, reason, nonce]"

definition request_body :: "scope \<Rightarrow> bytes \<Rightarrow> bytes \<Rightarrow> bytes" where
  "request_body s reason nonce = expect_ok (encode_fields (request_body_fields s reason nonce))"

definition DeleteRequest_sign ::
  "identity \<Rightarrow> scope \<Rightarrow> bytes \<Rightarrow> bytes \<Rightarrow> delete_error + delete_request" where
  "DeleteRequest_sign i s reason nonce =
    rbind (scope_check s) (\<lambda>_.
    rbind (map_err Sign (Identity_sign i CtxDeleteRequest (request_body s reason nonce))) (\<lambda>sig.
    Ok \<lparr>dr_scope = s, dr_reason = reason, dr_requested_by = verifying_key i, dr_nonce = nonce,
        dr_sig = sig\<rparr>))"

definition DeleteRequest_verify :: "backend \<Rightarrow> delete_request \<Rightarrow> delete_error + unit" where
  "DeleteRequest_verify B r =
    rbind (scope_check (dr_scope r)) (\<lambda>_.
    map_err (\<lambda>_. BadSignature)
      (sig_check B (dr_requested_by r) CtxDeleteRequest
         (request_body (dr_scope r) (dr_reason r) (dr_nonce r)) (dr_sig r)))"

definition request_preimage :: "delete_request \<Rightarrow> bytes" where
  "request_preimage r =
    request_body (dr_scope r) (dr_reason r) (dr_nonce r) @ dr_requested_by r @ dr_sig r"

definition request_hash :: "backend \<Rightarrow> delete_request \<Rightarrow> hash32" where
  "request_hash B r = blake3 B (request_preimage r)"

definition requester_id :: "backend \<Rightarrow> delete_request \<Rightarrow> hash32" where
  "requester_id B r = key_id B (dr_requested_by r)"

definition DeleteRequest_fields :: "delete_request \<Rightarrow> bytes list" where
  "DeleteRequest_fields r =
    [[scope_tag (dr_scope r)], scope_path (dr_scope r), dr_reason r, dr_requested_by r, dr_nonce r, dr_sig r]"

definition DeleteRequest_encode :: "delete_request \<Rightarrow> delete_error + bytes" where
  "DeleteRequest_encode r = map_err Decode (encode_fields (DeleteRequest_fields r))"

definition DeleteRequest_of_fields :: "backend \<Rightarrow> bytes list \<Rightarrow> delete_error + delete_request" where
  "DeleteRequest_of_fields B f =
    (if length f \<noteq> 6 then Err (FieldCount 6 (length f))
     else if length (f ! 0) \<noteq> 1 then Err (BadWidth ''scope_tag'' 1 (length (f ! 0)))
     else if length (f ! 3) \<noteq> VK_SIZE B then Err (BadWidth ''requested_by'' (VK_SIZE B) (length (f ! 3)))
     else if length (f ! 5) \<noteq> SIG_SIZE B then Err (BadWidth ''sig'' (SIG_SIZE B) (length (f ! 5)))
     else rbind (scope_decode (hd (f ! 0)) (f ! 1)) (\<lambda>s.
     if \<not> from_utf8_ok (f ! 2) then Err BadScopePath
     else rbind (fixed_width BadWidth 32 ''nonce'' (f ! 4)) (\<lambda>nonce.
     Ok \<lparr>dr_scope = s, dr_reason = f ! 2, dr_requested_by = f ! 3, dr_nonce = nonce, dr_sig = f ! 5\<rparr>)))"

definition DeleteRequest_decode :: "backend \<Rightarrow> bytes \<Rightarrow> delete_error + delete_request" where
  "DeleteRequest_decode B bs = rbind (map_err Decode (decode_fields bs)) (DeleteRequest_of_fields B)"

section \<open>Approvals\<close>

record delete_approval =
  da_request_hash :: hash32
  da_approver_pk :: bytes
  da_sig :: bytes

definition DeleteApproval_sign :: "identity \<Rightarrow> hash32 \<Rightarrow> delete_error + delete_approval" where
  "DeleteApproval_sign i rh =
    rbind (map_err Sign (Identity_sign i CtxDeleteApproval rh)) (\<lambda>sig.
    Ok \<lparr>da_request_hash = rh, da_approver_pk = verifying_key i, da_sig = sig\<rparr>)"

definition DeleteApproval_verify :: "backend \<Rightarrow> delete_approval \<Rightarrow> delete_error + unit" where
  "DeleteApproval_verify B a =
    map_err (\<lambda>_. BadSignature) (sig_check B (da_approver_pk a) CtxDeleteApproval (da_request_hash a) (da_sig a))"

definition approver_id :: "backend \<Rightarrow> delete_approval \<Rightarrow> hash32" where
  "approver_id B a = key_id B (da_approver_pk a)"

definition DeleteApproval_fields :: "delete_approval \<Rightarrow> bytes list" where
  "DeleteApproval_fields a = [da_request_hash a, da_approver_pk a, da_sig a]"

definition DeleteApproval_encode :: "delete_approval \<Rightarrow> delete_error + bytes" where
  "DeleteApproval_encode a = map_err Decode (encode_fields (DeleteApproval_fields a))"

definition DeleteApproval_of_fields :: "backend \<Rightarrow> bytes list \<Rightarrow> delete_error + delete_approval" where
  "DeleteApproval_of_fields B f =
    (if length f \<noteq> 3 then Err (FieldCount 3 (length f))
     else if length (f ! 1) \<noteq> VK_SIZE B then Err (BadWidth ''approver_pk'' (VK_SIZE B) (length (f ! 1)))
     else if length (f ! 2) \<noteq> SIG_SIZE B then Err (BadWidth ''sig'' (SIG_SIZE B) (length (f ! 2)))
     else rbind (fixed_width BadWidth 32 ''request_hash'' (f ! 0)) (\<lambda>rh.
     Ok \<lparr>da_request_hash = rh, da_approver_pk = f ! 1, da_sig = f ! 2\<rparr>))"

definition DeleteApproval_decode :: "backend \<Rightarrow> bytes \<Rightarrow> delete_error + delete_approval" where
  "DeleteApproval_decode B bs = rbind (map_err Decode (decode_fields bs)) (DeleteApproval_of_fields B)"

section \<open>Executions\<close>

record delete_execution =
  de_request_hash :: hash32
  de_approvals :: "delete_approval list"
  de_executed_by :: bytes
  de_sig :: bytes

fun check_bound :: "hash32 \<Rightarrow> delete_approval list \<Rightarrow> delete_error + unit" where
  "check_bound rh [] = Ok ()"
| "check_bound rh (a # as) =
    (if da_request_hash a \<noteq> rh then Err (WrongRequest rh (da_request_hash a)) else check_bound rh as)"

definition DeleteExecution_sign ::
  "backend \<Rightarrow> identity \<Rightarrow> delete_request \<Rightarrow> delete_approval list \<Rightarrow> delete_error + delete_execution" where
  "DeleteExecution_sign B i r approvals =
    (let rh = request_hash B r in
     rbind (check_bound rh approvals) (\<lambda>_.
     rbind (map_err Sign (Identity_sign i CtxDeleteExecution rh)) (\<lambda>sig.
     Ok \<lparr>de_request_hash = rh, de_approvals = approvals, de_executed_by = verifying_key i, de_sig = sig\<rparr>)))"

definition DeleteExecution_encode :: "delete_execution \<Rightarrow> delete_error + bytes" where
  "DeleteExecution_encode e =
    (if length (de_approvals e) > MAX_APPROVALS then Err (TooManyApprovals (length (de_approvals e)))
     else rbind (traverse DeleteApproval_encode (de_approvals e)) (\<lambda>approvals.
     map_err Decode (encode_fields ([de_request_hash e, de_executed_by e, de_sig e] @ approvals))))"

definition DeleteExecution_of_fields :: "backend \<Rightarrow> bytes list \<Rightarrow> delete_error + delete_execution" where
  "DeleteExecution_of_fields B f =
    (if length f < 3 then Err (FieldCount 3 (length f))
     else if length f - 3 > MAX_APPROVALS then Err (TooManyApprovals (length f - 3))
     else if length (f ! 1) \<noteq> VK_SIZE B then Err (BadWidth ''executed_by'' (VK_SIZE B) (length (f ! 1)))
     else if length (f ! 2) \<noteq> SIG_SIZE B then Err (BadWidth ''sig'' (SIG_SIZE B) (length (f ! 2)))
     else rbind (fixed_width BadWidth 32 ''request_hash'' (f ! 0)) (\<lambda>rh.
     rbind (traverse (DeleteApproval_decode B) (drop 3 f)) (\<lambda>approvals.
     Ok \<lparr>de_request_hash = rh, de_approvals = approvals, de_executed_by = f ! 1, de_sig = f ! 2\<rparr>)))"

definition DeleteExecution_decode :: "backend \<Rightarrow> bytes \<Rightarrow> delete_error + delete_execution" where
  "DeleteExecution_decode B bs = rbind (map_err Decode (decode_fields bs)) (DeleteExecution_of_fields B)"

fun verify_approvals :: "backend \<Rightarrow> hash32 \<Rightarrow> delete_approval list \<Rightarrow> delete_error + unit" where
  "verify_approvals B rh [] = Ok ()"
| "verify_approvals B rh (a # as) =
    rbind (DeleteApproval_verify B a) (\<lambda>_.
    if da_request_hash a \<noteq> rh then Err (WrongRequest rh (da_request_hash a))
    else verify_approvals B rh as)"

definition DeleteExecution_verify :: "backend \<Rightarrow> delete_execution \<Rightarrow> delete_error + unit" where
  "DeleteExecution_verify B e =
    rbind (verify_approvals B (de_request_hash e) (de_approvals e)) (\<lambda>_.
    map_err (\<lambda>_. BadSignature)
      (sig_check B (de_executed_by e) CtxDeleteExecution (de_request_hash e) (de_sig e)))"

section \<open>The approver device\<close>

record approver =
  ap_cooling_off :: u64

definition Approver_default :: approver where
  "Approver_default = \<lparr>ap_cooling_off = 7 * 86400\<rparr>"

definition may_sign :: "approver \<Rightarrow> timestamp \<Rightarrow> timestamp \<Rightarrow> bool" where
  "may_sign ap first_seen now \<longleftrightarrow> saturating_since now first_seen \<ge> ap_cooling_off ap"

definition approve ::
  "backend \<Rightarrow> approver \<Rightarrow> identity \<Rightarrow> delete_request \<Rightarrow> timestamp \<Rightarrow> timestamp
    \<Rightarrow> delete_error + delete_approval option" where
  "approve B ap i r first_seen now =
    (if \<not> may_sign ap first_seen now then Ok None
     else rbind (DeleteApproval_sign i (request_hash B r)) (\<lambda>a. Ok (Some a)))"

section \<open>The codecs\<close>

definition wf_scope :: "scope \<Rightarrow> bool" where
  "wf_scope s \<longleftrightarrow> from_utf8_ok (scope_path s) \<and> scope_check s = Ok ()"

definition wf_DeleteRequest :: "backend \<Rightarrow> delete_request \<Rightarrow> bool" where
  "wf_DeleteRequest B r \<longleftrightarrow> wf_scope (dr_scope r) \<and> from_utf8_ok (dr_reason r) \<and>
    arr (VK_SIZE B) (dr_requested_by r) \<and> arr 32 (dr_nonce r) \<and> arr (SIG_SIZE B) (dr_sig r)"

definition wf_DeleteApproval :: "backend \<Rightarrow> delete_approval \<Rightarrow> bool" where
  "wf_DeleteApproval B a \<longleftrightarrow> arr 32 (da_request_hash a) \<and> arr (VK_SIZE B) (da_approver_pk a) \<and>
    arr (SIG_SIZE B) (da_sig a)"

definition wf_DeleteExecution :: "backend \<Rightarrow> delete_execution \<Rightarrow> bool" where
  "wf_DeleteExecution B e \<longleftrightarrow> arr 32 (de_request_hash e) \<and> arr (VK_SIZE B) (de_executed_by e) \<and>
    arr (SIG_SIZE B) (de_sig e) \<and> list_all (wf_DeleteApproval B) (de_approvals e)"

lemma scope_decode_Inr_iff [result_elims]:
  "scope_decode tag path = Inr s \<longleftrightarrow> wf_scope s \<and> tag = scope_tag s \<and> path = scope_path s"
  by (cases s) (auto simp: scope_decode_def wf_scope_def result_elims split: if_splits)

interpretation delete_request: field_codec DeleteRequest_fields "DeleteRequest_of_fields B"
  "wf_DeleteRequest B" Decode
  for B
proof unfold_locales
  fix fs and r :: delete_request
  show "DeleteRequest_of_fields B fs = Inr r \<longleftrightarrow> wf_DeleteRequest B r \<and> DeleteRequest_fields r = fs"
  proof (cases "length fs = 6")
    case True
    then obtain a b c d e f where fs: "fs = [a, b, c, d, e, f]"
      by (auto simp: length_Suc_conv numeral_eq_Suc)
    show ?thesis
      unfolding fs DeleteRequest_of_fields_def DeleteRequest_fields_def wf_DeleteRequest_def
      by (cases r) (auto simp: result_elims length1_hd_eq)
  next
    case False
    then show ?thesis by (auto simp: DeleteRequest_of_fields_def DeleteRequest_fields_def)
  qed
qed

interpretation delete_approval: field_codec DeleteApproval_fields "DeleteApproval_of_fields B"
  "wf_DeleteApproval B" Decode
  for B
proof unfold_locales
  fix fs and a :: delete_approval
  show "DeleteApproval_of_fields B fs = Inr a \<longleftrightarrow> wf_DeleteApproval B a \<and> DeleteApproval_fields a = fs"
  proof (cases "length fs = 3")
    case True
    then obtain x y z where fs: "fs = [x, y, z]" by (auto simp: length_Suc_conv numeral_eq_Suc)
    show ?thesis
      unfolding fs DeleteApproval_of_fields_def DeleteApproval_fields_def wf_DeleteApproval_def
      by (cases a) (auto simp: result_elims)
  next
    case False
    then show ?thesis by (auto simp: DeleteApproval_of_fields_def DeleteApproval_fields_def)
  qed
qed

interpretation approval: codec DeleteApproval_encode "DeleteApproval_decode B" "wf_DeleteApproval B"
  for B
  unfolding DeleteApproval_encode_def DeleteApproval_decode_def by (rule delete_approval.codec_axioms)

text \<open>An execution nests the encoded approvals after its own three fields.\<close>

lemma execution_fields_iff:
  "DeleteExecution_of_fields B fs = Inr e \<longleftrightarrow>
    wf_DeleteExecution B e \<and> length (de_approvals e) \<le> MAX_APPROVALS \<and>
    (\<exists>as. traverse DeleteApproval_encode (de_approvals e) = Inr as \<and>
          fs = [de_request_hash e, de_executed_by e, de_sig e] @ as)"
proof (cases "length fs < 3")
  case True
  then show ?thesis by (auto simp: DeleteExecution_of_fields_def)
next
  case False
  then obtain a b c as where fs: "fs = [a, b, c] @ as"
    by (cases fs; cases "tl fs"; cases "tl (tl fs)") auto
  have len: "traverse DeleteApproval_encode xs = Inr as \<Longrightarrow> length xs = length as" for xs
    by (auto simp: traverse_Inr_iff dest: list_all2_lengthD)
  show ?thesis
    unfolding fs DeleteExecution_of_fields_def wf_DeleteExecution_def
    by (cases e) (auto simp: result_elims approval.traverse_iff dest: len)
qed

interpretation delete_execution: codec DeleteExecution_encode "DeleteExecution_decode B" "wf_DeleteExecution B"
  for B
proof unfold_locales
  fix bs e
  show "DeleteExecution_decode B bs = Inr e \<longleftrightarrow> wf_DeleteExecution B e \<and> DeleteExecution_encode e = Inr bs"
    by (auto simp: DeleteExecution_decode_def DeleteExecution_encode_def result_elims execution_fields_iff
        fields.dec_iff split: if_splits)
qed

section \<open>What the records bind\<close>

lemma verify_approvals_Inr_iff:
  "verify_approvals B rh as = Inr u \<longleftrightarrow>
    list_all (\<lambda>a. DeleteApproval_verify B a = Inr () \<and> da_request_hash a = rh) as"
  by (induction as) (auto simp: result_elims)

lemma check_bound_Inr_iff: "check_bound rh as = Inr u \<longleftrightarrow> list_all (\<lambda>a. da_request_hash a = rh) as"
  by (induction as) auto

lemma DeleteExecution_verify_Inr_iff:
  "DeleteExecution_verify B e = Inr u \<longleftrightarrow>
    list_all (\<lambda>a. DeleteApproval_verify B a = Inr () \<and> da_request_hash a = de_request_hash e) (de_approvals e) \<and>
    sig_check B (de_executed_by e) CtxDeleteExecution (de_request_hash e) (de_sig e) = Inr ()"
  by (auto simp: DeleteExecution_verify_def result_elims verify_approvals_Inr_iff)

text \<open>The execution's signature is over the request hash alone: it does not cover the approvals.\<close>

lemma execution_signature_ignores_approvals:
  "DeleteExecution_verify B e = Ok () \<Longrightarrow>
    list_all (\<lambda>a. DeleteApproval_verify B a = Ok () \<and> da_request_hash a = de_request_hash e) as \<Longrightarrow>
    DeleteExecution_verify B (e\<lparr>de_approvals := as\<rparr>) = Ok ()"
  by (simp add: DeleteExecution_verify_Inr_iff)

definition request_dom :: "backend \<Rightarrow> delete_request \<Rightarrow> bool" where
  "request_dom B r \<longleftrightarrow> wf_DeleteRequest B r \<and> field_ok (scope_path (dr_scope r)) \<and> field_ok (dr_reason r)"

lemma scope_eq: "scope_tag s = scope_tag t \<Longrightarrow> scope_path s = scope_path t \<Longrightarrow> s = t"
  by (cases s; cases t) auto

lemma request_preimage_inj:
  assumes "request_dom B r" "request_dom B s" "request_preimage r = request_preimage s"
  shows "r = s"
proof -
  have body: "encode_fields (request_body_fields (dr_scope q) (dr_reason q) (dr_nonce q)) =
      Ok (request_body (dr_scope q) (dr_reason q) (dr_nonce q))" if "request_dom B q" for q
    using that by (simp add: request_body_def expect_ok_def encode_fields_ok request_body_fields_def
        request_dom_def wf_DeleteRequest_def MAX_FIELD_def)
  have w: "length (dr_requested_by r) = length (dr_requested_by s)" "length (dr_sig r) = length (dr_sig s)"
    using assms(1,2) by (simp_all add: request_dom_def wf_DeleteRequest_def)
  have "request_body (dr_scope r) (dr_reason r) (dr_nonce r) = request_body (dr_scope s) (dr_reason s) (dr_nonce s)"
    and tail: "dr_requested_by r = dr_requested_by s" "dr_sig r = dr_sig s"
    using assms(3) w by (simp_all add: request_preimage_def append_eq_append_conv flip: append_assoc)
  then have "request_body_fields (dr_scope r) (dr_reason r) (dr_nonce r) =
      request_body_fields (dr_scope s) (dr_reason s) (dr_nonce s)"
    using body [OF assms(1)] body [OF assms(2)] fields.enc_inj by metis
  then show ?thesis using tail scope_eq by (simp add: request_body_fields_def)
qed

lemma DeleteApproval_sign_verifies:
  "sound_keypair B (id_kp i) \<Longrightarrow> DeleteApproval_sign i rh = Inr a \<Longrightarrow>
    DeleteApproval_verify B a = Inr () \<and> da_request_hash a = rh \<and> da_approver_pk a = verifying_key i"
  using sign_then_check by (fastforce simp: DeleteApproval_sign_def DeleteApproval_verify_def result_elims)

section \<open>Properties\<close>

text \<open>
  The three records of the deletion loop have one wire form each: the decoders accept exactly
  the encodings of well-formed requests (a path in UTF-8, present exactly when the scope needs one),
  approvals, and executions with at most 64 nested approvals.
\<close>

theorem delete_records_decode_iff:
  "(DeleteRequest_decode B bs = Ok r \<longleftrightarrow> wf_DeleteRequest B r \<and> DeleteRequest_encode r = Ok bs) \<and>
   (DeleteApproval_decode B bs = Ok a \<longleftrightarrow> wf_DeleteApproval B a \<and> DeleteApproval_encode a = Ok bs) \<and>
   (DeleteExecution_decode B bs = Ok e \<longleftrightarrow> wf_DeleteExecution B e \<and> DeleteExecution_encode e = Ok bs)"
  unfolding DeleteRequest_decode_def DeleteRequest_encode_def
  by (simp only: delete_request.dec_iff approval.dec_iff delete_execution.dec_iff)

text \<open>
  An approval counts for one request only: two well-formed requests that an approval could both
  name are the same request (scope, reason, requester, nonce and signature), unless BLAKE3 collides
  on their two preimages.
\<close>

theorem request_hash_binds_the_request:
  assumes "request_dom B r" "request_dom B s" "request_hash B r = request_hash B s"
  shows "r = s \<or> collision B (request_preimage r) (request_preimage s)"
  using assms request_preimage_inj by (auto simp: request_hash_def collision_def)

definition toy_request :: delete_request where
  "toy_request = \<lparr>dr_scope = Namespace, dr_reason = [], dr_requested_by = [1], dr_nonce = replicate 32 0,
     dr_sig = [1]\<rparr>"

theorem request_hash_binds_the_request_witness:
  "toy_request = toy_request \<or> collision toy_backend (request_preimage toy_request) (request_preimage toy_request)"
  by (rule request_hash_binds_the_request)
     (simp_all add: request_dom_def wf_DeleteRequest_def wf_scope_def toy_request_def MAX_FIELD_def)

text \<open>
  The cooling-off gate: an approver device signs only when its own clock has advanced by at least
  the cooling-off period since it first saw the request, and a clock that went backwards counts as
  no time at all; what it signs is a verifying approval of exactly this request.
\<close>

theorem approver_waits_out_cooling_off:
  assumes "approve B ap i r first_seen now = Ok (Some a)" and "sound_keypair B (id_kp i)"
  shows "unat (ap_cooling_off ap) \<le> unat now - unat first_seen \<and>
    DeleteApproval_verify B a = Ok () \<and> da_request_hash a = request_hash B r \<and>
    approver_id B a = Identity_id B i"
proof -
  have "may_sign ap first_seen now" and "DeleteApproval_sign i (request_hash B r) = Ok a"
    using assms(1) by (auto simp: approve_def result_elims split: if_splits)
  then show ?thesis
    using DeleteApproval_sign_verifies [OF assms(2)]
    by (auto simp: may_sign_def word_le_nat_alt unat_saturating_since approver_id_def Identity_id_def key_id_def)
qed

theorem approver_waits_out_cooling_off_witness:
  "unat (ap_cooling_off Approver_default) \<le> unat (700000 :: u64) - unat (0 :: u64) \<and>
   DeleteApproval_verify toy_backend \<lparr>da_request_hash = request_hash toy_backend toy_request,
     da_approver_pk = [2], da_sig = [2]\<rparr> = Ok ()"
proof -
  have "approve toy_backend Approver_default (toy_identity 2) toy_request 0 700000 =
      Ok (Some \<lparr>da_request_hash = request_hash toy_backend toy_request, da_approver_pk = [2], da_sig = [2]\<rparr>)"
    by (simp add: approve_def may_sign_def Approver_default_def saturating_since_def saturating_sub_def
        DeleteApproval_sign_def Identity_sign_def)
  from approver_waits_out_cooling_off [OF this] show ?thesis by simp
qed

end
