(* ===== verification/Quorum.thy ===== *)
theory Quorum
  imports Delete
begin

text \<open>
  \<open>nas-delete/src/policy.rs\<close>: the deletion authority and \<open>decide\<close>. The refusals that carry a rendered
  error message in the source carry the error value here. The main fact states exactly when an
  execution may proceed; its corollaries are the two claims of the crate's header, that the
  quorum is of distinct members of the authority and never the requester, and that splitting a
  deletion into many small ones does not escape the larger quorum.
\<close>

type_synonym authority = "hash32 btreeset"

definition Authority_new :: authority where
  "Authority_new = []"

definition Authority_add :: "backend \<Rightarrow> authority \<Rightarrow> bytes \<Rightarrow> authority \<times> hash32" where
  "Authority_add B au vk = (let i = key_id B vk in (bts_insert i au, i))"

definition Authority_contains :: "authority \<Rightarrow> hash32 \<Rightarrow> bool" where
  "Authority_contains au i \<longleftrightarrow> i \<in> set au"

definition Authority_is_empty :: "authority \<Rightarrow> bool" where
  "Authority_is_empty au \<longleftrightarrow> au = []"

record rolling_policy =
  rp_window :: u64
  rp_objects :: usize
  rp_escalate_to :: usize

record quorum_policy =
  qp_object :: usize
  qp_prefix :: usize
  qp_namespace :: usize
  qp_rolling :: rolling_policy

definition QuorumPolicy_default :: quorum_policy where
  "QuorumPolicy_default = \<lparr>qp_object = 1, qp_prefix = 2, qp_namespace = 3,
     qp_rolling = \<lparr>rp_window = 30 * 86400, rp_objects = 10, rp_escalate_to = 3\<rparr>\<rparr>"

fun base_quorum :: "quorum_policy \<Rightarrow> scope \<Rightarrow> usize" where
  "base_quorum p (Object _) = qp_object p"
| "base_quorum p (Prefix _) = qp_prefix p"
| "base_quorum p Namespace = qp_namespace p"

record executed =
  ex_at :: timestamp

datatype exec_fault = ExecError delete_error | DifferentRequest

datatype refusal =
    ShortOfQuorum (required: usize) (distinct_ids: usize) (escalated: bool)
  | BadApproval delete_error
  | BadRequest delete_error
  | BadExecution exec_fault
  | NotAnApprover hash32
  | NoAuthority
  | SelfApproved

datatype decision = Execute usize usize | Refused refusal

text \<open>The loop over the approvals: the distinct ids, or the first refusal.\<close>

fun count_approvers ::
  "backend \<Rightarrow> delete_request \<Rightarrow> authority \<Rightarrow> hash32 btreeset \<Rightarrow> delete_approval list
    \<Rightarrow> refusal + hash32 btreeset" where
  "count_approvers B r au ids [] = Ok ids"
| "count_approvers B r au ids (a # as) =
    (case DeleteApproval_verify B a of
       Inl e \<Rightarrow> Err (BadApproval e)
     | Inr _ \<Rightarrow>
         if approver_id B a = requester_id B r then Err SelfApproved
         else if \<not> Authority_contains au (approver_id B a) then Err (NotAnApprover (approver_id B a))
         else count_approvers B r au (bts_insert (approver_id B a) ids) as)"

definition in_window :: "executed list \<Rightarrow> quorum_policy \<Rightarrow> timestamp \<Rightarrow> usize" where
  "in_window recent policy now =
    length (filter (\<lambda>e. saturating_since now (ex_at e) < rp_window (qp_rolling policy)) recent)"

definition is_escalated :: "executed list \<Rightarrow> quorum_policy \<Rightarrow> timestamp \<Rightarrow> bool" where
  "is_escalated recent policy now \<longleftrightarrow> in_window recent policy now \<ge> rp_objects (qp_rolling policy)"

definition required_quorum :: "executed list \<Rightarrow> quorum_policy \<Rightarrow> timestamp \<Rightarrow> scope \<Rightarrow> usize" where
  "required_quorum recent policy now s =
    (if is_escalated recent policy now then max (base_quorum policy s) (rp_escalate_to (qp_rolling policy))
     else base_quorum policy s)"

definition decide ::
  "backend \<Rightarrow> delete_request \<Rightarrow> delete_execution \<Rightarrow> executed list \<Rightarrow> quorum_policy \<Rightarrow> authority
    \<Rightarrow> timestamp \<Rightarrow> decision" where
  "decide B request execution recent policy au now =
    (case DeleteRequest_verify B request of
       Inl e \<Rightarrow> Refused (BadRequest e)
     | Inr _ \<Rightarrow>
    (case DeleteExecution_verify B execution of
       Inl e \<Rightarrow> Refused (BadExecution (ExecError e))
     | Inr _ \<Rightarrow>
    if de_request_hash execution \<noteq> request_hash B request then Refused (BadExecution DifferentRequest)
    else if Authority_is_empty au then Refused NoAuthority
    else case count_approvers B request au [] (de_approvals execution) of
       Inl ref \<Rightarrow> Refused ref
     | Inr ids \<Rightarrow>
         let needed = required_quorum recent policy now (dr_scope request)
         in if length ids < needed
            then Refused (ShortOfQuorum needed (length ids) (is_escalated recent policy now))
            else Execute needed (length ids)))"

section \<open>The outcome of \<open>decide\<close>\<close>

definition counts :: "backend \<Rightarrow> delete_request \<Rightarrow> authority \<Rightarrow> delete_approval \<Rightarrow> bool" where
  "counts B r au a \<longleftrightarrow> DeleteApproval_verify B a = Ok () \<and> approver_id B a \<noteq> requester_id B r \<and>
    approver_id B a \<in> set au"

lemma count_approvers_Inr_iff:
  "count_approvers B r au ids as = Inr ids' \<longleftrightarrow>
    list_all (counts B r au) as \<and> ids' = fold bts_insert (map (approver_id B) as) ids"
proof (induction as arbitrary: ids)
  case Nil
  then show ?case by auto
next
  case (Cons a as)
  show ?case
    using Cons.IH [of "bts_insert (approver_id B a) ids"]
    by (auto simp: counts_def Authority_contains_def split: sum.split)
qed

lemma count_approvers_length:
  "count_approvers B r au [] as = Inr ids \<Longrightarrow> length ids = card (approver_id B ` set as)"
proof -
  assume "count_approvers B r au [] as = Inr ids"
  then have ids: "ids = bts_of_list (map (approver_id B) as)"
    by (simp add: count_approvers_Inr_iff bts_of_list_def)
  have "bts_inv ids" "set ids = approver_id B ` set as" by (simp_all add: ids)
  then show ?thesis by (simp add: bts.length_elems)
qed

lemma decide_Execute_iff:
  "decide B request execution recent policy au now = Execute needed n \<longleftrightarrow>
    DeleteRequest_verify B request = Ok () \<and> DeleteExecution_verify B execution = Ok () \<and>
    de_request_hash execution = request_hash B request \<and> au \<noteq> [] \<and>
    list_all (counts B request au) (de_approvals execution) \<and>
    needed = required_quorum recent policy now (dr_scope request) \<and>
    n = card (approver_id B ` set (de_approvals execution)) \<and> needed \<le> n"
proof (cases "count_approvers B request au [] (de_approvals execution)")
  case (Inl ref)
  then have "\<not> list_all (counts B request au) (de_approvals execution)"
    using count_approvers_Inr_iff [of B request au "[]" "de_approvals execution"] by auto
  with Inl show ?thesis by (auto simp: decide_def split: sum.split)
next
  case (Inr ids)
  then have "list_all (counts B request au) (de_approvals execution)"
    by (simp add: count_approvers_Inr_iff)
  with Inr count_approvers_length [OF Inr] show ?thesis
    by (auto simp: decide_def Let_def Authority_is_empty_def split: sum.split)
qed

text \<open>\<open>execution.verify\<close> has checked every approval before the loop does, so the loop's own check never fires.\<close>

lemma bad_approval_unreachable: "decide B request execution recent policy au now \<noteq> Refused (BadApproval e)"
proof -
  have "list_all (\<lambda>a. DeleteApproval_verify B a = Inr ()) as \<Longrightarrow>
      count_approvers B request au ids as \<noteq> Inl (BadApproval e)" for as ids
    by (induction as arbitrary: ids) (auto split: if_splits)
  then have "DeleteExecution_verify B execution = Inr u \<Longrightarrow>
      count_approvers B request au [] (de_approvals execution) \<noteq> Inl (BadApproval e)" for u
    by (auto simp: DeleteExecution_verify_Inr_iff list_all_iff)
  then show ?thesis by (auto simp: decide_def Let_def split: sum.splits)
qed

section \<open>Properties\<close>

text \<open>
  C35. Deletion needs its quorum: an execution proceeds exactly when the request and the execution verify
  and belong together, an authority is configured, every approval it carries verifies and comes from
  a member of the authority other than the requester, and the number of distinct approvers reaches
  what the scope and the recent volume require.
\<close>

theorem decide_executes_iff:
  "decide B request execution recent policy au now = Execute needed n \<longleftrightarrow>
    DeleteRequest_verify B request = Ok () \<and> DeleteExecution_verify B execution = Ok () \<and>
    de_request_hash execution = request_hash B request \<and> au \<noteq> [] \<and>
    list_all (counts B request au) (de_approvals execution) \<and>
    needed = required_quorum recent policy now (dr_scope request) \<and>
    n = card (approver_id B ` set (de_approvals execution)) \<and> needed \<le> n"
  by (rule decide_Execute_iff)

text \<open>
  The authority cannot be conjured: an execution that proceeds carries approvals of this very request
  under at least the required number of distinct keys of the authority, none of them the requester's,
  so holding the requesting device and any keys outside the authority is not enough.
\<close>

theorem execution_has_authority_quorum:
  assumes "decide B request execution recent policy au now = Execute needed n"
  shows "\<exists>S. S \<subseteq> set au - {requester_id B request} \<and> needed \<le> card S \<and>
    (\<forall>i \<in> S. \<exists>a \<in> set (de_approvals execution). key_id B (da_approver_pk a) = i \<and>
       sig_check B (da_approver_pk a) CtxDeleteApproval (request_hash B request) (da_sig a) = Ok ())"
proof -
  let ?as = "de_approvals execution"
  have ok: "list_all (counts B request au) ?as" "needed \<le> card (approver_id B ` set ?as)"
    and bound: "list_all (\<lambda>a. da_request_hash a = request_hash B request) ?as"
    using assms by (auto simp: decide_Execute_iff DeleteExecution_verify_Inr_iff list_all_iff)
  have each: "approver_id B a \<in> set au - {requester_id B request} \<and>
      sig_check B (da_approver_pk a) CtxDeleteApproval (request_hash B request) (da_sig a) = Ok ()"
    if "a \<in> set ?as" for a
    using ok(1) bound that
    by (auto simp: list_all_iff counts_def DeleteApproval_verify_def result_elims)
  then show ?thesis
    using ok(2) by (intro exI [of _ "approver_id B ` set ?as"]) (auto simp: approver_id_def)
qed

text \<open>
  Decomposition does not pay: once as many deletions as the rolling threshold lie inside the window
  (by the verifier's clock, with a clock that went backwards counting them as recent), every further
  execution needs at least the escalated quorum, whatever its scope; more history never lowers it.
\<close>

theorem rolling_window_escalates:
  assumes "decide B request execution recent policy au now = Execute needed n"
    and "rp_objects (qp_rolling policy) \<le>
      length (filter (\<lambda>e. unat now - unat (ex_at e) < unat (rp_window (qp_rolling policy))) recent)"
  shows "rp_escalate_to (qp_rolling policy) \<le> n \<and> base_quorum policy (dr_scope request) \<le> n \<and>
    required_quorum recent policy now s \<le> required_quorum (recent @ more_recent) policy now s"
proof -
  have "is_escalated recent policy now"
    using assms(2)
    by (simp add: is_escalated_def in_window_def word_less_nat_alt unat_saturating_since)
  moreover have "is_escalated (recent @ more_recent) policy now" if "is_escalated recent policy now"
    using that by (simp add: is_escalated_def in_window_def)
  ultimately show ?thesis
    using assms(1) by (auto simp: decide_Execute_iff required_quorum_def)
qed

section \<open>A concrete execution\<close>

definition toy_approval :: "u8 \<Rightarrow> delete_approval" where
  "toy_approval k = \<lparr>da_request_hash = request_hash toy_backend toy_request, da_approver_pk = [k], da_sig = [k]\<rparr>"

definition toy_execution :: delete_execution where
  "toy_execution = \<lparr>de_request_hash = request_hash toy_backend toy_request,
     de_approvals = map toy_approval [2, 3, 4], de_executed_by = [1], de_sig = [1]\<rparr>"

definition toy_authority :: authority where
  "toy_authority = bts_of_list (map (\<lambda>k. toy_hash [k]) [2, 3, 4])"

lemma toy_hash_single: "toy_hash [j] = toy_hash [k] \<longleftrightarrow> j = k"
  by (simp add: toy_hash_def)

lemma toy_decides:
  assumes "required_quorum recent policy now Namespace = 3"
  shows "decide toy_backend toy_request toy_execution recent policy toy_authority now = Execute 3 3"
proof -
  have ids: "approver_id toy_backend (toy_approval k) = toy_hash [k]" for k
    by (simp add: approver_id_def toy_approval_def key_id_def)
  have "list_all (counts toy_backend toy_request toy_authority) (de_approvals toy_execution)"
    using toy_hash_single
    by (simp add: counts_def ids toy_execution_def toy_authority_def requester_id_def key_id_def
        DeleteApproval_verify_def sig_check_def)
       (simp add: toy_approval_def toy_request_def)
  moreover have "card (approver_id toy_backend ` set (de_approvals toy_execution)) = 3"
    by (simp add: toy_execution_def ids toy_hash_single)
  moreover have "toy_authority \<noteq> []"
    unfolding toy_authority_def set_empty [symmetric] by simp
  moreover have "DeleteExecution_verify toy_backend toy_execution = Ok ()"
    by (simp add: DeleteExecution_verify_Inr_iff toy_execution_def toy_approval_def DeleteApproval_verify_def
        sig_check_def)
  moreover have "DeleteRequest_verify toy_backend toy_request = Ok ()"
    by (simp add: DeleteRequest_verify_def toy_request_def sig_check_def)
  ultimately show ?thesis using assms by (simp add: decide_Execute_iff toy_execution_def toy_request_def)
qed

definition toy_busy :: quorum_policy where
  "toy_busy = \<lparr>qp_object = 1, qp_prefix = 2, qp_namespace = 3,
     qp_rolling = \<lparr>rp_window = 100, rp_objects = 1, rp_escalate_to = 3\<rparr>\<rparr>"

lemma toy_quorum:
  "required_quorum [] QuorumPolicy_default 0 Namespace = 3"
  "required_quorum [\<lparr>ex_at = 7\<rparr>] toy_busy 50 Namespace = 3"
  by (simp_all add: required_quorum_def is_escalated_def in_window_def QuorumPolicy_default_def toy_busy_def)

theorem execution_has_authority_quorum_witness:
  "\<exists>S. S \<subseteq> set toy_authority - {requester_id toy_backend toy_request} \<and> 3 \<le> card S \<and>
    (\<forall>i \<in> S. \<exists>a \<in> set (de_approvals toy_execution). key_id toy_backend (da_approver_pk a) = i \<and>
       sig_check toy_backend (da_approver_pk a) CtxDeleteApproval (request_hash toy_backend toy_request)
         (da_sig a) = Ok ())"
  by (rule execution_has_authority_quorum [OF toy_decides [OF toy_quorum(1)]])

theorem rolling_window_escalates_witness:
  "rp_escalate_to (qp_rolling toy_busy) \<le> (3 :: nat) \<and> base_quorum toy_busy (dr_scope toy_request) \<le> 3 \<and>
    required_quorum [\<lparr>ex_at = 7\<rparr>] toy_busy 50 (Object [1]) \<le>
      required_quorum ([\<lparr>ex_at = 7\<rparr>] @ [\<lparr>ex_at = 9\<rparr>]) toy_busy 50 (Object [1])"
  by (rule rolling_window_escalates [OF toy_decides [OF toy_quorum(2)]]) (simp add: toy_busy_def)

end
