(* ===== verification/Peer.thy ===== *)
theory Peer
  imports Blob_Store Acl Checkpoint Witness Sweep Quorum "HOL-Library.Product_Lexorder"
begin

text \<open>
  \<open>nas-peer/src/peer.rs\<close> and the flags of \<open>hostile.rs\<close>: the storage peer, its tables, what it
  writes to disk and every operation on them, including the branches a hostile peer takes.

  A directory of files is a map from what its file names are made of (\<open>{seq}\<close>, \<open>{id}-{seq}\<close>,
  \<open>{at_seq}-{from}-{to}\<close>, all of them injective renderings) to their contents. Every write goes
  through a temporary file and a rename, so a failed write leaves the table as it was; \<open>io_write\<close> 0
  is the outcome of creating the directory, later numbers those of the writes in the call.
\<close>

section \<open>State\<close>

definition MAX_WITNESSES_PER_SLOT :: usize where "MAX_WITNESSES_PER_SLOT = 1024"
definition MAX_HANDOFFS_PER_SLOT :: usize where "MAX_HANDOFFS_PER_SLOT = 1024"
definition MAX_CHECKPOINTS_PER_SLOT :: usize where "MAX_CHECKPOINTS_PER_SLOT = 1024"
definition MAX_DELETE_REQUESTS :: usize where "MAX_DELETE_REQUESTS = 1024"

record hostility =
  tamper :: bool
  rollback :: bool
  withhold :: bool
  dedup_lie :: bool
  hfork :: bool
  ignore_retention :: bool
  withhold_witnesses :: bool

definition HONEST :: hostility where
  "HONEST = \<lparr>tamper = False, rollback = False, withhold = False, dedup_lie = False, hfork = False,
     ignore_retention = False, withhold_witnesses = False\<rparr>"

definition is_honest :: "hostility \<Rightarrow> bool" where
  "is_honest h = (h = HONEST)"

datatype peer_error =
    Store store_error
  | Io io_error
  | Slot record_error
  | NotRostered
  | Refused Acl.decision
  | CasConflict u64 u64
  | BrokenChain u64
  | ConcurrentWriter u64
  | RetentionHold addr
  | PeerMissing addr
  | WitnessErr witness_error
  | HandoffsFull slot_id
  | WitnessesFull slot_id
  | WitnessOnly
  | DeleteErr delete_error
  | UnknownRequest hash32
  | DeleteTrailFull
  | NotAnApprover hash32
  | TrailImmutable hash32
  | QuotaExceeded hash32 u64 u64
  | NoSuchBlob addr
  | CheckpointErr checkpoint_error
  | CheckpointsFull slot_id
  | HandoffErr handoff_error
  | RetentionShrink addr usize usize

type_synonym handoff_key = "u64 \<times> writer_id \<times> writer_id"

text \<open>
  A directory of records: the files under their names, here what the name is made of, and the files
  \<open>{name}.tmp\<close> that a write or a rename which failed, or a crash in between, has left behind. The
  temporary files beside the leases and the retention set are not part of the model: \<open>load\<close> asks lease
  files for a name of 64 hex digits and reads the one file \<open>retention\<close>.
\<close>

record 'k record_dir =
  dr_files :: "('k, bytes) btreemap"
  dr_tmp :: "('k, bytes) btreemap"

record peer_disk =
  dk_slots :: "(slot_id \<times> u64) record_dir"
  dk_witnesses :: "(slot_id \<times> hash32 \<times> u64) record_dir"
  dk_handoffs :: "(slot_id \<times> handoff_key) record_dir"
  dk_checkpoints :: "(slot_id \<times> u64 \<times> hash32) record_dir"
  dk_requests :: "hash32 record_dir"
  dk_approvals :: "(hash32 \<times> hash32) record_dir"
  dk_executions :: "hash32 record_dir"
  dk_leases :: "(hash32, bytes) btreemap"
  dk_retention :: "bytes option"

record peer =
  pe_mode :: mode
  pe_blobs :: blob_store
  pe_slots :: "(slot_id, (u64, slot_record) btreemap) btreemap"
  pe_forks :: "(slot_id, (u64, slot_record) btreemap) btreemap"
  pe_view :: u8
  pe_roster :: roster
  pe_acl :: acl
  pe_subjects :: "(bytes, bytes) btreemap"
  pe_retention :: "hash32 btreeset"
  pe_witnesses :: "(slot_id, (hash32 \<times> u64, witness) btreemap) btreemap"
  pe_handoffs :: "(slot_id, (handoff_key, slot_handoff) btreemap) btreemap"
  pe_delete_requests :: "(hash32, delete_request) btreemap"
  pe_delete_approvals :: "(hash32, (hash32, delete_approval) btreemap) btreemap"
  pe_delete_executions :: "(hash32, delete_execution \<times> timestamp) btreemap"
  pe_delete_authority :: authority
  pe_quorum :: quorum_policy
  pe_leases :: "(hash32, hash32 btreeset \<times> timestamp) btreemap"
  pe_gc_policy :: gc_policy
  pe_checkpoints :: "(slot_id, (u64 \<times> hash32, checkpoint) btreemap) btreemap"
  pe_witness_only :: bool
  pe_hostility :: hostility
  pe_disk :: peer_disk

definition HOLDER_DOMAIN :: bytes where
  "HOLDER_DOMAIN = byte_str ''nas-tools/holder/v1''"

definition holder_id :: "backend \<Rightarrow> bytes \<Rightarrow> hash32" where
  "holder_id B subject = blake3 B (HOLDER_DOMAIN @ subject)"

definition handoff_key_of :: "backend \<Rightarrow> slot_handoff \<Rightarrow> handoff_key" where
  "handoff_key_of B h = (sh_at_seq h, SlotHandoff_from B h, sh_to h)"

section \<open>Loading\<close>

text \<open>What a scan of a directory reads: temporary files are files like the others.\<close>

definition scan_dir :: "io_env \<Rightarrow> 'k record_dir \<Rightarrow> bytes list" where
  "scan_dir io d = io_listing io (map snd (dr_files d) @ map snd (dr_tmp d))"

definition load_slots :: "backend \<Rightarrow> io_env \<Rightarrow> peer_disk \<Rightarrow> (slot_id, (u64, slot_record) btreemap) btreemap" where
  "load_slots B io d = fold (\<lambda>bs m.
      case SlotRecord_decode B bs of
        Inl _ \<Rightarrow> m
      | Inr r \<Rightarrow> btm_upsert (sr_slot_id r) [] (btm_insert (sr_seq r) r) m) (scan_dir io (dk_slots d)) []"

definition load_handoffs ::
  "backend \<Rightarrow> io_env \<Rightarrow> peer_disk \<Rightarrow> (slot_id, (handoff_key, slot_handoff) btreemap) btreemap" where
  "load_handoffs B io d = fold (\<lambda>bs m.
      case SlotHandoff_decode B bs of
        Inl _ \<Rightarrow> m
      | Inr h \<Rightarrow> if is_err (SlotHandoff_verify B h) then m
                else btm_upsert (sh_slot_id h) [] (btm_insert (handoff_key_of B h) h) m) (scan_dir io (dk_handoffs d)) []"

definition load_checkpoints ::
  "backend \<Rightarrow> io_env \<Rightarrow> peer_disk \<Rightarrow> (slot_id, (u64 \<times> hash32, checkpoint) btreemap) btreemap" where
  "load_checkpoints B io d = fold (\<lambda>bs m.
      case Checkpoint_decode B bs of
        Inl _ \<Rightarrow> m
      | Inr c \<Rightarrow> if is_err (Checkpoint_verify_self B c) then m
                else btm_upsert (cp_slot_id c) [] (btm_insert (cp_seq c, checkpoint_hash B c) c) m)
      (scan_dir io (dk_checkpoints d)) []"

definition load_requests :: "backend \<Rightarrow> io_env \<Rightarrow> peer_disk \<Rightarrow> (hash32, delete_request) btreemap" where
  "load_requests B io d = fold (\<lambda>bs m.
      case DeleteRequest_decode B bs of
        Inl _ \<Rightarrow> m
      | Inr r \<Rightarrow> if is_err (DeleteRequest_verify B r) then m else btm_insert (request_hash B r) r m)
      (scan_dir io (dk_requests d)) []"

definition load_approvals ::
  "backend \<Rightarrow> io_env \<Rightarrow> peer_disk \<Rightarrow> (hash32, (hash32, delete_approval) btreemap) btreemap" where
  "load_approvals B io d = fold (\<lambda>bs m.
      case DeleteApproval_decode B bs of
        Inl _ \<Rightarrow> m
      | Inr a \<Rightarrow> if is_err (DeleteApproval_verify B a) then m
                else btm_upsert (da_request_hash a) [] (btm_insert (approver_id B a) a) m)
      (scan_dir io (dk_approvals d)) []"

definition load_executions :: "backend \<Rightarrow> io_env \<Rightarrow> peer_disk \<Rightarrow> (hash32, delete_execution \<times> timestamp) btreemap" where
  "load_executions B io d = fold (\<lambda>bs m.
      if length bs < 8 then m
      else case DeleteExecution_decode B (drop 8 bs) of
             Inl _ \<Rightarrow> m
           | Inr e \<Rightarrow> if is_err (DeleteExecution_verify B e) then m
                     else btm_insert (de_request_hash e) (e, u64_of_le (take 8 bs)) m)
      (scan_dir io (dk_executions d)) []"

definition load_leases :: "peer_disk \<Rightarrow> (hash32, hash32 btreeset \<times> timestamp) btreemap" where
  "load_leases d = fold (\<lambda>(holder, bs) m.
      if length bs < 8 then m
      else btm_insert holder (fold bts_insert (chunks_exact 32 (drop 8 bs)) [], u64_of_le (take 8 bs)) m)
      (dk_leases d) []"

definition load_retention :: "peer_disk \<Rightarrow> hash32 btreeset" where
  "load_retention d =
    (case dk_retention d of None \<Rightarrow> [] | Some bs \<Rightarrow> fold bts_insert (chunks_exact 32 bs) [])"

definition load_witnesses ::
  "backend \<Rightarrow> io_env \<Rightarrow> peer_disk \<Rightarrow> (slot_id, (hash32 \<times> u64, witness) btreemap) btreemap" where
  "load_witnesses B io d = fold (\<lambda>bs m.
      case Witness_decode B bs of
        Inl _ \<Rightarrow> m
      | Inr w \<Rightarrow> if is_err (Witness_verify B w) then m
                else btm_upsert (wt_slot_id w) [] (btm_insert (witness_id B w, wt_seq w) w) m)
      (scan_dir io (dk_witnesses d)) []"

text \<open>A directory or file that cannot be read is skipped, so with failing reads nothing is loaded.\<close>

definition Peer_load :: "backend \<Rightarrow> io_env \<Rightarrow> peer \<Rightarrow> peer" where
  "Peer_load B io p =
    (if io_read io \<noteq> None then p
     else let d = pe_disk p in
       p\<lparr>pe_slots := load_slots B io d, pe_handoffs := load_handoffs B io d,
         pe_checkpoints := load_checkpoints B io d, pe_delete_requests := load_requests B io d,
         pe_delete_approvals := load_approvals B io d, pe_delete_executions := load_executions B io d,
         pe_leases := load_leases d, pe_retention := load_retention d,
         pe_witnesses := load_witnesses B io d\<rparr>)"

definition empty_dir :: "'k record_dir" where
  "empty_dir = \<lparr>dr_files = [], dr_tmp = []\<rparr>"

definition empty_disk :: peer_disk where
  "empty_disk = \<lparr>dk_slots = empty_dir, dk_witnesses = empty_dir, dk_handoffs = empty_dir, dk_checkpoints = empty_dir,
     dk_requests = empty_dir, dk_approvals = empty_dir, dk_executions = empty_dir, dk_leases = [], dk_retention = None\<rparr>"

definition Peer_open ::
  "backend \<Rightarrow> io_env \<Rightarrow> mode \<Rightarrow> addressing \<Rightarrow> hostility \<Rightarrow> (addr, blob_file) btreemap \<Rightarrow> peer_disk
    \<Rightarrow> peer_error + peer" where
  "Peer_open B io md ad h files disk =
    (case io_write io 0 of
       Some e \<Rightarrow> Err (Io e)
     | None \<Rightarrow>
    (case io_write io 1 of
       Some e \<Rightarrow> Err (Store (StoreIo e))
     | None \<Rightarrow> Ok (Peer_load B io
        \<lparr>pe_mode = md, pe_blobs = BlobStore_open_with ad files, pe_slots = [], pe_forks = [],
         pe_view = 0, pe_roster = Roster_new, pe_acl = Acl_new, pe_subjects = [], pe_retention = [],
         pe_witnesses = [], pe_handoffs = [], pe_delete_requests = [], pe_delete_approvals = [],
         pe_delete_executions = [], pe_delete_authority = Authority_new,
         pe_quorum = QuorumPolicy_default, pe_leases = [], pe_gc_policy = GcPolicy_default,
         pe_checkpoints = [], pe_witness_only = False, pe_hostility = h, pe_disk = disk\<rparr>)))"

section \<open>Persisting\<close>

text \<open>
  Create the directory, encode, write \<open>{name}.tmp\<close> and rename it. Nothing removes the temporary file
  when a step fails.
\<close>

definition file_tmp :: "'k::linorder \<Rightarrow> bytes \<Rightarrow> 'k record_dir \<Rightarrow> 'k record_dir" where
  "file_tmp k bs d = d\<lparr>dr_tmp := btm_insert k bs (dr_tmp d)\<rparr>"

definition file_record :: "'k::linorder \<Rightarrow> bytes \<Rightarrow> 'k record_dir \<Rightarrow> 'k record_dir" where
  "file_record k bs d = d\<lparr>dr_files := btm_insert k bs (dr_files d), dr_tmp := btm_remove k (dr_tmp d)\<rparr>"

definition persist_file ::
  "io_env \<Rightarrow> peer_error + bytes \<Rightarrow> 'k::linorder \<Rightarrow> 'k record_dir \<Rightarrow> 'k record_dir \<times> (peer_error + unit)" where
  "persist_file io enc k d =
    (case io_write io 0 of
       Some e \<Rightarrow> (d, Err (Io e))
     | None \<Rightarrow>
    (case enc of
       Inl e \<Rightarrow> (d, Err e)
     | Inr bs \<Rightarrow>
    (case io_write io 1 of
       Some e \<Rightarrow> (case io_torn io of None \<Rightarrow> d | Some n \<Rightarrow> file_tmp k (take n bs) d, Err (Io e))
     | None \<Rightarrow>
    (case io_write io 2 of
       Some e \<Rightarrow> (file_tmp k bs d, Err (Io e))
     | None \<Rightarrow> (file_record k bs d, Ok ())))))"

definition persist_witness :: "backend \<Rightarrow> io_env \<Rightarrow> peer_disk \<Rightarrow> witness \<Rightarrow> (slot_id \<times> hash32 \<times> u64) record_dir \<times> (peer_error + unit)" where
  "persist_witness B io d w =
    persist_file io (map_err WitnessErr (Witness_encode w))
             (wt_slot_id w, witness_id B w, wt_seq w) (dk_witnesses d)"

definition persist_handoff :: "backend \<Rightarrow> io_env \<Rightarrow> peer_disk \<Rightarrow> slot_handoff \<Rightarrow> (slot_id \<times> handoff_key) record_dir \<times> (peer_error + unit)" where
  "persist_handoff B io d h =
    persist_file io (map_err HandoffErr (SlotHandoff_encode h))
             (sh_slot_id h, handoff_key_of B h) (dk_handoffs d)"

definition persist_checkpoint :: "backend \<Rightarrow> io_env \<Rightarrow> peer_disk \<Rightarrow> checkpoint \<Rightarrow> (slot_id \<times> u64 \<times> hash32) record_dir \<times> (peer_error + unit)" where
  "persist_checkpoint B io d c =
    persist_file io (map_err CheckpointErr (Checkpoint_encode c))
             (cp_slot_id c, cp_seq c, checkpoint_hash B c) (dk_checkpoints d)"

definition persist_slot :: "io_env \<Rightarrow> peer_disk \<Rightarrow> slot_record \<Rightarrow> (slot_id \<times> u64) record_dir \<times> (peer_error + unit)" where
  "persist_slot io d r =
    persist_file io (map_err Slot (SlotRecord_encode r)) (sr_slot_id r, sr_seq r) (dk_slots d)"

text \<open>The contents of a holder's lease file, and of the retention file.\<close>

definition lease_file :: "hash32 btreeset \<Rightarrow> timestamp \<Rightarrow> bytes" where
  "lease_file s seen = u64_le seen @ concat s"

fun write_leases ::
  "io_env \<Rightarrow> nat \<Rightarrow> (hash32, hash32 btreeset \<times> timestamp) btreemap \<Rightarrow> (hash32, bytes) btreemap
    \<Rightarrow> (hash32, bytes) btreemap \<times> (peer_error + unit)" where
  "write_leases io n [] files = (files, Ok ())"
| "write_leases io n ((holder, s, seen) # ls) files =
    (case io_write io n of
       Some e \<Rightarrow> (files, Err (Io e))
     | None \<Rightarrow> write_leases io (Suc n) ls (btm_insert holder (lease_file s seen) files))"

definition persist_leases :: "io_env \<Rightarrow> peer \<Rightarrow> peer \<times> (peer_error + unit)" where
  "persist_leases io p =
    (case io_write io 0 of
       Some e \<Rightarrow> (p, Err (Io e))
     | None \<Rightarrow>
         (case write_leases io 1 (pe_leases p) (dk_leases (pe_disk p)) of (files, r) \<Rightarrow>
            (p\<lparr>pe_disk := (pe_disk p)\<lparr>dk_leases := files\<rparr>\<rparr>, r)))"

definition persist_retention :: "io_env \<Rightarrow> peer \<Rightarrow> peer \<times> (peer_error + unit)" where
  "persist_retention io p =
    (case io_write io 1 of
       Some e \<Rightarrow> (p, Err (Io e))
     | None \<Rightarrow> (p\<lparr>pe_disk := (pe_disk p)\<lparr>dk_retention := Some (concat (pe_retention p))\<rparr>\<rparr>, Ok ()))"

text \<open>The new file of a table together with the table in memory, and the forked branches.\<close>

definition put_requests ::
  "peer \<Rightarrow> hash32 record_dir \<Rightarrow> (hash32, delete_request) btreemap \<Rightarrow> peer" where
  "put_requests p files m = p\<lparr>pe_disk := (pe_disk p)\<lparr>dk_requests := files\<rparr>, pe_delete_requests := m\<rparr>"

definition put_approvals ::
  "peer \<Rightarrow> (hash32 \<times> hash32) record_dir \<Rightarrow> (hash32, (hash32, delete_approval) btreemap) btreemap \<Rightarrow> peer" where
  "put_approvals p files m = p\<lparr>pe_disk := (pe_disk p)\<lparr>dk_approvals := files\<rparr>, pe_delete_approvals := m\<rparr>"

definition put_executions ::
  "peer \<Rightarrow> hash32 record_dir \<Rightarrow> (hash32, delete_execution \<times> timestamp) btreemap \<Rightarrow> peer" where
  "put_executions p files m = p\<lparr>pe_disk := (pe_disk p)\<lparr>dk_executions := files\<rparr>, pe_delete_executions := m\<rparr>"

definition put_witnesses ::
  "peer \<Rightarrow> (slot_id \<times> hash32 \<times> u64) record_dir \<Rightarrow> (slot_id, (hash32 \<times> u64, witness) btreemap) btreemap \<Rightarrow> peer" where
  "put_witnesses p files m = p\<lparr>pe_disk := (pe_disk p)\<lparr>dk_witnesses := files\<rparr>, pe_witnesses := m\<rparr>"

definition put_handoffs ::
  "peer \<Rightarrow> (slot_id \<times> handoff_key) record_dir \<Rightarrow> (slot_id, (handoff_key, slot_handoff) btreemap) btreemap \<Rightarrow> peer" where
  "put_handoffs p files m = p\<lparr>pe_disk := (pe_disk p)\<lparr>dk_handoffs := files\<rparr>, pe_handoffs := m\<rparr>"

definition put_checkpoints ::
  "peer \<Rightarrow> (slot_id \<times> u64 \<times> hash32) record_dir \<Rightarrow> (slot_id, (u64 \<times> hash32, checkpoint) btreemap) btreemap \<Rightarrow> peer" where
  "put_checkpoints p files m = p\<lparr>pe_disk := (pe_disk p)\<lparr>dk_checkpoints := files\<rparr>, pe_checkpoints := m\<rparr>"

definition put_slots ::
  "peer \<Rightarrow> (slot_id \<times> u64) record_dir \<Rightarrow> (slot_id, (u64, slot_record) btreemap) btreemap \<Rightarrow> peer" where
  "put_slots p files m = p\<lparr>pe_disk := (pe_disk p)\<lparr>dk_slots := files\<rparr>, pe_slots := m\<rparr>"

definition put_forks :: "peer \<Rightarrow> slot_id \<Rightarrow> (u64, slot_record) btreemap \<Rightarrow> peer" where
  "put_forks p slot alt = p\<lparr>pe_forks := btm_insert slot alt (pe_forks p)\<rparr>"

lemmas put_defs =
  put_requests_def put_approvals_def put_executions_def put_witnesses_def put_handoffs_def
  put_checkpoints_def put_slots_def put_forks_def

section \<open>The witness relay\<close>

definition publish_witness :: "backend \<Rightarrow> io_env \<Rightarrow> peer \<Rightarrow> witness \<Rightarrow> peer \<times> (peer_error + unit)" where
  "publish_witness B io p w =
    (case Witness_verify B w of
       Inl e \<Rightarrow> (p, Err (WitnessErr e))
     | Inr _ \<Rightarrow>
       let key = (witness_id B w, wt_seq w)
       in if (case btm_get (pe_witnesses p) (wt_slot_id w) of
                None \<Rightarrow> False
              | Some m \<Rightarrow> btm_get m key = None \<and> MAX_WITNESSES_PER_SLOT \<le> length m)
          then (p, Err (WitnessesFull (wt_slot_id w)))
          else case persist_witness B io (pe_disk p) w of
                 (files, Inl e) \<Rightarrow> (put_witnesses p files (pe_witnesses p), Err e)
               | (files, Inr _) \<Rightarrow> (put_witnesses p files
                   (btm_upsert (wt_slot_id w) [] (btm_insert key w) (pe_witnesses p)), Ok ()))"

definition opt_values :: "('k, 'v) btreemap option \<Rightarrow> 'v list" where
  "opt_values m = (case m of None \<Rightarrow> [] | Some m \<Rightarrow> map snd m)"

definition Peer_witnesses :: "peer \<Rightarrow> slot_id \<Rightarrow> witness list" where
  "Peer_witnesses p slot =
    (if withhold_witnesses (pe_hostility p) then [] else opt_values (btm_get (pe_witnesses p) slot))"

section \<open>The deletion trail\<close>

definition publish_delete_request ::
  "backend \<Rightarrow> io_env \<Rightarrow> peer \<Rightarrow> delete_request \<Rightarrow> peer \<times> (peer_error + hash32)" where
  "publish_delete_request B io p r =
    (case DeleteRequest_verify B r of
       Inl e \<Rightarrow> (p, Err (DeleteErr e))
     | Inr _ \<Rightarrow>
       let h = request_hash B r
       in case btm_get (pe_delete_requests p) h of
            Some held \<Rightarrow> (p, if held = r then Ok h else Err (TrailImmutable h))
          | None \<Rightarrow>
              if MAX_DELETE_REQUESTS \<le> length (pe_delete_requests p) then (p, Err DeleteTrailFull)
              else case DeleteRequest_encode r of
                     Inl e \<Rightarrow> (p, Err (DeleteErr e))
                   | Inr bs \<Rightarrow>
                       (case persist_file io (Ok bs) h (dk_requests (pe_disk p)) of
                          (files, Inl e) \<Rightarrow> (put_requests p files (pe_delete_requests p), Err e)
                        | (files, Inr _) \<Rightarrow> (put_requests p files (btm_insert h r (pe_delete_requests p)), Ok h)))"

definition publish_delete_approval ::
  "backend \<Rightarrow> io_env \<Rightarrow> peer \<Rightarrow> delete_approval \<Rightarrow> peer \<times> (peer_error + unit)" where
  "publish_delete_approval B io p a =
    (case DeleteApproval_verify B a of
       Inl e \<Rightarrow> (p, Err (DeleteErr e))
     | Inr _ \<Rightarrow>
       if btm_get (pe_delete_requests p) (da_request_hash a) = None
       then (p, Err (UnknownRequest (da_request_hash a)))
       else let i = approver_id B a
         in if \<not> Authority_contains (pe_delete_authority p) i then (p, Err (NotAnApprover i))
            else if (case btm_get (pe_delete_approvals p) (da_request_hash a) of
                       None \<Rightarrow> False | Some m \<Rightarrow> btm_get m i \<noteq> None)
            then (p, Ok ())
            else case DeleteApproval_encode a of
                   Inl e \<Rightarrow> (p, Err (DeleteErr e))
                 | Inr bs \<Rightarrow>
                     (case persist_file io (Ok bs) (da_request_hash a, i) (dk_approvals (pe_disk p)) of
                        (files, Inl e) \<Rightarrow> (put_approvals p files (pe_delete_approvals p), Err e)
                      | (files, Inr _) \<Rightarrow> (put_approvals p files
                          (btm_upsert (da_request_hash a) [] (btm_insert i a) (pe_delete_approvals p)), Ok ())))"

definition delete_approvals_for :: "peer \<Rightarrow> hash32 \<Rightarrow> delete_approval list" where
  "delete_approvals_for p rh = opt_values (btm_get (pe_delete_approvals p) rh)"

definition Peer_delete_request :: "peer \<Rightarrow> hash32 \<Rightarrow> delete_request option" where
  "Peer_delete_request p rh = btm_get (pe_delete_requests p) rh"

definition Peer_executed :: "peer \<Rightarrow> executed list" where
  "Peer_executed p = map (\<lambda>(_, _, at). \<lparr>ex_at = at\<rparr>) (pe_delete_executions p)"

definition execute_delete ::
  "backend \<Rightarrow> io_env \<Rightarrow> peer \<Rightarrow> delete_execution \<Rightarrow> timestamp \<Rightarrow> peer \<times> (peer_error + Quorum.decision)" where
  "execute_delete B io p e now =
    (case DeleteExecution_verify B e of
       Inl er \<Rightarrow> (p, Err (DeleteErr er))
     | Inr _ \<Rightarrow>
       (case btm_get (pe_delete_requests p) (de_request_hash e) of
          None \<Rightarrow> (p, Err (UnknownRequest (de_request_hash e)))
        | Some request \<Rightarrow>
          let d = decide B request e (Peer_executed p) (pe_quorum p) (pe_delete_authority p) now
          in case d of
               Quorum.Refused _ \<Rightarrow> (p, Ok d)
             | Execute _ _ \<Rightarrow>
                 if btm_get (pe_delete_executions p) (de_request_hash e) \<noteq> None then (p, Ok d)
                 else case DeleteExecution_encode e of
                        Inl er \<Rightarrow> (p, Err (DeleteErr er))
                      | Inr bs \<Rightarrow>
                          (case persist_file io (Ok (u64_le now @ bs)) (de_request_hash e) (dk_executions (pe_disk p)) of
                             (files, Inl er) \<Rightarrow> (put_executions p files (pe_delete_executions p), Err er)
                           | (files, Inr _) \<Rightarrow> (put_executions p files
                               (btm_insert (de_request_hash e) (e, now) (pe_delete_executions p)), Ok d))))"

section \<open>Leases\<close>

definition Peer_inventory :: "io_env \<Rightarrow> peer \<Rightarrow> peer_error + blob_info list" where
  "Peer_inventory io p =
    (case io_read io of
       Some e \<Rightarrow> Err (Store (StoreIo e))
     | None \<Rightarrow> Ok (map (\<lambda>(a, f). \<lparr>bi_addr = a, bi_size = of_nat (length (bf_bytes f)),
                   bi_uploaded_at = bf_mtime f\<rparr>) (bs_files (pe_blobs p))))"

definition blob_sizes :: "io_env \<Rightarrow> peer \<Rightarrow> peer_error + (hash32, u64) btreemap" where
  "blob_sizes io p = rbind (Peer_inventory io p) (\<lambda>blobs.
    Ok (fold (\<lambda>b m. btm_insert (bi_addr b) (bi_size b) m) blobs []))"

definition sum_sizes :: "(hash32, u64) btreemap \<Rightarrow> hash32 btreeset \<Rightarrow> u64" where
  "sum_sizes sizes s = fold (\<lambda>n acc. saturating_add acc n) (List.map_filter (btm_get sizes) s) 0"

definition take_lease ::
  "io_env \<Rightarrow> peer \<Rightarrow> hash32 \<Rightarrow> addr list \<Rightarrow> timestamp \<Rightarrow> peer \<times> (peer_error + u64)" where
  "take_lease io p holder addrs now =
    (case find (\<lambda>a. \<not> BlobStore_has (pe_blobs p) a) addrs of
       Some a \<Rightarrow> (p, Err (NoSuchBlob a))
     | None \<Rightarrow>
       (case blob_sizes io p of
          Inl e \<Rightarrow> (p, Err e)
        | Inr sizes \<Rightarrow>
          let held = (case btm_get (pe_leases p) holder of None \<Rightarrow> [] | Some (s, _) \<Rightarrow> s);
              would = fold bts_insert addrs held;
              n = sum_sizes sizes would
          in if gp_max_leased_bytes (pe_gc_policy p) < n
             then (p, Err (QuotaExceeded holder n (gp_max_leased_bytes (pe_gc_policy p))))
             else case persist_leases io (p\<lparr>pe_leases := btm_insert holder (would, now) (pe_leases p)\<rparr>) of
                    (p', r) \<Rightarrow> (p', rbind r (\<lambda>_. Ok n))))"

definition release_lease ::
  "io_env \<Rightarrow> peer \<Rightarrow> hash32 \<Rightarrow> addr list \<Rightarrow> timestamp \<Rightarrow> peer \<times> (peer_error + unit)" where
  "release_lease io p holder addrs now =
    persist_leases io
      (case btm_get (pe_leases p) holder of
         None \<Rightarrow> p
       | Some (s, _) \<Rightarrow> p\<lparr>pe_leases := btm_insert holder (fold bts_remove addrs s, now) (pe_leases p)\<rparr>)"

definition leases_of :: "peer \<Rightarrow> hash32 \<Rightarrow> addr list" where
  "leases_of p holder = (case btm_get (pe_leases p) holder of None \<Rightarrow> [] | Some (s, _) \<Rightarrow> s)"

definition Peer_holders :: "peer \<Rightarrow> holder list" where
  "Peer_holders p = map (\<lambda>(i, s, seen). \<lparr>ho_id = i, ho_set = LeaseSet_from_addrs s, ho_last_seen = seen\<rparr>)
    (pe_leases p)"

definition sweep_warnings :: "io_env \<Rightarrow> peer \<Rightarrow> hash32 \<Rightarrow> timestamp \<Rightarrow> peer_error + addr list" where
  "sweep_warnings io p holder now =
    rbind (Peer_inventory io p) (\<lambda>blobs.
    Ok (case btm_get (sp_warnings (plan_sweep blobs (Peer_holders p) (pe_retention p) (pe_gc_policy p) now)) holder of
          None \<Rightarrow> [] | Some v \<Rightarrow> v))"

section \<open>Checkpoints and handoffs\<close>

definition publish_checkpoint :: "backend \<Rightarrow> io_env \<Rightarrow> peer \<Rightarrow> checkpoint \<Rightarrow> peer \<times> (peer_error + unit)" where
  "publish_checkpoint B io p c =
    (case Roster_get (pe_roster p) (Checkpoint_writer_id B c) of
       None \<Rightarrow> (p, Err NotRostered)
     | Some vk \<Rightarrow>
       (case Checkpoint_verify B c vk of
          Inl e \<Rightarrow> (p, Err (CheckpointErr e))
        | Inr _ \<Rightarrow>
          let key = (cp_seq c, checkpoint_hash B c);
              held = btm_get (pe_checkpoints p) (cp_slot_id c)
          in if (case held of None \<Rightarrow> False | Some cs \<Rightarrow> btm_get cs key \<noteq> None) then (p, Ok ())
             else if (case held of None \<Rightarrow> False | Some cs \<Rightarrow> MAX_CHECKPOINTS_PER_SLOT \<le> length cs)
             then (p, Err (CheckpointsFull (cp_slot_id c)))
             else case persist_checkpoint B io (pe_disk p) c of
                    (files, Inl e) \<Rightarrow> (put_checkpoints p files (pe_checkpoints p), Err e)
                  | (files, Inr _) \<Rightarrow> (put_checkpoints p files
                   (btm_upsert (cp_slot_id c) [] (btm_insert key c) (pe_checkpoints p)), Ok ())))"

text \<open>\<open>BTreeMap::range\<close> with an inclusive lower bound.\<close>

definition btm_from :: "'k::linorder \<Rightarrow> ('k, 'v) btreemap \<Rightarrow> ('k, 'v) btreemap" where
  "btm_from k m = filter (\<lambda>(j, _). k \<le> j) m"

definition Peer_checkpoints :: "peer \<Rightarrow> slot_id \<Rightarrow> u64 \<Rightarrow> checkpoint list" where
  "Peer_checkpoints p slot lower =
    (case btm_get (pe_checkpoints p) slot of
       None \<Rightarrow> [] | Some cs \<Rightarrow> map snd (btm_from (lower, ZERO32) cs))"

definition publish_handoff :: "backend \<Rightarrow> io_env \<Rightarrow> peer \<Rightarrow> slot_handoff \<Rightarrow> peer \<times> (peer_error + unit)" where
  "publish_handoff B io p h =
    (case SlotHandoff_verify B h of
       Inl e \<Rightarrow> (p, Err (HandoffErr e))
     | Inr _ \<Rightarrow>
       let key = handoff_key_of B h; held = btm_get (pe_handoffs p) (sh_slot_id h)
       in if (case held of None \<Rightarrow> False | Some hs \<Rightarrow> btm_get hs key \<noteq> None) then (p, Ok ())
          else if (case held of None \<Rightarrow> False | Some hs \<Rightarrow> MAX_HANDOFFS_PER_SLOT \<le> length hs)
          then (p, Err (HandoffsFull (sh_slot_id h)))
          else case persist_handoff B io (pe_disk p) h of
                 (files, Inl e) \<Rightarrow> (put_handoffs p files (pe_handoffs p), Err e)
               | (files, Inr _) \<Rightarrow> (put_handoffs p files
                   (btm_upsert (sh_slot_id h) [] (btm_insert key h) (pe_handoffs p)), Ok ()))"

definition Peer_handoffs :: "peer \<Rightarrow> slot_id \<Rightarrow> slot_handoff list" where
  "Peer_handoffs p slot = opt_values (btm_get (pe_handoffs p) slot)"

section \<open>Subjects and views\<close>

definition bind_subject :: "peer \<Rightarrow> bytes \<Rightarrow> bytes \<Rightarrow> peer" where
  "bind_subject p vk subject = p\<lparr>pe_subjects := btm_insert vk subject (pe_subjects p)\<rparr>"

definition subject_for :: "peer \<Rightarrow> bytes \<Rightarrow> bytes option" where
  "subject_for p vk = btm_get (pe_subjects p) vk"

definition set_view :: "peer \<Rightarrow> u8 \<Rightarrow> peer" where
  "set_view p v = p\<lparr>pe_view := v\<rparr>"

definition branch :: "peer \<Rightarrow> slot_id \<Rightarrow> (u64, slot_record) btreemap option" where
  "branch p slot =
    (if hfork (pe_hostility p) \<and> pe_view p \<noteq> 0 \<and> btm_get (pe_forks p) slot \<noteq> None
     then btm_get (pe_forks p) slot else btm_get (pe_slots p) slot)"

section \<open>Blobs\<close>

definition put_blob :: "backend \<Rightarrow> io_env \<Rightarrow> peer \<Rightarrow> bytes \<Rightarrow> peer \<times> (peer_error + addr)" where
  "put_blob B io p bs =
    (case BlobStore_put B io (pe_blobs p) bs of (st, r) \<Rightarrow> (p\<lparr>pe_blobs := st\<rparr>, map_err Store r))"

definition get_blob :: "backend \<Rightarrow> io_env \<Rightarrow> peer \<Rightarrow> addr \<Rightarrow> peer_error + bytes" where
  "get_blob B io p a =
    (if withhold (pe_hostility p) then Err (PeerMissing a)
     else rbind (map_err Store (BlobStore_get B io (pe_blobs p) a)) (\<lambda>bs.
          if tamper (pe_hostility p) \<and> bs \<noteq> []
          then let n = length bs div 2 in Ok (bs[n := xor (bs ! n) 0xFF])
          else Ok bs))"

definition has_blob :: "peer \<Rightarrow> addr \<Rightarrow> bool" where
  "has_blob p a = (dedup_lie (pe_hostility p) \<or> BlobStore_has (pe_blobs p) a)"

definition Peer_prove :: "backend \<Rightarrow> io_env \<Rightarrow> peer \<Rightarrow> addr \<Rightarrow> bytes \<Rightarrow> peer \<times> (peer_error + hash32)" where
  "Peer_prove B io p a nonce =
    (case BlobStore_prove B io (pe_blobs p) a nonce of (st, r) \<Rightarrow> (p\<lparr>pe_blobs := st\<rparr>, map_err Store r))"

section \<open>Slots\<close>

text \<open>The last key of a history, and the records below a sequence number.\<close>

definition last_key :: "(u64, slot_record) btreemap \<Rightarrow> u64 option" where
  "last_key m = (if m = [] then None else Some (fst (last m)))"

definition below :: "u64 \<Rightarrow> (u64, slot_record) btreemap option \<Rightarrow> (u64, slot_record) btreemap" where
  "below seq m = (case m of None \<Rightarrow> [] | Some h \<Rightarrow> filter (\<lambda>(k, _). k < seq) h)"

definition btm_extend :: "('k::linorder \<times> 'v) list \<Rightarrow> ('k, 'v) btreemap \<Rightarrow> ('k, 'v) btreemap" where
  "btm_extend kvs m = fold (\<lambda>(k, v) m. btm_insert k v m) kvs m"

definition alt_branch :: "peer \<Rightarrow> slot_id \<Rightarrow> (u64, slot_record) btreemap" where
  "alt_branch p slot = (case btm_get (pe_forks p) slot of None \<Rightarrow> [] | Some m \<Rightarrow> m)"

definition publish_on_fork :: "backend \<Rightarrow> peer \<Rightarrow> slot_record \<Rightarrow> peer \<times> (peer_error + unit)" where
  "publish_on_fork B p r =
    (let prefix = below (sr_seq r) (btm_get (pe_slots p) (sr_slot_id r));
         alt0 = alt_branch p (sr_slot_id r);
         alt = (if alt0 = [] then btm_extend prefix alt0 else alt0);
         p1 = put_forks p (sr_slot_id r) alt;
         p2 = put_forks p (sr_slot_id r) (btm_insert (sr_seq r) r alt)
     in case last_key alt of
          None \<Rightarrow> if sr_seq r \<noteq> 0 then (p1, Err (CasConflict 0 (sr_seq r))) else (p2, Ok ())
        | Some head \<Rightarrow>
            if sr_seq r \<noteq> head + 1 then (p1, Err (CasConflict head (sr_seq r)))
            else if sr_prev r \<noteq> record_hash B (the (btm_get alt head))
            then (p1, Err (BrokenChain (sr_seq r))) else (p2, Ok ()))"

text \<open>The branch of \<open>publish_slot\<close> a forking peer takes on a lost compare-and-swap.\<close>

definition keep_loser :: "peer \<Rightarrow> slot_record \<Rightarrow> u64 \<Rightarrow> peer \<times> (peer_error + unit)" where
  "keep_loser p r head =
    (let prefix = below (sr_seq r) (btm_get (pe_slots p) (sr_slot_id r));
         alt = alt_branch p (sr_slot_id r)
     in if btm_get alt (sr_seq r) \<noteq> None
        then (put_forks p (sr_slot_id r) alt, Err (CasConflict head (sr_seq r)))
        else (put_forks p (sr_slot_id r)
                (btm_insert (sr_seq r) r (if alt = [] then btm_extend prefix alt else alt)), Ok ()))"

definition store_record :: "io_env \<Rightarrow> peer \<Rightarrow> slot_record \<Rightarrow> peer \<times> (peer_error + unit)" where
  "store_record io p r =
    (case persist_slot io (pe_disk p) r of
       (files, Inl e) \<Rightarrow> (put_slots p files (pe_slots p), Err e)
     | (files, Inr _) \<Rightarrow> (put_slots p files
                   (btm_upsert (sr_slot_id r) [] (btm_insert (sr_seq r) r) (pe_slots p)), Ok ()))"

definition handoff_authorised :: "backend \<Rightarrow> peer \<Rightarrow> slot_record \<Rightarrow> slot_record \<Rightarrow> bool" where
  "handoff_authorised B p prior r =
    list_ex (\<lambda>h. authorises B h (sr_slot_id r) (sr_seq r) (sr_writer_id prior) (sr_writer_id r))
      (Peer_handoffs p (sr_slot_id r))"

definition publish_slot ::
  "backend \<Rightarrow> io_env \<Rightarrow> peer \<Rightarrow> bytes \<Rightarrow> slot_record \<Rightarrow> peer \<times> (peer_error + unit)" where
  "publish_slot B io p subject r =
    (let write = Acl_check (pe_acl p) subject Write (pe_mode p);
         append = Acl_check (pe_acl p) subject Append (pe_mode p)
     in if \<not> permits write \<and> \<not> permits append then (p, Err (Refused write))
        else case Roster_get (pe_roster p) (sr_writer_id r) of
          None \<Rightarrow> (p, Err NotRostered)
        | Some vk \<Rightarrow>
          (case SlotRecord_verify B r vk of
             Inl e \<Rightarrow> (p, Err (Slot e))
           | Inr _ \<Rightarrow>
             if hfork (pe_hostility p) \<and> pe_view p \<noteq> 0 then publish_on_fork B p r
             else case (case btm_get (pe_slots p) (sr_slot_id r) of None \<Rightarrow> None | Some h \<Rightarrow> last_key h) of
               None \<Rightarrow>
                 if sr_seq r \<noteq> 0 then (p, Err (CasConflict 0 (sr_seq r))) else store_record io p r
             | Some head \<Rightarrow>
                 if sr_seq r \<noteq> head + 1 then
                   (if hfork (pe_hostility p) then keep_loser p r head
                    else (p, Err (CasConflict head (sr_seq r))))
                 else let prior = the (btm_get (the (btm_get (pe_slots p) (sr_slot_id r))) head)
                   in if sr_prev r \<noteq> record_hash B prior then (p, Err (BrokenChain (sr_seq r)))
                      else if sr_regime prior = SingleWriter \<and> sr_writer_id prior \<noteq> sr_writer_id r \<and>
                              \<not> handoff_authorised B p prior r
                      then (p, Err (ConcurrentWriter (sr_seq r)))
                      else store_record io p r))"

definition slot_head :: "peer \<Rightarrow> slot_id \<Rightarrow> slot_record option" where
  "slot_head p slot =
    (case branch p slot of
       None \<Rightarrow> None
     | Some h \<Rightarrow>
         if rollback (pe_hostility p) \<and> length h > 1
         then btm_get h (map fst h ! (length h - 2))
         else if h = [] then None else Some (snd (last h)))"

definition slot_history :: "peer \<Rightarrow> slot_id \<Rightarrow> u64 \<Rightarrow> slot_record list" where
  "slot_history p slot lower =
    (case branch p slot of
       None \<Rightarrow> []
     | Some h \<Rightarrow>
         let upper = (case slot_head p slot of None \<Rightarrow> - 1 | Some r \<Rightarrow> sr_seq r)
         in map snd (filter (\<lambda>(k, _). lower \<le> k \<and> k \<le> upper) h))"

definition slot_len :: "peer \<Rightarrow> slot_id \<Rightarrow> usize" where
  "slot_len p slot = (case btm_get (pe_slots p) slot of None \<Rightarrow> 0 | Some h \<Rightarrow> length h)"

section \<open>Retention and garbage collection\<close>

definition extend_retention :: "io_env \<Rightarrow> peer \<Rightarrow> addr list \<Rightarrow> peer \<times> (peer_error + unit)" where
  "extend_retention io p addrs =
    persist_retention io (p\<lparr>pe_retention := fold bts_insert addrs (pe_retention p)\<rparr>)"

definition publish_retention :: "io_env \<Rightarrow> peer \<Rightarrow> addr list \<Rightarrow> peer \<times> (peer_error + unit)" where
  "publish_retention io p proposed =
    (let offered = bts_of_list proposed
     in case (if ignore_retention (pe_hostility p) then None
              else find (\<lambda>a. a \<notin> set offered) (pe_retention p)) of
          Some dropped \<Rightarrow> (p, Err (RetentionShrink dropped (length (pe_retention p)) (length offered)))
        | None \<Rightarrow> persist_retention io (p\<lparr>pe_retention := offered\<rparr>))"

definition retains :: "peer \<Rightarrow> addr \<Rightarrow> bool" where
  "retains p a = (a \<in> set (pe_retention p))"

definition retention_set :: "peer \<Rightarrow> addr list" where
  "retention_set p = pe_retention p"

definition retention_len :: "peer \<Rightarrow> usize" where
  "retention_len p = length (pe_retention p)"

definition forget_retention ::
  "backend \<Rightarrow> io_env \<Rightarrow> peer \<Rightarrow> addr list \<Rightarrow> delete_execution \<Rightarrow> peer \<times> (peer_error + unit)" where
  "forget_retention B io p addrs proof_rec =
    (case DeleteExecution_verify B proof_rec of
       Inl e \<Rightarrow> (p, Err (DeleteErr e))
     | Inr _ \<Rightarrow>
       if btm_get (pe_delete_executions p) (de_request_hash proof_rec) = None
       then (p, Err (UnknownRequest (de_request_hash proof_rec)))
       else persist_retention io (p\<lparr>pe_retention := fold bts_remove addrs (pe_retention p)\<rparr>))"

definition delete_blob :: "io_env \<Rightarrow> peer \<Rightarrow> addr \<Rightarrow> peer \<times> (peer_error + unit)" where
  "delete_blob io p a =
    (if retains p a \<and> \<not> ignore_retention (pe_hostility p) then (p, Err (RetentionHold a))
     else case BlobStore_remove io (pe_blobs p) a of (st, r) \<Rightarrow> (p\<lparr>pe_blobs := st\<rparr>, map_err Store r))"

text \<open>The \<open>n\<close>-th deletion of a sweep has its own outcome.\<close>

definition io_at :: "io_env \<Rightarrow> nat \<Rightarrow> io_env" where
  "io_at io n = io\<lparr>io_write := (\<lambda>k. io_write io (n + k))\<rparr>"

fun sweep_deletes :: "io_env \<Rightarrow> nat \<Rightarrow> addr list \<Rightarrow> peer \<Rightarrow> peer \<times> (peer_error + unit)" where
  "sweep_deletes io n [] p = (p, Ok ())"
| "sweep_deletes io n (a # as) p =
    (case delete_blob (io_at io n) p a of
       (p', Inl e) \<Rightarrow> (p', Err e)
     | (p', Inr _) \<Rightarrow> sweep_deletes io (Suc n) as p')"

definition Peer_sweep ::
  "io_env \<Rightarrow> peer \<Rightarrow> holder list \<Rightarrow> gc_policy \<Rightarrow> timestamp \<Rightarrow> bool \<Rightarrow> peer \<times> (peer_error + sweep_plan)" where
  "Peer_sweep io p holders policy now dry_run =
    (let floor = (if ignore_retention (pe_hostility p) then [] else pe_retention p)
     in case Peer_inventory io p of
          Inl e \<Rightarrow> (p, Err e)
        | Inr blobs \<Rightarrow>
            let plan = plan_sweep blobs holders floor policy now
            in if dry_run then (p, Ok plan)
               else case sweep_deletes io 0 (sp_delete plan) p of (p', r) \<Rightarrow> (p', rbind r (\<lambda>_. Ok plan)))"

end
