(* ===== verification/Peer_Run.thy ===== *)
theory Peer_Run
  imports Peer
begin

text \<open>
  The peer over time: every operation that changes it as one step, runs of steps with arbitrary
  outcomes of the file system, and what holds in every reachable state.
\<close>

section \<open>Steps and runs\<close>

datatype peer_op =
    OpWitness witness
  | OpRequest delete_request
  | OpApproval delete_approval
  | OpExecute delete_execution timestamp
  | OpTake hash32 "addr list" timestamp
  | OpRelease hash32 "addr list" timestamp
  | OpCheckpoint checkpoint
  | OpHandoff slot_handoff
  | OpBind bytes bytes
  | OpView u8
  | OpPut bytes
  | OpProve addr bytes
  | OpSlot bytes slot_record
  | OpExtend "addr list"
  | OpRetention "addr list"
  | OpForget "addr list" delete_execution
  | OpDelete addr
  | OpSweep "holder list" gc_policy timestamp bool

fun peer_step :: "backend \<Rightarrow> io_env \<Rightarrow> peer_op \<Rightarrow> peer \<Rightarrow> peer" where
  "peer_step B io (OpWitness w) p = fst (publish_witness B io p w)"
| "peer_step B io (OpRequest r) p = fst (publish_delete_request B io p r)"
| "peer_step B io (OpApproval a) p = fst (publish_delete_approval B io p a)"
| "peer_step B io (OpExecute e now) p = fst (execute_delete B io p e now)"
| "peer_step B io (OpTake h as now) p = fst (take_lease io p h as now)"
| "peer_step B io (OpRelease h as now) p = fst (release_lease io p h as now)"
| "peer_step B io (OpCheckpoint c) p = fst (publish_checkpoint B io p c)"
| "peer_step B io (OpHandoff h) p = fst (publish_handoff B io p h)"
| "peer_step B io (OpBind vk s) p = bind_subject p vk s"
| "peer_step B io (OpView v) p = set_view p v"
| "peer_step B io (OpPut bs) p = fst (put_blob B io p bs)"
| "peer_step B io (OpProve a n) p = fst (Peer_prove B io p a n)"
| "peer_step B io (OpSlot s r) p = fst (publish_slot B io p s r)"
| "peer_step B io (OpExtend as) p = fst (extend_retention io p as)"
| "peer_step B io (OpRetention as) p = fst (publish_retention io p as)"
| "peer_step B io (OpForget as e) p = fst (forget_retention B io p as e)"
| "peer_step B io (OpDelete a) p = fst (delete_blob io p a)"
| "peer_step B io (OpSweep hs pol now dry) p = fst (Peer_sweep io p hs pol now dry)"

text \<open>What an operation carries is a decoded record, or an address of the right width.\<close>

fun op_wf :: "backend \<Rightarrow> peer_op \<Rightarrow> bool" where
  "op_wf B (OpWitness w) = wf_Witness B w"
| "op_wf B (OpRequest r) = wf_DeleteRequest B r"
| "op_wf B (OpApproval a) = wf_DeleteApproval B a"
| "op_wf B (OpExecute e _) = wf_DeleteExecution B e"
| "op_wf B (OpTake _ as _) = list_all (arr 32) as"
| "op_wf B (OpRelease _ as _) = list_all (arr 32) as"
| "op_wf B (OpCheckpoint c) = wf_Checkpoint B c"
| "op_wf B (OpHandoff h) = wf_SlotHandoff B h"
| "op_wf B (OpSlot _ r) = wf_SlotRecord B r"
| "op_wf B (OpExtend as) = list_all (arr 32) as"
| "op_wf B (OpRetention as) = list_all (arr 32) as"
| "op_wf B (OpForget as e) = (list_all (arr 32) as \<and> wf_DeleteExecution B e)"
| "op_wf B _ = True"

inductive peer_run :: "backend \<Rightarrow> peer \<Rightarrow> peer \<Rightarrow> bool" for B where
  run_refl: "peer_run B p p"
| run_step: "peer_run B p q \<Longrightarrow> op_wf B op \<Longrightarrow> peer_run B p (peer_step B io op q)"

definition fresh_peer :: "peer \<Rightarrow> bool" where
  "fresh_peer p \<longleftrightarrow> pe_slots p = [] \<and> pe_forks p = [] \<and> pe_retention p = [] \<and> pe_witnesses p = [] \<and>
    pe_handoffs p = [] \<and> pe_delete_requests p = [] \<and> pe_delete_approvals p = [] \<and>
    pe_delete_executions p = [] \<and> pe_leases p = [] \<and> pe_checkpoints p = [] \<and> pe_disk p = empty_disk"

lemma file_simps [simp]:
  "dr_files (file_tmp k bs d) = dr_files d" "dr_files (file_record k bs d) = btm_insert k bs (dr_files d)"
  "dr_tmp (file_record k bs d) = btm_remove k (dr_tmp d)" "dr_files empty_dir = []" "dr_tmp empty_dir = []"
  by (simp_all add: file_tmp_def file_record_def empty_dir_def)

lemma persist_file_Inr_iff:
  "persist_file io enc k d = (d', Inr u) \<longleftrightarrow>
    (\<exists>bs. enc = Inr bs \<and> io_write io 0 = None \<and> io_write io 1 = None \<and> io_write io 2 = None \<and> d' = file_record k bs d)"
  by (auto simp: persist_file_def split: option.splits sum.splits)

text \<open>When filing fails, the named files are as they were; only \<open>{name}.tmp\<close> may have changed.\<close>

lemma persist_file_Inl: "persist_file io enc k d = (d', Inl e) \<Longrightarrow> dr_files d' = dr_files d"
  by (auto simp: persist_file_def split: option.splits sum.splits)

lemma persist_Inl:
  "persist_witness B io dk w = (d1, Inl e) \<Longrightarrow> dr_files d1 = dr_files (dk_witnesses dk)"
  "persist_handoff B io dk h = (d2, Inl e) \<Longrightarrow> dr_files d2 = dr_files (dk_handoffs dk)"
  "persist_checkpoint B io dk c = (d3, Inl e) \<Longrightarrow> dr_files d3 = dr_files (dk_checkpoints dk)"
  "persist_slot io dk r = (d4, Inl e) \<Longrightarrow> dr_files d4 = dr_files (dk_slots dk)"
  by (auto simp: persist_witness_def persist_handoff_def persist_checkpoint_def persist_slot_def dest: persist_file_Inl)

text \<open>Two states of the directory that differ in temporary files only.\<close>

definition same_files :: "peer_disk \<Rightarrow> peer_disk \<Rightarrow> bool" where
  "same_files d d' \<longleftrightarrow> dr_files (dk_slots d) = dr_files (dk_slots d') \<and> dr_files (dk_witnesses d) = dr_files (dk_witnesses d') \<and>
    dr_files (dk_handoffs d) = dr_files (dk_handoffs d') \<and> dr_files (dk_checkpoints d) = dr_files (dk_checkpoints d') \<and>
    dr_files (dk_requests d) = dr_files (dk_requests d') \<and> dr_files (dk_approvals d) = dr_files (dk_approvals d') \<and>
    dr_files (dk_executions d) = dr_files (dk_executions d') \<and> dk_leases d = dk_leases d' \<and> dk_retention d = dk_retention d'"

lemma same_files_refl [simp]: "same_files d d"
  by (simp add: same_files_def)

text \<open>A peer that differs in temporary files only, if at all.\<close>

definition tmp_only :: "peer \<Rightarrow> peer \<Rightarrow> bool" where
  "tmp_only q p \<longleftrightarrow> q = p\<lparr>pe_disk := pe_disk q\<rparr> \<and> same_files (pe_disk p) (pe_disk q)"

lemma tmp_only_refl [simp]: "tmp_only p p"
  by (simp add: tmp_only_def)

lemma tmp_only_put:
  "dr_files d1 = dr_files (dk_requests (pe_disk p)) \<Longrightarrow> tmp_only (put_requests p d1 (pe_delete_requests p)) p"
  "dr_files d2 = dr_files (dk_approvals (pe_disk p)) \<Longrightarrow> tmp_only (put_approvals p d2 (pe_delete_approvals p)) p"
  "dr_files d3 = dr_files (dk_executions (pe_disk p)) \<Longrightarrow> tmp_only (put_executions p d3 (pe_delete_executions p)) p"
  "dr_files d4 = dr_files (dk_witnesses (pe_disk p)) \<Longrightarrow> tmp_only (put_witnesses p d4 (pe_witnesses p)) p"
  "dr_files d5 = dr_files (dk_handoffs (pe_disk p)) \<Longrightarrow> tmp_only (put_handoffs p d5 (pe_handoffs p)) p"
  "dr_files d6 = dr_files (dk_checkpoints (pe_disk p)) \<Longrightarrow> tmp_only (put_checkpoints p d6 (pe_checkpoints p)) p"
  "dr_files d7 = dr_files (dk_slots (pe_disk p)) \<Longrightarrow> tmp_only (put_slots p d7 (pe_slots p)) p"
  by (cases p; simp add: tmp_only_def put_defs same_files_def)+

text \<open>Lookup in a table of tables.\<close>

definition get2 :: "('s, ('k, 'v) btreemap) btreemap \<Rightarrow> 's \<Rightarrow> 'k \<Rightarrow> 'v option" where
  "get2 m s k = (case btm_get m s of None \<Rightarrow> None | Some h \<Rightarrow> btm_get h k)"

text \<open>
  Each operation either leaves the peer as it was, temporary files apart, or makes exactly one change,
  under its guards.
\<close>

lemma publish_witness_cases:
  "tmp_only (fst (publish_witness B io p w)) p \<or>
   (\<exists>d. Witness_verify B w = Inr () \<and> persist_witness B io (pe_disk p) w = (d, Inr ()) \<and>
      fst (publish_witness B io p w) = put_witnesses p d
        (btm_upsert (wt_slot_id w) [] (btm_insert (witness_id B w, wt_seq w) w) (pe_witnesses p)))"
  unfolding publish_witness_def Let_def
  by (auto split: sum.split option.split prod.split intro: tmp_only_put dest: persist_Inl)

lemma publish_delete_request_cases:
  "tmp_only (fst (publish_delete_request B io p r)) p \<or>
   (\<exists>bs m. DeleteRequest_verify B r = Inr () \<and> btm_get (pe_delete_requests p) (request_hash B r) = None \<and>
      length (pe_delete_requests p) < MAX_DELETE_REQUESTS \<and> DeleteRequest_encode r = Inr bs \<and>
      persist_file io (Inr bs) (request_hash B r) (dk_requests (pe_disk p)) = (m, Inr ()) \<and>
      fst (publish_delete_request B io p r) = put_requests p m
        (btm_insert (request_hash B r) r (pe_delete_requests p)))"
  unfolding publish_delete_request_def Let_def
  by (cases "DeleteRequest_encode r") (auto split: sum.split option.split prod.split intro: tmp_only_put dest: persist_file_Inl)

lemma publish_delete_approval_cases:
  "tmp_only (fst (publish_delete_approval B io p a)) p \<or>
   (\<exists>bs m. DeleteApproval_verify B a = Inr () \<and> btm_get (pe_delete_requests p) (da_request_hash a) \<noteq> None \<and>
      Authority_contains (pe_delete_authority p) (approver_id B a) \<and> DeleteApproval_encode a = Inr bs \<and>
      persist_file io (Inr bs) (da_request_hash a, approver_id B a) (dk_approvals (pe_disk p)) = (m, Inr ()) \<and>
      fst (publish_delete_approval B io p a) = put_approvals p m
        (btm_upsert (da_request_hash a) [] (btm_insert (approver_id B a) a) (pe_delete_approvals p)))"
  unfolding publish_delete_approval_def Let_def
  by (cases "DeleteApproval_encode a") (auto split: sum.split option.split prod.split intro: tmp_only_put dest: persist_file_Inl)

lemma execute_delete_cases:
  "tmp_only (fst (execute_delete B io p e now)) p \<or>
   (\<exists>request n k bs m. DeleteExecution_verify B e = Inr () \<and>
      btm_get (pe_delete_requests p) (de_request_hash e) = Some request \<and>
      decide B request e (Peer_executed p) (pe_quorum p) (pe_delete_authority p) now = Execute n k \<and>
      btm_get (pe_delete_executions p) (de_request_hash e) = None \<and> DeleteExecution_encode e = Inr bs \<and>
      persist_file io (Inr (u64_le now @ bs)) (de_request_hash e) (dk_executions (pe_disk p)) = (m, Inr ()) \<and>
      fst (execute_delete B io p e now) = put_executions p m
        (btm_insert (de_request_hash e) (e, now) (pe_delete_executions p)))"
  unfolding execute_delete_def Let_def
  by (cases "DeleteExecution_encode e")
    (auto split: sum.split option.split prod.split Quorum.decision.split intro: tmp_only_put dest: persist_file_Inl)

lemma publish_checkpoint_cases:
  "tmp_only (fst (publish_checkpoint B io p c)) p \<or>
   (\<exists>d vk. Roster_get (pe_roster p) (Checkpoint_writer_id B c) = Some vk \<and> Checkpoint_verify B c vk = Inr () \<and>
      persist_checkpoint B io (pe_disk p) c = (d, Inr ()) \<and>
      fst (publish_checkpoint B io p c) = put_checkpoints p d
        (btm_upsert (cp_slot_id c) [] (btm_insert (cp_seq c, checkpoint_hash B c) c) (pe_checkpoints p)))"
  unfolding publish_checkpoint_def Let_def
  by (auto split: sum.split option.split prod.split intro: tmp_only_put dest: persist_Inl)

lemma publish_handoff_cases:
  "tmp_only (fst (publish_handoff B io p h)) p \<or>
   (\<exists>d. SlotHandoff_verify B h = Inr () \<and> persist_handoff B io (pe_disk p) h = (d, Inr ()) \<and>
      get2 (pe_handoffs p) (sh_slot_id h) (handoff_key_of B h) = None \<and>
      fst (publish_handoff B io p h) = put_handoffs p d
        (btm_upsert (sh_slot_id h) [] (btm_insert (handoff_key_of B h) h) (pe_handoffs p)))"
  unfolding publish_handoff_def Let_def get2_def
  by (auto split: sum.split option.split prod.split intro: tmp_only_put dest: persist_Inl)

text \<open>What makes \<open>publish_slot\<close> append a record to the main branch.\<close>

definition slot_accepts :: "backend \<Rightarrow> peer \<Rightarrow> slot_record \<Rightarrow> bool" where
  "slot_accepts B p r \<longleftrightarrow>
    (\<exists>vk. Roster_get (pe_roster p) (sr_writer_id r) = Some vk \<and> SlotRecord_verify B r vk = Inr ()) \<and>
    (case btm_get (pe_slots p) (sr_slot_id r) of
       None \<Rightarrow> sr_seq r = 0
     | Some h \<Rightarrow>
         if h = [] then sr_seq r = 0
         else sr_seq r = fst (last h) + 1 \<and>
           (let prior = the (btm_get h (fst (last h)))
            in sr_prev r = record_hash B prior \<and>
               (sr_regime prior = SingleWriter \<and> sr_writer_id prior \<noteq> sr_writer_id r \<longrightarrow>
                 handoff_authorised B p prior r)))"

lemma store_record_cases:
  "tmp_only (fst (store_record io p r)) p \<or>
   (\<exists>d. persist_slot io (pe_disk p) r = (d, Inr ()) \<and>
      fst (store_record io p r) = put_slots p d
        (btm_upsert (sr_slot_id r) [] (btm_insert (sr_seq r) r) (pe_slots p)))"
  unfolding store_record_def by (auto split: sum.split prod.split intro: tmp_only_put dest: persist_Inl)

lemma publish_on_fork_cases: "fst (publish_on_fork B p r) \<in> range (put_forks p (sr_slot_id r))"
proof -
  define alt0 where "alt0 = alt_branch p (sr_slot_id r)"
  define alt where "alt = (if alt0 = [] then btm_extend (below (sr_seq r) (btm_get (pe_slots p) (sr_slot_id r))) alt0 else alt0)"
  show ?thesis
    unfolding publish_on_fork_def Let_def alt0_def [symmetric] alt_def [symmetric]
    by (cases "last_key alt") simp_all
qed

lemma keep_loser_cases: "fst (keep_loser p r head) \<in> range (put_forks p (sr_slot_id r))"
  unfolding keep_loser_def Let_def by (simp split del: if_split add: if_distrib [of fst]) simp

lemma publish_slot_cases:
  "fst (publish_slot B io p s r) = p \<or> fst (publish_slot B io p s r) \<in> range (put_forks p (sr_slot_id r)) \<or>
   slot_accepts B p r \<and> fst (publish_slot B io p s r) = fst (store_record io p r)"
proof (cases "Roster_get (pe_roster p) (sr_writer_id r)")
  case None
  then show ?thesis by (simp add: publish_slot_def Let_def)
next
  case (Some vk)
  show ?thesis
  proof (cases "SlotRecord_verify B r vk")
    case (Inl e)
    then show ?thesis using Some by (simp add: publish_slot_def Let_def)
  next
    case (Inr u)
    then have v: "SlotRecord_verify B r vk = Inr ()" by simp
    note outer = publish_slot_def [of B io p s r] Let_def Some v
    show ?thesis
    proof (cases "btm_get (pe_slots p) (sr_slot_id r)")
      case None
      then show ?thesis
        using publish_on_fork_cases [of B p r] by (auto simp: outer slot_accepts_def)
    next
      case (Some h)
      note fork = publish_on_fork_cases [of B p r] keep_loser_cases [of p r "fst (last h)"]
      show ?thesis
      proof (cases "h = []")
        case True
        then show ?thesis using fork Some by (auto simp: outer slot_accepts_def last_key_def)
      next
        case False
        then have "slot_accepts B p r" if "sr_seq r = fst (last h) + 1"
          "sr_prev r = record_hash B (the (btm_get h (fst (last h))))"
          "\<not> (sr_regime (the (btm_get h (fst (last h)))) = SingleWriter \<and>
             sr_writer_id (the (btm_get h (fst (last h)))) \<noteq> sr_writer_id r \<and>
             \<not> handoff_authorised B p (the (btm_get h (fst (last h)))) r)"
          using that Some outer by (auto simp: slot_accepts_def Let_def)
        then show ?thesis using fork Some False by (simp add: outer last_key_def)
      qed
    qed
  qed
qed

section \<open>Effects\<close>

text \<open>
  The effect of one step, whatever operation it was: nothing, temporary files, one record filed in one table and its
  directory, or a change of the leases, of the retention set, of the blobs, of the forked branches,
  of the bound subjects or of the view. The invariants below are by cases over this relation.
\<close>

definition put_leases ::
  "peer \<Rightarrow> (hash32, bytes) btreemap \<Rightarrow> (hash32, hash32 btreeset \<times> timestamp) btreemap \<Rightarrow> peer" where
  "put_leases p files m = p\<lparr>pe_disk := (pe_disk p)\<lparr>dk_leases := files\<rparr>, pe_leases := m\<rparr>"

definition put_retention :: "peer \<Rightarrow> bytes option \<Rightarrow> hash32 btreeset \<Rightarrow> peer" where
  "put_retention p file m = p\<lparr>pe_disk := (pe_disk p)\<lparr>dk_retention := file\<rparr>, pe_retention := m\<rparr>"

inductive peer_effect :: "backend \<Rightarrow> peer \<Rightarrow> peer \<Rightarrow> bool" for B p where
  eff_none: "peer_effect B p p"
| eff_tmp: "same_files (pe_disk p) d \<Longrightarrow> peer_effect B p (p\<lparr>pe_disk := d\<rparr>)"
| eff_witness: "Witness_verify B w = Inr () \<Longrightarrow> wf_Witness B w \<Longrightarrow> Witness_encode w = Inr bs \<Longrightarrow>
    peer_effect B p (put_witnesses p
      (file_record (wt_slot_id w, witness_id B w, wt_seq w) bs (dk_witnesses (pe_disk p)))
      (btm_upsert (wt_slot_id w) [] (btm_insert (witness_id B w, wt_seq w) w) (pe_witnesses p)))"
| eff_request: "DeleteRequest_verify B r = Inr () \<Longrightarrow> wf_DeleteRequest B r \<Longrightarrow>
    btm_get (pe_delete_requests p) (request_hash B r) = None \<Longrightarrow> DeleteRequest_encode r = Inr bs \<Longrightarrow>
    peer_effect B p (put_requests p (file_record (request_hash B r) bs (dk_requests (pe_disk p)))
      (btm_insert (request_hash B r) r (pe_delete_requests p)))"
| eff_approval: "DeleteApproval_verify B a = Inr () \<Longrightarrow> wf_DeleteApproval B a \<Longrightarrow>
    btm_get (pe_delete_requests p) (da_request_hash a) \<noteq> None \<Longrightarrow>
    Authority_contains (pe_delete_authority p) (approver_id B a) \<Longrightarrow> DeleteApproval_encode a = Inr bs \<Longrightarrow>
    peer_effect B p (put_approvals p
      (file_record (da_request_hash a, approver_id B a) bs (dk_approvals (pe_disk p)))
      (btm_upsert (da_request_hash a) [] (btm_insert (approver_id B a) a) (pe_delete_approvals p)))"
| eff_execution: "DeleteExecution_verify B e = Inr () \<Longrightarrow> wf_DeleteExecution B e \<Longrightarrow>
    btm_get (pe_delete_requests p) (de_request_hash e) = Some request \<Longrightarrow>
    decide B request e (Peer_executed p) (pe_quorum p) (pe_delete_authority p) now = Execute n k \<Longrightarrow>
    btm_get (pe_delete_executions p) (de_request_hash e) = None \<Longrightarrow> DeleteExecution_encode e = Inr bs \<Longrightarrow>
    peer_effect B p (put_executions p
      (file_record (de_request_hash e) (u64_le now @ bs) (dk_executions (pe_disk p)))
      (btm_insert (de_request_hash e) (e, now) (pe_delete_executions p)))"
| eff_checkpoint: "Roster_get (pe_roster p) (Checkpoint_writer_id B c) = Some vk \<Longrightarrow>
    Checkpoint_verify B c vk = Inr () \<Longrightarrow> wf_Checkpoint B c \<Longrightarrow> Checkpoint_encode c = Inr bs \<Longrightarrow>
    peer_effect B p (put_checkpoints p
      (file_record (cp_slot_id c, cp_seq c, checkpoint_hash B c) bs (dk_checkpoints (pe_disk p)))
      (btm_upsert (cp_slot_id c) [] (btm_insert (cp_seq c, checkpoint_hash B c) c) (pe_checkpoints p)))"
| eff_handoff: "SlotHandoff_verify B h = Inr () \<Longrightarrow> wf_SlotHandoff B h \<Longrightarrow>
    get2 (pe_handoffs p) (sh_slot_id h) (handoff_key_of B h) = None \<Longrightarrow> SlotHandoff_encode h = Inr bs \<Longrightarrow>
    peer_effect B p (put_handoffs p
      (file_record (sh_slot_id h, handoff_key_of B h) bs (dk_handoffs (pe_disk p)))
      (btm_upsert (sh_slot_id h) [] (btm_insert (handoff_key_of B h) h) (pe_handoffs p)))"
| eff_slot: "slot_accepts B p r \<Longrightarrow> wf_SlotRecord B r \<Longrightarrow> SlotRecord_encode r = Inr bs \<Longrightarrow>
    peer_effect B p (put_slots p (file_record (sr_slot_id r, sr_seq r) bs (dk_slots (pe_disk p)))
      (btm_upsert (sr_slot_id r) [] (btm_insert (sr_seq r) r) (pe_slots p)))"
| eff_forks: "peer_effect B p (put_forks p slot alt)"
| eff_leases: "peer_effect B p (put_leases p files m)"
| eff_retention: "set (pe_retention p) \<subseteq> set m \<or> ignore_retention (pe_hostility p) \<or>
      (\<exists>e as. DeleteExecution_verify B e = Inr () \<and> m = fold bts_remove as (pe_retention p) \<and>
        btm_get (pe_delete_executions p) (de_request_hash e) \<noteq> None) \<Longrightarrow>
    peer_effect B p (put_retention p file m)"
| eff_blobs: "(\<And>a. BlobStore_has (pe_blobs p) a \<Longrightarrow> \<not> BlobStore_has st a \<Longrightarrow>
      \<not> retains p a \<or> ignore_retention (pe_hostility p)) \<Longrightarrow>
    peer_effect B p (p\<lparr>pe_blobs := st\<rparr>)"
| eff_subject: "peer_effect B p (p\<lparr>pe_subjects := m\<rparr>)"
| eff_view: "peer_effect B p (p\<lparr>pe_view := v\<rparr>)"

lemma effect_same: "q = p \<Longrightarrow> peer_effect B p q"
  by (simp add: eff_none)

lemma effect_tmp: "tmp_only q p \<Longrightarrow> peer_effect B p q"
  by (metis tmp_only_def eff_tmp)

lemma effect_witness: "wf_Witness B w \<Longrightarrow> peer_effect B p (fst (publish_witness B io p w))"
  using publish_witness_cases [of B io p w]
  by (elim disjE exE conjE)
    (auto simp: persist_witness_def persist_file_Inr_iff map_err_Inr_iff intro: effect_same effect_tmp eff_witness)

lemma effect_request: "wf_DeleteRequest B r \<Longrightarrow> peer_effect B p (fst (publish_delete_request B io p r))"
  using publish_delete_request_cases [of B io p r]
  by (elim disjE exE conjE) (auto simp: persist_file_Inr_iff intro: effect_same effect_tmp eff_request)

lemma effect_approval: "wf_DeleteApproval B a \<Longrightarrow> peer_effect B p (fst (publish_delete_approval B io p a))"
  using publish_delete_approval_cases [of B io p a]
  by (elim disjE exE conjE) (auto simp: persist_file_Inr_iff intro: effect_same effect_tmp eff_approval)

lemma effect_execute: "wf_DeleteExecution B e \<Longrightarrow> peer_effect B p (fst (execute_delete B io p e now))"
  using execute_delete_cases [of B io p e now]
  by (elim disjE exE conjE) (auto simp: persist_file_Inr_iff intro: effect_same effect_tmp eff_execution)

lemma effect_checkpoint: "wf_Checkpoint B c \<Longrightarrow> peer_effect B p (fst (publish_checkpoint B io p c))"
  using publish_checkpoint_cases [of B io p c]
  by (elim disjE exE conjE)
    (auto simp: persist_checkpoint_def persist_file_Inr_iff map_err_Inr_iff intro: effect_same effect_tmp eff_checkpoint)

lemma effect_handoff: "wf_SlotHandoff B h \<Longrightarrow> peer_effect B p (fst (publish_handoff B io p h))"
  using publish_handoff_cases [of B io p h]
  by (elim disjE exE conjE)
    (auto simp: persist_handoff_def persist_file_Inr_iff map_err_Inr_iff intro: effect_same effect_tmp eff_handoff)

lemma effect_slot: "wf_SlotRecord B r \<Longrightarrow> peer_effect B p (fst (publish_slot B io p s r))"
  using publish_slot_cases [of B io p s r] store_record_cases [of io p r]
  by (elim disjE exE conjE rangeE)
    (auto simp: persist_slot_def persist_file_Inr_iff map_err_Inr_iff intro: effect_same effect_tmp eff_slot eff_forks)

lemma persist_leases_eq:
  "fst (persist_leases io (p\<lparr>pe_leases := m\<rparr>)) =
    put_leases p (dk_leases (pe_disk (fst (persist_leases io (p\<lparr>pe_leases := m\<rparr>))))) m"
  by (simp add: persist_leases_def put_leases_def split: option.split prod.split)

lemma effect_take: "peer_effect B p (fst (take_lease io p holder as now))"
proof -
  have "fst (take_lease io p holder as now) = p \<or>
      (\<exists>m. fst (take_lease io p holder as now) = fst (persist_leases io (p\<lparr>pe_leases := m\<rparr>)))"
    unfolding take_lease_def Let_def by (auto simp: case_prod_unfold split: option.split sum.split)
  then show ?thesis by (metis eff_leases eff_none persist_leases_eq)
qed

lemma effect_release: "peer_effect B p (fst (release_lease io p holder as now))"
proof -
  have "\<exists>m. fst (release_lease io p holder as now) = fst (persist_leases io (p\<lparr>pe_leases := m\<rparr>))"
  proof (cases "btm_get (pe_leases p) holder")
    case None
    then have "fst (release_lease io p holder as now) = fst (persist_leases io (p\<lparr>pe_leases := pe_leases p\<rparr>))"
      by (simp add: release_lease_def)
    then show ?thesis ..
  qed (auto simp: release_lease_def)
  then show ?thesis by (metis eff_leases persist_leases_eq)
qed

lemma persist_retention_eq:
  "\<exists>f. fst (persist_retention io (p\<lparr>pe_retention := m\<rparr>)) = put_retention p f m"
proof (cases "io_write io 1")
  case None
  then have "fst (persist_retention io (p\<lparr>pe_retention := m\<rparr>)) = put_retention p (Some (concat m)) m"
    by (simp add: persist_retention_def put_retention_def)
  then show ?thesis ..
next
  case (Some e)
  then have "fst (persist_retention io (p\<lparr>pe_retention := m\<rparr>)) = put_retention p (dk_retention (pe_disk p)) m"
    by (simp add: persist_retention_def put_retention_def)
  then show ?thesis ..
qed

lemma effect_extend: "peer_effect B p (fst (extend_retention io p as))"
proof -
  obtain f where "fst (extend_retention io p as) = put_retention p f (fold bts_insert as (pe_retention p))"
    using persist_retention_eq unfolding extend_retention_def by blast
  moreover have "set (pe_retention p) \<subseteq> set (fold bts_insert as (pe_retention p))"
    by (induction as rule: rev_induct) auto
  ultimately show ?thesis using eff_retention by metis
qed

lemma effect_publish_retention: "peer_effect B p (fst (publish_retention io p as))"
proof (cases "if ignore_retention (pe_hostility p) then None
    else find (\<lambda>a. a \<notin> set (bts_of_list as)) (pe_retention p)")
  case None
  then have "set (pe_retention p) \<subseteq> set (bts_of_list as) \<or> ignore_retention (pe_hostility p)"
    by (auto simp: find_None_iff split: if_splits)
  moreover obtain f where "fst (publish_retention io p as) = put_retention p f (bts_of_list as)"
    using persist_retention_eq [of io "bts_of_list as" p] None unfolding publish_retention_def Let_def by auto
  ultimately show ?thesis using eff_retention by metis
qed (auto simp: publish_retention_def Let_def intro: effect_same)

lemma effect_forget: "peer_effect B p (fst (forget_retention B io p as e))"
proof (cases "DeleteExecution_verify B e = Inr () \<and> btm_get (pe_delete_executions p) (de_request_hash e) \<noteq> None")
  case True
  moreover obtain f where
    "fst (persist_retention io (p\<lparr>pe_retention := fold bts_remove as (pe_retention p)\<rparr>))
      = put_retention p f (fold bts_remove as (pe_retention p))"
    using persist_retention_eq by blast
  ultimately have "fst (forget_retention B io p as e) = put_retention p f (fold bts_remove as (pe_retention p))"
    by (auto simp: forget_retention_def)
  with True show ?thesis using eff_retention by metis
qed (auto simp: forget_retention_def intro: effect_same split: sum.split)

lemma put_keeps_blobs:
  "BlobStore_has st a \<Longrightarrow> BlobStore_has (fst (BlobStore_put B io st bs)) a"
  "BlobStore_has st a \<Longrightarrow> BlobStore_has (fst (BlobStore_prove B io st b n)) a"
  by (auto simp: BlobStore_has_def BlobStore_put_def BlobStore_prove_def BlobStore_touch_def touch_path_def Let_def
      split: option.split sum.split)

lemma effect_put: "peer_effect B p (fst (put_blob B io p bs))"
  using put_keeps_blobs(1) by (auto simp: put_blob_def case_prod_unfold intro!: eff_blobs)

lemma effect_prove: "peer_effect B p (fst (Peer_prove B io p a n))"
  using put_keeps_blobs(2) by (auto simp: Peer_prove_def case_prod_unfold intro!: eff_blobs)

lemma remove_only: "BlobStore_has st b \<Longrightarrow> \<not> BlobStore_has (fst (BlobStore_remove io st a)) b \<Longrightarrow> b = a"
proof (rule ccontr)
  assume *: "BlobStore_has st b" "\<not> BlobStore_has (fst (BlobStore_remove io st a)) b" "b \<noteq> a"
  have "btm_get (btm_remove a m) b = btm_get m b" for m :: "(addr, blob_file) btreemap"
    using *(3) by (induction m) auto
  with * show False by (auto simp: BlobStore_has_def BlobStore_remove_def split: option.splits if_splits)
qed

text \<open>A peer whose blobs shrank only where neither retention nor honesty forbids it.\<close>

definition blobs_only :: "peer \<Rightarrow> peer \<Rightarrow> bool" where
  "blobs_only p q \<longleftrightarrow> (\<exists>st. q = p\<lparr>pe_blobs := st\<rparr> \<and>
    (\<forall>a. BlobStore_has (pe_blobs p) a \<and> \<not> BlobStore_has st a \<longrightarrow>
      \<not> retains p a \<or> ignore_retention (pe_hostility p)))"

lemma blobs_only_effect: "blobs_only p q \<Longrightarrow> peer_effect B p q"
  by (auto simp: blobs_only_def intro!: eff_blobs)

lemma blobs_only_refl: "blobs_only p p"
  unfolding blobs_only_def by (rule exI [of _ "pe_blobs p"]) simp

lemma blobs_only_trans: "blobs_only p q \<Longrightarrow> blobs_only q s \<Longrightarrow> blobs_only p s"
  unfolding blobs_only_def retains_def by force

lemma delete_blob_only: "blobs_only p (fst (delete_blob io p a))"
proof (cases "retains p a \<and> \<not> ignore_retention (pe_hostility p)")
  case True
  then show ?thesis by (simp add: delete_blob_def blobs_only_refl)
next
  case False
  then have "fst (delete_blob io p a) = p\<lparr>pe_blobs := fst (BlobStore_remove io (pe_blobs p) a)\<rparr>"
    unfolding delete_blob_def if_not_P [OF False] by (simp add: case_prod_unfold)
  with False remove_only show ?thesis unfolding blobs_only_def by metis
qed

lemma sweep_deletes_only: "blobs_only p (fst (sweep_deletes io n as p))"
proof (induction as arbitrary: n p)
  case (Cons a as)
  obtain q r where q: "delete_blob (io_at io n) p a = (q, r)" by fastforce
  then have "blobs_only p q" using delete_blob_only [of p "io_at io n" a] by simp
  with q Cons.IH [of q "Suc n"] show ?case by (cases r) (auto intro: blobs_only_trans)
qed (simp add: blobs_only_refl)

lemma Peer_sweep_only: "blobs_only p (fst (Peer_sweep io p hs pol now dry))"
  using sweep_deletes_only blobs_only_refl
  by (auto simp: Peer_sweep_def Let_def case_prod_unfold split: sum.split)

text \<open>Every step is one effect, whatever the file system answers.\<close>

lemma step_effect: "op_wf B op \<Longrightarrow> peer_effect B p (peer_step B io op p)"
  by (cases op)
    (auto intro: effect_witness effect_request effect_approval effect_execute effect_take effect_release
      effect_checkpoint effect_handoff effect_put effect_prove effect_slot effect_extend
      effect_publish_retention effect_forget blobs_only_effect [OF delete_blob_only]
      blobs_only_effect [OF Peer_sweep_only] simp: bind_subject_def set_view_def eff_subject eff_view)

lemma run_invariant:
  assumes "peer_run B p q" and "I p" and "\<And>x y. peer_effect B x y \<Longrightarrow> I x \<Longrightarrow> I y"
  shows "I q"
  using assms(1,2) by induction (auto intro: assms(3) step_effect)

end
