(* ===== verification/Peer_Props.thy ===== *)
theory Peer_Props
  imports Peer_Run
begin

text \<open>
  What the peer guarantees in every reachable state: its histories verify under the client's own
  walk, its trail records only decided executions, retention shrinks only behind one of them, no
  retained blob is deleted, and leases stay in quota.
\<close>

section \<open>Histories\<close>

text \<open>A stored history: sequence numbers from 0, every record admitted, linked, handed over.\<close>

definition history_ok ::
  "backend \<Rightarrow> roster \<Rightarrow> slot_id \<Rightarrow> slot_handoff list \<Rightarrow> (u64, slot_record) btreemap \<Rightarrow> bool" where
  "history_ok B ros slot hs h \<longleftrightarrow> h \<noteq> [] \<and> map fst h = map of_nat [0 ..< length h] \<and>
    (\<forall>(k, r) \<in> set h. sr_seq r = k \<and> sr_slot_id r = slot \<and>
      (\<exists>vk. Roster_get ros (sr_writer_id r) = Some vk \<and> SlotRecord_verify B r vk = Inr ())) \<and>
    linked sr_prev (record_hash B) ZERO32 (map snd h) \<and>
    (\<forall>i. Suc i < length h \<longrightarrow> sr_regime (snd (h ! i)) = SingleWriter \<longrightarrow>
      sr_writer_id (snd (h ! i)) = sr_writer_id (snd (h ! Suc i)) \<or>
      handed_over B hs slot (sr_writer_id (snd (h ! i))) (snd (h ! Suc i)))"

definition histories_inv :: "backend \<Rightarrow> peer \<Rightarrow> bool" where
  "histories_inv B p \<longleftrightarrow> (\<forall>slot h. btm_get (pe_slots p) slot = Some h \<and> length h < 2 ^ 64 \<longrightarrow>
    history_ok B (pe_roster p) slot (Peer_handoffs p slot) h)"

lemma handed_over_mono: "handed_over B hs slot w r \<Longrightarrow> set hs \<subseteq> set hs' \<Longrightarrow> handed_over B hs' slot w r"
  by (auto simp: handed_over_def list_ex_iff)

lemma history_ok_mono: "history_ok B ros slot hs h \<Longrightarrow> set hs \<subseteq> set hs' \<Longrightarrow> history_ok B ros slot hs' h"
  unfolding history_ok_def using handed_over_mono by blast

lemma of_nat_u64_less: "i < n \<Longrightarrow> n < 2 ^ 64 \<Longrightarrow> (of_nat i :: u64) < of_nat n"
  by (simp add: word_less_nat_alt unat_of_nat)

lemma history_keys:
  assumes "history_ok B ros slot hs h" and k: "k \<in> fst ` set h"
  shows "\<exists>i < length h. k = of_nat i"
proof -
  have "set (map fst h) = set (map of_nat [0 ..< length h])" using assms(1) by (simp add: history_ok_def)
  then have "k \<in> of_nat ` {0 ..< length h}" using k by simp
  then show ?thesis by auto
qed

lemma history_last:
  assumes "history_ok B ros slot hs h" and len: "length h < 2 ^ 64"
  shows "fst (last h) = of_nat (length h - 1)" and "btm_get h (fst (last h)) = Some (snd (last h))"
proof -
  have ne: "h \<noteq> []" and keys: "map fst h = map of_nat [0 ..< length h]"
    using assms by (auto simp: history_ok_def)
  have "fst (last h) = map fst h ! (length h - 1)" using ne by (simp add: last_conv_nth)
  also have "\<dots> = of_nat (length h - 1)" unfolding keys using ne by simp
  finally show "fst (last h) = of_nat (length h - 1)" .
  have "distinct (map fst h)"
    unfolding keys distinct_map using len
    by (auto simp: inj_on_def unat_of_nat dest!: arg_cong [of _ _ unat])
  then show "btm_get h (fst (last h)) = Some (snd (last h))"
    using ne by (simp add: map_of_is_SomeI)
qed

lemma history_snoc:
  assumes h: "history_ok B ros slot hs h" and len: "Suc (length h) < 2 ^ 64"
    and seq: "sr_seq r = of_nat (length h)" and slot: "sr_slot_id r = slot"
    and ros: "Roster_get ros (sr_writer_id r) = Some vk" "SlotRecord_verify B r vk = Inr ()"
    and prev: "sr_prev r = record_hash B (snd (last h))"
    and writer: "sr_regime (snd (last h)) = SingleWriter \<Longrightarrow> sr_writer_id (snd (last h)) \<noteq> sr_writer_id r \<Longrightarrow>
      handed_over B hs slot (sr_writer_id (snd (last h))) r"
  shows "history_ok B ros slot hs (h @ [(sr_seq r, r)])"
proof -
  have ne: "h \<noteq> []" using h by (simp add: history_ok_def)
  have "head_link (record_hash B) ZERO32 (map snd h) = record_hash B (snd (last h))"
    using ne by (simp add: head_link_last last_map)
  moreover have "sr_regime (snd ((h @ [(sr_seq r, r)]) ! i)) = SingleWriter \<longrightarrow>
      sr_writer_id (snd ((h @ [(sr_seq r, r)]) ! i)) = sr_writer_id (snd ((h @ [(sr_seq r, r)]) ! Suc i)) \<or>
      handed_over B hs slot (sr_writer_id (snd ((h @ [(sr_seq r, r)]) ! i)))
        (snd ((h @ [(sr_seq r, r)]) ! Suc i))" if "Suc i < length (h @ [(sr_seq r, r)])" for i
  proof (cases "Suc i = length h")
    case True
    then have "h ! i = last h" using ne by (simp add: last_conv_nth flip: True)
    with True writer show ?thesis by (auto simp: nth_append)
  next
    case False
    with that h show ?thesis by (auto simp: nth_append history_ok_def)
  qed
  ultimately show ?thesis
    using h seq slot ros prev unfolding history_ok_def by auto
qed

lemma zero_prev: "all_zero x \<Longrightarrow> length x = 32 \<Longrightarrow> x = ZERO32"
  by (auto simp: all_zero_def ZERO32_def list_all_iff intro!: replicate_eqI)

lemma history_first:
  assumes "wf_SlotRecord B r" and "sr_seq r = 0" and "sr_slot_id r = slot"
    and "Roster_get ros (sr_writer_id r) = Some vk" and "SlotRecord_verify B r vk = Inr ()"
  shows "history_ok B ros slot hs [(sr_seq r, r)]"
proof -
  have "sr_prev r = ZERO32"
    using assms(1,2) by (intro zero_prev) (auto simp: wf_SlotRecord_def widths_SlotRecord_def genesis_ok_def)
  with assms show ?thesis by (auto simp: history_ok_def)
qed

text \<open>Accepting a record turns a good history into a good history.\<close>

lemma slot_accepts_history:
  assumes inv: "histories_inv B p" and acc: "slot_accepts B p r" and wf: "wf_SlotRecord B r"
    and h': "btm_get (btm_upsert (sr_slot_id r) [] (btm_insert (sr_seq r) r) (pe_slots p)) (sr_slot_id r) = Some h'"
    and len: "length h' < 2 ^ 64"
  shows "history_ok B (pe_roster p) (sr_slot_id r) (Peer_handoffs p (sr_slot_id r)) h' \<and>
    h' = (case btm_get (pe_slots p) (sr_slot_id r) of None \<Rightarrow> [] | Some h \<Rightarrow> h) @ [(sr_seq r, r)]"
proof -
  obtain vk where ros: "Roster_get (pe_roster p) (sr_writer_id r) = Some vk" "SlotRecord_verify B r vk = Inr ()"
    using acc by (auto simp: slot_accepts_def)
  show ?thesis
  proof (cases "btm_get (pe_slots p) (sr_slot_id r)")
    case None
    then have "h' = [(sr_seq r, r)]" and "sr_seq r = 0"
      using h' acc by (auto simp: btm_get_upsert slot_accepts_def)
    then show ?thesis using history_first [OF wf _ refl ros] None by simp
  next
    case (Some h)
    then have h'_eq: "h' = btm_insert (sr_seq r) r h" using h' by (simp add: btm_get_upsert)
    have grow: "length h \<le> length (btm_insert k v h)" for k v and h :: "(u64, slot_record) btreemap"
      by (induction h) auto
    have small: "length h < 2 ^ 64" using len grow [of h] unfolding h'_eq by (rule le_less_trans [rotated])
    then have ok: "history_ok B (pe_roster p) (sr_slot_id r) (Peer_handoffs p (sr_slot_id r)) h"
      using inv Some by (simp add: histories_inv_def)
    then have ne: "h \<noteq> []" by (simp add: history_ok_def)
    note lst = history_last [OF ok small]
    have suc: "of_nat (length h - 1) + 1 = (of_nat (length h) :: u64)"
      using ne by (cases h) (simp_all add: add.commute)
    have step: "sr_seq r = of_nat (length h)" "sr_prev r = record_hash B (snd (last h))"
      "sr_regime (snd (last h)) = SingleWriter \<Longrightarrow> sr_writer_id (snd (last h)) \<noteq> sr_writer_id r \<Longrightarrow>
        handed_over B (Peer_handoffs p (sr_slot_id r)) (sr_slot_id r) (sr_writer_id (snd (last h))) r"
      using acc Some ne lst suc
      by (auto simp: slot_accepts_def handoff_authorised_def handed_over_def Let_def)
    have "k < sr_seq r" if "k \<in> fst ` set h" for k
      using history_keys [OF ok that] small by (auto simp: step(1) of_nat_u64_less)
    then have snoc: "h' = h @ [(sr_seq r, r)]" unfolding h'_eq by (intro btm_insert_last) blast
    moreover have "history_ok B (pe_roster p) (sr_slot_id r) (Peer_handoffs p (sr_slot_id r)) h'"
      unfolding snoc by (rule history_snoc [OF ok _ step(1) refl ros step(2,3)]) (use len snoc in simp_all)
    ultimately show ?thesis using Some by simp
  qed
qed

lemma set_insert_new: "k \<notin> fst ` set m \<Longrightarrow> set (btm_insert k v m) = insert (k, v) (set m)"
  by (induction k v m rule: btm_insert.induct) auto

lemma handoffs_grow:
  assumes "get2 (pe_handoffs p) (sh_slot_id h) (handoff_key_of B h) = None"
  shows "set (Peer_handoffs p slot) \<subseteq> set (opt_values (btm_get
    (btm_upsert (sh_slot_id h) [] (btm_insert (handoff_key_of B h) h) (pe_handoffs p)) slot))"
proof (cases "btm_get (pe_handoffs p) slot")
  case (Some m)
  have "handoff_key_of B h \<notin> fst ` set m" if "slot = sh_slot_id h"
    using assms that Some by (simp add: get2_def map_of_eq_None_iff)
  with Some show ?thesis
    by (auto simp: Peer_handoffs_def opt_values_def btm_get_upsert set_insert_new)
qed (simp add: Peer_handoffs_def opt_values_def)

lemma histories_effect: "peer_effect B p q \<Longrightarrow> histories_inv B p \<Longrightarrow> histories_inv B q"
proof (induction rule: peer_effect.induct)
  case (eff_slot r bs)
  then show ?case
    using slot_accepts_history [of B p r] unfolding histories_inv_def
    by (auto simp: put_slots_def Peer_handoffs_def btm_get_upsert split: if_splits)
next
  case (eff_handoff h bs)
  then show ?case
    using handoffs_grow [of p h B] history_ok_mono unfolding histories_inv_def
    by (simp add: put_handoffs_def Peer_handoffs_def) blast
qed (auto simp: histories_inv_def Peer_handoffs_def put_defs put_leases_def put_retention_def)

lemma contiguousI:
  "(\<And>i. i < length rs \<Longrightarrow> seqn (rs ! i) = of_nat (n + i)) \<Longrightarrow> n + length rs \<le> 2 ^ 64 \<Longrightarrow>
    contiguous seqn (of_nat n) rs"
proof (induction rs arbitrary: n)
  case (Cons r rs)
  have rest: "contiguous seqn (of_nat (Suc n)) rs"
    using Cons.prems(1) [of "Suc _"] Cons.prems(2) by (intro Cons.IH) auto
  have "unat (saturating_add (of_nat n) 1 :: u64) = unat (of_nat (Suc n) :: u64)" if "rs \<noteq> []"
    using Cons.prems(2) that by (cases rs) (auto simp: unat_saturating_add unat_of_nat simp del: of_nat_Suc)
  then have "saturating_add (of_nat n) 1 = (of_nat (Suc n) :: u64)" if "rs \<noteq> []"
    using that by (simp add: word_unat_eq_iff)
  with rest Cons.prems(1) [of 0] show ?case by (cases "rs = []") auto
qed simp

lemma writers_okI:
  "(\<And>i. Suc i < length rs \<Longrightarrow> sr_writer_id (rs ! i) = sr_writer_id (rs ! Suc i) \<or>
      ok (sr_writer_id (rs ! i)) (rs ! Suc i)) \<Longrightarrow>
   (rs \<noteq> [] \<Longrightarrow> (case sole of None \<Rightarrow> True | Some w \<Rightarrow> w = sr_writer_id (hd rs) \<or> ok w (hd rs))) \<Longrightarrow>
   writers_ok ok sole rs"
proof (induction rs arbitrary: sole)
  case (Cons r rs)
  have "writers_ok ok (Some (sr_writer_id r)) rs"
  proof (rule Cons.IH)
    show "sr_writer_id (rs ! i) = sr_writer_id (rs ! Suc i) \<or> ok (sr_writer_id (rs ! i)) (rs ! Suc i)"
      if "Suc i < length rs" for i using Cons.prems(1) [of "Suc i"] that by simp
    show "case Some (sr_writer_id r) of None \<Rightarrow> True | Some w \<Rightarrow> w = sr_writer_id (hd rs) \<or> ok w (hd rs)"
      if "rs \<noteq> []" using Cons.prems(1) [of 0] that by (cases rs) auto
  qed
  moreover have "case sole of None \<Rightarrow> True | Some w \<Rightarrow> w = sr_writer_id r \<or> ok w r"
    using Cons.prems(2) by (cases sole) auto
  ultimately show ?case by simp
qed simp

lemma history_valid:
  assumes ok: "history_ok B ros slot hs h" and len: "length h < 2 ^ 64"
    and reg: "\<And>r. r \<in> set (map snd h) \<Longrightarrow> sr_regime r = g"
  shows "valid_slot_chain B (map snd h) slot ros None hs"
proof -
  have ne: "h \<noteq> []" and keys: "map fst h = map of_nat [0 ..< length h]"
    and recs: "\<And>k r. (k, r) \<in> set h \<Longrightarrow> sr_seq r = k \<and> sr_slot_id r = slot \<and>
      (\<exists>vk. Roster_get ros (sr_writer_id r) = Some vk \<and> SlotRecord_verify B r vk = Inr ())"
    using ok by (auto simp: history_ok_def)
  have seqs: "sr_seq (map snd h ! i) = of_nat i" if "i < length h" for i
  proof -
    have "sr_seq (snd (h ! i)) = map fst h ! i"
      using recs [of "fst (h ! i)" "snd (h ! i)"] that by simp
    then show ?thesis using that by (simp add: keys del: nth_map) (simp add: that)
  qed
  have hd: "hd (map snd h) \<in> set (map snd h)" using ne by (intro hd_in_set) simp
  have acc: "record_accepted B slot ros (sr_regime (hd (map snd h))) r" if "r \<in> set (map snd h)" for r
    using recs reg that reg [OF hd] by (auto simp: record_accepted_def)
  have cont: "contiguous sr_seq (of_nat 0) (map snd h)"
    using seqs len by (intro contiguousI) auto
  have "writers_ok (handed_over B hs slot) None (map snd h)" if "sr_regime (hd (map snd h)) = SingleWriter"
  proof (rule writers_okI)
    show "sr_writer_id (map snd h ! i) = sr_writer_id (map snd h ! Suc i) \<or>
        handed_over B hs slot (sr_writer_id (map snd h ! i)) (map snd h ! Suc i)"
      if "Suc i < length (map snd h)" for i
      using ok that reg [of "snd (h ! i)"] reg [OF hd] \<open>sr_regime (hd (map snd h)) = SingleWriter\<close>
      by (auto simp: history_ok_def)
  qed simp
  moreover have "sr_seq (hd (map snd h)) = of_nat 0"
    using seqs [of 0] ne by (simp add: hd_conv_nth)
  ultimately show ?thesis
    using acc cont ok ne by (auto simp: valid_slot_chain_def history_ok_def)
qed

lemma honest_history:
  assumes "pe_hostility p = HONEST" and "btm_get (pe_slots p) slot = Some h"
    and "history_ok B ros slot hs h" and "length h < 2 ^ 64"
  shows "slot_history p slot 0 = map snd h" and "slot_head p slot = Some (snd (last h))"
proof -
  have ne: "h \<noteq> []" using assms(3) by (simp add: history_ok_def)
  have br: "branch p slot = Some h" using assms(1,2) by (simp add: branch_def HONEST_def)
  show head: "slot_head p slot = Some (snd (last h))"
    using assms(1) ne by (simp add: slot_head_def br HONEST_def)
  have "(fst (last h), snd (last h)) \<in> set h" using ne by simp
  then have up: "sr_seq (snd (last h)) = of_nat (length h - 1)"
    using assms(3) history_last(1) [OF assms(3,4)] by (auto simp: history_ok_def)
  have "k \<le> of_nat (length h - 1)" if "(k, r) \<in> set h" for k r
    using history_keys [OF assms(3), of k] that assms(4)
    by (force simp: word_le_nat_alt unat_of_nat)
  then have "filter (\<lambda>(k, _). 0 \<le> k \<and> k \<le> of_nat (length h - 1)) h = h"
    by (intro filter_True) auto
  then show "slot_history p slot 0 = map snd h"
    by (simp add: slot_history_def br head up Let_def)
qed

lemma effect_const:
  "peer_effect B p q \<Longrightarrow> pe_roster q = pe_roster p \<and> pe_hostility q = pe_hostility p \<and>
    pe_quorum q = pe_quorum p \<and> pe_delete_authority q = pe_delete_authority p"
  by (induction rule: peer_effect.induct) (simp_all add: put_defs put_leases_def put_retention_def)

lemma run_const:
  assumes "peer_run B p q"
  shows "pe_roster q = pe_roster p" and "pe_hostility q = pe_hostility p" and "pe_quorum q = pe_quorum p"
    and "pe_delete_authority q = pe_delete_authority p"
proof -
  have "pe_roster q = pe_roster p \<and> pe_hostility q = pe_hostility p \<and> pe_quorum q = pe_quorum p \<and>
      pe_delete_authority q = pe_delete_authority p"
    by (rule run_invariant [OF assms]) (auto dest: effect_const)
  then show "pe_roster q = pe_roster p" "pe_hostility q = pe_hostility p" "pe_quorum q = pe_quorum p"
    "pe_delete_authority q = pe_delete_authority p" by auto
qed

lemma run_histories: "fresh_peer p0 \<Longrightarrow> peer_run B p0 p \<Longrightarrow> histories_inv B p"
  by (rule run_invariant [where I = "histories_inv B", OF _ _ histories_effect])
    (auto simp: fresh_peer_def histories_inv_def)

section \<open>The deletion trail\<close>

definition trail_inv :: "backend \<Rightarrow> peer \<Rightarrow> bool" where
  "trail_inv B p \<longleftrightarrow> (\<forall>rh e at. btm_get (pe_delete_executions p) rh = Some (e, at) \<longrightarrow>
    de_request_hash e = rh \<and> (\<exists>request recent n k. btm_get (pe_delete_requests p) rh = Some request \<and>
      decide B request e recent (pe_quorum p) (pe_delete_authority p) at = Execute n k))"

lemma trail_effect: "peer_effect B p q \<Longrightarrow> trail_inv B p \<Longrightarrow> trail_inv B q"
proof (induction rule: peer_effect.induct)
  case (eff_request r bs)
  then show ?case by (fastforce simp: trail_inv_def put_requests_def)
next
  case (eff_execution e request now n k bs)
  then show ?case by (fastforce simp: trail_inv_def put_executions_def)
qed (auto simp: trail_inv_def put_defs put_leases_def put_retention_def)

lemma run_trail: "fresh_peer p0 \<Longrightarrow> peer_run B p0 p \<Longrightarrow> trail_inv B p"
  by (rule run_invariant [where I = "trail_inv B", OF _ _ trail_effect])
    (auto simp: fresh_peer_def trail_inv_def)

lemma trail_grows:
  "peer_effect B p q \<Longrightarrow> btm_get (pe_delete_requests p) \<subseteq>\<^sub>m btm_get (pe_delete_requests q) \<and>
    btm_get (pe_delete_executions p) \<subseteq>\<^sub>m btm_get (pe_delete_executions q)"
  by (induction rule: peer_effect.induct)
    (auto simp: put_defs put_leases_def put_retention_def map_le_def dom_def)

section \<open>Retention\<close>

lemma retention_effect:
  assumes "peer_effect B p q" and "a \<in> set (pe_retention p)" and "a \<notin> set (pe_retention q)"
    and "\<not> ignore_retention (pe_hostility p)"
  shows "\<exists>e. DeleteExecution_verify B e = Inr () \<and> btm_get (pe_delete_executions p) (de_request_hash e) \<noteq> None"
  using assms by (induction rule: peer_effect.induct) (auto simp: put_defs put_leases_def put_retention_def)

lemma blobs_effect:
  assumes "peer_effect B p q" and "BlobStore_has (pe_blobs p) a" and "retains p a"
    and "\<not> ignore_retention (pe_hostility p)"
  shows "BlobStore_has (pe_blobs q) a"
  using assms by (induction rule: peer_effect.induct) (auto simp: put_defs put_leases_def put_retention_def)

end
