(* ===== verification/Peer_Disk.thy ===== *)
theory Peer_Disk
  imports Peer_Props
begin

text \<open>
  What the peer acknowledged is on its disk. The contract of a table with its directory of files is a
  locale: what is filed decodes again to the value it was filed for. Under it a table and its
  directory stay in step through every insertion, and the load loop rebuilds the table, except where a
  temporary file that decodes was left behind: \<open>load\<close> reads it like any other. The locale is
  interpreted for the six directories of signed records of \<open>nas-peer/src/peer.rs\<close>, and the peer's
  disk invariant follows for every reachable state.
\<close>

section \<open>Durability\<close>

definition to_option :: "'e + 'a \<Rightarrow> 'a option" where
  "to_option r = (case r of Inl _ \<Rightarrow> None | Inr x \<Rightarrow> Some x)"

lemma to_option_Some_iff [simp]: "to_option r = Some x \<longleftrightarrow> r = Inr x"
  by (simp add: to_option_def split: sum.split)

text \<open>
  A table of tables and its directory are in step: the same keys, and under each key the encoding of
  a value that decodes again and belongs there.
\<close>

definition in_step ::
  "('v \<Rightarrow> 's::linorder \<times> 'k::linorder) \<Rightarrow> ('v \<Rightarrow> 'e + bytes) \<Rightarrow> ('v \<Rightarrow> bool) \<Rightarrow> ('s \<times> 'k, bytes) btreemap
    \<Rightarrow> ('s, ('k, 'v) btreemap) btreemap \<Rightarrow> bool" where
  "in_step key enc good files m \<longleftrightarrow> btm_inv files \<and>
    (\<forall>s k. btm_get files (s, k) = Option.bind (get2 m s k) (to_option \<circ> enc)) \<and>
    (\<forall>s k v. get2 m s k = Some v \<longrightarrow> good v \<and> key v = (s, k) \<and> \<not> is_err (enc v))"

definition load_table ::
  "('v \<Rightarrow> 's::linorder \<times> 'k::linorder) \<Rightarrow> (bytes \<Rightarrow> 'v option) \<Rightarrow> bytes list \<Rightarrow> ('s, ('k, 'v) btreemap) btreemap" where
  "load_table key dec listing = fold (\<lambda>bs m.
     case dec bs of None \<Rightarrow> m | Some v \<Rightarrow> btm_upsert (fst (key v)) [] (btm_insert (snd (key v)) v) m) listing []"

text \<open>What a directory holds for a key: the values its files decode to, the temporary ones included.\<close>

definition claims :: "('v \<Rightarrow> 'x) \<Rightarrow> (bytes \<Rightarrow> 'v option) \<Rightarrow> bytes set \<Rightarrow> 'x \<Rightarrow> 'v set" where
  "claims key dec fs x = {v. key v = x \<and> (\<exists>bs \<in> fs. dec bs = Some v)}"

text \<open>
  A table as it is reloaded: under every key what was there before, or a value that a temporary file
  left behind holds for this key.
\<close>

definition restored :: "('v \<Rightarrow> 'x) \<Rightarrow> (bytes \<Rightarrow> 'v option) \<Rightarrow> bytes set \<Rightarrow> ('x \<Rightarrow> 'v option) \<Rightarrow> ('x \<Rightarrow> 'v option) \<Rightarrow> bool" where
  "restored key dec tmp before after \<longleftrightarrow> (\<forall>x. after x = before x \<or> after x \<in> Some ` claims key dec tmp x)"

lemma restored_exactly: "restored key dec {} before after \<Longrightarrow> after = before"
  by (auto simp: restored_def claims_def)

text \<open>A map reloaded entry by entry, from a listing of the named and the temporary files.\<close>

lemma restored_listing:
  assumes "\<And>x. (if claims key dec (set listing) x = {} then after x = None else after x \<in> Some ` claims key dec (set listing) x)"
    and "set listing = named \<union> tmp" "\<And>x. claims key dec named x = set_option (before x)"
  shows "restored key dec tmp before after"
  unfolding restored_def
proof
  fix x
  have all: "claims key dec (set listing) x = set_option (before x) \<union> claims key dec tmp x"
    using assms(2) assms(3) [of x] unfolding claims_def by blast
  show "after x = before x \<or> after x \<in> Some ` claims key dec tmp x"
    using assms(1) [of x] unfolding all by (cases "before x") (auto split: if_splits)
qed

lemma get2_upsert:
  "get2 (btm_upsert s [] (btm_insert k v) m) s' k' = (if (s', k') = (s, k) then Some v else get2 m s' k')"
  by (auto simp: get2_def btm_get_upsert split: option.splits)

lemma get2_Nil [simp]: "get2 [] s k = None"
  by (simp add: get2_def)

lemma btm_inv_get_Cons: "btm_inv ((j, w) # m) \<Longrightarrow> btm_get m j = None"
  by (fastforce simp: map_of_eq_None_iff)

locale durable_table =
  fixes key :: "'v \<Rightarrow> 's::linorder \<times> 'k::linorder" and enc :: "'v \<Rightarrow> 'e + bytes"
    and dec :: "bytes \<Rightarrow> 'v option" and good :: "'v \<Rightarrow> bool"
  assumes dec_enc: "good v \<Longrightarrow> enc v = Inr bs \<Longrightarrow> dec bs = Some v"
begin

lemma in_step_empty: "in_step key enc good [] []"
  by (simp add: in_step_def)

lemma in_step_insert:
  assumes "in_step key enc good files m" and "good v" and "enc v = Inr bs" and "key v = (s, k)"
  shows "in_step key enc good (btm_insert (s, k) bs files) (btm_upsert s [] (btm_insert k v) m)"
  using assms unfolding in_step_def by (simp add: get2_upsert to_option_def)

lemma load_claims:
  "if claims key dec (set listing) (s, k) = {} then get2 (load_table key dec listing) s k = None
   else get2 (load_table key dec listing) s k \<in> Some ` claims key dec (set listing) (s, k)"
proof (induction listing rule: rev_induct)
  case (snoc bs listing)
  show ?case
  proof (cases "dec bs")
    case None
    then have "claims key dec (set (listing @ [bs])) (s, k) = claims key dec (set listing) (s, k)"
      "load_table key dec (listing @ [bs]) = load_table key dec listing" by (auto simp: load_table_def claims_def)
    then show ?thesis using snoc by simp
  next
    case (Some v)
    have "claims key dec (set (listing @ [bs])) (s, k) = (if key v = (s, k) then {v} else {}) \<union> claims key dec (set listing) (s, k)"
      using Some by (auto simp: claims_def)
    moreover have "get2 (load_table key dec (listing @ [bs])) s k = (if key v = (s, k) then Some v else get2 (load_table key dec listing) s k)"
      using Some get2_upsert [of "fst (key v)" "snd (key v)" v] by (auto simp: load_table_def)
    ultimately show ?thesis using snoc by auto
  qed
qed (simp add: load_table_def claims_def)

lemma claims_in_step:
  assumes "in_step key enc good files m"
  shows "claims key dec (snd ` set files) (s, k) = set_option (get2 m s k)"
proof -
  have inv: "btm_inv files" using assms by (simp add: in_step_def)
  have filed: "\<exists>v. dec bs = Some v \<and> key v = (s', k') \<and> get2 m s' k' = Some v" if "((s', k'), bs) \<in> set files" for s' k' bs
  proof -
    have "btm_get files (s', k') = Some bs" using that inv by (simp add: map_of_is_SomeI strict_sorted_iff)
    then obtain v where "get2 m s' k' = Some v" "enc v = Inr bs" "good v" "key v = (s', k')"
      using assms unfolding in_step_def by (auto simp: bind_eq_Some_conv)
    then show ?thesis using dec_enc by blast
  qed
  have "\<exists>bs. ((s, k), bs) \<in> set files \<and> dec bs = Some v \<and> key v = (s, k)" if v: "get2 m s k = Some v" for v
  proof -
    obtain bs where "enc v = Inr bs" "good v" "key v = (s, k)" using assms v unfolding in_step_def by (cases "enc v") (fastforce, auto)
    moreover from this have "btm_get files (s, k) = Some bs" using assms v by (simp add: in_step_def to_option_def)
    ultimately show ?thesis using dec_enc map_of_SomeD by metis
  qed
  then have "set_option (get2 m s k) \<subseteq> claims key dec (snd ` set files) (s, k)" by (force simp: claims_def)
  moreover have "get2 m s k = Some v" if v: "v \<in> claims key dec (snd ` set files) (s, k)" for v
  proof -
    obtain x bs where x: "(x, bs) \<in> set files" "dec bs = Some v" "key v = (s, k)" using v by (auto simp: claims_def)
    then show ?thesis using filed [of "fst x" "snd x" bs] by (cases x) simp
  qed
  ultimately show ?thesis by auto
qed

lemma load_restored:
  assumes "in_step key enc good (dr_files d) m" "set (scan_dir io d) = set (map snd (dr_files d) @ map snd (dr_tmp d))"
  shows "restored key dec (snd ` set (dr_tmp d)) (case_prod (get2 m)) (case_prod (get2 (load_table key dec (scan_dir io d))))"
proof (rule restored_listing)
  show "set (scan_dir io d) = snd ` set (dr_files d) \<union> snd ` set (dr_tmp d)" using assms(2) by simp
  show "claims key dec (snd ` set (dr_files d)) x = set_option (case_prod (get2 m) x)" for x
    using claims_in_step [OF assms(1)] by (cases x) simp
  show "if claims key dec (set (scan_dir io d)) x = {} then case_prod (get2 (load_table key dec (scan_dir io d))) x = None
      else case_prod (get2 (load_table key dec (scan_dir io d))) x \<in> Some ` claims key dec (set (scan_dir io d)) x" for x
    using load_claims [of "scan_dir io d"] by (cases x) simp
qed

end

text \<open>The same for a table with one level.\<close>

definition in_step1 ::
  "('v \<Rightarrow> 'k::linorder) \<Rightarrow> ('v \<Rightarrow> 'e + bytes) \<Rightarrow> ('v \<Rightarrow> bool) \<Rightarrow> ('k, bytes) btreemap \<Rightarrow> ('k, 'v) btreemap \<Rightarrow> bool" where
  "in_step1 key enc good files m \<longleftrightarrow> btm_inv files \<and>
    (\<forall>k. btm_get files k = Option.bind (btm_get m k) (to_option \<circ> enc)) \<and>
    (\<forall>k v. btm_get m k = Some v \<longrightarrow> good v \<and> key v = k \<and> \<not> is_err (enc v))"

definition load_table1 :: "('v \<Rightarrow> 'k::linorder) \<Rightarrow> (bytes \<Rightarrow> 'v option) \<Rightarrow> bytes list \<Rightarrow> ('k, 'v) btreemap" where
  "load_table1 key dec listing = fold (\<lambda>bs m. case dec bs of None \<Rightarrow> m | Some v \<Rightarrow> btm_insert (key v) v m) listing []"

locale durable_table1 =
  fixes key :: "'v \<Rightarrow> 'k::linorder" and enc :: "'v \<Rightarrow> 'e + bytes"
    and dec :: "bytes \<Rightarrow> 'v option" and good :: "'v \<Rightarrow> bool"
  assumes dec_enc: "good v \<Longrightarrow> enc v = Inr bs \<Longrightarrow> dec bs = Some v"
begin

lemma in_step_empty: "in_step1 key enc good [] []"
  by (simp add: in_step1_def)

lemma in_step_insert:
  assumes "in_step1 key enc good files m" and "good v" and "enc v = Inr bs" and "key v = k"
  shows "in_step1 key enc good (btm_insert k bs files) (btm_insert k v m)"
  using assms unfolding in_step1_def by (simp add: to_option_def)

lemma load_claims:
  "if claims key dec (set listing) k = {} then btm_get (load_table1 key dec listing) k = None
   else btm_get (load_table1 key dec listing) k \<in> Some ` claims key dec (set listing) k"
proof (induction listing rule: rev_induct)
  case (snoc bs listing)
  show ?case
  proof (cases "dec bs")
    case None
    then have "claims key dec (set (listing @ [bs])) k = claims key dec (set listing) k"
      "load_table1 key dec (listing @ [bs]) = load_table1 key dec listing" by (auto simp: load_table1_def claims_def)
    then show ?thesis using snoc by simp
  next
    case (Some v)
    have "claims key dec (set (listing @ [bs])) k = (if key v = k then {v} else {}) \<union> claims key dec (set listing) k"
      using Some by (auto simp: claims_def)
    moreover have "btm_get (load_table1 key dec (listing @ [bs])) k = (if key v = k then Some v else btm_get (load_table1 key dec listing) k)"
      using Some by (simp add: load_table1_def)
    ultimately show ?thesis using snoc by auto
  qed
qed (simp add: load_table1_def claims_def)

lemma claims_in_step:
  assumes "in_step1 key enc good files m"
  shows "claims key dec (snd ` set files) k = set_option (btm_get m k)"
proof -
  have inv: "btm_inv files" using assms by (simp add: in_step1_def)
  have filed: "\<exists>v. dec bs = Some v \<and> key v = k' \<and> btm_get m k' = Some v" if "(k', bs) \<in> set files" for k' bs
  proof -
    have "btm_get files k' = Some bs" using that inv by (simp add: map_of_is_SomeI strict_sorted_iff)
    then obtain v where "btm_get m k' = Some v" "enc v = Inr bs" "good v" "key v = k'"
      using assms unfolding in_step1_def by (auto simp: bind_eq_Some_conv)
    then show ?thesis using dec_enc by blast
  qed
  have "\<exists>bs. (k, bs) \<in> set files \<and> dec bs = Some v \<and> key v = k" if v: "btm_get m k = Some v" for v
  proof -
    obtain bs where "enc v = Inr bs" "good v" "key v = k" using assms v unfolding in_step1_def by (cases "enc v") (fastforce, auto)
    moreover from this have "btm_get files k = Some bs" using assms v by (simp add: in_step1_def to_option_def)
    ultimately show ?thesis using dec_enc map_of_SomeD by metis
  qed
  then have "set_option (btm_get m k) \<subseteq> claims key dec (snd ` set files) k" by (force simp: claims_def)
  moreover have "btm_get m k = Some v" if v: "v \<in> claims key dec (snd ` set files) k" for v
  proof -
    obtain x bs where x: "(x, bs) \<in> set files" "dec bs = Some v" "key v = k" using v by (auto simp: claims_def)
    then show ?thesis using filed [of x bs] by simp
  qed
  ultimately show ?thesis by auto
qed

lemma load_restored:
  assumes "in_step1 key enc good (dr_files d) m" "set (scan_dir io d) = set (map snd (dr_files d) @ map snd (dr_tmp d))"
  shows "restored key dec (snd ` set (dr_tmp d)) (btm_get m) (btm_get (load_table1 key dec (scan_dir io d)))"
proof (rule restored_listing)
  show "set (scan_dir io d) = snd ` set (dr_files d) \<union> snd ` set (dr_tmp d)" using assms(2) by simp
  show "claims key dec (snd ` set (dr_files d)) x = set_option (btm_get m x)" for x
    by (rule claims_in_step [OF assms(1)])
  show "if claims key dec (set (scan_dir io d)) x = {} then btm_get (load_table1 key dec (scan_dir io d)) x = None
      else btm_get (load_table1 key dec (scan_dir io d)) x \<in> Some ` claims key dec (set (scan_dir io d)) x" for x
    by (rule load_claims)
qed

end

text \<open>Decoding followed by the check on load.\<close>

definition checked :: "('v \<Rightarrow> bool) \<Rightarrow> ('f + 'v) \<Rightarrow> 'v option" where
  "checked ok r = (case r of Inl _ \<Rightarrow> None | Inr v \<Rightarrow> if ok v then Some v else None)"

lemma checked_Inr [simp]: "checked ok (Inr v) = (if ok v then Some v else None)"
  by (simp add: checked_def)

text \<open>How a file of each directory is read. An execution is filed with the time it was recorded in front of it.\<close>

definition slot_of_file :: "backend \<Rightarrow> bytes \<Rightarrow> slot_record option" where
  "slot_of_file B bs = checked (\<lambda>_. True) (SlotRecord_decode B bs)"

definition handoff_of_file :: "backend \<Rightarrow> bytes \<Rightarrow> slot_handoff option" where
  "handoff_of_file B bs = checked (\<lambda>h. \<not> is_err (SlotHandoff_verify B h)) (SlotHandoff_decode B bs)"

definition witness_of_file :: "backend \<Rightarrow> bytes \<Rightarrow> witness option" where
  "witness_of_file B bs = checked (\<lambda>w. \<not> is_err (Witness_verify B w)) (Witness_decode B bs)"

definition approval_of_file :: "backend \<Rightarrow> bytes \<Rightarrow> delete_approval option" where
  "approval_of_file B bs = checked (\<lambda>a. \<not> is_err (DeleteApproval_verify B a)) (DeleteApproval_decode B bs)"

definition request_of_file :: "backend \<Rightarrow> bytes \<Rightarrow> delete_request option" where
  "request_of_file B bs = checked (\<lambda>r. \<not> is_err (DeleteRequest_verify B r)) (DeleteRequest_decode B bs)"

definition execution_file :: "delete_execution \<times> timestamp \<Rightarrow> delete_error + bytes" where
  "execution_file ea = rbind (DeleteExecution_encode (fst ea)) (\<lambda>bs. Ok (u64_le (snd ea) @ bs))"

definition execution_of_file :: "backend \<Rightarrow> bytes \<Rightarrow> (delete_execution \<times> timestamp) option" where
  "execution_of_file B bs =
    (if length bs < 8 then None
     else map_option (\<lambda>e. (e, u64_of_le (take 8 bs)))
            (checked (\<lambda>e. \<not> is_err (DeleteExecution_verify B e)) (DeleteExecution_decode B (drop 8 bs))))"

lemmas of_file_defs = slot_of_file_def handoff_of_file_def witness_of_file_def approval_of_file_def request_of_file_def execution_of_file_def

text \<open>The key of a record is the name it is filed under.\<close>

abbreviation slot_name :: "slot_record \<Rightarrow> slot_id \<times> u64" where
  "slot_name r \<equiv> (sr_slot_id r, sr_seq r)"

abbreviation handoff_name :: "backend \<Rightarrow> slot_handoff \<Rightarrow> slot_id \<times> handoff_key" where
  "handoff_name B h \<equiv> (sh_slot_id h, handoff_key_of B h)"

abbreviation witness_name :: "backend \<Rightarrow> witness \<Rightarrow> slot_id \<times> hash32 \<times> u64" where
  "witness_name B w \<equiv> (wt_slot_id w, witness_id B w, wt_seq w)"

abbreviation approval_name :: "backend \<Rightarrow> delete_approval \<Rightarrow> hash32 \<times> hash32" where
  "approval_name B a \<equiv> (da_request_hash a, approver_id B a)"

abbreviation execution_name :: "delete_execution \<times> timestamp \<Rightarrow> hash32" where
  "execution_name ea \<equiv> de_request_hash (fst ea)"

interpretation slots_dir: durable_table slot_name SlotRecord_encode "slot_of_file B" "wf_SlotRecord B" for B
proof unfold_locales
  show "slot_of_file B bs = Some r" if "wf_SlotRecord B r" "SlotRecord_encode r = Inr bs" for r bs
    using that slot_record.roundtrip [of B r bs] by (simp add: of_file_defs SlotRecord_decode_def SlotRecord_encode_def)
qed

interpretation handoffs_dir: durable_table "handoff_name B" SlotHandoff_encode "handoff_of_file B"
    "\<lambda>h. wf_SlotHandoff B h \<and> \<not> is_err (SlotHandoff_verify B h)" for B
proof unfold_locales
  show "handoff_of_file B bs = Some h" if "wf_SlotHandoff B h \<and> \<not> is_err (SlotHandoff_verify B h)" "SlotHandoff_encode h = Inr bs" for h bs
    using that slot_handoff.roundtrip [of B h bs] by (simp add: of_file_defs SlotHandoff_decode_def SlotHandoff_encode_def)
qed

interpretation witnesses_dir: durable_table "witness_name B" Witness_encode "witness_of_file B"
    "\<lambda>w. wf_Witness B w \<and> \<not> is_err (Witness_verify B w)" for B
proof unfold_locales
  show "witness_of_file B bs = Some w" if "wf_Witness B w \<and> \<not> is_err (Witness_verify B w)" "Witness_encode w = Inr bs" for w bs
    using that witness_decode_Inr_iff [of B bs w] by (simp add: of_file_defs)
qed

interpretation approvals_dir: durable_table "approval_name B" DeleteApproval_encode "approval_of_file B"
    "\<lambda>a. wf_DeleteApproval B a \<and> \<not> is_err (DeleteApproval_verify B a)" for B
proof unfold_locales
  show "approval_of_file B bs = Some a" if "wf_DeleteApproval B a \<and> \<not> is_err (DeleteApproval_verify B a)" "DeleteApproval_encode a = Inr bs" for a bs
    using that approval.roundtrip [of B a bs] by (simp add: of_file_defs)
qed

interpretation requests_dir: durable_table1 "request_hash B" DeleteRequest_encode "request_of_file B"
    "\<lambda>r. wf_DeleteRequest B r \<and> \<not> is_err (DeleteRequest_verify B r)" for B
proof unfold_locales
  show "request_of_file B bs = Some r" if "wf_DeleteRequest B r \<and> \<not> is_err (DeleteRequest_verify B r)" "DeleteRequest_encode r = Inr bs" for r bs
    using that delete_request.roundtrip [of B r bs] by (simp add: of_file_defs DeleteRequest_encode_def DeleteRequest_decode_def)
qed

interpretation executions_dir: durable_table1 execution_name execution_file "execution_of_file B"
    "\<lambda>ea. wf_DeleteExecution B (fst ea) \<and> \<not> is_err (DeleteExecution_verify B (fst ea))" for B
proof unfold_locales
  show "execution_of_file B bs = Some ea"
    if "wf_DeleteExecution B (fst ea) \<and> \<not> is_err (DeleteExecution_verify B (fst ea))" "execution_file ea = Inr bs" for ea bs
    using that delete_execution.roundtrip [of B "fst ea"]
    by (cases ea) (auto simp: execution_file_def of_file_defs rbind_Inr_iff)
qed

text \<open>The loops of \<open>load\<close> are these loads.\<close>

lemma load_tables:
  "load_slots B io d = load_table slot_name (slot_of_file B) (scan_dir io (dk_slots d))"
  "load_handoffs B io d = load_table (handoff_name B) (handoff_of_file B) (scan_dir io (dk_handoffs d))"
  "load_witnesses B io d = load_table (witness_name B) (witness_of_file B) (scan_dir io (dk_witnesses d))"
  "load_approvals B io d = load_table (approval_name B) (approval_of_file B) (scan_dir io (dk_approvals d))"
  "load_requests B io d = load_table1 (request_hash B) (request_of_file B) (scan_dir io (dk_requests d))"
  "load_executions B io d = load_table1 execution_name (execution_of_file B) (scan_dir io (dk_executions d))"
  unfolding load_slots_def load_handoffs_def load_witnesses_def load_approvals_def load_requests_def
    load_executions_def load_table_def load_table1_def
  by (intro fold_cong refl ext; auto simp: checked_def of_file_defs split: sum.split)+

definition disk_inv :: "backend \<Rightarrow> peer \<Rightarrow> bool" where
  "disk_inv B p \<longleftrightarrow>
    in_step slot_name SlotRecord_encode (wf_SlotRecord B) (dr_files (dk_slots (pe_disk p))) (pe_slots p) \<and>
    in_step (handoff_name B) SlotHandoff_encode
      (\<lambda>h. wf_SlotHandoff B h \<and> \<not> is_err (SlotHandoff_verify B h)) (dr_files (dk_handoffs (pe_disk p))) (pe_handoffs p) \<and>
    in_step (witness_name B) Witness_encode
      (\<lambda>w. wf_Witness B w \<and> \<not> is_err (Witness_verify B w)) (dr_files (dk_witnesses (pe_disk p))) (pe_witnesses p) \<and>
    in_step (approval_name B) DeleteApproval_encode
      (\<lambda>a. wf_DeleteApproval B a \<and> \<not> is_err (DeleteApproval_verify B a)) (dr_files (dk_approvals (pe_disk p)))
      (pe_delete_approvals p) \<and>
    in_step1 (request_hash B) DeleteRequest_encode
      (\<lambda>r. wf_DeleteRequest B r \<and> \<not> is_err (DeleteRequest_verify B r)) (dr_files (dk_requests (pe_disk p)))
      (pe_delete_requests p) \<and>
    in_step1 execution_name execution_file
      (\<lambda>ea. wf_DeleteExecution B (fst ea) \<and> \<not> is_err (DeleteExecution_verify B (fst ea)))
      (dr_files (dk_executions (pe_disk p))) (pe_delete_executions p)"

lemma disk_effect: "peer_effect B p q \<Longrightarrow> disk_inv B p \<Longrightarrow> disk_inv B q"
proof (induction rule: peer_effect.induct)
  case (eff_slot r bs)
  then show ?case
    using slots_dir.in_step_insert [of B "dr_files (dk_slots (pe_disk p))" "pe_slots p" r bs]
    by (simp add: disk_inv_def put_slots_def)
next
  case (eff_handoff h bs)
  then show ?case
    using handoffs_dir.in_step_insert [of B "dr_files (dk_handoffs (pe_disk p))" "pe_handoffs p" h bs]
    by (simp add: disk_inv_def put_handoffs_def)
next
  case (eff_witness w bs)
  then show ?case
    using witnesses_dir.in_step_insert [of B "dr_files (dk_witnesses (pe_disk p))" "pe_witnesses p" w bs]
    by (simp add: disk_inv_def put_witnesses_def)
next
  case (eff_approval a bs)
  then show ?case
    using approvals_dir.in_step_insert [of B "dr_files (dk_approvals (pe_disk p))" "pe_delete_approvals p" a bs]
    by (simp add: disk_inv_def put_approvals_def)
next
  case (eff_request r bs)
  then show ?case
    using requests_dir.in_step_insert [of B "dr_files (dk_requests (pe_disk p))" "pe_delete_requests p" r bs]
    by (simp add: disk_inv_def put_requests_def)
next
  case (eff_execution e request now n k bs)
  then show ?case
    using executions_dir.in_step_insert [of B "dr_files (dk_executions (pe_disk p))" "pe_delete_executions p" "(e, now)"]
    by (simp add: disk_inv_def put_executions_def execution_file_def)
qed (simp_all add: disk_inv_def put_defs put_leases_def put_retention_def same_files_def)

lemma run_disk: "fresh_peer p0 \<Longrightarrow> peer_run B p0 p \<Longrightarrow> disk_inv B p"
  by (rule run_invariant [where I = "disk_inv B", OF _ _ disk_effect])
    (auto simp: fresh_peer_def disk_inv_def empty_disk_def in_step_def in_step1_def)

text \<open>A scan that reads every file of a directory.\<close>

definition scans_all :: "io_env \<Rightarrow> bool" where
  "scans_all io \<longleftrightarrow> io_read io = None \<and> (\<forall>fs. set (io_listing io fs) = set fs)"

lemma scans_all_scan: "scans_all io \<Longrightarrow> set (scan_dir io d) = set (map snd (dr_files d) @ map snd (dr_tmp d))"
  unfolding scans_all_def scan_dir_def by blast

lemma load_disk:
  assumes "disk_inv B p" "scans_all io"
  shows "restored slot_name (slot_of_file B) (snd ` set (dr_tmp (dk_slots (pe_disk p))))
      (case_prod (get2 (pe_slots p))) (case_prod (get2 (load_slots B io (pe_disk p))))"
    and "restored (handoff_name B) (handoff_of_file B) (snd ` set (dr_tmp (dk_handoffs (pe_disk p))))
      (case_prod (get2 (pe_handoffs p))) (case_prod (get2 (load_handoffs B io (pe_disk p))))"
    and "restored (witness_name B) (witness_of_file B) (snd ` set (dr_tmp (dk_witnesses (pe_disk p))))
      (case_prod (get2 (pe_witnesses p))) (case_prod (get2 (load_witnesses B io (pe_disk p))))"
    and "restored (approval_name B) (approval_of_file B) (snd ` set (dr_tmp (dk_approvals (pe_disk p))))
      (case_prod (get2 (pe_delete_approvals p))) (case_prod (get2 (load_approvals B io (pe_disk p))))"
    and "restored (request_hash B) (request_of_file B) (snd ` set (dr_tmp (dk_requests (pe_disk p))))
      (btm_get (pe_delete_requests p)) (btm_get (load_requests B io (pe_disk p)))"
    and "restored execution_name (execution_of_file B) (snd ` set (dr_tmp (dk_executions (pe_disk p))))
      (btm_get (pe_delete_executions p)) (btm_get (load_executions B io (pe_disk p)))"
  using assms(1) unfolding disk_inv_def load_tables
  by (intro slots_dir.load_restored handoffs_dir.load_restored witnesses_dir.load_restored
      approvals_dir.load_restored requests_dir.load_restored executions_dir.load_restored scans_all_scan [OF assms(2)]; simp)+

end
