(* ===== verification/Peer_Theorems.thy ===== *)
theory Peer_Theorems
  imports Peer_Disk
begin

text \<open>
  The guarantees of the storage peer, over every run of its operations from an empty directory and
  every outcome of the file system, and a run of a concrete peer that meets their premises.
\<close>

section \<open>A concrete run\<close>

text \<open>A peer opened on an empty directory and configured: a roster, one subject, three approvers.\<close>

definition toy_peer :: peer where
  "toy_peer =
    \<lparr>pe_mode = E2ee, pe_blobs = toy_store, pe_slots = [], pe_forks = [], pe_view = 0,
     pe_roster = toy_roster, pe_acl = Acl_grant Acl_new [1] [Write], pe_subjects = [], pe_retention = [],
     pe_witnesses = [], pe_handoffs = [], pe_delete_requests = [], pe_delete_approvals = [],
     pe_delete_executions = [], pe_delete_authority = toy_authority, pe_quorum = QuorumPolicy_default,
     pe_leases = [], pe_gc_policy = GcPolicy_default, pe_checkpoints = [], pe_witness_only = False,
     pe_hostility = HONEST, pe_disk = empty_disk\<rparr>"

definition toy_addr :: addr where
  "toy_addr = toy_hash [4, 2]"

lemma toy_fresh: "fresh_peer toy_peer" and toy_honest: "pe_hostility toy_peer = HONEST"
  by (simp_all add: fresh_peer_def toy_peer_def)

lemma toy_wf:
  "wf_SlotRecord toy_backend toy_genesis" "wf_DeleteRequest toy_backend toy_request"
  "wf_DeleteExecution toy_backend toy_execution"
  by (simp_all add: wf_SlotRecord_def toy_genesis_def genesis_ok_def all_zero_def list_all_iff
      widths_SlotRecord_def wf_DeleteRequest_def wf_scope_def toy_request_def wf_DeleteExecution_def
      wf_DeleteApproval_def toy_execution_def toy_approval_def request_hash_def ADDR_LEN_def
      ROOT_NONCE_LEN_def)

text \<open>The run: publish a record, retain a blob, put it, ask for a deletion, execute it, forget.\<close>

definition toy_published :: peer where
  "toy_published = peer_step toy_backend toy_io (OpSlot [1] toy_genesis) toy_peer"

definition toy_holding :: peer where
  "toy_holding = peer_step toy_backend toy_io (OpPut [4, 2])
    (peer_step toy_backend toy_io (OpExtend [toy_addr]) toy_published)"

definition toy_executed :: peer where
  "toy_executed = peer_step toy_backend toy_io (OpExecute toy_execution 0)
    (peer_step toy_backend toy_io (OpRequest toy_request) toy_holding)"

lemma toy_runs:
  "peer_run toy_backend toy_peer toy_published" "peer_run toy_backend toy_peer toy_holding"
  "peer_run toy_backend toy_peer toy_executed"
  unfolding toy_executed_def toy_holding_def toy_published_def
  by (intro run_step run_refl; simp add: toy_wf toy_addr_def)+

lemma toy_encodes:
  "\<exists>bs. SlotRecord_encode toy_genesis = Inr bs" "\<exists>bs. DeleteRequest_encode toy_request = Inr bs"
  "\<exists>bs. DeleteExecution_encode toy_execution = Inr bs"
proof -
  have "list_all field_ok (SlotRecord_fields toy_genesis)"
    by (simp add: SlotRecord_fields_def toy_genesis_def MAX_FIELD_def)
  then show "\<exists>bs. SlotRecord_encode toy_genesis = Inr bs" by (simp add: SlotRecord_encode_def encode_fields_ok)
  have "list_all field_ok (DeleteRequest_fields toy_request)"
    by (simp add: DeleteRequest_fields_def toy_request_def MAX_FIELD_def)
  then show "\<exists>bs. DeleteRequest_encode toy_request = Inr bs" by (simp add: DeleteRequest_encode_def encode_fields_ok)
  show "\<exists>bs. DeleteExecution_encode toy_execution = Inr bs"
    by (simp add: DeleteExecution_encode_def toy_execution_def toy_approval_def DeleteApproval_encode_def
        DeleteApproval_fields_def encode_fields_ok MAX_FIELD_def MAX_APPROVALS_def request_hash_def frame_def)
qed

lemma toy_publishes:
  "\<exists>bs. toy_published = put_slots toy_peer (file_record (toy_slot, 0) bs empty_dir) [(toy_slot, [(0, toy_genesis)])]"
proof -
  obtain bs where bs: "SlotRecord_encode toy_genesis = Inr bs" using toy_encodes by blast
  have "Roster_get (pe_roster toy_peer) (sr_writer_id toy_genesis) = Some [7]"
    using toy_hash_77 by (simp add: toy_peer_def Roster_get_def toy_roster_def toy_genesis_def)
  moreover have "permits (Acl_check (pe_acl toy_peer) [1] Write (pe_mode toy_peer))"
    by (simp add: toy_peer_def Acl_check_def Acl_grant_def Acl_new_def enforceable_in_def permits_def
        btm_get_upsert)
  moreover have "\<not> hfork (pe_hostility toy_peer)" "pe_slots toy_peer = []" "pe_disk toy_peer = empty_disk"
    by (simp_all add: toy_peer_def HONEST_def)
  moreover have "sr_slot_id toy_genesis = toy_slot" "sr_seq toy_genesis = 0"
    by (simp_all add: toy_genesis_def toy_slot_def)
  ultimately have "toy_published = put_slots toy_peer (file_record (toy_slot, 0) bs empty_dir) [(toy_slot, [(0, toy_genesis)])]"
    by (simp add: toy_published_def publish_slot_def store_record_def persist_slot_def persist_file_def
        bs toy_verify toy_io_def empty_disk_def btm_upsert_def)
  then show ?thesis ..
qed

lemma toy_keeps: "pe_retention (fst (extend_retention toy_io toy_published [toy_addr])) = [toy_addr]"
proof -
  obtain bs where p: "toy_published = put_slots toy_peer (file_record (toy_slot, 0) bs empty_dir) [(toy_slot, [(0, toy_genesis)])]"
    using toy_publishes by blast
  show ?thesis by (simp add: p put_slots_def toy_peer_def extend_retention_def persist_retention_def toy_io_def)
qed

lemma toy_holds: "retains toy_holding toy_addr" "BlobStore_has (pe_blobs toy_holding) toy_addr"
proof -
  obtain bs where p: "toy_published = put_slots toy_peer (file_record (toy_slot, 0) bs empty_dir) [(toy_slot, [(0, toy_genesis)])]"
    using toy_publishes by blast
  have "pe_blobs toy_published = toy_store" "pe_retention toy_published = []"
    by (simp_all add: p put_slots_def toy_peer_def)
  then have q: "pe_blobs (fst (extend_retention toy_io toy_published [toy_addr])) = toy_store"
    "pe_retention (fst (extend_retention toy_io toy_published [toy_addr])) = [toy_addr]"
    by (simp_all add: extend_retention_def persist_retention_def toy_io_def)
  show "retains toy_holding toy_addr"
    by (simp add: toy_holding_def put_blob_def retains_def q case_prod_unfold)
  show "BlobStore_has (pe_blobs toy_holding) toy_addr"
    by (simp add: toy_holding_def put_blob_def q toy_put toy_stored_def BlobStore_has_def)
      (simp add: toy_addr_def)
qed

lemma toy_executes:
  "pe_retention toy_executed = pe_retention toy_holding"
  "btm_get (pe_delete_executions toy_executed) (de_request_hash toy_execution) = Some (toy_execution, 0)"
  "dr_tmp (dk_executions (pe_disk toy_executed)) = []"
proof -
  obtain bs where bs: "DeleteRequest_encode toy_request = Inr bs" using toy_encodes by blast
  obtain es where es: "DeleteExecution_encode toy_execution = Inr es" using toy_encodes by blast
  obtain f where p: "toy_published = put_slots toy_peer (file_record (toy_slot, 0) f empty_dir) [(toy_slot, [(0, toy_genesis)])]"
    using toy_publishes by blast
  define q where "q = peer_step toy_backend toy_io (OpRequest toy_request) toy_holding"
  have h: "pe_delete_requests toy_holding = []" "pe_delete_executions toy_holding = []"
    "pe_quorum toy_holding = QuorumPolicy_default" "pe_delete_authority toy_holding = toy_authority"
    "dk_executions (pe_disk toy_holding) = empty_dir"
    by (simp_all add: empty_disk_def toy_holding_def put_blob_def extend_retention_def persist_retention_def toy_io_def p
        put_slots_def toy_peer_def case_prod_unfold)
  have "DeleteRequest_verify toy_backend toy_request = Ok ()"
    using toy_decides [OF toy_quorum(1)] by (simp add: decide_Execute_iff)
  then have q_eq: "\<exists>m. q = put_requests toy_holding m [(request_hash toy_backend toy_request, toy_request)]"
    by (simp add: q_def publish_delete_request_def h bs persist_file_def toy_io_def MAX_DELETE_REQUESTS_def Let_def)
      blast
  have d: "DeleteExecution_verify toy_backend toy_execution = Ok ()"
    "de_request_hash toy_execution = request_hash toy_backend toy_request"
    using toy_decides [OF toy_quorum(1)] by (simp_all add: decide_Execute_iff toy_execution_def)
  have q: "pe_delete_requests q = [(request_hash toy_backend toy_request, toy_request)]"
    "pe_delete_executions q = []" "pe_quorum q = QuorumPolicy_default" "pe_delete_authority q = toy_authority"
    "dk_executions (pe_disk q) = empty_dir"
    using q_eq h by (auto simp: put_requests_def)
  have "toy_executed = fst (execute_delete toy_backend toy_io q toy_execution 0)"
    by (simp add: toy_executed_def q_def)
  then have e: "toy_executed = put_executions q (file_record (de_request_hash toy_execution) (u64_le 0 @ es) empty_dir)
      [(de_request_hash toy_execution, toy_execution, 0)]"
    using d toy_decides [OF toy_quorum(1)]
    by (simp add: execute_delete_def q Peer_executed_def es persist_file_def toy_io_def)
  show "pe_retention toy_executed = pe_retention toy_holding"
    using q_eq by (auto simp: e put_executions_def put_requests_def)
  show "btm_get (pe_delete_executions toy_executed) (de_request_hash toy_execution) = Some (toy_execution, 0)"
    "dr_tmp (dk_executions (pe_disk toy_executed)) = []"
    by (simp_all add: e put_executions_def)
qed

section \<open>Histories\<close>

text \<open>
  C11. What an honest peer serves verifies. Whatever operations it has executed since it started on an
  empty directory, and whichever of its writes failed, the history it answers for a slot passes the
  client's chain walk from genesis under the peer's own roster and handoffs. Two conditions are
  needed: the records agree on the writer regime, which the walk demands and publication does not
  check, and sequence numbers have not run out.
\<close>

theorem peer_history_verifies:
  assumes "fresh_peer p0" and "pe_hostility p0 = HONEST" and "peer_run B p0 p"
    and "0 < slot_len p slot" and "slot_len p slot < 2 ^ 64"
    and "\<And>r. r \<in> set (slot_history p slot 0) \<Longrightarrow> sr_regime r = g"
  shows "verify_chain_with_handoffs B (slot_history p slot 0) slot (pe_roster p) None (Peer_handoffs p slot)
    = Ok (walk_of B (slot_history p slot 0) slot None)"
proof -
  obtain h where h: "btm_get (pe_slots p) slot = Some h"
    using assms(4) by (auto simp: slot_len_def split: option.splits)
  then have len: "length h < 2 ^ 64" using assms(5) by (simp add: slot_len_def)
  with h have ok: "history_ok B (pe_roster p) slot (Peer_handoffs p slot) h"
    using run_histories [OF assms(1,3)] by (simp add: histories_inv_def)
  have "slot_history p slot 0 = map snd h"
    using honest_history(1) [OF _ h ok len] run_const(2) [OF assms(3)] assms(2) by simp
  with history_valid [OF ok len] assms(6) show ?thesis by (simp add: verify_chain_Inr_iff)
qed

theorem peer_history_verifies_witness:
  "slot_history toy_published toy_slot 0 = [toy_genesis] \<and>
   verify_chain_with_handoffs toy_backend (slot_history toy_published toy_slot 0) toy_slot
     (pe_roster toy_published) None (Peer_handoffs toy_published toy_slot)
    = Ok (walk_of toy_backend (slot_history toy_published toy_slot 0) toy_slot None)"
proof -
  obtain bs where p: "toy_published = put_slots toy_peer (file_record (toy_slot, 0) bs empty_dir) [(toy_slot, [(0, toy_genesis)])]"
    using toy_publishes by blast
  have hist: "slot_history toy_published toy_slot 0 = [toy_genesis]"
    by (simp add: p put_slots_def toy_peer_def slot_history_def branch_def slot_head_def HONEST_def)
  then have "sr_regime r = SingleWriter" if "r \<in> set (slot_history toy_published toy_slot 0)" for r
    using that by (simp add: toy_genesis_def)
  moreover have "slot_len toy_published toy_slot = 1" by (simp add: p put_slots_def slot_len_def)
  ultimately show ?thesis
    using hist peer_history_verifies [OF toy_fresh toy_honest toy_runs(1), of toy_slot SingleWriter] by simp
qed

definition may_publish :: "peer \<Rightarrow> bytes \<Rightarrow> bool" where
  "may_publish p subject \<longleftrightarrow> permits (Acl_check (pe_acl p) subject Write (pe_mode p)) \<or>
     permits (Acl_check (pe_acl p) subject Append (pe_mode p))"

lemma publish_slot_eq:
  assumes "\<not> hfork (pe_hostility p)"
  shows "if may_publish p subject \<and> slot_accepts B p r then publish_slot B io p subject r = store_record io p r
    else \<exists>e. publish_slot B io p subject r = (p, Inl e)"
proof (cases "Roster_get (pe_roster p) (sr_writer_id r)")
  case None
  then show ?thesis by (simp add: publish_slot_def slot_accepts_def Let_def)
next
  case (Some vk)
  show ?thesis
  proof (cases "SlotRecord_verify B r vk")
    case (Inl e)
    then show ?thesis using Some by (simp add: publish_slot_def slot_accepts_def Let_def)
  next
    case (Inr u)
    then have "SlotRecord_verify B r vk = Inr ()" by simp
    then show ?thesis
      using Some assms
      by (cases "btm_get (pe_slots p) (sr_slot_id r)")
        (auto simp: publish_slot_def slot_accepts_def last_key_def may_publish_def Let_def)
  qed
qed

lemma publish_slot_Ok:
  assumes "\<not> hfork (pe_hostility p)"
  shows "publish_slot B io p subject r = (q, Ok ()) \<longleftrightarrow> may_publish p subject \<and> slot_accepts B p r \<and>
    (\<exists>files. persist_slot io (pe_disk p) r = (files, Ok ()) \<and>
      q = put_slots p files (btm_upsert (sr_slot_id r) [] (btm_insert (sr_seq r) r) (pe_slots p)))"
  using publish_slot_eq [OF assms, of subject B r io]
  by (auto simp: store_record_def split: if_splits sum.splits prod.splits)

text \<open>
  Publishing is compare-and-swap. An honest peer acknowledges a record exactly when the subject
  may write or append, the record verifies under its rostered writer, it extends the stored head (or
  is the genesis of an empty slot) with the right link and writer, and it reaches the disk; a record
  it does not acknowledge changes nothing but temporary files.
\<close>

theorem publish_slot_succeeds_iff:
  assumes "\<not> hfork (pe_hostility p)"
  shows "if may_publish p subject \<and> slot_accepts B p r \<and> \<not> is_err (snd (persist_slot io (pe_disk p) r))
    then snd (publish_slot B io p subject r) = Ok ()
    else \<exists>q e. publish_slot B io p subject r = (q, Err e) \<and> tmp_only q p"
proof (cases "persist_slot io (pe_disk p) r")
  case (Pair d res)
  show ?thesis
    using publish_slot_eq [OF assms, of subject B r io] Pair tmp_only_put(7) persist_Inl(4)
    by (cases res) (auto simp: store_record_def split: if_splits)
qed

theorem publish_slot_succeeds_iff_witness:
  "if may_publish toy_peer [1] \<and> slot_accepts toy_backend toy_peer toy_genesis \<and>
      \<not> is_err (snd (persist_slot toy_io (pe_disk toy_peer) toy_genesis))
   then snd (publish_slot toy_backend toy_io toy_peer [1] toy_genesis) = Ok ()
   else \<exists>q e. publish_slot toy_backend toy_io toy_peer [1] toy_genesis = (q, Err e) \<and> tmp_only q toy_peer"
  by (rule publish_slot_succeeds_iff) (simp add: toy_peer_def HONEST_def)

text \<open>
  An acknowledged record is the head. After an honest peer in any reachable state acknowledges a
  record, the slot's head is that record, its history is the old one with the record appended, and
  every other slot is as it was.
\<close>

theorem acknowledged_record_is_head:
  assumes "fresh_peer p0" and "pe_hostility p0 = HONEST" and "peer_run B p0 p" and "wf_SlotRecord B r"
    and "publish_slot B io p subject r = (q, Ok ())" and "slot_len q (sr_slot_id r) < 2 ^ 64"
  shows "slot_head q (sr_slot_id r) = Some r \<and>
    slot_history q (sr_slot_id r) 0 = slot_history p (sr_slot_id r) 0 @ [r] \<and>
    (\<forall>slot. slot \<noteq> sr_slot_id r \<longrightarrow> slot_history q slot 0 = slot_history p slot 0)"
proof -
  let ?slot = "sr_slot_id r"
  have hp: "pe_hostility p = HONEST" using run_const(2) [OF assms(3)] assms(2) by simp
  then obtain files where acc: "slot_accepts B p r"
    and q: "q = put_slots p files (btm_upsert ?slot [] (btm_insert (sr_seq r) r) (pe_slots p))"
    using assms(5) by (auto simp: publish_slot_Ok HONEST_def)
  have hq: "pe_hostility q = HONEST" using hp by (simp add: q put_slots_def)
  obtain h' where h': "btm_get (pe_slots q) ?slot = Some h'"
    by (simp add: q put_slots_def btm_get_upsert)
  have len: "length h' < 2 ^ 64" using assms(6) h' by (simp add: slot_len_def)
  note inv = run_histories [OF assms(1,3)]
  have ok: "history_ok B (pe_roster p) ?slot (Peer_handoffs p ?slot) h'"
    and snoc: "h' = (case btm_get (pe_slots p) ?slot of None \<Rightarrow> [] | Some h \<Rightarrow> h) @ [(sr_seq r, r)]"
    using slot_accepts_history [OF inv acc assms(4) _ len] h' by (auto simp: q put_slots_def)
  have "slot_history p ?slot 0 = map snd (case btm_get (pe_slots p) ?slot of None \<Rightarrow> [] | Some h \<Rightarrow> h)"
  proof (cases "btm_get (pe_slots p) ?slot")
    case (Some h)
    then have "length h < 2 ^ 64" using len snoc by simp
    moreover from this have "history_ok B (pe_roster p) ?slot (Peer_handoffs p ?slot) h"
      using inv Some by (simp add: histories_inv_def)
    ultimately show ?thesis using honest_history(1) [OF hp Some] Some by simp
  qed (simp add: slot_history_def branch_def hp HONEST_def)
  moreover have "slot_history q slot 0 = slot_history p slot 0" if "slot \<noteq> ?slot" for slot
  proof -
    have "branch q slot = branch p slot"
      using that hp by (simp add: branch_def q put_slots_def btm_get_upsert HONEST_def)
    moreover from this have "slot_head q slot = slot_head p slot" by (simp only: slot_head_def hp hq)
    ultimately show ?thesis by (simp only: slot_history_def)
  qed
  ultimately show ?thesis using honest_history [OF hq h' ok len] snoc by simp
qed

theorem acknowledged_record_is_head_witness:
  "slot_head toy_published toy_slot = Some toy_genesis \<and>
   slot_history toy_published toy_slot 0 = slot_history toy_peer toy_slot 0 @ [toy_genesis]"
proof -
  obtain bs where p: "toy_published = put_slots toy_peer (file_record (toy_slot, 0) bs empty_dir) [(toy_slot, [(0, toy_genesis)])]"
    using toy_publishes by blast
  have id: "sr_slot_id toy_genesis = toy_slot" by (simp add: toy_genesis_def toy_slot_def)
  have len: "slot_len toy_published toy_slot = 1" by (simp add: p put_slots_def slot_len_def)
  have "toy_published \<noteq> toy_peer"
  proof
    assume "toy_published = toy_peer"
    with len show False by (simp add: slot_len_def toy_peer_def)
  qed
  have "snd (store_record toy_io toy_peer toy_genesis) = Ok ()"
    using toy_encodes(1)
    by (auto simp: store_record_def persist_slot_def persist_file_def toy_io_def split: prod.splits sum.splits)
  with \<open>toy_published \<noteq> toy_peer\<close>
  have "publish_slot toy_backend toy_io toy_peer [1] toy_genesis = (toy_published, Ok ())"
    using publish_slot_eq [of toy_peer "[1]" toy_backend toy_genesis toy_io] toy_honest
    by (auto simp: toy_published_def HONEST_def prod_eq_iff split: if_splits)
  from acknowledged_record_is_head [OF toy_fresh toy_honest run_refl toy_wf(1) this] show ?thesis
    by (simp add: id len)
qed

section \<open>Retention and deletion\<close>

lemma recorded_is_decided:
  assumes "fresh_peer p0" and "peer_run B p0 p" and "btm_get (pe_delete_executions p) rh = Some (e, at)"
  shows "\<exists>request recent n k. de_request_hash e = rh \<and> btm_get (pe_delete_requests p) rh = Some request \<and>
    decide B request e recent (pe_quorum p0) (pe_delete_authority p0) at = Execute n k"
  using run_trail [OF assms(1,2)] run_const [OF assms(2)] assms(3) unfolding trail_inv_def by fastforce

lemma retention_kept:
  assumes "\<not> ignore_retention (pe_hostility p)" and "\<And>as e. op \<noteq> OpForget as e"
  shows "set (pe_retention p) \<subseteq> set (pe_retention (peer_step B io op p))"
proof -
  have bl: "pe_retention y = pe_retention x" if "blobs_only x y" for x y
    using that by (auto simp: blobs_only_def)
  have pr: "pe_retention (fst (persist_retention io x)) = pe_retention x" for x
    by (simp add: persist_retention_def split: option.split)
  have pl: "pe_retention (fst (persist_leases io x)) = pe_retention x" for x
    by (simp add: persist_leases_def split: option.split prod.split)
  have tmp: "pe_retention x = pe_retention y" if "tmp_only x y" for x y
    using that by (metis tmp_only_def peer.select_convs(9) peer.update_convs(22) peer.surjective)
  have fi: "set (fold bts_insert as m) = set as \<union> set m" for as m
    by (induction as arbitrary: m) auto
  show ?thesis
  proof (cases op)
    case (OpWitness w) then show ?thesis using publish_witness_cases [of B io p w] by (auto simp: put_defs dest: tmp)
  next
    case (OpRequest w) then show ?thesis using publish_delete_request_cases [of B io p w] by (auto simp: put_defs dest: tmp)
  next
    case (OpApproval w) then show ?thesis using publish_delete_approval_cases [of B io p w] by (auto simp: put_defs dest: tmp)
  next
    case (OpExecute w n) then show ?thesis using execute_delete_cases [of B io p w n] by (auto simp: put_defs dest: tmp)
  next
    case (OpCheckpoint w) then show ?thesis using publish_checkpoint_cases [of B io p w] by (auto simp: put_defs dest: tmp)
  next
    case (OpHandoff w) then show ?thesis using publish_handoff_cases [of B io p w] by (auto simp: put_defs dest: tmp)
  next
    case (OpSlot t r) then show ?thesis
      using publish_slot_cases [of B io p t r] store_record_cases [of io p r] by (auto simp: put_defs dest: tmp)
  next
    case (OpTake h as n) then show ?thesis
      by (auto simp: take_lease_def Let_def case_prod_unfold pl split: option.split sum.split)
  next
    case (OpRelease h as n) then show ?thesis by (auto simp: release_lease_def pl split: option.split)
  next
    case (OpRetention as) then show ?thesis
      using assms(1) by (auto simp: publish_retention_def pr Let_def find_None_iff split: option.split)
  next
    case (OpDelete a) then show ?thesis using bl [OF delete_blob_only [of p io a]] by simp
  next
    case (OpSweep hs pol n d) then show ?thesis using bl [OF Peer_sweep_only [of p io hs pol n d]] by simp
  qed (use assms(2) in \<open>auto simp: bind_subject_def set_view_def put_blob_def Peer_prove_def case_prod_unfold
      extend_retention_def pr fi\<close>)
qed

text \<open>
  C15. Retention only grows, except behind a quorum. If an honest peer, in any reachable state, drops an
  address from its retention set, the operation was \<open>forget_retention\<close> naming that address, and the
  peer had recorded an execution of the same request that passed the quorum decision when it was
  recorded.
\<close>

theorem retention_shrinks_only_after_quorum:
  assumes "fresh_peer p0" and "\<not> ignore_retention (pe_hostility p0)" and "peer_run B p0 p"
    and "a \<in> set (retention_set p)" and "a \<notin> set (retention_set (peer_step B io op p))"
  shows "\<exists>as e e' at request recent n k. op = OpForget as e \<and> a \<in> set as \<and>
    btm_get (pe_delete_executions p) (de_request_hash e) = Some (e', at) \<and>
    btm_get (pe_delete_requests p) (de_request_hash e) = Some request \<and>
    decide B request e' recent (pe_quorum p0) (pe_delete_authority p0) at = Execute n k"
proof -
  have h: "\<not> ignore_retention (pe_hostility p)" using run_const(2) [OF assms(3)] assms(2) by simp
  then obtain as e where op: "op = OpForget as e"
    using retention_kept [of p op B io] assms(4,5) by (auto simp: retention_set_def)
  have rm: "x \<in> set (bts_remove y m)" if "x \<in> set m" "x \<noteq> y" for x y and m :: "hash32 btreeset"
    using that by (induction m) auto
  have fr: "x \<in> set (fold bts_remove as m)" if "x \<in> set m" "x \<notin> set as" for x m
    using that by (induction as arbitrary: m) (auto intro: rm)
  have a: "a \<in> set as" and "btm_get (pe_delete_executions p) (de_request_hash e) \<noteq> None"
    using assms(4,5)
    by (auto simp: op retention_set_def forget_retention_def persist_retention_def intro: fr
        split: sum.splits option.splits if_splits)
  then obtain e' at where ex: "btm_get (pe_delete_executions p) (de_request_hash e) = Some (e', at)" by auto
  from recorded_is_decided [OF assms(1,3) ex] obtain request recent n k
    where "btm_get (pe_delete_requests p) (de_request_hash e) = Some request"
      and "decide B request e' recent (pe_quorum p0) (pe_delete_authority p0) at = Execute n k" by blast
  with op a ex show ?thesis by (intro exI conjI)
qed

theorem retention_shrinks_only_after_quorum_witness:
  "\<exists>as e e' at request recent n k. OpForget [toy_addr] toy_execution = OpForget as e \<and> toy_addr \<in> set as \<and>
    btm_get (pe_delete_executions toy_executed) (de_request_hash e) = Some (e', at) \<and>
    btm_get (pe_delete_requests toy_executed) (de_request_hash e) = Some request \<and>
    decide toy_backend request e' recent (pe_quorum toy_peer) (pe_delete_authority toy_peer) at = Execute n k"
proof (rule retention_shrinks_only_after_quorum [OF toy_fresh _ toy_runs(3), where io = toy_io])
  show "\<not> ignore_retention (pe_hostility toy_peer)" by (simp add: toy_honest HONEST_def)
  have one: "pe_retention toy_executed = [toy_addr]"
    by (simp add: toy_executes toy_holding_def put_blob_def case_prod_unfold toy_keeps)
  show "toy_addr \<in> set (retention_set toy_executed)" by (simp add: one retention_set_def)
  have "DeleteExecution_verify toy_backend toy_execution = Ok ()"
    using toy_decides [OF toy_quorum(1)] by (simp add: decide_Execute_iff)
  then show "toy_addr \<notin> set (retention_set (peer_step toy_backend toy_io (OpForget [toy_addr] toy_execution) toy_executed))"
    using one by (simp add: forget_retention_def toy_executes persist_retention_def toy_io_def retention_set_def)
qed

text \<open>
  C16. A retained blob outlives everything but a quorum. Over any run of an honest peer, a blob that is
  stored and retained is still stored at the end, unless the peer recorded an execution that its
  approvers' quorum had decided.
\<close>

theorem retained_blob_survives:
  assumes "fresh_peer p0" and "\<not> ignore_retention (pe_hostility p0)" and "peer_run B p0 p" and "peer_run B p q"
    and "retains p a" and "BlobStore_has (pe_blobs p) a"
  shows "BlobStore_has (pe_blobs q) a \<or>
    (\<exists>e at request recent n k. btm_get (pe_delete_executions q) (de_request_hash e) = Some (e, at) \<and>
      btm_get (pe_delete_requests q) (de_request_hash e) = Some request \<and>
      decide B request e recent (pe_quorum p0) (pe_delete_authority p0) at = Execute n k)"
proof -
  let ?kept = "\<lambda>x. \<not> ignore_retention (pe_hostility x) \<and>
    (retains x a \<and> BlobStore_has (pe_blobs x) a \<or> (\<exists>rh. btm_get (pe_delete_executions x) rh \<noteq> None))"
  have "?kept q"
  proof (rule run_invariant [OF assms(4), where I = ?kept])
    show "?kept p" using assms run_const(2) [OF assms(3)] by simp
    show "?kept y" if "peer_effect B x y" "?kept x" for x y
      using that effect_const [OF that(1)] retention_effect [OF that(1), of a] blobs_effect [OF that(1), of a]
        trail_grows [OF that(1)] unfolding retains_def map_le_def dom_def by fastforce
  qed
  then consider "BlobStore_has (pe_blobs q) a" | rh e at where "btm_get (pe_delete_executions q) rh = Some (e, at)"
    by (metis not_None_eq surj_pair)
  then show ?thesis
  proof cases
    case 2
    have "peer_run B p0 q" using assms(4,3) by induction (auto intro: run_step)
    from recorded_is_decided [OF assms(1) this 2] 2 show ?thesis by blast
  qed simp
qed

theorem retained_blob_survives_witness:
  "BlobStore_has (pe_blobs (peer_step toy_backend toy_io (OpDelete toy_addr) toy_holding)) toy_addr \<or>
    (\<exists>e at request recent n k.
      btm_get (pe_delete_executions (peer_step toy_backend toy_io (OpDelete toy_addr) toy_holding))
        (de_request_hash e) = Some (e, at) \<and>
      btm_get (pe_delete_requests (peer_step toy_backend toy_io (OpDelete toy_addr) toy_holding))
        (de_request_hash e) = Some request \<and>
      decide toy_backend request e recent (pe_quorum toy_peer) (pe_delete_authority toy_peer) at = Execute n k)"
  by (rule retained_blob_survives [OF toy_fresh _ toy_runs(2) run_step [OF run_refl] toy_holds])
    (simp_all add: toy_honest HONEST_def)

text \<open>
  The deletion trail is append-only. Over any run from any state, honest or not, a recorded request
  or execution is never replaced or removed.
\<close>

theorem trail_is_append_only:
  assumes "peer_run B p q"
  shows "btm_get (pe_delete_requests p) \<subseteq>\<^sub>m btm_get (pe_delete_requests q) \<and>
    btm_get (pe_delete_executions p) \<subseteq>\<^sub>m btm_get (pe_delete_executions q)"
  by (rule run_invariant [OF assms]) (auto dest: trail_grows intro: map_le_trans)

theorem trail_is_append_only_witness:
  "btm_get (pe_delete_executions (peer_step toy_backend toy_io (OpForget [toy_addr] toy_execution) toy_executed))
     (de_request_hash toy_execution) = Some (toy_execution, 0)"
proof -
  have "peer_run toy_backend toy_executed
      (peer_step toy_backend toy_io (OpForget [toy_addr] toy_execution) toy_executed)"
    by (rule run_step [OF run_refl]) (simp add: toy_wf toy_addr_def)
  from trail_is_append_only [OF this] toy_executes(2) show ?thesis
    by (force simp: map_le_def)
qed

section \<open>Restart\<close>

text \<open>
  C12. What was acknowledged survives a restart. Reopening the directory a peer has written, after any
  run and any pattern of failed writes, with every file readable and listed in any order, gives back
  the slot records, handoffs, witnesses, deletion requests, approvals and executions it held, and
  nothing else, except that a temporary file which a failed write or rename left behind is read like
  the others: under the key of the record it decodes to, that record may be loaded instead. Where no
  such file is left, the tables are exactly those from before.
\<close>

theorem peer_survives_restart:
  assumes "fresh_peer p0" and "peer_run B p0 p" and "scans_all io"
    and "Peer_open B io md ad h files (pe_disk p) = Ok q"
  shows "restored slot_name (slot_of_file B) (snd ` set (dr_tmp (dk_slots (pe_disk p))))
      (case_prod (get2 (pe_slots p))) (case_prod (get2 (pe_slots q))) \<and>
    restored (handoff_name B) (handoff_of_file B) (snd ` set (dr_tmp (dk_handoffs (pe_disk p))))
      (case_prod (get2 (pe_handoffs p))) (case_prod (get2 (pe_handoffs q))) \<and>
    restored (witness_name B) (witness_of_file B) (snd ` set (dr_tmp (dk_witnesses (pe_disk p))))
      (case_prod (get2 (pe_witnesses p))) (case_prod (get2 (pe_witnesses q))) \<and>
    restored (approval_name B) (approval_of_file B) (snd ` set (dr_tmp (dk_approvals (pe_disk p))))
      (case_prod (get2 (pe_delete_approvals p))) (case_prod (get2 (pe_delete_approvals q))) \<and>
    restored (request_hash B) (request_of_file B) (snd ` set (dr_tmp (dk_requests (pe_disk p))))
      (btm_get (pe_delete_requests p)) (btm_get (pe_delete_requests q)) \<and>
    restored execution_name (execution_of_file B) (snd ` set (dr_tmp (dk_executions (pe_disk p))))
      (btm_get (pe_delete_executions p)) (btm_get (pe_delete_executions q))"
  using load_disk [OF run_disk [OF assms(1,2)] assms(3)] assms(3,4)
  by (auto simp: Peer_open_def Peer_load_def Let_def scans_all_def split: option.splits)

lemma toy_io_scans: "scans_all toy_io"
  by (simp add: scans_all_def toy_io_def)

theorem peer_survives_restart_witness:
  "\<exists>q. Peer_open toy_backend toy_io E2ee Content HONEST [] (pe_disk toy_executed) = Ok q \<and>
     btm_get (pe_delete_executions q) (de_request_hash toy_execution) = Some (toy_execution, 0)"
proof -
  obtain q where q: "Peer_open toy_backend toy_io E2ee Content HONEST [] (pe_disk toy_executed) = Ok q"
    by (simp add: Peer_open_def toy_io_def)
  have "btm_get (pe_delete_executions q) = btm_get (pe_delete_executions toy_executed)"
    using peer_survives_restart [OF toy_fresh toy_runs(3) toy_io_scans q] toy_executes(3)
    by (intro restored_exactly [of execution_name "execution_of_file toy_backend"]) simp
  with q toy_executes(2) show ?thesis by auto
qed

text \<open>
  The exception is real: when the rename of a record fails, publishing answers an error, and the next
  start of the peer has the record all the same.
\<close>

lemma failed_rename_is_loaded:
  assumes "persist_slot io d r = (d', Err e)" "io_write io 0 = None" "io_write io 1 = None" "wf_SlotRecord B r"
    and "SlotRecord_encode r = Ok bs" "scans_all io'" "dk_slots d = empty_dir"
  shows "get2 (load_slots B io' (d\<lparr>dk_slots := d'\<rparr>)) (sr_slot_id r) (sr_seq r) = Some r"
proof -
  have d': "d' = file_tmp (slot_name r) bs (dk_slots d)"
    using assms(1-3,5) by (auto simp: persist_slot_def persist_file_def split: option.splits)
  have dec: "slot_of_file B bs = Some r" using slots_dir.dec_enc [OF assms(4,5)] .
  have "set (scan_dir io' d') = {bs}" using scans_all_scan [OF assms(6), of d'] assms(7) by (simp add: d' file_tmp_def)
  then have "claims slot_name (slot_of_file B) (set (scan_dir io' d')) (slot_name r) = {r}" using dec by (auto simp: claims_def)
  then show ?thesis
    using slots_dir.load_claims [of B "scan_dir io' d'" "sr_slot_id r" "sr_seq r"] by (auto simp: load_tables split: if_splits)
qed

end
