(* ===== verification/Peer_Gc.thy ===== *)
theory Peer_Gc
  imports Peer_Theorems
begin

text \<open>
  Leases, garbage collection and refusals of the storage peer: a lease is taken whole and within
  quota, a sweep deletes exactly what its plan says, and a record that is refused is not filed.
\<close>

section \<open>Leases\<close>

text \<open>The size of a stored blob, as \<open>inventory\<close> reports it, and what a holder's leases add up to.\<close>

definition stored_size :: "blob_store \<Rightarrow> addr \<Rightarrow> nat" where
  "stored_size st a =
    (case btm_get (bs_files st) a of None \<Rightarrow> 0 | Some f \<Rightarrow> unat (of_nat (length (bf_bytes f)) :: u64))"

definition leased_bytes :: "peer \<Rightarrow> hash32 \<Rightarrow> nat" where
  "leased_bytes p holder = sum_list (map (stored_size (pe_blobs p)) (leases_of p holder))"

lemma fold_saturating:
  "unat (fold (\<lambda>n acc. saturating_add acc n) ns (acc :: u64)) = min (unat acc + sum_list (map unat ns)) (2 ^ 64 - 1)"
proof (induction ns arbitrary: acc)
  case Nil
  then show ?case using unat_less_pow [of acc] by simp
qed (simp add: unat_saturating_add)

lemma fold_insert_get:
  "btm_inv m \<Longrightarrow> btm_get (fold (\<lambda>(k, v) acc. btm_insert k (f v) acc) m acc) a =
    (case btm_get m a of None \<Rightarrow> btm_get acc a | Some v \<Rightarrow> Some (f v))"
proof (induction m arbitrary: acc)
  case (Cons kv m)
  obtain k v where kv: "kv = (k, v)" by fastforce
  have "btm_get m k = None" using Cons.prems unfolding kv by (rule btm_inv_get_Cons)
  with Cons show ?case by (auto simp: kv split: option.split)
qed simp

lemma blob_sizes_get:
  assumes "btm_inv (bs_files (pe_blobs p))" and "blob_sizes io p = Inr sizes"
  shows "btm_get sizes a = map_option (\<lambda>f. of_nat (length (bf_bytes f))) (btm_get (bs_files (pe_blobs p)) a)"
proof -
  have "sizes = fold (\<lambda>(k, f) acc. btm_insert k (of_nat (length (bf_bytes f))) acc) (bs_files (pe_blobs p)) []"
    using assms(2) by (auto simp: blob_sizes_def Peer_inventory_def fold_map comp_def case_prod_unfold split: option.splits)
  then show ?thesis using fold_insert_get [OF assms(1), of "\<lambda>f. of_nat (length (bf_bytes f)) :: u64" "[]" a]
    by (simp split: option.split)
qed

lemma sum_sizes_eq:
  assumes "btm_inv (bs_files (pe_blobs p))" and "blob_sizes io p = Inr sizes"
  shows "unat (sum_sizes sizes s) = min (sum_list (map (stored_size (pe_blobs p)) s)) (2 ^ 64 - 1)"
proof -
  have "sum_list (map unat (List.map_filter (btm_get sizes) s)) = sum_list (map (stored_size (pe_blobs p)) s)"
    by (induction s) (auto simp: map_filter_simps stored_size_def blob_sizes_get [OF assms] split: option.split)
  then show ?thesis by (simp add: sum_sizes_def fold_saturating)
qed

lemma persist_leases_parts:
  "pe_leases (fst (persist_leases io p)) = pe_leases p" "pe_blobs (fst (persist_leases io p)) = pe_blobs p"
  by (simp_all add: persist_leases_def split: option.split prod.split)

lemma persist_leases_error: "snd (persist_leases io p) = Inl e \<Longrightarrow> \<exists>i. e = Io i"
proof -
  have "snd (write_leases io n ls files) = Inl e \<Longrightarrow> \<exists>i. e = Io i" for n ls files
    by (induction io n ls files rule: write_leases.induct) (auto split: option.splits)
  then show "snd (persist_leases io p) = Inl e \<Longrightarrow> \<exists>i. e = Io i"
    by (auto simp: persist_leases_def split: option.splits prod.splits) (metis snd_conv)
qed

text \<open>
  A lease is taken whole, within quota, or not at all. On success every address asked for was
  stored and is now leased beside those already held, no other holder's leases moved, and the bytes
  reported are what the holder's leases add up to (saturating at the width of the counter) and within
  the quota. A refusal leaves the peer as it was, unless the file system failed.
\<close>

theorem take_lease_all_or_nothing:
  assumes "btm_inv (bs_files (pe_blobs p))"
  shows "case take_lease io p holder as now of
      (q, Inr n) \<Rightarrow> list_all (BlobStore_has (pe_blobs p)) as \<and>
        set (leases_of q holder) = set (leases_of p holder) \<union> set as \<and>
        (leases_of q)(holder := []) = (leases_of p)(holder := []) \<and>
        unat n = min (leased_bytes q holder) (2 ^ 64 - 1) \<and> n \<le> gp_max_leased_bytes (pe_gc_policy p)
    | (q, Inl e) \<Rightarrow> q = p \<or> (\<exists>i. e = Io i)"
proof (cases "find (\<lambda>a. \<not> BlobStore_has (pe_blobs p) a) as")
  case (Some a)
  then show ?thesis by (simp add: take_lease_def)
next
  case None
  then have has: "list_all (BlobStore_has (pe_blobs p)) as" by (auto simp: find_None_iff list_all_iff)
  show ?thesis
  proof (cases "blob_sizes io p")
    case (Inl e)
    then show ?thesis using None by (simp add: take_lease_def)
  next
    case (Inr sizes)
    define would where "would = fold bts_insert as (leases_of p holder)"
    define p1 where "p1 = p\<lparr>pe_leases := btm_insert holder (would, now) (pe_leases p)\<rparr>"
    obtain q r where q: "persist_leases io p1 = (q, r)" by fastforce
    then have lq: "pe_leases q = btm_insert holder (would, now) (pe_leases p)" and bq: "pe_blobs q = pe_blobs p"
      using persist_leases_parts [of io p1] by (simp_all add: p1_def)
    have l: "leases_of q holder = would" "(leases_of q)(holder := []) = (leases_of p)(holder := [])"
      by (auto simp: leases_of_def lq fun_eq_iff)
    have "set would = set (leases_of p holder) \<union> set as"
      unfolding would_def by (induction as arbitrary: p rule: rev_induct) auto
    moreover have "unat (sum_sizes sizes would) = min (leased_bytes q holder) (2 ^ 64 - 1)"
      using sum_sizes_eq [OF assms Inr] by (simp add: leased_bytes_def l bq)
    moreover have "take_lease io p holder as now =
        (if gp_max_leased_bytes (pe_gc_policy p) < sum_sizes sizes would
         then (p, Err (QuotaExceeded holder (sum_sizes sizes would) (gp_max_leased_bytes (pe_gc_policy p))))
         else (q, rbind r (\<lambda>_. Ok (sum_sizes sizes would))))"
      using q by (simp add: take_lease_def None Inr Let_def would_def leases_of_def p1_def)
    ultimately show ?thesis
      using has l persist_leases_error [of io p1] q by (cases r) (auto simp: not_less)
  qed
qed

lemma toy_files: "btm_inv (bs_files (pe_blobs toy_holding))"
proof -
  obtain bs where p: "toy_published = put_slots toy_peer (file_record (toy_slot, 0) bs empty_dir) [(toy_slot, [(0, toy_genesis)])]"
    using toy_publishes by blast
  have "pe_blobs (fst (extend_retention toy_io toy_published [toy_addr])) = toy_store"
    by (simp add: p put_slots_def toy_peer_def extend_retention_def persist_retention_def toy_io_def)
  then show ?thesis by (simp add: toy_holding_def put_blob_def toy_put toy_stored_def)
qed

theorem take_lease_all_or_nothing_witness:
  "case take_lease toy_io toy_holding [8] [toy_addr] 0 of
      (q, Inr n) \<Rightarrow> list_all (BlobStore_has (pe_blobs toy_holding)) [toy_addr] \<and>
        set (leases_of q [8]) = set (leases_of toy_holding [8]) \<union> set [toy_addr] \<and>
        (leases_of q)([8] := []) = (leases_of toy_holding)([8] := []) \<and>
        unat n = min (leased_bytes q [8]) (2 ^ 64 - 1) \<and> n \<le> gp_max_leased_bytes (pe_gc_policy toy_holding)
    | (q, Inl e) \<Rightarrow> q = toy_holding \<or> (\<exists>i. e = Io i)"
  by (rule take_lease_all_or_nothing [OF toy_files])

section \<open>Sweeping\<close>

lemma delete_blob_frees:
  assumes "btm_inv (bs_files (pe_blobs p))" and "\<And>n. io_write io n = None"
    and "\<not> retains p a \<or> ignore_retention (pe_hostility p)"
  shows "\<exists>st. delete_blob io p a = (p\<lparr>pe_blobs := st\<rparr>, Ok ()) \<and> btm_inv (bs_files st) \<and>
    btm_get (bs_files st) = (btm_get (bs_files (pe_blobs p)))(a := None)"
proof (cases "btm_get (bs_files (pe_blobs p)) a")
  case None
  then have "(btm_get (bs_files (pe_blobs p)))(a := None) = btm_get (bs_files (pe_blobs p))" by (auto simp: fun_eq_iff)
  with None assms show ?thesis
    by (intro exI [of _ "pe_blobs p"]) (auto simp: delete_blob_def BlobStore_remove_def)
next
  case (Some f)
  with assms show ?thesis
    by (intro exI [of _ "(pe_blobs p)\<lparr>bs_files := btm_remove a (bs_files (pe_blobs p))\<rparr>"])
      (auto simp: delete_blob_def BlobStore_remove_def btm_get_remove)
qed

lemma sweep_deletes_frees:
  assumes "btm_inv (bs_files (pe_blobs p))" and "\<And>n. io_write io n = None"
    and "\<forall>a \<in> set as. \<not> retains p a \<or> ignore_retention (pe_hostility p)"
  shows "\<exists>st. sweep_deletes io n as p = (p\<lparr>pe_blobs := st\<rparr>, Ok ()) \<and>
    btm_get (bs_files st) = (btm_get (bs_files (pe_blobs p))) |` (- set as)"
  using assms
proof (induction as arbitrary: n p)
  case Nil
  then show ?case by (intro exI [of _ "pe_blobs p"]) simp
next
  case (Cons a as)
  have w: "io_write (io_at io n) k = None" for k by (simp add: io_at_def Cons.prems(2))
  obtain st where st: "delete_blob (io_at io n) p a = (p\<lparr>pe_blobs := st\<rparr>, Ok ())" "btm_inv (bs_files st)"
    "btm_get (bs_files st) = (btm_get (bs_files (pe_blobs p)))(a := None)"
    using delete_blob_frees [OF Cons.prems(1) w] Cons.prems(3) by auto
  obtain st' where "sweep_deletes io (Suc n) as (p\<lparr>pe_blobs := st\<rparr>) = (p\<lparr>pe_blobs := st'\<rparr>, Ok ())"
    and "btm_get (bs_files st') = btm_get (bs_files st) |` (- set as)"
    using Cons.IH [of "p\<lparr>pe_blobs := st\<rparr>" "Suc n"] Cons.prems(2,3) st(2) by (auto simp: retains_def)
  then show ?case using st by (intro exI [of _ st']) (auto simp: restrict_map_def fun_eq_iff)
qed

text \<open>
  C32. A sweep frees exactly its plan. On a file system that answers, an honest peer's sweep reports the
  plan computed from its inventory, its retention set and the holders given, ends without an error
  (no planned blob is under retention), and leaves exactly the blobs the plan does not delete, with
  everything else in the peer unchanged.
\<close>

theorem sweep_frees_exactly_the_plan:
  assumes "btm_inv (bs_files (pe_blobs p))" and "io_read io = None" and "\<And>n. io_write io n = None"
    and "\<not> ignore_retention (pe_hostility p)"
  shows "\<exists>blobs plan st. Peer_inventory io p = Ok blobs \<and>
    plan = plan_sweep blobs holders (pe_retention p) policy now \<and>
    Peer_sweep io p holders policy now False = (p\<lparr>pe_blobs := st\<rparr>, Ok plan) \<and>
    btm_get (bs_files st) = (btm_get (bs_files (pe_blobs p))) |` (- set (sp_delete plan))"
proof -
  obtain blobs where blobs: "Peer_inventory io p = Ok blobs" using assms(2) by (simp add: Peer_inventory_def)
  let ?plan = "plan_sweep blobs holders (pe_retention p) policy now"
  have "\<not> retains p a" if "a \<in> set (sp_delete ?plan)" for a
    using that by (auto simp: plan_sweep_parts reason_None_iff retains_def)
  then obtain st where "sweep_deletes io 0 (sp_delete ?plan) p = (p\<lparr>pe_blobs := st\<rparr>, Ok ())"
    "btm_get (bs_files st) = (btm_get (bs_files (pe_blobs p))) |` (- set (sp_delete ?plan))"
    using sweep_deletes_frees [OF assms(1,3), of "sp_delete ?plan" 0] by blast
  then show ?thesis using blobs assms(4) by (auto simp: Peer_sweep_def Let_def)
qed

theorem sweep_frees_exactly_the_plan_witness:
  "\<exists>blobs plan st. Peer_inventory toy_io toy_holding = Ok blobs \<and>
    plan = plan_sweep blobs [] (pe_retention toy_holding) toy_policy 60 \<and>
    Peer_sweep toy_io toy_holding [] toy_policy 60 False = (toy_holding\<lparr>pe_blobs := st\<rparr>, Ok plan) \<and>
    btm_get (bs_files st) = (btm_get (bs_files (pe_blobs toy_holding))) |` (- set (sp_delete plan))"
  by (rule sweep_frees_exactly_the_plan [OF toy_files])
    (simp_all add: toy_io_def run_const(2) [OF toy_runs(2)] toy_honest HONEST_def)

section \<open>Refusals\<close>

text \<open>The error an operation answers with, if any.\<close>

definition err_of :: "'a \<times> ('e + 'b) \<Rightarrow> 'e option" where
  "err_of x = (case snd x of Inl e \<Rightarrow> Some e | Inr _ \<Rightarrow> None)"

fun peer_error_of :: "backend \<Rightarrow> io_env \<Rightarrow> peer_op \<Rightarrow> peer \<Rightarrow> peer_error option" where
  "peer_error_of B io (OpWitness w) p = err_of (publish_witness B io p w)"
| "peer_error_of B io (OpRequest r) p = err_of (publish_delete_request B io p r)"
| "peer_error_of B io (OpApproval a) p = err_of (publish_delete_approval B io p a)"
| "peer_error_of B io (OpExecute e now) p = err_of (execute_delete B io p e now)"
| "peer_error_of B io (OpTake h as now) p = err_of (take_lease io p h as now)"
| "peer_error_of B io (OpRelease h as now) p = err_of (release_lease io p h as now)"
| "peer_error_of B io (OpCheckpoint c) p = err_of (publish_checkpoint B io p c)"
| "peer_error_of B io (OpHandoff h) p = err_of (publish_handoff B io p h)"
| "peer_error_of B io (OpPut bs) p = err_of (put_blob B io p bs)"
| "peer_error_of B io (OpProve a n) p = err_of (Peer_prove B io p a n)"
| "peer_error_of B io (OpSlot s r) p = err_of (publish_slot B io p s r)"
| "peer_error_of B io (OpExtend as) p = err_of (extend_retention io p as)"
| "peer_error_of B io (OpRetention as) p = err_of (publish_retention io p as)"
| "peer_error_of B io (OpForget as e) p = err_of (forget_retention B io p as e)"
| "peer_error_of B io (OpDelete a) p = err_of (delete_blob io p a)"
| "peer_error_of B io (OpSweep hs pol now dry) p = err_of (Peer_sweep io p hs pol now dry)"
| "peer_error_of B io _ p = None"

text \<open>The operations that file a signed record.\<close>

fun files_record :: "peer_op \<Rightarrow> bool" where
  "files_record (OpWitness _) = True"
| "files_record (OpRequest _) = True"
| "files_record (OpApproval _) = True"
| "files_record (OpExecute _ _) = True"
| "files_record (OpCheckpoint _) = True"
| "files_record (OpHandoff _) = True"
| "files_record (OpSlot _ _) = True"
| "files_record _ = False"

lemma refused_cases:
  "err_of (publish_witness B io p w) = Some e \<Longrightarrow> tmp_only (fst (publish_witness B io p w)) p"
  "err_of (publish_delete_request B io p rq) = Some e \<Longrightarrow> tmp_only (fst (publish_delete_request B io p rq)) p"
  "err_of (publish_delete_approval B io p a) = Some e \<Longrightarrow> tmp_only (fst (publish_delete_approval B io p a)) p"
  "err_of (execute_delete B io p x now) = Some e \<Longrightarrow> tmp_only (fst (execute_delete B io p x now)) p"
  "err_of (publish_checkpoint B io p c) = Some e \<Longrightarrow> tmp_only (fst (publish_checkpoint B io p c)) p"
  "err_of (publish_handoff B io p h) = Some e \<Longrightarrow> tmp_only (fst (publish_handoff B io p h)) p"
  unfolding publish_witness_def publish_delete_request_def publish_delete_approval_def execute_delete_def
    publish_checkpoint_def publish_handoff_def Let_def err_of_def
  by (auto split: sum.splits option.splits if_splits prod.splits Quorum.decision.splits
      intro: tmp_only_put dest: persist_file_Inl persist_Inl)

text \<open>Any other error than that of a file operation comes before the first of them.\<close>

lemma persist_file_refuses: "persist_file io enc k d = (d', Inl e) \<Longrightarrow> \<forall>i. e \<noteq> Io i \<Longrightarrow> d' = d"
  by (auto simp: persist_file_def split: option.splits sum.splits)

lemma persist_refuses:
  "persist_witness B io dk w = (d1, Inl e) \<Longrightarrow> \<forall>i. e \<noteq> Io i \<Longrightarrow> d1 = dk_witnesses dk"
  "persist_handoff B io dk h = (d2, Inl e) \<Longrightarrow> \<forall>i. e \<noteq> Io i \<Longrightarrow> d2 = dk_handoffs dk"
  "persist_checkpoint B io dk c = (d3, Inl e) \<Longrightarrow> \<forall>i. e \<noteq> Io i \<Longrightarrow> d3 = dk_checkpoints dk"
  "persist_slot io dk r = (d4, Inl e) \<Longrightarrow> \<forall>i. e \<noteq> Io i \<Longrightarrow> d4 = dk_slots dk"
  by (auto simp: persist_witness_def persist_handoff_def persist_checkpoint_def persist_slot_def dest: persist_file_refuses)

lemma put_same [simp]:
  "put_requests p (dk_requests (pe_disk p)) (pe_delete_requests p) = p"
  "put_approvals p (dk_approvals (pe_disk p)) (pe_delete_approvals p) = p"
  "put_executions p (dk_executions (pe_disk p)) (pe_delete_executions p) = p"
  "put_witnesses p (dk_witnesses (pe_disk p)) (pe_witnesses p) = p"
  "put_handoffs p (dk_handoffs (pe_disk p)) (pe_handoffs p) = p"
  "put_checkpoints p (dk_checkpoints (pe_disk p)) (pe_checkpoints p) = p"
  "put_slots p (dk_slots (pe_disk p)) (pe_slots p) = p"
  by (simp_all add: put_defs)

lemma refused_unchanged:
  "err_of (publish_witness B io p w) = Some e \<Longrightarrow> \<forall>i. e \<noteq> Io i \<Longrightarrow> fst (publish_witness B io p w) = p"
  "err_of (publish_delete_request B io p rq) = Some e \<Longrightarrow> \<forall>i. e \<noteq> Io i \<Longrightarrow> fst (publish_delete_request B io p rq) = p"
  "err_of (publish_delete_approval B io p a) = Some e \<Longrightarrow> \<forall>i. e \<noteq> Io i \<Longrightarrow> fst (publish_delete_approval B io p a) = p"
  "err_of (execute_delete B io p x now) = Some e \<Longrightarrow> \<forall>i. e \<noteq> Io i \<Longrightarrow> fst (execute_delete B io p x now) = p"
  "err_of (publish_checkpoint B io p c) = Some e \<Longrightarrow> \<forall>i. e \<noteq> Io i \<Longrightarrow> fst (publish_checkpoint B io p c) = p"
  "err_of (publish_handoff B io p h) = Some e \<Longrightarrow> \<forall>i. e \<noteq> Io i \<Longrightarrow> fst (publish_handoff B io p h) = p"
  unfolding publish_witness_def publish_delete_request_def publish_delete_approval_def execute_delete_def
    publish_checkpoint_def publish_handoff_def Let_def err_of_def
  by (auto split: sum.splits option.splits if_splits prod.splits Quorum.decision.splits
      dest: persist_file_refuses persist_refuses)

text \<open>
  C33. A refused record is not filed. Whenever a peer that does not fork answers an error to a slot
  record, witness, handoff, checkpoint, deletion request, approval or execution, its memory is
  exactly what it was, and so is every named file of its directory. If the error is a refusal (a bad
  signature, a full table, a lost compare-and-swap) nothing at all has changed; if it is a failed
  file operation, a temporary file may have been left behind.
\<close>

theorem refused_record_is_not_filed:
  assumes "files_record op" and "\<not> hfork (pe_hostility p)" and "peer_error_of B io op p = Some e"
  shows "tmp_only (peer_step B io op p) p \<and> ((\<forall>i. e \<noteq> Io i) \<longrightarrow> peer_step B io op p = p)"
proof (cases op)
  case (OpSlot s r)
  obtain d res where d: "persist_slot io (pe_disk p) r = (d, res)" by fastforce
  have "put_slots p d (pe_slots p) = p" if "res = Inl e'" and "\<forall>i. e' \<noteq> Io i" for e'
    using persist_refuses(4) [of io "pe_disk p" r d e'] d that by simp
  then show ?thesis
    using d publish_slot_eq [OF assms(2), of s B r io] assms(3) OpSlot tmp_only_put(7) [of d p] persist_Inl(4)
    by (cases res) (auto simp: err_of_def store_record_def split: if_splits)
qed (use assms(1,3) refused_cases refused_unchanged in auto)

theorem refused_record_is_not_filed_witness:
  "peer_error_of toy_backend toy_io (OpSlot [9] toy_genesis) toy_peer = Some (peer_error.Refused UnknownSubject) \<and>
   peer_step toy_backend toy_io (OpSlot [9] toy_genesis) toy_peer = toy_peer"
proof -
  have e: "peer_error_of toy_backend toy_io (OpSlot [9] toy_genesis) toy_peer = Some (peer_error.Refused UnknownSubject)"
    by (simp add: publish_slot_def err_of_def toy_peer_def Acl_check_def Acl_grant_def Acl_new_def
        enforceable_in_def permits_def btm_get_upsert)
  with refused_record_is_not_filed [OF _ _ e] show ?thesis by (simp add: toy_honest HONEST_def)
qed

end
