(* ===== verification/Server.thy ===== *)
theory Server
  imports Session Peer_Gc
begin

text \<open>
  \<open>nas-transfer/src/server.rs\<close>: the dispatch of requests onto the peer and the loop that serves a
  channel. The text of an error is rendered by \<open>Display\<close>, here a parameter \<open>say\<close> over the errors that
  can reach it. A call answers with the new peer and the response.
\<close>

section \<open>List responses\<close>

datatype server_error =
    SePeer peer_error
  | SeSlot record_error
  | SeWitness witness_error
  | SeHandoff handoff_error
  | SeCheckpoint checkpoint_error
  | SeDelete delete_error
  | SeRefusal refusal

fun bounded_loop :: "('t \<Rightarrow> server_error + bytes) \<Rightarrow> 't list \<Rightarrow> bytes list \<Rightarrow> usize \<Rightarrow> server_error + bytes list" where
  "bounded_loop enc [] out used = Ok out"
| "bounded_loop enc (item # items) out used =
    (if length out = MAX_RECORDS then Ok out
     else rbind (enc item) (\<lambda>bs.
       if used + record_cost (length bs) > RECORD_BUDGET then Ok out
       else bounded_loop enc items (out @ [bs]) (used + record_cost (length bs))))"

definition bounded :: "(server_error \<Rightarrow> bytes) \<Rightarrow> 't list \<Rightarrow> ('t \<Rightarrow> server_error + bytes) \<Rightarrow> response" where
  "bounded say items enc =
    (case bounded_loop enc items [] 0 of Inl e \<Rightarrow> ErrorRsp (say e) | Inr out \<Rightarrow> Records out)"

section \<open>Dispatch\<close>

definition is_relay :: "request \<Rightarrow> bool" where
  "is_relay req = (case req of PublishWitness _ \<Rightarrow> True | Witnesses _ \<Rightarrow> True | _ \<Rightarrow> False)"

text \<open>The answer to a call that returns a value, and to one that stores a decoded record.\<close>

definition answer :: "(server_error \<Rightarrow> bytes) \<Rightarrow> ('a \<Rightarrow> response) \<Rightarrow> peer \<times> (peer_error + 'a) \<Rightarrow> peer \<times> response" where
  "answer say ok r = (fst r, case snd r of Inl e \<Rightarrow> ErrorRsp (say (SePeer e)) | Inr x \<Rightarrow> ok x)"

definition with_decoded ::
  "(server_error \<Rightarrow> bytes) \<Rightarrow> peer \<Rightarrow> server_error + 'r \<Rightarrow> ('r \<Rightarrow> peer \<times> response) \<Rightarrow> peer \<times> response" where
  "with_decoded say p d f = (case d of Inl e \<Rightarrow> (p, ErrorRsp (say e)) | Inr r \<Rightarrow> f r)"

fun dispatch ::
  "backend \<Rightarrow> io_env \<Rightarrow> (server_error \<Rightarrow> bytes) \<Rightarrow> timestamp \<Rightarrow> peer \<Rightarrow> bytes \<Rightarrow> request \<Rightarrow> peer \<times> response" where
  "dispatch B io say now p subject (GetBlob a) = answer say Blob (p, get_blob B io p a)"
| "dispatch B io say now p subject (HasBlob a) = (p, BoolRsp (has_blob p a))"
| "dispatch B io say now p subject (PutBlob bs) = answer say Stored (put_blob B io p bs)"
| "dispatch B io say now p subject (Prove a nonce) = answer say ProofRsp (Peer_prove B io p a nonce)"
| "dispatch B io say now p subject (SlotHead slot) =
    (p, RecordRsp (Option.bind (slot_head p slot) (to_option \<circ> SlotRecord_encode)))"
| "dispatch B io say now p subject (SlotHistory slot lower) =
    (p, bounded say (slot_history p slot lower) (\<lambda>r. map_err SeSlot (SlotRecord_encode r)))"
| "dispatch B io say now p subject (PublishSlot bs) =
    with_decoded say p (map_err SeSlot (SlotRecord_decode B bs)) (\<lambda>r.
      answer say (\<lambda>_. OkRsp) (publish_slot B io p subject r))"
| "dispatch B io say now p subject (PublishWitness bs) =
    with_decoded say p (map_err SeWitness (Witness_decode B bs)) (\<lambda>w.
      answer say (\<lambda>_. OkRsp) (publish_witness B io p w))"
| "dispatch B io say now p subject (Witnesses slot) =
    (p, bounded say (Peer_witnesses p slot) (\<lambda>w. map_err SeWitness (Witness_encode w)))"
| "dispatch B io say now p subject (PublishHandoff bs) =
    with_decoded say p (map_err SeHandoff (SlotHandoff_decode B bs)) (\<lambda>h.
      answer say (\<lambda>_. OkRsp) (publish_handoff B io p h))"
| "dispatch B io say now p subject (Handoffs slot) =
    (p, bounded say (Peer_handoffs p slot) (\<lambda>h. map_err SeHandoff (SlotHandoff_encode h)))"
| "dispatch B io say now p subject (PublishCheckpoint bs) =
    with_decoded say p (map_err SeCheckpoint (Checkpoint_decode B bs)) (\<lambda>c.
      answer say (\<lambda>_. OkRsp) (publish_checkpoint B io p c))"
| "dispatch B io say now p subject (Checkpoints slot lower) =
    (p, bounded say (Peer_checkpoints p slot lower) (\<lambda>c. map_err SeCheckpoint (Checkpoint_encode c)))"
| "dispatch B io say now p subject (TakeLease addrs) =
    answer say (\<lambda>_. OkRsp) (take_lease io p (holder_id B subject) addrs now)"
| "dispatch B io say now p subject (ReleaseLease addrs) =
    answer say (\<lambda>_. OkRsp) (release_lease io p (holder_id B subject) addrs now)"
| "dispatch B io say now p subject Leases = (p, Addrs (leases_of p (holder_id B subject)))"
| "dispatch B io say now p subject SweepWarnings =
    answer say Addrs (p, sweep_warnings io p (holder_id B subject) now)"
| "dispatch B io say now p subject (PublishDeleteRequest bs) =
    (let d = Acl_check (pe_acl p) subject Acl.DeleteRequest (pe_mode p)
     in if \<not> permits d then (p, ErrorRsp (say (SePeer (peer_error.Refused d))))
        else with_decoded say p (map_err SeDelete (DeleteRequest_decode B bs)) (\<lambda>r.
          answer say ProofRsp (publish_delete_request B io p r)))"
| "dispatch B io say now p subject (PublishDeleteApproval bs) =
    with_decoded say p (map_err SeDelete (DeleteApproval_decode B bs)) (\<lambda>a.
      answer say (\<lambda>_. OkRsp) (publish_delete_approval B io p a))"
| "dispatch B io say now p subject (ExecuteDelete bs) =
    with_decoded say p (map_err SeDelete (DeleteExecution_decode B bs)) (\<lambda>e.
      answer say (\<lambda>d. case d of Execute _ _ \<Rightarrow> OkRsp | Quorum.Refused why \<Rightarrow> ErrorRsp (say (SeRefusal why)))
        (execute_delete B io p e now))"
| "dispatch B io say now p subject (DeleteRequestRecord h) =
    (p, RecordRsp (Option.bind (Peer_delete_request p h) (to_option \<circ> DeleteRequest_encode)))"
| "dispatch B io say now p subject (DeleteApprovals h) =
    (p, bounded say (delete_approvals_for p h) (\<lambda>a. map_err SeDelete (DeleteApproval_encode a)))"
| "dispatch B io say now p subject (ForgetRetention addrs pf) =
    with_decoded say p (map_err SeDelete (DeleteExecution_decode B pf)) (\<lambda>e.
      answer say (\<lambda>_. OkRsp) (forget_retention B io p addrs e))"

definition handle_at ::
  "backend \<Rightarrow> io_env \<Rightarrow> (server_error \<Rightarrow> bytes) \<Rightarrow> timestamp \<Rightarrow> peer \<Rightarrow> bytes \<Rightarrow> request \<Rightarrow> peer \<times> response" where
  "handle_at B io say now p subject req =
    (if pe_witness_only p \<and> \<not> is_relay req then (p, ErrorRsp (say (SePeer WitnessOnly)))
     else dispatch B io say now p subject req)"

section \<open>Serving a channel\<close>

lemma recv_request_shorter:
  "recv_request X ch = (ch', Inr q) \<Longrightarrow> length (wi_bytes (ch_in ch')) < length (wi_bytes (ch_in ch))"
  by (auto simp: recv_request_def Channel_recv_def dest!: read_frame_shorter split: prod.splits sum.splits)

lemma send_response_in: "send_response X ch r = (ch', x) \<Longrightarrow> ch_in ch' = ch_in ch"
  by (auto simp: send_response_def Channel_send_def split: sum.splits prod.splits)

lemma serve_step_shorter:
  "(ch1, Inr q) = recv_request X ch \<Longrightarrow> (ch2, x) = send_response X ch1 r \<Longrightarrow>
    length (wi_bytes (ch_in ch2)) < length (wi_bytes (ch_in ch))"
  using recv_request_shorter [of X ch ch1 q] send_response_in [of X ch1 r ch2 x] by simp

text \<open>The loop ends: every request it serves takes at least its length prefix off the socket.\<close>

function serve_loop ::
  "backend \<Rightarrow> (nat \<Rightarrow> io_env) \<Rightarrow> (server_error \<Rightarrow> bytes) \<Rightarrow> (nat \<Rightarrow> timestamp) \<Rightarrow> ('i, 's) pqc \<Rightarrow> bytes
    \<Rightarrow> nat \<Rightarrow> peer \<Rightarrow> 's channel \<Rightarrow> (peer \<times> 's channel) \<times> (session_error + nat)" where
  "serve_loop B ios say clock X subject served p ch =
    (case recv_request X ch of
       (ch1, Inl e) \<Rightarrow> ((p, ch1), if e = Truncated then Ok served else Err e)
     | (ch1, Inr req) \<Rightarrow>
         (case handle_at B (ios served) say (clock served) p subject req of
            (p1, rsp) \<Rightarrow>
              (case send_response X ch1 rsp of
                 (ch2, Inl e) \<Rightarrow> ((p1, ch2), Err e)
               | (ch2, Inr _) \<Rightarrow> serve_loop B ios say clock X subject (Suc served) p1 ch2)))"
  by pat_completeness auto

termination
  by (relation "measure (\<lambda>(B, ios, say, clock, X, subject, served, p, ch). length (wi_bytes (ch_in ch)))")
    (auto intro: serve_step_shorter)

declare serve_loop.simps [simp del]

definition serve ::
  "backend \<Rightarrow> (nat \<Rightarrow> io_env) \<Rightarrow> (server_error \<Rightarrow> bytes) \<Rightarrow> (nat \<Rightarrow> timestamp) \<Rightarrow> ('i, 's) pqc
    \<Rightarrow> peer \<Rightarrow> 's channel \<Rightarrow> (peer \<times> 's channel) \<times> (session_error + nat)" where
  "serve B ios say clock X p ch =
    serve_loop B ios say clock X
      (case subject_for p (peer_identity ch) of None \<Rightarrow> byte_str ''?'' | Some s \<Rightarrow> s) 0 p ch"

section \<open>Every request is a step of the peer\<close>

lemmas record_decodes =
  slot_record_decode_iff witness_decode_Inr_iff slot_handoff_decode_Inr_iff Checkpoint_decode_Inr_iff
  approval.dec_iff delete_execution.dec_iff delete_records_decode_iff [THEN conjunct1]

lemma with_decoded_step:
  assumes "\<And>r. d = Inr r \<Longrightarrow> op_wf B (mk r) \<and> fst (f r) = peer_step B io (mk r) p"
  shows "fst (with_decoded say p (map_err k d) f) = p \<or>
    (\<exists>op. op_wf B op \<and> fst (with_decoded say p (map_err k d) f) = peer_step B io op p)"
  using assms by (cases d) (auto simp: with_decoded_def)

lemma handle_at_step:
  assumes "wf_Request req"
  shows "fst (handle_at B io say now p subject req) = p \<or>
    (\<exists>op. op_wf B op \<and> fst (handle_at B io say now p subject req) = peer_step B io op p)"
proof (cases "pe_witness_only p \<and> \<not> is_relay req")
  case True
  then show ?thesis by (simp add: handle_at_def)
next
  case False
  have "fst (dispatch B io say now p subject req) = p \<or>
      (\<exists>op. op_wf B op \<and> fst (dispatch B io say now p subject req) = peer_step B io op p)"
  proof (cases req)
    case (PutBlob bs)
    then show ?thesis by (intro disjI2 exI [of _ "OpPut bs"]) (simp add: answer_def)
  next
    case (Prove a n)
    then show ?thesis by (intro disjI2 exI [of _ "OpProve a n"]) (simp add: answer_def)
  next
    case (PublishSlot bs)
    show ?thesis unfolding PublishSlot dispatch.simps
      by (rule with_decoded_step [where mk = "OpSlot subject"])
        (use assms PublishSlot in \<open>simp add: record_decodes answer_def\<close>)
  next
    case (PublishWitness bs)
    show ?thesis unfolding PublishWitness dispatch.simps
      by (rule with_decoded_step [where mk = "OpWitness"])
        (use assms PublishWitness in \<open>simp add: record_decodes answer_def\<close>)
  next
    case (PublishHandoff bs)
    show ?thesis unfolding PublishHandoff dispatch.simps
      by (rule with_decoded_step [where mk = "OpHandoff"])
        (use assms PublishHandoff in \<open>simp add: record_decodes answer_def\<close>)
  next
    case (PublishCheckpoint bs)
    show ?thesis unfolding PublishCheckpoint dispatch.simps
      by (rule with_decoded_step [where mk = "OpCheckpoint"])
        (use assms PublishCheckpoint in \<open>simp add: record_decodes answer_def\<close>)
  next
    case (TakeLease as)
    then show ?thesis
      using assms by (intro disjI2 exI [of _ "OpTake (holder_id B subject) as now"])
        (simp add: answer_def wf_wire_addrs_def ADDR_LEN_def)
  next
    case (ReleaseLease as)
    then show ?thesis
      using assms by (intro disjI2 exI [of _ "OpRelease (holder_id B subject) as now"])
        (simp add: answer_def wf_wire_addrs_def ADDR_LEN_def)
  next
    case (PublishDeleteRequest bs)
    show ?thesis
    proof (cases "permits (Acl_check (pe_acl p) subject Acl.DeleteRequest (pe_mode p))")
      case True
      with PublishDeleteRequest show ?thesis
        using with_decoded_step [of "DeleteRequest_decode B bs" B OpRequest]
        by (simp add: record_decodes answer_def)
    qed (simp add: PublishDeleteRequest)
  next
    case (PublishDeleteApproval bs)
    show ?thesis unfolding PublishDeleteApproval dispatch.simps
      by (rule with_decoded_step [where mk = "OpApproval"])
        (use assms PublishDeleteApproval in \<open>simp add: record_decodes answer_def\<close>)
  next
    case (ExecuteDelete bs)
    show ?thesis unfolding ExecuteDelete dispatch.simps
      by (rule with_decoded_step [where mk = "\<lambda>e. OpExecute e now"])
        (use assms ExecuteDelete in \<open>simp add: record_decodes answer_def\<close>)
  next
    case (ForgetRetention as bs)
    show ?thesis unfolding ForgetRetention dispatch.simps
      by (rule with_decoded_step [where mk = "OpForget as"])
        (use assms ForgetRetention in \<open>simp add: record_decodes answer_def wf_wire_addrs_def ADDR_LEN_def\<close>)
  qed (simp_all add: answer_def)
  with False show ?thesis by (auto simp: handle_at_def)
qed

lemma handle_at_run: "wf_Request req \<Longrightarrow> peer_run B p (fst (handle_at B io say now p subject req))"
  using handle_at_step [of req B io say now p subject] run_step [OF run_refl, of B _ p io] by (metis run_refl)

lemma run_trans: "peer_run B p q \<Longrightarrow> peer_run B q s \<Longrightarrow> peer_run B p s"
  by (rotate_tac) (induction rule: peer_run.induct, auto intro: run_step)

lemma recv_request_wf: "recv_request X ch = (ch', Inr q) \<Longrightarrow> wf_Request q"
  by (auto simp: recv_request_def map_err_Inr_iff request_decode_Inr_iff split: prod.splits sum.splits)

text \<open>What holds before a session and is kept by every request holds after it.\<close>

lemma serve_loop_invariant:
  assumes "I p" and "\<And>p req n. I p \<Longrightarrow> wf_Request req \<Longrightarrow> I (fst (handle_at B (ios n) say (clock n) p subject req))"
  shows "I (fst (fst (serve_loop B ios say clock X subject served p ch)))"
  using assms(1)
proof (induction "length (wi_bytes (ch_in ch))" arbitrary: served p ch rule: less_induct)
  case less
  obtain ch1 q where q: "recv_request X ch = (ch1, q)" by fastforce
  show ?case
  proof (cases q)
    case (Inl e)
    then show ?thesis using q less.prems by (subst serve_loop.simps) simp
  next
    case (Inr req)
    obtain p1 rsp where h: "handle_at B (ios served) say (clock served) p subject req = (p1, rsp)" by fastforce
    obtain ch2 r where r: "send_response X ch1 rsp = (ch2, r)" by fastforce
    have "I p1" using assms(2) [OF less.prems, of req served] recv_request_wf [of X ch ch1 req] q Inr h by simp
    moreover have "length (wi_bytes (ch_in ch2)) < length (wi_bytes (ch_in ch))"
      using serve_step_shorter [of ch1 req X ch ch2 r rsp] q Inr r by simp
    ultimately show ?thesis
      using less.hyps [of ch2 p1 "Suc served"] q Inr h r by (subst serve_loop.simps) (simp split: sum.split)
  qed
qed

text \<open>
  Serving is running: whatever arrives on a channel, the peer after \<open>serve\<close> is one its own operations
  reach from the peer before, so the guarantees proved over runs hold for a peer on the network.
\<close>

lemma serving_is_a_run: "peer_run B p (fst (fst (serve B ios say clock X p ch)))"
  unfolding serve_def
  by (rule serve_loop_invariant [where I = "peer_run B p"]) (auto intro: run_refl run_trans handle_at_run)

section \<open>What a session may change\<close>

text \<open>The subject a channel speaks for: the one its authenticated key is bound to, or \<open>?\<close>.\<close>

definition session_subject :: "peer \<Rightarrow> 's channel \<Rightarrow> bytes" where
  "session_subject p ch = (case subject_for p (peer_identity ch) of None \<Rightarrow> byte_str ''?'' | Some s \<Rightarrow> s)"

text \<open>The stored blobs, as a set of addresses.\<close>

definition stored_addrs :: "peer \<Rightarrow> addr set" where
  "stored_addrs p = {a. BlobStore_has (pe_blobs p) a}"

text \<open>What a request of the subject may change in the tables the access control list guards.\<close>

definition confined :: "backend \<Rightarrow> bytes \<Rightarrow> peer \<Rightarrow> peer \<Rightarrow> bool" where
  "confined B s p q \<longleftrightarrow>
    (may_publish p s \<or> pe_slots q = pe_slots p \<and> pe_forks q = pe_forks p) \<and>
    (permits (Acl_check (pe_acl p) s Acl.DeleteRequest (pe_mode p)) \<or> pe_delete_requests q = pe_delete_requests p) \<and>
    (\<forall>h. h = holder_id B s \<or> leases_of q h = leases_of p h) \<and>
    set (pe_retention q) \<subseteq> set (pe_retention p) \<and> stored_addrs p \<subseteq> stored_addrs q \<and>
    pe_acl q = pe_acl p \<and> pe_mode q = pe_mode p"

lemma confined_trans: "confined B s p q \<Longrightarrow> confined B s q r \<Longrightarrow> confined B s p r"
  unfolding confined_def may_publish_def by (elim conjE) (intro conjI; metis order_trans)

text \<open>Filing a record other than a slot record or a deletion request changes none of it.\<close>

definition untouched :: "peer \<Rightarrow> peer \<Rightarrow> bool" where
  "untouched p q \<longleftrightarrow> pe_slots q = pe_slots p \<and> pe_forks q = pe_forks p \<and> pe_delete_requests q = pe_delete_requests p \<and>
    pe_leases q = pe_leases p \<and> pe_retention q = pe_retention p \<and> pe_blobs q = pe_blobs p \<and>
    pe_acl q = pe_acl p \<and> pe_mode q = pe_mode p"

lemma untouched_confined: "untouched p q \<Longrightarrow> confined B s p q"
  by (simp add: untouched_def confined_def leases_of_def stored_addrs_def)

lemma tmp_only_untouched: "tmp_only q p \<Longrightarrow> untouched p q"
proof -
  assume "tmp_only q p"
  then obtain d where "q = p\<lparr>pe_disk := d\<rparr>" unfolding tmp_only_def by blast
  then show ?thesis by (simp add: untouched_def)
qed

lemma filing_untouched:
  "untouched p (fst (publish_witness B io p w))" "untouched p (fst (publish_handoff B io p h))"
  "untouched p (fst (publish_checkpoint B io p c))" "untouched p (fst (publish_delete_approval B io p a))"
  "untouched p (fst (execute_delete B io p e now))"
proof -
  show "untouched p (fst (publish_witness B io p w))"
    using publish_witness_cases [of B io p w] tmp_only_untouched by (auto simp: untouched_def put_defs)
  show "untouched p (fst (publish_handoff B io p h))"
    using publish_handoff_cases [of B io p h] tmp_only_untouched by (auto simp: untouched_def put_defs)
  show "untouched p (fst (publish_checkpoint B io p c))"
    using publish_checkpoint_cases [of B io p c] tmp_only_untouched by (auto simp: untouched_def put_defs)
  show "untouched p (fst (publish_delete_approval B io p a))"
    using publish_delete_approval_cases [of B io p a] tmp_only_untouched by (auto simp: untouched_def put_defs)
  show "untouched p (fst (execute_delete B io p e now))"
    using execute_delete_cases [of B io p e now] tmp_only_untouched by (auto simp: untouched_def put_defs)
qed

lemma persist_leases_confined:
  "confined B s p (fst (persist_leases io (p\<lparr>pe_leases := btm_insert (holder_id B s) x (pe_leases p)\<rparr>)))"
  "confined B s p (fst (persist_leases io p))"
  by (auto simp: confined_def stored_addrs_def persist_leases_def leases_of_def split: option.split prod.split)

lemma leases_confined:
  "confined B s p (fst (take_lease io p (holder_id B s) as now))"
  "confined B s p (fst (release_lease io p (holder_id B s) as now))"
  using persist_leases_confined [of B s p] untouched_confined [of p p B s]
  by (auto simp: take_lease_def release_lease_def Let_def case_prod_unfold untouched_def split: option.split sum.split)

lemma forget_shrinks: "set (fold bts_remove as m) \<subseteq> set m"
  by (induction as arbitrary: m) (simp, metis fold_simps(2) order_trans set_bts_remove_subset)

lemma forget_confined: "confined B s p (fst (forget_retention B io p as e))"
  using forget_shrinks [of as "pe_retention p"]
  by (simp add: forget_retention_def confined_def stored_addrs_def leases_of_def persist_retention_def split: sum.split option.split)

lemma touch_keeps: "BlobStore_has st a \<Longrightarrow> BlobStore_has (fst (touch_path io st x f)) a"
  by (simp add: touch_path_def BlobStore_has_def split: option.split)

lemma blobs_confined: "confined B s p (fst (put_blob B io p bs))" "confined B s p (fst (Peer_prove B io p x n))"
proof -
  have "BlobStore_has st a \<Longrightarrow> BlobStore_has (fst (BlobStore_put B io st bs)) a" for st a
    using touch_keeps [of st a]
    by (auto simp: BlobStore_put_def Let_def BlobStore_has_def case_prod_unfold split: option.split)
  moreover have "BlobStore_has st a \<Longrightarrow> BlobStore_has (fst (BlobStore_prove B io st x n)) a" for st a
    using touch_keeps [of st a]
    by (auto simp: BlobStore_prove_def BlobStore_touch_def case_prod_unfold split: option.split sum.split)
  ultimately show "confined B s p (fst (put_blob B io p bs))" "confined B s p (fst (Peer_prove B io p x n))"
    by (auto simp: confined_def stored_addrs_def leases_of_def put_blob_def Peer_prove_def case_prod_unfold)
qed

lemma publish_slot_confined: "confined B s p (fst (publish_slot B io p s r))"
proof (cases "may_publish p s")
  case True
  consider "tmp_only (fst (publish_slot B io p s r)) p"
    | alt where "fst (publish_slot B io p s r) = put_forks p (sr_slot_id r) alt"
    | d m where "fst (publish_slot B io p s r) = put_slots p d m"
    using publish_slot_cases [of B io p s r] store_record_cases [of io p r] tmp_only_refl by (metis imageE)
  then show ?thesis
  proof cases
    case 1
    then show ?thesis by (intro untouched_confined tmp_only_untouched)
  qed (use True in \<open>simp_all add: confined_def stored_addrs_def leases_of_def put_forks_def put_slots_def\<close>)
qed (simp add: may_publish_def publish_slot_def untouched_confined untouched_def)

lemma publish_request_confined:
  assumes "permits (Acl_check (pe_acl p) s Acl.DeleteRequest (pe_mode p))"
  shows "confined B s p (fst (publish_delete_request B io p r))"
proof -
  consider "tmp_only (fst (publish_delete_request B io p r)) p"
    | d m where "fst (publish_delete_request B io p r) = put_requests p d m"
    using publish_delete_request_cases [of B io p r] by metis
  then show ?thesis
  proof cases
    case 1
    then show ?thesis by (intro untouched_confined tmp_only_untouched)
  qed (use assms in \<open>simp add: confined_def stored_addrs_def leases_of_def put_requests_def\<close>)
qed

lemma with_decoded_confined:
  assumes "\<And>r. confined B s p (fst (f r))"
  shows "confined B s p (fst (with_decoded say p d f))"
  using assms by (cases d) (simp_all add: with_decoded_def untouched_confined untouched_def)

lemma handle_confined: "confined B s p (fst (handle_at B io say now p s req))"
proof -
  have "confined B s p p" by (simp add: untouched_confined untouched_def)
  then have "confined B s p (fst (dispatch B io say now p s req))"
    by (cases req) (auto simp: answer_def Let_def filing_untouched untouched_confined leases_confined forget_confined
      blobs_confined publish_slot_confined publish_request_confined intro!: with_decoded_confined)
  with \<open>confined B s p p\<close> show ?thesis by (simp add: handle_at_def)
qed

lemma session_confined: "confined B (session_subject p ch) p (fst (fst (serve B ios say clock X p ch)))"
  unfolding serve_def session_subject_def [symmetric]
  by (rule serve_loop_invariant [where I = "confined B (session_subject p ch) p"])
    (auto intro: confined_trans handle_confined simp: untouched_confined untouched_def)

section \<open>Replies\<close>

definition reply_cost :: "bytes list \<Rightarrow> usize" where
  "reply_cost rs = sum_list (map (record_cost \<circ> length) rs)"

lemma reply_cost_simps [simp]:
  "reply_cost [] = 0" "reply_cost (rs @ ss) = reply_cost rs + reply_cost ss"
  "reply_cost (r # rs) = record_cost (length r) + reply_cost rs"
  by (simp_all add: reply_cost_def)

lemma bounded_loop_Inr:
  assumes "bounded_loop enc items out used = Inr res" and "length out \<le> MAX_RECORDS"
    and "used = reply_cost out" and "used \<le> RECORD_BUDGET"
  shows "\<exists>k \<le> length items. \<exists>new. traverse enc (take k items) = Inr new \<and> res = out @ new \<and>
    length res \<le> MAX_RECORDS \<and> reply_cost res \<le> RECORD_BUDGET \<and>
    (k = length items \<or> length res = MAX_RECORDS \<or>
      (\<exists>bs. enc (items ! k) = Inr bs \<and>
        RECORD_BUDGET < reply_cost res + record_cost (length bs)))"
  using assms
proof (induction items arbitrary: out used)
  case Nil
  then show ?case by simp
next
  case (Cons item items)
  consider (full) "length out = MAX_RECORDS" "res = out"
    | (over) bs where "enc item = Inr bs" "RECORD_BUDGET < used + record_cost (length bs)" "res = out"
    | (more) bs where "length out < MAX_RECORDS" "enc item = Inr bs" "used + record_cost (length bs) \<le> RECORD_BUDGET"
        "bounded_loop enc items (out @ [bs]) (used + record_cost (length bs)) = Inr res"
    using Cons.prems(1,2) by (fastforce simp: rbind_Inr_iff split: if_splits)
  then show ?case
  proof cases
    case full
    then show ?thesis using Cons.prems by (intro exI [of _ 0]) auto
  next
    case over
    then show ?thesis using Cons.prems by (intro exI [of _ 0]) auto
  next
    case more
    then have "\<exists>k \<le> length items. \<exists>new. traverse enc (take k items) = Inr new \<and> res = (out @ [bs]) @ new \<and>
        length res \<le> MAX_RECORDS \<and> reply_cost res \<le> RECORD_BUDGET \<and>
        (k = length items \<or> length res = MAX_RECORDS \<or> (\<exists>bs. enc (items ! k) = Inr bs \<and>
          RECORD_BUDGET < reply_cost res + record_cost (length bs)))"
      using Cons.prems(3) by (intro Cons.IH [of "out @ [bs]" "used + record_cost (length bs)"]) simp_all
    then obtain k new where "k \<le> length items" "traverse enc (take k items) = Inr new" "res = (out @ [bs]) @ new"
      "length res \<le> MAX_RECORDS" "reply_cost res \<le> RECORD_BUDGET"
      "k = length items \<or> length res = MAX_RECORDS \<or> (\<exists>bs. enc (items ! k) = Inr bs \<and>
        RECORD_BUDGET < reply_cost res + record_cost (length bs))" by blast
    then show ?thesis using more(2) by (intro exI [of _ "Suc k"]) auto
  qed
qed

text \<open>
  A list reply always fits. What \<open>bounded\<close> answers, when every item it looked at encodes, is the
  encodings of a prefix of the items, it encodes as a response that decodes to the same list, and it
  stops early only at the record limit or before an item that would have gone over the byte budget,
  so a client that asks again from there makes progress.
\<close>

theorem list_replies_always_fit:
  assumes "bounded say items enc = Records rs"
  shows "\<exists>k bs. k \<le> length items \<and> traverse enc (take k items) = Ok rs \<and>
    Response_encode (Records rs) = Ok bs \<and> Response_decode bs = Ok (Records rs) \<and>
    (k = length items \<or> length rs = MAX_RECORDS \<or>
      (\<exists>b. enc (items ! k) = Ok b \<and>
        RECORD_BUDGET < reply_cost rs + record_cost (length b)))"
proof -
  have "bounded_loop enc items [] 0 = Inr rs"
    using assms by (auto simp: bounded_def split: sum.splits)
  from bounded_loop_Inr [OF this] obtain k where k: "k \<le> length items" "traverse enc (take k items) = Inr rs"
    "length rs \<le> MAX_RECORDS" "reply_cost rs \<le> RECORD_BUDGET"
    "k = length items \<or> length rs = MAX_RECORDS \<or> (\<exists>bs. enc (items ! k) = Inr bs \<and>
      RECORD_BUDGET < reply_cost rs + record_cost (length bs))"
    by (auto simp: MAX_RECORDS_def RECORD_BUDGET_def)
  from records_fit [OF k(3) k(4) [unfolded reply_cost_def]] show ?thesis using k(1,2,5) by blast
qed

theorem list_replies_always_fit_witness:
  "\<exists>k bs. k \<le> 2 \<and> traverse Inr (take k [[1, 2], [3]]) = (Ok [[1, 2], [3]] :: server_error + bytes list) \<and>
    Response_encode (Records [[1, 2], [3]]) = Ok bs \<and> Response_decode bs = Ok (Records [[1, 2], [3]])"
proof -
  have "bounded (\<lambda>_. []) [[1, 2], [3]] Inr = Records [[1, 2], [3]]"
    by (simp add: bounded_def MAX_RECORDS_def RECORD_BUDGET_def MAX_FRAME_def record_cost_def)
  from list_replies_always_fit [OF this] show ?thesis by auto
qed

text \<open>
  The address list is the reply that is not bounded: a holder with more leases than a message may
  carry gets no answer, since its \<open>Leases\<close> reply does not encode and \<open>serve\<close> gives up the connection.
\<close>

lemma too_many_leases_to_list:
  assumes "MAX_RECORDS < length (leases_of p (holder_id B subject))" and "\<not> pe_witness_only p"
  shows "Response_encode (snd (handle_at B io say now p subject Leases)) =
    Err (TooManyRecords (length (leases_of p (holder_id B subject))))"
  using assms by (simp add: handle_at_def Response_encode_def encode_addrs_def)

text \<open>Reading a blob asks the access control list nothing, in any mode and for any subject.\<close>

lemma reads_ignore_the_acl:
  "snd (handle_at B io say now (p\<lparr>pe_acl := a\<rparr>) s (GetBlob x)) = snd (handle_at B io say now p s' (GetBlob x))"
  by (simp add: handle_at_def answer_def get_blob_def is_relay_def)

text \<open>Storing a blob does not ask it either, so the subject of an unknown key may store.\<close>

lemma unknown_key_stores_blobs:
  "fst (handle_at B io say now p s (PutBlob bs)) = fst (handle_at B io say now p s' (PutBlob bs))"
  by (simp add: handle_at_def answer_def is_relay_def)

section \<open>Witness-only nodes\<close>

definition witnesses_only :: "peer \<Rightarrow> peer \<Rightarrow> bool" where
  "witnesses_only p q \<longleftrightarrow> (\<exists>files m. q = put_witnesses p files m)"

lemma witnesses_only_refl: "witnesses_only p p"
  unfolding witnesses_only_def by (intro exI [of _ "dk_witnesses (pe_disk p)"] exI [of _ "pe_witnesses p"])
    (simp add: put_witnesses_def)

lemma witnesses_only_trans: "witnesses_only p q \<Longrightarrow> witnesses_only q r \<Longrightarrow> witnesses_only p r"
proof -
  assume "witnesses_only p q" "witnesses_only q r"
  then obtain f m f' m' where "q = put_witnesses p f m" "r = put_witnesses q f' m'" by (auto simp: witnesses_only_def)
  then have "r = put_witnesses p f' m'" by (simp add: put_witnesses_def)
  then show "witnesses_only p r" by (auto simp: witnesses_only_def)
qed

lemma publish_witness_only: "witnesses_only p (fst (publish_witness B io p w))"
proof -
  have "\<exists>d m. fst (publish_witness B io p w) = put_witnesses p d m" if "fst (publish_witness B io p w) \<noteq> p"
    using that by (auto simp: publish_witness_def Let_def split: sum.splits option.splits prod.splits if_splits)
  then show ?thesis using witnesses_only_refl [of p] unfolding witnesses_only_def by metis
qed

lemma relay_only:
  assumes "pe_witness_only p"
  shows "witnesses_only p (fst (handle_at B io say now p subject req))"
proof (cases req)
  case (PublishWitness bs)
  show ?thesis
  proof (cases "Witness_decode B bs")
    case (Inr w)
    have "witnesses_only p (fst (publish_witness B io p w))"
      by (rule publish_witness_only)
    with PublishWitness Inr show ?thesis by (simp add: handle_at_def is_relay_def with_decoded_def answer_def)
  qed (simp add: PublishWitness handle_at_def is_relay_def with_decoded_def witnesses_only_refl)
qed (use assms witnesses_only_refl in \<open>simp_all add: handle_at_def is_relay_def\<close>)

lemma relay_session:
  assumes "pe_witness_only p"
  shows "witnesses_only p (fst (fst (serve B ios say clock X p ch)))"
  unfolding serve_def
proof (rule serve_loop_invariant [where I = "witnesses_only p"])
  show "witnesses_only p (fst (handle_at B (ios n) say (clock n) x s req))" if "witnesses_only p x" for x req n s
  proof -
    have "pe_witness_only x" using that assms by (auto simp: witnesses_only_def put_witnesses_def)
    from witnesses_only_trans [OF that relay_only [OF this]] show ?thesis .
  qed
qed (rule witnesses_only_refl)

text \<open>
  C31. A session acts only as its subject. Whatever bytes arrive on a channel, over the whole session
  and on whatever file system: slot records and forked branches change only if the access control
  list lets the subject the channel's key is bound to (\<open>?\<close> if it is bound to none) write or append, deletion
  requests only if it lets that subject request deletion, and leases only in that subject's own
  name; nothing is added to the retention set, no stored blob is lost, and the list and the mode
  stay as they are. On a witness-only node nothing at all changes but the witness table and its
  directory.
\<close>

theorem session_acts_only_as_its_subject:
  "let s = session_subject p ch; q = fst (fst (serve B ios say clock X p ch))
   in (may_publish p s \<or> pe_slots q = pe_slots p \<and> pe_forks q = pe_forks p) \<and>
      (permits (Acl_check (pe_acl p) s Acl.DeleteRequest (pe_mode p)) \<or> pe_delete_requests q = pe_delete_requests p) \<and>
      (\<forall>h. h = holder_id B s \<or> leases_of q h = leases_of p h) \<and>
      set (pe_retention q) \<subseteq> set (pe_retention p) \<and>
      {a. BlobStore_has (pe_blobs p) a} \<subseteq> {a. BlobStore_has (pe_blobs q) a} \<and>
      pe_acl q = pe_acl p \<and> pe_mode q = pe_mode p \<and>
      (pe_witness_only p \<longrightarrow>
        (\<exists>files m. q = p\<lparr>pe_disk := (pe_disk p)\<lparr>dk_witnesses := files\<rparr>, pe_witnesses := m\<rparr>))"
  using session_confined [of B p ch ios say clock X] relay_session [of p B ios say clock X ch]
  unfolding Let_def confined_def stored_addrs_def witnesses_only_def put_witnesses_def
  by (elim conjE) (intro conjI impI; simp)

theorem session_acts_only_as_its_subject_witness:
  "let p = toy_published\<lparr>pe_witness_only := True\<rparr>;
       q = fst (fst (serve toy_backend (\<lambda>_. toy_io) (\<lambda>_. []) (\<lambda>_. 0) toy_pqc p (toy_socket [1, 2])))
   in pe_witness_only p \<and> pe_slots q = [(toy_slot, [(0, toy_genesis)])] \<and>
      (\<exists>files m. q = p\<lparr>pe_disk := (pe_disk p)\<lparr>dk_witnesses := files\<rparr>, pe_witnesses := m\<rparr>)"
proof -
  let ?p = "toy_published\<lparr>pe_witness_only := True\<rparr>"
  obtain bs where p: "toy_published = put_slots toy_peer (file_record (toy_slot, 0) bs empty_dir) [(toy_slot, [(0, toy_genesis)])]"
    using toy_publishes by blast
  have slots: "pe_slots ?p = [(toy_slot, [(0, toy_genesis)])]" by (simp add: p put_slots_def)
  have "\<exists>files m. fst (fst (serve toy_backend (\<lambda>_. toy_io) (\<lambda>_. []) (\<lambda>_. 0) toy_pqc ?p (toy_socket [1, 2]))) =
      ?p\<lparr>pe_disk := (pe_disk ?p)\<lparr>dk_witnesses := files\<rparr>, pe_witnesses := m\<rparr>"
    using session_acts_only_as_its_subject [of ?p "toy_socket [1, 2]" toy_backend "\<lambda>_. toy_io" "\<lambda>_. []" "\<lambda>_. 0" toy_pqc]
    unfolding Let_def by simp
  then obtain files m where "fst (fst (serve toy_backend (\<lambda>_. toy_io) (\<lambda>_. []) (\<lambda>_. 0) toy_pqc ?p (toy_socket [1, 2]))) =
      ?p\<lparr>pe_disk := (pe_disk ?p)\<lparr>dk_witnesses := files\<rparr>, pe_witnesses := m\<rparr>" by blast
  then show ?thesis using slots unfolding Let_def by auto
qed

end
