(* ===== verification/Keys.thy ===== *)
theory Keys
  imports Slot_Record
begin

text \<open>
  \<open>nas-crypto/src/keys.rs\<close> and \<open>random.rs\<close>: the key schedule, and the rule that a deterministic nonce
  belongs only to a key derived from the plaintext it seals. The cipher is the external crate
  \<open>secure_memory\<close>: the record \<open>aead\<close> of the four functions the sources call, whose contract is
  \<open>sound_aead\<close>. Randomness is what \<open>/dev/urandom\<close> returns, a parameter of the operations that draw it.
\<close>

section \<open>The external cipher\<close>

record aead =
  seal_with_nonce :: "bytes \<Rightarrow> bytes \<Rightarrow> bytes \<Rightarrow> bytes \<Rightarrow> bytes option"
  open_with_nonce :: "bytes \<Rightarrow> bytes \<Rightarrow> bytes \<Rightarrow> bytes \<Rightarrow> bytes option"
  encrypt_aad :: "bytes \<Rightarrow> bytes \<Rightarrow> bytes \<Rightarrow> bytes \<Rightarrow> bytes option"
  decrypt_aad :: "bytes \<Rightarrow> bytes \<Rightarrow> bytes \<Rightarrow> bytes option"

text \<open>
  The documented contract: what was sealed under a key, a nonce and associated data opens under the
  same three to what was sealed. \<open>encrypt_aad\<close> draws its own nonce (its first argument here) and puts
  it in front, and \<open>decrypt_aad\<close> takes it from there.
\<close>

definition sound_aead :: "aead \<Rightarrow> bool" where
  "sound_aead A \<longleftrightarrow>
    (\<forall>k n m aad c. seal_with_nonce A k n m aad = Some c \<longrightarrow> open_with_nonce A k n c aad = Some m) \<and>
    (\<forall>n k m aad c. encrypt_aad A n k m aad = Some c \<longrightarrow> decrypt_aad A k c aad = Some m \<and> 24 \<le> length c)"

section \<open>Randomness\<close>

text \<open>\<open>fill\<close>: the bytes \<open>/dev/urandom\<close> yields, \<open>None\<close> when it does not open.\<close>

definition random_fill :: "bytes option \<Rightarrow> usize \<Rightarrow> unit + bytes" where
  "random_fill urandom n =
    (if n = 0 then Ok []
     else case urandom of
            None \<Rightarrow> Err ()
          | Some bs \<Rightarrow>
              if length bs < n then Err ()
              else if all_zero (take n bs) then Err () else Ok (take n bs))"

definition random_array :: "bytes option \<Rightarrow> usize \<Rightarrow> unit + bytes" where
  "random_array urandom n = random_fill urandom n"

section \<open>Keys\<close>

definition KEY_LEN :: usize where "KEY_LEN = 32"
definition NONCE_LEN :: usize where "NONCE_LEN = 24"

definition NONCE_CHUNK :: bytes where "NONCE_CHUNK = byte_str ''nas-tools/nonce/chunk/v1''"
definition CTX_DIR :: string where "CTX_DIR = ''nas-tools/dir/v1''"
definition CTX_DIR_MANIFEST :: string where "CTX_DIR_MANIFEST = ''nas-tools/dir/manifest/v1''"
definition CTX_ROOT_MANIFEST :: string where "CTX_ROOT_MANIFEST = ''nas-tools/root/v1''"

datatype crypto_error = OpenErr | SealErr | CryptoTruncated | DerivedKeyNeedsSealChunk

datatype nonce_policy = Derived | Random

record crypto_key =
  ky_bytes :: bytes
  ky_policy :: nonce_policy

text \<open>The newtypes \<open>ConvergenceSecret\<close>, \<open>DirSecret\<close>, \<open>RootKey\<close> and \<open>ChunkReadKey\<close> wrap their bytes.\<close>

definition DirSecret_root :: "backend \<Rightarrow> bytes \<Rightarrow> bytes" where
  "DirSecret_root B namespace_root_secret = derive_key B CTX_DIR namespace_root_secret"

definition DirSecret_child :: "backend \<Rightarrow> bytes \<Rightarrow> bytes \<Rightarrow> bytes" where
  "DirSecret_child B dir dir_id = derive_key B CTX_DIR (dir @ dir_id)"

definition chunk_key :: "backend \<Rightarrow> bytes \<Rightarrow> bytes \<Rightarrow> crypto_key" where
  "chunk_key B cs plaintext = \<lparr>ky_bytes = keyed_hash B cs plaintext, ky_policy = Derived\<rparr>"

definition manifest_key :: "backend \<Rightarrow> bytes \<Rightarrow> crypto_key" where
  "manifest_key B dir = \<lparr>ky_bytes = derive_key B CTX_DIR_MANIFEST dir, ky_policy = Random\<rparr>"

definition root_key_input :: "bytes \<Rightarrow> u64 \<Rightarrow> bytes" where
  "root_key_input root_secret seq = root_secret @ u64_le seq"

definition root_key :: "backend \<Rightarrow> bytes \<Rightarrow> u64 \<Rightarrow> bytes" where
  "root_key B root_secret seq = derive_key B CTX_ROOT_MANIFEST (root_key_input root_secret seq)"

definition seal_root :: "aead \<Rightarrow> bytes option \<Rightarrow> bytes \<Rightarrow> bytes \<Rightarrow> bytes \<Rightarrow> crypto_error + (bytes \<times> bytes)" where
  "seal_root A urandom rk plaintext aad =
    rbind (map_err (\<lambda>_. SealErr) (random_array urandom NONCE_LEN)) (\<lambda>nonce.
    case seal_with_nonce A rk nonce plaintext aad of
      None \<Rightarrow> Err SealErr
    | Some sealed \<Rightarrow> Ok (sealed, nonce))"

definition open_root :: "aead \<Rightarrow> bytes \<Rightarrow> bytes \<Rightarrow> bytes \<Rightarrow> bytes \<Rightarrow> crypto_error + bytes" where
  "open_root A rk nonce sealed aad =
    (case open_with_nonce A rk nonce sealed aad of None \<Rightarrow> Err OpenErr | Some m \<Rightarrow> Ok m)"

definition wrapping_key :: "bytes \<Rightarrow> crypto_key" where
  "wrapping_key bs = \<lparr>ky_bytes = bs, ky_policy = Random\<rparr>"

definition derived_nonce :: "backend \<Rightarrow> bytes \<Rightarrow> bytes" where
  "derived_nonce B k = take NONCE_LEN (keyed_hash B k NONCE_CHUNK)"

definition seal_chunk :: "backend \<Rightarrow> aead \<Rightarrow> bytes \<Rightarrow> bytes \<Rightarrow> bytes \<Rightarrow> crypto_error + (bytes \<times> bytes)" where
  "seal_chunk B A cs plaintext aad =
    (let k = chunk_key B cs plaintext; n = derived_nonce B (ky_bytes k)
     in case seal_with_nonce A (ky_bytes k) n plaintext aad of
          None \<Rightarrow> Err SealErr
        | Some sealed \<Rightarrow> Ok (sealed, ky_bytes k))"

definition seal :: "aead \<Rightarrow> bytes \<Rightarrow> crypto_key \<Rightarrow> bytes \<Rightarrow> bytes \<Rightarrow> crypto_error + bytes" where
  "seal A drawn k plaintext aad =
    (case ky_policy k of
       Derived \<Rightarrow> Err DerivedKeyNeedsSealChunk
     | Random \<Rightarrow> (case encrypt_aad A drawn (ky_bytes k) plaintext aad of None \<Rightarrow> Err SealErr | Some c \<Rightarrow> Ok c))"

definition chunk_key_from_stored :: "bytes \<Rightarrow> bytes" where
  "chunk_key_from_stored bs = bs"

definition open_chunk :: "backend \<Rightarrow> aead \<Rightarrow> bytes \<Rightarrow> bytes \<Rightarrow> bytes \<Rightarrow> crypto_error + bytes" where
  "open_chunk B A ck sealed aad =
    (case open_with_nonce A ck (derived_nonce B ck) sealed aad of None \<Rightarrow> Err OpenErr | Some m \<Rightarrow> Ok m)"

definition expose_derived :: "crypto_key \<Rightarrow> bytes option" where
  "expose_derived k = (case ky_policy k of Derived \<Rightarrow> Some (ky_bytes k) | Random \<Rightarrow> None)"

definition key_open :: "backend \<Rightarrow> aead \<Rightarrow> crypto_key \<Rightarrow> bytes \<Rightarrow> bytes \<Rightarrow> crypto_error + bytes" where
  "key_open B A k sealed aad =
    (case ky_policy k of
       Derived \<Rightarrow>
         (case open_with_nonce A (ky_bytes k) (derived_nonce B (ky_bytes k)) sealed aad of
            None \<Rightarrow> Err OpenErr | Some m \<Rightarrow> Ok m)
     | Random \<Rightarrow>
         if length sealed < NONCE_LEN then Err CryptoTruncated
         else (case decrypt_aad A (ky_bytes k) sealed aad of None \<Rightarrow> Err OpenErr | Some m \<Rightarrow> Ok m))"

section \<open>Properties\<close>

text \<open>
  A deterministic nonce never meets two plaintexts: of two chunks sealed under the same key bytes,
  hence the same nonce, both have the same plaintext, or the keyed hash collides on them. Sealing the
  same plaintext again gives the same bytes, which is what deduplication rests on, and the key in the
  manifest opens it.
\<close>

theorem derived_nonce_is_used_once:
  assumes "seal_chunk B A cs m aad = Ok (c, k)" and "seal_chunk B A cs m' aad' = Ok (c', k)"
  shows "(m = m' \<or> keyed_hash B cs m = keyed_hash B cs m' \<and> m \<noteq> m') \<and> (m = m' \<and> aad = aad' \<longrightarrow> c = c') \<and>
    (sound_aead A \<longrightarrow> open_chunk B A (chunk_key_from_stored k) c aad = Ok m)"
  using assms
  by (auto simp: seal_chunk_def chunk_key_def open_chunk_def chunk_key_from_stored_def sound_aead_def Let_def
      split: option.splits)

lemma chunk_opens:
  "sound_aead A \<Longrightarrow> seal_chunk B A cs m aad = Ok (c, k) \<Longrightarrow> open_chunk B A (chunk_key_from_stored k) c aad = Ok m"
  by (auto simp: seal_chunk_def open_chunk_def chunk_key_from_stored_def sound_aead_def Let_def split: option.splits)

lemma seal_opens:
  assumes "sound_aead A" and "seal A drawn k m aad = Ok c"
  shows "key_open B A k c aad = Ok m"
proof (cases "ky_policy k")
  case Random
  have "encrypt_aad A drawn (ky_bytes k) m aad = Some c"
    using assms(2) Random by (simp add: seal_def split: option.splits)
  with assms(1) have "decrypt_aad A (ky_bytes k) c aad = Some m" "24 \<le> length c"
    unfolding sound_aead_def by blast+
  then show ?thesis using Random by (simp add: key_open_def NONCE_LEN_def)
qed (use assms(2) in \<open>simp add: seal_def\<close>)

text \<open>
  No key can be used the other way: \<open>seal\<close> refuses every content-derived key, a random-nonce key is
  never exposed for a manifest, and what \<open>seal\<close> produced opens.
\<close>

theorem nonce_policy_is_enforced:
  "(ky_policy k = Derived \<longrightarrow> seal A drawn k m aad = Err DerivedKeyNeedsSealChunk \<and> expose_derived k = Some (ky_bytes k)) \<and>
   (ky_policy k = Random \<longrightarrow> expose_derived k = None) \<and>
   (sound_aead A \<and> seal A drawn k m aad = Ok c \<longrightarrow> key_open B A k c aad = Ok m)"
  by (cases "ky_policy k") (auto simp: seal_def expose_derived_def seal_opens)

text \<open>A cipher that keeps the message, prefixed by its nonce where it draws one.\<close>

definition toy_aead :: aead where
  "toy_aead = \<lparr>seal_with_nonce = (\<lambda>k n m aad. Some m), open_with_nonce = (\<lambda>k n c aad. Some c),
     encrypt_aad = (\<lambda>n k m aad. Some (take 24 (n @ replicate 24 0) @ m)), decrypt_aad = (\<lambda>k c aad. Some (drop 24 c))\<rparr>"

lemma toy_aead_sound: "sound_aead toy_aead"
  unfolding sound_aead_def toy_aead_def by auto

theorem derived_nonce_is_used_once_witness:
  "open_chunk toy_backend toy_aead (chunk_key_from_stored (keyed_hash toy_backend [7] [1, 2])) [1, 2] [] = Ok [1, 2]"
  using derived_nonce_is_used_once [of toy_backend toy_aead "[7]" "[1, 2]" "[]" "[1, 2]"
      "keyed_hash toy_backend [7] [1, 2]" "[1, 2]" "[]" "[1, 2]"] toy_aead_sound
  by (simp add: seal_chunk_def chunk_key_def toy_aead_def Let_def)

theorem nonce_policy_is_enforced_witness:
  "key_open toy_backend toy_aead (wrapping_key [5]) (replicate 24 0 @ [1, 2]) [] = Ok [1, 2] \<and>
   expose_derived (wrapping_key [5]) = None"
  using nonce_policy_is_enforced [of "wrapping_key [5]" toy_aead "[]" "[1, 2]" "[]" "replicate 24 0 @ [1, 2]" toy_backend]
    toy_aead_sound
  by (simp add: seal_def wrapping_key_def toy_aead_def)

text \<open>
  Root keys are separated by version: of two versions sealed for one namespace, either the keys or
  the sequence numbers agree together, or the derivation collides on the two inputs; and the root
  opens with the nonce that was handed back for the slot record.
\<close>

lemma root_key_separates:
  assumes "root_key B s seq = root_key B s seq'"
  shows "seq = seq' \<or> root_key_input s seq \<noteq> root_key_input s seq' \<and>
    derive_key B CTX_ROOT_MANIFEST (root_key_input s seq) = derive_key B CTX_ROOT_MANIFEST (root_key_input s seq')"
  using assms by (auto simp: root_key_def root_key_input_def)

lemma root_roundtrip:
  assumes "sound_aead A" and "seal_root A urandom rk m aad = Ok (c, nonce)"
  shows "open_root A rk nonce c aad = Ok m \<and> length nonce = NONCE_LEN \<and> \<not> all_zero nonce"
  using assms
  by (auto simp: seal_root_def open_root_def sound_aead_def random_array_def random_fill_def NONCE_LEN_def
      rbind_Inr_iff map_err_Inr_iff split: option.splits if_splits)

end
