(* ===== verification/Cache.thy ===== *)
theory Cache
  imports Keys BTree
begin

text \<open>
  \<open>nas-store/src/cache.rs\<close>: the sealed chunk cache. Its directory is a map from file name to
  contents, its order the \<open>VecDeque\<close> of addresses, oldest first. What the operating system answers
  during one call is \<open>cache_io\<close>: which files read, which remove, whether a write succeeds, and the
  nonce the cipher draws. Poisoned locks and permission bits are not modelled.
\<close>

definition CACHE_AAD :: bytes where
  "CACHE_AAD = byte_str ''nas-tools/aad/cache/v1''"

definition DEFAULT_CAP :: usize where
  "DEFAULT_CAP = 64"

record cache_io =
  ci_read :: "bytes \<Rightarrow> bool"
  ci_remove :: "bytes \<Rightarrow> bool"
  ci_write :: bool
  ci_list :: bool
  ci_drawn :: bytes

datatype cache_error = CacheIo | CacheCrypto crypto_error

record chunk_cache =
  ca_key :: crypto_key
  ca_cap :: usize
  ca_order :: "addr list"
  ca_files :: "(bytes, bytes) btreemap"

definition cache_path :: "addr \<Rightarrow> bytes" where
  "cache_path a = to_hex a"

text \<open>The loop of \<open>sweep_unreadable\<close> over the names \<open>read_dir\<close> listed.\<close>

fun sweep_files :: "backend \<Rightarrow> aead \<Rightarrow> cache_io \<Rightarrow> crypto_key \<Rightarrow> (bytes \<times> bytes) list \<Rightarrow>
    (bytes, bytes) btreemap \<Rightarrow> (bytes, bytes) btreemap" where
  "sweep_files B A io k [] files = files"
| "sweep_files B A io k ((p, bs) # rest) files =
    sweep_files B A io k rest
      (if ci_read io p \<and> is_err (key_open B A k bs CACHE_AAD) \<and> ci_remove io p then btm_remove p files else files)"

definition sweep_unreadable :: "backend \<Rightarrow> aead \<Rightarrow> cache_io \<Rightarrow> chunk_cache \<Rightarrow> chunk_cache \<times> (cache_error + unit)" where
  "sweep_unreadable B A io c =
    (if ci_list io
     then (c\<lparr>ca_files := sweep_files B A io (ca_key c) (ca_files c) (ca_files c)\<rparr>, Ok ())
     else (c, Err CacheIo))"

definition ChunkCache_open ::
  "backend \<Rightarrow> aead \<Rightarrow> cache_io \<Rightarrow> bytes option \<Rightarrow> (bytes, bytes) btreemap \<Rightarrow> usize \<Rightarrow> cache_error + chunk_cache" where
  "ChunkCache_open B A io urandom files cap =
    (if \<not> ci_write io then Err CacheIo
     else rbind (map_err (\<lambda>_. CacheIo) (random_array urandom KEY_LEN)) (\<lambda>bs.
       case sweep_unreadable B A io
              \<lparr>ca_key = wrapping_key bs, ca_cap = max cap 1, ca_order = [], ca_files = files\<rparr> of
         (c, r) \<Rightarrow> rbind r (\<lambda>_. Ok c)))"

text \<open>\<open>retain(|a| a != addr)\<close> then \<open>push_back\<close>.\<close>

definition freshen :: "addr \<Rightarrow> addr list \<Rightarrow> addr list" where
  "freshen a order = filter (\<lambda>b. b \<noteq> a) order @ [a]"

definition ChunkCache_get ::
  "backend \<Rightarrow> aead \<Rightarrow> cache_io \<Rightarrow> chunk_cache \<Rightarrow> addr \<Rightarrow> chunk_cache \<times> bytes option" where
  "ChunkCache_get B A io c a =
    (case btm_get (ca_files c) (cache_path a) of
       None \<Rightarrow> (c, None)
     | Some bs \<Rightarrow>
         if \<not> ci_read io (cache_path a) then (c, None)
         else case key_open B A (ca_key c) bs CACHE_AAD of
                Inl _ \<Rightarrow> (c, None)
              | Inr plain \<Rightarrow> (c\<lparr>ca_order := freshen a (ca_order c)\<rparr>, Some plain))"

fun evict :: "cache_io \<Rightarrow> usize \<Rightarrow> addr list \<Rightarrow> (bytes, bytes) btreemap \<Rightarrow> addr list \<times> (bytes, bytes) btreemap" where
  "evict io cap [] files = ([], files)"
| "evict io cap (old # order) files =
    (if length (old # order) > cap
     then evict io cap order (if ci_remove io (cache_path old) then btm_remove (cache_path old) files else files)
     else (old # order, files))"

definition ChunkCache_put ::
  "aead \<Rightarrow> cache_io \<Rightarrow> chunk_cache \<Rightarrow> addr \<Rightarrow> bytes \<Rightarrow> chunk_cache \<times> (cache_error + unit)" where
  "ChunkCache_put A io c a plain =
    (case seal A (ci_drawn io) (ca_key c) plain CACHE_AAD of
       Inl e \<Rightarrow> (c, Err (CacheCrypto e))
     | Inr sealed \<Rightarrow>
         if \<not> ci_write io then (c, Err CacheIo)
         else case evict io (ca_cap c) (freshen a (ca_order c)) (btm_insert (cache_path a) sealed (ca_files c)) of
                (order, files) \<Rightarrow> (c\<lparr>ca_order := order, ca_files := files\<rparr>, Ok ()))"

section \<open>What the cache keeps\<close>

text \<open>The plaintext a file of the cache opens to, if it does.\<close>

definition cached :: "backend \<Rightarrow> aead \<Rightarrow> chunk_cache \<Rightarrow> addr \<Rightarrow> bytes option" where
  "cached B A c a =
    (case btm_get (ca_files c) (cache_path a) of
       None \<Rightarrow> None
     | Some bs \<Rightarrow> (case key_open B A (ca_key c) bs CACHE_AAD of Inl _ \<Rightarrow> None | Inr p \<Rightarrow> Some p))"

definition cache_inv :: "chunk_cache \<Rightarrow> bool" where
  "cache_inv c \<longleftrightarrow> 1 \<le> ca_cap c \<and> distinct (ca_order c) \<and>
    btm_inv (ca_files c) \<and> ky_policy (ca_key c) = Random"

lemma cache_path_inj [simp]: "cache_path a = cache_path b \<longleftrightarrow> a = b"
  by (metis cache_path_def hex_pairs_to_hex sum.inject(2))

lemma freshen_facts:
  "set (freshen a xs) = insert a (set xs)" "distinct xs \<Longrightarrow> distinct (freshen a xs)"
  "last (freshen a xs) = a" "freshen a xs \<noteq> []"
  by (auto simp: freshen_def length_filter_le)

lemma evict_facts:
  "evict io cap order files = (order', files') \<Longrightarrow> btm_inv files \<Longrightarrow>
    order' = drop (length order - cap) order \<and> btm_inv files' \<and>
    btm_get files' = (\<lambda>p. if p \<in> cache_path ` set (take (length order - cap) order) \<and> ci_remove io p
      then None else btm_get files p)"
proof (induction io cap order files rule: evict.induct)
  case (1 io cap files)
  then show ?case by auto
next
  case (2 io cap old order files)
  show ?case
  proof (cases "length (old # order) > cap")
    case False
    with 2 show ?thesis by auto
  next
    case True
    let ?f = "if ci_remove io (cache_path old) then btm_remove (cache_path old) files else files"
    have "btm_inv ?f" "btm_get ?f = (\<lambda>p. if p = cache_path old \<and> ci_remove io p then None else btm_get files p)"
      using 2(3) by (auto simp: btm.get_remove_m btm.inv_remove_m)
    moreover have "evict io cap order ?f = (order', files')" using 2(2) True by simp
    moreover have "length (old # order) - cap = Suc (length order - cap)" using True by simp
    ultimately show ?thesis using 2(1) [OF True] by (auto simp: fun_eq_iff)
  qed
qed

lemma put_Ok_files:
  assumes "ChunkCache_put A io c a p = (c', Ok ())" and "cache_inv c"
  shows "\<exists>sealed out. seal A (ci_drawn io) (ca_key c) p CACHE_AAD = Ok sealed \<and>
    freshen a (ca_order c) = out @ ca_order c' \<and> a \<in> set (ca_order c') \<and> a \<notin> set out \<and> cache_inv c' \<and>
    ca_key c' = ca_key c \<and> length out = length (freshen a (ca_order c)) - ca_cap c \<and>
    btm_get (ca_files c') = (\<lambda>q. if q \<in> cache_path ` set out \<and> ci_remove io q then None
      else ((btm_get (ca_files c))(cache_path a \<mapsto> sealed)) q)"
proof -
  obtain sealed where s: "seal A (ci_drawn io) (ca_key c) p CACHE_AAD = Ok sealed"
    using assms(1) by (auto simp: ChunkCache_put_def split: sum.splits)
  let ?f = "btm_insert (cache_path a) sealed (ca_files c)" and ?o = "freshen a (ca_order c)"
  obtain order files where ev: "evict io (ca_cap c) ?o ?f = (order, files)" by fastforce
  have c': "c' = c\<lparr>ca_order := order, ca_files := files\<rparr>"
    using assms(1) s ev by (auto simp: ChunkCache_put_def split: if_splits)
  have inv: "btm_inv (ca_files c)" "distinct (ca_order c)" "1 \<le> ca_cap c"
    using assms(2) by (auto simp: cache_inv_def)
  define n where "n = length ?o - ca_cap c"
  have o: "order = drop n ?o" "btm_inv files"
    "btm_get files = (\<lambda>q. if q \<in> cache_path ` set (take n ?o) \<and> ci_remove io q then None
      else ((btm_get (ca_files c))(cache_path a \<mapsto> sealed)) q)"
    using evict_facts [OF ev] inv(1) by (auto simp: n_def)
  have n: "n < length ?o" using freshen_facts(4) [of a "ca_order c"] inv(3) by (auto simp: n_def)
  have "last (drop n ?o) = a" "drop n ?o \<noteq> []" using n freshen_facts(3) [of a "ca_order c"] by auto
  then have mem: "a \<in> set (drop n ?o)" by (metis last_in_set)
  have dis: "distinct (take n ?o @ drop n ?o)" using freshen_facts(2) [OF inv(2)] by simp
  then have notout: "a \<notin> set (take n ?o)" using mem unfolding distinct_append by blast
  have "cache_inv c'" using assms(2) o(2) dis by (auto simp: c' cache_inv_def o(1) n_def)
  moreover have "ca_order c' = drop n ?o" "ca_files c' = files" "ca_key c' = ca_key c" by (simp_all add: c' o(1))
  moreover have "length (take n ?o) = length ?o - ca_cap c" by (simp add: n_def)
  ultimately show ?thesis
    using s o(3) mem notout
    by (intro exI [of _ sealed] exI [of _ "take n ?o"] conjI) (simp_all only: append_take_drop_id not_False_eq_True)
qed

lemma get_cached:
  "ChunkCache_get B A io c a = (c', r) \<Longrightarrow> (r = None \<or> r = cached B A c a) \<and> ca_files c' = ca_files c \<and>
    ca_key c' = ca_key c \<and> cached B A c' = cached B A c \<and>
    (cache_inv c \<longrightarrow> cache_inv c')"
  by (auto simp: ChunkCache_get_def cached_def cache_inv_def freshen_facts fun_eq_iff split: option.splits sum.splits if_splits)

lemma put_cached:
  assumes "ChunkCache_put A io c a p = (c', r)" "cache_inv c" "sound_aead A"
  shows "cache_inv c' \<and> (\<forall>b q. cached B A c' b = Some q \<longrightarrow> b = a \<and> q = p \<or> cached B A c b = Some q)"
proof (cases r)
  case (Inl e)
  then have "c' = c" using assms(1) by (auto simp: ChunkCache_put_def split: sum.splits if_splits prod.splits)
  then show ?thesis using assms(2) by simp
next
  case (Inr u)
  then have r: "r = Ok ()" by simp
  obtain sealed out where s: "seal A (ci_drawn io) (ca_key c) p CACHE_AAD = Ok sealed"
    "btm_get (ca_files c') (cache_path a) = Some sealed" "cache_inv c'" "ca_key c' = ca_key c"
    "\<forall>b. b \<noteq> a \<longrightarrow> btm_get (ca_files c') (cache_path b) = None \<or>
       btm_get (ca_files c') (cache_path b) = btm_get (ca_files c) (cache_path b)"
    using put_Ok_files [OF assms(1) [unfolded r] assms(2)] by (elim exE conjE) (rule that, auto)
  have "b = a \<and> q = p \<or> cached B A c b = Some q" if "cached B A c' b = Some q" for b q
  proof (cases "b = a")
    case True
    have "key_open B A (ca_key c) sealed CACHE_AAD = Ok p"
      using seal_opens [OF assms(3) s(1)] .
    with True that s(2,4) show ?thesis by (simp add: cached_def)
  next
    case False
    then have "btm_get (ca_files c') (cache_path b) = btm_get (ca_files c) (cache_path b)"
      using s(5) that by (auto simp: cached_def)
    with that s(4) show ?thesis by (simp add: cached_def cong: option.case_cong)
  qed
  with s(3) show ?thesis by blast
qed

section \<open>Properties\<close>

text \<open>
  The cache is bounded and returns what was put: after a successful \<open>put\<close> at most \<open>cap\<close> entries are in
  the order, none twice; what was dropped is what was used longest ago, only as many as the bound
  asks for and never the entry just put, which the next \<open>get\<close> returns; every kept address still
  serves what it served, and a dropped one nothing where its file could be removed.
\<close>

theorem cache_put_then_get:
  assumes "ChunkCache_put A io c a p = (c', Ok ())" and "cache_inv c" and "sound_aead A" and "ci_read io' (cache_path a)"
  shows "cache_inv c' \<and> length (ca_order c') \<le> ca_cap c \<and> snd (ChunkCache_get B A io' c' a) = Some p \<and>
    (\<exists>out. freshen a (ca_order c) = out @ ca_order c' \<and> length out = length (freshen a (ca_order c)) - ca_cap c \<and>
      (\<forall>b. b \<noteq> a \<and> b \<notin> set out \<longrightarrow> cached B A c' b = cached B A c b) \<and>
      ((\<forall>q. ci_remove io q) \<longrightarrow> (\<forall>b \<in> set out. cached B A c' b = None)))"
proof -
  obtain sealed out where s: "seal A (ci_drawn io) (ca_key c) p CACHE_AAD = Ok sealed"
    "freshen a (ca_order c) = out @ ca_order c'" "a \<notin> set out" "cache_inv c'" "ca_key c' = ca_key c"
    "length out = length (freshen a (ca_order c)) - ca_cap c"
    "btm_get (ca_files c') = (\<lambda>q. if q \<in> cache_path ` set out \<and> ci_remove io q then None
      else ((btm_get (ca_files c))(cache_path a \<mapsto> sealed)) q)"
    using put_Ok_files [OF assms(1,2)] by blast
  have mem: "cache_path b \<in> cache_path ` set out \<longleftrightarrow> b \<in> set out" for b by auto
  have "key_open B A (ca_key c) sealed CACHE_AAD = Ok p" using seal_opens [OF assms(3) s(1)] .
  then have "snd (ChunkCache_get B A io' c' a) = Some p"
    using s(3,5,7) assms(4) by (simp add: ChunkCache_get_def mem)
  moreover have "cached B A c' b = cached B A c b" if "b \<noteq> a" "b \<notin> set out" for b
    using that s(5,7) by (simp add: cached_def mem cong: option.case_cong)
  moreover have "cached B A c' b = None" if "\<forall>q. ci_remove io q" "b \<in> set out" for b
    using that s(7) by (simp add: cached_def mem)
  moreover have "length (ca_order c') \<le> ca_cap c" using arg_cong [OF s(2), of length] s(6) by simp
  ultimately show ?thesis using s by blast
qed

definition toy_cache_io :: cache_io where
  "toy_cache_io = \<lparr>ci_read = (\<lambda>_. True), ci_remove = (\<lambda>_. True), ci_write = True, ci_list = True, ci_drawn = []\<rparr>"

definition toy_cache :: chunk_cache where
  "toy_cache = \<lparr>ca_key = wrapping_key [5], ca_cap = 1, ca_order = [], ca_files = []\<rparr>"

theorem cache_put_then_get_witness:
  "snd (ChunkCache_get toy_backend toy_aead toy_cache_io
     (fst (ChunkCache_put toy_aead toy_cache_io toy_cache [1] [7, 8])) [1]) = Some [7, 8]"
proof -
  have "snd (ChunkCache_put toy_aead toy_cache_io toy_cache [1] [7, 8]) = Ok ()"
    by (simp add: ChunkCache_put_def toy_cache_def toy_cache_io_def seal_def wrapping_key_def toy_aead_def freshen_def)
  then have "ChunkCache_put toy_aead toy_cache_io toy_cache [1] [7, 8] =
      (fst (ChunkCache_put toy_aead toy_cache_io toy_cache [1] [7, 8]), Ok ())" by (metis prod.collapse)
  from cache_put_then_get [OF this _ toy_aead_sound, of toy_cache_io toy_backend] show ?thesis
    by (simp add: cache_inv_def toy_cache_def wrapping_key_def toy_cache_io_def)
qed

text \<open>
  Opening leaves only what this boot's key opens, where reading and removing work, and no entry of
  an earlier boot in the order; so a stolen directory of another boot serves nothing.
\<close>

lemma sweep_files_get:
  "btm_inv files \<Longrightarrow> btm_get (sweep_files B A io k xs files) p =
    (if ci_read io p \<and> ci_remove io p \<and> (\<exists>bs. (p, bs) \<in> set xs \<and> is_err (key_open B A k bs CACHE_AAD))
     then None else btm_get files p)"
  by (induction B A io k xs files rule: sweep_files.induct)
    (auto simp: btm.get_remove_m btm.inv_remove_m)

lemma opened_cache_is_readable:
  assumes "ChunkCache_open B A io urandom files cap = Ok c" and "btm_inv files"
    and "\<forall>p. ci_read io p \<and> ci_remove io p"
  shows "cache_inv c \<and> ca_order c = [] \<and>
    (\<forall>p bs. btm_get (ca_files c) p = Some bs \<longrightarrow> \<not> is_err (key_open B A (ca_key c) bs CACHE_AAD))"
proof -
  obtain kb where c: "c = \<lparr>ca_key = wrapping_key kb, ca_cap = max cap 1, ca_order = [],
      ca_files = sweep_files B A io (wrapping_key kb) files files\<rparr>"
    using assms(1) by (auto simp: ChunkCache_open_def sweep_unreadable_def result_elims split: if_splits)
  have "btm_inv (sweep_files B A io k xs fs)" if "btm_inv fs" for k xs fs
    using that by (induction B A io k xs fs rule: sweep_files.induct) (auto simp: btm.inv_remove_m)
  then show ?thesis using assms(2,3)
    by (auto simp: c cache_inv_def wrapping_key_def sweep_files_get btm.get_Some_iff split: if_splits)
qed

end
