(* ===== verification/Padding.thy ===== *)
theory Padding
  imports Core_Types
begin

text \<open>
  \<open>nas-store/src/padding.rs\<close>: framing a chunk into a size class. \<open>usize\<close> values are naturals and the
  one \<open>checked_add\<close> is \<open>checked_add_usize\<close>; no definition below subtracts to find the fill. The main
  fact is that \<open>unpad\<close> inverts \<open>pad\<close> and accepts nothing else, which is what closes the two covert
  channels the module's header describes (fill bytes and the choice of class).
\<close>

definition HEADER :: usize where
  "HEADER = 4"

definition LADDER :: "usize list" where
  "LADDER = [32 * 2 ^ 10, 64 * 2 ^ 10, 128 * 2 ^ 10, 256 * 2 ^ 10]"

definition FIXED_CLASS :: usize where
  "FIXED_CLASS = 64 * 2 ^ 10"

definition FIXED_CHUNK :: usize where
  "FIXED_CHUNK = FIXED_CLASS - HEADER"

datatype pad_error =
    TooLarge (len: usize) (largest_class: usize)
  | Truncated (have_bytes: usize)
  | LengthOverrun usize usize
  | NotAClass usize
  | DirtyFill (offset: usize)
  | NonMinimalClass usize usize

fun classes :: "padding_profile \<Rightarrow> usize list" where
  "classes PadNone = []"
| "classes Classes = LADDER"
| "classes Fixed = [FIXED_CLASS]"

definition minimal_class :: "padding_profile \<Rightarrow> usize \<Rightarrow> usize option" where
  "minimal_class profile n =
    (case checked_add_usize n HEADER of
       None \<Rightarrow> None
     | Some need \<Rightarrow> find (\<lambda>c. c \<ge> need) (classes profile))"

definition max_plaintext :: "padding_profile \<Rightarrow> usize option" where
  "max_plaintext profile =
    (let cls = classes profile in if cls = [] then None else Some (last cls - HEADER))"

text \<open>\<open>Vec::resize\<close>: truncate, or extend with the given byte.\<close>

definition resize :: "bytes \<Rightarrow> usize \<Rightarrow> u8 \<Rightarrow> bytes" where
  "resize v n b = take n v @ replicate (n - length v) b"

definition pad :: "padding_profile \<Rightarrow> bytes \<Rightarrow> pad_error + bytes" where
  "pad profile plaintext =
    (let cls = classes profile in
     if cls = [] then Ok plaintext
     else let n = length plaintext in
       rbind (ok_or (checked_add_usize n HEADER) (TooLarge n (last cls))) (\<lambda>need.
       rbind (ok_or (find (\<lambda>c. c \<ge> need) cls) (TooLarge n (last cls))) (\<lambda>cl.
       Ok (resize (u32_le (of_nat n) @ plaintext) cl 0))))"

text \<open>\<open>iter().position(p)\<close>.\<close>

fun position :: "('a \<Rightarrow> bool) \<Rightarrow> 'a list \<Rightarrow> usize option" where
  "position p [] = None"
| "position p (x # xs) = (if p x then Some 0 else map_option Suc (position p xs))"

definition unpad :: "padding_profile \<Rightarrow> bytes \<Rightarrow> pad_error + bytes" where
  "unpad profile padded =
    (let cls = classes profile in
     if cls = [] then Ok padded
     else if length padded \<notin> set cls then Err (NotAClass (length padded))
     else if length padded < HEADER then Err (Truncated (length padded))
     else
       let want = unat (u32_of_le (take HEADER padded)) in
       rbind (ok_or (checked_add_usize want HEADER) (LengthOverrun want (length padded - HEADER))) (\<lambda>end_at.
       if end_at > length padded then Err (LengthOverrun want (length padded - HEADER))
       else
         (case position (\<lambda>b. b \<noteq> 0) (drop end_at padded) of
            Some i \<Rightarrow> Err (DirtyFill (end_at + i))
          | None \<Rightarrow>
         (case minimal_class profile want of
            Some m \<Rightarrow> if m = length padded then Ok (take (end_at - HEADER) (drop HEADER padded))
                      else Err (NonMinimalClass (length padded) m)
          | None \<Rightarrow> Err (LengthOverrun want (length padded - HEADER))))))"

section \<open>Selecting a class\<close>

lemma position_None_iff: "position p xs = None \<longleftrightarrow> (\<forall>x \<in> set xs. \<not> p x)"
  by (induction xs) auto

lemma classes_bounds: "c \<in> set (classes profile) \<Longrightarrow> HEADER \<le> c \<and> c < 2 ^ 32"
  by (cases profile) (auto simp: LADDER_def FIXED_CLASS_def HEADER_def)

lemma classes_sorted: "sorted_wrt (<) (classes profile)"
  by (cases profile) (auto simp: LADDER_def FIXED_CLASS_def)

lemma classes_Nil_iff: "classes profile = [] \<longleftrightarrow> profile = PadNone"
  by (cases profile) (auto simp: LADDER_def)

lemma find_least:
  "sorted_wrt (<) (cs :: nat list) \<Longrightarrow>
    find (\<lambda>c. c \<ge> need) cs = Some c \<longleftrightarrow> c \<in> set cs \<and> need \<le> c \<and> (\<forall>d \<in> set cs. need \<le> d \<longrightarrow> c \<le> d)"
  by (induction cs) (auto simp: less_imp_le dest: antisym)

lemma minimal_class_iff:
  "minimal_class profile n = Some c \<longleftrightarrow>
    c \<in> set (classes profile) \<and> n + HEADER \<le> c \<and> (\<forall>d \<in> set (classes profile). n + HEADER \<le> d \<longrightarrow> c \<le> d)"
proof (cases "n + HEADER < 2 ^ 64")
  case True
  then show ?thesis
    by (simp add: minimal_class_def checked_add_usize_def find_least [OF classes_sorted])
next
  case False
  then have "\<not> n + HEADER \<le> c" if "c \<in> set (classes profile)" for c
    using classes_bounds [OF that] by simp
  with False show ?thesis by (auto simp: minimal_class_def checked_add_usize_def)
qed

lemma minimal_class_None_iff:
  "minimal_class profile n = None \<longleftrightarrow>
    (case max_plaintext profile of None \<Rightarrow> True | Some m \<Rightarrow> m < n)"
proof -
  have "minimal_class profile n = None \<longleftrightarrow> (\<forall>c \<in> set (classes profile). c < n + HEADER)"
    using classes_bounds [of _ profile]
    by (force simp: minimal_class_def checked_add_usize_def find_None_iff not_le)
  then show ?thesis
    by (cases profile) (auto simp: max_plaintext_def LADDER_def FIXED_CLASS_def HEADER_def)
qed

lemma pad_eq:
  "pad profile x =
    (if profile = PadNone then Ok x
     else case minimal_class profile (length x) of
            None \<Rightarrow> Err (TooLarge (length x) (last (classes profile)))
          | Some c \<Rightarrow> Ok (u32_le (of_nat (length x)) @ x @ replicate (c - HEADER - length x) 0))"
proof -
  have "resize (u32_le (of_nat (length x)) @ x) c 0 =
      u32_le (of_nat (length x)) @ x @ replicate (c - HEADER - length x) 0"
    if "minimal_class profile (length x) = Some c" for c
    using that by (auto simp: minimal_class_iff resize_def HEADER_def)
  then show ?thesis
    by (auto simp: pad_def Let_def classes_Nil_iff minimal_class_def ok_or_def split: option.splits)
qed

lemma unat_of_len: "n < 2 ^ 32 \<Longrightarrow> unat (of_nat n :: u32) = n"
  by (simp add: unat_of_nat take_bit_nat_eq_self)

lemma unpad_Inr_iff:
  assumes "profile \<noteq> PadNone"
  shows "unpad profile y = Inr x \<longleftrightarrow>
    minimal_class profile (length x) = Some (length y) \<and>
    y = u32_le (of_nat (length x)) @ x @ replicate (length y - HEADER - length x) 0"
proof
  assume l: "unpad profile y = Inr x"
  define want where "want = unat (u32_of_le (take HEADER y))"
  have len: "length y \<in> set (classes profile)" "HEADER \<le> length y"
    using l assms by (auto simp: unpad_def Let_def classes_Nil_iff split: if_splits)
  have wlt: "want < 2 ^ 32" unfolding want_def using unat_less_pow [of "u32_of_le (take HEADER y)"] by simp
  then have add: "checked_add_usize want HEADER = Some (want + HEADER)"
    by (simp add: checked_add_usize_def HEADER_def)
  have fits: "want + HEADER \<le> length y" and fill: "\<forall>b \<in> set (drop (want + HEADER) y). b = 0"
    and min: "minimal_class profile want = Some (length y)" and x: "x = take want (drop HEADER y)"
    using l assms len add
    by (auto simp: unpad_def Let_def classes_Nil_iff position_None_iff want_def [symmetric]
        split: if_splits option.splits)
  have lx: "length x = want" using x fits by simp
  have "drop (want + HEADER) y = replicate (length y - HEADER - want) 0"
    using fill by (intro replicate_eqI) (auto simp: fits)
  moreover have "y = take HEADER y @ take want (drop HEADER y) @ drop (want + HEADER) y"
    by (metis append_take_drop_id drop_drop add.commute)
  moreover have "u32_le (of_nat want) = take HEADER y"
    using len by (simp add: want_def HEADER_def)
  ultimately show "minimal_class profile (length x) = Some (length y) \<and>
    y = u32_le (of_nat (length x)) @ x @ replicate (length y - HEADER - length x) 0"
    using min lx x by auto
next
  assume r: "minimal_class profile (length x) = Some (length y) \<and>
    y = u32_le (of_nat (length x)) @ x @ replicate (length y - HEADER - length x) 0"
  then have len: "length y \<in> set (classes profile)" "length x + HEADER \<le> length y"
    by (auto simp: minimal_class_iff)
  have lt: "length x < 2 ^ 32" using len classes_bounds by fastforce
  obtain k where y: "y = u32_le (of_nat (length x)) @ x @ replicate k 0" using r by blast
  have hd: "take HEADER y = u32_le (of_nat (length x))" "take (length x) (drop HEADER y) = x"
    "drop (length x + HEADER) y = replicate k 0"
    unfolding y by (simp_all add: HEADER_def)
  have "checked_add_usize (length x) HEADER = Some (length x + HEADER)"
    using lt by (simp add: checked_add_usize_def HEADER_def)
  moreover have "position (\<lambda>b :: u8. b \<noteq> 0) (replicate k 0) = None" by (simp add: position_None_iff)
  ultimately show "unpad profile y = Inr x"
    using assms len lt hd r
    by (simp add: unpad_def Let_def classes_Nil_iff unat_of_len)
qed

interpretation padding: codec "pad profile" "unpad profile" "\<lambda>_. True"
  for profile
proof (unfold_locales, goal_cases)
  case (1 bs x)
  show ?case
  proof (cases "profile = PadNone")
    case True
    then show ?thesis by (auto simp: unpad_def pad_eq)
  next
    case False
    show ?thesis
    proof (cases "minimal_class profile (length x)")
      case None
      with False show ?thesis by (simp add: unpad_Inr_iff pad_eq)
    next
      case (Some c)
      then have "length (u32_le (of_nat (length x)) @ x @ replicate (c - HEADER - length x) 0) = c"
        by (auto simp: minimal_class_iff HEADER_def)
      with False Some show ?thesis by (auto simp: unpad_Inr_iff pad_eq)
    qed
  qed
qed

section \<open>Properties\<close>

text \<open>
  Unpadding accepts exactly what padding produces: a padded chunk has one reading, a plaintext
  has one padded form, and a frame with dirty fill, a wrong length or a class larger than needed is
  refused.
\<close>

theorem unpad_iff_pad: "unpad profile padded = Ok plaintext \<longleftrightarrow> pad profile plaintext = Ok padded"
  by (simp add: padding.dec_iff)

text \<open>
  C40. Padding never wraps and hides the length up to the class: it fails, with the sizes involved,
  exactly for a plaintext above the profile's limit, and otherwise yields the smallest class that
  holds the header and the plaintext.
\<close>

theorem pad_outcome:
  "case pad profile x of
     Inl e \<Rightarrow> e = TooLarge (length x) (last (classes profile)) \<and>
       (\<exists>m. max_plaintext profile = Some m \<and> m < length x)
   | Inr y \<Rightarrow> if profile = PadNone then y = x
              else length y = Min {c \<in> set (classes profile). length x + HEADER \<le> c} \<and>
                   length y \<in> set (classes profile) \<and> length x + HEADER \<le> length y"
proof (cases "profile = PadNone")
  case True
  then show ?thesis by (simp add: pad_eq)
next
  case False
  show ?thesis
  proof (cases "minimal_class profile (length x)")
    case None
    then have "\<exists>m. max_plaintext profile = Some m \<and> m < length x"
      using False minimal_class_None_iff [of profile "length x"]
      by (auto simp: max_plaintext_def classes_Nil_iff Let_def split: if_splits)
    then show ?thesis using None False by (simp add: pad_eq)
  next
    case (Some c)
    then have c: "c \<in> set (classes profile)" "length x + HEADER \<le> c"
      "\<forall>d \<in> set (classes profile). length x + HEADER \<le> d \<longrightarrow> c \<le> d"
      by (auto simp: minimal_class_iff)
    have "Min {c \<in> set (classes profile). length x + HEADER \<le> c} = c"
      using c by (intro Min_eqI) auto
    then show ?thesis using False Some c by (simp add: pad_eq HEADER_def)
  qed
qed

end
