(* ===== verification/Chunker.thy ===== *)
theory Chunker
  imports Padding
begin

text \<open>
  \<open>nas-store/src/chunker.rs\<close>: FastCDC. The gear table comes from BLAKE3's extendable output, which is
  a parameter \<open>xof\<close>; \<open>cut\<close> and everything above it take the table \<open>g\<close>. A reader is the list of the
  outcomes its successive \<open>read\<close> calls will have, an exhausted list reading as end of file. The two
  iterators may only loop if a cut has length zero, so collecting them is a
  \<open>partial_function (option)\<close>, and that they return is part of what is proved.
\<close>

definition GEAR_CONTEXT :: string where
  "GEAR_CONTEXT = ''NAS-tools 2026 gear table v1''"

definition NORMALIZATION :: nat where
  "NORMALIZATION = 2"

definition gear_table :: "(string \<Rightarrow> usize \<Rightarrow> bytes) \<Rightarrow> u64 list" where
  "gear_table xof =
    (let buf = xof GEAR_CONTEXT (256 * 8)
     in map (\<lambda>i. u64_of_le (take 8 (drop (i * 8) buf))) [0..<256])"

record chunker_config =
  cc_min :: usize
  cc_avg :: usize
  cc_max :: usize

datatype config_error =
    Unordered usize usize usize
  | AvgNotPowerOfTwo usize
  | AvgOutOfRange usize

definition ChunkerConfig_default :: chunker_config where
  "ChunkerConfig_default = \<lparr>cc_min = 16 * 2 ^ 10, cc_avg = 64 * 2 ^ 10, cc_max = 256 * 2 ^ 10\<rparr>"

definition ChunkerConfig_large_object :: chunker_config where
  "ChunkerConfig_large_object = \<lparr>cc_min = 256 * 2 ^ 10, cc_avg = 2 ^ 20, cc_max = 4 * 2 ^ 20\<rparr>"

definition ChunkerConfig_fixed :: "usize \<Rightarrow> chunker_config" where
  "ChunkerConfig_fixed sz = \<lparr>cc_min = sz, cc_avg = sz, cc_max = sz\<rparr>"

fun ChunkerConfig_for_profile :: "padding_profile \<Rightarrow> chunker_config \<Rightarrow> chunker_config" where
  "ChunkerConfig_for_profile PadNone base = base"
| "ChunkerConfig_for_profile Fixed base = ChunkerConfig_fixed FIXED_CHUNK"
| "ChunkerConfig_for_profile Classes base =
    (let cap = the (max_plaintext Classes); mx = min (cc_max base) cap
     in \<lparr>cc_min = min (cc_min base) mx, cc_avg = min (cc_avg base) mx, cc_max = mx\<rparr>)"

text \<open>\<open>usize::trailing_zeros\<close> and \<open>is_power_of_two\<close> on a 64-bit \<open>usize\<close>.\<close>

fun trailing_zeros :: "nat \<Rightarrow> nat" where
  "trailing_zeros n = (if n = 0 then 64 else if even n then Suc (trailing_zeros (n div 2)) else 0)"

declare trailing_zeros.simps [simp del]

definition is_power_of_two :: "nat \<Rightarrow> bool" where
  "is_power_of_two n \<longleftrightarrow> n \<noteq> 0 \<and> n = 2 ^ trailing_zeros n"

definition validate :: "chunker_config \<Rightarrow> config_error + unit" where
  "validate c =
    (if \<not> (cc_min c \<le> cc_avg c \<and> cc_avg c \<le> cc_max c) \<or> cc_min c = 0
     then Err (Unordered (cc_min c) (cc_avg c) (cc_max c))
     else if cc_min c \<noteq> cc_max c then
       (if \<not> is_power_of_two (cc_avg c) then Err (AvgNotPowerOfTwo (cc_avg c))
        else if trailing_zeros (cc_avg c) + NORMALIZATION \<ge> 64 then Err (AvgOutOfRange (cc_avg c))
        else Ok ())
     else Ok ())"

record chunker =
  ch_cfg :: chunker_config
  ch_mask_s :: u64
  ch_mask_l :: u64
  ch_fixed :: bool

definition mask_bits :: "nat \<Rightarrow> u64" where
  "mask_bits bits = (if bits = 0 then 0 else if bits \<ge> 64 then - 1 else push_bit bits 1 - 1)"

definition Chunker_new :: "chunker_config \<Rightarrow> config_error + chunker" where
  "Chunker_new cfg =
    rbind (validate cfg) (\<lambda>_.
    let bits = min (trailing_zeros (cc_avg cfg)) 63
    in Ok \<lparr>ch_cfg = cfg, ch_mask_s = mask_bits (bits + NORMALIZATION),
           ch_mask_l = mask_bits (bits - min NORMALIZATION bits),
           ch_fixed = (cc_min cfg = cc_max cfg)\<rparr>)"

section \<open>One cut\<close>

text \<open>One of the two scanning loops of \<open>cut\<close>: where it cut, or the fingerprint it ended with.\<close>

function scan :: "u64 list \<Rightarrow> u64 \<Rightarrow> bytes \<Rightarrow> usize \<Rightarrow> usize \<Rightarrow> u64 \<Rightarrow> usize + u64" where
  "scan g msk buf limit i fp =
    (if i < limit then
       let fp' = push_bit 1 fp + g ! unat (buf ! i)
       in if fp' AND msk = 0 then Inl (i + 1) else scan g msk buf limit (i + 1) fp'
     else Inr fp)"
  by pat_completeness auto
termination by (relation "measure (\<lambda>(g, msk, buf, limit, i, fp). limit - i)") auto

declare scan.simps [simp del]

text \<open>The harder mask up to the average, then the easier one up to the end \<open>n\<close> of the window.\<close>

definition two_stage :: "u64 list \<Rightarrow> chunker \<Rightarrow> bytes \<Rightarrow> usize \<Rightarrow> usize" where
  "two_stage g ch buf n =
    (let cfg = ch_cfg ch; normal = min n (cc_avg cfg) in
     case scan g (ch_mask_s ch) buf normal (cc_min cfg) 0 of
       Inl c \<Rightarrow> c
     | Inr fp \<Rightarrow>
         (case scan g (ch_mask_l ch) buf n (max (cc_min cfg) normal) fp of
            Inl c \<Rightarrow> c
          | Inr _ \<Rightarrow> n))"

definition cut :: "u64 list \<Rightarrow> chunker \<Rightarrow> bytes \<Rightarrow> usize" where
  "cut g ch buf =
    (if ch_fixed ch then min (length buf) (cc_max (ch_cfg ch))
     else let n = min (length buf) (cc_max (ch_cfg ch))
          in if n \<le> cc_min (ch_cfg ch) then n else two_stage g ch buf n)"

section \<open>Splitting a slice\<close>

definition Split_next :: "u64 list \<Rightarrow> chunker \<Rightarrow> bytes \<Rightarrow> (bytes \<times> bytes) option" where
  "Split_next g ch rest =
    (if rest = [] then None
     else let n = cut g ch rest in Some (take n rest, drop n rest))"

partial_function (option) split :: "u64 list \<Rightarrow> chunker \<Rightarrow> bytes \<Rightarrow> bytes list option" where
  "split g ch rest =
    (case Split_next g ch rest of
       None \<Rightarrow> Some []
     | Some (chunk, rest') \<Rightarrow>
         Option.bind (split g ch rest') (\<lambda>cs. Some (chunk # cs)))"

section \<open>Streaming\<close>

text \<open>What successive \<open>read\<close> calls return: at most the 64 KiB asked for, or an error \<open>'e\<close>.\<close>

type_synonym 'e reader = "('e + bytes) list"

definition READ_BUF :: usize where
  "READ_BUF = 64 * 2 ^ 10"

record 'e stream =
  st_ch :: chunker
  st_reader :: "'e reader"
  st_buf :: bytes
  st_start :: usize
  st_eof :: bool

text \<open>
  \<open>self.cfg.max * 2\<close> on \<open>usize\<close>, as a release build computes it: it wraps (a build with overflow checks
  panics instead). \<open>Vec::with_capacity\<close> panics above \<open>isize::MAX\<close>, here \<open>None\<close>.
\<close>

definition window_size :: "chunker \<Rightarrow> usize" where
  "window_size ch = cc_max (ch_cfg ch) * 2 mod 2 ^ 64"

definition Chunker_stream :: "chunker \<Rightarrow> 'e reader \<Rightarrow> 'e stream option" where
  "Chunker_stream ch r =
    (if window_size ch \<ge> 2 ^ 63 then None
     else Some \<lparr>st_ch = ch, st_reader = r, st_buf = [], st_start = 0, st_eof = False\<rparr>)"

text \<open>The read loop of \<open>refill\<close>: the reader, the window and the end-of-file flag after it.\<close>

fun read_loop :: "usize \<Rightarrow> 'e reader \<Rightarrow> bytes \<Rightarrow> 'e reader \<times> bytes \<times> bool \<times> 'e option" where
  "read_loop want [] buf = (if length buf < want then ([], buf, True, None) else ([], buf, False, None))"
| "read_loop want (r # rs) buf =
    (if length buf < want then
       case r of
         Inl e \<Rightarrow> (rs, buf, False, Some e)
       | Inr bs \<Rightarrow> if bs = [] then (rs, buf, True, None) else read_loop want rs (buf @ bs)
     else (r # rs, buf, False, None))"

definition refill :: "'e stream \<Rightarrow> 'e stream \<times> ('e + unit)" where
  "refill s =
    (let s1 = (if st_start s > 0 then s\<lparr>st_buf := drop (st_start s) (st_buf s), st_start := 0\<rparr> else s);
         want = window_size (st_ch s)
     in if st_eof s1 then (s1, Ok ())
        else case read_loop want (st_reader s1) (st_buf s1) of
          (rd, buf, eof, err) \<Rightarrow>
            (s1\<lparr>st_reader := rd, st_buf := buf, st_eof := eof\<rparr>,
             case err of None \<Rightarrow> Ok () | Some e \<Rightarrow> Err e))"

definition Stream_next :: "u64 list \<Rightarrow> 'e stream \<Rightarrow> 'e stream \<times> ('e + bytes) option" where
  "Stream_next g s =
    (case (if \<not> st_eof s \<and> length (st_buf s) - st_start s < cc_max (ch_cfg (st_ch s))
           then refill s else (s, Ok ())) of
       (s1, Inl e) \<Rightarrow> (s1, Some (Err e))
     | (s1, Inr _) \<Rightarrow>
         let avail = drop (st_start s1) (st_buf s1)
         in if avail = [] then (s1, None)
            else let n = cut g (st_ch s1) avail
                 in (s1\<lparr>st_start := st_start s1 + n\<rparr>, Some (Ok (take n avail))))"

partial_function (option) stream_collect :: "u64 list \<Rightarrow> 'e stream \<Rightarrow> ('e + bytes list) option" where
  "stream_collect g s =
    (case Stream_next g s of
       (s', None) \<Rightarrow> Some (Ok [])
     | (s', Some (Inl e)) \<Rightarrow> Some (Err e)
     | (s', Some (Inr c)) \<Rightarrow>
         Option.bind (stream_collect g s') (\<lambda>r. Some (rbind r (\<lambda>cs. Ok (c # cs)))))"

section \<open>Where a cut can fall\<close>

definition chunker_ok :: "chunker \<Rightarrow> bool" where
  "chunker_ok ch \<longleftrightarrow> 0 < cc_min (ch_cfg ch) \<and> cc_min (ch_cfg ch) \<le> cc_avg (ch_cfg ch) \<and>
    cc_avg (ch_cfg ch) \<le> cc_max (ch_cfg ch) \<and> ch_fixed ch = (cc_min (ch_cfg ch) = cc_max (ch_cfg ch))"

lemma Chunker_new_ok: "Chunker_new cfg = Inr ch \<Longrightarrow> chunker_ok ch \<and> ch_cfg ch = cfg"
  by (auto simp: Chunker_new_def chunker_ok_def validate_def Let_def result_elims split: if_splits)

lemma scan_bounds: "scan g msk buf limit i fp = Inl c \<Longrightarrow> i < c \<and> c \<le> limit"
proof (induction g msk buf limit i fp rule: scan.induct)
  case (1 g msk buf limit i fp)
  then show ?case
    by (subst (asm) (2) scan.simps) (auto simp: Let_def split: if_splits)
qed

lemma scan_local:
  "(\<And>j. i \<le> j \<Longrightarrow> j < limit \<Longrightarrow> buf ! j = buf' ! j) \<Longrightarrow>
    scan g msk buf limit i fp = scan g msk buf' limit i fp"
proof (induction g msk buf limit i fp rule: scan.induct)
  case (1 g msk buf limit i fp)
  then show ?case
    by (subst (1 2) scan.simps) (auto simp: Let_def)
qed

lemma two_stage_bounds:
  "cc_min (ch_cfg ch) \<le> n \<Longrightarrow> cc_min (ch_cfg ch) \<le> two_stage g ch buf n \<and> two_stage g ch buf n \<le> n"
  by (auto simp: two_stage_def Let_def dest!: scan_bounds split: sum.split)

lemma two_stage_local:
  assumes "n \<le> length buf"
  shows "two_stage g ch (buf @ rest) n = two_stage g ch buf n"
proof -
  have "scan g m (buf @ rest) l i fp = scan g m buf l i fp" if "l \<le> n" for m l i fp
    by (rule scan_local) (use assms that in \<open>auto simp: nth_append\<close>)
  then show ?thesis by (simp add: two_stage_def Let_def cong: sum.case_cong)
qed

lemma cut_bounds:
  assumes "chunker_ok ch"
  shows "cut g ch buf \<le> min (length buf) (cc_max (ch_cfg ch)) \<and>
    min (length buf) (cc_min (ch_cfg ch)) \<le> cut g ch buf"
  using assms two_stage_bounds [of ch "min (length buf) (cc_max (ch_cfg ch))" g buf]
  by (auto simp: cut_def Let_def chunker_ok_def)

lemma cut_pos: "chunker_ok ch \<Longrightarrow> buf \<noteq> [] \<Longrightarrow> 0 < cut g ch buf"
  using cut_bounds [of ch g buf] by (cases buf) (auto simp: chunker_ok_def min_def split: if_splits)

text \<open>A cut reads only the first \<open>max\<close> bytes, so a window that holds that many decides it.\<close>

lemma cut_prefix:
  assumes "chunker_ok ch" "cc_max (ch_cfg ch) \<le> length buf"
  shows "cut g ch (buf @ rest) = cut g ch buf"
proof -
  have "min (length buf) (cc_max (ch_cfg ch)) = cc_max (ch_cfg ch)"
    "min (length buf + length rest) (cc_max (ch_cfg ch)) = cc_max (ch_cfg ch)"
    using assms(2) by simp_all
  then show ?thesis
    using two_stage_local [OF assms(2), of g ch rest] by (simp add: cut_def Let_def)
qed

section \<open>Splitting\<close>

lemma split_total: "chunker_ok ch \<Longrightarrow> \<exists>cs. split g ch xs = Some cs"
proof (induction "length xs" arbitrary: xs rule: less_induct)
  case less
  show ?case
  proof (cases "xs = []")
    case True
    then show ?thesis by (subst split.simps) (simp add: Split_next_def)
  next
    case False
    then have "length (drop (cut g ch xs) xs) < length xs"
      using cut_pos [OF less.prems False, of g] by simp
    then obtain cs where "split g ch (drop (cut g ch xs) xs) = Some cs" using less by blast
    with False show ?thesis by (subst split.simps) (simp add: Split_next_def Let_def)
  qed
qed

lemma split_Some_Nil: "split g ch [] = Some cs \<longleftrightarrow> cs = []"
  by (subst split.simps) (auto simp: Split_next_def)

lemma split_Some_step:
  "xs \<noteq> [] \<Longrightarrow> split g ch xs = Some cs \<longleftrightarrow>
    (\<exists>ds. cs = take (cut g ch xs) xs # ds \<and> split g ch (drop (cut g ch xs) xs) = Some ds)"
  by (subst split.simps) (auto simp: Split_next_def Let_def bind_eq_Some_conv)

lemma split_facts:
  assumes "chunker_ok ch" "split g ch xs = Some cs"
  shows "concat cs = xs \<and> (\<forall>c \<in> set cs. c \<noteq> [] \<and> length c \<le> cc_max (ch_cfg ch)) \<and>
    (\<forall>c \<in> set (butlast cs). cc_min (ch_cfg ch) \<le> length c)"
  using assms(2)
proof (induction "length xs" arbitrary: xs cs rule: less_induct)
  case less
  show ?case
  proof (cases "xs = []")
    case True
    then show ?thesis using less.prems by (simp add: split_Some_Nil)
  next
    case False
    let ?n = "cut g ch xs"
    obtain ds where cs: "cs = take ?n xs # ds" and ds: "split g ch (drop ?n xs) = Some ds"
      using less.prems split_Some_step [OF False] by blast
    have pos: "0 < ?n" using cut_pos [OF assms(1) False] .
    have IH: "concat ds = drop ?n xs" "\<forall>c \<in> set ds. c \<noteq> [] \<and> length c \<le> cc_max (ch_cfg ch)"
      "\<forall>c \<in> set (butlast ds). cc_min (ch_cfg ch) \<le> length c"
      using less.hyps [OF _ ds] pos False by auto
    have "ds = [] \<or> ?n < length xs" using ds split_Some_Nil by (cases "?n < length xs") auto
    then show ?thesis
      using IH cut_bounds [OF assms(1), of g xs] pos False
      by (auto simp: cs min_def split: if_splits)
  qed
qed

section \<open>Streaming agrees with splitting\<close>

text \<open>Bytes the reader still holds before its end of file, for a reader that reports no error.\<close>

definition reads_ok :: "'e reader \<Rightarrow> bool" where
  "reads_ok rs = list_all (\<lambda>r. case r of Inl _ \<Rightarrow> False | Inr bs \<Rightarrow> bs \<noteq> [] \<and> length bs \<le> READ_BUF) rs"

fun reader_bytes :: "'e reader \<Rightarrow> bytes" where
  "reader_bytes [] = []"
| "reader_bytes (Inl e # rs) = []"
| "reader_bytes (Inr bs # rs) = (if bs = [] then [] else bs @ reader_bytes rs)"

definition pending :: "'e stream \<Rightarrow> bytes" where
  "pending s = drop (st_start s) (st_buf s) @ (if st_eof s then [] else reader_bytes (st_reader s))"

definition stream_inv :: "'e stream \<Rightarrow> bool" where
  "stream_inv s \<longleftrightarrow> chunker_ok (st_ch s) \<and> cc_max (ch_cfg (st_ch s)) < 2 ^ 62 \<and> reads_ok (st_reader s) \<and>
    st_start s \<le> length (st_buf s)"

lemma window_exact: "cc_max (ch_cfg ch) < 2 ^ 62 \<Longrightarrow> window_size ch = cc_max (ch_cfg ch) * 2"
  by (simp add: window_size_def)

lemma stream_Some: "cc_max (ch_cfg ch) < 2 ^ 62 \<Longrightarrow>
    Chunker_stream ch r = Some \<lparr>st_ch = ch, st_reader = r, st_buf = [], st_start = 0, st_eof = False\<rparr>"
  by (simp add: Chunker_stream_def window_exact)

lemma read_loop_ok:
  "reads_ok rs \<Longrightarrow> read_loop want rs buf = (rs', buf', eof, err) \<Longrightarrow>
    err = None \<and> reads_ok rs' \<and> (eof \<or> want \<le> length buf') \<and> length buf \<le> length buf' \<and>
    buf' @ (if eof then [] else reader_bytes rs') = buf @ reader_bytes rs"
proof (induction want rs buf rule: read_loop.induct)
  case (1 want buf)
  then show ?case by (auto simp: reads_ok_def split: if_splits)
next
  case (2 want r rs buf)
  then show ?case
    by (cases r) (auto simp: reads_ok_def split: if_splits)
qed

lemma refill_ok:
  assumes "stream_inv s" "\<not> st_eof s"
  shows "\<exists>s1. refill s = (s1, Ok ()) \<and> stream_inv s1 \<and> st_ch s1 = st_ch s \<and> pending s1 = pending s \<and>
    (st_eof s1 \<or> cc_max (ch_cfg (st_ch s)) \<le> length (st_buf s1) - st_start s1)"
proof -
  let ?s = "if st_start s > 0 then s\<lparr>st_buf := drop (st_start s) (st_buf s), st_start := 0\<rparr> else s"
  have s: "st_buf ?s = drop (st_start s) (st_buf s)" "st_start ?s = 0" "st_reader ?s = st_reader s"
    "st_eof ?s = st_eof s" "st_ch ?s = st_ch s"
    by auto
  obtain rs' buf' eof err where loop:
    "read_loop (window_size (st_ch s)) (st_reader s) (drop (st_start s) (st_buf s)) = (rs', buf', eof, err)"
    by (metis prod_cases4)
  have ok: "err = None" "reads_ok rs'" "eof \<or> window_size (st_ch s) \<le> length buf'"
    "buf' @ (if eof then [] else reader_bytes rs') = drop (st_start s) (st_buf s) @ reader_bytes (st_reader s)"
    using read_loop_ok [OF _ loop] assms(1) by (auto simp: stream_inv_def)
  let ?t = "?s\<lparr>st_reader := rs', st_buf := buf', st_eof := eof\<rparr>"
  have "refill s = (?t, Ok ())"
    using loop ok(1) assms(2) by (auto simp: refill_def Let_def)
  moreover have "stream_inv ?t" "pending ?t = pending s" "st_ch ?t = st_ch s"
    "st_eof ?t \<or> cc_max (ch_cfg (st_ch s)) \<le> length (st_buf ?t) - st_start ?t"
    using assms ok by (auto simp: stream_inv_def pending_def window_exact split: if_splits)
  ultimately show ?thesis by blast
qed

text \<open>One \<open>next\<close>: the chunk is what \<open>split\<close> would take off the pending bytes.\<close>

lemma Stream_next_ok:
  assumes "stream_inv s"
  shows "\<exists>s'. stream_inv s' \<and> st_ch s' = st_ch s \<and>
    (if pending s = [] then Stream_next g s = (s', None)
     else Stream_next g s = (s', Some (Ok (take (cut g (st_ch s) (pending s)) (pending s)))) \<and>
          pending s' = drop (cut g (st_ch s) (pending s)) (pending s))"
proof -
  let ?mx = "cc_max (ch_cfg (st_ch s))"
  let ?guard = "\<not> st_eof s \<and> length (st_buf s) - st_start s < ?mx"
  obtain s1 where top: "(if ?guard then refill s else (s, Ok ())) = (s1, Ok ())"
    and inv: "stream_inv s1" and ch: "st_ch s1 = st_ch s" and pend: "pending s1 = pending s"
    and full: "st_eof s1 \<or> ?mx \<le> length (st_buf s1) - st_start s1"
    using refill_ok [OF assms] assms by (cases ?guard) (auto simp: not_less)
  let ?a = "drop (st_start s1) (st_buf s1)"
  have chok: "chunker_ok (st_ch s)" using assms by (simp add: stream_inv_def)
  then have mx: "0 < ?mx" by (auto simp: chunker_ok_def)
  have split: "pending s = ?a @ (if st_eof s1 then [] else reader_bytes (st_reader s1))"
    using pend by (simp add: pending_def)
  have empty: "?a = [] \<longleftrightarrow> pending s = []" using full mx split by (auto split: if_splits)
  have cutp: "cut g (st_ch s) (pending s) = cut g (st_ch s) ?a"
    unfolding split using full cut_prefix [OF chok, of ?a] by auto
  have cle: "cut g (st_ch s) ?a \<le> length ?a" using cut_bounds [OF chok, of g ?a] by simp
  show ?thesis
  proof (cases "?a = []")
    case True
    then have "Stream_next g s = (s1, None)" by (simp add: Stream_next_def top)
    then show ?thesis using True inv ch empty by auto
  next
    case False
    let ?n = "cut g (st_ch s) ?a"
    let ?s' = "s1\<lparr>st_start := st_start s1 + ?n\<rparr>"
    have "Stream_next g s = (?s', Some (Ok (take ?n ?a)))"
      using False by (simp add: Stream_next_def top Let_def ch)
    moreover have "stream_inv ?s'" using inv cle by (auto simp: stream_inv_def)
    moreover have "pending ?s' = drop ?n (pending s)"
      using cle split by (auto simp: pending_def add.commute)
    moreover have "take ?n ?a = take ?n (pending s)" using cle split by auto
    ultimately show ?thesis using False empty ch cutp by (intro exI [of _ ?s']) auto
  qed
qed

lemma stream_collect_split:
  "stream_inv s \<Longrightarrow> stream_collect g s = map_option Ok (split g (st_ch s) (pending s))"
proof (induction "length (pending s)" arbitrary: s rule: less_induct)
  case less
  obtain s' where s': "stream_inv s'" "st_ch s' = st_ch s"
    "if pending s = [] then Stream_next g s = (s', None)
     else Stream_next g s = (s', Some (Ok (take (cut g (st_ch s) (pending s)) (pending s)))) \<and>
          pending s' = drop (cut g (st_ch s) (pending s)) (pending s)"
    using Stream_next_ok [OF less.prems] by blast
  show ?case
  proof (cases "pending s = []")
    case True
    then show ?thesis
      using s'(3) by (subst stream_collect.simps, subst split.simps) (simp add: Split_next_def)
  next
    case False
    then have pend: "pending s' = drop (cut g (st_ch s) (pending s)) (pending s)"
      and nxt: "Stream_next g s = (s', Some (Ok (take (cut g (st_ch s) (pending s)) (pending s))))"
      using s'(3) by auto
    have "0 < cut g (st_ch s) (pending s)"
      using less.prems False by (intro cut_pos) (auto simp: stream_inv_def)
    then have "length (pending s') < length (pending s)" using pend False by simp
    then have "stream_collect g s' = map_option Ok (split g (st_ch s) (pending s'))"
      using less.hyps [OF _ s'(1)] s'(2) by simp
    moreover have "stream_collect g s = Option.bind (stream_collect g s')
        (\<lambda>r. Some (rbind r (\<lambda>cs. Ok (take (cut g (st_ch s) (pending s)) (pending s) # cs))))"
      by (subst stream_collect.simps) (simp add: nxt)
    moreover have "split g (st_ch s) (pending s) = Option.bind (split g (st_ch s) (pending s'))
        (\<lambda>cs. Some (take (cut g (st_ch s) (pending s)) (pending s) # cs))"
      using False by (subst split.simps) (simp add: Split_next_def Let_def pend)
    ultimately show ?thesis by (cases "split g (st_ch s) (pending s')") simp_all
  qed
qed

section \<open>The window is bounded\<close>

definition reads_bounded :: "'e reader \<Rightarrow> bool" where
  "reads_bounded rs = list_all (\<lambda>r. case r of Inl _ \<Rightarrow> True | Inr bs \<Rightarrow> length bs \<le> READ_BUF) rs"

definition window_ok :: "'e stream \<Rightarrow> bool" where
  "window_ok s \<longleftrightarrow> reads_bounded (st_reader s) \<and>
    length (st_buf s) < window_size (st_ch s) + READ_BUF"

lemma read_loop_bounded:
  "reads_bounded rs \<Longrightarrow> length buf < want + READ_BUF \<Longrightarrow> read_loop want rs buf = (rs', buf', eof, err) \<Longrightarrow>
    reads_bounded rs' \<and> length buf' < want + READ_BUF"
proof (induction want rs buf rule: read_loop.induct)
  case (1 want buf)
  then show ?case by (auto split: if_splits)
next
  case (2 want r rs buf)
  then show ?case by (cases r) (auto simp: reads_bounded_def split: if_splits)
qed

lemma refill_window: "window_ok s \<Longrightarrow> window_ok (fst (refill s))"
  using read_loop_bounded [of "st_reader s" "drop (st_start s) (st_buf s)" "window_size (st_ch s)"]
  by (auto simp: refill_def window_ok_def Let_def split: prod.split)

lemma Stream_next_window: "window_ok s \<Longrightarrow> window_ok (fst (Stream_next g s))"
proof -
  assume w: "window_ok s"
  define t where "t = (if \<not> st_eof s \<and> length (st_buf s) - st_start s < cc_max (ch_cfg (st_ch s))
    then refill s else (s, Ok ()))"
  have "window_ok (fst t)" using w refill_window [OF w] by (simp add: t_def)
  then have "window_ok ((fst t)\<lparr>st_start := x\<rparr>)" for x by (simp add: window_ok_def)
  with \<open>window_ok (fst t)\<close> show ?thesis
    by (auto simp: Stream_next_def t_def [symmetric] Let_def split: prod.split sum.split)
qed

lemma Stream_nexts_window: "window_ok s \<Longrightarrow> window_ok (((\<lambda>s. fst (Stream_next g s)) ^^ k) s)"
  by (induction k) (simp_all add: Stream_next_window)

lemma refill_ch: "st_ch (fst (refill s)) = st_ch s"
  by (simp add: refill_def Let_def split: prod.split)

lemma Stream_next_ch: "st_ch (fst (Stream_next g s)) = st_ch s"
proof -
  define t where "t = (if \<not> st_eof s \<and> length (st_buf s) - st_start s < cc_max (ch_cfg (st_ch s))
    then refill s else (s, Ok ()))"
  have "st_ch (fst t) = st_ch s" by (simp add: t_def refill_ch)
  then show ?thesis
    by (auto simp: Stream_next_def t_def [symmetric] Let_def split: prod.split sum.split)
qed

lemma Stream_nexts_ch: "st_ch (((\<lambda>s. fst (Stream_next g s)) ^^ k) s) = st_ch s"
  by (induction k) (simp_all add: Stream_next_ch)

section \<open>Properties\<close>

lemma toy_chunker: "Chunker_new (ChunkerConfig_fixed 4) =
    Ok \<lparr>ch_cfg = ChunkerConfig_fixed 4, ch_mask_s = 15, ch_mask_l = 0, ch_fixed = True\<rparr>"
  by (simp add: Chunker_new_def validate_def ChunkerConfig_fixed_def trailing_zeros.simps mask_bits_def
      NORMALIZATION_def Let_def)

definition toy_ch :: chunker where
  "toy_ch = \<lparr>ch_cfg = ChunkerConfig_fixed 4, ch_mask_s = 15, ch_mask_l = 0, ch_fixed = True\<rparr>"

lemma toy_ch_new: "Chunker_new (ChunkerConfig_fixed 4) = Ok toy_ch"
  by (simp add: toy_chunker toy_ch_def)

text \<open>
  Chunking a slice always ends and loses nothing: for every configuration the constructor
  accepts, the chunks concatenate to the input, none is empty or above the maximum, and only the
  last may be below the minimum.
\<close>

theorem split_partitions_input:
  assumes "Chunker_new cfg = Ok ch"
  shows "\<exists>cs. split g ch data = Some cs \<and> concat cs = data \<and>
    (\<forall>c \<in> set cs. c \<noteq> [] \<and> length c \<le> cc_max cfg) \<and> (\<forall>c \<in> set (butlast cs). cc_min cfg \<le> length c)"
proof -
  have ok: "chunker_ok ch" "ch_cfg ch = cfg" using Chunker_new_ok [OF assms] by auto
  obtain cs where "split g ch data = Some cs" using split_total [OF ok(1)] by blast
  with split_facts [OF ok(1) this] ok(2) show ?thesis by auto
qed

theorem split_partitions_input_witness:
  "\<exists>cs. split [] toy_ch [1, 2, 3, 4, 5] = Some cs \<and> concat cs = [1, 2, 3, 4, 5] \<and>
    (\<forall>c \<in> set cs. c \<noteq> [] \<and> length c \<le> cc_max (ChunkerConfig_fixed 4)) \<and>
    (\<forall>c \<in> set (butlast cs). cc_min (ChunkerConfig_fixed 4) \<le> length c)"
  by (rule split_partitions_input [OF toy_ch_new])

text \<open>
  C37. Cut points depend on the content and not on how the reader delivers it: for a reader that
  reports no error and a maximum chunk below \<open>2^62\<close> bytes, streaming yields exactly the chunks of
  splitting the whole input, whatever the sizes of its reads. In particular the streaming iterator
  ends. Above the bound the window \<open>2 * max\<close> does not fit: the constructor panics or the product wraps.
\<close>

theorem stream_agrees_with_split:
  assumes "Chunker_new cfg = Ok ch" and "reads_ok rs" and "cc_max cfg < 2 ^ 62"
  shows "\<exists>s cs. Chunker_stream ch rs = Some s \<and> stream_collect g s = Some (Ok cs) \<and> split g ch (concat (map projr rs)) = Some cs"
proof -
  have ok: "chunker_ok ch" "cc_max (ch_cfg ch) < 2 ^ 62" using Chunker_new_ok [OF assms(1)] assms(3) by auto
  let ?s = "\<lparr>st_ch = ch, st_reader = rs, st_buf = [], st_start = 0, st_eof = False\<rparr>"
  have "reader_bytes rs = concat (map projr rs)"
    using assms(2) by (induction rs rule: reader_bytes.induct) (auto simp: reads_ok_def)
  then have pend: "pending ?s = concat (map projr rs)" by (simp add: pending_def)
  have "stream_inv ?s" using ok assms(2) by (simp add: stream_inv_def)
  from stream_collect_split [OF this, of g] split_total [OF ok(1), of g "concat (map projr rs)"] stream_Some [OF ok(2), of rs]
  show ?thesis by (auto simp: pend)
qed

theorem stream_agrees_with_split_witness:
  "\<exists>s cs. Chunker_stream toy_ch [Inr [1, 2, 3], (Inr [4, 5] :: unit + bytes)] = Some s \<and> stream_collect [] s = Some (Ok cs) \<and>
    split [] toy_ch [1, 2, 3, 4, 5] = Some cs"
  using stream_agrees_with_split [OF toy_ch_new, of "[Inr [1, 2, 3], (Inr [4, 5] :: unit + bytes)]" "[]"]
  by (simp add: reads_ok_def READ_BUF_def ChunkerConfig_fixed_def)

text \<open>
  The bound is needed: a configuration with \<open>max = 2^63\<close> is accepted, its window wraps to nothing, and
  the stream ends at once, whatever the reader holds.
\<close>

lemma huge_maximum_streams_nothing:
  assumes "Chunker_new \<lparr>cc_min = 1, cc_avg = 1, cc_max = 2 ^ 63\<rparr> = Ok ch" "Chunker_stream ch rs = Some s"
  shows "stream_collect g s = Some (Ok [])"
proof -
  have "window_size ch = 0" "cc_max (ch_cfg ch) = 2 ^ 63" using Chunker_new_ok [OF assms(1)] by (auto simp: window_size_def)
  moreover have "read_loop 0 rs [] = (rs, [], False, None)" by (cases rs) auto
  ultimately show ?thesis
    using assms(2) by (subst stream_collect.simps) (auto simp: Stream_next_def Chunker_stream_def refill_def)
qed

text \<open>
  Memory is bounded whatever the input: however often a stream is advanced, errors included,
  its window stays below twice the maximum chunk plus one read buffer.
\<close>

theorem stream_window_bounded:
  assumes "reads_bounded rs" "Chunker_stream ch rs = Some s"
  shows "length (st_buf (((\<lambda>s. fst (Stream_next g s)) ^^ k) s)) < 2 * cc_max (ch_cfg ch) + READ_BUF"
proof -
  have s: "st_ch s = ch" "window_ok s"
    using assms by (auto simp: window_ok_def Chunker_stream_def READ_BUF_def split: if_splits)
  have "window_size ch \<le> 2 * cc_max (ch_cfg ch)" using mod_less_eq_dividend [of "cc_max (ch_cfg ch) * 2" "2 ^ 64"] by (simp add: window_size_def)
  with Stream_nexts_window [OF s(2), of k g] show ?thesis by (simp add: window_ok_def Stream_nexts_ch s(1))
qed

theorem stream_window_bounded_witness:
  "\<exists>s. Chunker_stream toy_ch [(Inr (replicate 9 0) :: unit + bytes)] = Some s \<and>
    length (st_buf (((\<lambda>s. fst (Stream_next [] s)) ^^ 1) s)) < 2 * cc_max (ch_cfg toy_ch) + READ_BUF"
proof -
  have "cc_max (ch_cfg toy_ch) < 2 ^ 62" by (simp add: toy_ch_def ChunkerConfig_fixed_def)
  from stream_Some [OF this, of "[Inr (replicate 9 0) :: unit + bytes]"]
  show ?thesis
    using stream_window_bounded [of "[Inr (replicate 9 0) :: unit + bytes]" toy_ch _ 1 "[]"] by (simp add: reads_bounded_def READ_BUF_def)
qed

text \<open>The window can exceed the documented \<open>2 * max\<close>: one read overshoots it.\<close>

lemma stream_window_overshoots:
  "2 * cc_max (ch_cfg toy_ch) <
    length (st_buf (fst (Stream_next [] (the (Chunker_stream toy_ch [(Inr (replicate 9 0) :: unit + bytes)])))))"
  by (simp add: Stream_next_def Chunker_stream_def window_size_def refill_def toy_ch_def ChunkerConfig_fixed_def Let_def cut_def)

text \<open>
  A chunker configured for a padding profile never produces a chunk the profile cannot frame:
  every chunk of every input pads, and unpads to itself.
\<close>

theorem chunks_of_a_profile_pad:
  assumes "Chunker_new (ChunkerConfig_for_profile profile base) = Ok ch" and "split g ch data = Some cs"
    and "c \<in> set cs"
  shows "\<exists>y. pad profile c = Ok y \<and> unpad profile y = Ok c"
proof -
  have ok: "chunker_ok ch" "ch_cfg ch = ChunkerConfig_for_profile profile base"
    using Chunker_new_ok [OF assms(1)] by auto
  have "length c \<le> cc_max (ChunkerConfig_for_profile profile base)"
    using split_facts [OF ok(1) assms(2)] assms(3) ok(2) by auto
  then have "\<not> (case max_plaintext profile of None \<Rightarrow> profile \<noteq> PadNone | Some m \<Rightarrow> m < length c)"
    by (cases profile)
       (auto simp: max_plaintext_def ChunkerConfig_fixed_def FIXED_CHUNK_def Let_def LADDER_def)
  then have "\<exists>y. pad profile c = Ok y"
    using minimal_class_None_iff [of profile "length c"]
    by (auto simp: pad_eq split: option.splits)
  then show ?thesis by (simp add: padding.dec_iff)
qed

theorem chunks_of_a_profile_pad_witness:
  "\<exists>y. pad Fixed [1, 2] = Ok y \<and> unpad Fixed y = Ok [1, 2]"
proof (rule chunks_of_a_profile_pad)
  let ?cfg = "ChunkerConfig_for_profile Fixed ChunkerConfig_default"
  let ?ch = "projr (Chunker_new ?cfg)"
  show new: "Chunker_new ?cfg = Ok ?ch"
    by (simp add: Chunker_new_def validate_def ChunkerConfig_fixed_def FIXED_CHUNK_def FIXED_CLASS_def
        HEADER_def Let_def)
  have "chunker_ok ?ch" "ch_cfg ?ch = ?cfg" using Chunker_new_ok [OF new] by auto
  then show "split [] ?ch [1, 2] = Some [[1, 2]]"
    by (subst split.simps, subst split.simps)
       (simp add: Split_next_def cut_def chunker_ok_def ChunkerConfig_fixed_def FIXED_CHUNK_def
         FIXED_CLASS_def HEADER_def Let_def)
qed simp

end
