(* ===== verification/Manifest.thy ===== *)
theory Manifest
  imports Keys
begin

text \<open>
  \<open>nas-store/src/manifest.rs\<close> and \<open>root.rs\<close>: the file manifest with its packed chunk table, and the
  root manifest a slot record points at. Both decoders are shown to accept exactly the encodings
  of well-formed values, and a decoded manifest's size is the true sum of its chunk lengths, with
  no wrap-around in the 64-bit addition. Wiping secrets from memory is not modelled.
\<close>

definition MAGIC :: bytes where
  "MAGIC = byte_str ''NASM''"

definition RECORD :: usize where
  "RECORD = ADDR_LEN + KEY_LEN + 32 + 4"

datatype kind = File | Dir

fun kind_u8 :: "kind \<Rightarrow> u8" where
  "kind_u8 File = 0"
| "kind_u8 Dir = 1"

datatype manifest_error =
    Decode decode_error
  | BadMagic
  | UnknownVersion u16
  | BadDiscriminant string u8
  | FieldCount usize usize
  | BadWidth string usize usize
  | RaggedChunkTable usize
  | SizeMismatch u64 u64

record chunk_ref =
  cr_addr :: addr
  cr_ck :: bytes
  cr_pt_hash :: hash32
  cr_len :: u32

record manifest =
  mf_version :: u16
  mf_key_scheme :: key_scheme
  mf_padding_profile :: padding_profile
  mf_kind :: kind
  mf_name_enc :: bytes
  mf_size :: u64
  mf_chunks :: "chunk_ref list"
  mf_meta :: bytes

definition Manifest_new :: "kind \<Rightarrow> key_scheme \<Rightarrow> padding_profile \<Rightarrow> manifest" where
  "Manifest_new k ks pp =
    \<lparr>mf_version = MANIFEST_VERSION, mf_key_scheme = ks, mf_padding_profile = pp, mf_kind = k,
     mf_name_enc = [], mf_size = 0, mf_chunks = [], mf_meta = []\<rparr>"

definition chunk_bytes :: "manifest \<Rightarrow> u64" where
  "chunk_bytes m = sum_list (map (\<lambda>c. ucast (cr_len c)) (mf_chunks m))"

definition Manifest_validate :: "manifest \<Rightarrow> manifest_error + unit" where
  "Manifest_validate m =
    (if mf_version m \<noteq> MANIFEST_VERSION then Err (UnknownVersion (mf_version m))
     else let total = chunk_bytes m
          in if total \<noteq> mf_size m then Err (SizeMismatch (mf_size m) total) else Ok ())"

definition chunk_record :: "chunk_ref \<Rightarrow> bytes" where
  "chunk_record c = cr_addr c @ cr_ck c @ cr_pt_hash c @ u32_le (cr_len c)"

definition chunk_of_record :: "bytes \<Rightarrow> chunk_ref" where
  "chunk_of_record r =
    \<lparr>cr_addr = take ADDR_LEN r, cr_ck = take KEY_LEN (drop ADDR_LEN r),
     cr_pt_hash = take 32 (drop (ADDR_LEN + KEY_LEN) r), cr_len = u32_of_le (drop (RECORD - 4) r)\<rparr>"

definition Manifest_fields :: "manifest \<Rightarrow> bytes list" where
  "Manifest_fields m =
    [MAGIC, u16_le (mf_version m), [key_scheme_u8 (mf_key_scheme m)],
     [padding_profile_u8 (mf_padding_profile m)], [kind_u8 (mf_kind m)], mf_name_enc m,
     u64_le (mf_size m), concat (map chunk_record (mf_chunks m)), mf_meta m]"

definition Manifest_encode :: "manifest \<Rightarrow> manifest_error + bytes" where
  "Manifest_encode m = map_err Decode (encode_fields (Manifest_fields m))"

definition key_scheme_of :: "u8 \<Rightarrow> manifest_error + key_scheme" where
  "key_scheme_of v =
    (if v = 0 then Ok Convergent else if v = 1 then Ok IndexedRandom else if v = 2 then Ok Plaintext
     else Err (BadDiscriminant ''key_scheme'' v))"

definition padding_profile_of :: "u8 \<Rightarrow> manifest_error + padding_profile" where
  "padding_profile_of v =
    (if v = 0 then Ok PadNone else if v = 1 then Ok Classes else if v = 2 then Ok Fixed
     else Err (BadDiscriminant ''padding_profile'' v))"

definition kind_of :: "u8 \<Rightarrow> manifest_error + kind" where
  "kind_of v = (if v = 0 then Ok File else if v = 1 then Ok Dir else Err (BadDiscriminant ''kind'' v))"

definition one :: "string \<Rightarrow> bytes \<Rightarrow> manifest_error + u8" where
  "one field b = rbind (fixed_width BadWidth 1 field b) (\<lambda>x. Ok (hd x))"

definition Manifest_of_fields :: "bytes list \<Rightarrow> manifest_error + manifest" where
  "Manifest_of_fields f =
    (if length f \<noteq> 9 then Err (FieldCount 9 (length f))
     else if f ! 0 \<noteq> MAGIC then Err BadMagic
     else rbind (fixed_width BadWidth 2 ''version'' (f ! 1)) (\<lambda>vb.
     let version = u16_of_le vb in
     if version \<noteq> MANIFEST_VERSION then Err (UnknownVersion version) else
     rbind (one ''key_scheme'' (f ! 2)) (\<lambda>kb. rbind (key_scheme_of kb) (\<lambda>ks.
     rbind (one ''padding_profile'' (f ! 3)) (\<lambda>pb. rbind (padding_profile_of pb) (\<lambda>pp.
     rbind (one ''kind'' (f ! 4)) (\<lambda>db. rbind (kind_of db) (\<lambda>k.
     rbind (fixed_width BadWidth 8 ''size'' (f ! 6)) (\<lambda>sb.
     let table = f ! 7 in
     if \<not> RECORD dvd length table then Err (RaggedChunkTable (length table)) else
     let m = \<lparr>mf_version = version, mf_key_scheme = ks, mf_padding_profile = pp, mf_kind = k,
              mf_name_enc = f ! 5, mf_size = u64_of_le sb,
              mf_chunks = map chunk_of_record (chunks_exact RECORD table), mf_meta = f ! 8\<rparr> in
     rbind (Manifest_validate m) (\<lambda>_. Ok m))))))))))"

definition Manifest_decode :: "bytes \<Rightarrow> manifest_error + manifest" where
  "Manifest_decode bs = rbind (map_err Decode (decode_fields bs)) Manifest_of_fields"

section \<open>The root manifest\<close>

definition ROOT_AAD :: bytes where
  "ROOT_AAD = byte_str ''nas-tools/aad/root/v1''"

definition ROOT_VERSION :: u8 where
  "ROOT_VERSION = 1"

record root_manifest =
  rm_tree :: addr
  rm_generation :: u32

datatype root_error =
    RootDecode decode_error
  | RootBadWidth string usize usize
  | RootFieldCount usize usize
  | RootBadVersion u8

definition RootManifest_fields :: "root_manifest \<Rightarrow> bytes list" where
  "RootManifest_fields r = [[ROOT_VERSION], rm_tree r, u32_le (rm_generation r)]"

definition RootManifest_encode :: "root_manifest \<Rightarrow> root_error + bytes" where
  "RootManifest_encode r = map_err RootDecode (encode_fields (RootManifest_fields r))"

definition RootManifest_of_fields :: "bytes list \<Rightarrow> root_error + root_manifest" where
  "RootManifest_of_fields f =
    (if length f \<noteq> 3 then Err (RootFieldCount 3 (length f))
     else rbind (fixed_width RootBadWidth 1 ''version'' (f ! 0)) (\<lambda>v.
     if hd v \<noteq> ROOT_VERSION then Err (RootBadVersion (hd v)) else
     rbind (fixed_width RootBadWidth ADDR_LEN ''tree'' (f ! 1)) (\<lambda>t.
     rbind (fixed_width RootBadWidth 4 ''generation'' (f ! 2)) (\<lambda>g.
     Ok \<lparr>rm_tree = t, rm_generation = u32_of_le g\<rparr>))))"

definition RootManifest_decode :: "bytes \<Rightarrow> root_error + root_manifest" where
  "RootManifest_decode bs = rbind (map_err RootDecode (decode_fields bs)) RootManifest_of_fields"

definition root_aad :: "bytes \<Rightarrow> u64 \<Rightarrow> bytes" where
  "root_aad slot_id seq = ROOT_AAD @ slot_id @ u64_le seq"

section \<open>The codecs\<close>

definition wf_chunk :: "chunk_ref \<Rightarrow> bool" where
  "wf_chunk c \<longleftrightarrow> arr ADDR_LEN (cr_addr c) \<and> arr KEY_LEN (cr_ck c) \<and> arr 32 (cr_pt_hash c)"

definition wf_Manifest :: "manifest \<Rightarrow> bool" where
  "wf_Manifest m \<longleftrightarrow> list_all wf_chunk (mf_chunks m) \<and> Manifest_validate m = Ok ()"

lemma drop_take_drop: "a \<le> b \<Longrightarrow> take (b - a) (drop a xs) @ drop b xs = drop a xs"
  by (metis append_take_drop_id drop_drop le_add_diff_inverse2)

interpretation chunk_table: packed_table chunk_record chunk_of_record RECORD wf_chunk
proof
  fix b :: bytes
  assume b: "length b = RECORD"
  have "take ADDR_LEN b @ take KEY_LEN (drop ADDR_LEN b) @ take 32 (drop (ADDR_LEN + KEY_LEN) b) @
      drop (RECORD - 4) b = b"
    using drop_take_drop [of ADDR_LEN "ADDR_LEN + KEY_LEN" b]
      drop_take_drop [of "ADDR_LEN + KEY_LEN" "RECORD - 4" b]
    by (simp add: RECORD_def)
  with b show "wf_chunk (chunk_of_record b) \<and> chunk_record (chunk_of_record b) = b"
    by (simp add: chunk_of_record_def chunk_record_def wf_chunk_def RECORD_def ADDR_LEN_def KEY_LEN_def)
qed (simp_all add: RECORD_def chunk_record_def chunk_of_record_def wf_chunk_def)

lemma key_scheme_of_Inr_iff: "key_scheme_of v = Inr ks \<longleftrightarrow> v = key_scheme_u8 ks"
  by (cases ks) (auto simp: key_scheme_of_def)

lemma padding_profile_of_Inr_iff: "padding_profile_of v = Inr pp \<longleftrightarrow> v = padding_profile_u8 pp"
  by (cases pp) (auto simp: padding_profile_of_def)

lemma kind_of_Inr_iff: "kind_of v = Inr k \<longleftrightarrow> v = kind_u8 k"
  by (cases k) (auto simp: kind_of_def)

lemmas discriminants_iff = key_scheme_of_Inr_iff padding_profile_of_Inr_iff kind_of_Inr_iff

lemma one_Inr_iff: "one field b = Inr v \<longleftrightarrow> b = [v]"
  by (cases b) (auto simp: one_def fixed_width_def)

lemma Manifest_of_fields_iff:
  "Manifest_of_fields [a, b, c, d, e, f, g, h, i] = Inr m \<longleftrightarrow>
    a = MAGIC \<and> b = u16_le (mf_version m) \<and> c = [key_scheme_u8 (mf_key_scheme m)] \<and>
    d = [padding_profile_u8 (mf_padding_profile m)] \<and> e = [kind_u8 (mf_kind m)] \<and> f = mf_name_enc m \<and>
    g = u64_le (mf_size m) \<and> i = mf_meta m \<and> Manifest_validate m = Ok () \<and>
    (RECORD dvd length h \<and> map chunk_of_record (chunks_exact RECORD h) = mf_chunks m)"
    (is "?l \<longleftrightarrow> ?r")
proof
  assume ?l
  then obtain ks pp k where "a = MAGIC" "length b = 2" "u16_of_le b = MANIFEST_VERSION"
      "c = [key_scheme_u8 ks]" "d = [padding_profile_u8 pp]" "e = [kind_u8 k]" "length g = 8"
      "RECORD dvd length h"
    and m: "m = \<lparr>mf_version = u16_of_le b, mf_key_scheme = ks, mf_padding_profile = pp, mf_kind = k,
      mf_name_enc = f, mf_size = u64_of_le g, mf_chunks = map chunk_of_record (chunks_exact RECORD h),
      mf_meta = i\<rparr>" "Manifest_validate m = Ok ()"
    unfolding Manifest_of_fields_def Let_def
    by (simp add: result_elims one_Inr_iff discriminants_iff split: if_split_asm)
      blast
  then show ?r using u16_le_u16_of_le [of b] by simp
next
  assume r: ?r
  then have "mf_version m = MANIFEST_VERSION" by (auto simp: Manifest_validate_def split: if_splits)
  moreover have "key_scheme_of (key_scheme_u8 ks) = Inr ks" "padding_profile_of (padding_profile_u8 pp) = Inr pp"
    "kind_of (kind_u8 k) = Inr k" "one fld [v] = Inr v" for ks pp k fld v
    by (simp_all add: discriminants_iff one_Inr_iff)
  ultimately show ?l using r by (cases m) (simp add: Manifest_of_fields_def Let_def)
qed

interpretation manifest: field_codec Manifest_fields Manifest_of_fields wf_Manifest Decode
proof
  fix fs and m :: manifest
  show "Manifest_of_fields fs = Inr m \<longleftrightarrow> wf_Manifest m \<and> Manifest_fields m = fs"
  proof (cases "length fs = 9")
    case True
    then obtain a b c d e f g h i where fs: "fs = [a, b, c, d, e, f, g, h, i]"
      by (auto simp: length_Suc_conv numeral_eq_Suc)
    show ?thesis
      unfolding fs Manifest_of_fields_iff chunk_table.table_iff
      by (auto simp: wf_Manifest_def Manifest_fields_def)
  next
    case False
    then show ?thesis by (auto simp: Manifest_of_fields_def Manifest_fields_def)
  qed
qed

interpretation root_manifest: field_codec RootManifest_fields RootManifest_of_fields
  "\<lambda>r. arr ADDR_LEN (rm_tree r)" RootDecode
proof
  fix fs and r :: root_manifest
  show "RootManifest_of_fields fs = Inr r \<longleftrightarrow> arr ADDR_LEN (rm_tree r) \<and> RootManifest_fields r = fs"
  proof (cases "length fs = 3")
    case True
    then obtain a b c where fs: "fs = [a, b, c]" by (auto simp: length_Suc_conv numeral_eq_Suc)
    show ?thesis
      unfolding fs RootManifest_of_fields_def RootManifest_fields_def
      by (auto simp: result_elims length1_hd_eq)
  next
    case False
    then show ?thesis by (auto simp: RootManifest_of_fields_def RootManifest_fields_def)
  qed
qed

section \<open>No wrap-around in the size\<close>

lemma sum_ucast_no_wrap:
  "length cs < 2 ^ 32 \<Longrightarrow>
    unat (sum_list (map (\<lambda>c. ucast (cr_len c) :: u64) cs)) = sum_list (map (\<lambda>c. unat (cr_len c)) cs) \<and>
    sum_list (map (\<lambda>c. unat (cr_len c)) cs) \<le> length cs * (2 ^ 32 - 1)"
proof (induction cs)
  case Nil
  then show ?case by simp
next
  case (Cons c cs)
  let ?s = "sum_list (map (\<lambda>c. unat (cr_len c)) cs)"
  have IH: "unat (sum_list (map (\<lambda>c. ucast (cr_len c) :: u64) cs)) = ?s" "?s \<le> length cs * (2 ^ 32 - 1)"
    using Cons by auto
  have lt: "unat (cr_len c) < 2 ^ 32" using unat_less_pow [of "cr_len c"] by simp
  have c: "unat (ucast (cr_len c) :: u64) = unat (cr_len c)" 
    using lt by (simp add: unsigned_ucast_eq take_bit_nat_eq_self)
  have "length cs * 4294967295 \<le> 4294967296 * 4294967295"
    using Cons.prems by (intro mult_le_mono1) simp
  moreover have "?s \<le> length cs * 4294967295" "unat (cr_len c) < 4294967296" using IH(2) lt by simp_all
  ultimately have "unat (cr_len c) + ?s < 18446744073709551616" by linarith
  then show ?case using IH c lt by (simp add: unat_word_ariths)
qed

lemma decoded_size_exact:
  assumes "wf_Manifest m" "Manifest_encode m = Ok bs"
  shows "unat (mf_size m) = sum_list (map (\<lambda>c. unat (cr_len c)) (mf_chunks m))"
proof -
  have "length (concat (map chunk_record (mf_chunks m))) \<le> MAX_FIELD"
    using assms(2) by (auto simp: Manifest_encode_def Manifest_fields_def result_elims encode_fields_Inr_iff)
  moreover have "length (concat (map chunk_record (mf_chunks m))) = RECORD * length (mf_chunks m)"
    using assms(1) by (intro chunk_table.table_length) (simp add: wf_Manifest_def)
  ultimately have "length (mf_chunks m) < 2 ^ 32"
    by (simp add: MAX_FIELD_def RECORD_def ADDR_LEN_def KEY_LEN_def)
  moreover have "mf_size m = chunk_bytes m"
    using assms(1) by (auto simp: wf_Manifest_def Manifest_validate_def Let_def split: if_splits)
  ultimately show ?thesis using sum_ucast_no_wrap [of "mf_chunks m"] by (simp add: chunk_bytes_def)
qed

section \<open>Properties\<close>

text \<open>
  A manifest has one encoding and is only read back whole: the decoder accepts exactly the
  encodings of manifests of this version whose chunk records have their widths and whose declared
  size is the sum of their chunk lengths.
\<close>

theorem manifest_decode_iff: "Manifest_decode bs = Ok m \<longleftrightarrow> wf_Manifest m \<and> Manifest_encode m = Ok bs"
  unfolding Manifest_decode_def Manifest_encode_def by (rule manifest.dec_iff)

text \<open>
  The size of a manifest that decoded is the exact sum of its chunk lengths: the 64-bit
  addition in the check cannot have wrapped, so the declared size is the length the chunks
  reconstruct to.
\<close>

theorem manifest_size_is_exact:
  assumes "Manifest_decode bs = Ok m"
  shows "unat (mf_size m) = sum_list (map (\<lambda>c. unat (cr_len c)) (mf_chunks m))"
  using assms manifest.dec_iff decoded_size_exact
  unfolding Manifest_decode_def Manifest_encode_def by blast

definition toy_manifest :: manifest where
  "toy_manifest = (Manifest_new File Convergent Classes)
     \<lparr>mf_size := 5, mf_chunks := [\<lparr>cr_addr = replicate 32 1, cr_ck = replicate 32 2,
        cr_pt_hash = replicate 32 3, cr_len = 5\<rparr>]\<rparr>"

lemma toy_manifest_decodes: "\<exists>bs. Manifest_decode bs = Ok toy_manifest"
proof -
  have "wf_Manifest toy_manifest"
    by (simp add: wf_Manifest_def toy_manifest_def Manifest_new_def wf_chunk_def Manifest_validate_def
        chunk_bytes_def ADDR_LEN_def KEY_LEN_def)
  moreover have "list_all field_ok (Manifest_fields toy_manifest)"
    by (simp add: Manifest_fields_def toy_manifest_def Manifest_new_def MAX_FIELD_def MAGIC_def
        chunk_record_def)
  then have "\<exists>bs. Manifest_encode toy_manifest = Ok bs"
    by (auto simp: Manifest_encode_def encode_fields_ok)
  ultimately show ?thesis
    using manifest.dec_iff unfolding Manifest_decode_def Manifest_encode_def by blast
qed

theorem manifest_size_is_exact_witness:
  "unat (mf_size toy_manifest) = sum_list (map (\<lambda>c. unat (cr_len c)) (mf_chunks toy_manifest))"
  using toy_manifest_decodes manifest_size_is_exact by blast

text \<open>
  The root manifest has one encoding of one version, and its associated data binds both the
  slot and the sequence: no two different pairs of a slot id and a sequence share it.
\<close>

theorem root_manifest_decode_iff:
  "(RootManifest_decode bs = Ok r \<longleftrightarrow> arr ADDR_LEN (rm_tree r) \<and> RootManifest_encode r = Ok bs) \<and>
   (root_aad s q = root_aad s' q' \<longleftrightarrow> s = s' \<and> q = q')"
  using root_manifest.dec_iff [of bs r] append_eq_append_conv [of "u64_le q" "u64_le q'" s s']
  unfolding RootManifest_decode_def RootManifest_encode_def root_aad_def by auto

end
