(* ===== verification/Object.thy ===== *)
theory Object
  imports Cache Blob_Store Chunker Manifest
begin

text \<open>
  \<open>nas-store/src/object.rs\<close>: the write pipeline (chunk, pad, seal, store) and the read pipeline
  (fetch, open, unpad, check), with byte ranges and the cache. A writer performs one blob-store call
  per chunk; the answers of the operating system to the successive calls are the stream \<open>os\<close>, and
  \<open>disk\<close> is the store with the number of calls made. Its last field records the byte strings
  stored so far: no operation reads it, and the properties name the strings whose addresses have to
  differ by it.
\<close>

section \<open>The store behind a sequence of calls\<close>

record os =
  os_io :: "nat \<Rightarrow> io_env"
  os_nonce :: "nat \<Rightarrow> bytes"

record disk =
  dk_store :: blob_store
  dk_tick :: nat
  dk_puts :: "bytes list"

definition disk_put :: "backend \<Rightarrow> os \<Rightarrow> disk \<Rightarrow> bytes \<Rightarrow> disk \<times> (store_error + addr)" where
  "disk_put B S d bs =
    (case BlobStore_put B (os_io S (dk_tick d)) (dk_store d) bs of
       (st, Inl e) \<Rightarrow> (d\<lparr>dk_store := st, dk_tick := Suc (dk_tick d)\<rparr>, Err e)
     | (st, Inr a) \<Rightarrow> (\<lparr>dk_store = st, dk_tick = Suc (dk_tick d), dk_puts = bs # dk_puts d\<rparr>, Ok a))"

section \<open>Writing\<close>

definition CHUNK_AAD :: bytes where
  "CHUNK_AAD = byte_str ''nas-tools/aad/chunk/v1''"

datatype object_error =
    ObjIo io_error
  | ObjPad pad_error
  | ObjCrypto crypto_error
  | ObjStore store_error
  | ObjManifest manifest_error
  | ObjConfig config_error
  | ProfileMismatch usize usize
  | PlaintextMismatch addr
  | LengthMismatch addr u32 usize
  | UnsupportedKeyScheme key_scheme
  | AddressingMismatch addr addr
  | ChunkLengthPanic

datatype sealer = SealConvergent bytes | SealPlaintext bytes

fun Sealer_key_scheme :: "sealer \<Rightarrow> key_scheme" where
  "Sealer_key_scheme (SealConvergent _) = Convergent"
| "Sealer_key_scheme (SealPlaintext _) = Plaintext"

fun stores_plaintext :: "sealer \<Rightarrow> bool" where
  "stores_plaintext (SealConvergent _) = False"
| "stores_plaintext (SealPlaintext _) = True"

definition salted_addr :: "backend \<Rightarrow> bytes \<Rightarrow> bytes \<Rightarrow> addr" where
  "salted_addr B tenant_salt plaintext = blake3 B (u64_le (of_nat (length tenant_salt)) @ tenant_salt @ plaintext)"

record object_writer =
  ow_sealer :: sealer
  ow_chunker :: chunker
  ow_profile :: padding_profile

definition ObjectWriter_new :: "sealer \<Rightarrow> padding_profile \<Rightarrow> chunker_config \<Rightarrow> object_error + object_writer" where
  "ObjectWriter_new slr profile cfg =
    (case max_plaintext profile of
       Some pad_max \<Rightarrow>
         if cc_max cfg > pad_max then Err (ProfileMismatch (cc_max cfg) pad_max)
         else rbind (map_err ObjConfig (Chunker_new cfg)) (\<lambda>ch.
           Ok \<lparr>ow_sealer = slr, ow_chunker = ch, ow_profile = profile\<rparr>)
     | None \<Rightarrow>
         rbind (map_err ObjConfig (Chunker_new cfg)) (\<lambda>ch.
           Ok \<lparr>ow_sealer = slr, ow_chunker = ch, ow_profile = profile\<rparr>))"

definition ObjectWriter_with_defaults :: "sealer \<Rightarrow> padding_profile \<Rightarrow> object_error + object_writer" where
  "ObjectWriter_with_defaults slr profile =
    ObjectWriter_new slr profile (ChunkerConfig_for_profile profile ChunkerConfig_default)"

definition ObjectWriter_convergent :: "bytes \<Rightarrow> padding_profile \<Rightarrow> object_error + object_writer" where
  "ObjectWriter_convergent cs profile = ObjectWriter_with_defaults (SealConvergent cs) profile"

text \<open>The \<open>match\<close> on the sealer in \<open>write\<close>: the address and the key of one padded chunk.\<close>

definition store_chunk ::
  "backend \<Rightarrow> aead \<Rightarrow> os \<Rightarrow> sealer \<Rightarrow> disk \<Rightarrow> bytes \<Rightarrow> disk \<times> (object_error + (addr \<times> bytes))" where
  "store_chunk B A S slr d padded =
    (case slr of
       SealConvergent cs \<Rightarrow>
         (case seal_chunk B A cs padded CHUNK_AAD of
            Inl e \<Rightarrow> (d, Err (ObjCrypto e))
          | Inr (sealed, ck) \<Rightarrow>
              (case disk_put B S d sealed of
                 (d', Inl e) \<Rightarrow> (d', Err (ObjStore e))
               | (d', Inr a) \<Rightarrow> (d', Ok (a, ck))))
     | SealPlaintext tenant_salt \<Rightarrow>
         (let expected = salted_addr B tenant_salt padded in
          case disk_put B S d padded of
            (d', Inl e) \<Rightarrow> (d', Err (ObjStore e))
          | (d', Inr a) \<Rightarrow>
              if a \<noteq> expected then (d', Err (AddressingMismatch expected a))
              else (d', Ok (a, replicate KEY_LEN 0))))"

text \<open>The body of the loop in \<open>write\<close>; the \<open>expect\<close> on the chunk length is \<open>ChunkLengthPanic\<close>.\<close>

definition write_chunk ::
  "backend \<Rightarrow> aead \<Rightarrow> os \<Rightarrow> object_writer \<Rightarrow> bytes \<Rightarrow> disk \<Rightarrow> manifest \<Rightarrow> disk \<times> (object_error + manifest)" where
  "write_chunk B A S w plain d m =
    (case pad (ow_profile w) plain of
       Inl e \<Rightarrow> (d, Err (ObjPad e))
     | Inr padded \<Rightarrow>
         (case store_chunk B A S (ow_sealer w) d padded of
            (d', Inl e) \<Rightarrow> (d', Err e)
          | (d', Inr (a, ck)) \<Rightarrow>
              if length plain \<ge> 2 ^ 32 then (d', Err ChunkLengthPanic)
              else (d', Ok (m\<lparr>mf_chunks := mf_chunks m @
                       [\<lparr>cr_addr = a, cr_ck = ck, cr_pt_hash = blake3 B plain, cr_len = of_nat (length plain)\<rparr>],
                     mf_size := mf_size m + of_nat (length plain)\<rparr>))))"

partial_function (option) write_loop ::
  "u64 list \<Rightarrow> backend \<Rightarrow> aead \<Rightarrow> os \<Rightarrow> object_writer \<Rightarrow> io_error stream \<Rightarrow> disk \<Rightarrow> manifest \<Rightarrow>
    (disk \<times> (object_error + manifest)) option" where
  "write_loop g B A S w s d m =
    (case Stream_next g s of
       (s', None) \<Rightarrow> Some (d, Ok m)
     | (s', Some (Inl e)) \<Rightarrow> Some (d, Err (ObjIo e))
     | (s', Some (Inr plain)) \<Rightarrow>
         (case write_chunk B A S w plain d m of
            (d', Inl e) \<Rightarrow> Some (d', Err e)
          | (d', Inr m') \<Rightarrow> write_loop g B A S w s' d' m'))"

definition ObjectWriter_write ::
  "u64 list \<Rightarrow> backend \<Rightarrow> aead \<Rightarrow> os \<Rightarrow> object_writer \<Rightarrow> disk \<Rightarrow> kind \<Rightarrow> io_error reader \<Rightarrow>
    (disk \<times> (object_error + manifest)) option" where
  "ObjectWriter_write g B A S w d k reader =
    map_option (\<lambda>(d', r). (d', rbind r (\<lambda>m. rbind (map_err ObjManifest (Manifest_validate m)) (\<lambda>_. Ok m))))
      (Option.bind (Chunker_stream (ow_chunker w) reader) (\<lambda>s.
        write_loop g B A S w s d (Manifest_new k (Sealer_key_scheme (ow_sealer w)) (ow_profile w))))"

section \<open>Reading\<close>

record read_stats =
  rs_chunks_fetched :: usize
  rs_bytes_fetched :: u64
  rs_cache_hits :: usize

definition ReadStats_default :: read_stats where
  "ReadStats_default = \<lparr>rs_chunks_fetched = 0, rs_bytes_fetched = 0, rs_cache_hits = 0\<rparr>"

text \<open>What the \<open>i\<close>-th chunk's fetch, cache calls and \<open>write_all\<close> meet.\<close>

record read_env =
  re_io :: "nat \<Rightarrow> io_env"
  re_cache :: "nat \<Rightarrow> cache_io"
  re_sink :: "nat \<Rightarrow> io_error option"

definition cache_lookup ::
  "backend \<Rightarrow> aead \<Rightarrow> cache_io \<Rightarrow> chunk_cache option \<Rightarrow> addr \<Rightarrow> chunk_cache option \<times> bytes option" where
  "cache_lookup B A io cache a =
    (case cache of None \<Rightarrow> (None, None) | Some c \<Rightarrow> (case ChunkCache_get B A io c a of (c', r) \<Rightarrow> (Some c', r)))"

definition cache_store :: "aead \<Rightarrow> cache_io \<Rightarrow> chunk_cache option \<Rightarrow> addr \<Rightarrow> bytes \<Rightarrow> chunk_cache option" where
  "cache_store A io cache a plain = map_option (\<lambda>c. fst (ChunkCache_put A io c a plain)) cache"

text \<open>What follows a cache miss: from the stored bytes to the verified plaintext.\<close>

definition check_chunk :: "backend \<Rightarrow> aead \<Rightarrow> manifest \<Rightarrow> chunk_ref \<Rightarrow> bytes \<Rightarrow> object_error + bytes" where
  "check_chunk B A m c stored =
    rbind (case mf_key_scheme m of
             Convergent \<Rightarrow> map_err ObjCrypto (open_chunk B A (chunk_key_from_stored (cr_ck c)) stored CHUNK_AAD)
           | Plaintext \<Rightarrow> Ok stored
           | IndexedRandom \<Rightarrow> Err (UnsupportedKeyScheme IndexedRandom)) (\<lambda>padded.
    rbind (map_err ObjPad (unpad (mf_padding_profile m) padded)) (\<lambda>plain.
    if length plain \<noteq> unat (cr_len c) then Err (LengthMismatch (cr_addr c) (cr_len c) (length plain))
    else if blake3 B plain \<noteq> cr_pt_hash c then Err (PlaintextMismatch (cr_addr c))
    else Ok plain))"

definition open_chunk_plain ::
  "backend \<Rightarrow> aead \<Rightarrow> io_env \<Rightarrow> cache_io \<Rightarrow> blob_store \<Rightarrow> manifest \<Rightarrow> chunk_ref \<Rightarrow> chunk_cache option \<Rightarrow>
    read_stats \<Rightarrow> chunk_cache option \<times> read_stats \<times> (object_error + bytes)" where
  "open_chunk_plain B A io cio st m c cache stats =
    (case cache_lookup B A cio cache (cr_addr c) of
       (cache', Some plain) \<Rightarrow> (cache', stats\<lparr>rs_cache_hits := rs_cache_hits stats + 1\<rparr>, Ok plain)
     | (cache', None) \<Rightarrow>
         (case BlobStore_get B io st (cr_addr c) of
            Inl e \<Rightarrow> (cache', stats, Err (ObjStore e))
          | Inr stored \<Rightarrow>
              let stats' = stats\<lparr>rs_chunks_fetched := rs_chunks_fetched stats + 1,
                    rs_bytes_fetched := rs_bytes_fetched stats + of_nat (length stored)\<rparr>
              in case check_chunk B A m c stored of
                   Inl e \<Rightarrow> (cache', stats', Err e)
                 | Inr plain \<Rightarrow> (cache_store A cio cache' (cr_addr c) plain, stats', Ok plain)))"

text \<open>
  The loop of \<open>read_object_range\<close>: the cache and the bytes written to the sink so far stand beside
  the result. What a failed \<open>write_all\<close> left of its own bytes in the sink is not modelled.
\<close>

fun range_loop ::
  "backend \<Rightarrow> aead \<Rightarrow> read_env \<Rightarrow> blob_store \<Rightarrow> manifest \<Rightarrow> u64 \<Rightarrow> u64 \<Rightarrow> nat \<Rightarrow> chunk_ref list \<Rightarrow> u64 \<Rightarrow>
    chunk_cache option \<Rightarrow> read_stats \<Rightarrow> bytes \<Rightarrow> u64 \<Rightarrow>
    chunk_cache option \<times> bytes \<times> (object_error + (u64 \<times> read_stats))" where
  "range_loop B A R st m start end_at i [] off cache stats out written = (cache, out, Ok (written, stats))"
| "range_loop B A R st m start end_at i (c # cs) off cache stats out written =
    (let chunk_end = off + ucast (cr_len c) in
     if chunk_end \<le> start \<or> end_at \<le> off
     then range_loop B A R st m start end_at (Suc i) cs chunk_end cache stats out written
     else case open_chunk_plain B A (re_io R i) (re_cache R i) st m c cache stats of
            (cache', stats', Inl e) \<Rightarrow> (cache', out, Err e)
          | (cache', stats', Inr plain) \<Rightarrow>
              let lo = unat (saturating_sub start off);
                  hi = min (unat (saturating_sub end_at off)) (length plain)
              in if lo < hi
                 then (case re_sink R i of
                         Some e \<Rightarrow> (cache', out, Err (ObjIo e))
                       | None \<Rightarrow> range_loop B A R st m start end_at (Suc i) cs chunk_end cache' stats'
                                   (out @ take (hi - lo) (drop lo plain)) (written + of_nat (hi - lo)))
                 else range_loop B A R st m start end_at (Suc i) cs chunk_end cache' stats' out written)"

definition read_object_range ::
  "backend \<Rightarrow> aead \<Rightarrow> read_env \<Rightarrow> blob_store \<Rightarrow> manifest \<Rightarrow> u64 \<Rightarrow> u64 \<Rightarrow> chunk_cache option \<Rightarrow>
    chunk_cache option \<times> bytes \<times> (object_error + (u64 \<times> read_stats))" where
  "read_object_range B A R st m start end_at cache =
    (if mf_key_scheme m = IndexedRandom then (cache, [], Err (UnsupportedKeyScheme (mf_key_scheme m)))
     else case Manifest_validate m of
            Inl e \<Rightarrow> (cache, [], Err (ObjManifest e))
          | Inr _ \<Rightarrow>
              if start \<ge> end_at then (cache, [], Ok (0, ReadStats_default))
              else range_loop B A R st m start end_at 0 (mf_chunks m) 0 cache ReadStats_default [] 0)"

definition read_object ::
  "backend \<Rightarrow> aead \<Rightarrow> read_env \<Rightarrow> blob_store \<Rightarrow> manifest \<Rightarrow> bytes \<times> (object_error + u64)" where
  "read_object B A R st m =
    (case read_object_range B A R st m 0 (- 1) None of
       (_, out, r) \<Rightarrow> (out, rbind r (\<lambda>(n, _). Ok n)))"

end
