(* ===== verification/Dir_Manifest.thy ===== *)
theory Dir_Manifest
  imports Object
begin

text \<open>
  \<open>nas-store/src/tree.rs\<close>, the directory manifest: entries in ascending name order, a file with its
  chunk table inline, a subdirectory as the address of its manifest and the id its key derives
  from, a link as its target. The decoder is shown to accept exactly what the encoder emits for a
  well-formed directory.
\<close>

definition DIR_MAGIC :: bytes where
  "DIR_MAGIC = byte_str ''NASD''"

definition DIR_AAD :: bytes where
  "DIR_AAD = byte_str ''nas-tools/aad/dir/v1''"

datatype tree_error =
    TreeObject object_error
  | TreeStore store_error
  | TreeManifest manifest_error
  | TreeIo io_error
  | TreeCrypto crypto_error
  | TreeDecode decode_error
  | TreeBadMagic
  | BadEntry u8
  | UnsafeName bytes
  | DuplicateName bytes
  | RaggedEntries usize
  | NonCanonical string

datatype entry =
    EFile manifest
  | EDir addr bytes
  | ESymlink bytes

type_synonym dir_manifest = "(bytes, entry) btreemap"

definition name_is_safe :: "bytes \<Rightarrow> bool" where
  "name_is_safe name \<longleftrightarrow> name \<noteq> [] \<and> name \<noteq> byte_str ''.'' \<and> name \<noteq> byte_str ''..'' \<and>
    0x2F \<notin> set name \<and> 0x5C \<notin> set name \<and> 0 \<notin> set name"

definition safe_name :: "bytes \<Rightarrow> tree_error + unit" where
  "safe_name name = (if name_is_safe name then Ok () else Err (UnsafeName name))"

fun entry_payload :: "entry \<Rightarrow> tree_error + (u8 \<times> bytes)" where
  "entry_payload (EFile m) = rbind (map_err TreeManifest (Manifest_encode m)) (\<lambda>bs. Ok (0, bs))"
| "entry_payload (EDir a dir_id) = Ok (1, a @ dir_id)"
| "entry_payload (ESymlink target) =
    (if target = [] then Err (NonCanonical ''empty symlink target'') else Ok (2, target))"

fun entries_fields :: "(bytes \<times> entry) list \<Rightarrow> tree_error + bytes list" where
  "entries_fields [] = Ok []"
| "entries_fields ((name, e) # rest) =
    rbind (safe_name name) (\<lambda>_.
    rbind (entry_payload e) (\<lambda>(k, p).
    rbind (entries_fields rest) (\<lambda>fs. Ok (name # [k] # p # fs))))"

definition DirManifest_encode :: "dir_manifest \<Rightarrow> tree_error + bytes" where
  "DirManifest_encode dm =
    rbind (entries_fields dm) (\<lambda>fs. map_err TreeDecode (encode_fields (DIR_MAGIC # fs)))"

text \<open>The \<open>match kind[0]\<close> of \<open>decode\<close>, with the set of directory ids seen so far.\<close>

definition decode_entry :: "u8 \<Rightarrow> bytes \<Rightarrow> bytes btreeset \<Rightarrow> tree_error + (entry \<times> bytes btreeset)" where
  "decode_entry kind payload dir_ids =
    (if kind = 0 then rbind (map_err TreeManifest (Manifest_decode payload)) (\<lambda>m. Ok (EFile m, dir_ids))
     else if kind = 1 then
       (if length payload < ADDR_LEN then Err (BadEntry 1)
        else let dir_id = drop ADDR_LEN payload in
          if dir_id = [] then Err (NonCanonical ''empty dir_id'')
          else if dir_id \<in> set dir_ids then Err (NonCanonical ''two sibling directories share a dir_id'')
          else Ok (EDir (take ADDR_LEN payload) dir_id, bts_insert dir_id dir_ids))
     else if kind = 2 then
       (if payload = [] then Err (NonCanonical ''empty symlink target'') else Ok (ESymlink payload, dir_ids))
     else Err (BadEntry kind))"

fun decode_dir_entries ::
  "bytes list \<Rightarrow> bytes option \<Rightarrow> bytes btreeset \<Rightarrow> dir_manifest \<Rightarrow> tree_error + dir_manifest" where
  "decode_dir_entries (name # kind # payload # rest) prev dir_ids entries =
    rbind (safe_name name) (\<lambda>_.
    if (case prev of None \<Rightarrow> False | Some p \<Rightarrow> name \<le> p)
    then Err (NonCanonical ''entries are not in ascending name order'')
    else if length kind \<noteq> 1 then Err (NonCanonical ''kind field is not one byte'')
    else rbind (decode_entry (hd kind) payload dir_ids) (\<lambda>(e, dir_ids').
      if btm_get entries name \<noteq> None then Err (DuplicateName name)
      else decode_dir_entries rest (Some name) dir_ids' (btm_insert name e entries)))"
| "decode_dir_entries _ prev dir_ids entries = Ok entries"

definition DirManifest_decode :: "bytes \<Rightarrow> tree_error + dir_manifest" where
  "DirManifest_decode bs =
    rbind (map_err TreeDecode (decode_fields bs)) (\<lambda>f.
    if f = [] \<or> hd f \<noteq> DIR_MAGIC then Err TreeBadMagic
    else if \<not> 3 dvd length f - 1 then Err (RaggedEntries (length f - 1))
    else decode_dir_entries (tl f) None [] [])"

section \<open>Well-formed directories\<close>

fun wf_entry :: "entry \<Rightarrow> bool" where
  "wf_entry (EFile m) = wf_Manifest m"
| "wf_entry (EDir a dir_id) = (arr ADDR_LEN a \<and> dir_id \<noteq> [])"
| "wf_entry (ESymlink target) = (target \<noteq> [])"

fun entry_dir_ids :: "entry \<Rightarrow> bytes list" where
  "entry_dir_ids (EDir a dir_id) = [dir_id]"
| "entry_dir_ids _ = []"

definition wf_dir :: "dir_manifest \<Rightarrow> bool" where
  "wf_dir dm \<longleftrightarrow> btm_inv dm \<and> list_all (\<lambda>(n, e). name_is_safe n \<and> wf_entry e) dm \<and>
    distinct (concat (map (entry_dir_ids \<circ> snd) dm))"

lemma safe_name_Inr_iff [result_elims]: "safe_name n = Inr u \<longleftrightarrow> name_is_safe n"
  by (simp add: safe_name_def)

lemma decode_entry_iff:
  "decode_entry k p ids = Inr (e, ids') \<longleftrightarrow> wf_entry e \<and> entry_payload e = Inr (k, p) \<and>
    set (entry_dir_ids e) \<inter> set ids = {} \<and> ids' = fold bts_insert (entry_dir_ids e) ids"
proof (cases e)
  case (EFile m)
  have "Manifest_decode p = Inr m \<longleftrightarrow> wf_Manifest m \<and> Manifest_encode m = Inr p"
    unfolding Manifest_decode_def Manifest_encode_def by (rule manifest.dec_iff)
  then show ?thesis using EFile by (auto simp: decode_entry_def result_elims Let_def)
next
  case (EDir a i)
  have "ADDR_LEN \<le> length p \<and> take ADDR_LEN p = a \<and> drop ADDR_LEN p = i \<longleftrightarrow> arr ADDR_LEN a \<and> p = a @ i"
    by auto
  then show ?thesis using EDir by (auto simp: decode_entry_def result_elims Let_def not_less)
next
  case (ESymlink t)
  then show ?thesis by (auto simp: decode_entry_def result_elims Let_def)
qed

lemma btm_insert_greatest: "\<forall>k \<in> fst ` set m. k < n \<Longrightarrow> btm_insert n v m = m @ [(n, v)]"
  by (induction m) (auto dest: less_asym)

text \<open>What the loop accepts after the name \<open>prev\<close> and the ids \<open>ids\<close>.\<close>

fun wf_dir_entries :: "bytes option \<Rightarrow> bytes btreeset \<Rightarrow> (bytes \<times> entry) list \<Rightarrow> bool" where
  "wf_dir_entries prev ids [] = True"
| "wf_dir_entries prev ids ((n, e) # rest) \<longleftrightarrow>
    (case prev of None \<Rightarrow> True | Some p \<Rightarrow> p < n) \<and> wf_entry e \<and> set (entry_dir_ids e) \<inter> set ids = {} \<and>
    wf_dir_entries (Some n) (fold bts_insert (entry_dir_ids e) ids) rest"

lemma three_dvd_Suc3: "3 dvd Suc (Suc (Suc n)) \<longleftrightarrow> 3 dvd n"
  by presburger

lemma entries_fields_Nil: "entries_fields new = Inr [] \<longleftrightarrow> new = []"
  by (cases new) (auto simp: result_elims)

lemma decode_dir_entries_iff:
  "3 dvd length fs \<Longrightarrow> \<forall>k \<in> fst ` set es. case prev of None \<Rightarrow> False | Some p \<Rightarrow> k \<le> p \<Longrightarrow>
    decode_dir_entries fs prev ids es = Inr dm \<longleftrightarrow>
      (\<exists>new. dm = es @ new \<and> entries_fields new = Inr fs \<and> wf_dir_entries prev ids new)"
proof (induction fs prev ids es rule: decode_dir_entries.induct)
  case (1 name kind payload rest prev ids es)
  let ?asc = "case prev of None \<Rightarrow> True | Some p \<Rightarrow> p < name"
  have asc: "\<not> (case prev of None \<Rightarrow> False | Some p \<Rightarrow> name \<le> p) \<longleftrightarrow> ?asc" by (auto split: option.split)
  have dvd: "3 dvd length rest" using "1.prems"(1) by (simp add: three_dvd_Suc3)
  have below: "\<forall>k \<in> fst ` set es. k < name" if ?asc
    using that "1.prems"(2) by (auto split: option.splits)
  show ?case
  proof (cases "name_is_safe name \<and> ?asc \<and> length kind = 1")
    case False
    then have "\<not> (entries_fields new = Inr (name # kind # payload # rest) \<and> wf_dir_entries prev ids new)" for new
      by (cases new) (auto simp: result_elims)
    moreover have "decode_dir_entries (name # kind # payload # rest) prev ids es \<noteq> Inr dm"
      using False asc by (auto simp: safe_name_def)
    ultimately show ?thesis by blast
  next
    case True
    then obtain k where k: "kind = [k]" by (auto simp: length_Suc_conv)
    have get: "btm_get es name = None" using below True by (force simp: map_of_eq_None_iff)
    have step: "decode_dir_entries (name # kind # payload # rest) prev ids es = Inr dm \<longleftrightarrow>
      (\<exists>e ids'. decode_entry k payload ids = Inr (e, ids') \<and> decode_dir_entries rest (Some name) ids' (es @ [(name, e)]) = Inr dm)"
      using True asc get below by (simp add: k safe_name_def rbind_Inr_iff btm_insert_greatest split: prod.split)
    have IH: "decode_dir_entries rest (Some name) ids' (es @ [(name, e)]) = Inr dm \<longleftrightarrow>
      (\<exists>new. dm = (es @ [(name, e)]) @ new \<and> entries_fields new = Inr rest \<and> wf_dir_entries (Some name) ids' new)"
      if "decode_entry k payload ids = Inr (e, ids')" for e ids'
    proof -
      have "\<forall>k \<in> fst ` set (btm_insert name e es). k \<le> name" using below True by (auto simp: less_imp_le)
      then show ?thesis
        using "1.IH" True asc get below dvd that
        by (simp add: k safe_name_def btm_insert_greatest)
    qed
    have new: "(\<exists>new. dm = es @ new \<and> entries_fields new = Inr (name # kind # payload # rest) \<and> wf_dir_entries prev ids new) \<longleftrightarrow>
      (\<exists>e new. dm = es @ (name, e) # new \<and> entry_payload e = Inr (k, payload) \<and> entries_fields new = Inr rest \<and>
         wf_entry e \<and> set (entry_dir_ids e) \<inter> set ids = {} \<and> wf_dir_entries (Some name) (fold bts_insert (entry_dir_ids e) ids) new)"
      (is "?l \<longleftrightarrow> ?r")
    proof
      assume ?l
      then obtain new where n: "dm = es @ new" "entries_fields new = Inr (name # kind # payload # rest)" "wf_dir_entries prev ids new"
        by blast
      then obtain e new' where "new = (name, e) # new'" by (cases new) (auto simp: result_elims)
      with n show ?r by (auto simp: result_elims k)
    next
      assume ?r
      then obtain e new where "dm = es @ (name, e) # new" "entry_payload e = Inr (k, payload)" "entries_fields new = Inr rest"
        "wf_entry e" "set (entry_dir_ids e) \<inter> set ids = {}" "wf_dir_entries (Some name) (fold bts_insert (entry_dir_ids e) ids) new"
        by blast
      with True show ?l by (intro exI [of _ "(name, e) # new"]) (simp add: safe_name_def k)
    qed
    show ?thesis unfolding step new using IH by (auto simp: decode_entry_iff)
  qed
qed (auto simp: entries_fields_Nil dest: dvd_imp_le)

lemma wf_dir_entries_iff:
  "bts_inv ids \<Longrightarrow> wf_dir_entries prev ids es \<longleftrightarrow> sorted_wrt (<) (map fst es) \<and>
    (case prev of None \<Rightarrow> True | Some p \<Rightarrow> \<forall>k \<in> fst ` set es. p < k) \<and> list_all (wf_entry \<circ> snd) es \<and>
    distinct (concat (map (entry_dir_ids \<circ> snd) es)) \<and> set (concat (map (entry_dir_ids \<circ> snd) es)) \<inter> set ids = {}"
proof (induction prev ids es rule: wf_dir_entries.induct)
  case (1 prev ids)
  then show ?case by (simp split: option.split)
next
  case (2 prev ids n e rest)
  have ids: "set (fold bts_insert (entry_dir_ids e) ids) = set (entry_dir_ids e) \<union> set ids"
    "bts_inv (fold bts_insert (entry_dir_ids e) ids)"
    using 2(2) by (simp_all add: bts.set_fold_insert bts.inv_fold_insert)
  have d: "distinct (entry_dir_ids e)" by (cases e) auto
  show ?case
    using 2(1) [OF ids(2)] ids(1) d by (auto split: option.splits intro: less_trans)
qed

interpretation dir_manifest: codec DirManifest_encode DirManifest_decode wf_dir
proof
  fix bs and dm :: dir_manifest
  have ent: "decode_dir_entries fs None [] [] = Inr dm \<longleftrightarrow> entries_fields dm = Inr fs \<and> wf_dir dm" if "3 dvd length fs" for fs
  proof -
    have "list_all (\<lambda>(n, e). name_is_safe n) dm" if "entries_fields dm = Inr fs"
      using that by (induction dm arbitrary: fs rule: entries_fields.induct) (auto simp: result_elims)
    then show ?thesis
      using decode_dir_entries_iff [OF that, of "[]" None "[]" dm] wf_dir_entries_iff [of "[]" None dm]
      by (auto simp: wf_dir_def list_all_iff)
  qed
  have len: "3 dvd length fs" if "entries_fields es = Inr fs" for es fs
    using that by (induction es arbitrary: fs rule: entries_fields.induct) (auto simp: result_elims three_dvd_Suc3)
  show "DirManifest_decode bs = Inr dm \<longleftrightarrow> wf_dir dm \<and> DirManifest_encode dm = Inr bs" (is "?l \<longleftrightarrow> ?r")
  proof
    assume ?l
    then obtain f where f: "decode_fields bs = Inr f" "f \<noteq> []" "hd f = DIR_MAGIC" "3 dvd length f - 1"
      "decode_dir_entries (tl f) None [] [] = Inr dm"
      by (auto simp: DirManifest_decode_def result_elims split: if_splits)
    then have "entries_fields dm = Inr (tl f)" "wf_dir dm" using ent [of "tl f"] by auto
    moreover have "encode_fields (DIR_MAGIC # tl f) = Inr bs"
      using f(1,2,3) fields.canonical by (metis list.collapse)
    ultimately show ?r by (simp add: DirManifest_encode_def)
  next
    assume r: ?r
    then obtain fs where fs: "entries_fields dm = Inr fs" "encode_fields (DIR_MAGIC # fs) = Inr bs"
      by (auto simp: DirManifest_encode_def result_elims)
    then have "decode_fields bs = Inr (DIR_MAGIC # fs)" by (simp add: fields.dec_iff)
    then show ?l using ent [OF len [OF fs(1)]] fs(1) r len [OF fs(1)] by (simp add: DirManifest_decode_def)
  qed
qed

text \<open>
  A directory has one encoding and only that is read: the decoder accepts exactly the encodings of
  directories whose names are safe and strictly ascending, whose subdirectory ids are non-empty
  and pairwise distinct, whose links have a target and whose inline manifests are well-formed.
\<close>

theorem dir_manifest_decode_iff: "DirManifest_decode bs = Ok dm \<longleftrightarrow> wf_dir dm \<and> DirManifest_encode dm = Ok bs"
  by (rule dir_manifest.dec_iff)

end
