(* ===== verification/Tree.thy ===== *)
theory Tree
  imports Dir_Manifest
begin

text \<open>
  \<open>nas-store/src/tree.rs\<close>, storing and restoring whole trees. The source directory is the datatype
  \<open>src\<close>: what listing it, typing its entries, reading its links and opening its files return, in the
  order \<open>read_dir\<close> lists them. The destination is the datatype \<open>dst\<close>, an existing tree that a restore
  changes. Recursion on a stored tree follows addresses, so \<open>read_dir_to\<close> has fuel, and enough fuel
  is part of what is proved.
\<close>

section \<open>Storing a tree\<close>

datatype 'n dirent =
    EntryFails io_error
  | TypeFails bytes io_error
  | IsLink bytes "io_error + bytes"
  | IsNode bytes 'n

datatype src =
    SrcFile "io_error + io_error reader"
  | SrcDir "io_error option" "src dirent list"

record tree_store =
  ts_sealer :: sealer
  ts_profile :: padding_profile
  ts_cfg :: chunker_config

definition TreeStore_new :: "sealer \<Rightarrow> padding_profile \<Rightarrow> tree_store" where
  "TreeStore_new slr profile =
    \<lparr>ts_sealer = slr, ts_profile = profile, ts_cfg = ChunkerConfig_for_profile profile ChunkerConfig_default\<rparr>"

definition TreeStore_convergent :: "bytes \<Rightarrow> padding_profile \<Rightarrow> tree_store" where
  "TreeStore_convergent cs profile = TreeStore_new (SealConvergent cs) profile"

definition put_dir_manifest ::
  "backend \<Rightarrow> aead \<Rightarrow> os \<Rightarrow> tree_store \<Rightarrow> bytes \<Rightarrow> bytes \<Rightarrow> disk \<Rightarrow> disk \<times> (tree_error + addr)" where
  "put_dir_manifest B A S ts dir plain d =
    (case ts_sealer ts of
       SealConvergent _ \<Rightarrow>
         (case seal A (os_nonce S (dk_tick d)) (manifest_key B dir) plain DIR_AAD of
            Inl e \<Rightarrow> (d, Err (TreeCrypto e))
          | Inr sealed \<Rightarrow> (case disk_put B S d sealed of (d', r) \<Rightarrow> (d', map_err TreeStore r)))
     | SealPlaintext _ \<Rightarrow> (case disk_put B S d plain of (d', r) \<Rightarrow> (d', map_err TreeStore r)))"

definition read_dir_manifest ::
  "backend \<Rightarrow> aead \<Rightarrow> io_env \<Rightarrow> tree_store \<Rightarrow> blob_store \<Rightarrow> bytes \<Rightarrow> addr \<Rightarrow> tree_error + dir_manifest" where
  "read_dir_manifest B A io ts st dir a =
    rbind (map_err TreeStore (BlobStore_get B io st a)) (\<lambda>stored.
    case ts_sealer ts of
      SealConvergent _ \<Rightarrow>
        rbind (map_err TreeCrypto (key_open B A (manifest_key B dir) stored DIR_AAD)) DirManifest_decode
    | SealPlaintext _ \<Rightarrow> DirManifest_decode stored)"

text \<open>The previous manifest, absent where it cannot be read; the call counts as one of the disk's.\<close>

definition read_old ::
  "backend \<Rightarrow> aead \<Rightarrow> os \<Rightarrow> tree_store \<Rightarrow> bytes \<Rightarrow> addr option \<Rightarrow> disk \<Rightarrow> disk \<times> dir_manifest option" where
  "read_old B A S ts dir prev d =
    (case prev of
       None \<Rightarrow> (d, None)
     | Some a \<Rightarrow> (d\<lparr>dk_tick := Suc (dk_tick d)\<rparr>,
         case read_dir_manifest B A (os_io S (dk_tick d)) ts (dk_store d) dir a of Inl _ \<Rightarrow> None | Inr dm \<Rightarrow> Some dm))"

text \<open>The first loop: links go straight into the manifest, files and directories are collected.\<close>

fun list_source :: "src dirent list \<Rightarrow> dir_manifest \<Rightarrow> (bytes \<times> src) list \<Rightarrow> tree_error + (dir_manifest \<times> (bytes \<times> src) list)" where
  "list_source [] dm names = Ok (dm, names)"
| "list_source (EntryFails e # es) dm names = Err (TreeIo e)"
| "list_source (TypeFails name e # es) dm names = rbind (safe_name name) (\<lambda>_. Err (TreeIo e))"
| "list_source (IsLink name target # es) dm names =
    rbind (safe_name name) (\<lambda>_.
    rbind (map_err TreeIo target) (\<lambda>t. list_source es (btm_insert name (ESymlink t) dm) names))"
| "list_source (IsNode name n # es) dm names =
    rbind (safe_name name) (\<lambda>_. list_source es dm (names @ [(name, n)]))"

definition old_child :: "dir_manifest option \<Rightarrow> bytes \<Rightarrow> addr option" where
  "old_child old name =
    (case old of None \<Rightarrow> None
     | Some o' \<Rightarrow> (case btm_get o' name of Some (EDir a _) \<Rightarrow> Some a | _ \<Rightarrow> None))"

text \<open>The end of \<open>write_dir_incremental\<close>: keep the old address, or store the new manifest.\<close>

definition finish_dir ::
  "backend \<Rightarrow> aead \<Rightarrow> os \<Rightarrow> tree_store \<Rightarrow> bytes \<Rightarrow> addr option \<Rightarrow> dir_manifest option \<Rightarrow> dir_manifest \<Rightarrow> disk \<Rightarrow>
    disk \<times> (tree_error + addr)" where
  "finish_dir B A S ts dir prev old dm d =
    (case (old, prev) of
       (Some o', Some a) \<Rightarrow>
         if o' = dm then (d, Ok a)
         else (case DirManifest_encode dm of Inl e \<Rightarrow> (d, Err e) | Inr plain \<Rightarrow> put_dir_manifest B A S ts dir plain d)
     | _ \<Rightarrow> (case DirManifest_encode dm of Inl e \<Rightarrow> (d, Err e) | Inr plain \<Rightarrow> put_dir_manifest B A S ts dir plain d))"

lemma list_source_size:
  "list_source es dm names = Inr (dm', names') \<Longrightarrow>
    size_list (\<lambda>x. size (snd x)) names' \<le> size_list (size_dirent size) es + size_list (\<lambda>x. size (snd x)) names"
proof (induction es dm names rule: list_source.induct)
  case (5 name n es dm names)
  then have "size_list (\<lambda>x. size (snd x)) names' \<le> size_list (size_dirent size) es + size_list (\<lambda>x. size (snd x)) (names @ [(name, n)])"
    by (auto simp: result_elims)
  also have "size_list (\<lambda>x. size (snd x)) (names @ [(name, n)]) = size_list (\<lambda>x. size (snd x)) names + Suc (size n)"
    by (induction names) auto
  finally show ?case by simp
qed (auto simp: result_elims intro!: le_SucI)

lemma size_list_insort [simp]: "size_list f (insort_key k x xs) = Suc (f x + size_list f xs)"
  by (induction xs) auto

lemma size_list_sort_key [simp]: "size_list f (sort_key k xs) = size_list f xs"
  by (induction xs) (simp_all add: sort_key_def)

function write_dir_incremental ::
  "u64 list \<Rightarrow> backend \<Rightarrow> aead \<Rightarrow> os \<Rightarrow> tree_store \<Rightarrow> bytes \<Rightarrow> io_error option \<Rightarrow> src dirent list \<Rightarrow> addr option \<Rightarrow>
    disk \<Rightarrow> (disk \<times> (tree_error + addr)) option"
and write_entries ::
  "u64 list \<Rightarrow> backend \<Rightarrow> aead \<Rightarrow> os \<Rightarrow> tree_store \<Rightarrow> object_writer \<Rightarrow> bytes \<Rightarrow> dir_manifest option \<Rightarrow>
    (bytes \<times> src) list \<Rightarrow> dir_manifest \<Rightarrow> disk \<Rightarrow> (disk \<times> (tree_error + dir_manifest)) option" where
  "write_dir_incremental g B A S ts dir err listing prev d =
    (case read_old B A S ts dir prev d of (d0, old) \<Rightarrow>
     case ObjectWriter_new (ts_sealer ts) (ts_profile ts) (ts_cfg ts) of
       Inl e \<Rightarrow> Some (d0, Err (TreeObject e))
     | Inr w \<Rightarrow>
     case err of
       Some e \<Rightarrow> Some (d0, Err (TreeIo e))
     | None \<Rightarrow>
     case list_source listing [] [] of
       Inl e \<Rightarrow> Some (d0, Err e)
     | Inr (links, names) \<Rightarrow>
     case write_entries g B A S ts w dir old (sort_key fst names) links d0 of
       None \<Rightarrow> None
     | Some (d', Inl e) \<Rightarrow> Some (d', Err e)
     | Some (d', Inr dm) \<Rightarrow> Some (finish_dir B A S ts dir prev old dm d'))"
| "write_entries g B A S ts w dir old [] dm d = Some (d, Ok dm)"
| "write_entries g B A S ts w dir old ((name, SrcDir err listing) # rest) dm d =
    (case write_dir_incremental g B A S ts (DirSecret_child B dir name) err listing (old_child old name) d of
       None \<Rightarrow> None
     | Some (d', Inl e) \<Rightarrow> Some (d', Err e)
     | Some (d', Inr a) \<Rightarrow> write_entries g B A S ts w dir old rest (btm_insert name (EDir a name) dm) d')"
| "write_entries g B A S ts w dir old ((name, SrcFile rd) # rest) dm d =
    (case rd of
       Inl e \<Rightarrow> Some (d, Err (TreeIo e))
     | Inr reader \<Rightarrow>
     case ObjectWriter_write g B A S w d File reader of
       None \<Rightarrow> None
     | Some (d', Inl e) \<Rightarrow> Some (d', Err (TreeObject e))
     | Some (d', Inr m) \<Rightarrow> write_entries g B A S ts w dir old rest (btm_insert name (EFile m) dm) d')"
  by pat_completeness auto

termination
proof (relation "measure (\<lambda>x. case x of
    Inl (g, B, A, S, ts, dir, err, listing, prev, d) \<Rightarrow> 2 * size_list (size_dirent size) listing + 1
  | Inr (g, B, A, S, ts, w, dir, old, names, dm, d) \<Rightarrow> 2 * size_list (\<lambda>x. size (snd x)) names)")
qed (auto dest!: list_source_size)

definition write_dir ::
  "u64 list \<Rightarrow> backend \<Rightarrow> aead \<Rightarrow> os \<Rightarrow> tree_store \<Rightarrow> bytes \<Rightarrow> io_error option \<Rightarrow> src dirent list \<Rightarrow>
    disk \<Rightarrow> (disk \<times> (tree_error + addr)) option" where
  "write_dir g B A S ts dir err listing d = write_dir_incremental g B A S ts dir err listing None d"

section \<open>Restoring a tree\<close>

datatype dst =
    DFile bytes
  | DLink bytes
  | DDir "(bytes, dst) btreemap"

definition EEXIST :: io_error where "EEXIST = 17"
definition EISDIR :: io_error where "EISDIR = 21"

text \<open>What the calls made for the entry at a path meet.\<close>

record restore_io =
  ri_get :: io_env
  ri_mkdir :: "io_error option"
  ri_unlink :: "io_error option"
  ri_create :: "io_error option"
  ri_read :: read_env

definition make_symlink :: "restore_io \<Rightarrow> bytes \<Rightarrow> dst option \<Rightarrow> dst option \<times> (tree_error + unit)" where
  "make_symlink io target cur =
    (case cur of
       Some (DFile _) \<Rightarrow>
         (case ri_unlink io of
            Some e \<Rightarrow> (cur, Err (TreeIo e))
          | None \<Rightarrow> (case ri_create io of Some e \<Rightarrow> (None, Err (TreeIo e)) | None \<Rightarrow> (Some (DLink target), Ok ())))
     | Some _ \<Rightarrow> (cur, Err (TreeIo EEXIST))
     | None \<Rightarrow> (case ri_create io of Some e \<Rightarrow> (cur, Err (TreeIo e)) | None \<Rightarrow> (Some (DLink target), Ok ())))"

definition restore_file ::
  "backend \<Rightarrow> aead \<Rightarrow> restore_io \<Rightarrow> blob_store \<Rightarrow> manifest \<Rightarrow> dst option \<Rightarrow> dst option \<times> (tree_error + unit)" where
  "restore_file B A io st m cur =
    (case cur of
       Some (DDir _) \<Rightarrow> (cur, Err (TreeIo EISDIR))
     | _ \<Rightarrow>
         (case ri_create io of
            Some e \<Rightarrow> (cur, Err (TreeIo e))
          | None \<Rightarrow>
              (case read_object B A (ri_read io) st m of
                 (out, r) \<Rightarrow> (Some (DFile out), rbind (map_err TreeObject r) (\<lambda>_. Ok ())))))"

text \<open>\<open>create_dir_all\<close> on what is at the path; a link there was removed by the caller.\<close>

definition create_dir_all :: "restore_io \<Rightarrow> dst option \<Rightarrow> tree_error + (bytes, dst) btreemap" where
  "create_dir_all io cur =
    (case cur of
       Some (DDir c) \<Rightarrow> Ok c
     | Some _ \<Rightarrow> Err (TreeIo EEXIST)
     | None \<Rightarrow> (case ri_mkdir io of Some e \<Rightarrow> Err (TreeIo e) | None \<Rightarrow> Ok []))"

definition put_node :: "bytes \<Rightarrow> dst option \<Rightarrow> (bytes, dst) btreemap \<Rightarrow> (bytes, dst) btreemap" where
  "put_node name n c = (case n of None \<Rightarrow> btm_remove name c | Some t \<Rightarrow> btm_insert name t c)"

text \<open>
  The loop over the entries. \<open>up\<close> says that the destination path itself has a \<open>..\<close> component, which
  the check on \<open>out.components()\<close> refuses; \<open>child\<close> restores a subdirectory.
\<close>

fun restore_entries ::
  "(bytes \<Rightarrow> addr \<Rightarrow> bytes list \<Rightarrow> dst option \<Rightarrow> (dst option \<times> (tree_error + unit)) option) \<Rightarrow>
    backend \<Rightarrow> aead \<Rightarrow> (bytes list \<Rightarrow> restore_io) \<Rightarrow> blob_store \<Rightarrow> bool \<Rightarrow> bytes \<Rightarrow> bytes list \<Rightarrow>
    (bytes \<times> entry) list \<Rightarrow> (bytes, dst) btreemap \<Rightarrow> ((bytes, dst) btreemap \<times> (tree_error + unit)) option" where
  "restore_entries child B A env st up dir path [] c = Some (c, Ok ())"
| "restore_entries child B A env st up dir path ((name, e) # rest) c =
    (case safe_name name of
       Inl er \<Rightarrow> Some (c, Err er)
     | Inr _ \<Rightarrow>
     if up then Some (c, Err (UnsafeName name))
     else
       let out = path @ [name]; io = env out; cur = btm_get c name;
           is_link = (case cur of Some (DLink _) \<Rightarrow> True | _ \<Rightarrow> False)
       in if is_link \<and> ri_unlink io \<noteq> None then Some (c, Err (TreeIo (the (ri_unlink io))))
          else
            let cur' = (if is_link then None else cur); c' = (if is_link then btm_remove name c else c) in
            case (case e of
                    EFile m \<Rightarrow> Some (restore_file B A io st m cur')
                  | EDir a dir_id \<Rightarrow> child (DirSecret_child B dir dir_id) a out cur'
                  | ESymlink target \<Rightarrow> Some (make_symlink io target cur')) of
              None \<Rightarrow> None
            | Some (n, Inl er) \<Rightarrow> Some (put_node name n c', Err er)
            | Some (n, Inr _) \<Rightarrow> restore_entries child B A env st up dir path rest (put_node name n c'))"

fun read_dir_to ::
  "nat \<Rightarrow> backend \<Rightarrow> aead \<Rightarrow> (bytes list \<Rightarrow> restore_io) \<Rightarrow> tree_store \<Rightarrow> blob_store \<Rightarrow> bool \<Rightarrow> bytes \<Rightarrow> addr \<Rightarrow>
    bytes list \<Rightarrow> dst option \<Rightarrow> (dst option \<times> (tree_error + unit)) option" where
  "read_dir_to 0 B A env ts st up dir a path cur = None"
| "read_dir_to (Suc fuel) B A env ts st up dir a path cur =
    (case read_dir_manifest B A (ri_get (env path)) ts st dir a of
       Inl e \<Rightarrow> Some (cur, Err e)
     | Inr dm \<Rightarrow>
     case create_dir_all (env path) cur of
       Inl e \<Rightarrow> Some (cur, Err e)
     | Inr c \<Rightarrow>
         map_option (\<lambda>(c', r). (Some (DDir c'), r))
           (restore_entries (read_dir_to fuel B A env ts st up) B A env st up dir path dm c))"

end
