(* ===== verification/Object_Props.thy ===== *)
theory Object_Props
  imports Object
begin

text \<open>
  Properties of the object pipeline: reading back what was written, whole or by range, with or
  without the cache; detection of substituted chunks; deduplication. The vocabulary is the
  invariant \<open>disk_ok\<close> of a store that accumulates blobs, its growth \<open>extends\<close>, and \<open>separates\<close>,
  which says that the byte strings put have distinct addresses.
\<close>

section \<open>What a store accumulates\<close>

text \<open>
  Every file that verifies was put, and every string that was put has a verifying file under its
  address. Whether that file holds the very string is a question of collisions among the strings
  put, which \<open>addr_of\<close> has to separate.
\<close>

definition disk_ok :: "backend \<Rightarrow> disk \<Rightarrow> bool" where
  "disk_ok B d \<longleftrightarrow> (let ad = bs_addressing (dk_store d); files = btm_get (bs_files (dk_store d)) in
    (\<forall>a f. files a = Some f \<and> addr_of B ad (bf_bytes f) = a \<longrightarrow> bf_bytes f \<in> set (dk_puts d)) \<and>
    (\<forall>bs \<in> set (dk_puts d). \<exists>f. files (addr_of B ad bs) = Some f \<and> addr_of B ad (bf_bytes f) = addr_of B ad bs))"

definition separates :: "backend \<Rightarrow> disk \<Rightarrow> bool" where
  "separates B d \<longleftrightarrow> inj_on (addr_of B (bs_addressing (dk_store d))) (set (dk_puts d))"

definition extends :: "backend \<Rightarrow> disk \<Rightarrow> disk \<Rightarrow> bool" where
  "extends B d d' \<longleftrightarrow> bs_addressing (dk_store d') = bs_addressing (dk_store d) \<and>
    set (dk_puts d) \<subseteq> set (dk_puts d') \<and> (disk_ok B d \<longrightarrow> disk_ok B d')"

definition hash_widths :: "backend \<Rightarrow> bool" where
  "hash_widths B \<longleftrightarrow> (\<forall>x. length (blake3 B x) = 32) \<and> (\<forall>k x. length (keyed_hash B k x) = 32)"

lemma addr_of_width: "hash_widths B \<Longrightarrow> arr ADDR_LEN (addr_of B ad bs)"
  by (cases ad) (auto simp: hash_widths_def of_ciphertext_def ADDR_LEN_def)

lemma extends_refl [simp]: "extends B d d"
  by (simp add: extends_def)

lemma extends_trans: "extends B d d' \<Longrightarrow> extends B d' d'' \<Longrightarrow> extends B d d''"
  by (auto simp: extends_def)

lemma put_file:
  assumes "BlobStore_put B io st bs = (st', Ok a)"
  shows "a = addr_of B (bs_addressing st) bs \<and> bs_addressing st' = bs_addressing st \<and>
    (\<exists>f. btm_get (bs_files st') = (btm_get (bs_files st))(a \<mapsto> f) \<and> addr_of B (bs_addressing st) (bf_bytes f) = a \<and>
      (bf_bytes f = bs \<or> (\<exists>g. btm_get (bs_files st) a = Some g \<and> bf_bytes g = bf_bytes f)))"
  using assms
  by (auto simp: BlobStore_put_def Let_def touch_path_def Addressing_verifies_def
      split: option.splits if_splits)

lemma disk_put_extends:
  assumes "disk_put B S d bs = (d', r)"
  shows "extends B d d'" and "r = Ok a \<Longrightarrow> a = addr_of B (bs_addressing (dk_store d')) bs \<and> bs \<in> set (dk_puts d')"
proof -
  obtain st r0 where put: "BlobStore_put B (os_io S (dk_tick d)) (dk_store d) bs = (st, r0)" by fastforce
  have "extends B d d' \<and> (\<forall>a. r = Ok a \<longrightarrow> a = addr_of B (bs_addressing (dk_store d')) bs \<and> bs \<in> set (dk_puts d'))"
  proof (cases r0)
    case (Inl e)
    then have "st = dk_store d" using put_cases(3) [OF put] by simp
    then show ?thesis using assms put Inl by (auto simp: disk_put_def extends_def disk_ok_def Let_def)
  next
    case (Inr a)
    then have d': "d' = \<lparr>dk_store = st, dk_tick = Suc (dk_tick d), dk_puts = bs # dk_puts d\<rparr>" "r = Ok a"
      using assms put by (auto simp: disk_put_def)
    obtain f where f: "a = addr_of B (bs_addressing (dk_store d)) bs" "bs_addressing st = bs_addressing (dk_store d)"
      "btm_get (bs_files st) = (btm_get (bs_files (dk_store d)))(a \<mapsto> f)"
      "addr_of B (bs_addressing (dk_store d)) (bf_bytes f) = a"
      "bf_bytes f = bs \<or> (\<exists>g. btm_get (bs_files (dk_store d)) a = Some g \<and> bf_bytes g = bf_bytes f)"
      using put_file [OF put [unfolded Inr]] by blast
    have "disk_ok B d'" if ok: "disk_ok B d"
    proof -
      have "bf_bytes f \<in> set (bs # dk_puts d)"
        using f(4,5) ok unfolding disk_ok_def Let_def by (metis list.set_intros)
      with ok f(4) show ?thesis
        unfolding disk_ok_def Let_def d' disk.simps f(2,3) by (auto simp: f(1) split: if_splits)
    qed
    then show ?thesis using f d' by (auto simp: extends_def)
  qed
  then show "extends B d d'" "r = Ok a \<Longrightarrow> a = addr_of B (bs_addressing (dk_store d')) bs \<and> bs \<in> set (dk_puts d')"
    by auto
qed

lemma disk_get:
  assumes "disk_ok B d" "separates B d" "bs \<in> set (dk_puts d)" "io_read io = None"
  shows "BlobStore_get B io (dk_store d) (addr_of B (bs_addressing (dk_store d)) bs) = Ok bs"
proof -
  let ?ad = "bs_addressing (dk_store d)"
  obtain f where f: "btm_get (bs_files (dk_store d)) (addr_of B ?ad bs) = Some f"
    "addr_of B ?ad (bf_bytes f) = addr_of B ?ad bs"
    using assms(1,3) by (auto simp: disk_ok_def Let_def)
  then have "bf_bytes f \<in> set (dk_puts d)" using assms(1) by (auto simp: disk_ok_def Let_def)
  then have "bf_bytes f = bs" using f(2) assms(2,3) by (auto simp: separates_def inj_on_def)
  with f assms(4) show ?thesis by (simp add: BlobStore_get_def Addressing_verifies_def)
qed

section \<open>What a written chunk guarantees\<close>

definition chunk_ok :: "backend \<Rightarrow> aead \<Rightarrow> object_writer \<Rightarrow> disk \<Rightarrow> chunk_ref \<Rightarrow> bytes \<Rightarrow> bool" where
  "chunk_ok B A w d c p \<longleftrightarrow> length p < 2 ^ 32 \<and> cr_len c = of_nat (length p) \<and> cr_pt_hash c = blake3 B p \<and>
    (\<exists>padded blob. pad (ow_profile w) p = Ok padded \<and> blob \<in> set (dk_puts d) \<and>
      cr_addr c = addr_of B (bs_addressing (dk_store d)) blob \<and>
      (case ow_sealer w of SealConvergent cs \<Rightarrow> seal_chunk B A cs padded CHUNK_AAD = Ok (blob, cr_ck c)
       | SealPlaintext _ \<Rightarrow> blob = padded \<and> cr_ck c = replicate KEY_LEN 0))"

lemma chunk_ok_extends: "chunk_ok B A w d c p \<Longrightarrow> extends B d d' \<Longrightarrow> chunk_ok B A w d' c p"
  unfolding chunk_ok_def extends_def by auto

lemma store_chunk_extends:
  assumes "store_chunk B A S slr d padded = (d', r)"
  shows "extends B d d'" and "r = Ok (a, ck) \<Longrightarrow> \<exists>blob. blob \<in> set (dk_puts d') \<and>
    a = addr_of B (bs_addressing (dk_store d')) blob \<and>
    (case slr of SealConvergent cs \<Rightarrow> seal_chunk B A cs padded CHUNK_AAD = Ok (blob, ck) | SealPlaintext _ \<Rightarrow> blob = padded \<and> ck = replicate KEY_LEN 0)"
proof -
  show "extends B d d'"
    using assms by (auto simp: store_chunk_def Let_def split: sealer.splits sum.splits prod.splits if_splits
        dest: disk_put_extends(1))
  assume r: "r = Ok (a, ck)"
  then obtain blob where "disk_put B S d blob = (d', Ok a)"
    "case slr of SealConvergent cs \<Rightarrow> seal_chunk B A cs padded CHUNK_AAD = Ok (blob, ck) | SealPlaintext _ \<Rightarrow> blob = padded \<and> ck = replicate KEY_LEN 0"
    using assms by (auto simp: store_chunk_def Let_def split: sealer.splits sum.splits prod.splits if_splits)
  then show "\<exists>blob. blob \<in> set (dk_puts d') \<and> a = addr_of B (bs_addressing (dk_store d')) blob \<and>
    (case slr of SealConvergent cs \<Rightarrow> seal_chunk B A cs padded CHUNK_AAD = Ok (blob, ck) | SealPlaintext _ \<Rightarrow> blob = padded \<and> ck = replicate KEY_LEN 0)"
    using disk_put_extends(2) by blast
qed

lemma write_chunk_extends:
  assumes "write_chunk B A S w p d m = (d', r)"
  shows "extends B d d'"
    and "r = Ok m' \<Longrightarrow> \<exists>c. chunk_ok B A w d' c p \<and>
      m' = m\<lparr>mf_chunks := mf_chunks m @ [c], mf_size := mf_size m + of_nat (length p)\<rparr>"
proof -
  show "extends B d d'"
    using assms by (auto simp: write_chunk_def split: sum.splits prod.splits if_splits dest: store_chunk_extends(1))
  assume r: "r = Ok m'"
  then obtain padded a ck where pad: "pad (ow_profile w) p = Ok padded"
    and st: "store_chunk B A S (ow_sealer w) d padded = (d', Ok (a, ck))" and len: "length p < 2 ^ 32"
    and m': "m' = m\<lparr>mf_chunks := mf_chunks m @
      [\<lparr>cr_addr = a, cr_ck = ck, cr_pt_hash = blake3 B p, cr_len = of_nat (length p)\<rparr>],
      mf_size := mf_size m + of_nat (length p)\<rparr>"
    using assms by (auto simp: write_chunk_def split: sum.splits prod.splits if_splits)
  have "chunk_ok B A w d' \<lparr>cr_addr = a, cr_ck = ck, cr_pt_hash = blake3 B p, cr_len = of_nat (length p)\<rparr> p"
    using store_chunk_extends(2) [OF st refl] pad len unfolding chunk_ok_def chunk_ref.simps by blast
  with m' show "\<exists>c. chunk_ok B A w d' c p \<and>
      m' = m\<lparr>mf_chunks := mf_chunks m @ [c], mf_size := mf_size m + of_nat (length p)\<rparr>" by blast
qed

text \<open>Writing a list of chunks; the streaming loop writes the chunks of \<open>split\<close>.\<close>

fun write_chunks ::
  "backend \<Rightarrow> aead \<Rightarrow> os \<Rightarrow> object_writer \<Rightarrow> bytes list \<Rightarrow> disk \<Rightarrow> manifest \<Rightarrow> disk \<times> (object_error + manifest)" where
  "write_chunks B A S w [] d m = (d, Ok m)"
| "write_chunks B A S w (p # ps) d m =
    (case write_chunk B A S w p d m of
       (d', Inl e) \<Rightarrow> (d', Err e)
     | (d', Inr m') \<Rightarrow> write_chunks B A S w ps d' m')"

lemma write_loop_split:
  "stream_inv s \<Longrightarrow> split g (st_ch s) (pending s) = Some ps \<Longrightarrow>
    write_loop g B A S w s d m = Some (write_chunks B A S w ps d m)"
proof (induction ps arbitrary: s d m)
  case Nil
  then have "pending s = []" using split_Some_step by blast
  then show ?case
    using Stream_next_ok [OF Nil.prems(1), of g] by (subst write_loop.simps) auto
next
  case (Cons p ps)
  then have ne: "pending s \<noteq> []" by (auto simp: split_Some_Nil)
  obtain s' where s': "stream_inv s'" "st_ch s' = st_ch s"
    "Stream_next g s = (s', Some (Ok (take (cut g (st_ch s) (pending s)) (pending s))))"
    "pending s' = drop (cut g (st_ch s) (pending s)) (pending s)"
    using Stream_next_ok [OF Cons.prems(1), of g] ne by auto
  have p: "p = take (cut g (st_ch s) (pending s)) (pending s)" and ps: "split g (st_ch s') (pending s') = Some ps"
    using Cons.prems(2) split_Some_step [OF ne] s'(2,4) by auto
  show ?case
    using Cons.IH [OF s'(1) ps] s'(3) p
    by (subst write_loop.simps) (auto split: prod.split sum.split)
qed

lemma write_chunks_extends:
  "write_chunks B A S w ps d m = (d', r) \<Longrightarrow> extends B d d' \<and>
    (\<forall>m'. r = Ok m' \<longrightarrow> (\<exists>cs. list_all2 (chunk_ok B A w d') cs ps \<and>
      m' = m\<lparr>mf_chunks := mf_chunks m @ cs, mf_size := mf_size m + of_nat (length (concat ps))\<rparr>))"
proof (induction ps arbitrary: d m)
  case Nil
  then show ?case by auto
next
  case (Cons p ps)
  obtain d1 r1 where w: "write_chunk B A S w p d m = (d1, r1)" by fastforce
  show ?case
  proof (cases r1)
    case (Inl e)
    then show ?thesis using Cons.prems w write_chunk_extends(1) [OF w] by auto
  next
    case (Inr m1)
    then obtain c where c: "chunk_ok B A w d1 c p"
      "m1 = m\<lparr>mf_chunks := mf_chunks m @ [c], mf_size := mf_size m + of_nat (length p)\<rparr>"
      using write_chunk_extends(2) [OF w] by blast
    have rest: "write_chunks B A S w ps d1 m1 = (d', r)" using Cons.prems w Inr by simp
    have ext: "extends B d1 d'" using Cons.IH [OF rest] by simp
    have "\<exists>cs. list_all2 (chunk_ok B A w d') cs (p # ps) \<and>
      m' = m\<lparr>mf_chunks := mf_chunks m @ cs, mf_size := mf_size m + of_nat (length (concat (p # ps)))\<rparr>"
      if r: "r = Ok m'" for m'
    proof -
      obtain cs where "list_all2 (chunk_ok B A w d') cs ps"
        "m' = m1\<lparr>mf_chunks := mf_chunks m1 @ cs, mf_size := mf_size m1 + of_nat (length (concat ps))\<rparr>"
        using Cons.IH [OF rest] r by blast
      then show ?thesis using c chunk_ok_extends [OF c(1) ext]
        by (intro exI [of _ "c # cs"]) (simp add: add.assoc)
    qed
    then show ?thesis using extends_trans [OF write_chunk_extends(1) [OF w] ext] by blast
  qed
qed

text \<open>A writer as the constructor makes it, for chunks whose window fits a \<open>usize\<close>.\<close>

definition writer_for :: "sealer \<Rightarrow> padding_profile \<Rightarrow> chunker_config \<Rightarrow> object_writer \<Rightarrow> bool" where
  "writer_for slr profile cfg w \<longleftrightarrow> ObjectWriter_new slr profile cfg = Ok w \<and> cc_max cfg < 2 ^ 62"

lemma writer_for_facts:
  assumes "writer_for slr profile cfg w"
  shows "chunker_ok (ow_chunker w)" "cc_max (ch_cfg (ow_chunker w)) < 2 ^ 62" "ow_sealer w = slr" "ow_profile w = profile"
  using assms by (auto simp: writer_for_def ObjectWriter_new_def result_elims split: option.splits if_splits dest!: Chunker_new_ok)

lemma write_is_write_chunks:
  assumes "writer_for slr profile cfg w" and "reads_ok rs"
  shows "\<exists>ps. split g (ow_chunker w) (concat (map projr rs)) = Some ps \<and>
    ObjectWriter_write g B A S w d k rs = Some (case write_chunks B A S w ps d (Manifest_new k (Sealer_key_scheme (ow_sealer w)) (ow_profile w)) of
      (d', r) \<Rightarrow> (d', rbind r (\<lambda>m. rbind (map_err ObjManifest (Manifest_validate m)) (\<lambda>_. Ok m))))"
proof -
  note w = writer_for_facts(1,2) [OF assms(1)]
  let ?s = "\<lparr>st_ch = ow_chunker w, st_reader = rs, st_buf = [], st_start = 0, st_eof = False\<rparr>"
  have "reader_bytes rs = concat (map projr rs)"
    using assms(2) by (induction rs rule: reader_bytes.induct) (auto simp: reads_ok_def)
  then have pend: "pending ?s = concat (map projr rs)" by (simp add: pending_def)
  have inv: "stream_inv ?s" using w assms(2) by (simp add: stream_inv_def)
  obtain ps where ps: "split g (ow_chunker w) (concat (map projr rs)) = Some ps" using split_total [OF w(1)] by blast
  then have "write_loop g B A S w ?s d m = Some (write_chunks B A S w ps d m)" for m
    using write_loop_split [OF inv, of g ps] pend by simp
  with ps show ?thesis by (auto simp: ObjectWriter_write_def stream_Some [OF w(2)] split: prod.split)
qed

lemma write_Ok_chunks:
  assumes "writer_for slr profile cfg w" and "reads_ok rs"
    and "ObjectWriter_write g B A S w d k rs = Some (d', Ok m)"
  shows "\<exists>ps. split g (ow_chunker w) (concat (map projr rs)) = Some ps \<and> Manifest_validate m = Ok () \<and>
    write_chunks B A S w ps d (Manifest_new k (Sealer_key_scheme (ow_sealer w)) (ow_profile w)) = (d', Ok m)"
proof -
  let ?m = "Manifest_new k (Sealer_key_scheme (ow_sealer w)) (ow_profile w)"
  obtain ps where ps: "split g (ow_chunker w) (concat (map projr rs)) = Some ps"
    and wr: "ObjectWriter_write g B A S w d k rs = Some (case write_chunks B A S w ps d ?m of
      (d', r) \<Rightarrow> (d', rbind r (\<lambda>m. rbind (map_err ObjManifest (Manifest_validate m)) (\<lambda>_. Ok m))))"
    using write_is_write_chunks [OF assms(1,2)] by blast
  obtain d1 r1 where loop: "write_chunks B A S w ps d ?m = (d1, r1)" by fastforce
  then have "d1 = d'" "rbind r1 (\<lambda>m. rbind (map_err ObjManifest (Manifest_validate m)) (\<lambda>_. Ok m)) = Ok m"
    using wr assms(3) by auto
  with ps loop show ?thesis by (auto simp: result_elims)
qed

lemma write_extends:
  assumes "writer_for slr profile cfg w" and "reads_ok rs"
    and "ObjectWriter_write g B A S w d k rs = Some (d', r)"
  shows "extends B d d'"
    and "r = Ok m \<Longrightarrow> \<exists>ps. concat ps = concat (map projr rs) \<and> list_all2 (chunk_ok B A w d') (mf_chunks m) ps \<and>
      mf_key_scheme m = Sealer_key_scheme slr \<and> mf_padding_profile m = profile \<and> Manifest_validate m = Ok () \<and>
      mf_size m = of_nat (length (concat ps)) \<and> mf_kind m = k \<and> (\<forall>p \<in> set ps. p \<noteq> [])"
proof -
  note w = writer_for_facts(1,3,4) [OF assms(1)]
  let ?m = "Manifest_new k (Sealer_key_scheme slr) profile"
  obtain ps where ps: "split g (ow_chunker w) (concat (map projr rs)) = Some ps"
    and wr: "ObjectWriter_write g B A S w d k rs = Some (case write_chunks B A S w ps d ?m of
      (d', r) \<Rightarrow> (d', rbind r (\<lambda>m. rbind (map_err ObjManifest (Manifest_validate m)) (\<lambda>_. Ok m))))"
    using write_is_write_chunks [OF assms(1,2), of g B A S d k, unfolded w(2,3)] by blast
  obtain d1 r1 where loop: "write_chunks B A S w ps d ?m = (d1, r1)" by fastforce
  have d': "d1 = d'" and r: "r = rbind r1 (\<lambda>m. rbind (map_err ObjManifest (Manifest_validate m)) (\<lambda>_. Ok m))"
    using assms(3) wr loop by simp_all
  show "extends B d d'" using write_chunks_extends [OF loop] d' by simp
  assume "r = Ok m"
  then have "r1 = Ok m" "Manifest_validate m = Ok ()" using r by (auto simp: result_elims)
  moreover from this obtain cs where "list_all2 (chunk_ok B A w d') cs ps"
    "m = ?m\<lparr>mf_chunks := mf_chunks ?m @ cs, mf_size := mf_size ?m + of_nat (length (concat ps))\<rparr>"
    using write_chunks_extends [OF loop] d' by blast
  ultimately show "\<exists>ps. concat ps = concat (map projr rs) \<and> list_all2 (chunk_ok B A w d') (mf_chunks m) ps \<and>
      mf_key_scheme m = Sealer_key_scheme slr \<and> mf_padding_profile m = profile \<and> Manifest_validate m = Ok () \<and>
      mf_size m = of_nat (length (concat ps)) \<and> mf_kind m = k \<and> (\<forall>p \<in> set ps. p \<noteq> [])"
    using split_facts [OF w(1) ps] by (intro exI [of _ ps]) (simp add: Manifest_new_def)
qed

section \<open>Reading back\<close>

text \<open>Chunks of one object with the same address have the same plaintext.\<close>

definition addrs_consistent :: "chunk_ref list \<Rightarrow> bytes list \<Rightarrow> bool" where
  "addrs_consistent cs ps \<longleftrightarrow> (\<forall>c p c' p'. (c, p) \<in> set (zip cs ps) \<and> (c', p') \<in> set (zip cs ps) \<and>
    cr_addr c = cr_addr c' \<longrightarrow> p = p')"

text \<open>A cache that holds, under the addresses of these chunks, only their plaintexts.\<close>

definition cache_agrees :: "backend \<Rightarrow> aead \<Rightarrow> chunk_cache option \<Rightarrow> chunk_ref list \<Rightarrow> bytes list \<Rightarrow> bool" where
  "cache_agrees B A cache cs ps \<longleftrightarrow> (\<forall>ca. cache = Some ca \<longrightarrow> cache_inv ca \<and> addrs_consistent cs ps \<and>
    (\<forall>c p q. (c, p) \<in> set (zip cs ps) \<and> cached B A ca (cr_addr c) = Some q \<longrightarrow> q = p))"

lemma cache_lookup_agrees:
  assumes "cache_agrees B A cache cs ps" "cache_lookup B A io cache a = (cache', r)"
  shows "cache_agrees B A cache' cs ps"
    and "(c, p) \<in> set (zip cs ps) \<Longrightarrow> a = cr_addr c \<Longrightarrow> r = None \<or> r = Some p"
proof -
  have "cache_agrees B A cache' cs ps \<and> (\<forall>c p. (c, p) \<in> set (zip cs ps) \<and> a = cr_addr c \<longrightarrow> r = None \<or> r = Some p)"
  proof (cases cache)
    case None
    then show ?thesis using assms by (auto simp: cache_lookup_def)
  next
    case (Some ca)
    obtain ca' where ca': "ChunkCache_get B A io ca a = (ca', r)" "cache' = Some ca'"
      using assms(2) Some by (auto simp: cache_lookup_def split: prod.splits)
    have "cache_inv ca'" "cached B A ca' = cached B A ca" "r = None \<or> r = cached B A ca a"
      using get_cached [OF ca'(1)] assms(1) Some by (auto simp: cache_agrees_def)
    then show ?thesis using assms(1) Some ca'(2) by (cases r) (fastforce simp: cache_agrees_def)+
  qed
  then show "cache_agrees B A cache' cs ps" "(c, p) \<in> set (zip cs ps) \<Longrightarrow> a = cr_addr c \<Longrightarrow> r = None \<or> r = Some p"
    by auto
qed

lemma cache_store_agrees:
  assumes "cache_agrees B A cache cs ps" "sound_aead A" "(c, p) \<in> set (zip cs ps)"
  shows "cache_agrees B A (cache_store A io cache (cr_addr c) p) cs ps"
proof (cases cache)
  case None
  then show ?thesis using assms(1) by (simp add: cache_store_def)
next
  case (Some ca)
  have ag: "cache_inv ca" "addrs_consistent cs ps" "\<And>c p q. (c, p) \<in> set (zip cs ps) \<Longrightarrow> cached B A ca (cr_addr c) = Some q \<Longrightarrow> q = p"
    using assms(1) Some by (auto simp: cache_agrees_def)
  obtain ca' r where put: "ChunkCache_put A io ca (cr_addr c) p = (ca', r)" by fastforce
  have ca': "cache_inv ca'" "\<And>b q. cached B A ca' b = Some q \<Longrightarrow> b = cr_addr c \<and> q = p \<or> cached B A ca b = Some q"
    using put_cached [OF put ag(1) assms(2)] by auto
  have "q = p'" if "(c', p') \<in> set (zip cs ps)" "cached B A ca' (cr_addr c') = Some q" for c' p' q
    using ca'(2) [OF that(2)] ag(3) [OF that(1)] that(1) ag(2) assms(3) unfolding addrs_consistent_def by metis
  then show ?thesis using Some put ca'(1) ag(2) by (auto simp: cache_agrees_def cache_store_def)
qed

text \<open>The bytes of \<open>[s, e)\<close> that fall into a piece of the object starting at \<open>o\<close>.\<close>

definition seg :: "nat \<Rightarrow> nat \<Rightarrow> nat \<Rightarrow> bytes \<Rightarrow> bytes" where
  "seg s e off xs = drop (s - off) (take (e - off) xs)"

lemma seg_append: "seg s e off (xs @ ys) = seg s e off xs @ seg s e (off + length xs) ys"
  by (auto simp: seg_def min_def)

lemma seg_outside: "off + length xs \<le> s \<or> e \<le> off \<Longrightarrow> seg s e off xs = []"
  by (auto simp: seg_def)

lemma seg_take_drop: "seg s e off xs = take (min (e - off) (length xs) - (s - off)) (drop (s - off) xs)"
  by (simp add: seg_def drop_take min_def)

text \<open>How many chunks a range touches.\<close>

fun overlapping :: "nat \<Rightarrow> nat \<Rightarrow> nat \<Rightarrow> bytes list \<Rightarrow> nat" where
  "overlapping s e off [] = 0"
| "overlapping s e off (p # ps) =
    (if off + length p \<le> s \<or> e \<le> off then 0 else 1) + overlapping s e (off + length p) ps"

text \<open>A chunk that can be fetched: its stored bytes pass every check and give the plaintext.\<close>

definition fetchable :: "backend \<Rightarrow> aead \<Rightarrow> (nat \<Rightarrow> io_env) \<Rightarrow> blob_store \<Rightarrow> manifest \<Rightarrow> chunk_ref \<Rightarrow> bytes \<Rightarrow> bool" where
  "fetchable B A io st m c p \<longleftrightarrow> length p < 2 ^ 32 \<and> cr_len c = of_nat (length p) \<and>
    (\<exists>stored. (\<forall>i. BlobStore_get B (io i) st (cr_addr c) = Ok stored) \<and> check_chunk B A m c stored = Ok p)"

lemma open_chunk_plain_Ok:
  assumes "fetchable B A io st m c p" "cache_agrees B A cache cs ps" "sound_aead A"
    "(c, p) \<in> set (zip cs ps)"
  shows "\<exists>cache' stats'. open_chunk_plain B A (io i) cio st m c cache stats = (cache', stats', Ok p) \<and>
    cache_agrees B A cache' cs ps \<and> rs_chunks_fetched stats' + rs_cache_hits stats' =
      Suc (rs_chunks_fetched stats + rs_cache_hits stats)"
proof -
  obtain cache1 r where lk: "cache_lookup B A cio cache (cr_addr c) = (cache1, r)" by fastforce
  have ag: "cache_agrees B A cache1 cs ps" "r = None \<or> r = Some p"
    using cache_lookup_agrees [OF assms(2) lk] assms(4) by auto
  obtain stored where st: "BlobStore_get B (io i) st (cr_addr c) = Ok stored" "check_chunk B A m c stored = Ok p"
    using assms(1) by (auto simp: fetchable_def)
  from ag(2) show ?thesis
    using ag(1) lk st cache_store_agrees [OF ag(1) assms(3,4)]
    by (auto simp: open_chunk_plain_def Let_def)
qed

lemma range_loop_reads:
  assumes "list_all2 (fetchable B A (re_io R) st m) cs ps" "set (zip cs ps) \<subseteq> set (zip csA psA)"
    "cache_agrees B A cache csA psA" "sound_aead A" "\<And>i. re_sink R i = None"
    "unat off + length (concat ps) < 2 ^ 64"
  shows "\<exists>cache' n stats'. range_loop B A R st m start end_at i cs off cache stats out written =
      (cache', out @ seg (unat start) (unat end_at) (unat off) (concat ps), Ok (n, stats')) \<and>
    n = written + of_nat (length (seg (unat start) (unat end_at) (unat off) (concat ps))) \<and>
    cache_agrees B A cache' csA psA \<and>
    rs_chunks_fetched stats' + rs_cache_hits stats' =
      rs_chunks_fetched stats + rs_cache_hits stats + overlapping (unat start) (unat end_at) (unat off) ps"
  using assms(1,2,3,6)
proof (induction cs ps arbitrary: i off cache stats out written rule: list_all2_induct)
  case Nil
  then show ?case by (simp add: seg_def)
next
  case (Cons c cs p ps)
  let ?s = "unat start" and ?e = "unat end_at" and ?o = "unat off"
  have fc: "fetchable B A (re_io R) st m c p" and mem: "(c, p) \<in> set (zip csA psA)"
    and sub: "set (zip cs ps) \<subseteq> set (zip csA psA)" using Cons by auto
  have "unat (cr_len c) = length p" using fc by (simp add: fetchable_def unat_of_len)
  then have uc: "unat (ucast (cr_len c) :: u64) = length p"
    using unat_less_pow [of "cr_len c"] by (simp add: unsigned_ucast_eq take_bit_nat_eq_self)
  have ce: "unat (off + ucast (cr_len c)) = ?o + length p"
    using Cons.prems(3) uc by (simp add: unat_word_ariths)
  have fit: "unat (off + ucast (cr_len c)) + length (concat ps) < 2 ^ 64" using Cons.prems(3) ce by simp
  show ?case
  proof (cases "?o + length p \<le> ?s \<or> ?e \<le> ?o")
    case True
    then have guard: "off + ucast (cr_len c) \<le> start \<or> end_at \<le> off" by (simp add: word_le_nat_alt ce)
    have "seg ?s ?e ?o p = []" using True by (rule seg_outside)
    then show ?thesis
      using Cons.IH [OF sub Cons.prems(2) fit, of "Suc i" stats out written] guard True
      by (simp add: seg_append ce)
  next
    case False
    then have guard: "\<not> (off + ucast (cr_len c) \<le> start \<or> end_at \<le> off)" by (simp add: word_le_nat_alt ce)
    obtain cache1 stats1 where op:
      "open_chunk_plain B A (re_io R i) (re_cache R i) st m c cache stats = (cache1, stats1, Ok p)"
      "cache_agrees B A cache1 csA psA"
      "rs_chunks_fetched stats1 + rs_cache_hits stats1 = Suc (rs_chunks_fetched stats + rs_cache_hits stats)"
      using open_chunk_plain_Ok [OF fc Cons.prems(2) assms(4) mem] by blast
    let ?lo = "?s - ?o" and ?hi = "min (?e - ?o) (length p)"
    have sg: "seg ?s ?e ?o p = take (?hi - ?lo) (drop ?lo p)" by (rule seg_take_drop)
    have len: "length (seg ?s ?e ?o p) = ?hi - ?lo" unfolding sg by simp
    have "range_loop B A R st m start end_at i (c # cs) off cache stats out written =
        range_loop B A R st m start end_at (Suc i) cs (off + ucast (cr_len c)) cache1 stats1
          (out @ seg ?s ?e ?o p) (written + of_nat (length (seg ?s ?e ?o p)))"
    proof (cases "?lo < ?hi")
      case True
      then show ?thesis unfolding len using guard op(1) assms(5) by (simp add: Let_def unat_saturating_sub sg)
    next
      case out: False
      then have "?hi - ?lo = 0" by (simp only: not_less diff_is_0_eq)
      then have "seg ?s ?e ?o p = []" using len by (metis length_0_conv)
      then show ?thesis using guard op(1) out by (auto simp: Let_def unat_saturating_sub)
    qed
    then show ?thesis
      using Cons.IH [OF sub op(2) fit, of "Suc i" stats1 "out @ seg ?s ?e ?o p"
          "written + of_nat (length (seg ?s ?e ?o p))"] op(3) False
      by (simp add: seg_append ce add.assoc)
  qed
qed

lemma check_chunk_written:
  assumes "chunk_ok B A w d c p" "sound_aead A" "mf_key_scheme m = Sealer_key_scheme (ow_sealer w)"
    "mf_padding_profile m = ow_profile w"
  shows "\<exists>blob. blob \<in> set (dk_puts d) \<and> cr_addr c = addr_of B (bs_addressing (dk_store d)) blob \<and>
    check_chunk B A m c blob = Ok p"
proof -
  obtain padded blob where c: "length p < 2 ^ 32" "cr_len c = of_nat (length p)" "cr_pt_hash c = blake3 B p"
    "pad (ow_profile w) p = Ok padded" "blob \<in> set (dk_puts d)" "cr_addr c = addr_of B (bs_addressing (dk_store d)) blob"
    "case ow_sealer w of SealConvergent cs \<Rightarrow> seal_chunk B A cs padded CHUNK_AAD = Ok (blob, cr_ck c)
       | SealPlaintext _ \<Rightarrow> blob = padded \<and> cr_ck c = replicate KEY_LEN 0"
    using assms(1) by (auto simp: chunk_ok_def)
  have un: "unpad (ow_profile w) padded = Ok p" using c(4) by (simp add: padding.dec_iff)
  have len: "unat (cr_len c) = length p" using c(1,2) by (simp add: unat_of_len)
  have "check_chunk B A m c blob = Ok p"
  proof (cases "ow_sealer w")
    case (SealConvergent cs)
    then have "open_chunk B A (chunk_key_from_stored (cr_ck c)) blob CHUNK_AAD = Ok padded"
      using c(7) assms(2) by (simp add: chunk_opens)
    then show ?thesis using SealConvergent un len c(3) assms(3,4) by (simp add: check_chunk_def)
  next
    case (SealPlaintext salt)
    then show ?thesis using c(3,7) un len assms(3,4) by (simp add: check_chunk_def)
  qed
  with c(5,6) show ?thesis by blast
qed

lemma written_fetchable:
  assumes "chunk_ok B A w d c p" "sound_aead A" "mf_key_scheme m = Sealer_key_scheme (ow_sealer w)"
    "mf_padding_profile m = ow_profile w" "disk_ok B d" "separates B d" "\<And>i. io_read (io i) = None"
  shows "fetchable B A io (dk_store d) m c p"
proof -
  obtain blob where b: "blob \<in> set (dk_puts d)" "cr_addr c = addr_of B (bs_addressing (dk_store d)) blob"
    "check_chunk B A m c blob = Ok p"
    using check_chunk_written [OF assms(1-4)] by blast
  have "\<forall>i. BlobStore_get B (io i) (dk_store d) (cr_addr c) = Ok blob"
    using disk_get [OF assms(5,6) b(1)] assms(7) b(2) by simp
  with b(3) assms(1) show ?thesis by (auto simp: fetchable_def chunk_ok_def)
qed

text \<open>Every range of a written object, from the store it was written to or a later one.\<close>

lemma range_of_written:
  assumes "writer_for slr profile cfg w" and "reads_ok rs" and "data = concat (map projr rs)"
    and "ObjectWriter_write g B A S w d k rs = Some (d', Ok m)" and "extends B d' d''"
    and "disk_ok B d" and "separates B d''" and "sound_aead A" and "length data < 2 ^ 64"
    and "\<forall>i. io_read (re_io R i) = None \<and> re_sink R i = None"
  shows "\<exists>ps. concat ps = data \<and> length ps = length (mf_chunks m) \<and> unat (mf_size m) = length data \<and>
    (cache_agrees B A cache (mf_chunks m) ps \<longrightarrow>
      (\<exists>cache' n stats. read_object_range B A R (dk_store d'') m start end_at cache =
          (cache', take (unat end_at - unat start) (drop (unat start) data), Ok (n, stats)) \<and>
        unat n = length (take (unat end_at - unat start) (drop (unat start) data)) \<and>
        cache_agrees B A cache' (mf_chunks m) ps \<and>
        rs_chunks_fetched stats + rs_cache_hits stats =
          (if start < end_at then overlapping (unat start) (unat end_at) 0 ps else 0)))"
proof -
  obtain ps where ps: "concat ps = data" "list_all2 (chunk_ok B A w d') (mf_chunks m) ps"
    "mf_key_scheme m = Sealer_key_scheme slr" "mf_padding_profile m = profile" "Manifest_validate m = Ok ()"
    "mf_size m = of_nat (length (concat ps))"
    using write_extends(2) [OF assms(1,2,4) refl] assms(3) by blast
  have w: "ow_sealer w = slr" "ow_profile w = profile"
    using writer_for_facts(3,4) [OF assms(1)] by auto
  have ok: "disk_ok B d''" using write_extends(1) [OF assms(1,2,4)] assms(5,6) by (auto simp: extends_def)
  have fetch: "list_all2 (fetchable B A (re_io R) (dk_store d'') m) (mf_chunks m) ps"
    using ps(2) ps(3,4) w assms(7,8,10) ok
    by (auto intro: written_fetchable chunk_ok_extends [OF _ assms(5)] elim!: list_all2_mono)
  have len: "length ps = length (mf_chunks m)" using ps(2) by (simp add: list_all2_lengthD)
  have size: "unat (mf_size m) = length data" using ps(1,6) assms(9) by (simp add: unat_of_nat take_bit_nat_eq_self)
  let ?slice = "take (unat end_at - unat start) (drop (unat start) data)"
  have seg: "seg (unat start) (unat end_at) 0 data = ?slice" by (simp add: seg_def drop_take)
  have lt: "length ?slice < 2 ^ 64" using assms(9) by simp
  have "\<exists>cache' n stats. read_object_range B A R (dk_store d'') m start end_at cache = (cache', ?slice, Ok (n, stats)) \<and>
      unat n = length ?slice \<and> cache_agrees B A cache' (mf_chunks m) ps \<and>
      rs_chunks_fetched stats + rs_cache_hits stats =
        (if start < end_at then overlapping (unat start) (unat end_at) 0 ps else 0)"
    if ag: "cache_agrees B A cache (mf_chunks m) ps"
  proof (cases "start < end_at")
    case True
    have "\<exists>cache' n stats. range_loop B A R (dk_store d'') m start end_at 0 (mf_chunks m) 0 cache ReadStats_default [] 0 =
        (cache', ?slice, Ok (n, stats)) \<and> n = of_nat (length ?slice) \<and> cache_agrees B A cache' (mf_chunks m) ps \<and>
        rs_chunks_fetched stats + rs_cache_hits stats = overlapping (unat start) (unat end_at) 0 ps"
      using range_loop_reads [OF fetch subset_refl ag assms(8), of 0 start end_at 0 ReadStats_default "[]" 0]
        assms(9,10) ps(1) seg by (simp add: ReadStats_default_def)
    with True lt show ?thesis
      using ps(3,5) by (cases slr)
        (auto simp: read_object_range_def not_le unat_of_nat take_bit_nat_eq_self)
  next
    case False
    then have "unat end_at - unat start = 0" by (simp add: word_less_nat_alt)
    with False show ?thesis
      using ps(3,5) ag by (cases slr) (auto simp: read_object_range_def ReadStats_default_def not_le)
  qed
  then show ?thesis using ps(1) len size by blast
qed

section \<open>Properties\<close>

text \<open>
  C13. What was written reads back: after a write that succeeded, and any later writes, every byte range
  of the manifest yields exactly that slice of the input, for every sealer and padding profile, and
  touches only the chunks that overlap it. It is enough that reads work, that the byte strings put
  into the store have distinct addresses, and that a cache, where one is used, holds for these
  chunks what it should.
\<close>

theorem written_object_reads_back:
  assumes "writer_for slr profile cfg w" and "reads_ok rs" and "data = concat (map projr rs)"
    and "ObjectWriter_write g B A S w d k rs = Some (d', Ok m)" and "extends B d' d''"
    and "disk_ok B d" and "separates B d''" and "sound_aead A" and "length data < 2 ^ 64"
    and "\<forall>i. io_read (re_io R i) = None \<and> re_sink R i = None"
  shows "\<exists>ps. concat ps = data \<and> length ps = length (mf_chunks m) \<and> unat (mf_size m) = length data \<and>
    (cache_agrees B A cache (mf_chunks m) ps \<longrightarrow>
      (\<exists>cache' n stats. read_object_range B A R (dk_store d'') m start end_at cache =
          (cache', take (unat end_at - unat start) (drop (unat start) data), Ok (n, stats)) \<and>
        unat n = length (take (unat end_at - unat start) (drop (unat start) data)) \<and>
        cache_agrees B A cache' (mf_chunks m) ps \<and>
        rs_chunks_fetched stats + rs_cache_hits stats =
          (if start < end_at then overlapping (unat start) (unat end_at) 0 ps else 0)))"
  by (rule range_of_written [OF assms])

text \<open>A chunk that opened without the cache has the length and the hash the manifest records.\<close>

lemma open_uncached:
  assumes "open_chunk_plain B A io cio st m c None stats = (cache', stats', Ok plain)"
  shows "cache' = None \<and> length plain = unat (cr_len c) \<and> blake3 B plain = cr_pt_hash c"
  using assms
  by (auto simp: open_chunk_plain_def cache_lookup_def cache_store_def check_chunk_def Let_def result_elims
      split: sum.splits key_scheme.splits if_splits)

lemma range_loop_checks:
  assumes "list_all2 (\<lambda>c p. p \<noteq> [] \<and> length p < 2 ^ 32 \<and> cr_len c = of_nat (length p) \<and> cr_pt_hash c = blake3 B p) cs ps"
    "range_loop B A R st m 0 (- 1) i cs off None stats out written = (cache', out', Ok r)"
    "unat off + length (concat ps) < 2 ^ 64"
  shows "\<exists>ds. out' = out @ concat ds \<and> list_all2 (\<lambda>p q. length q = length p \<and> blake3 B q = blake3 B p) ps ds"
  using assms
proof (induction cs ps arbitrary: i off stats out written rule: list_all2_induct)
  case Nil
  then show ?case by simp
next
  case (Cons c cs p ps)
  have len: "unat (cr_len c) = length p" using Cons(1) by (simp add: unat_of_len)
  then have uc: "unat (ucast (cr_len c) :: u64) = length p"
    using unat_less_pow [of "cr_len c"] by (simp add: unsigned_ucast_eq take_bit_nat_eq_self)
  have ce: "unat (off + ucast (cr_len c)) = unat off + length p"
    using Cons.prems(2) uc by (simp add: unat_word_ariths)
  have fit: "unat (off + ucast (cr_len c)) + length (concat ps) < 2 ^ 64" using Cons.prems(2) ce by simp
  have mx: "unat (- 1 :: u64) = 2 ^ 64 - 1" by (simp add: unsigned_minus_1_eq_mask mask_eq_exp_minus_1)
  have guard: "\<not> (off + ucast (cr_len c) \<le> 0 \<or> - 1 \<le> off)"
    using ce Cons.prems(2) Cons(1) unfolding word_le_nat_alt mx by (cases p) auto
  obtain stats1 q where op: "open_chunk_plain B A (re_io R i) (re_cache R i) st m c None stats = (None, stats1, Ok q)"
    and q: "length q = length p" "blake3 B q = blake3 B p"
    using Cons.prems(1) guard Cons(1) len
    by (auto simp: Let_def split: prod.splits sum.splits dest!: open_uncached)
  have hi: "length q \<le> unat (saturating_sub (- 1) off)" "unat (saturating_sub 0 off) = 0"
    using Cons.prems(2) q(1) by (simp_all add: unat_saturating_sub mx)
  have "0 < length q" using Cons(1) q(1) by simp
  moreover from this have "0 < unat (saturating_sub (- 1) off)" using hi(1) by linarith
  ultimately have "range_loop B A R st m 0 (- 1) (Suc i) cs (off + ucast (cr_len c)) None stats1 (out @ q)
      (written + of_nat (length q)) = (cache', out', Ok r)"
    using Cons.prems(1) guard op hi by (simp add: Let_def min.absorb2 split: option.splits)
  from Cons.IH [OF this fit] obtain ds where "out' = (out @ q) @ concat ds"
    "list_all2 (\<lambda>p q. length q = length p \<and> blake3 B q = blake3 B p) ps ds" by blast
  with q show ?case by (intro exI [of _ "q # ds"]) simp
qed

text \<open>
  C14. A substituted chunk is caught whatever the store holds: if reading a written manifest without a
  cache succeeds against any store at all, the output splits into pieces of the original chunk
  lengths, and each is the original chunk or a BLAKE3 collision with it.
\<close>

theorem read_returns_only_what_was_written:
  assumes "writer_for slr profile cfg w" and "reads_ok rs" and "length (concat (map projr rs)) < 2 ^ 64"
    and "ObjectWriter_write g B A S w d k rs = Some (d', Ok m)" and "read_object B A R st m = (out, Ok n)"
  shows "\<exists>ps ds. concat ps = concat (map projr rs) \<and> concat ds = out \<and> length out = length (concat (map projr rs)) \<and>
    list_all2 (\<lambda>p q. q = p \<or> collision B q p) ps ds"
proof -
  obtain ps where ps: "concat ps = concat (map projr rs)" "list_all2 (chunk_ok B A w d') (mf_chunks m) ps"
    "mf_key_scheme m = Sealer_key_scheme slr" "Manifest_validate m = Ok ()" "\<forall>p \<in> set ps. p \<noteq> []"
    using write_extends(2) [OF assms(1,2,4) refl] by blast
  have cs: "list_all2 (\<lambda>c p. p \<noteq> [] \<and> length p < 2 ^ 32 \<and> cr_len c = of_nat (length p) \<and> cr_pt_hash c = blake3 B p) (mf_chunks m) ps"
    using ps(2,5) by (auto simp: list_all2_conv_all_nth chunk_ok_def)
  obtain cache' stats where "range_loop B A R st m 0 (- 1) 0 (mf_chunks m) 0 None ReadStats_default [] 0 = (cache', out, Ok (n, stats))"
    using assms(5) ps(3,4) by (cases slr) (auto simp: read_object_def read_object_range_def result_elims split: prod.splits)
  from range_loop_checks [OF cs this] ps(1) assms(3) obtain ds where ds: "out = concat ds"
    "list_all2 (\<lambda>p q. length q = length p \<and> blake3 B q = blake3 B p) ps ds" by auto
  have "map length ds = map length ps"
    using ds(2) by (induction rule: list_all2_induct) auto
  then have "length out = length (concat ps)" by (simp add: ds(1) length_concat)
  moreover have "list_all2 (\<lambda>p q. q = p \<or> collision B q p) ps ds"
    using ds(2) by (rule list_all2_mono) (auto simp: collision_def)
  ultimately show ?thesis using ps(1) ds(1) by (intro exI [of _ ps] exI [of _ ds]) simp
qed

section \<open>Deduplication\<close>

lemma store_chunk_det:
  assumes "store_chunk B A S slr d padded = (d1, Ok x)" "store_chunk B A S' slr e padded = (e1, Ok y)"
    "bs_addressing (dk_store d) = bs_addressing (dk_store e)"
  shows "x = y"
proof -
  have "a = b" if "disk_put B S d bs = (d1, Ok a)" "disk_put B S' e bs = (e1, Ok b)" for bs a b
    using disk_put_extends [OF that(1)] disk_put_extends [OF that(2)] assms(3) by (auto simp: extends_def)
  then show ?thesis
    using assms(1,2)
    by (auto simp: store_chunk_def Let_def split: sealer.splits sum.splits prod.splits if_splits)
qed

lemma write_chunk_det:
  assumes "write_chunk B A S w p d m = (d1, Ok m1)" "write_chunk B A S' w p e m = (e1, Ok m2)"
    "bs_addressing (dk_store d) = bs_addressing (dk_store e)"
  shows "m1 = m2"
  using assms store_chunk_det [OF _ _ assms(3)]
  by (fastforce simp: write_chunk_def split: sum.splits prod.splits if_splits)

lemma write_chunks_det:
  "write_chunks B A S w ps d m = (d1, Ok m1) \<Longrightarrow> write_chunks B A S' w ps e m = (e1, Ok m2) \<Longrightarrow>
    bs_addressing (dk_store d) = bs_addressing (dk_store e) \<Longrightarrow> m1 = m2"
proof (induction ps arbitrary: d e m)
  case Nil
  then show ?case by simp
next
  case (Cons p ps)
  obtain d' e' m' n' where w: "write_chunk B A S w p d m = (d', Ok m')" "write_chunk B A S' w p e m = (e', Ok n')"
    "write_chunks B A S w ps d' m' = (d1, Ok m1)" "write_chunks B A S' w ps e' n' = (e1, Ok m2)"
    using Cons.prems(1,2) by (auto split: prod.splits sum.splits)
  have "m' = n'" using write_chunk_det [OF w(1,2) Cons.prems(3)] .
  moreover have "bs_addressing (dk_store d') = bs_addressing (dk_store e')"
    using write_chunk_extends(1) [OF w(1)] write_chunk_extends(1) [OF w(2)] Cons.prems(3) by (simp add: extends_def)
  ultimately show ?case using Cons.IH [OF w(3)] w(4) by simp
qed

abbreviation blob_addrs :: "disk \<Rightarrow> addr set" where
  "blob_addrs d \<equiv> dom (btm_get (bs_files (dk_store d)))"

lemma disk_put_addrs:
  assumes "disk_put B S d bs = (d', r)"
  shows "blob_addrs d' = (case r of Inl _ \<Rightarrow> blob_addrs d | Inr a \<Rightarrow> insert a (blob_addrs d))"
proof -
  obtain st r0 where put: "BlobStore_put B (os_io S (dk_tick d)) (dk_store d) bs = (st, r0)" by fastforce
  show ?thesis
  proof (cases r0)
    case (Inl e)
    then show ?thesis using assms put put_cases(3) [OF put] by (auto simp: disk_put_def)
  next
    case (Inr a)
    then show ?thesis using assms put put_file [OF put [unfolded Inr]] by (auto simp: disk_put_def)
  qed
qed

lemma write_chunks_addrs:
  "write_chunks B A S w ps d m = (d', Ok m') \<Longrightarrow>
    blob_addrs d \<subseteq> blob_addrs d' \<and> blob_addrs d' \<subseteq> blob_addrs d \<union> cr_addr ` set (mf_chunks m')"
proof (induction ps arbitrary: d m)
  case Nil
  then show ?case by simp
next
  case (Cons p ps)
  obtain d1 m1 where w: "write_chunk B A S w p d m = (d1, Ok m1)" "write_chunks B A S w ps d1 m1 = (d', Ok m')"
    using Cons.prems by (auto split: prod.splits sum.splits)
  obtain a ck where m1: "a = cr_addr (last (mf_chunks m1))" "mf_chunks m1 \<noteq> []" and
    d1: "blob_addrs d1 = insert a (blob_addrs d)"
    using w(1)
    by (auto simp: write_chunk_def store_chunk_def Let_def dest!: disk_put_addrs
        split: sealer.splits sum.splits prod.splits if_splits)
  obtain cs where "mf_chunks m' = mf_chunks m1 @ cs" using write_chunks_extends [OF w(2)] by fastforce
  then have "a \<in> cr_addr ` set (mf_chunks m')" using m1 last_in_set by fastforce
  with Cons.IH [OF w(2)] d1 show ?case by auto
qed

lemma rewrite_adds_nothing:
  assumes "writer_for slr profile cfg w" and "reads_ok rs" and "reads_ok rs'"
    and "concat (map projr rs') = concat (map projr rs)"
    and "ObjectWriter_write g B A S w d k rs = Some (d1, Ok m)" and "disk_ok B d" and "extends B d1 e"
    and "ObjectWriter_write g B A S' w e k rs' = Some (e1, Ok m')"
  shows "m' = m \<and> blob_addrs e1 = blob_addrs e"
proof -
  let ?m = "Manifest_new k (Sealer_key_scheme (ow_sealer w)) (ow_profile w)"
  obtain ps where ps: "split g (ow_chunker w) (concat (map projr rs)) = Some ps" "write_chunks B A S w ps d ?m = (d1, Ok m)"
    using write_Ok_chunks [OF assms(1,2,5)] by blast
  have ps': "write_chunks B A S' w ps e ?m = (e1, Ok m')"
    using write_Ok_chunks [OF assms(1,3,8)] ps(1) assms(4) by auto
  have ext: "extends B d d1" using write_extends(1) [OF assms(1,2,5)] .
  then have "bs_addressing (dk_store d) = bs_addressing (dk_store e)" using assms(7) by (simp add: extends_def)
  then have m: "m' = m" using write_chunks_det [OF ps(2) ps'] by simp
  obtain qs where "list_all2 (chunk_ok B A w d1) (mf_chunks m) qs" using write_extends(2) [OF assms(1,2,5) refl] by blast
  then have "list_all2 (chunk_ok B A w e) (mf_chunks m) qs"
    by (rule list_all2_mono) (rule chunk_ok_extends [OF _ assms(7)])
  moreover have "disk_ok B e" using assms(6,7) ext by (simp add: extends_def)
  ultimately have "cr_addr c \<in> blob_addrs e" if "c \<in> set (mf_chunks m)" for c
    using that by (fastforce simp: list_all2_conv_all_nth in_set_conv_nth chunk_ok_def disk_ok_def Let_def)
  then show ?thesis using write_chunks_addrs [OF ps'] m by blast
qed

text \<open>
  Equal content is stored once: writing the same bytes again, however the reader delivers them and
  whatever was written in between, yields the same manifest and adds no blob to the store.
\<close>

theorem same_content_is_stored_once:
  assumes "writer_for slr profile cfg w" and "reads_ok rs" and "reads_ok rs'"
    and "concat (map projr rs') = concat (map projr rs)"
    and "ObjectWriter_write g B A S w d k rs = Some (d1, Ok m)" and "disk_ok B d" and "extends B d1 e"
    and "ObjectWriter_write g B A S' w e k rs' = Some (e1, Ok m')"
  shows "m' = m \<and> blob_addrs e1 = blob_addrs e"
  by (rule rewrite_adds_nothing [OF assms])

section \<open>Instances\<close>

definition toy_writer :: object_writer where
  "toy_writer = \<lparr>ow_sealer = SealConvergent [7], ow_chunker = toy_ch, ow_profile = PadNone\<rparr>"

definition toy_os :: os where
  "toy_os = \<lparr>os_io = (\<lambda>_. toy_io), os_nonce = (\<lambda>_. [])\<rparr>"

definition toy_disk :: disk where
  "toy_disk = \<lparr>dk_store = toy_store, dk_tick = 0, dk_puts = []\<rparr>"

definition toy_disk1 :: disk where
  "toy_disk1 = \<lparr>dk_store = toy_store\<lparr>bs_files := [(toy_hash [1, 2, 3], \<lparr>bf_bytes = [1, 2, 3], bf_mtime = 5\<rparr>)]\<rparr>,
     dk_tick = 1, dk_puts = [[1, 2, 3]]\<rparr>"

definition toy_object :: manifest where
  "toy_object = (Manifest_new File Convergent PadNone)\<lparr>mf_chunks :=
     [\<lparr>cr_addr = toy_hash [1, 2, 3], cr_ck = toy_hash [1, 2, 3], cr_pt_hash = toy_hash [1, 2, 3], cr_len = 3\<rparr>], mf_size := 3\<rparr>"

definition toy_read_env :: read_env where
  "toy_read_env = \<lparr>re_io = (\<lambda>_. toy_io), re_cache = (\<lambda>_. toy_cache_io), re_sink = (\<lambda>_. None)\<rparr>"

lemma toy_writer_new: "writer_for (SealConvergent [7]) PadNone (ChunkerConfig_fixed 4) toy_writer"
  by (simp add: writer_for_def ObjectWriter_new_def max_plaintext_def toy_ch_new toy_writer_def) (simp add: ChunkerConfig_fixed_def)

lemma toy_hash_widths: "hash_widths toy_backend"
  by (simp add: hash_widths_def) (simp add: toy_backend_def)

definition toy_disk_of :: "bytes \<Rightarrow> disk" where
  "toy_disk_of bs = \<lparr>dk_store = toy_store\<lparr>bs_files := [(toy_hash bs, \<lparr>bf_bytes = bs, bf_mtime = 5\<rparr>)]\<rparr>, dk_tick = 1, dk_puts = [bs]\<rparr>"

lemma toy_disk_put: "disk_put toy_backend toy_os toy_disk bs = (toy_disk_of bs, Ok (toy_hash bs))"
  by (simp add: toy_disk_of_def disk_put_def BlobStore_put_def toy_os_def toy_io_def toy_disk_def toy_store_def
      BlobStore_open_with_def of_ciphertext_def Let_def Addressing_verifies_def touch_path_def)

lemma toy_disk_of_separates: "separates toy_backend (toy_disk_of bs)"
  by (simp add: separates_def toy_disk_of_def toy_store_def BlobStore_open_with_def Let_def)

lemma toy_reads_ok: "reads_ok [Inr [1, 2], Inr [3]]" "reads_ok [Inr [1, 2, 3]]"
  by (simp_all add: reads_ok_def READ_BUF_def)

lemma toy_split: "split [] toy_ch [1, 2, 3] = Some [[1, 2, 3]]"
  by (subst split.simps, subst split.simps)
    (simp add: Split_next_def cut_def toy_ch_def ChunkerConfig_fixed_def Let_def)

lemma toy_write_eq:
  assumes "reads_ok rs" and "concat (map projr rs) = [1, 2, 3]"
  shows "ObjectWriter_write [] toy_backend toy_aead toy_os toy_writer d File rs =
    Some (case write_chunks toy_backend toy_aead toy_os toy_writer [[1, 2, 3]] d (Manifest_new File Convergent PadNone) of
      (d', r) \<Rightarrow> (d', rbind r (\<lambda>m. rbind (map_err ObjManifest (Manifest_validate m)) (\<lambda>_. Ok m))))"
  using write_is_write_chunks [OF toy_writer_new assms(1), of "[]" toy_backend toy_aead toy_os d File] assms(2) toy_split
  by (simp add: toy_writer_def)

lemmas toy_write_simps = write_chunk_def store_chunk_def pad_def seal_chunk_def chunk_key_def toy_aead_def
  toy_writer_def disk_put_def BlobStore_put_def toy_os_def toy_io_def toy_disk_def toy_disk1_def toy_store_def
  BlobStore_open_with_def of_ciphertext_def toy_object_def Manifest_new_def Manifest_validate_def chunk_bytes_def
  Let_def Addressing_verifies_def touch_path_def

lemma toy_write:
  "ObjectWriter_write [] toy_backend toy_aead toy_os toy_writer toy_disk File [Inr [1, 2], Inr [3]] =
    Some (toy_disk1, Ok toy_object)"
  by (simp add: toy_write_eq toy_reads_ok) (simp add: toy_write_simps, simp add: toy_backend_def)

lemma toy_write_again:
  "ObjectWriter_write [] toy_backend toy_aead toy_os toy_writer toy_disk1 File [Inr [1, 2, 3]] =
    Some (toy_disk1\<lparr>dk_tick := 2, dk_puts := [[1, 2, 3], [1, 2, 3]]\<rparr>, Ok toy_object)"
  by (simp add: toy_write_eq toy_reads_ok) (simp add: toy_write_simps, simp add: toy_backend_def)

lemma toy_disk_ok: "disk_ok toy_backend toy_disk" "separates toy_backend toy_disk1"
  by (simp_all add: disk_ok_def separates_def toy_disk_def toy_disk1_def toy_store_def BlobStore_open_with_def Let_def)

theorem written_object_reads_back_witness:
  "fst (snd (read_object_range toy_backend toy_aead toy_read_env (dk_store toy_disk1) toy_object 1 3 None)) = [2, 3]"
proof -
  have R: "\<forall>i. io_read (re_io toy_read_env i) = None \<and> re_sink toy_read_env i = None"
    by (simp add: toy_read_env_def toy_io_def)
  from written_object_reads_back [OF toy_writer_new toy_reads_ok(1) refl toy_write extends_refl toy_disk_ok
      toy_aead_sound _ R, of None 1 3]
  show ?thesis by (auto simp: cache_agrees_def)
qed

lemma toy_read: "read_object toy_backend toy_aead toy_read_env (dk_store toy_disk1) toy_object = ([1, 2, 3], Ok 3)"
  by (simp add: read_object_def read_object_range_def toy_object_def Manifest_new_def Manifest_validate_def
      chunk_bytes_def open_chunk_plain_def cache_lookup_def cache_store_def BlobStore_get_def toy_disk1_def toy_store_def
      BlobStore_open_with_def toy_read_env_def toy_io_def Addressing_verifies_def of_ciphertext_def check_chunk_def
      open_chunk_def toy_aead_def unpad_def Let_def saturating_sub_def
      unsigned_minus_1_eq_mask mask_eq_exp_minus_1)

theorem read_returns_only_what_was_written_witness:
  "\<exists>ps ds :: bytes list. concat ps = [1, 2, 3] \<and> concat ds = [1, 2, 3] \<and> list_all2 (\<lambda>p q. q = p \<or> collision toy_backend q p) ps ds"
  using read_returns_only_what_was_written [OF toy_writer_new toy_reads_ok(1) _ toy_write toy_read] by fastforce

theorem same_content_is_stored_once_witness:
  "blob_addrs (toy_disk1\<lparr>dk_tick := 2, dk_puts := [[1, 2, 3], [1, 2, 3]]\<rparr>) = blob_addrs toy_disk1"
  using same_content_is_stored_once [OF toy_writer_new toy_reads_ok _ toy_write toy_disk_ok(1) extends_refl toy_write_again]
  by simp

text \<open>
  A cache hit skips the length and hash checks: with the chunk cached under its address, a manifest
  whose entry for that address records another hash is still served, where the uncached read
  reports the mismatch.
\<close>

lemma cache_hit_skips_the_checks:
  assumes "cached B A ca (cr_addr c) = Some p" and "ci_read cio (cache_path (cr_addr c))"
  shows "snd (snd (open_chunk_plain B A io cio st m c (Some ca) stats)) = Ok p"
  using assms
  by (auto simp: open_chunk_plain_def cache_lookup_def ChunkCache_get_def cached_def split: option.splits sum.splits)

end
