(* ===== verification/Tree_Props.thy ===== *)
theory Tree_Props
  imports Tree Object_Props
begin

text \<open>
  Properties of storing and restoring trees. \<open>rep_dir\<close> says what a stored directory stands for, by
  rules over its manifest; storing a source establishes it and restoring follows it.
\<close>

section \<open>What a source and a stored directory stand for\<close>

fun dirent_name :: "'n dirent \<Rightarrow> bytes" where
  "dirent_name (EntryFails e) = []"
| "dirent_name (TypeFails n e) = n"
| "dirent_name (IsLink n t) = n"
| "dirent_name (IsNode n s) = n"

text \<open>
  A source as a file system has it: no two entries of one name, readers that deliver the file
  without error, and files below the 64-bit length.
\<close>

function src_ok :: "src \<Rightarrow> bool" and listing_ok :: "src dirent list \<Rightarrow> bool" where
  "src_ok (SrcFile r) = (case r of Inl _ \<Rightarrow> True | Inr rs \<Rightarrow> reads_ok rs \<and> length (concat (map projr rs)) < 2 ^ 64)"
| "src_ok (SrcDir err l) = listing_ok l"
| "listing_ok [] = True"
| "listing_ok (e # es) = (dirent_name e \<notin> dirent_name ` set es \<and> (case e of IsNode n s \<Rightarrow> src_ok s | _ \<Rightarrow> True) \<and> listing_ok es)"
  by pat_completeness auto
termination
  by (relation "measure (\<lambda>x. case x of Inl s \<Rightarrow> 2 * size s | Inr l \<Rightarrow> 2 * size_list (size_dirent size) l + 1)") auto

text \<open>The tree a source is.\<close>

function src_dst :: "src \<Rightarrow> dst" and listing_dst :: "src dirent list \<Rightarrow> (bytes, dst) btreemap" where
  "src_dst (SrcFile r) = DFile (concat (map projr (projr r)))"
| "src_dst (SrcDir err l) = DDir (listing_dst l)"
| "listing_dst [] = []"
| "listing_dst (e # es) =
    (case e of IsNode n s \<Rightarrow> btm_insert n (src_dst s) (listing_dst es)
     | IsLink n t \<Rightarrow> btm_insert n (DLink (projr t)) (listing_dst es)
     | _ \<Rightarrow> listing_dst es)"
  by pat_completeness auto
termination
  by (relation "measure (\<lambda>x. case x of Inl s \<Rightarrow> 2 * size s | Inr l \<Rightarrow> 2 * size_list (size_dirent size) l + 1)") auto

definition good_reads :: "read_env \<Rightarrow> bool" where
  "good_reads R \<longleftrightarrow> (\<forall>i. io_read (re_io R i) = None \<and> re_sink R i = None)"

definition reads_as :: "backend \<Rightarrow> aead \<Rightarrow> blob_store \<Rightarrow> manifest \<Rightarrow> bytes \<Rightarrow> bool" where
  "reads_as B A st m bs \<longleftrightarrow> (\<forall>R. good_reads R \<longrightarrow> (\<exists>n. read_object B A R st m = (bs, Ok n)))"

inductive rep_dir :: "backend \<Rightarrow> aead \<Rightarrow> tree_store \<Rightarrow> blob_store \<Rightarrow> bytes \<Rightarrow> addr \<Rightarrow> (bytes, dst) btreemap \<Rightarrow> bool"
  and rep_entries :: "backend \<Rightarrow> aead \<Rightarrow> tree_store \<Rightarrow> blob_store \<Rightarrow> bytes \<Rightarrow> dir_manifest \<Rightarrow> (bytes, dst) btreemap \<Rightarrow> bool"
  for B A ts st where
  dir: "(\<And>io. io_read io = None \<Longrightarrow> read_dir_manifest B A io ts st dir a = Ok dm) \<Longrightarrow> wf_dir dm \<Longrightarrow>
    rep_entries B A ts st dir dm c \<Longrightarrow> rep_dir B A ts st dir a c"
| nil: "rep_entries B A ts st dir [] []"
| fil: "reads_as B A st m bs \<Longrightarrow> rep_entries B A ts st dir es c \<Longrightarrow>
    rep_entries B A ts st dir ((n, EFile m) # es) ((n, DFile bs) # c)"
| sub: "rep_dir B A ts st (DirSecret_child B dir i) a c' \<Longrightarrow> rep_entries B A ts st dir es c \<Longrightarrow>
    rep_entries B A ts st dir ((n, EDir a i) # es) ((n, DDir c') # c)"
| link: "rep_entries B A ts st dir es c \<Longrightarrow> rep_entries B A ts st dir ((n, ESymlink t) # es) ((n, DLink t) # c)"

inductive_cases rep_entries_Cons: "rep_entries B A ts st dir (x # es) c"
inductive_cases rep_entries_Nil: "rep_entries B A ts st dir [] c"

lemma rep_insert:
  "rep_entries B A ts st dir dm c \<Longrightarrow> rep_entries B A ts st dir [(n, e)] [(n, t)] \<Longrightarrow>
    rep_entries B A ts st dir (btm_insert n e dm) (btm_insert n t c)"
proof (induction dm arbitrary: c)
  case Nil
  then show ?case by (auto elim: rep_entries_Nil)
next
  case (Cons x dm)
  note single = Cons.prems(2)
  have ins: "rep_entries B A ts st dir ((n, e) # es) ((n, t) # c)" if "rep_entries B A ts st dir es c" for es c
    using single that by (auto elim!: rep_entries_Cons intro: fil sub link)
  from Cons.prems(1) show ?case
    by (rule rep_entries_Cons) (auto intro!: ins fil sub link Cons.IH single)
qed

section \<open>Restoring\<close>

definition good_restore :: "(bytes list \<Rightarrow> restore_io) \<Rightarrow> bool" where
  "good_restore env \<longleftrightarrow> (\<forall>p. io_read (ri_get (env p)) = None \<and> ri_mkdir (env p) = None \<and> ri_unlink (env p) = None \<and>
    ri_create (env p) = None \<and> good_reads (ri_read (env p)))"

lemma restore_rep:
  assumes "good_restore env"
  shows "rep_dir B A ts st dir a c \<Longrightarrow>
      \<exists>k. \<forall>fuel. k \<le> fuel \<longrightarrow> read_dir_to fuel B A env ts st False dir a path None = Some (Some (DDir c), Ok ())"
    and "rep_entries B A ts st dir es c \<Longrightarrow> sorted_wrt (<) (map fst es) \<Longrightarrow> list_all (\<lambda>x. name_is_safe (fst x)) es \<Longrightarrow>
      (\<forall>x \<in> fst ` set pre. \<forall>y \<in> fst ` set es. x < y) \<Longrightarrow>
      \<exists>k. \<forall>fuel. k \<le> fuel \<longrightarrow>
        restore_entries (read_dir_to fuel B A env ts st False) B A env st False dir path es pre = Some (pre @ c, Ok ())"
proof (induction arbitrary: path and path pre rule: rep_dir_rep_entries.inducts)
  case (dir dir a dm c)
  have "btm_inv dm" "list_all (\<lambda>x. name_is_safe (fst x)) dm" using dir(4) by (auto simp: wf_dir_def list_all_iff)
  then obtain k where k: "\<And>fuel. k \<le> fuel \<Longrightarrow>
      restore_entries (read_dir_to fuel B A env ts st False) B A env st False dir path dm [] = Some ([] @ c, Ok ())"
    using dir(3) [where pre = "[]" and path = path] by auto
  have "read_dir_to fuel B A env ts st False dir a path None = Some (Some (DDir c), Ok ())" if "Suc k \<le> fuel" for fuel
    using that k dir(1) assms
    by (cases fuel) (auto simp: good_restore_def create_dir_all_def)
  then show ?case by blast
next
  case (nil dir)
  then show ?case by simp
next
  case (fil m bs dir es c n)
  have none: "btm_get pre n = None" using fil(6) by (force simp: map_of_eq_None_iff)
  have ins: "btm_insert n (DFile bs) pre = pre @ [(n, DFile bs)]"
    using fil(6) by (intro btm_insert_greatest) auto
  obtain r where "read_object B A (ri_read (env (path @ [n]))) st m = (bs, Ok r)"
    using fil(1) assms by (auto simp: reads_as_def good_restore_def)
  moreover obtain k where "\<And>fuel. k \<le> fuel \<Longrightarrow> restore_entries (read_dir_to fuel B A env ts st False) B A env st False dir path es
      (pre @ [(n, DFile bs)]) = Some ((pre @ [(n, DFile bs)]) @ c, Ok ())"
    using fil(3) [where pre = "pre @ [(n, DFile bs)]" and path = path] fil(4-6) by auto
  ultimately show ?case
    using none ins fil(5) assms
    by (intro exI [of _ k]) (simp add: safe_name_def restore_file_def put_node_def good_restore_def Let_def)
next
  case (sub dir i a c' es c n)
  have none: "btm_get pre n = None" using sub(7) by (force simp: map_of_eq_None_iff)
  have ins: "btm_insert n (DDir c') pre = pre @ [(n, DDir c')]"
    using sub(7) by (intro btm_insert_greatest) auto
  obtain j where j: "\<And>fuel. j \<le> fuel \<Longrightarrow> read_dir_to fuel B A env ts st False (DirSecret_child B dir i) a (path @ [n]) None =
      Some (Some (DDir c'), Ok ())"
    using sub(2) by blast
  obtain k where k: "\<And>fuel. k \<le> fuel \<Longrightarrow> restore_entries (read_dir_to fuel B A env ts st False) B A env st False dir path es
      (pre @ [(n, DDir c')]) = Some ((pre @ [(n, DDir c')]) @ c, Ok ())"
    using sub(4) [where pre = "pre @ [(n, DDir c')]" and path = path] sub(5-7) by auto
  show ?case
    using none ins sub(6) j k
    by (intro exI [of _ "max j k"]) (simp add: safe_name_def put_node_def Let_def)
next
  case (link dir es c n t)
  have none: "btm_get pre n = None" using link(5) by (force simp: map_of_eq_None_iff)
  have ins: "btm_insert n (DLink t) pre = pre @ [(n, DLink t)]"
    using link(5) by (intro btm_insert_greatest) auto
  obtain k where "\<And>fuel. k \<le> fuel \<Longrightarrow> restore_entries (read_dir_to fuel B A env ts st False) B A env st False dir path es
      (pre @ [(n, DLink t)]) = Some ((pre @ [(n, DLink t)]) @ c, Ok ())"
    using link(2) [where pre = "pre @ [(n, DLink t)]" and path = path] link(3-5) by auto
  then show ?case
    using none ins link(4) assms
    by (intro exI [of _ k]) (simp add: safe_name_def make_symlink_def put_node_def good_restore_def Let_def)
qed

section \<open>Storing\<close>

lemma written_wf:
  assumes "writer_for slr profile cfg w" "reads_ok rs"
    "ObjectWriter_write g B A S w d k rs = Some (d', Ok m)" "hash_widths B"
  shows "wf_Manifest m"
proof -
  obtain ps where ps: "list_all2 (chunk_ok B A w d') (mf_chunks m) ps" "Manifest_validate m = Ok ()"
    using write_extends(2) [OF assms(1-3) refl] by blast
  have "wf_chunk c" if "chunk_ok B A w d' c p" for c p
    using that assms(4) addr_of_width [OF assms(4)]
    by (cases "ow_sealer w") (auto simp: chunk_ok_def wf_chunk_def hash_widths_def seal_chunk_def chunk_key_def
        KEY_LEN_def Let_def split: option.splits, metis)
  then have "list_all wf_chunk (mf_chunks m)"
    using ps(1) by (auto simp: list_all2_conv_all_nth list_all_length)
  with ps(2) show ?thesis by (simp add: wf_Manifest_def)
qed

lemma written_reads_as:
  assumes "writer_for slr profile cfg w" "reads_ok rs"
    "ObjectWriter_write g B A S w d k rs = Some (d', Ok m)" "extends B d' d''" "disk_ok B d" "separates B d''"
    "sound_aead A" "length (concat (map projr rs)) < 2 ^ 64"
  shows "reads_as B A (dk_store d'') m (concat (map projr rs))"
proof -
  have "\<exists>n. read_object B A R (dk_store d'') m = (concat (map projr rs), Ok n)" if "good_reads R" for R
  proof -
    have mx: "unat (- 1 :: u64) = 2 ^ 64 - 1" by (simp add: unsigned_minus_1_eq_mask mask_eq_exp_minus_1)
    have "take (unat (- 1 :: u64) - unat (0 :: u64)) (drop (unat (0 :: u64)) (concat (map projr rs))) = concat (map projr rs)"
      using assms(8) by (simp add: mx)
    then show ?thesis
      using range_of_written [OF assms(1,2) refl assms(3,4,5,6,7,8), of R None 0 "- 1"] that
      by (auto simp: good_reads_def cache_agrees_def read_object_def)
  qed
  then show ?thesis by (simp add: reads_as_def)
qed

definition dm_ok :: "dir_manifest \<Rightarrow> bool" where
  "dm_ok dm \<longleftrightarrow> btm_inv dm \<and> (\<forall>(n, e) \<in> set dm. case e of EFile m \<Rightarrow> wf_Manifest m
    | EDir a i \<Rightarrow> arr ADDR_LEN a \<and> i = n | ESymlink _ \<Rightarrow> True)"

lemma dm_ok_insert:
  "dm_ok dm \<Longrightarrow> (case e of EFile m \<Rightarrow> wf_Manifest m | EDir a i \<Rightarrow> arr ADDR_LEN a \<and> i = n | ESymlink _ \<Rightarrow> True) \<Longrightarrow>
    dm_ok (btm_insert n e dm)"
  using set_btm_insert_subset [of n e dm] by (fastforce simp: dm_ok_def)

lemma dm_ok_encode:
  assumes "dm_ok dm" "DirManifest_encode dm = Ok bs"
  shows "wf_dir dm"
proof -
  obtain fs where fs: "entries_fields dm = Ok fs" using assms(2) by (auto simp: DirManifest_encode_def result_elims)
  have each: "name_is_safe n \<and> (\<forall>t. e = ESymlink t \<longrightarrow> t \<noteq> [])" if "(n, e) \<in> set dm" for n e
    using fs that
    by (induction dm arbitrary: fs rule: entries_fields.induct) (auto simp: result_elims split: if_splits)
  then have "name_is_safe n \<and> wf_entry e" if "(n, e) \<in> set dm" for n e
    using that assms(1) by (cases e) (fastforce simp: dm_ok_def name_is_safe_def)+
  then have "list_all (\<lambda>(n, e). name_is_safe n \<and> wf_entry e) dm" by (auto simp: list_all_iff)
  moreover have "distinct (concat (map (entry_dir_ids \<circ> snd) dm)) \<and>
      set (concat (map (entry_dir_ids \<circ> snd) dm)) \<subseteq> fst ` set dm"
    if "distinct (map fst dm)" "\<forall>(n, e) \<in> set dm. \<forall>a i. e = EDir a i \<longrightarrow> i = n"
    using that
  proof (induction dm)
    case (Cons x dm)
    then show ?case by (cases x; cases "snd x") auto
  qed simp
  ultimately show ?thesis
    using assms(1) by (fastforce simp: wf_dir_def dm_ok_def strict_sorted_iff)
qed

text \<open>A stored directory manifest: the blob under \<open>a\<close> opens, under the key of \<open>dir\<close>, to \<open>dm\<close>.\<close>

definition opens_to :: "backend \<Rightarrow> aead \<Rightarrow> tree_store \<Rightarrow> bytes \<Rightarrow> bytes \<Rightarrow> dir_manifest \<Rightarrow> bool" where
  "opens_to B A ts dir stored dm \<longleftrightarrow> (case ts_sealer ts of
     SealConvergent _ \<Rightarrow> rbind (map_err TreeCrypto (key_open B A (manifest_key B dir) stored DIR_AAD)) DirManifest_decode
   | SealPlaintext _ \<Rightarrow> DirManifest_decode stored) = Ok dm"

definition manifest_at :: "backend \<Rightarrow> aead \<Rightarrow> tree_store \<Rightarrow> disk \<Rightarrow> bytes \<Rightarrow> addr \<Rightarrow> dir_manifest \<Rightarrow> bool" where
  "manifest_at B A ts d dir a dm \<longleftrightarrow> (\<exists>stored \<in> set (dk_puts d). a = addr_of B (bs_addressing (dk_store d)) stored \<and>
    opens_to B A ts dir stored dm)"

lemma read_dir_manifest_iff:
  "read_dir_manifest B A io ts st dir a = Ok dm \<longleftrightarrow> (\<exists>stored. BlobStore_get B io st a = Ok stored \<and> opens_to B A ts dir stored dm)"
  by (cases "BlobStore_get B io st a") (auto simp: read_dir_manifest_def opens_to_def)

lemma manifest_at_extends: "manifest_at B A ts d dir a dm \<Longrightarrow> extends B d d' \<Longrightarrow> manifest_at B A ts d' dir a dm"
  by (auto simp: manifest_at_def extends_def)

lemma manifest_at_reads:
  "manifest_at B A ts d dir a dm \<Longrightarrow> disk_ok B d \<Longrightarrow> separates B d \<Longrightarrow> io_read io = None \<Longrightarrow>
    read_dir_manifest B A io ts (dk_store d) dir a = Ok dm"
  by (auto simp: manifest_at_def read_dir_manifest_iff disk_get)

lemma read_manifest_at:
  "read_dir_manifest B A io ts (dk_store d) dir a = Ok dm \<Longrightarrow> disk_ok B d \<Longrightarrow> manifest_at B A ts d dir a dm"
  by (auto simp: manifest_at_def read_dir_manifest_iff BlobStore_get_def Addressing_verifies_def disk_ok_def Let_def
      split: option.splits if_splits)

lemma manifest_at_wf: "manifest_at B A ts d dir a dm \<Longrightarrow> hash_widths B \<Longrightarrow> wf_dir dm \<and> arr ADDR_LEN a"
  using dir_manifest.dec_wf
  by (cases "ts_sealer ts") (auto simp: manifest_at_def opens_to_def addr_of_width result_elims)

lemma put_dir_manifest_at:
  assumes "put_dir_manifest B A S ts dir plain d = (d', r)"
  shows "extends B d d'"
    and "r = Ok a \<Longrightarrow> sound_aead A \<Longrightarrow> DirManifest_decode plain = Ok dm \<Longrightarrow> manifest_at B A ts d' dir a dm"
proof -
  show "extends B d d'"
    using assms by (auto simp: put_dir_manifest_def split: sealer.splits sum.splits prod.splits dest: disk_put_extends(1))
  assume r: "r = Ok a" and A: "sound_aead A" and dec: "DirManifest_decode plain = Ok dm"
  show "manifest_at B A ts d' dir a dm"
  proof (cases "ts_sealer ts")
    case (SealConvergent cs)
    then obtain sealed where "seal A (os_nonce S (dk_tick d)) (manifest_key B dir) plain DIR_AAD = Ok sealed"
      "disk_put B S d sealed = (d', Ok a)"
      using assms r by (auto simp: put_dir_manifest_def result_elims split: sum.splits prod.splits)
    then have "sealed \<in> set (dk_puts d')" "a = addr_of B (bs_addressing (dk_store d')) sealed"
      "key_open B A (manifest_key B dir) sealed DIR_AAD = Ok plain"
      using seal_opens [OF A] disk_put_extends(2) by blast+
    then show ?thesis using dec SealConvergent by (auto simp: manifest_at_def opens_to_def)
  next
    case (SealPlaintext salt)
    then have "disk_put B S d plain = (d', Ok a)"
      using assms r by (auto simp: put_dir_manifest_def result_elims split: prod.splits)
    then have "plain \<in> set (dk_puts d')" "a = addr_of B (bs_addressing (dk_store d')) plain"
      using disk_put_extends(2) by blast+
    then show ?thesis using dec SealPlaintext by (auto simp: manifest_at_def opens_to_def)
  qed
qed

lemma finish_dir_at:
  assumes "finish_dir B A S ts dir prev old dm d = (d', r)"
    "\<And>o' a. old = Some o' \<Longrightarrow> prev = Some a \<Longrightarrow> manifest_at B A ts d dir a o'"
  shows "extends B d d'" and "r = Ok a \<Longrightarrow> sound_aead A \<Longrightarrow> dm_ok dm \<Longrightarrow> manifest_at B A ts d' dir a dm"
proof -
  show "extends B d d'"
    using assms(1) put_dir_manifest_at(1)
    by (auto simp: finish_dir_def split: option.splits sum.splits if_splits)
  assume r: "r = Ok a" and A: "sound_aead A" and ok: "dm_ok dm"
  show "manifest_at B A ts d' dir a dm"
  proof (cases "\<exists>b. old = Some dm \<and> prev = Some b")
    case True
    then show ?thesis using assms r by (auto simp: finish_dir_def)
  next
    case False
    then have "(case DirManifest_encode dm of Inl e \<Rightarrow> (d, Err e) | Inr plain \<Rightarrow> put_dir_manifest B A S ts dir plain d) = (d', r)"
      using assms(1) by (auto simp: finish_dir_def split: option.splits if_splits)
    then obtain plain where enc: "DirManifest_encode dm = Ok plain" and put: "put_dir_manifest B A S ts dir plain d = (d', r)"
      using r by (auto split: sum.splits)
    have "DirManifest_decode plain = Ok dm" using dm_ok_encode [OF ok enc] enc by (rule dir_manifest.roundtrip)
    then show ?thesis using put_dir_manifest_at(2) [OF put r A] by blast
  qed
qed

lemma read_old_at:
  assumes "read_old B A S ts dir prev d = (d0, old)"
  shows "extends B d d0" and "dk_store d0 = dk_store d"
    and "old = Some o' \<Longrightarrow> prev = Some a \<Longrightarrow> disk_ok B d \<Longrightarrow> manifest_at B A ts d0 dir a o'"
proof -
  show st: "extends B d d0" "dk_store d0 = dk_store d"
    using assms by (auto simp: read_old_def extends_def disk_ok_def Let_def split: option.splits)
  assume "old = Some o'" "prev = Some a" and ok: "disk_ok B d"
  then have "read_dir_manifest B A (os_io S (dk_tick d)) ts (dk_store d) dir a = Ok o'"
    using assms by (auto simp: read_old_def split: sum.splits)
  then show "manifest_at B A ts d0 dir a o'" using read_manifest_at [OF _ ok] manifest_at_extends [OF _ st(1)] by blast
qed

text \<open>The links and the other entries of a listing.\<close>

fun src_links :: "src dirent list \<Rightarrow> (bytes \<times> bytes) list" where
  "src_links [] = []"
| "src_links (e # es) = (case e of IsLink n t \<Rightarrow> [(n, projr t)] | _ \<Rightarrow> []) @ src_links es"

fun src_nodes :: "src dirent list \<Rightarrow> (bytes \<times> src) list" where
  "src_nodes [] = []"
| "src_nodes (e # es) = (case e of IsNode n s \<Rightarrow> [(n, s)] | _ \<Rightarrow> []) @ src_nodes es"

lemma list_source_eq:
  "list_source es dm names = Inr (dm', names') \<Longrightarrow>
    dm' = fold (\<lambda>(n, t). btm_insert n (ESymlink t)) (src_links es) dm \<and> names' = names @ src_nodes es"
  by (induction es dm names rule: list_source.induct) (auto simp: result_elims)

definition insert_all :: "(bytes \<times> 'v) list \<Rightarrow> (bytes, 'v) btreemap \<Rightarrow> (bytes, 'v) btreemap" where
  "insert_all xs m = fold (\<lambda>(n, t). btm_insert n t) xs m"

lemma set_btm_insert_fresh: "k \<notin> fst ` set m \<Longrightarrow> set (btm_insert k v m) = insert (k, v) (set m)"
  by (induction k v m rule: btm_insert.induct) auto

lemma insert_all_inv: "btm_inv m \<Longrightarrow> btm_inv (insert_all xs m)"
  unfolding insert_all_def by (induction xs arbitrary: m) auto

lemma insert_all_set:
  "distinct (map fst xs) \<Longrightarrow> fst ` set xs \<inter> fst ` set m = {} \<Longrightarrow> set (insert_all xs m) = set xs \<union> set m"
  unfolding insert_all_def
proof (induction xs arbitrary: m)
  case (Cons x xs)
  then have "set (btm_insert (fst x) (snd x) m) = insert x (set m)"
    using set_btm_insert_fresh [of "fst x" m "snd x"] by (cases x) auto
  with Cons show ?case by (cases x) auto
qed simp

lemma btm_eqI:
  assumes "btm_inv m" "btm_inv m'" "set m = set m'"
  shows "m = m'"
proof (rule map_sorted_distinct_set_unique [of fst])
  show "inj_on fst (set m \<union> set m')" using assms by (auto simp: strict_sorted_iff distinct_map)
qed (use assms in \<open>auto simp: strict_sorted_iff\<close>)

lemma listing_facts:
  "listing_ok es \<Longrightarrow> btm_inv (listing_dst es) \<and>
    distinct (map fst (src_links es)) \<and> distinct (map fst (src_nodes es)) \<and>
    fst ` set (src_links es) \<inter> fst ` set (src_nodes es) = {} \<and>
    fst ` set (src_links es) \<union> fst ` set (src_nodes es) \<subseteq> dirent_name ` set es \<and>
    set (listing_dst es) = (\<lambda>(n, t). (n, DLink t)) ` set (src_links es) \<union> (\<lambda>(n, s). (n, src_dst s)) ` set (src_nodes es)"
proof (induction es)
  case Nil
  then show ?case by simp
next
  case (Cons e es)
  then have IH: "btm_inv (listing_dst es)" "distinct (map fst (src_links es))" "distinct (map fst (src_nodes es))"
    "fst ` set (src_links es) \<inter> fst ` set (src_nodes es) = {}"
    "fst ` set (src_links es) \<union> fst ` set (src_nodes es) \<subseteq> dirent_name ` set es"
    "set (listing_dst es) = (\<lambda>(n, t). (n, DLink t)) ` set (src_links es) \<union> (\<lambda>(n, s). (n, src_dst s)) ` set (src_nodes es)"
    and new: "dirent_name e \<notin> dirent_name ` set es" by auto
  have "fst ` set (listing_dst es) = fst ` set (src_links es) \<union> fst ` set (src_nodes es)"
    unfolding IH(6) by (force simp: image_iff)
  then have fresh: "dirent_name e \<notin> fst ` set (listing_dst es)" using IH(5) new by auto
  have notin: "dirent_name e \<notin> fst ` set (src_links es)" "dirent_name e \<notin> fst ` set (src_nodes es)" using IH(5) new by auto
  show ?case
  proof (cases e)
    case (IsLink n t)
    then show ?thesis using IH notin fresh set_btm_insert_fresh [of n "listing_dst es" "DLink (projr t)"] by auto
  next
    case (IsNode n x)
    then show ?thesis using IH notin fresh set_btm_insert_fresh [of n "listing_dst es" "src_dst x"] by auto
  qed (use IH in auto)
qed

lemma listing_dst_eq:
  assumes "listing_ok es"
  shows "listing_dst es = insert_all (map (\<lambda>(n, s). (n, src_dst s)) (sort_key fst (src_nodes es)))
    (insert_all (map (\<lambda>(n, t). (n, DLink t)) (src_links es)) [])" (is "_ = ?r")
proof (rule btm_eqI)
  note f = listing_facts [OF assms]
  let ?l = "insert_all (map (\<lambda>(n, t). (n, DLink t)) (src_links es)) []"
  let ?n = "map (\<lambda>(n, s). (n, src_dst s)) (sort_key fst (src_nodes es))"
  have fl: "map fst (map (\<lambda>(n, t). (n, DLink t)) (src_links es)) = map fst (src_links es)" by (induction es) auto
  have l: "set ?l = (\<lambda>(n, t). (n, DLink t)) ` set (src_links es)"
    using insert_all_set [of "map (\<lambda>(n, t). (n, DLink t)) (src_links es)" "[]", unfolded fl] f by simp
  have mf: "map fst ?n = map fst (sort_key fst (src_nodes es))" by (rule nth_equalityI) (auto split: prod.splits)
  have n: "distinct (map fst ?n)" "fst ` set ?n = fst ` set (src_nodes es)"
    using f unfolding mf set_map [symmetric] by (simp_all add: distinct_map)
  have "fst ` set ?l = fst ` set (src_links es)" unfolding l by (force simp: image_iff)
  then have "set ?r = set ?n \<union> set ?l" using f n by (intro insert_all_set) auto
  then show "set (listing_dst es) = set ?r" using f l by auto
  show "btm_inv (listing_dst es)" using f by simp
  show "btm_inv ?r" by (intro insert_all_inv) simp
qed

lemma rep_links:
  "rep_entries B A ts st dir dm c \<Longrightarrow>
    rep_entries B A ts st dir (fold (\<lambda>(n, t). btm_insert n (ESymlink t)) xs dm) (insert_all (map (\<lambda>(n, t). (n, DLink t)) xs) c)"
proof (induction xs arbitrary: dm c)
  case Nil
  then show ?case by (simp add: insert_all_def)
next
  case (Cons x xs)
  obtain n t where x: "x = (n, t)" by fastforce
  have "rep_entries B A ts st dir (btm_insert n (ESymlink t) dm) (btm_insert n (DLink t) c)"
    using Cons.prems by (intro rep_insert link nil)
  from Cons.IH [OF this] show ?case by (simp add: x insert_all_def)
qed

lemma dm_ok_links: "dm_ok dm \<Longrightarrow> dm_ok (fold (\<lambda>(n, t). btm_insert n (ESymlink t)) xs dm)"
  by (induction xs arbitrary: dm) (auto simp: dm_ok_insert)

lemma src_nodes_ok: "listing_ok es \<Longrightarrow> list_all (\<lambda>x. src_ok (snd x)) (src_nodes es)"
  by (induction es) (auto split: dirent.splits)

definition nodes_dst :: "(bytes \<times> src) list \<Rightarrow> (bytes \<times> dst) list" where
  "nodes_dst names = map (\<lambda>(n, s). (n, src_dst s)) names"

lemma write_rep:
  assumes "sound_aead A" "hash_widths B" "cc_max (ts_cfg ts) < 2 ^ 62"
  shows "write_dir_incremental g B A S ts dir err listing prev d = Some (d', r) \<Longrightarrow> listing_ok listing \<Longrightarrow> disk_ok B d \<Longrightarrow>
      extends B d d' \<and> (\<forall>a. r = Ok a \<longrightarrow> arr ADDR_LEN a \<and>
        (\<forall>d''. extends B d' d'' \<and> separates B d'' \<longrightarrow> rep_dir B A ts (dk_store d'') dir a (listing_dst listing)))"
    and "write_entries g B A S ts w dir old names dm d = Some (d', r') \<Longrightarrow> list_all (\<lambda>x. src_ok (snd x)) names \<Longrightarrow>
      writer_for (ts_sealer ts) (ts_profile ts) (ts_cfg ts) w \<Longrightarrow> disk_ok B d \<Longrightarrow> dm_ok dm \<Longrightarrow>
      extends B d d' \<and> (\<forall>dm'. r' = Ok dm' \<longrightarrow> dm_ok dm' \<and>
        (\<forall>d'' c. extends B d' d'' \<and> separates B d'' \<and> rep_entries B A ts (dk_store d'') dir dm c \<longrightarrow>
          rep_entries B A ts (dk_store d'') dir dm' (insert_all (nodes_dst names) c)))"
  using assms
proof (induction g B A S ts dir err listing prev d and g B A S ts w dir old names dm d
    arbitrary: d' r and d' r' rule: write_dir_incremental_write_entries.induct)
  case (1 g B A S ts dir err listing prev d)
  obtain d0 old where old: "read_old B A S ts dir prev d = (d0, old)" by fastforce
  note d0 = read_old_at(1) [OF old]
  have ok0: "disk_ok B d0" using d0 "1.prems"(3) by (simp add: extends_def)
  consider (fails) "d' = d0" "\<And>a. r \<noteq> Ok a"
    | (entries) w dmL names d1 r1 where "ObjectWriter_new (ts_sealer ts) (ts_profile ts) (ts_cfg ts) = Ok w" "err = None"
      "list_source listing [] [] = Ok (dmL, names)"
      "write_entries g B A S ts w dir old (sort_key fst names) dmL d0 = Some (d1, r1)"
      "(d', r) = (case r1 of Inl e \<Rightarrow> (d1, Err e) | Inr dm \<Rightarrow> finish_dir B A S ts dir prev old dm d1)"
    using "1.prems"(1) old by (auto split: sum.splits option.splits prod.splits)
  then show ?case
  proof cases
    case fails
    then show ?thesis using d0 by auto
  next
    case entries
    have names: "dmL = fold (\<lambda>(n, t). btm_insert n (ESymlink t)) (src_links listing) []" "names = src_nodes listing"
      using list_source_eq [OF entries(3)] by auto
    have "list_all (\<lambda>x. src_ok (snd x)) (sort_key fst names)" "dm_ok dmL"
      using src_nodes_ok [OF "1.prems"(2)] dm_ok_links [of "[]" "src_links listing"]
      by (simp_all add: names list_all_iff dm_ok_def [of "[]"])
    moreover have "writer_for (ts_sealer ts) (ts_profile ts) (ts_cfg ts) w" using entries(1) "1.prems"(6) by (simp add: writer_for_def)
    ultimately have IH: "extends B d0 d1 \<and> (\<forall>dm'. r1 = Ok dm' \<longrightarrow> dm_ok dm' \<and>
        (\<forall>d'' c. extends B d1 d'' \<and> separates B d'' \<and> rep_entries B A ts (dk_store d'') dir dmL c \<longrightarrow>
          rep_entries B A ts (dk_store d'') dir dm' (insert_all (nodes_dst (sort_key fst names)) c)))"
      using "1.IH" [OF old [symmetric] entries(1,2,3) refl entries(4)] ok0 "1.prems"(4-6) by blast
    show ?thesis
    proof (cases r1)
      case (Inl e)
      then show ?thesis using IH entries(5) extends_trans [OF d0] by auto
    next
      case (Inr dm)
      then have fin: "finish_dir B A S ts dir prev old dm d1 = (d', r)" using entries(5) by simp
      have old_at: "manifest_at B A ts d1 dir a o'" if "old = Some o'" "prev = Some a" for a o'
        using manifest_at_extends [OF read_old_at(3) [OF old that "1.prems"(3)]] IH by blast
      have ext: "extends B d d'"
        using extends_trans [OF d0] extends_trans IH finish_dir_at(1) [OF fin old_at] by blast
      have "arr ADDR_LEN a \<and> (\<forall>d''. extends B d' d'' \<and> separates B d'' \<longrightarrow>
          rep_dir B A ts (dk_store d'') dir a (listing_dst listing))" if a: "r = Ok a" for a
      proof -
        have at: "manifest_at B A ts d' dir a dm"
          using finish_dir_at(2) [OF fin old_at a "1.prems"(4)] IH Inr by blast
        have "rep_dir B A ts (dk_store d'') dir a (listing_dst listing)" if e: "extends B d' d''" "separates B d''" for d''
        proof (rule dir)
          have "disk_ok B d''" using ext e(1) "1.prems"(3) by (simp add: extends_def)
          then show "read_dir_manifest B A io ts (dk_store d'') dir a = Ok dm" if "io_read io = None" for io
            using manifest_at_reads [OF manifest_at_extends [OF at e(1)] _ e(2) that] by blast
          show "wf_dir dm" using manifest_at_wf [OF at "1.prems"(5)] by blast
          have "rep_entries B A ts (dk_store d'') dir dmL (insert_all (map (\<lambda>(n, t). (n, DLink t)) (src_links listing)) [])"
            unfolding names by (intro rep_links nil)
          then show "rep_entries B A ts (dk_store d'') dir dm (listing_dst listing)"
            using IH Inr extends_trans [OF finish_dir_at(1) [OF fin old_at] e(1)] e(2)
            unfolding listing_dst_eq [OF "1.prems"(2)] names(2) nodes_dst_def by blast
        qed
        with manifest_at_wf [OF at "1.prems"(5)] show ?thesis by blast
      qed
      with ext show ?thesis by blast
    qed
  qed
next
  case (2 g B A S ts w dir old dm d)
  then show ?case by (auto simp: insert_all_def nodes_dst_def)
next
  case (3 g B A S ts w dir old name err listing rest dm d)
  obtain d1 r1 where w: "write_dir_incremental g B A S ts (DirSecret_child B dir name) err listing (old_child old name) d = Some (d1, r1)"
    using "3.prems"(1) by (auto split: option.splits)
  have ok: "listing_ok listing" "list_all (\<lambda>x. src_ok (snd x)) rest" using "3.prems"(2) by auto
  note IH1 = "3.IH"(1) [OF w ok(1) "3.prems"(4,6-8)]
  show ?case
  proof (cases r1)
    case (Inl e)
    then show ?thesis using "3.prems"(1) w IH1 by auto
  next
    case (Inr a)
    have rest: "write_entries g B A S ts w dir old rest (btm_insert name (EDir a name) dm) d1 = Some (d', r')"
      using "3.prems"(1) w Inr by simp
    have d1: "extends B d d1" "arr ADDR_LEN a" using IH1 Inr by auto
    have "disk_ok B d1" "dm_ok (btm_insert name (EDir a name) dm)"
      using d1 "3.prems"(4,5) by (auto simp: extends_def intro!: dm_ok_insert)
    note IH2 = "3.IH"(2) [OF w refl Inr rest ok(2) "3.prems"(3) this "3.prems"(6-8)]
    have "rep_entries B A ts (dk_store d'') dir dm' (insert_all (nodes_dst ((name, SrcDir err listing) # rest)) c)"
      if "r' = Ok dm'" "extends B d' d''" "separates B d''" "rep_entries B A ts (dk_store d'') dir dm c" for dm' d'' c
    proof -
      have "rep_dir B A ts (dk_store d'') (DirSecret_child B dir name) a (listing_dst listing)"
        using IH1 Inr extends_trans [OF _ that(2)] that(3) IH2 by blast
      then have "rep_entries B A ts (dk_store d'') dir (btm_insert name (EDir a name) dm)
          (btm_insert name (DDir (listing_dst listing)) c)"
        using that(4) by (intro rep_insert sub nil)
      then show ?thesis using IH2 that(1-3) by (auto simp: insert_all_def nodes_dst_def)
    qed
    then show ?thesis using IH2 extends_trans [OF d1(1)] by blast
  qed
next
  case (4 g B A S ts w dir old name rd rest dm d)
  show ?case
  proof (cases rd)
    case (Inl e)
    then show ?thesis using "4.prems"(1) by auto
  next
    case (Inr reader)
    have src: "reads_ok reader" "length (concat (map projr reader)) < 2 ^ 64" "list_all (\<lambda>x. src_ok (snd x)) rest"
      using "4.prems"(2) Inr by auto
    obtain d1 r1 where w: "ObjectWriter_write g B A S w d File reader = Some (d1, r1)"
      using "4.prems"(1) Inr by (auto split: option.splits)
    have d1: "extends B d d1" using write_extends(1) [OF "4.prems"(3) src(1) w] .
    show ?thesis
    proof (cases r1)
      case (Inl e)
      then show ?thesis using "4.prems"(1) w d1 Inr by auto
    next
      case m: (Inr m)
      have rest: "write_entries g B A S ts w dir old rest (btm_insert name (EFile m) dm) d1 = Some (d', r')"
        using "4.prems"(1) w Inr m by simp
      note wm = w [unfolded m]
      have "disk_ok B d1" "dm_ok (btm_insert name (EFile m) dm)"
        using d1 "4.prems"(4,5) written_wf [OF "4.prems"(3) src(1) wm "4.prems"(7)] by (auto simp: extends_def intro!: dm_ok_insert)
      note IH = "4.IH" [OF Inr w refl m rest src(3) "4.prems"(3) this "4.prems"(6-8)]
      have "rep_entries B A ts (dk_store d'') dir dm' (insert_all (nodes_dst ((name, SrcFile rd) # rest)) c)"
        if "r' = Ok dm'" "extends B d' d''" "separates B d''" "rep_entries B A ts (dk_store d'') dir dm c" for dm' d'' c
      proof -
        have "extends B d1 d''" using IH extends_trans [OF _ that(2)] by blast
        then have "reads_as B A (dk_store d'') m (concat (map projr reader))"
          using written_reads_as [OF "4.prems"(3) src(1) wm _ "4.prems"(4) that(3) "4.prems"(6) src(2)] by blast
        then have "rep_entries B A ts (dk_store d'') dir (btm_insert name (EFile m) dm)
            (btm_insert name (DFile (concat (map projr reader))) c)"
          using that(4) by (intro rep_insert fil nil)
        then show ?thesis using IH that(1-3) by (auto simp: insert_all_def nodes_dst_def Inr)
      qed
      then show ?thesis using IH extends_trans [OF d1] by blast
    qed
  qed
qed

section \<open>Storing again\<close>

lemma write_entries_other:
  "write_entries g B A S ts w dir old names dm d = Some (d', Ok dm') \<Longrightarrow> n \<notin> fst ` set names \<Longrightarrow>
    btm_get dm' n = btm_get dm n"
proof (induction names arbitrary: dm d)
  case Nil
  then show ?case by simp
next
  case (Cons x names)
  obtain m s where x: "x = (m, s)" by fastforce
  obtain e d1 where "write_entries g B A S ts w dir old names (btm_insert m e dm) d1 = Some (d', Ok dm')"
    using Cons.prems(1) by (cases s) (auto simp: x split: option.splits sum.splits prod.splits)
  from Cons.IH [OF this] Cons.prems(2) show ?case by (simp add: x)
qed

definition reading :: "os \<Rightarrow> bool" where
  "reading S \<longleftrightarrow> (\<forall>i. io_read (os_io S i) = None)"

lemma write_dir_Ok:
  assumes "write_dir_incremental g B A S ts dir err listing prev d = Some (d', Ok a)"
  obtains d0 old w dmL names d1 dm where "read_old B A S ts dir prev d = (d0, old)"
    "ObjectWriter_new (ts_sealer ts) (ts_profile ts) (ts_cfg ts) = Ok w" "err = None"
    "list_source listing [] [] = Ok (dmL, names)"
    "write_entries g B A S ts w dir old (sort_key fst names) dmL d0 = Some (d1, Ok dm)"
    "finish_dir B A S ts dir prev old dm d1 = (d', Ok a)"
  using assms by (auto split: sum.splits option.splits prod.splits)

lemma separates_extends: "extends B e e1 \<Longrightarrow> separates B e1 \<Longrightarrow> separates B e"
  by (auto simp: extends_def separates_def intro: inj_on_subset)

lemma write_again:
  assumes "sound_aead A" "hash_widths B" "cc_max (ts_cfg ts) < 2 ^ 62"
  shows "write_dir_incremental g B A S ts dir err listing prev d = Some (d', Ok a) \<Longrightarrow> listing_ok listing \<Longrightarrow> disk_ok B d \<Longrightarrow>
      extends B d' e \<Longrightarrow> separates B e1 \<Longrightarrow> reading S' \<Longrightarrow>
      write_dir_incremental g B A S' ts dir err listing (Some a) e = Some (e1, Ok a') \<Longrightarrow>
      a' = a \<and> blob_addrs e1 = blob_addrs e"
    and "write_entries g B A S ts w dir old names dm d = Some (d', Ok dm') \<Longrightarrow> list_all (\<lambda>x. src_ok (snd x)) names \<Longrightarrow>
      distinct (map fst names) \<Longrightarrow>
      writer_for (ts_sealer ts) (ts_profile ts) (ts_cfg ts) w \<Longrightarrow> disk_ok B d \<Longrightarrow> dm_ok dm \<Longrightarrow>
      extends B d' e \<Longrightarrow> separates B e1 \<Longrightarrow> reading S' \<Longrightarrow> (\<forall>n \<in> fst ` set names. btm_get o' n = btm_get dm' n) \<Longrightarrow>
      write_entries g B A S' ts w dir (Some o') names dm e = Some (e1, Ok dm2) \<Longrightarrow>
      dm2 = dm' \<and> blob_addrs e1 = blob_addrs e"
  using assms
proof (induction g B A S ts dir err listing prev d and g B A S ts w dir old names dm d
    arbitrary: d' a e e1 a' and d' dm' e e1 dm2 o' rule: write_dir_incremental_write_entries.induct)
  case (1 g B A S ts dir err listing prev d)
  obtain d0 old w dmL names d1 dm where f: "read_old B A S ts dir prev d = (d0, old)"
    "ObjectWriter_new (ts_sealer ts) (ts_profile ts) (ts_cfg ts) = Ok w" "err = None"
    "list_source listing [] [] = Ok (dmL, names)"
    "write_entries g B A S ts w dir old (sort_key fst names) dmL d0 = Some (d1, Ok dm)"
    "finish_dir B A S ts dir prev old dm d1 = (d', Ok a)"
    using write_dir_Ok [OF "1.prems"(1)] .
  have names: "dmL = fold (\<lambda>(n, t). btm_insert n (ESymlink t)) (src_links listing) []" "names = src_nodes listing"
    using list_source_eq [OF f(4)] by auto
  have nok: "list_all (\<lambda>x. src_ok (snd x)) (sort_key fst names)" "dm_ok dmL" "distinct (map fst (sort_key fst names))"
    using src_nodes_ok [OF "1.prems"(2)] dm_ok_links [of "[]" "src_links listing"] listing_facts [OF "1.prems"(2)]
    by (simp_all add: names list_all_iff dm_ok_def [of "[]"] distinct_map)
  have ok0: "disk_ok B d0" using read_old_at(1) [OF f(1)] "1.prems"(3) by (simp add: extends_def)
  note sound = "1.prems"(8,9,10)
  have wf: "writer_for (ts_sealer ts) (ts_profile ts) (ts_cfg ts) w" using f(2) sound(3) by (simp add: writer_for_def)
  note rep = write_rep(2) [OF sound f(5) nok(1) wf ok0 nok(2)]
  have old_at: "manifest_at B A ts d1 dir a o'" if "old = Some o'" "prev = Some a" for a o'
    using manifest_at_extends [OF read_old_at(3) [OF f(1) that "1.prems"(3)]] rep by blast
  have at: "manifest_at B A ts d' dir a dm" using finish_dir_at(2) [OF f(6) old_at refl sound(1)] rep by blast
  have oke: "disk_ok B e" using write_rep(1) [OF sound "1.prems"(1-3)] "1.prems"(3,4) by (simp add: extends_def)
  have ext1: "extends B e e1" using write_rep(1) [OF sound "1.prems"(7,2) oke] by simp
  obtain e0 old' ed dm2 where s: "read_old B A S' ts dir (Some a) e = (e0, old')"
    "write_entries g B A S' ts w dir old' (sort_key fst names) dmL e0 = Some (ed, Ok dm2)"
    "finish_dir B A S' ts dir (Some a) old' dm2 ed = (e1, Ok a')"
    using write_dir_Ok [OF "1.prems"(7)] f(2,4) by (metis Pair_inject sum.inject(2))
  have "io_read (os_io S' (dk_tick e)) = None" using "1.prems"(6) by (simp add: reading_def)
  then have "read_dir_manifest B A (os_io S' (dk_tick e)) ts (dk_store e) dir a = Ok dm"
    using manifest_at_reads [OF manifest_at_extends [OF at "1.prems"(4)] oke separates_extends [OF ext1 "1.prems"(5)]] by blast
  then have old': "old' = Some dm" and st: "dk_store e0 = dk_store e" using s(1) by (auto simp: read_old_def)
  have "extends B d1 e0"
    using extends_trans [OF finish_dir_at(1) [OF f(6) old_at] extends_trans [OF "1.prems"(4) read_old_at(1) [OF s(1)]]] .
  moreover have oke0: "disk_ok B e0" using oke read_old_at(1) [OF s(1)] by (simp add: extends_def)
  moreover have "extends B ed e1"
    using finish_dir_at(1) [OF s(3)] write_rep(2) [OF sound s(2) nok(1) wf oke0 nok(2)]
      manifest_at_extends [OF read_old_at(3) [OF s(1) _ _ oke]] by blast
  ultimately have "dm2 = dm \<and> blob_addrs ed = blob_addrs e0"
    using "1.IH" [OF f(1) [symmetric] f(2,3,4) refl f(5) nok(1,3) wf ok0 nok(2) _ _ "1.prems"(6) _ s(2) [unfolded old'] sound]
      separates_extends "1.prems"(5) by blast
  then show ?case using s(3) old' st by (auto simp: finish_dir_def)
next
  case (2 g B A S ts w dir old dm d)
  then show ?case by auto
next
  case (3 g B A S ts w dir old name err listing rest dm d)
  note sound = "3.prems"(12,13,14)
  obtain d1 a where f: "write_dir_incremental g B A S ts (DirSecret_child B dir name) err listing (old_child old name) d = Some (d1, Ok a)"
    "write_entries g B A S ts w dir old rest (btm_insert name (EDir a name) dm) d1 = Some (d', Ok dm')"
    using "3.prems"(1) by (auto split: option.splits sum.splits prod.splits)
  have ok: "listing_ok listing" "list_all (\<lambda>x. src_ok (snd x)) rest" "distinct (map fst rest)" "name \<notin> fst ` set rest"
    using "3.prems"(2,3) by auto
  note r1 = write_rep(1) [OF sound f(1) ok(1) "3.prems"(5)]
  have ok1: "disk_ok B d1" "dm_ok (btm_insert name (EDir a name) dm)"
    using r1 "3.prems"(5,6) by (auto simp: extends_def intro!: dm_ok_insert)
  note r2 = write_rep(2) [OF sound f(2) ok(2) "3.prems"(4) ok1]
  have "btm_get o' name = Some (EDir a name)"
    using write_entries_other [OF f(2) ok(4)] "3.prems"(10) by simp
  then have child: "old_child (Some o') name = Some a" by (simp add: old_child_def)
  obtain e' a2 where s: "write_dir_incremental g B A S' ts (DirSecret_child B dir name) err listing (Some a) e = Some (e', Ok a2)"
    "write_entries g B A S' ts w dir (Some o') rest (btm_insert name (EDir a2 name) dm) e' = Some (e1, Ok dm2)"
    using "3.prems"(11) child by (auto split: option.splits sum.splits prod.splits)
  have d1e: "extends B d1 e" using extends_trans [OF _ "3.prems"(7)] r2 by blast
  have oke: "disk_ok B e" using d1e ok1(1) by (simp add: extends_def)
  note s1 = write_rep(1) [OF sound s(1) ok(1) oke]
  have ok2: "disk_ok B e'" "dm_ok (btm_insert name (EDir a2 name) dm)"
    using s1 oke "3.prems"(6) by (auto simp: extends_def intro!: dm_ok_insert)
  have sep: "separates B e'"
    using write_rep(2) [OF sound s(2) ok(2) "3.prems"(4) ok2] separates_extends [OF _ "3.prems"(8)] by blast
  have IH1: "a2 = a \<and> blob_addrs e' = blob_addrs e"
    using "3.IH"(1) [OF f(1) ok(1) "3.prems"(5) d1e sep "3.prems"(9) s(1) sound] .
  have "extends B d' e'" using extends_trans [OF "3.prems"(7)] s1 by blast
  moreover have "\<forall>n \<in> fst ` set rest. btm_get o' n = btm_get dm' n" using "3.prems"(10) by simp
  ultimately have "dm2 = dm' \<and> blob_addrs e1 = blob_addrs e'"
    using "3.IH"(2) [OF f(1) refl refl f(2) ok(2,3) "3.prems"(4) ok1 _ "3.prems"(8,9) _ _ sound] s(2) IH1 by simp
  with IH1 show ?case by simp
next
  case (4 g B A S ts w dir old name rd rest dm d)
  note sound = "4.prems"(12,13,14)
  obtain reader d1 m where rd: "rd = Ok reader" and f: "ObjectWriter_write g B A S w d File reader = Some (d1, Ok m)"
    "write_entries g B A S ts w dir old rest (btm_insert name (EFile m) dm) d1 = Some (d', Ok dm')"
    using "4.prems"(1) by (auto split: option.splits sum.splits prod.splits)
  have ok: "reads_ok reader" "list_all (\<lambda>x. src_ok (snd x)) rest" "distinct (map fst rest)" "name \<notin> fst ` set rest"
    using "4.prems"(2,3) rd by auto
  have ok1: "disk_ok B d1" "dm_ok (btm_insert name (EFile m) dm)"
    using write_extends(1) [OF "4.prems"(4) ok(1) f(1)] written_wf [OF "4.prems"(4) ok(1) f(1) sound(2)] "4.prems"(5,6)
    by (auto simp: extends_def intro!: dm_ok_insert)
  obtain e' m2 where s: "ObjectWriter_write g B A S' w e File reader = Some (e', Ok m2)"
    "write_entries g B A S' ts w dir (Some o') rest (btm_insert name (EFile m2) dm) e' = Some (e1, Ok dm2)"
    using "4.prems"(11) rd by (auto split: option.splits sum.splits prod.splits)
  have d1e: "extends B d1 e" 
    using extends_trans [OF _ "4.prems"(7)] write_rep(2) [OF sound f(2) ok(2) "4.prems"(4) ok1] by blast
  have again: "m2 = m \<and> blob_addrs e' = blob_addrs e"
    using rewrite_adds_nothing [OF "4.prems"(4) ok(1) ok(1) refl f(1) "4.prems"(5) d1e s(1)] .
  have "extends B d' e'" using extends_trans [OF "4.prems"(7) write_extends(1) [OF "4.prems"(4) ok(1) s(1)]] .
  moreover have "\<forall>n \<in> fst ` set rest. btm_get o' n = btm_get dm' n" using "4.prems"(10) by simp
  ultimately have "dm2 = dm' \<and> blob_addrs e1 = blob_addrs e'"
    using "4.IH" [OF rd f(1) refl refl f(2) ok(2,3) "4.prems"(4) ok1 _ "4.prems"(8,9) _ _ sound] s(2) again by simp
  with again show ?case by simp
qed

section \<open>Instances\<close>

definition toy_ts :: tree_store where
  "toy_ts = \<lparr>ts_sealer = SealConvergent [7], ts_profile = PadNone, ts_cfg = ChunkerConfig_fixed 4\<rparr>"

definition toy_listing :: "src dirent list" where
  "toy_listing = [IsLink [98] (Inr [99])]"

definition toy_restore :: "bytes list \<Rightarrow> restore_io" where
  "toy_restore p = \<lparr>ri_get = toy_io, ri_mkdir = None, ri_unlink = None, ri_create = None, ri_read = toy_read_env\<rparr>"

lemma toy_window: "cc_max (ts_cfg toy_ts) < 2 ^ 62"
  by (simp add: toy_ts_def ChunkerConfig_fixed_def)

lemma toy_good_restore: "good_restore toy_restore"
  by (simp add: good_restore_def toy_restore_def good_reads_def toy_read_env_def toy_io_def)

lemma toy_listing_ok: "listing_ok toy_listing" "listing_dst toy_listing = [([98], DLink [99])]"
  by (simp_all add: toy_listing_def)

lemma toy_dm_encodes: "\<exists>p. DirManifest_encode [([98], ESymlink [99])] = Ok p"
  by (simp add: DirManifest_encode_def safe_name_def name_is_safe_def byte_str_def result_elims encode_fields_Inr_iff
      DIR_MAGIC_def MAX_FIELD_def)

text \<open>The first write, and the second with the address of the first.\<close>

lemma toy_tree_writes:
  "\<exists>a d1 d2. write_dir_incremental [] toy_backend toy_aead toy_os toy_ts [5] None toy_listing None toy_disk = Some (d1, Ok a) \<and>
    separates toy_backend d1 \<and> separates toy_backend d2 \<and>
    write_dir_incremental [] toy_backend toy_aead toy_os toy_ts [5] None toy_listing (Some a) d1 = Some (d2, Ok a)"
proof -
  obtain p where p: "DirManifest_encode [([98], ESymlink [99])] = Ok p" using toy_dm_encodes by blast
  have dec: "DirManifest_decode p = Ok [([98], ESymlink [99])]"
    using p by (simp add: dir_manifest.dec_iff wf_dir_def name_is_safe_def byte_str_def)
  let ?c = "replicate 24 0 @ p"
  let ?d = "\<lparr>dk_store = toy_store\<lparr>bs_files := [(toy_hash ?c, \<lparr>bf_bytes = ?c, bf_mtime = 5\<rparr>)]\<rparr>, dk_tick = 1, dk_puts = [?c]\<rparr>"
  have safe: "name_is_safe [98]" by (simp add: name_is_safe_def byte_str_def)
  have new: "ObjectWriter_new (ts_sealer toy_ts) (ts_profile toy_ts) (ts_cfg toy_ts) = Ok toy_writer"
    using toy_writer_new by (simp add: toy_ts_def writer_for_def)
  have "write_dir_incremental [] toy_backend toy_aead toy_os toy_ts [5] None toy_listing None toy_disk = Some (?d, Ok (toy_hash ?c))"
    unfolding write_dir_incremental.simps [of _ _ _ _ _ _ None] new
    by (simp add: read_old_def toy_listing_def safe_name_def safe finish_dir_def p put_dir_manifest_def toy_ts_def seal_def
        manifest_key_def toy_aead_def disk_put_def BlobStore_put_def toy_os_def toy_io_def toy_disk_def toy_store_def
        BlobStore_open_with_def of_ciphertext_def Let_def)
  moreover have "read_dir_manifest toy_backend toy_aead toy_io toy_ts (dk_store ?d) [5] (toy_hash ?c) = Ok [([98], ESymlink [99])]"
    by (simp add: read_dir_manifest_def BlobStore_get_def toy_io_def toy_store_def BlobStore_open_with_def
        Addressing_verifies_def of_ciphertext_def toy_ts_def key_open_def manifest_key_def NONCE_LEN_def toy_aead_def dec)
  then have "write_dir_incremental [] toy_backend toy_aead toy_os toy_ts [5] None toy_listing (Some (toy_hash ?c)) ?d =
      Some (?d\<lparr>dk_tick := 2\<rparr>, Ok (toy_hash ?c))"
    unfolding write_dir_incremental.simps [of _ _ _ _ _ _ None] new
    by (simp add: read_old_def toy_os_def toy_listing_def safe_name_def safe finish_dir_def)
  moreover have "separates toy_backend ?d" "separates toy_backend (?d\<lparr>dk_tick := 2\<rparr>)" by (simp_all add: separates_def)
  ultimately show ?thesis by blast
qed

section \<open>Properties\<close>

text \<open>
  C10. A stored tree restores to itself: after a directory was stored, with or without a previous
  version to reuse, and whatever was stored later, restoring its address into an absent
  destination ends and yields exactly the source: every file with its bytes, every link with its
  target, every subdirectory. It is enough that the file-system calls succeed, that the source
  lists no name twice, that the byte strings put have distinct addresses and that the configured
  chunks are below \<open>2^62\<close> bytes, so that the chunker's window fits a \<open>usize\<close>.
\<close>

theorem stored_tree_restores:
  assumes "write_dir_incremental g B A S ts dir err listing prev d = Some (d', Ok a)" and "listing_ok listing"
    and "disk_ok B d" and "extends B d' d''" and "separates B d''" and "sound_aead A" and "hash_widths B"
    and "good_restore env" and "cc_max (ts_cfg ts) < 2 ^ 62"
  shows "\<exists>k. \<forall>fuel. k \<le> fuel \<longrightarrow>
    read_dir_to fuel B A env ts (dk_store d'') False dir a path None = Some (Some (DDir (listing_dst listing)), Ok ())"
proof -
  have "rep_dir B A ts (dk_store d'') dir a (listing_dst listing)"
    using write_rep(1) [OF assms(6,7,9,1-3)] assms(4,5) by blast
  then show ?thesis by (rule restore_rep(1) [OF assms(8)])
qed

theorem stored_tree_restores_witness:
  "\<exists>st a k. read_dir_to k toy_backend toy_aead toy_restore toy_ts st False [5] a [] None =
    Some (Some (DDir [([98], DLink [99])]), Ok ())"
proof -
  obtain a d1 where w: "write_dir_incremental [] toy_backend toy_aead toy_os toy_ts [5] None toy_listing None toy_disk = Some (d1, Ok a)"
    "separates toy_backend d1" using toy_tree_writes by blast
  from stored_tree_restores [OF w(1) toy_listing_ok(1) toy_disk_ok(1) extends_refl w(2) toy_aead_sound toy_hash_widths toy_good_restore
      toy_window]
  show ?thesis unfolding toy_listing_ok(2) by blast
qed

text \<open>
  C17. An unchanged tree costs nothing: storing the same source again with the previous address, where
  the previous manifests can still be read, returns that address and adds no blob, although a
  directory sealed anew would get a new address. The chunks are below \<open>2^62\<close> bytes, as above.
\<close>

theorem unchanged_tree_costs_nothing:
  assumes "write_dir_incremental g B A S ts dir err listing prev d = Some (d', Ok a)" and "listing_ok listing"
    and "disk_ok B d" and "extends B d' e" and "separates B e1" and "\<forall>i. io_read (os_io S' i) = None"
    and "write_dir_incremental g B A S' ts dir err listing (Some a) e = Some (e1, Ok a')"
    and "sound_aead A" and "hash_widths B" and "cc_max (ts_cfg ts) < 2 ^ 62"
  shows "a' = a \<and> blob_addrs e1 = blob_addrs e"
  using write_again(1) [OF assms(8,9,10,1-5) _ assms(7)] assms(6) by (simp add: reading_def)

theorem unchanged_tree_costs_nothing_witness:
  "\<exists>d1 d2 a. write_dir_incremental [] toy_backend toy_aead toy_os toy_ts [5] None toy_listing (Some a) d1 = Some (d2, Ok a) \<and>
    blob_addrs d2 = blob_addrs d1"
proof -
  obtain a d1 d2 where w:
    "write_dir_incremental [] toy_backend toy_aead toy_os toy_ts [5] None toy_listing None toy_disk = Some (d1, Ok a)"
    "separates toy_backend d2"
    "write_dir_incremental [] toy_backend toy_aead toy_os toy_ts [5] None toy_listing (Some a) d1 = Some (d2, Ok a)"
    using toy_tree_writes by blast
  have "\<forall>i. io_read (os_io toy_os i) = None" by (simp add: toy_os_def toy_io_def)
  with unchanged_tree_costs_nothing [OF w(1) toy_listing_ok(1) toy_disk_ok(1) extends_refl w(2) _ w(3) toy_aead_sound toy_hash_widths toy_window] w(3)
  show ?thesis by blast
qed

end
