(* ===== verification/Sealed_Store.thy ===== *)
theory Sealed_Store
  imports Object_Props
begin

text \<open>
  Indexes kept as one sealed blob: the bucket manifest, the git object map and the document log are
  each encoded, sealed under the directory's manifest key with their own associated data (or stored
  as plaintext in the \<open>transit-only\<close> mode) and put into the blob store. The code repeats the two
  functions per index; here they are \<open>put_sealed\<close> and \<open>get_sealed\<close>, and the locale \<open>sealed_format\<close>
  shows once that what was stored loads.
\<close>

definition put_sealed ::
  "backend \<Rightarrow> aead \<Rightarrow> os \<Rightarrow> sealer \<Rightarrow> bytes \<Rightarrow> (crypto_error \<Rightarrow> 'e) \<Rightarrow> (store_error \<Rightarrow> 'e) \<Rightarrow> bytes \<Rightarrow> bytes \<Rightarrow> disk \<Rightarrow>
    disk \<times> ('e + addr)" where
  "put_sealed B A S slr aad cerr serr dir plain d =
    (case slr of
       SealConvergent _ \<Rightarrow>
         (case seal A (os_nonce S (dk_tick d)) (manifest_key B dir) plain aad of
            Inl e \<Rightarrow> (d, Err (cerr e))
          | Inr sealed \<Rightarrow> (case disk_put B S d sealed of (d', r) \<Rightarrow> (d', map_err serr r)))
     | SealPlaintext _ \<Rightarrow> (case disk_put B S d plain of (d', r) \<Rightarrow> (d', map_err serr r)))"

definition get_sealed ::
  "backend \<Rightarrow> aead \<Rightarrow> io_env \<Rightarrow> sealer \<Rightarrow> bytes \<Rightarrow> (crypto_error \<Rightarrow> 'e) \<Rightarrow> (store_error \<Rightarrow> 'e) \<Rightarrow> blob_store \<Rightarrow> bytes \<Rightarrow>
    addr \<Rightarrow> 'e + bytes" where
  "get_sealed B A io slr aad cerr serr st dir a =
    rbind (map_err serr (BlobStore_get B io st a)) (\<lambda>stored.
    case slr of
      SealConvergent _ \<Rightarrow> map_err cerr (key_open B A (manifest_key B dir) stored aad)
    | SealPlaintext _ \<Rightarrow> Ok stored)"

lemma put_sealed_extends:
  "put_sealed B A S slr aad cerr serr dir plain d = (d', r) \<Longrightarrow> extends B d d'"
  by (auto simp: put_sealed_def split: sealer.splits sum.splits prod.splits dest: disk_put_extends(1))

lemma put_then_get_sealed:
  assumes "put_sealed B A S slr aad cerr serr dir plain d = (d', Ok a)" "disk_ok B d" "extends B d' d''" "separates B d''"
    "sound_aead A" "io_read io = None"
  shows "get_sealed B A io slr aad cerr serr (dk_store d'') dir a = Ok plain"
proof -
  obtain stored where put: "disk_put B S d stored = (d', Ok a)"
    and st: "case slr of SealConvergent _ \<Rightarrow> seal A (os_nonce S (dk_tick d)) (manifest_key B dir) plain aad = Ok stored
      | SealPlaintext _ \<Rightarrow> stored = plain"
    using assms(1) by (auto simp: put_sealed_def result_elims split: sealer.splits sum.splits prod.splits)
  have d'': "disk_ok B d''" using put_sealed_extends [OF assms(1)] assms(2,3) by (simp add: extends_def)
  have "stored \<in> set (dk_puts d'')" "a = addr_of B (bs_addressing (dk_store d'')) stored"
    using disk_put_extends(2) [OF put refl] assms(3) by (auto simp: extends_def)
  then have "BlobStore_get B io (dk_store d'') a = Ok stored" using disk_get [OF d'' assms(4) _ assms(6)] by simp
  then show ?thesis using st seal_opens [OF assms(5)] by (auto simp: get_sealed_def split: sealer.splits)
qed

locale sealed_format =
  fixes enc :: "'a \<Rightarrow> 'e + bytes" and dec :: "bytes \<Rightarrow> 'e + 'a" and wf :: "'a \<Rightarrow> bool"
    and aad :: bytes and cerr :: "crypto_error \<Rightarrow> 'e" and serr :: "store_error \<Rightarrow> 'e"
    and store :: "backend \<Rightarrow> aead \<Rightarrow> os \<Rightarrow> sealer \<Rightarrow> bytes \<Rightarrow> 'a \<Rightarrow> disk \<Rightarrow> disk \<times> ('e + addr)"
    and load :: "backend \<Rightarrow> aead \<Rightarrow> io_env \<Rightarrow> sealer \<Rightarrow> blob_store \<Rightarrow> bytes \<Rightarrow> addr \<Rightarrow> 'e + 'a"
  assumes round_trip: "wf x \<Longrightarrow> enc x = Inr plain \<Longrightarrow> dec plain = Inr x"
    and store_eq: "store B A S slr dir x d =
      (case enc x of Inl e \<Rightarrow> (d, Err e) | Inr plain \<Rightarrow> put_sealed B A S slr aad cerr serr dir plain d)"
    and load_eq: "load B A io slr st dir a = rbind (get_sealed B A io slr aad cerr serr st dir a) dec"
begin

lemma store_extends: "store B A S slr dir x d = (d', r) \<Longrightarrow> extends B d d'"
  by (auto simp: store_eq split: sum.splits dest: put_sealed_extends)

lemma store_then_load:
  assumes "wf x" "store B A S slr dir x d = (d', Ok a)" "disk_ok B d" "extends B d' d''" "separates B d''"
    "sound_aead A" "io_read io = None"
  shows "load B A io slr (dk_store d'') dir a = Ok x"
proof -
  obtain plain where plain: "enc x = Ok plain" "put_sealed B A S slr aad cerr serr dir plain d = (d', Ok a)"
    using assms(2) by (auto simp: store_eq split: sum.splits)
  then show ?thesis
    using put_then_get_sealed [OF plain(2) assms(3-7)] round_trip [OF assms(1) plain(1)] by (simp add: load_eq)
qed

end

end
