(* ===== verification/Entry_Table.thy ===== *)
theory Entry_Table
  imports Core_Types BTree
begin

text \<open>
  The loop the bucket manifest, the git object map and the document log share: after a header, the
  fields come in groups of a fixed number, one group per entry, in strictly ascending key order.
  The code repeats the loop in each decoder; here it is one function over the parsers of the key and
  of the value, and the locale \<open>entry_table\<close> shows once that it accepts exactly what laying the
  entries out produces.
\<close>

function asc_entries ::
  "nat \<Rightarrow> (bytes list \<Rightarrow> 'e + 'k::linorder) \<Rightarrow> (bytes list \<Rightarrow> 'e + 'v) \<Rightarrow> 'e \<Rightarrow> 'e \<Rightarrow> 'k option \<Rightarrow> bytes list \<Rightarrow>
    ('k, 'v) btreemap \<Rightarrow> 'e + ('k, 'v) btreemap" where
  "asc_entries n key val unordered dup prev f entries =
    (if n = 0 \<or> length f < n then Ok entries
     else
       rbind (key (take n f)) (\<lambda>k.
       if (case prev of None \<Rightarrow> False | Some p \<Rightarrow> k \<le> p) then Err unordered
       else rbind (val (take n f)) (\<lambda>v.
         if btm_get entries k \<noteq> None then Err dup
         else asc_entries n key val unordered dup (Some k) (drop n f) (btm_insert k v entries))))"
  by pat_completeness auto
termination
  by (relation "measure (\<lambda>(n, key, val, unordered, dup, prev, f, entries). length f)") auto

declare asc_entries.simps [simp del]

text \<open>The encoder's loop: the fields of every entry, one after the other.\<close>

definition lay_entries :: "('x \<Rightarrow> 'e + bytes list) \<Rightarrow> 'x list \<Rightarrow> 'e + bytes list" where
  "lay_entries lay es = rbind (traverse lay es) (\<lambda>rs. Ok (concat rs))"

lemma lay_entries_simps:
  "lay_entries lay [] = Ok []"
  "lay_entries lay (x # es) = rbind (lay x) (\<lambda>r. rbind (lay_entries lay es) (\<lambda>fs. Ok (r @ fs)))"
  by (cases "lay x"; cases "traverse lay es"; simp add: lay_entries_def)+

locale entry_table =
  fixes n :: nat and key :: "bytes list \<Rightarrow> 'e + 'k::linorder" and val :: "bytes list \<Rightarrow> 'e + 'v"
    and lay :: "'k \<times> 'v \<Rightarrow> 'e + bytes list" and wf_e :: "'k \<times> 'v \<Rightarrow> bool" and unordered dup :: 'e
  assumes width: "0 < n" and lay_width: "lay x = Inr r \<Longrightarrow> length r = n"
    and parse_iff: "length r = n \<Longrightarrow> (key r = Inr (fst x) \<and> val r = Inr (snd x)) \<longleftrightarrow> wf_e x \<and> lay x = Inr r"
begin

lemma layout_dvd: "lay_entries lay es = Inr fs \<Longrightarrow> n dvd length fs"
  by (induction es arbitrary: fs) (auto simp: lay_entries_simps result_elims lay_width)

lemma layout_Cons_iff:
  "lay_entries lay (x # es) = Inr fs \<longleftrightarrow> n \<le> length fs \<and> lay x = Inr (take n fs) \<and> lay_entries lay es = Inr (drop n fs)"
proof
  assume "lay_entries lay (x # es) = Inr fs"
  then obtain r gs where "lay x = Inr r" "lay_entries lay es = Inr gs" "fs = r @ gs" by (auto simp: lay_entries_simps result_elims)
  with lay_width [of x r] show "n \<le> length fs \<and> lay x = Inr (take n fs) \<and> lay_entries lay es = Inr (drop n fs)" by simp
qed (simp add: lay_entries_simps)

lemma asc_entries_onto_iff:
  "n dvd length fs \<Longrightarrow> \<forall>k \<in> fst ` set es. case prev of None \<Rightarrow> False | Some p \<Rightarrow> k \<le> p \<Longrightarrow>
    asc_entries n key val unordered dup prev fs es = Inr m \<longleftrightarrow>
      (\<exists>new. m = es @ new \<and> lay_entries lay new = Inr fs \<and> list_all wf_e new \<and> sorted_wrt (<) (map fst new) \<and>
        (\<forall>k \<in> fst ` set new. case prev of None \<Rightarrow> True | Some p \<Rightarrow> p < k))"
proof (induction "length fs" arbitrary: fs es prev rule: less_induct)
  case less
  show ?case
  proof (cases "length fs < n")
    case True
    with less.prems(1) width have "fs = []" by (auto dest: dvd_imp_le)
    moreover have "lay_entries lay new = Inr [] \<longleftrightarrow> new = []" for new
      using width by (cases new) (auto simp: layout_Cons_iff lay_entries_simps(1) simp del: lay_entries_simps(2))
    ultimately show ?thesis using True by (subst asc_entries.simps) auto
  next
    case False
    have dvd: "n dvd length (drop n fs)" and shorter: "length (drop n fs) < length fs"
      using less.prems(1) False width by (auto simp: dvd_diff_nat)
    let ?ok = "\<lambda>k. case prev of None \<Rightarrow> True | Some p \<Rightarrow> p < k"
    have asc: "\<not> (case prev of None \<Rightarrow> False | Some p \<Rightarrow> k \<le> p) \<longleftrightarrow> ?ok k" for k by (auto split: option.split)
    have below: "\<forall>j \<in> fst ` set es. j < k" if "?ok k" for k
      using that less.prems(2) by (auto split: option.splits)
    have step: "asc_entries n key val unordered dup prev fs es = Inr m \<longleftrightarrow>
      (\<exists>k v. wf_e (k, v) \<and> lay (k, v) = Inr (take n fs) \<and> ?ok k \<and>
        asc_entries n key val unordered dup (Some k) (drop n fs) (es @ [(k, v)]) = Inr m)" (is "?l \<longleftrightarrow> ?r")
    proof
      assume ?l
      then obtain k v where "key (take n fs) = Inr k" "val (take n fs) = Inr v" "?ok k"
        and rest: "asc_entries n key val unordered dup (Some k) (drop n fs) (btm_insert k v es) = Inr m"
        using False width asc by (subst (asm) asc_entries.simps) (auto simp: result_elims split: if_splits)
      moreover have "btm_insert k v es = es @ [(k, v)]" using below [OF \<open>?ok k\<close>] by (rule btm_insert_last)
      moreover have "wf_e (k, v) \<and> lay (k, v) = Inr (take n fs)"
        using parse_iff [of "take n fs" "(k, v)"] False calculation by simp
      ultimately show ?r by metis
    next
      assume ?r
      then obtain k v where e: "wf_e (k, v)" "lay (k, v) = Inr (take n fs)" "?ok k"
        "asc_entries n key val unordered dup (Some k) (drop n fs) (es @ [(k, v)]) = Inr m" by blast
      then have "key (take n fs) = Inr k" "val (take n fs) = Inr v"
        using parse_iff [of "take n fs" "(k, v)"] False by auto
      moreover have "btm_get es k = None" using below [OF e(3)] by (force simp: map_of_eq_None_iff)
      moreover have "btm_insert k v es = es @ [(k, v)]" using below [OF e(3)] by (rule btm_insert_last)
      ultimately show ?l using False width asc e(3,4) by (subst asc_entries.simps) simp
    qed
    have IH: "asc_entries n key val unordered dup (Some k) (drop n fs) (es @ [(k, v)]) = Inr m \<longleftrightarrow>
      (\<exists>new. m = (es @ [(k, v)]) @ new \<and> lay_entries lay new = Inr (drop n fs) \<and> list_all wf_e new \<and> sorted_wrt (<) (map fst new) \<and>
        (\<forall>j \<in> fst ` set new. k < j))" if "?ok k" for k v
    proof -
      have "\<forall>j \<in> fst ` set (es @ [(k, v)]). j \<le> k" using below [OF that] by auto
      then show ?thesis using less.hyps [OF shorter dvd, of "es @ [(k, v)]" "Some k"] by simp
    qed
    have more: "?ok j" if "?ok k" "k < j" for j k using that by (auto split: option.splits)
    show ?thesis (is "_ \<longleftrightarrow> ?new")
    proof
      assume "asc_entries n key val unordered dup prev fs es = Inr m"
      then obtain k v new where e: "wf_e (k, v)" "lay (k, v) = Inr (take n fs)" "?ok k" "m = (es @ [(k, v)]) @ new"
        "lay_entries lay new = Inr (drop n fs)" "list_all wf_e new" "sorted_wrt (<) (map fst new)" "\<forall>j \<in> fst ` set new. k < j"
        unfolding step using IH by blast
      show ?new
        using e more [OF e(3)] False by (intro exI [of _ "(k, v) # new"]) (auto simp: layout_Cons_iff)
    next
      assume ?new
      then obtain new where e: "m = es @ new" "lay_entries lay new = Inr fs" "list_all wf_e new" "sorted_wrt (<) (map fst new)"
        "\<forall>j \<in> fst ` set new. ?ok j" by blast
      have "new \<noteq> []" using e(2) False width by (auto simp: lay_entries_simps)
      then obtain k v rest where new: "new = (k, v) # rest" by (cases new) auto
      show "asc_entries n key val unordered dup prev fs es = Inr m"
        unfolding step using e IH [of k v] by (auto simp: new layout_Cons_iff)
    qed
  qed
qed

lemma asc_entries_iff:
  "n dvd length fs \<Longrightarrow> asc_entries n key val unordered dup None fs [] = Inr m \<longleftrightarrow>
    btm_inv m \<and> list_all wf_e m \<and> lay_entries lay m = Inr fs"
  using asc_entries_onto_iff [of fs "[]" None m] by auto

end

text \<open>
  A whole file of this shape: a magic, a version byte and the table. The decoder is the exact inverse
  of the encoder on maps in key order.
\<close>

locale table_file = entry_table n key val lay wf_e unordered dup
  for n :: nat and key :: "bytes list \<Rightarrow> 'e + 'k::linorder" and val :: "bytes list \<Rightarrow> 'e + 'v"
    and lay :: "'k \<times> 'v \<Rightarrow> 'e + bytes list" and wf_e :: "'k \<times> 'v \<Rightarrow> bool" and unordered dup :: 'e +
  fixes magic :: bytes and ver :: u8 and derr :: "decode_error \<Rightarrow> 'e" and bad_magic :: 'e and ragged :: "nat \<Rightarrow> 'e"
    and bad_width :: "string \<Rightarrow> nat \<Rightarrow> nat \<Rightarrow> 'e" and bad_version :: "u8 \<Rightarrow> 'e"
    and wf :: "('k, 'v) btreemap \<Rightarrow> bool" and enc :: "('k, 'v) btreemap \<Rightarrow> 'e + bytes" and dec :: "bytes \<Rightarrow> 'e + ('k, 'v) btreemap"
  assumes wf_eq: "wf m \<longleftrightarrow> btm_inv m \<and> list_all wf_e m"
    and enc_eq: "enc m = rbind (lay_entries lay m) (\<lambda>fs. map_err derr (encode_fields (magic # [ver] # fs)))"
    and dec_eq: "dec bs =
      rbind (map_err derr (decode_fields bs)) (\<lambda>f.
      if f = [] \<or> hd f \<noteq> magic then Err bad_magic
      else if length f < 2 then Err (ragged (length f))
      else rbind (fixed_width bad_width 1 ''version'' (f ! 1)) (\<lambda>v.
      if hd v \<noteq> ver then Err (bad_version (hd v))
      else if \<not> n dvd length f - 2 then Err (ragged (length f - 2))
      else asc_entries n key val unordered dup None (drop 2 f) []))"
begin

lemma table_dec_iff: "dec bs = Inr m \<longleftrightarrow> wf m \<and> enc m = Inr bs" (is "?l \<longleftrightarrow> ?r")
proof
  assume ?l
  then obtain f where f: "decode_fields bs = Inr f" "f \<noteq> []" "hd f = magic" "2 \<le> length f" "f ! 1 = [ver]"
    "n dvd length f - 2" "asc_entries n key val unordered dup None (drop 2 f) [] = Inr m"
    by (auto simp: dec_eq result_elims length_Suc_conv split: if_splits)
  then have "f = magic # [ver] # drop 2 f"
    by (cases f; cases "tl f") auto
  then have "encode_fields (magic # [ver] # drop 2 f) = Inr bs"
    using fields.canonical [OF f(1)] by simp
  with f asc_entries_iff [of "drop 2 f" m] show ?r
    by (simp add: wf_eq enc_eq)
next
  assume r: ?r
  then obtain fs where fs: "lay_entries lay m = Inr fs" "encode_fields (magic # [ver] # fs) = Inr bs"
    by (auto simp: enc_eq result_elims)
  then have "decode_fields bs = Inr (magic # [ver] # fs)" by (simp add: fields.dec_iff)
  then show ?l
    using r fs(1) layout_dvd [OF fs(1)] asc_entries_iff [of fs m] by (simp add: dec_eq wf_eq)
qed

end

sublocale table_file \<subseteq> codec enc dec wf
  by unfold_locales (rule table_dec_iff)

end
