(* ===== verification/Keyed_Merge.thy ===== *)
theory Keyed_Merge
  imports BTree
begin

text \<open>
  Replicated maps. A bucket manifest and the two maps of a document log are merged key by key: an
  entry only one side has survives, and where both have one a fixed rule picks the winner. The locale
  \<open>keyed_merge\<close> states what such a rule has to promise; \<open>gossip\<close> is everything replicas can do with
  each other's states, in any order, any number of times and along any route, and the locale shows
  that replicas which have heard of the same states hold the same map.
\<close>

inductive gossip :: "('m \<Rightarrow> 'm \<Rightarrow> 'm) \<Rightarrow> 'm set \<Rightarrow> 'm \<Rightarrow> bool" for merge where
  own: "gossip merge {a} a"
| hear: "gossip merge A m \<Longrightarrow> gossip merge B n \<Longrightarrow> gossip merge (A \<union> B) (merge m n)"

lemma gossip_image:
  "gossip merge A m \<Longrightarrow> (\<And>x y. f (merge x y) = merge' (f x) (f y)) \<Longrightarrow> gossip merge' (f ` A) (f m)"
proof (induction rule: gossip.induct)
  case (hear A m B n)
  then show ?case using gossip.hear [of merge' "f ` A" "f m" "f ` B" "f n"] by (simp add: image_Un)
qed (simp add: gossip.own)

lemma gossip_invariant:
  "gossip merge A m \<Longrightarrow> (\<And>x y. I x \<Longrightarrow> I y \<Longrightarrow> I (merge x y)) \<Longrightarrow> \<forall>a \<in> A. I a \<Longrightarrow> I m"
  by (induction rule: gossip.induct) auto

lemma btm_ext: "btm_inv m \<Longrightarrow> btm_inv n \<Longrightarrow> (\<And>k. btm_get m k = btm_get n k) \<Longrightarrow> m = n"
proof -
  assume inv: "btm_inv m" "btm_inv n" and get: "\<And>k. btm_get m k = btm_get n k"
  have sd: "sorted (map fst m)" "distinct (map fst m)" "sorted (map fst n)" "distinct (map fst n)"
    using inv by (simp_all add: strict_sorted_iff)
  have eq: "set m = set n" using map_of_inject_set [OF sd(2,4)] get by (simp add: fun_eq_iff)
  then have "inj_on fst (set m \<union> set n)" using sd(2) by (simp add: distinct_map)
  then show "m = n" using sd eq by (rule map_sorted_distinct_set_unique)
qed

text \<open>Two maps agree where entries that rank equal under one key are the same entry.\<close>

definition no_clash :: "('v \<Rightarrow> 'v \<Rightarrow> bool) \<Rightarrow> ('k, 'v) btreemap \<Rightarrow> ('k, 'v) btreemap \<Rightarrow> bool" where
  "no_clash le m n \<longleftrightarrow> (\<forall>(k, v) \<in> set m. \<forall>(j, w) \<in> set n. k = j \<and> le v w \<and> le w v \<longrightarrow> v = w)"

locale keyed_merge =
  fixes step :: "'k::linorder \<times> 'v \<Rightarrow> ('k, 'v) btreemap \<Rightarrow> ('k, 'v) btreemap"
    and pick :: "'v \<Rightarrow> 'v \<Rightarrow> 'v" and le :: "'v \<Rightarrow> 'v \<Rightarrow> bool"
  assumes step_get: "btm_get (step (k, v) m) = (btm_get m)(k \<mapsto> case btm_get m k of None \<Rightarrow> v | Some x \<Rightarrow> pick x v)"
    and step_inv: "btm_inv m \<Longrightarrow> btm_inv (step e m)"
    and pick_one: "pick x y = x \<or> pick x y = y"
    and pick_le: "le x (pick x y)" "le y (pick x y)"
    and le_refl: "le x x"
    and le_trans: "le x y \<Longrightarrow> le y z \<Longrightarrow> le x z"
begin

lemma inv_merge: "btm_inv a \<Longrightarrow> btm_inv (fold step b a)"
  by (induction b arbitrary: a) (auto simp: step_inv)

lemma get_merge:
  "btm_inv b \<Longrightarrow> btm_get (fold step b a) k =
    (case btm_get b k of None \<Rightarrow> btm_get a k
     | Some v \<Rightarrow> Some (case btm_get a k of None \<Rightarrow> v | Some x \<Rightarrow> pick x v))"
proof (induction b arbitrary: a)
  case (Cons e b)
  obtain j w where e: "e = (j, w)" by fastforce
  have "btm_get b j = None" using Cons.prems by (force simp: e map_of_eq_None_iff)
  then show ?case using Cons by (auto simp: e step_get split: option.splits)
qed simp

lemma merge_idem: "btm_inv a \<Longrightarrow> fold step a a = a"
  using pick_one by (intro btm_ext) (auto simp: inv_merge get_merge split: option.splits)

lemma gossip_inv: "gossip (\<lambda>a b. fold step b a) A m \<Longrightarrow> \<forall>a \<in> A. btm_inv a \<Longrightarrow> btm_inv m"
  by (erule gossip_invariant) (auto simp: inv_merge)

lemma gossip_best:
  "gossip (\<lambda>a b. fold step b a) A m \<Longrightarrow> \<forall>a \<in> A. btm_inv a \<Longrightarrow>
    (btm_get m k = None \<longleftrightarrow> (\<forall>a \<in> A. btm_get a k = None)) \<and>
    (\<forall>v. btm_get m k = Some v \<longrightarrow>
      (\<exists>a \<in> A. btm_get a k = Some v) \<and> (\<forall>a \<in> A. \<forall>w. btm_get a k = Some w \<longrightarrow> le w v))"
proof (induction rule: gossip.induct)
  case (own a)
  then show ?case by (simp add: le_refl)
next
  case (hear A m B n)
  have n: "btm_inv n" using hear.hyps(2) hear.prems by (simp add: gossip_inv)
  have A: "(btm_get m k = None \<longleftrightarrow> (\<forall>a \<in> A. btm_get a k = None))"
      "\<And>v. btm_get m k = Some v \<Longrightarrow> \<exists>a \<in> A. btm_get a k = Some v"
      "\<And>v a w. btm_get m k = Some v \<Longrightarrow> a \<in> A \<Longrightarrow> btm_get a k = Some w \<Longrightarrow> le w v"
    using hear.IH(1) hear.prems by auto
  have B: "(btm_get n k = None \<longleftrightarrow> (\<forall>a \<in> B. btm_get a k = None))"
      "\<And>v. btm_get n k = Some v \<Longrightarrow> \<exists>a \<in> B. btm_get a k = Some v"
      "\<And>v a w. btm_get n k = Some v \<Longrightarrow> a \<in> B \<Longrightarrow> btm_get a k = Some w \<Longrightarrow> le w v"
    using hear.IH(2) hear.prems by auto
  show ?case
  proof (cases "btm_get n k")
    case None
    then show ?thesis using A B by (auto simp: get_merge [OF n])
  next
    case (Some y)
    show ?thesis
    proof (cases "btm_get m k")
      case None
      then show ?thesis using A B Some by (auto simp: get_merge [OF n])
    next
      case x: (Some x)
      have "\<exists>a \<in> A \<union> B. btm_get a k = Some (pick x y)" using A(2) [OF x] B(2) [OF Some] pick_one [of x y] by auto
      moreover have "le w (pick x y)" if "a \<in> A \<union> B" "btm_get a k = Some w" for a w
        using that A(3) [OF x] B(3) [OF Some] pick_le [where x=x and y=y] le_trans by blast
      moreover have "\<exists>a \<in> A \<union> B. btm_get a k \<noteq> None" using A(2) [OF x] by auto
      ultimately show ?thesis using x Some by (auto simp: get_merge [OF n])
    qed
  qed
qed

lemma gossip_converges:
  assumes "gossip (\<lambda>a b. fold step b a) A m" "gossip (\<lambda>a b. fold step b a) A n"
    and "\<forall>a \<in> A. btm_inv a" "\<forall>a \<in> A. \<forall>b \<in> A. no_clash le a b"
  shows "m = n"
proof (rule btm_ext)
  show "btm_inv m" "btm_inv n" using assms by (auto intro: gossip_inv)
  show "btm_get m k = btm_get n k" for k
  proof (cases "btm_get m k")
    case None
    then show ?thesis using gossip_best [OF assms(1,3), of k] gossip_best [OF assms(2,3), of k] by simp
  next
    case (Some v)
    then obtain w where w: "btm_get n k = Some w"
      using gossip_best [OF assms(1,3), of k] gossip_best [OF assms(2,3), of k] by (metis option.exhaust option.simps(3))
    obtain a b where ab: "a \<in> A" "b \<in> A" "btm_get a k = Some v" "btm_get b k = Some w"
      using Some w gossip_best [OF assms(1,3), of k] gossip_best [OF assms(2,3), of k] by blast
    moreover have "le v w" "le w v"
      using ab Some w gossip_best [OF assms(1,3), of k] gossip_best [OF assms(2,3), of k] by blast+
    moreover have "(k, v) \<in> set a" "(k, w) \<in> set b" using ab(3,4) by (simp_all add: map_of_SomeD)
    ultimately show ?thesis using assms(4) Some w by (fastforce simp: no_clash_def)
  qed
qed

end

end
