(* ===== verification/Bucket.thy ===== *)
theory Bucket
  imports Sealed_Store Entry_Table Keyed_Merge
begin

text \<open>
  \<open>nas-store/src/bucket.rs\<close>: the map from S3 key to object, with its last-writer-wins merge, its
  canonical encoding and its sealed storage.
\<close>

definition BUCKET_MAGIC :: bytes where
  "BUCKET_MAGIC = byte_str ''NASB''"

definition BUCKET_AAD :: bytes where
  "BUCKET_AAD = byte_str ''nas-tools/aad/bucket/v1''"

definition BUCKET_VERSION :: u8 where
  "BUCKET_VERSION = 1"

definition WRITER_LEN :: usize where
  "WRITER_LEN = 32"

record key_object =
  ko_lamport :: u64
  ko_writer_id :: bytes
  ko_object :: "manifest option"

definition KeyObject_deleted :: "key_object \<Rightarrow> bool" where
  "KeyObject_deleted o' = (ko_object o' = None)"

definition beats :: "key_object \<Rightarrow> key_object \<Rightarrow> bool" where
  "beats x y \<longleftrightarrow> ko_lamport y < ko_lamport x \<or> ko_lamport x = ko_lamport y \<and> ko_writer_id y < ko_writer_id x"

type_synonym bucket = "(bytes, key_object) btreemap"

datatype bucket_error =
    BucketStore store_error
  | BucketManifestErr manifest_error
  | BucketCrypto crypto_error
  | BucketDecode decode_error
  | BucketBadMagic
  | BucketBadVersion u8
  | BucketBadWidth string usize usize
  | BucketRagged usize
  | BucketBadKey string
  | BucketNonCanonical string

definition safe_key :: "bytes \<Rightarrow> bucket_error + unit" where
  "safe_key key =
    (if key = [] then Err (BucketBadKey ''empty'')
     else if 0 \<in> set key then Err (BucketBadKey ''contains NUL'')
     else Ok ())"

definition Bucket_get :: "bucket \<Rightarrow> bytes \<Rightarrow> key_object option" where
  "Bucket_get b key = btm_get b key"

definition Bucket_live :: "bucket \<Rightarrow> bytes \<Rightarrow> manifest option" where
  "Bucket_live b key = Option.bind (btm_get b key) ko_object"

definition Bucket_put :: "bucket \<Rightarrow> bytes \<Rightarrow> key_object \<Rightarrow> bucket \<times> (bucket_error + unit)" where
  "Bucket_put b key o' =
    (case safe_key key of Inl e \<Rightarrow> (b, Err e) | Inr _ \<Rightarrow> (btm_insert key o' b, Ok ()))"

definition next_lamport :: "bucket \<Rightarrow> bytes \<Rightarrow> u64" where
  "next_lamport b key = (case btm_get b key of None \<Rightarrow> 1 | Some e \<Rightarrow> saturating_add (ko_lamport e) 1)"

definition merge_entry :: "bytes \<times> key_object \<Rightarrow> bucket \<Rightarrow> bucket" where
  "merge_entry kv entries =
    (case btm_get entries (fst kv) of
       Some have_o \<Rightarrow> if \<not> beats (snd kv) have_o then entries else btm_insert (fst kv) (snd kv) entries
     | None \<Rightarrow> btm_insert (fst kv) (snd kv) entries)"

definition Bucket_merge :: "bucket \<Rightarrow> bucket \<Rightarrow> bucket" where
  "Bucket_merge a b = fold merge_entry b a"

section \<open>The codec\<close>

definition bucket_entry_fields :: "bytes \<times> key_object \<Rightarrow> bucket_error + bytes list" where
  "bucket_entry_fields kv =
    rbind (safe_key (fst kv)) (\<lambda>_.
    rbind (case ko_object (snd kv) of None \<Rightarrow> Ok [] | Some m \<Rightarrow> map_err BucketManifestErr (Manifest_encode m)) (\<lambda>body.
    Ok [fst kv, u64_le (ko_lamport (snd kv)), ko_writer_id (snd kv),
        [if KeyObject_deleted (snd kv) then 1 else 0], body]))"

definition Bucket_encode :: "bucket \<Rightarrow> bucket_error + bytes" where
  "Bucket_encode b =
    rbind (lay_entries bucket_entry_fields b) (\<lambda>fs.
    map_err BucketDecode (encode_fields (BUCKET_MAGIC # [BUCKET_VERSION] # fs)))"

definition bucket_key :: "bytes list \<Rightarrow> bucket_error + bytes" where
  "bucket_key f = rbind (safe_key (f ! 0)) (\<lambda>_. Ok (f ! 0))"

definition bucket_value :: "bytes list \<Rightarrow> bucket_error + key_object" where
  "bucket_value f =
    rbind (fixed_width BucketBadWidth 8 ''lamport'' (f ! 1)) (\<lambda>lb.
    rbind (fixed_width BucketBadWidth WRITER_LEN ''writer_id'' (f ! 2)) (\<lambda>w.
    if length (f ! 3) \<noteq> 1 then Err (BucketNonCanonical ''deleted field is not one byte'')
    else if hd (f ! 3) \<noteq> 0 \<and> hd (f ! 3) \<noteq> 1 then Err (BucketNonCanonical ''deleted is not 0 or 1'')
    else
      let deleted = (hd (f ! 3) = 1); body = f ! 4 in
      rbind (if deleted \<and> body = [] then Ok None
             else if \<not> deleted \<and> body \<noteq> [] then
               rbind (map_err BucketManifestErr (Manifest_decode body)) (\<lambda>m. Ok (Some m))
             else if deleted then Err (BucketNonCanonical ''tombstone carries a chunk table'')
             else Err (BucketNonCanonical ''live key has no object'')) (\<lambda>object.
      Ok \<lparr>ko_lamport = u64_of_le lb, ko_writer_id = w, ko_object = object\<rparr>)))"

definition Bucket_decode :: "bytes \<Rightarrow> bucket_error + bucket" where
  "Bucket_decode bs =
    rbind (map_err BucketDecode (decode_fields bs)) (\<lambda>f.
    if f = [] \<or> hd f \<noteq> BUCKET_MAGIC then Err BucketBadMagic
    else if length f < 2 then Err (BucketRagged (length f))
    else rbind (fixed_width BucketBadWidth 1 ''version'' (f ! 1)) (\<lambda>v.
    if hd v \<noteq> BUCKET_VERSION then Err (BucketBadVersion (hd v))
    else if \<not> 5 dvd length f - 2 then Err (BucketRagged (length f - 2))
    else asc_entries 5 bucket_key bucket_value (BucketNonCanonical ''keys are not in ascending order'')
           (BucketNonCanonical ''duplicate key'') None (drop 2 f) []))"

definition BucketStore_store ::
  "backend \<Rightarrow> aead \<Rightarrow> os \<Rightarrow> sealer \<Rightarrow> bytes \<Rightarrow> bucket \<Rightarrow> disk \<Rightarrow> disk \<times> (bucket_error + addr)" where
  "BucketStore_store B A S slr dir b d =
    (case Bucket_encode b of
       Inl e \<Rightarrow> (d, Err e)
     | Inr plain \<Rightarrow> put_sealed B A S slr BUCKET_AAD BucketCrypto BucketStore dir plain d)"

definition BucketStore_load ::
  "backend \<Rightarrow> aead \<Rightarrow> io_env \<Rightarrow> sealer \<Rightarrow> blob_store \<Rightarrow> bytes \<Rightarrow> addr \<Rightarrow> bucket_error + bucket" where
  "BucketStore_load B A io slr st dir a =
    rbind (get_sealed B A io slr BUCKET_AAD BucketCrypto BucketStore st dir a) Bucket_decode"

section \<open>One encoding\<close>

definition key_is_safe :: "bytes \<Rightarrow> bool" where
  "key_is_safe key \<longleftrightarrow> key \<noteq> [] \<and> 0 \<notin> set key"

definition wf_key_object :: "bytes \<times> key_object \<Rightarrow> bool" where
  "wf_key_object kv \<longleftrightarrow> key_is_safe (fst kv) \<and> arr WRITER_LEN (ko_writer_id (snd kv)) \<and>
    (case ko_object (snd kv) of None \<Rightarrow> True | Some m \<Rightarrow> wf_Manifest m)"

definition wf_bucket :: "bucket \<Rightarrow> bool" where
  "wf_bucket b \<longleftrightarrow> btm_inv b \<and> list_all wf_key_object b"

lemma safe_key_Inr_iff [result_elims]: "safe_key k = Inr u \<longleftrightarrow> key_is_safe k"
  by (simp add: safe_key_def key_is_safe_def)

lemma manifest_decode_Inr_iff: "Manifest_decode bs = Inr m \<longleftrightarrow> wf_Manifest m \<and> Manifest_encode m = Inr bs"
  unfolding Manifest_decode_def Manifest_encode_def by (rule manifest.dec_iff)

lemma manifest_encode_nonempty: "Manifest_encode m = Inr bs \<Longrightarrow> bs \<noteq> []"
  by (auto simp: Manifest_encode_def result_elims encode_fields_Inr_iff Manifest_fields_def)

interpretation bucket: table_file 5 bucket_key bucket_value bucket_entry_fields wf_key_object
  "BucketNonCanonical ''keys are not in ascending order''" "BucketNonCanonical ''duplicate key''"
  BUCKET_MAGIC BUCKET_VERSION BucketDecode BucketBadMagic BucketRagged BucketBadWidth BucketBadVersion wf_bucket
  Bucket_encode Bucket_decode
proof unfold_locales
  fix r :: "bytes list" and x :: "bytes \<times> key_object"
  assume "length r = 5"
  then obtain a b c d e where r: "r = [a, b, c, d, e]" by (auto simp: length_Suc_conv numeral_eq_Suc)
  obtain k ko where x: "x = (k, ko)" by fastforce
  show "(bucket_key r = Inr (fst x) \<and> bucket_value r = Inr (snd x)) \<longleftrightarrow> wf_key_object x \<and> bucket_entry_fields x = Inr r"
    (is "?l \<longleftrightarrow> ?r")
  proof
    assume ?l
    then show ?r
      by (auto simp: r x bucket_key_def bucket_value_def bucket_entry_fields_def wf_key_object_def KeyObject_deleted_def
          result_elims manifest_decode_Inr_iff length_Suc_conv Let_def split: if_splits)
  next
    assume ?r
    then show ?l
      by (cases ko) (auto simp: r x bucket_key_def bucket_value_def bucket_entry_fields_def wf_key_object_def KeyObject_deleted_def
          result_elims manifest_decode_Inr_iff safe_key_def key_is_safe_def Let_def dest: manifest_encode_nonempty
          split: option.splits if_splits)
  qed
qed (auto simp: bucket_entry_fields_def result_elims wf_bucket_def Bucket_encode_def Bucket_decode_def)

interpretation bucket_store: sealed_format Bucket_encode Bucket_decode wf_bucket BUCKET_AAD BucketCrypto BucketStore
  BucketStore_store BucketStore_load
  by unfold_locales (simp_all add: bucket.roundtrip BucketStore_store_def BucketStore_load_def)

section \<open>Merging\<close>

lemma beats_irrefl [simp]: "\<not> beats x x"
  by (simp add: beats_def)

lemma beats_asym: "beats x y \<Longrightarrow> \<not> beats y x"
  by (auto simp: beats_def)

lemma not_beats_iff: "\<not> beats x y \<longleftrightarrow> ko_lamport x < ko_lamport y \<or> ko_lamport x = ko_lamport y \<and> ko_writer_id x \<le> ko_writer_id y"
  by (simp add: beats_def not_less order_le_less) (metis order.asym order_less_irrefl)

lemma not_beats_trans: "\<not> beats x y \<Longrightarrow> \<not> beats y z \<Longrightarrow> \<not> beats x z"
  unfolding not_beats_iff by (elim disjE conjE) (auto intro: order_less_trans order_trans)

lemma not_beats_tie: "\<not> beats x y \<Longrightarrow> \<not> beats y x \<Longrightarrow> ko_lamport x = ko_lamport y \<and> ko_writer_id x = ko_writer_id y"
  unfolding not_beats_iff by (metis order.asym order_antisym)

interpretation lww: keyed_merge merge_entry "\<lambda>x y. if beats y x then y else x" "\<lambda>x y. \<not> beats x y"
proof unfold_locales
  show "btm_get (merge_entry (k, v) m) =
    (btm_get m)(k \<mapsto> case btm_get m k of None \<Rightarrow> v | Some x \<Rightarrow> if beats v x then v else x)" for k v and m :: bucket
    by (auto simp: merge_entry_def fun_eq_iff split: option.split)
  show "btm_inv (merge_entry e m)" if "btm_inv m" for e and m :: bucket
    using that by (auto simp: merge_entry_def split: option.split)
qed (auto dest: beats_asym not_beats_trans)

lemma Bucket_merge_fold: "Bucket_merge = (\<lambda>a b. fold merge_entry b a)"
  by (simp add: Bucket_merge_def fun_eq_iff)

lemma Bucket_get_merge:
  "btm_inv b \<Longrightarrow> Bucket_get (Bucket_merge a b) k =
    (case Bucket_get b k of None \<Rightarrow> Bucket_get a k
     | Some y \<Rightarrow> Some (case Bucket_get a k of None \<Rightarrow> y | Some x \<Rightarrow> if beats y x then y else x))"
  unfolding Bucket_get_def Bucket_merge_def by (rule lww.get_merge)

lemma Bucket_put_Inr_iff: "Bucket_put b k x = (b', Ok ()) \<longleftrightarrow> key_is_safe k \<and> b' = btm_insert k x b"
  by (auto simp: Bucket_put_def result_elims split: sum.splits)
    (auto simp: safe_key_def key_is_safe_def split: if_splits)

text \<open>
  C18. Replicas of a bucket converge: whatever states \<open>A\<close> are merged into each other, in any order,
  any number of times and along any route, two replicas that have heard of the same states hold the
  same map, as long as no two different versions of a key carry the same stamp \<open>(lamport, writer)\<close>.
  The version they hold of a key is one of the versions merged, and none of those beats it, so a key
  is never lost and never falls back to an older version.
\<close>

theorem bucket_replicas_converge:
  assumes "gossip Bucket_merge A m" "gossip Bucket_merge A n" "\<forall>a \<in> A. btm_inv a"
    and "\<forall>a \<in> A. \<forall>b \<in> A. \<forall>k x y. Bucket_get a k = Some x \<and> Bucket_get b k = Some y \<and>
      ko_lamport x = ko_lamport y \<and> ko_writer_id x = ko_writer_id y \<longrightarrow> x = y"
  shows "m = n \<and> btm_inv m \<and>
    (\<forall>k x. Bucket_get m k = Some x \<longleftrightarrow>
      (\<exists>a \<in> A. Bucket_get a k = Some x) \<and> (\<forall>a \<in> A. \<forall>y. Bucket_get a k = Some y \<longrightarrow> \<not> beats y x))"
proof -
  note g = assms(1,2) [unfolded Bucket_merge_fold]
  have nc: "\<forall>a \<in> A. \<forall>b \<in> A. no_clash (\<lambda>x y. \<not> beats x y) a b"
  proof (intro ballI)
    fix a b assume ab: "a \<in> A" "b \<in> A"
    then have "btm_inv a" "btm_inv b" using assms(3) by auto
    then show "no_clash (\<lambda>x y. \<not> beats x y) a b"
      using assms(4) ab by (auto simp: no_clash_def Bucket_get_def btm.get_Some_iff dest!: not_beats_tie)
  qed
  have "Bucket_get m k = Some x \<longleftrightarrow>
      (\<exists>a \<in> A. Bucket_get a k = Some x) \<and> (\<forall>a \<in> A. \<forall>y. Bucket_get a k = Some y \<longrightarrow> \<not> beats y x)" (is "?l \<longleftrightarrow> ?r") for k x
  proof
    assume ?l
    then show ?r using lww.gossip_best [OF g(1) assms(3), of k] by (auto simp: Bucket_get_def)
  next
    assume r: ?r
    then obtain v where v: "btm_get m k = Some v" "\<exists>a \<in> A. btm_get a k = Some v"
      "\<forall>a \<in> A. \<forall>w. btm_get a k = Some w \<longrightarrow> \<not> beats w v"
      using lww.gossip_best [OF g(1) assms(3), of k] unfolding Bucket_get_def by (metis option.exhaust option.discI)
    then have "\<not> beats x v" "\<not> beats v x" using r by (auto simp: Bucket_get_def)
    from not_beats_tie [OF this] have "v = x" using v(2) r assms(4) unfolding Bucket_get_def by metis
    with v(1) show ?l by (simp add: Bucket_get_def)
  qed
  then show ?thesis
    using lww.gossip_converges [OF g assms(3) nc] lww.gossip_inv [OF g(1) assms(3)] by blast
qed

text \<open>
  The condition on stamps is needed: two versions of a key with one stamp do not converge, each side
  keeps its own. Devices of one passphrase sign with one slot identity, which is the writer id, so
  they can make such versions of a key neither has seen the other write.
\<close>

lemma equal_stamps_diverge:
  assumes "ko_lamport x = ko_lamport y" "ko_writer_id x = ko_writer_id y"
  shows "Bucket_merge [(k, x)] [(k, y)] = [(k, x)] \<and> Bucket_merge [(k, y)] [(k, x)] = [(k, y)]"
  using assms by (simp add: Bucket_merge_def merge_entry_def beats_def)

definition sample_version :: "u64 \<Rightarrow> u8 \<Rightarrow> key_object" where
  "sample_version n w = \<lparr>ko_lamport = n, ko_writer_id = replicate 32 w, ko_object = None\<rparr>"

theorem bucket_replicas_converge_witness:
  "Bucket_merge [([97], sample_version 1 7)] [([97], sample_version 1 9)] =
    Bucket_merge [([97], sample_version 1 9)] [([97], sample_version 1 7)]"
proof -
  let ?a = "[([97], sample_version 1 7)]" and ?b = "[([97], sample_version 1 9)]"
  have g: "gossip Bucket_merge {?a, ?b} (Bucket_merge ?a ?b)" "gossip Bucket_merge {?a, ?b} (Bucket_merge ?b ?a)"
    using gossip.hear [OF gossip.own gossip.own, of Bucket_merge ?a ?b]
      gossip.hear [OF gossip.own gossip.own, of Bucket_merge ?b ?a] by (simp_all add: insert_commute)
  show ?thesis
    using bucket_replicas_converge [OF g] by (auto simp: Bucket_get_def sample_version_def split: if_splits)
qed

text \<open>
  A write stamped with \<open>next_lamport\<close> wins over everything its author had seen: a replica that
  has nothing newer than the author's own copy of the key cannot undo the write, nor a deletion,
  whichever side merges into the other, and the other keys are not touched by it.
\<close>

theorem write_survives_stale_replicas:
  assumes "btm_inv b" "btm_inv c"
    and "\<forall>y. Bucket_get c k = Some y \<longrightarrow> (\<exists>x. Bucket_get b k = Some x \<and> \<not> beats y x)"
    and "\<forall>x. Bucket_get b k = Some x \<longrightarrow> ko_lamport x \<noteq> - 1"
    and "Bucket_put b k o' = (b', Ok ())" "ko_lamport o' = next_lamport b k"
  shows "Bucket_live (Bucket_merge b' c) k = ko_object o' \<and> Bucket_live (Bucket_merge c b') k = ko_object o' \<and>
    (\<forall>j. j \<noteq> k \<longrightarrow> Bucket_get (Bucket_merge b' c) j = Bucket_get (Bucket_merge b c) j \<and>
      Bucket_get (Bucket_merge c b') j = Bucket_get (Bucket_merge c b) j)"
proof -
  have b': "b' = btm_insert k o' b" using assms(5) by (simp add: Bucket_put_Inr_iff)
  then have inv: "btm_inv b'" and get: "Bucket_get b' = (Bucket_get b)(k \<mapsto> o')"
    using assms(1) by (auto simp: Bucket_get_def fun_eq_iff)
  have win: "beats o' y" if y: "Bucket_get c k = Some y" for y
  proof -
    obtain x where x: "Bucket_get b k = Some x" "\<not> beats y x" using assms(3) y by blast
    have "ko_lamport x < saturating_add (ko_lamport x) 1"
      using assms(4) x(1) by (simp add: saturating_add_one_less)
    then have "ko_lamport x < ko_lamport o'" using x(1) assms(6) by (simp add: next_lamport_def Bucket_get_def)
    then show ?thesis using x(2) by (auto simp: beats_def)
  qed
  have "Bucket_get (Bucket_merge b' c) k = Some o'" "Bucket_get (Bucket_merge c b') k = Some o'"
    using win by (auto simp: Bucket_get_merge assms(2) inv get dest: beats_asym split: option.split)
  moreover have "Bucket_get (Bucket_merge b' c) j = Bucket_get (Bucket_merge b c) j"
    "Bucket_get (Bucket_merge c b') j = Bucket_get (Bucket_merge c b) j" if "j \<noteq> k" for j
    using that by (simp_all only: Bucket_get_merge assms(1,2) inv get fun_upd_other not_False_eq_True)
  ultimately show ?thesis by (simp add: Bucket_live_def Bucket_get_def)
qed

theorem write_survives_stale_replicas_witness:
  "Bucket_live (Bucket_merge [([97], sample_version 3 1)] [([97], sample_version 2 9)]) [97] = None"
proof -
  have put: "Bucket_put [([97], sample_version 2 9)] [97] (sample_version 3 1) = ([([97], sample_version 3 1)], Ok ())"
    by (simp add: Bucket_put_Inr_iff key_is_safe_def)
  show ?thesis
    using write_survives_stale_replicas [OF _ _ _ _ put, of "[([97], sample_version 2 9)]"]
    by (simp add: Bucket_get_def next_lamport_def saturating_add_def sample_version_def)
qed

text \<open>
  At the largest stamp \<open>next_lamport\<close> is no longer one past what is there: a key whose stamp some
  writer set to \<open>u64::MAX\<close> can no longer be changed by a writer with a smaller id.
\<close>

lemma saturated_key_is_frozen:
  assumes "btm_inv b" "Bucket_get b k = Some x" "ko_lamport x = - 1" "ko_writer_id o' < ko_writer_id x"
    "ko_lamport o' = next_lamport b k" "Bucket_put b k o' = (b', Ok ())"
  shows "Bucket_get (Bucket_merge b' b) k = Some x"
proof -
  have "ko_lamport o' = - 1"
    using assms(2,3,5) saturating_add_ge [of "- 1 :: u64" 1] by (simp add: next_lamport_def Bucket_get_def word_order.extremum_unique)
  then have "beats x o'" using assms(3,4) by (simp add: beats_def)
  moreover have "Bucket_get b' k = Some o'" using assms(6) by (simp add: Bucket_put_Inr_iff Bucket_get_def)
  ultimately show ?thesis using assms(1,2) by (simp add: Bucket_get_merge)
qed

end
