(* ===== verification/Text.thy ===== *)
theory Text
  imports Core_Types
begin

text \<open>
  The operations of the standard library on text that several components use: a \<open>str\<close> is its UTF-8
  bytes, so searching, splitting and stripping are operations on byte lists. Lossy decoding, hex
  digits, ASCII case, trimming of white space, splitting and joining, searching, and decimal numbers.
\<close>

section \<open>Lossy decoding and hex digits\<close>

text \<open>
  \<open>String::from_utf8_lossy\<close> of the standard library: each longest prefix of an ill-formed sequence
  becomes one replacement character.
\<close>

definition REPLACEMENT :: bytes where "REPLACEMENT = [0xEF, 0xBF, 0xBD]"

function from_utf8_lossy :: "bytes \<Rightarrow> bytes" where
  "from_utf8_lossy [] = []"
| "from_utf8_lossy (b # bs) =
    (if b < 0x80 then b # from_utf8_lossy bs
     else if 0xC2 \<le> b \<and> b \<le> 0xDF then
       (case bs of
          c # r \<Rightarrow> if utf8_cont c then b # c # from_utf8_lossy r else REPLACEMENT @ from_utf8_lossy bs
        | _ \<Rightarrow> REPLACEMENT)
     else if 0xE0 \<le> b \<and> b \<le> 0xEF then
       (case bs of
          c # r \<Rightarrow>
            if \<not> utf8_second b c then REPLACEMENT @ from_utf8_lossy bs
            else (case r of
                    d # r' \<Rightarrow> if utf8_cont d then b # c # d # from_utf8_lossy r' else REPLACEMENT @ from_utf8_lossy r
                  | _ \<Rightarrow> REPLACEMENT)
        | _ \<Rightarrow> REPLACEMENT)
     else if 0xF0 \<le> b \<and> b \<le> 0xF4 then
       (case bs of
          c # r \<Rightarrow>
            if \<not> utf8_second b c then REPLACEMENT @ from_utf8_lossy bs
            else (case r of
                    d # r' \<Rightarrow>
                      if \<not> utf8_cont d then REPLACEMENT @ from_utf8_lossy r
                      else (case r' of
                              e # r'' \<Rightarrow>
                                if utf8_cont e then b # c # d # e # from_utf8_lossy r'' else REPLACEMENT @ from_utf8_lossy r'
                            | _ \<Rightarrow> REPLACEMENT)
                  | _ \<Rightarrow> REPLACEMENT)
        | _ \<Rightarrow> REPLACEMENT)
     else REPLACEMENT @ from_utf8_lossy bs)"
  by pat_completeness auto
termination
  by (relation "measure length") auto

declare from_utf8_lossy.simps(2) [simp del]

lemma lossy_of_valid: "from_utf8_ok bs \<Longrightarrow> from_utf8_lossy bs = bs"
proof (induction bs rule: from_utf8_ok.induct)
  case (2 b bs)
  then show ?case by (subst from_utf8_lossy.simps(2)) (auto split: if_splits list.splits)
qed simp

text \<open>Lossy decoding always yields text.\<close>

lemma utf8_replacement: "from_utf8_ok (REPLACEMENT @ r) = from_utf8_ok r"
  by (simp add: REPLACEMENT_def utf8_cont_def utf8_second_def)

lemma utf8_lead:
  "b < 0x80 \<Longrightarrow> from_utf8_ok (b # r) = from_utf8_ok r"
  "\<not> b < 0x80 \<Longrightarrow> 0xC2 \<le> b \<and> b \<le> 0xDF \<Longrightarrow> utf8_cont c \<Longrightarrow> from_utf8_ok (b # c # r) = from_utf8_ok r"
  "\<not> b < 0x80 \<Longrightarrow> \<not> (0xC2 \<le> b \<and> b \<le> 0xDF) \<Longrightarrow> 0xE0 \<le> b \<and> b \<le> 0xEF \<Longrightarrow> utf8_second b c \<Longrightarrow> utf8_cont d \<Longrightarrow>
    from_utf8_ok (b # c # d # r) = from_utf8_ok r"
  "\<not> b < 0x80 \<Longrightarrow> \<not> (0xC2 \<le> b \<and> b \<le> 0xDF) \<Longrightarrow> \<not> (0xE0 \<le> b \<and> b \<le> 0xEF) \<Longrightarrow> 0xF0 \<le> b \<and> b \<le> 0xF4 \<Longrightarrow>
    utf8_second b c \<Longrightarrow> utf8_cont d \<Longrightarrow> utf8_cont e \<Longrightarrow> from_utf8_ok (b # c # d # e # r) = from_utf8_ok r"
  by (subst from_utf8_ok.simps(2), simp only: if_True if_False list.case simp_thms)+

lemma utf8_ascii: "\<forall>b \<in> set s. b < 0x80 \<Longrightarrow> from_utf8_ok s"
  by (induction s) (simp_all add: utf8_lead(1) del: from_utf8_ok.simps(2))

lemma lossy_is_text: "from_utf8_ok (from_utf8_lossy bs)"
proof (induction bs rule: length_induct)
  case (1 bs)
  show ?case
  proof (cases bs)
    case (Cons b r)
    have IH: "length ys \<le> length r \<Longrightarrow> from_utf8_ok (from_utf8_lossy ys)" for ys using 1 Cons by simp
    have R: "from_utf8_ok REPLACEMENT" using utf8_replacement [of "[]"] by simp
    note rules = IH R utf8_replacement utf8_lead from_utf8_ok.simps(1)
    show ?thesis
      unfolding Cons from_utf8_lossy.simps(2)
      by (cases r; cases "tl r"; cases "tl (tl r)") (auto simp del: from_utf8_ok.simps simp: rules)
  qed simp
qed

text \<open>
  \<open>u8::from_str_radix(s, 16)\<close> of the standard library on a string of two bytes: either case, and a
  leading plus sign. A byte of a multi-byte character is no digit, so cutting inside one and parsing
  one both end in \<open>None\<close>.
\<close>

definition radix16_digit :: "u8 \<Rightarrow> u8 option" where
  "radix16_digit c =
    (if 48 \<le> c \<and> c \<le> 57 then Some (c - 48)
     else if 97 \<le> c \<and> c \<le> 102 then Some (c - 97 + 10)
     else if 65 \<le> c \<and> c \<le> 70 then Some (c - 65 + 10)
     else None)"

definition radix16_u8 :: "u8 \<Rightarrow> u8 \<Rightarrow> u8 option" where
  "radix16_u8 h l =
    (if h = 43 then radix16_digit l
     else Option.bind (radix16_digit h) (\<lambda>hi. Option.bind (radix16_digit l) (\<lambda>lo. Some (hi * 16 + lo))))"

lemma radix16_table:
  "\<forall>n \<in> set [0..<16]. radix16_digit (hex_digit n) = Some (word_of_nat n) \<and> hex_digit n \<noteq> 43"
  by code_simp

lemma radix16_digits: "n < 16 \<Longrightarrow> radix16_digit (hex_digit n) = Some (of_nat n)" "n < 16 \<Longrightarrow> hex_digit n \<noteq> 43"
  using radix16_table by simp_all

lemma radix16_byte: "radix16_u8 (hex_digit (unat b div 16)) (hex_digit (unat b mod 16)) = Some b"
proof -
  have d: "unat b div 16 < 16" and m: "unat b mod 16 < 16"
    using unat_u8_less [of b] by (simp_all add: div_less_iff_less_mult)
  have "of_nat (unat b div 16) * 16 + of_nat (unat b mod 16) = (of_nat (unat b div 16 * 16 + unat b mod 16) :: u8)"
    by (simp only: of_nat_add of_nat_mult of_nat_numeral)
  then show ?thesis using d m by (simp add: radix16_u8_def radix16_digits)
qed

text \<open>Two digits at a time, as \<open>s.get(i * 2..i * 2 + 2)\<close> cuts them.\<close>

fun radix16_pairs :: "bytes \<Rightarrow> bytes option" where
  "radix16_pairs (h # l # r) =
    Option.bind (radix16_u8 h l) (\<lambda>b. Option.bind (radix16_pairs r) (\<lambda>out. Some (b # out)))"
| "radix16_pairs _ = Some []"

lemma radix16_pairs_digits:
  "radix16_pairs (concat (map (\<lambda>b. [hex_digit (unat b div 16), hex_digit (unat b mod 16)]) bs)) = Some bs"
  by (induction bs) (simp_all add: radix16_byte)

lemma radix16_pairs_length: "even (length s) \<Longrightarrow> radix16_pairs s = Some bs \<Longrightarrow> length s = 2 * length bs"
  by (induction s arbitrary: bs rule: radix16_pairs.induct) (auto simp: bind_eq_Some_conv)

section \<open>ASCII case\<close>

definition ascii_lower :: "u8 \<Rightarrow> u8" where
  "ascii_lower b = (if 65 \<le> b \<and> b \<le> 90 then b + 32 else b)"

definition ascii_upper :: "u8 \<Rightarrow> u8" where
  "ascii_upper b = (if 97 \<le> b \<and> b \<le> 122 then b - 32 else b)"

definition to_ascii_lowercase :: "bytes \<Rightarrow> bytes" where "to_ascii_lowercase = map ascii_lower"

definition to_ascii_uppercase :: "bytes \<Rightarrow> bytes" where "to_ascii_uppercase = map ascii_upper"

section \<open>Splitting, joining and searching\<close>

text \<open>\<open>str::split\<close> on one ASCII character yields at least one part.\<close>

fun split_on :: "u8 \<Rightarrow> bytes \<Rightarrow> bytes list" where
  "split_on c [] = [[]]"
| "split_on c (b # bs) =
    (if b = c then [] # split_on c bs
     else (case split_on c bs of [] \<Rightarrow> [[b]] | p # ps \<Rightarrow> (b # p) # ps))"

fun join_with :: "bytes \<Rightarrow> bytes list \<Rightarrow> bytes" where
  "join_with sep [] = []"
| "join_with sep [p] = p"
| "join_with sep (p # ps) = p @ sep @ join_with sep ps"

fun split_once :: "u8 \<Rightarrow> bytes \<Rightarrow> (bytes \<times> bytes) option" where
  "split_once c [] = None"
| "split_once c (b # bs) =
    (if b = c then Some ([], bs) else map_option (\<lambda>(l, r). (b # l, r)) (split_once c bs))"

definition starts_with :: "bytes \<Rightarrow> bytes \<Rightarrow> bool" where
  "starts_with s p \<longleftrightarrow> take (length p) s = p"

definition strip_prefix :: "bytes \<Rightarrow> bytes \<Rightarrow> bytes option" where
  "strip_prefix p s = (if starts_with s p then Some (drop (length p) s) else None)"

text \<open>The position of the first occurrence of a non-empty pattern.\<close>

fun find_sub :: "bytes \<Rightarrow> bytes \<Rightarrow> nat option" where
  "find_sub p [] = None"
| "find_sub p (b # bs) = (if starts_with (b # bs) p then Some 0 else map_option Suc (find_sub p bs))"

definition split_once_str :: "bytes \<Rightarrow> bytes \<Rightarrow> (bytes \<times> bytes) option" where
  "split_once_str p s = map_option (\<lambda>i. (take i s, drop (i + length p) s)) (find_sub p s)"

lemma starts_with_iff: "starts_with s p \<longleftrightarrow> (\<exists>r. s = p @ r)"
  unfolding starts_with_def by (metis append_eq_conv_conj append_take_drop_id)

lemma starts_with_append [simp]: "starts_with (p @ r) p"
  by (simp add: starts_with_def)

lemma strip_prefix_iff [simp]: "strip_prefix p s = Some r \<longleftrightarrow> s = p @ r"
  by (auto simp: strip_prefix_def starts_with_iff)

lemma strip_prefix_append [simp]: "strip_prefix p (p @ r) = Some r"
  by simp

lemma split_on_not_Nil [simp]: "split_on c s \<noteq> []"
  by (cases s) (auto split: list.split)

lemma split_on_no [simp]: "c \<notin> set s \<Longrightarrow> split_on c s = [s]"
  by (induction s) auto

lemma split_on_append: "c \<notin> set p \<Longrightarrow> split_on c (p @ c # s) = p # split_on c s"
  by (induction p) auto

lemma join_split_on [simp]: "join_with [c] (split_on c s) = s"
proof (induction s)
  case (Cons b s)
  note IH = Cons.IH
  show ?case
  proof (cases "split_on c s")
    case (Cons p ps)
    then show ?thesis using IH by (cases ps) auto
  qed simp
qed simp

lemma join_with_Cons: "ps \<noteq> [] \<Longrightarrow> join_with sep (p # ps) = p @ sep @ join_with sep ps"
  by (cases ps) simp_all

lemma split_on_join:
  "ps \<noteq> [] \<Longrightarrow> \<forall>p \<in> set ps. c \<notin> set p \<Longrightarrow> split_on c (join_with [c] ps) = ps"
proof (induction ps)
  case (Cons p ps)
  then show ?case by (cases ps) (simp_all add: split_on_append)
qed simp

lemma split_on_parts: "p \<in> set (split_on c s) \<Longrightarrow> c \<notin> set p \<and> set p \<subseteq> set s"
proof (induction s arbitrary: p)
  case (Cons b s)
  then show ?case by (cases "split_on c s") (auto split: if_splits, fastforce+)
qed simp

lemma split_once_None [simp]: "split_once c s = None \<longleftrightarrow> c \<notin> set s"
  by (induction s) auto

lemma split_once_Some [simp]: "split_once c s = Some (l, r) \<longleftrightarrow> s = l @ c # r \<and> c \<notin> set l"
proof (induction s arbitrary: l)
  case (Cons b s)
  then show ?case by (cases l) auto
qed simp

section \<open>White space\<close>

text \<open>
  White-space characters: the ASCII ones and the encodings of U+0085,
  U+00A0, U+1680, U+2000 to U+200A, U+2028, U+2029, U+202F, U+205F and U+3000.
\<close>

definition white1 :: "u8 \<Rightarrow> bool" where
  "white1 b \<longleftrightarrow> b = 32 \<or> 9 \<le> b \<and> b \<le> 13"

definition white2 :: "u8 \<Rightarrow> u8 \<Rightarrow> bool" where
  "white2 b c \<longleftrightarrow> b = 0xC2 \<and> (c = 0x85 \<or> c = 0xA0)"

definition white3 :: "u8 \<Rightarrow> u8 \<Rightarrow> u8 \<Rightarrow> bool" where
  "white3 b c d \<longleftrightarrow> b = 0xE1 \<and> c = 0x9A \<and> d = 0x80 \<or>
    b = 0xE2 \<and> c = 0x80 \<and> (0x80 \<le> d \<and> d \<le> 0x8A \<or> d = 0xA8 \<or> d = 0xA9 \<or> d = 0xAF) \<or>
    b = 0xE2 \<and> c = 0x81 \<and> d = 0x9F \<or> b = 0xE3 \<and> c = 0x80 \<and> d = 0x80"

definition white_len :: "bytes \<Rightarrow> nat" where
  "white_len s =
    (case s of [] \<Rightarrow> 0
     | b # r \<Rightarrow> if white1 b then 1 else
         (case r of [] \<Rightarrow> 0
          | c # r' \<Rightarrow> if white2 b c then 2 else (case r' of [] \<Rightarrow> 0 | d # _ \<Rightarrow> if white3 b c d then 3 else 0)))"

definition white_len_rev :: "bytes \<Rightarrow> nat" where
  "white_len_rev s =
    (case s of [] \<Rightarrow> 0
     | b # r \<Rightarrow> if white1 b then 1 else
         (case r of [] \<Rightarrow> 0
          | c # r' \<Rightarrow> if white2 c b then 2 else (case r' of [] \<Rightarrow> 0 | d # _ \<Rightarrow> if white3 d c b then 3 else 0)))"

function trim_by :: "(bytes \<Rightarrow> nat) \<Rightarrow> bytes \<Rightarrow> bytes" where
  "trim_by wl s = (if s = [] \<or> wl s = 0 then s else trim_by wl (drop (wl s) s))"
  by pat_completeness auto
termination
  by (relation "measure (length o snd)") auto

declare trim_by.simps [simp del]

definition trim_start :: "bytes \<Rightarrow> bytes" where "trim_start s = trim_by white_len s"

definition trim_end :: "bytes \<Rightarrow> bytes" where "trim_end s = rev (trim_by white_len_rev (rev s))"

definition trim :: "bytes \<Rightarrow> bytes" where "trim s = trim_end (trim_start s)"

text \<open>Printable ASCII characters are never trimmed.\<close>

definition graphic :: "u8 \<Rightarrow> bool" where "graphic b \<longleftrightarrow> 33 \<le> b \<and> b \<le> 126"

lemma white_len_graphic [simp]: "graphic b \<Longrightarrow> white_len (b # s) = 0" "graphic b \<Longrightarrow> white_len_rev (b # s) = 0"
proof -
  assume b: "graphic b"
  then have u: "33 \<le> unat b" "unat b \<le> 126" by (simp_all add: graphic_def word_le_nat_alt)
  have w: "\<not> white1 b" "\<And>c. \<not> white2 b c" "\<And>c. \<not> white2 c b" "\<And>c d. \<not> white3 b c d" "\<And>c d. \<not> white3 d c b"
    using u by (auto simp: white1_def white2_def white3_def word_le_nat_alt)
  show "white_len (b # s) = 0" "white_len_rev (b # s) = 0"
    using w by (simp_all add: white_len_def white_len_rev_def split: list.split)
qed

lemma trim_start_graphic [simp]: "graphic b \<Longrightarrow> trim_start (b # s) = b # s"
  by (simp add: trim_start_def trim_by.simps)

lemma trim_end_graphic [simp]: "graphic b \<Longrightarrow> trim_end (s @ [b]) = s @ [b]"
  by (simp add: trim_end_def trim_by.simps)

lemma trim_nil [simp]: "trim_start [] = []" "trim_end [] = []" "trim [] = []"
  by (simp_all add: trim_start_def trim_end_def trim_def trim_by.simps)

lemma trim_graphic: "s \<noteq> [] \<Longrightarrow> graphic (hd s) \<Longrightarrow> graphic (last s) \<Longrightarrow> trim s = s"
  unfolding trim_def by (metis append_butlast_last_id list.collapse trim_end_graphic trim_start_graphic)

lemma trim_space [simp]: "trim (32 # s) = trim s"
  by (simp add: trim_def trim_start_def) (subst trim_by.simps, simp add: white_len_def white1_def)

lemma trim_by_suffix: "\<exists>p. s = p @ trim_by wl s"
proof (induction wl s rule: trim_by.induct)
  case (1 wl s)
  show ?case
  proof (cases "s = [] \<or> wl s = 0")
    case False
    then obtain p where "drop (wl s) s = p @ trim_by wl (drop (wl s) s)" using 1 [OF False] by (elim exE)
    then have "s = (take (wl s) s @ p) @ trim_by wl (drop (wl s) s)" by (metis append_assoc append_take_drop_id)
    then show ?thesis using False by (metis trim_by.simps)
  qed (simp add: trim_by.simps)
qed

lemma trim_infix: "\<exists>p q. s = p @ trim s @ q"
proof -
  obtain p where p: "s = p @ trim_start s" using trim_by_suffix [of s white_len] by (auto simp: trim_start_def)
  obtain q where "rev (trim_start s) = q @ trim_by white_len_rev (rev (trim_start s))" using trim_by_suffix by blast
  then have "trim_start s = trim s @ rev q" unfolding trim_def trim_end_def by (metis rev_append rev_rev_ident)
  then show ?thesis using p by metis
qed

lemma set_trim: "set (trim s) \<subseteq> set s"
  using trim_infix [of s] by (metis Un_iff set_append subsetI)

section \<open>Decimal numbers\<close>

fun dec :: "nat \<Rightarrow> bytes" where
  "dec n = (if n < 10 then [48 + of_nat n] else dec (n div 10) @ [48 + of_nat (n mod 10)])"

declare dec.simps [simp del]

definition dec_digit :: "u8 \<Rightarrow> bool" where "dec_digit c \<longleftrightarrow> 48 \<le> c \<and> c \<le> 57"

definition dec_value :: "bytes \<Rightarrow> int" where "dec_value s = foldl (\<lambda>v c. v * 10 + uint (c - 48)) 0 s"

text \<open>
  \<open>str::parse::<u64>\<close>: an optional plus sign and at least one digit, refused when the value does not
  fit. The value only grows while digits are read, so testing it once is testing it at each digit.
\<close>

definition parse_u64 :: "bytes \<Rightarrow> u64 option" where
  "parse_u64 s =
    (let d = (if s \<noteq> [] \<and> hd s = 43 then tl s else s) in
     if d = [] \<or> \<not> list_all dec_digit d \<or> 2 ^ 64 \<le> dec_value d then None else Some (of_int (dec_value d)))"

lemma dec_digit_of: "n < 10 \<Longrightarrow> dec_digit (48 + of_nat n) \<and> uint ((48 + of_nat n :: u8) - 48) = int n"
proof -
  assume n: "n < 10"
  have "\<forall>m \<in> set [0..<10]. dec_digit (48 + word_of_nat m) \<and> uint ((48 + word_of_nat m :: u8) - 48) = int m" by code_simp
  then show ?thesis using n by simp
qed

lemma dec_digits: "dec n \<noteq> [] \<and> list_all dec_digit (dec n) \<and> dec_value (dec n) = int n"
proof (induction n rule: dec.induct)
  case (1 n)
  show ?case
  proof (cases "n < 10")
    case True
    then show ?thesis using dec_digit_of by (subst (1 2 3) dec.simps) (simp add: dec_value_def)
  next
    case False
    have "int (n div 10) * 10 + int (n mod 10) = int n" by (simp flip: of_nat_mult of_nat_add add: zdiv_int zmod_int)
    then show ?thesis
      using 1 False dec_digit_of [of "n mod 10"] by (subst (1 2 3) dec.simps) (simp add: dec_value_def)
  qed
qed

lemma parse_dec: "n < 2 ^ 64 \<Longrightarrow> parse_u64 (dec n) = Some (of_nat n)"
proof -
  assume n: "n < 2 ^ 64"
  have d: "dec n \<noteq> []" "list_all dec_digit (dec n)" "dec_value (dec n) = int n" using dec_digits [of n] by auto
  then have "dec_digit (hd (dec n))" by (cases "dec n") auto
  then have "hd (dec n) \<noteq> 43" by (auto simp: dec_digit_def)
  then show ?thesis using d n by (simp add: parse_u64_def Let_def)
qed

lemma dec_graphic: "c \<in> set (dec n) \<Longrightarrow> graphic c"
  using dec_digits [of n] by (auto simp: list_all_iff dec_digit_def graphic_def word_le_nat_alt)

end
