(* ===== verification/Git_Index.thy ===== *)
theory Git_Index
  imports Sealed_Store Entry_Table Text
begin

text \<open>
  \<open>nas-store/src/git.rs\<close>: the sealed table from git object id to blob address, its canonical
  encoding, and the hex spelling of object ids the remote helper parses.
\<close>

definition GIT_MAGIC :: bytes where
  "GIT_MAGIC = byte_str ''NASG''"

definition GIT_AAD :: bytes where
  "GIT_AAD = byte_str ''nas-tools/aad/git-oidmap/v1''"

definition GIT_OID_LEN :: usize where
  "GIT_OID_LEN = 20"

definition GIT_VERSION :: u8 where
  "GIT_VERSION = 1"

datatype git_kind = GitBlob | GitTree | GitCommit | GitTag

fun GitKind_as_str :: "git_kind \<Rightarrow> bytes" where
  "GitKind_as_str GitBlob = byte_str ''blob''"
| "GitKind_as_str GitTree = byte_str ''tree''"
| "GitKind_as_str GitCommit = byte_str ''commit''"
| "GitKind_as_str GitTag = byte_str ''tag''"

definition GitKind_parse :: "bytes \<Rightarrow> git_kind option" where
  "GitKind_parse s =
    (if s = byte_str ''blob'' then Some GitBlob
     else if s = byte_str ''tree'' then Some GitTree
     else if s = byte_str ''commit'' then Some GitCommit
     else if s = byte_str ''tag'' then Some GitTag
     else None)"

fun GitKind_u8 :: "git_kind \<Rightarrow> u8" where
  "GitKind_u8 GitBlob = 1"
| "GitKind_u8 GitTree = 2"
| "GitKind_u8 GitCommit = 3"
| "GitKind_u8 GitTag = 4"

definition GitKind_from_u8 :: "u8 \<Rightarrow> git_kind option" where
  "GitKind_from_u8 v =
    (if v = 1 then Some GitBlob else if v = 2 then Some GitTree else if v = 3 then Some GitCommit
     else if v = 4 then Some GitTag else None)"

record oid_entry =
  oe_addr :: addr
  oe_kind :: git_kind
  oe_size :: u32

type_synonym oid_map = "(bytes, oid_entry) btreemap"

datatype git_error =
    GitStoreErr store_error
  | GitCrypto crypto_error
  | GitDecode decode_error
  | GitBadMagic
  | GitBadVersion u8
  | GitBadWidth string usize usize
  | GitRagged usize
  | GitBadKind u8
  | GitNonCanonical string

section \<open>Object ids in hex\<close>

definition oid_to_hex :: "bytes \<Rightarrow> bytes" where
  "oid_to_hex oid = concat (map (\<lambda>b. [hex_digit (unat b div 16), hex_digit (unat b mod 16)]) oid)"

definition oid_from_hex :: "bytes \<Rightarrow> bytes option" where
  "oid_from_hex s = (if length s \<noteq> 40 then None else radix16_pairs s)"

section \<open>The map\<close>

definition OidMap_get :: "oid_map \<Rightarrow> bytes \<Rightarrow> oid_entry option" where
  "OidMap_get m oid = btm_get m oid"

definition OidMap_insert :: "oid_map \<Rightarrow> bytes \<Rightarrow> oid_entry \<Rightarrow> oid_map" where
  "OidMap_insert m oid e = btm_insert oid e m"

definition oid_entry_fields :: "bytes \<times> oid_entry \<Rightarrow> git_error + bytes list" where
  "oid_entry_fields kv = Ok [fst kv, oe_addr (snd kv), [GitKind_u8 (oe_kind (snd kv))], u32_le (oe_size (snd kv))]"

definition OidMap_encode :: "oid_map \<Rightarrow> git_error + bytes" where
  "OidMap_encode m =
    rbind (lay_entries oid_entry_fields m) (\<lambda>fs.
    map_err GitDecode (encode_fields (GIT_MAGIC # [GIT_VERSION] # fs)))"

definition oid_key :: "bytes list \<Rightarrow> git_error + bytes" where
  "oid_key f = fixed_width GitBadWidth GIT_OID_LEN ''oid'' (f ! 0)"

definition oid_value :: "bytes list \<Rightarrow> git_error + oid_entry" where
  "oid_value f =
    rbind (fixed_width GitBadWidth ADDR_LEN ''addr'' (f ! 1)) (\<lambda>addr.
    rbind (fixed_width GitBadWidth 1 ''kind'' (f ! 2)) (\<lambda>kind_b.
    rbind (ok_or (GitKind_from_u8 (hd kind_b)) (GitBadKind (hd kind_b))) (\<lambda>kind.
    rbind (fixed_width GitBadWidth 4 ''size'' (f ! 3)) (\<lambda>size.
    Ok \<lparr>oe_addr = addr, oe_kind = kind, oe_size = u32_of_le size\<rparr>))))"

definition OidMap_decode :: "bytes \<Rightarrow> git_error + oid_map" where
  "OidMap_decode bs =
    rbind (map_err GitDecode (decode_fields bs)) (\<lambda>f.
    if f = [] \<or> hd f \<noteq> GIT_MAGIC then Err GitBadMagic
    else if length f < 2 then Err (GitRagged (length f))
    else rbind (fixed_width GitBadWidth 1 ''version'' (f ! 1)) (\<lambda>v.
    if hd v \<noteq> GIT_VERSION then Err (GitBadVersion (hd v))
    else if \<not> 4 dvd length f - 2 then Err (GitRagged (length f - 2))
    else asc_entries 4 oid_key oid_value (GitNonCanonical ''oids are not in ascending order'')
           (GitNonCanonical ''duplicate oid'') None (drop 2 f) []))"

definition GitStore_store_map ::
  "backend \<Rightarrow> aead \<Rightarrow> os \<Rightarrow> sealer \<Rightarrow> bytes \<Rightarrow> oid_map \<Rightarrow> disk \<Rightarrow> disk \<times> (git_error + addr)" where
  "GitStore_store_map B A S slr dir m d =
    (case OidMap_encode m of
       Inl e \<Rightarrow> (d, Err e)
     | Inr plain \<Rightarrow> put_sealed B A S slr GIT_AAD GitCrypto GitStoreErr dir plain d)"

definition GitStore_load_map ::
  "backend \<Rightarrow> aead \<Rightarrow> io_env \<Rightarrow> sealer \<Rightarrow> blob_store \<Rightarrow> bytes \<Rightarrow> addr \<Rightarrow> git_error + oid_map" where
  "GitStore_load_map B A io slr st dir a =
    rbind (get_sealed B A io slr GIT_AAD GitCrypto GitStoreErr st dir a) OidMap_decode"

section \<open>Kinds and ids\<close>

lemma GitKind_parse_iff: "GitKind_parse s = Some k \<longleftrightarrow> s = GitKind_as_str k"
  by (cases k) (auto simp: GitKind_parse_def byte_str_def)

lemma GitKind_from_u8_iff: "GitKind_from_u8 v = Some k \<longleftrightarrow> v = GitKind_u8 k"
  by (cases k) (auto simp: GitKind_from_u8_def)

lemma oid_from_hex_to_hex: "arr GIT_OID_LEN oid \<Longrightarrow> oid_from_hex (oid_to_hex oid) = Some oid"
proof -
  assume "arr GIT_OID_LEN oid"
  then have "length (oid_to_hex oid) = 40"
    using length_to_hex [of oid] by (simp add: GIT_OID_LEN_def oid_to_hex_def to_hex_def)
  then show ?thesis by (simp add: oid_from_hex_def oid_to_hex_def radix16_pairs_digits)
qed

lemma oid_from_hex_width: "oid_from_hex s = Some oid \<Longrightarrow> arr GIT_OID_LEN oid"
  using radix16_pairs_length [of s oid] by (auto simp: oid_from_hex_def GIT_OID_LEN_def split: if_splits)

text \<open>
  Unlike \<open>Addr::from_hex\<close>, the parser accepts spellings \<open>oid_to_hex\<close> never writes: capital digits,
  and a plus sign in place of a leading zero.
\<close>

lemma oid_spellings_are_not_unique:
  "oid_from_hex (concat (replicate 20 [43, 49])) = Some (replicate 20 1)"
  "oid_from_hex (replicate 40 65) = Some (replicate 20 170)"
  "oid_from_hex (oid_to_hex (replicate 20 1)) = Some (replicate 20 1)"
  "oid_to_hex (replicate 20 1) \<noteq> concat (replicate 20 [43, 49])"
  by code_simp+

section \<open>One encoding\<close>

definition wf_oid_entry :: "bytes \<times> oid_entry \<Rightarrow> bool" where
  "wf_oid_entry kv \<longleftrightarrow> arr GIT_OID_LEN (fst kv) \<and> arr ADDR_LEN (oe_addr (snd kv))"

definition wf_oid_map :: "oid_map \<Rightarrow> bool" where
  "wf_oid_map m \<longleftrightarrow> btm_inv m \<and> list_all wf_oid_entry m"

interpretation oid_map: table_file 4 oid_key oid_value oid_entry_fields wf_oid_entry
  "GitNonCanonical ''oids are not in ascending order''" "GitNonCanonical ''duplicate oid''"
  GIT_MAGIC GIT_VERSION GitDecode GitBadMagic GitRagged GitBadWidth GitBadVersion wf_oid_map OidMap_encode OidMap_decode
proof unfold_locales
  fix r :: "bytes list" and x :: "bytes \<times> oid_entry"
  assume "length r = 4"
  then obtain a b c d where r: "r = [a, b, c, d]" by (auto simp: length_Suc_conv numeral_eq_Suc)
  obtain k e where x: "x = (k, e)" by fastforce
  show "(oid_key r = Inr (fst x) \<and> oid_value r = Inr (snd x)) \<longleftrightarrow> wf_oid_entry x \<and> oid_entry_fields x = Inr r"
    by (cases e) (auto simp: r x oid_key_def oid_value_def oid_entry_fields_def wf_oid_entry_def result_elims
        GitKind_from_u8_iff length_Suc_conv)
qed (auto simp: oid_entry_fields_def wf_oid_map_def OidMap_encode_def OidMap_decode_def)

interpretation git_store: sealed_format OidMap_encode OidMap_decode wf_oid_map GIT_AAD GitCrypto GitStoreErr
  GitStore_store_map GitStore_load_map
  by unfold_locales (simp_all add: oid_map.roundtrip GitStore_store_map_def GitStore_load_map_def)

lemma OidMap_insert_wf: "wf_oid_map m \<Longrightarrow> wf_oid_entry (oid, e) \<Longrightarrow> wf_oid_map (OidMap_insert m oid e)"
proof -
  assume m: "wf_oid_map m" and e: "wf_oid_entry (oid, e)"
  have "set (btm_insert oid e m) \<subseteq> insert (oid, e) (set m)"
    by (induction oid e m rule: btm_insert.induct) auto
  then show ?thesis using m e by (auto simp: wf_oid_map_def OidMap_insert_def list_all_iff)
qed

lemma OidMap_insert_get: "OidMap_get (OidMap_insert m oid e) = (OidMap_get m)(oid \<mapsto> e)"
  by (simp add: OidMap_get_def OidMap_insert_def fun_eq_iff)

end
