(* ===== verification/Doc_Log.thy ===== *)
theory Doc_Log
  imports Sealed_Store Entry_Table Keyed_Merge
begin

text \<open>
  \<open>nas-store/src/doc.rs\<close>: the replicated log of a text document. A log is a map from operation oid to
  operation (insert a character after another, delete a character) and a clock per writer; the
  document is read off by walking the tree of inserts from \<open>ROOT\<close>, later ids first. A character is
  its Unicode scalar value, a text a list of them.

  The doc_walk recurses along \<open>after\<close> references, and on a log with an insert under the oid of \<open>ROOT\<close> it
  does not return, so it is a \<open>partial_function (option)\<close>. The additions \<open>clock + 1\<close> and
  \<open>3 + n_clock * 2\<close> are written with the wrap-around of a release build.
\<close>

definition DOC_MAGIC :: bytes where
  "DOC_MAGIC = byte_str ''NASO''"

definition DOC_AAD :: bytes where
  "DOC_AAD = byte_str ''nas-tools/aad/doc-oplog/v1''"

definition DOC_VERSION :: u8 where
  "DOC_VERSION = 1"

definition DOC_WRITER_LEN :: usize where
  "DOC_WRITER_LEN = 32"

definition POLL_ACTIVE_MS :: u64 where
  "POLL_ACTIVE_MS = 250"

definition POLL_IDLE_MS :: u64 where
  "POLL_IDLE_MS = 180000"

definition ACTIVE_WINDOW_MS :: u64 where
  "ACTIVE_WINDOW_MS = 2000"

definition SETTLING_MS :: u64 where
  "SETTLING_MS = 2000"

definition SETTLING_WINDOW_MS :: u64 where
  "SETTLING_WINDOW_MS = 30000"

datatype op_id = OpId (op_writer: bytes) (op_counter: u64)

text \<open>The derived order: by writer, then by counter.\<close>

instantiation op_id :: linorder
begin

definition less_eq_op_id :: "op_id \<Rightarrow> op_id \<Rightarrow> bool" where
  "less_eq_op_id a b \<longleftrightarrow> op_writer a < op_writer b \<or> op_writer a = op_writer b \<and> op_counter a \<le> op_counter b"

definition less_op_id :: "op_id \<Rightarrow> op_id \<Rightarrow> bool" where
  "less_op_id a b \<longleftrightarrow> op_writer a < op_writer b \<or> op_writer a = op_writer b \<and> op_counter a < op_counter b"

instance
proof
  fix a b c :: op_id
  show "a < b \<longleftrightarrow> a \<le> b \<and> \<not> b \<le> a"
    by (auto simp: less_eq_op_id_def less_op_id_def)
  show "a \<le> a" by (simp add: less_eq_op_id_def)
  show "a \<le> b \<Longrightarrow> b \<le> c \<Longrightarrow> a \<le> c" by (auto simp: less_eq_op_id_def)
  show "a \<le> b \<Longrightarrow> b \<le> a \<Longrightarrow> a = b" by (auto simp: less_eq_op_id_def op_id.expand)
  show "a \<le> b \<or> b \<le> a" by (auto simp: less_eq_op_id_def)
qed

end

definition ROOT :: op_id where
  "ROOT = OpId (replicate DOC_WRITER_LEN 0) 0"

datatype op_kind = OpInsert op_id u32 | OpDelete op_id

record doc_log =
  dl_ops :: "(op_id, op_kind) btreemap"
  dl_clock :: "(bytes, u64) btreemap"

datatype doc_error =
    DocStoreErr store_error
  | DocCrypto crypto_error
  | DocDecode decode_error
  | DocBadMagic
  | DocBadVersion u8
  | DocBadWidth string usize usize
  | DocRagged usize
  | DocBadKind u8
  | DocBadChar u32
  | DocRange
  | DocNonCanonical string

text \<open>\<open>char::from_u32\<close>: a Unicode scalar value.\<close>

definition char_from_u32 :: "u32 \<Rightarrow> u32 option" where
  "char_from_u32 c = (if c < 0x110000 \<and> \<not> (0xD800 \<le> c \<and> c \<le> 0xDFFF) then Some c else None)"

section \<open>Editing\<close>

definition next_id :: "bytes \<Rightarrow> doc_log \<Rightarrow> doc_log \<times> op_id" where
  "next_id writer l =
    (let n = (case btm_get (dl_clock l) writer of None \<Rightarrow> 0 | Some n \<Rightarrow> n) + 1 in
     (l\<lparr>dl_clock := btm_insert writer n (dl_clock l)\<rparr>, OpId writer n))"

definition insert_ch :: "bytes \<Rightarrow> op_id \<Rightarrow> u32 \<Rightarrow> doc_log \<Rightarrow> doc_log \<times> op_id" where
  "insert_ch writer after ch l =
    (let (l', oid) = next_id writer l in (l'\<lparr>dl_ops := btm_insert oid (OpInsert after ch) (dl_ops l')\<rparr>, oid))"

definition delete_id :: "bytes \<Rightarrow> op_id \<Rightarrow> doc_log \<Rightarrow> doc_log \<times> op_id" where
  "delete_id writer target l =
    (let (l', oid) = next_id writer l in (l'\<lparr>dl_ops := btm_insert oid (OpDelete target) (dl_ops l')\<rparr>, oid))"

section \<open>Reading\<close>

type_synonym kids = "(op_id, (op_id \<times> u32) list) btreemap"

definition collect_op :: "op_id \<times> op_kind \<Rightarrow> op_id btreeset \<times> kids \<Rightarrow> op_id btreeset \<times> kids" where
  "collect_op op acc =
    (case snd op of
       OpInsert after ch \<Rightarrow> (fst acc, btm_upsert after [] (\<lambda>v. v @ [(fst op, ch)]) (snd acc))
     | OpDelete target \<Rightarrow> (bts_insert target (fst acc), snd acc))"

text \<open>\<open>sort_by_key(Reverse(id))\<close>: stable, greatest oid first.\<close>

definition sort_desc :: "(op_id \<times> u32) list \<Rightarrow> (op_id \<times> u32) list" where
  "sort_desc v = rev (sort_key fst (rev v))"

definition visit :: "kids \<Rightarrow> op_id btreeset \<Rightarrow> op_id \<Rightarrow> (op_id \<times> u32) list \<Rightarrow> doc_error + (op_id \<times> u32) list" where
  "visit kids deleted oid out =
    (if oid \<noteq> ROOT \<and> oid \<notin> set deleted then
       let ch = (case find (\<lambda>k. fst k = oid) (concat (map snd kids)) of None \<Rightarrow> 0 | Some k \<Rightarrow> snd k) in
       rbind (ok_or (char_from_u32 ch) (DocBadChar ch)) (\<lambda>ch. Ok (out @ [(oid, ch)]))
     else Ok out)"

definition children :: "kids \<Rightarrow> op_id \<Rightarrow> op_id list" where
  "children kids oid = (case btm_get kids oid of None \<Rightarrow> [] | Some v \<Rightarrow> map fst v)"

text \<open>The calls \<open>walk\<close> still has to make, one after the other; \<open>doc_walk(oid)\<close> is the list \<open>[oid]\<close>.\<close>

partial_function (option) doc_walk ::
  "kids \<Rightarrow> op_id btreeset \<Rightarrow> op_id list \<Rightarrow> (op_id \<times> u32) list \<Rightarrow> (doc_error + (op_id \<times> u32) list) option" where
  "doc_walk kids deleted ids out =
    (case ids of
       [] \<Rightarrow> Some (Ok out)
     | oid # rest \<Rightarrow>
         (case visit kids deleted oid out of
            Inl e \<Rightarrow> Some (Err e)
          | Inr out' \<Rightarrow>
              Option.bind (doc_walk kids deleted (children kids oid) out') (\<lambda>r.
              case r of Inl e \<Rightarrow> Some (Err e) | Inr out'' \<Rightarrow> doc_walk kids deleted rest out'')))"

definition DocLog_atoms :: "doc_log \<Rightarrow> (doc_error + (op_id \<times> u32) list) option" where
  "DocLog_atoms l =
    (let (deleted, kids) = fold collect_op (dl_ops l) ([], []);
         kids = map (\<lambda>(k, v). (k, sort_desc v)) kids
     in doc_walk kids deleted [ROOT] [])"

definition DocLog_text :: "doc_log \<Rightarrow> (doc_error + u32 list) option" where
  "DocLog_text l = Option.bind (DocLog_atoms l) (\<lambda>r. Some (rbind r (\<lambda>atoms. Ok (map snd atoms))))"

fun insert_chars :: "bytes \<Rightarrow> op_id \<Rightarrow> u32 list \<Rightarrow> doc_log \<Rightarrow> doc_log" where
  "insert_chars writer after [] l = l"
| "insert_chars writer after (ch # text) l =
    (let (l', oid) = insert_ch writer after ch l in insert_chars writer oid text l')"

definition insert_text :: "bytes \<Rightarrow> usize \<Rightarrow> u32 list \<Rightarrow> doc_log \<Rightarrow> (doc_log \<times> (doc_error + unit)) option" where
  "insert_text writer at text l =
    Option.bind (DocLog_atoms l) (\<lambda>r.
    Some (case r of
       Inl e \<Rightarrow> (l, Err e)
     | Inr atoms \<Rightarrow>
         if length atoms < at then (l, Err DocRange)
         else (insert_chars writer (if at = 0 then ROOT else fst (atoms ! (at - 1))) text l, Ok ())))"

definition delete_range :: "bytes \<Rightarrow> usize \<Rightarrow> usize \<Rightarrow> doc_log \<Rightarrow> (doc_log \<times> (doc_error + unit)) option" where
  "delete_range writer at count l =
    Option.bind (DocLog_atoms l) (\<lambda>r.
    Some (case r of
       Inl e \<Rightarrow> (l, Err e)
     | Inr atoms \<Rightarrow>
         if length atoms < min (at + count) (2 ^ 64 - 1) then (l, Err DocRange)
         else (fold (\<lambda>a l. fst (delete_id writer (fst a) l)) (take count (drop at atoms)) l, Ok ())))"

section \<open>Merging and compaction\<close>

definition merge_op :: "op_id \<times> op_kind \<Rightarrow> (op_id, op_kind) btreemap \<Rightarrow> (op_id, op_kind) btreemap" where
  "merge_op op ops = btm_or_insert (fst op) (snd op) ops"

definition merge_clock :: "bytes \<times> u64 \<Rightarrow> (bytes, u64) btreemap \<Rightarrow> (bytes, u64) btreemap" where
  "merge_clock wn clock = btm_upsert (fst wn) 0 (\<lambda>e. if e < snd wn then snd wn else e) clock"

definition DocLog_merge :: "doc_log \<Rightarrow> doc_log \<Rightarrow> doc_log" where
  "DocLog_merge l other =
    \<lparr>dl_ops = fold merge_op (dl_ops other) (dl_ops l), dl_clock = fold merge_clock (dl_clock other) (dl_clock l)\<rparr>"

fun chain_ops :: "op_id \<Rightarrow> (op_id \<times> u32) list \<Rightarrow> (op_id, op_kind) btreemap \<Rightarrow> (op_id, op_kind) btreemap" where
  "chain_ops prev [] ops = ops"
| "chain_ops prev ((oid, ch) # atoms) ops = chain_ops oid atoms (btm_insert oid (OpInsert prev ch) ops)"

definition DocLog_compact :: "doc_log \<Rightarrow> (doc_error + doc_log) option" where
  "DocLog_compact l =
    Option.bind (DocLog_atoms l) (\<lambda>r.
    Some (rbind r (\<lambda>atoms. Ok \<lparr>dl_ops = chain_ops ROOT atoms [], dl_clock = dl_clock l\<rparr>)))"

section \<open>The codec\<close>

definition doc_op_fields :: "op_id \<times> op_kind \<Rightarrow> doc_error + bytes list" where
  "doc_op_fields op =
    Ok ([op_writer (fst op), u64_le (op_counter (fst op))] @
      (case snd op of
         OpInsert after ch \<Rightarrow> [[1], op_writer after, u64_le (op_counter after), u32_le ch]
       | OpDelete target \<Rightarrow> [[2], op_writer target, u64_le (op_counter target), []]))"

definition DocLog_encode :: "doc_log \<Rightarrow> doc_error + bytes" where
  "DocLog_encode l =
    rbind (lay_entries doc_op_fields (dl_ops l)) (\<lambda>fs.
    map_err DocDecode (encode_fields
      ([DOC_MAGIC, [DOC_VERSION], u64_le (of_nat (length (dl_clock l)))] @
       concat (map (\<lambda>(w, n). [w, u64_le n]) (dl_clock l)) @ fs)))"

fun decode_clock :: "bytes list \<Rightarrow> (bytes, u64) btreemap \<Rightarrow> doc_error + (bytes, u64) btreemap" where
  "decode_clock (f0 # f1 # f) clock =
    rbind (fixed_width DocBadWidth DOC_WRITER_LEN ''clock-writer'' f0) (\<lambda>w.
    rbind (fixed_width DocBadWidth 8 ''clock-n'' f1) (\<lambda>n.
    if btm_get clock w \<noteq> None then Err (DocNonCanonical ''duplicate clock writer'')
    else decode_clock f (btm_insert w (u64_of_le n) clock)))"
| "decode_clock _ clock = Ok clock"

definition doc_key :: "bytes list \<Rightarrow> doc_error + op_id" where
  "doc_key f =
    rbind (fixed_width DocBadWidth DOC_WRITER_LEN ''writer'' (f ! 0)) (\<lambda>w.
    rbind (fixed_width DocBadWidth 8 ''counter'' (f ! 1)) (\<lambda>n.
    Ok (OpId w (u64_of_le n))))"

definition doc_value :: "bytes list \<Rightarrow> doc_error + op_kind" where
  "doc_value f =
    rbind (fixed_width DocBadWidth 1 ''kind'' (f ! 2)) (\<lambda>kind_b.
    rbind (fixed_width DocBadWidth DOC_WRITER_LEN ''ref-writer'' (f ! 3)) (\<lambda>aw.
    rbind (fixed_width DocBadWidth 8 ''ref-counter'' (f ! 4)) (\<lambda>ac.
    let ref_id = OpId aw (u64_of_le ac) in
    if hd kind_b = 1 then
      rbind (fixed_width DocBadWidth 4 ''ch'' (f ! 5)) (\<lambda>c.
      if char_from_u32 (u32_of_le c) = None then Err (DocBadChar (u32_of_le c))
      else Ok (OpInsert ref_id (u32_of_le c)))
    else if hd kind_b = 2 then
      (if f ! 5 \<noteq> [] then Err (DocNonCanonical ''delete carries a character'') else Ok (OpDelete ref_id))
    else Err (DocBadKind (hd kind_b)))))"

definition DocLog_decode :: "bytes \<Rightarrow> doc_error + doc_log" where
  "DocLog_decode bs =
    rbind (map_err DocDecode (decode_fields bs)) (\<lambda>f.
    if f = [] \<or> hd f \<noteq> DOC_MAGIC then Err DocBadMagic
    else if length f < 3 then Err (DocRagged (length f))
    else rbind (fixed_width DocBadWidth 1 ''version'' (f ! 1)) (\<lambda>v.
    if hd v \<noteq> DOC_VERSION then Err (DocBadVersion (hd v))
    else rbind (fixed_width DocBadWidth 8 ''clock-count'' (f ! 2)) (\<lambda>cb.
    let clock_end = (3 + unat (u64_of_le cb) * 2) mod 2 ^ 64 in
    if length f < clock_end then Err (DocRagged (length f))
    else rbind (decode_clock (take (clock_end - 3) (drop 3 f)) []) (\<lambda>clock.
    if \<not> 6 dvd length f - clock_end then Err (DocRagged (length f - clock_end))
    else rbind (asc_entries 6 doc_key doc_value (DocNonCanonical ''ops are not in ascending id order'')
                 (DocNonCanonical ''duplicate op id'') None (drop clock_end f) []) (\<lambda>ops.
    Ok \<lparr>dl_ops = ops, dl_clock = clock\<rparr>)))))"

definition poll_interval_ms :: "u64 \<Rightarrow> u64" where
  "poll_interval_ms last_edit_ago_ms =
    (if last_edit_ago_ms < ACTIVE_WINDOW_MS then POLL_ACTIVE_MS
     else if last_edit_ago_ms < SETTLING_WINDOW_MS then SETTLING_MS
     else POLL_IDLE_MS)"

definition DocStore_store ::
  "backend \<Rightarrow> aead \<Rightarrow> os \<Rightarrow> sealer \<Rightarrow> bytes \<Rightarrow> doc_log \<Rightarrow> disk \<Rightarrow> disk \<times> (doc_error + addr)" where
  "DocStore_store B A S slr dir l d =
    (case DocLog_encode l of
       Inl e \<Rightarrow> (d, Err e)
     | Inr plain \<Rightarrow> put_sealed B A S slr DOC_AAD DocCrypto DocStoreErr dir plain d)"

definition DocStore_load ::
  "backend \<Rightarrow> aead \<Rightarrow> io_env \<Rightarrow> sealer \<Rightarrow> blob_store \<Rightarrow> bytes \<Rightarrow> addr \<Rightarrow> doc_error + doc_log" where
  "DocStore_load B A io slr st dir a =
    rbind (get_sealed B A io slr DOC_AAD DocCrypto DocStoreErr st dir a) DocLog_decode"

end
