(* ===== verification/Doc_Walk.thy ===== *)
theory Doc_Walk
  imports Doc_Log
begin

text \<open>
  What the walk of a document log computes. The children of an operation are the inserts after it,
  greatest id first; when no insert is filed under the id of \<open>ROOT\<close>, what is reachable from \<open>ROOT\<close>
  is a tree of bounded depth, so the doc_walk ends and yields the tree in preorder.
\<close>

definition inserts_after :: "(op_id, op_kind) btreemap \<Rightarrow> op_id \<Rightarrow> (op_id \<times> u32) list" where
  "inserts_after ops p =
    List.map_filter (\<lambda>(i, k). case k of OpInsert a c \<Rightarrow> if a = p then Some (i, c) else None | OpDelete t \<Rightarrow> None) ops"

definition kid_ids :: "(op_id, op_kind) btreemap \<Rightarrow> op_id \<Rightarrow> op_id list" where
  "kid_ids ops p = rev (map fst (inserts_after ops p))"

definition is_deleted :: "(op_id, op_kind) btreemap \<Rightarrow> op_id \<Rightarrow> bool" where
  "is_deleted ops i \<longleftrightarrow> OpDelete i \<in> snd ` set ops"

definition op_char :: "(op_id, op_kind) btreemap \<Rightarrow> op_id \<Rightarrow> u32" where
  "op_char ops i = (case btm_get ops i of Some (OpInsert p c) \<Rightarrow> c | _ \<Rightarrow> 0)"

definition is_insert :: "(op_id, op_kind) btreemap \<Rightarrow> op_id \<Rightarrow> bool" where
  "is_insert ops i \<longleftrightarrow> (\<exists>p c. btm_get ops i = Some (OpInsert p c))"

definition shown :: "(op_id, op_kind) btreemap \<Rightarrow> op_id \<Rightarrow> (op_id \<times> u32) list" where
  "shown ops i = (if i \<noteq> ROOT \<and> \<not> is_deleted ops i then [(i, op_char ops i)] else [])"

definition doc_ok :: "(op_id, op_kind) btreemap \<Rightarrow> bool" where
  "doc_ok ops \<longleftrightarrow> btm_inv ops \<and> \<not> is_insert ops ROOT \<and>
    (\<forall>i p c. btm_get ops i = Some (OpInsert p c) \<longrightarrow> char_from_u32 c = Some c)"

fun subtree :: "(op_id, op_kind) btreemap \<Rightarrow> nat \<Rightarrow> op_id \<Rightarrow> (op_id \<times> u32) list" where
  "subtree ops 0 i = []"
| "subtree ops (Suc n) i = shown ops i @ concat (map (subtree ops n) (kid_ids ops i))"

section \<open>What the two maps of the walk hold\<close>

lemma inserts_after_simps [simp]:
  "inserts_after [] p = []"
  "inserts_after (ops @ [(i, OpInsert a c)]) p = inserts_after ops p @ (if a = p then [(i, c)] else [])"
  "inserts_after (ops @ [(i, OpDelete t)]) p = inserts_after ops p"
  by (simp_all add: inserts_after_def map_filter_def)

lemma map_filter_sublist_keys: "sorted_wrt R (map fst ops) \<Longrightarrow> sorted_wrt R (map fst (inserts_after ops p))"
  by (induction ops) (auto simp: inserts_after_def map_filter_simps map_filter_def split: op_kind.splits option.splits if_splits)

lemma set_inserts_after: "set (inserts_after ops p) = {(i, c). (i, OpInsert p c) \<in> set ops}"
  by (force simp: inserts_after_def map_filter_def split: op_kind.splits if_splits)

lemma collect_op_simps [simp]:
  "collect_op (i, OpInsert a c) acc = (fst acc, btm_upsert a [] (\<lambda>v. v @ [(i, c)]) (snd acc))"
  "collect_op (i, OpDelete t) acc = (bts_insert t (fst acc), snd acc)"
  by (simp_all add: collect_op_def)

lemma collect_deleted: "set (fst (fold collect_op ops (D, K))) = set D \<union> {t. OpDelete t \<in> snd ` set ops}"
  by (induction ops arbitrary: D K) (auto simp: collect_op_def split: op_kind.splits)

lemma collect_kids:
  "btm_inv (snd (fold collect_op ops ([], []))) \<and>
   btm_get (snd (fold collect_op ops ([], []))) p = (if inserts_after ops p = [] then None else Some (inserts_after ops p))"
proof (induction ops arbitrary: p rule: rev_induct)
  case (snoc x ops)
  obtain i k where x: "x = (i, k)" by fastforce
  let ?S = "fold collect_op ops ([], [])"
  have S: "btm_inv (snd ?S)" "\<And>p. btm_get (snd ?S) p = (if inserts_after ops p = [] then None else Some (inserts_after ops p))"
    using snoc by auto
  show ?case
    by (cases k) (auto simp: x S btm_get_upsert split: if_splits)
qed simp

lemma sort_desc_ascending: "sorted_wrt (<) (map fst v) \<Longrightarrow> sort_desc v = rev v"
proof -
  assume v: "sorted_wrt (<) (map fst v)"
  then have d: "distinct (map fst v)" "sorted (map fst v)" by (simp_all add: strict_sorted_iff)
  have "sort_key fst (rev v) = v"
  proof (rule map_sorted_distinct_set_unique [of fst])
    show "inj_on fst (set (sort_key fst (rev v)) \<union> set v)" using d(1) by (simp add: distinct_map)
    have "distinct v" using d(1) by (simp add: distinct_map)
    then show "distinct (map fst (sort_key fst (rev v)))" using d(1) by (simp add: distinct_map)
  qed (use d in simp_all)
  then show ?thesis by (simp add: sort_desc_def)
qed

definition walk_kids :: "(op_id, op_kind) btreemap \<Rightarrow> kids" where
  "walk_kids ops = map (\<lambda>(k, v). (k, sort_desc v)) (snd (fold collect_op ops ([], [])))"

definition walk_deleted :: "(op_id, op_kind) btreemap \<Rightarrow> op_id btreeset" where
  "walk_deleted ops = fst (fold collect_op ops ([], []))"

lemma DocLog_atoms_walk: "DocLog_atoms l = doc_walk (walk_kids (dl_ops l)) (walk_deleted (dl_ops l)) [ROOT] []"
  by (simp add: DocLog_atoms_def walk_kids_def walk_deleted_def case_prod_beta Let_def)

lemma walk_kids_get:
  assumes "btm_inv ops"
  shows "btm_get (walk_kids ops) p = (if inserts_after ops p = [] then None else Some (rev (inserts_after ops p)))"
proof -
  have "btm_get (walk_kids ops) p = map_option sort_desc (btm_get (snd (fold collect_op ops ([], []))) p)"
    by (simp add: walk_kids_def map_of_map)
  then show ?thesis
    using assms by (simp add: collect_kids sort_desc_ascending map_filter_sublist_keys)
qed

lemma children_walk_kids: "btm_inv ops \<Longrightarrow> children (walk_kids ops) p = kid_ids ops p"
  by (simp add: children_def walk_kids_get kid_ids_def rev_map)

lemma walk_kids_values: "btm_inv ops \<Longrightarrow> set (concat (map snd (walk_kids ops))) = {(i, c). \<exists>p. btm_get ops i = Some (OpInsert p c)}"
proof -
  assume inv: "btm_inv ops"
  have "btm_inv (walk_kids ops)"
    using collect_kids [of ops] by (simp add: walk_kids_def comp_def case_prod_beta)
  then have "x \<in> set (concat (map snd (walk_kids ops))) \<longleftrightarrow> (\<exists>p v. btm_get (walk_kids ops) p = Some v \<and> x \<in> set v)" for x
    by (simp add: btm.get_Some_iff) force
  then have "x \<in> set (concat (map snd (walk_kids ops))) \<longleftrightarrow> (\<exists>p. x \<in> set (inserts_after ops p))" for x
    by (metis walk_kids_get [OF inv] empty_iff list.set(1) option.discI option.inject set_rev)
  then show ?thesis by (auto simp: set_inserts_after btm.get_Some_iff [OF inv])
qed

lemma visit_walk_kids:
  assumes "doc_ok ops" "i = ROOT \<or> is_insert ops i"
  shows "visit (walk_kids ops) (walk_deleted ops) i out = Ok (out @ shown ops i)"
proof -
  have inv: "btm_inv ops" using assms(1) by (simp add: doc_ok_def)
  have del: "i \<in> set (walk_deleted ops) \<longleftrightarrow> is_deleted ops i"
    using collect_deleted [of ops "[]" "[]"] by (simp add: walk_deleted_def is_deleted_def)
  show ?thesis
  proof (cases "i = ROOT")
    case False
    then obtain p c where op: "btm_get ops i = Some (OpInsert p c)" using assms(2) by (auto simp: is_insert_def)
    have "find (\<lambda>k. fst k = i) (concat (map snd (walk_kids ops))) = Some (i, c)"
    proof (cases "find (\<lambda>k. fst k = i) (concat (map snd (walk_kids ops)))")
      case None
      then show ?thesis using op walk_kids_values [OF inv] by (fastforce simp: find_None_iff)
    next
      case (Some k)
      then have "k \<in> set (concat (map snd (walk_kids ops)))" "fst k = i"
        unfolding find_Some_iff by (metis nth_mem)+
      then show ?thesis using Some op unfolding walk_kids_values [OF inv] by (cases k) auto
    qed
    then show ?thesis using False op assms(1) by (auto simp: visit_def del shown_def op_char_def doc_ok_def)
  qed (simp add: visit_def shown_def)
qed

lemma set_kid_ids: "btm_inv ops \<Longrightarrow> set (kid_ids ops p) = {i. \<exists>c. btm_get ops i = Some (OpInsert p c)}"
  by (auto simp: kid_ids_def set_inserts_after btm.get_Some_iff image_iff)

lemma kid_ids_descending: "btm_inv ops \<Longrightarrow> sorted_wrt (>) (kid_ids ops p)"
  by (simp add: kid_ids_def sorted_wrt_rev map_filter_sublist_keys)

lemma kid_ids_unique:
  "btm_inv ops \<Longrightarrow> sorted_wrt (>) xs \<Longrightarrow> set xs = {i. \<exists>c. btm_get ops i = Some (OpInsert p c)} \<Longrightarrow> kid_ids ops p = xs"
proof -
  assume a: "btm_inv ops" "sorted_wrt (>) xs" "set xs = {i. \<exists>c. btm_get ops i = Some (OpInsert p c)}"
  have "rev (kid_ids ops p) = rev xs"
    by (rule strict_sorted_equal) (use a kid_ids_descending [OF a(1)] in \<open>simp_all add: set_kid_ids sorted_wrt_rev\<close>)
  then show ?thesis by simp
qed

section \<open>Depth\<close>

inductive at_depth :: "(op_id, op_kind) btreemap \<Rightarrow> nat \<Rightarrow> op_id \<Rightarrow> bool" for ops where
  root: "at_depth ops 0 ROOT"
| kid: "at_depth ops d p \<Longrightarrow> btm_get ops i = Some (OpInsert p c) \<Longrightarrow> at_depth ops (Suc d) i"

lemma depth_unique: "at_depth ops d i \<Longrightarrow> \<not> is_insert ops ROOT \<Longrightarrow> at_depth ops e i \<Longrightarrow> e = d"
proof (induction arbitrary: e rule: at_depth.induct)
  case root
  then show ?case by (auto simp: is_insert_def elim: at_depth.cases)
next
  case (kid d p i c)
  from kid.prems(2) show ?case
  proof cases
    case root
    then show ?thesis using kid.hyps(2) kid.prems(1) by (auto simp: is_insert_def)
  next
    case k: (kid e' q c')
    then show ?thesis using kid by auto
  qed
qed

lemma depth_path:
  "at_depth ops d i \<Longrightarrow> \<not> is_insert ops ROOT \<Longrightarrow>
    \<exists>S. finite S \<and> card S = d \<and> S \<subseteq> fst ` set ops \<and> (\<forall>x \<in> S. \<exists>e \<le> d. at_depth ops e x)"
proof (induction rule: at_depth.induct)
  case root
  show ?case by (intro exI [of _ "{}"]) simp
next
  case (kid d p i c)
  then obtain S where S: "finite S" "card S = d" "S \<subseteq> fst ` set ops" "\<forall>x \<in> S. \<exists>e \<le> d. at_depth ops e x" by blast
  have i: "at_depth ops (Suc d) i" using kid.hyps by (rule at_depth.kid)
  have "i \<notin> S" using S(4) depth_unique [OF i kid.prems] by fastforce
  moreover have "i \<in> fst ` set ops" using kid.hyps(2) by (force dest: map_of_SomeD)
  ultimately show ?case using S i by (intro exI [of _ "insert i S"]) (auto, meson le_SucI)
qed

lemma depth_bound: "at_depth ops d i \<Longrightarrow> \<not> is_insert ops ROOT \<Longrightarrow> d \<le> length ops"
proof -
  assume "at_depth ops d i" "\<not> is_insert ops ROOT"
  then obtain S where "card S = d" "S \<subseteq> fst ` set ops" using depth_path by blast
  then have "d \<le> card (fst ` set ops)" using card_mono by blast
  also have "\<dots> \<le> length ops" using card_image_le [of "set ops" fst] card_length [of ops] by simp
  finally show ?thesis .
qed

lemma depth_kid: "btm_inv ops \<Longrightarrow> at_depth ops d p \<Longrightarrow> i \<in> set (kid_ids ops p) \<Longrightarrow> at_depth ops (Suc d) i"
  by (auto simp: set_kid_ids intro: at_depth.kid)

lemma depth_visitable: "at_depth ops d i \<Longrightarrow> i = ROOT \<or> is_insert ops i"
  by (auto simp: is_insert_def elim: at_depth.cases)

section \<open>The walk ends\<close>

lemma walk_subtrees:
  assumes ok: "doc_ok ops"
  shows "\<forall>i \<in> set is. at_depth ops d i \<Longrightarrow> length ops < n + d \<Longrightarrow>
    doc_walk (walk_kids ops) (walk_deleted ops) is out = Some (Ok (out @ concat (map (subtree ops n) is)))"
proof (induction n arbitrary: d "is" out)
  case 0
  have "is = []" using 0 depth_bound ok by (cases "is") (auto simp: doc_ok_def dest: depth_bound)
  then show ?case by (subst doc_walk.simps) simp
next
  case (Suc n)
  have inv: "btm_inv ops" using ok by (simp add: doc_ok_def)
  from Suc.prems show ?case
  proof (induction "is" arbitrary: out)
    case (Cons i rest)
    have "\<forall>j \<in> set (kid_ids ops i). at_depth ops (Suc d) j" using Cons.prems depth_kid [OF inv] by auto
    then have kids: "doc_walk (walk_kids ops) (walk_deleted ops) (kid_ids ops i) out' =
        Some (Ok (out' @ concat (map (subtree ops n) (kid_ids ops i))))" for out'
      using Suc.IH [of "kid_ids ops i" "Suc d"] Cons.prems(2) by simp
    have "visit (walk_kids ops) (walk_deleted ops) i out = Ok (out @ shown ops i)"
      using Cons.prems(1) by (intro visit_walk_kids [OF ok] depth_visitable) auto
    then show ?case
      using Cons.IH Cons.prems by (subst doc_walk.simps) (simp add: children_walk_kids [OF inv] kids del: subtree.simps, simp)
  qed (subst doc_walk.simps, simp)
qed

definition doc_atoms :: "(op_id, op_kind) btreemap \<Rightarrow> (op_id \<times> u32) list" where
  "doc_atoms ops = subtree ops (Suc (length ops)) ROOT"

lemma DocLog_atoms_eq: "doc_ok (dl_ops l) \<Longrightarrow> DocLog_atoms l = Some (Ok (doc_atoms (dl_ops l)))"
  using walk_subtrees [of "dl_ops l" "[ROOT]" 0 "Suc (length (dl_ops l))" "[]"]
  by (simp add: DocLog_atoms_walk doc_atoms_def at_depth.root del: subtree.simps)

lemma subtree_enough:
  assumes ok: "doc_ok ops"
  shows "at_depth ops d i \<Longrightarrow> length ops < n + d \<Longrightarrow> n \<le> m \<Longrightarrow> subtree ops m i = subtree ops n i"
proof -
  assume i: "at_depth ops d i" "length ops < n + d" "n \<le> m"
  then have "doc_walk (walk_kids ops) (walk_deleted ops) [i] [] = Some (Ok (subtree ops m i))"
    "doc_walk (walk_kids ops) (walk_deleted ops) [i] [] = Some (Ok (subtree ops n i))"
    using walk_subtrees [OF ok, of "[i]" d m "[]"] walk_subtrees [OF ok, of "[i]" d n "[]"] by auto
  then show ?thesis by simp
qed

end
