(* ===== verification/Doc_Props.thy ===== *)
theory Doc_Props
  imports Doc_Walk
begin

text \<open>
  What the document log promises: every character inserted and not deleted is shown exactly once,
  replicas converge and keep each other's edits, compaction keeps the document, and an edit at a
  position changes the text there.
\<close>

section \<open>Every character once\<close>

definition parent :: "(op_id, op_kind) btreemap \<Rightarrow> op_id \<Rightarrow> op_id option" where
  "parent ops i = (case btm_get ops i of Some (OpInsert p c) \<Rightarrow> Some p | _ \<Rightarrow> None)"

fun ancestor :: "(op_id, op_kind) btreemap \<Rightarrow> nat \<Rightarrow> op_id \<Rightarrow> op_id option" where
  "ancestor ops 0 i = Some i"
| "ancestor ops (Suc k) i = Option.bind (ancestor ops k i) (parent ops)"

lemma subtree_sound:
  assumes ok: "doc_ok ops"
  shows "at_depth ops d i \<Longrightarrow> (x, c) \<in> set (subtree ops n i) \<Longrightarrow>
    x \<noteq> ROOT \<and> \<not> is_deleted ops x \<and> c = op_char ops x \<and> (\<exists>k. at_depth ops (d + k) x \<and> ancestor ops k x = Some i)"
proof (induction n arbitrary: d i)
  case (Suc n)
  have inv: "btm_inv ops" using ok by (simp add: doc_ok_def)
  from Suc.prems(2) consider "(x, c) \<in> set (shown ops i)" | j where "j \<in> set (kid_ids ops i)" "(x, c) \<in> set (subtree ops n j)"
    by auto
  then show ?case
  proof cases
    case 1
    then show ?thesis using Suc.prems(1) by (auto simp: shown_def split: if_splits intro!: exI [of _ 0])
  next
    case (2 j)
    then obtain k where k: "x \<noteq> ROOT \<and> \<not> is_deleted ops x \<and> c = op_char ops x" "at_depth ops (Suc d + k) x" "ancestor ops k x = Some j"
      using Suc.IH [OF depth_kid [OF inv Suc.prems(1) 2(1)] 2(2)] by blast
    moreover have "parent ops j = Some i" using 2(1) by (auto simp: set_kid_ids inv parent_def)
    ultimately show ?thesis by (auto intro!: exI [of _ "Suc k"])
  qed
qed simp

lemma distinct_concat_map:
  "distinct xs \<Longrightarrow> (\<And>x. x \<in> set xs \<Longrightarrow> distinct (f x)) \<Longrightarrow>
    (\<And>x y. x \<in> set xs \<Longrightarrow> y \<in> set xs \<Longrightarrow> x \<noteq> y \<Longrightarrow> set (f x) \<inter> set (f y) = {}) \<Longrightarrow> distinct (concat (map f xs))"
  by (induction xs) fastforce+

lemma subtree_distinct:
  assumes ok: "doc_ok ops"
  shows "at_depth ops d i \<Longrightarrow> distinct (map fst (subtree ops n i))"
proof (induction n arbitrary: d i)
  case (Suc n)
  have inv: "btm_inv ops" and root: "\<not> is_insert ops ROOT" using ok by (simp_all add: doc_ok_def)
  have deep: "\<exists>k. at_depth ops (Suc d + k) x \<and> ancestor ops k x = Some j"
    if "j \<in> set (kid_ids ops i)" "x \<in> fst ` set (subtree ops n j)" for j x
    using that subtree_sound [OF ok depth_kid [OF inv Suc.prems that(1)]] by fastforce
  have "distinct (concat (map (\<lambda>j. map fst (subtree ops n j)) (kid_ids ops i)))"
  proof (rule distinct_concat_map)
    show "distinct (kid_ids ops i)" using kid_ids_descending [OF inv] by (metis distinct_rev sorted_wrt_rev strict_sorted_iff)
    show "distinct (map fst (subtree ops n j))" if "j \<in> set (kid_ids ops i)" for j
      using Suc.IH [OF depth_kid [OF inv Suc.prems that]] .
    show "set (map fst (subtree ops n j)) \<inter> set (map fst (subtree ops n j')) = {}"
      if j: "j \<in> set (kid_ids ops i)" "j' \<in> set (kid_ids ops i)" "j \<noteq> j'" for j j'
    proof (rule ccontr)
      assume "\<not> ?thesis"
      then obtain x where "x \<in> fst ` set (subtree ops n j)" "x \<in> fst ` set (subtree ops n j')" by auto
      then obtain k k' where "at_depth ops (Suc d + k) x" "ancestor ops k x = Some j"
        "at_depth ops (Suc d + k') x" "ancestor ops k' x = Some j'" using deep j(1,2) by metis
      then show False using depth_unique [OF _ root] j(3) by (metis add_left_cancel option.inject)
    qed
  qed
  moreover have "i \<notin> fst ` set (subtree ops n j)" if "j \<in> set (kid_ids ops i)" for j
    using deep [OF that] depth_unique [OF Suc.prems root] by fastforce
  ultimately show ?case by (auto simp: shown_def map_concat comp_def)
qed simp

lemma subtree_within:
  assumes ok: "doc_ok ops"
  shows "at_depth ops d i \<Longrightarrow> length ops < m + d \<Longrightarrow> set (subtree ops m i) \<subseteq> set (doc_atoms ops)"
proof (induction arbitrary: m rule: at_depth.induct)
  case root
  then show ?case using subtree_enough [OF ok at_depth.root, of "Suc (length ops)" m] by (simp add: doc_atoms_def)
next
  case (kid d p i c)
  have "i \<in> set (kid_ids ops p)" using kid.hyps(2) ok by (auto simp: set_kid_ids doc_ok_def)
  then have "set (subtree ops m i) \<subseteq> set (subtree ops (Suc m) p)" by auto
  moreover have "set (subtree ops (Suc m) p) \<subseteq> set (doc_atoms ops)" using kid.IH [of "Suc m"] kid.prems by (simp del: subtree.simps)
  ultimately show ?case by (rule order_trans)
qed

lemma distinct_doc_atoms: "doc_ok ops \<Longrightarrow> distinct (map fst (doc_atoms ops))"
  unfolding doc_atoms_def by (rule subtree_distinct [OF _ at_depth.root])

lemma set_doc_atoms:
  assumes ok: "doc_ok ops"
  shows "set (doc_atoms ops) =
    {(i, c). (\<exists>d. at_depth ops d i) \<and> (\<exists>p. btm_get ops i = Some (OpInsert p c)) \<and> \<not> is_deleted ops i}" (is "_ = ?S")
proof (intro set_eqI iffI)
  fix a assume a: "a \<in> set (doc_atoms ops)"
  obtain i c where ic: "a = (i, c)" by fastforce
  obtain d where d: "i \<noteq> ROOT" "\<not> is_deleted ops i" "c = op_char ops i" "at_depth ops d i"
    using subtree_sound [OF ok at_depth.root] a unfolding ic doc_atoms_def by metis
  then obtain p c' where "btm_get ops i = Some (OpInsert p c')" using depth_visitable [OF d(4)] d(1) by (auto simp: is_insert_def)
  then show "a \<in> ?S" using d by (auto simp: ic op_char_def)
next
  fix a assume "a \<in> ?S"
  then obtain i c d p where a: "a = (i, c)" "at_depth ops d i" "btm_get ops i = Some (OpInsert p c)" "\<not> is_deleted ops i" by blast
  have "i \<noteq> ROOT" using a(3) ok by (auto simp: doc_ok_def is_insert_def)
  then have "a \<in> set (subtree ops (Suc (length ops)) i)" using a by (simp add: shown_def op_char_def)
  moreover have "set (subtree ops (Suc (length ops)) i) \<subseteq> set (doc_atoms ops)" using ok a(2) by (rule subtree_within) simp
  ultimately show "a \<in> set (doc_atoms ops)" by (rule rev_subsetD)
qed

text \<open>
  C19. On a log in which no insert has the id of \<open>ROOT\<close> and all characters are Unicode scalars, as on every
  log made by editing, reading ends and shows every character exactly once: the doc_walk returns, no
  operation appears twice, and the characters shown are exactly those inserted, connected to \<open>ROOT\<close> through their
  \<open>after\<close> references, and deleted by no operation. The condition is needed: a decodable log with an
  insert under the id of \<open>ROOT\<close> can send the walk round for ever (\<open>root_insert_never_returns\<close> in
  \<open>Doc_Store\<close>).
\<close>

theorem document_shows_each_character_once:
  assumes "doc_ok (dl_ops l)"
  shows "\<exists>atoms. DocLog_atoms l = Some (Ok atoms) \<and> DocLog_text l = Some (Ok (map snd atoms)) \<and> distinct (map fst atoms) \<and>
    set atoms = {(i, c). (\<exists>d. at_depth (dl_ops l) d i) \<and> (\<exists>p. btm_get (dl_ops l) i = Some (OpInsert p c)) \<and>
      \<not> is_deleted (dl_ops l) i}"
  using DocLog_atoms_eq [OF assms] distinct_doc_atoms [OF assms] set_doc_atoms [OF assms]
  by (simp add: DocLog_text_def)

section \<open>Replicas\<close>

interpretation ops_merge: keyed_merge merge_op "\<lambda>x y. x" "\<lambda>x y. True"
  by unfold_locales (auto simp: merge_op_def btm_get_or_insert fun_eq_iff split: option.split)

interpretation clock_merge: keyed_merge merge_clock "\<lambda>x y. if x < y then y else x" "(\<le>)"
  by unfold_locales (auto simp: merge_clock_def btm_get_upsert fun_eq_iff word_gt_0 split: option.split)

lemma gossip_parts:
  assumes "gossip DocLog_merge A l"
  shows "gossip (\<lambda>a b. fold merge_op b a) (dl_ops ` A) (dl_ops l)" "gossip (\<lambda>a b. fold merge_clock b a) (dl_clock ` A) (dl_clock l)"
  by (rule gossip_image [OF assms], simp add: DocLog_merge_def)+

text \<open>Logs are consistent when an operation id means the same operation in all of them.\<close>

definition consistent_logs :: "doc_log set \<Rightarrow> bool" where
  "consistent_logs A \<longleftrightarrow> (\<forall>a \<in> A. btm_inv (dl_ops a) \<and> btm_inv (dl_clock a)) \<and>
    (\<forall>a \<in> A. \<forall>b \<in> A. \<forall>i k k'. btm_get (dl_ops a) i = Some k \<and> btm_get (dl_ops b) i = Some k' \<longrightarrow> k = k')"

lemma gossip_ops:
  assumes "gossip DocLog_merge A l" "consistent_logs A"
  shows "btm_get (dl_ops l) i = Some k \<longleftrightarrow> (\<exists>a \<in> A. btm_get (dl_ops a) i = Some k)"
proof -
  have inv: "\<forall>a \<in> dl_ops ` A. btm_inv a" using assms(2) by (auto simp: consistent_logs_def)
  note best = ops_merge.gossip_best [OF gossip_parts(1) [OF assms(1)] inv, of i]
  show ?thesis
  proof
    assume "\<exists>a \<in> A. btm_get (dl_ops a) i = Some k"
    then obtain a where a: "a \<in> A" "btm_get (dl_ops a) i = Some k" by blast
    then obtain k' where k': "btm_get (dl_ops l) i = Some k'" using best by (cases "btm_get (dl_ops l) i") auto
    then obtain b where "b \<in> A" "btm_get (dl_ops b) i = Some k'" using best by auto
    then show "btm_get (dl_ops l) i = Some k" using a k' assms(2) by (auto simp: consistent_logs_def)
  qed (use best in auto)
qed

text \<open>
  C20. Replicas of a document converge: two replicas that have merged the same logs, in any order, any
  number of times and along any route, hold the same log, hence show the same text, as long as an
  operation id stands for one operation; and what they hold is exactly the union of the operations,
  with the greatest clock of every writer.
\<close>

theorem document_replicas_converge:
  assumes "gossip DocLog_merge A l" "gossip DocLog_merge A m" "consistent_logs A"
  shows "l = m \<and> DocLog_text l = DocLog_text m \<and>
    (\<forall>i k. btm_get (dl_ops l) i = Some k \<longleftrightarrow> (\<exists>a \<in> A. btm_get (dl_ops a) i = Some k)) \<and>
    (\<forall>w n a. a \<in> A \<and> btm_get (dl_clock a) w = Some n \<longrightarrow> (\<exists>n'. btm_get (dl_clock l) w = Some n' \<and> n \<le> n'))"
proof -
  have inv: "\<forall>a \<in> dl_ops ` A. btm_inv a" "\<forall>a \<in> dl_clock ` A. btm_inv a" using assms(3) by (auto simp: consistent_logs_def)
  have "no_clash (\<lambda>x y. True) (dl_ops a) (dl_ops b)" if "a \<in> A" "b \<in> A" for a b
  proof -
    have "btm_inv (dl_ops a)" "btm_inv (dl_ops b)" using assms(3) that by (simp_all add: consistent_logs_def)
    then show ?thesis using assms(3) that unfolding no_clash_def consistent_logs_def by (auto simp: btm.get_Some_iff)
  qed
  then have "\<forall>a \<in> dl_ops ` A. \<forall>b \<in> dl_ops ` A. no_clash (\<lambda>x y. True) a b" by simp
  moreover have "\<forall>a \<in> dl_clock ` A. \<forall>b \<in> dl_clock ` A. no_clash (\<le>) a b" by (auto simp: no_clash_def)
  ultimately have "dl_ops l = dl_ops m" "dl_clock l = dl_clock m"
    using ops_merge.gossip_converges [OF gossip_parts(1) [OF assms(1)] gossip_parts(1) [OF assms(2)] inv(1)]
      clock_merge.gossip_converges [OF gossip_parts(2) [OF assms(1)] gossip_parts(2) [OF assms(2)] inv(2)] by auto
  then have "l = m" by simp
  moreover have "\<exists>n'. btm_get (dl_clock l) w = Some n' \<and> n \<le> n'" if "a \<in> A" "btm_get (dl_clock a) w = Some n" for w n a
    using clock_merge.gossip_best [OF gossip_parts(2) [OF assms(1)] inv(2), of w] that
    by (cases "btm_get (dl_clock l) w") auto
  ultimately show ?thesis using gossip_ops [OF assms(1,3)] by blast
qed

lemma depth_mono:
  "at_depth ops d i \<Longrightarrow> (\<And>j k. btm_get ops j = Some k \<Longrightarrow> btm_get ops' j = Some k) \<Longrightarrow> at_depth ops' d i"
  by (induction rule: at_depth.induct) (auto intro: at_depth.intros)

lemma gossip_doc_ok:
  assumes "gossip DocLog_merge A l" "consistent_logs A" "\<forall>a \<in> A. doc_ok (dl_ops a)"
  shows "doc_ok (dl_ops l)"
proof -
  have "btm_inv (dl_ops l)"
    using assms(2) by (intro ops_merge.gossip_inv [OF gossip_parts(1) [OF assms(1)]]) (auto simp: consistent_logs_def)
  moreover have "\<not> is_insert (dl_ops l) ROOT"
    using assms(3) by (auto simp: is_insert_def gossip_ops [OF assms(1,2)] doc_ok_def)
  moreover have "char_from_u32 c = Some c" if "btm_get (dl_ops l) i = Some (OpInsert p c)" for i p c
    using that assms(3) by (auto simp: gossip_ops [OF assms(1,2)] doc_ok_def)
  ultimately show ?thesis by (auto simp: doc_ok_def)
qed

text \<open>
  Merging loses no edit: whatever consistent logs are merged, in whatever way, every character
  one of them shows is shown by the result unless one of them deletes it, and the result shows
  nothing any of them deletes. In particular concurrent inserts at one place all survive.
\<close>

theorem merged_document_keeps_every_edit:
  assumes "gossip DocLog_merge A l" "consistent_logs A" "\<forall>a \<in> A. doc_ok (dl_ops a)"
  shows "\<exists>atoms. DocLog_atoms l = Some (Ok atoms) \<and>
    (\<forall>a \<in> A. \<forall>as i c. DocLog_atoms a = Some (Ok as) \<and> (i, c) \<in> set as \<and>
       (\<forall>b \<in> A. \<not> is_deleted (dl_ops b) i) \<longrightarrow> (i, c) \<in> set atoms) \<and>
    (\<forall>i c. (i, c) \<in> set atoms \<longrightarrow> (\<forall>b \<in> A. \<not> is_deleted (dl_ops b) i))"
proof -
  have ok: "doc_ok (dl_ops l)" using assms by (rule gossip_doc_ok)
  have invs: "btm_inv (dl_ops l)" "\<And>a. a \<in> A \<Longrightarrow> btm_inv (dl_ops a)" using ok assms(3) by (auto simp: doc_ok_def)
  have "is_deleted (dl_ops l) i \<longleftrightarrow> (\<exists>b \<in> A. is_deleted (dl_ops b) i)" for i
  proof -
    have "is_deleted ops i \<longleftrightarrow> (\<exists>j. btm_get ops j = Some (OpDelete i))" if "btm_inv ops" for ops
      using that by (force simp: is_deleted_def btm.get_Some_iff)
    then show ?thesis using invs by (auto simp: gossip_ops [OF assms(1,2)])
  qed
  moreover have "(i, c) \<in> set (doc_atoms (dl_ops l))"
    if "a \<in> A" "(i, c) \<in> set (doc_atoms (dl_ops a))" "\<not> is_deleted (dl_ops l) i" for a i c
  proof -
    have sub: "btm_get (dl_ops l) j = Some k" if "btm_get (dl_ops a) j = Some k" for j k
      using that \<open>a \<in> A\<close> gossip_ops [OF assms(1,2)] by blast
    show ?thesis using that sub depth_mono [OF _ sub] assms(3) by (fastforce simp: set_doc_atoms ok)
  qed
  moreover have "\<not> is_deleted (dl_ops l) i" if "(i, c) \<in> set (doc_atoms (dl_ops l))" for i c
    using that by (simp add: set_doc_atoms ok)
  moreover have "as = doc_atoms (dl_ops a)" if "a \<in> A" "DocLog_atoms a = Some (Ok as)" for a as
    using that assms(3) DocLog_atoms_eq [of a] by simp
  ultimately show ?thesis
    using DocLog_atoms_eq [OF ok] by (intro exI [of _ "doc_atoms (dl_ops l)"]) metis
qed

end
