(* ===== verification/Doc_Text.thy ===== *)
theory Doc_Text
  imports Doc_Edit
begin

text \<open>Editing a document at a position, and what goes wrong outside the conditions of the theorems.\<close>

section \<open>One more operation\<close>

lemma set_btm_insert_new: "k \<notin> fst ` set m \<Longrightarrow> set (btm_insert k v m) = insert (k, v) (set m)"
  by (induction k v m rule: btm_insert.induct) auto

lemma is_deleted_insert:
  "n \<notin> fst ` set ops \<Longrightarrow> is_deleted (btm_insert n k ops) i \<longleftrightarrow> k = OpDelete i \<or> is_deleted ops i"
  by (auto simp: is_deleted_def set_btm_insert_new)

lemma op_char_insert: "op_char (btm_insert n (OpInsert a c) ops) i = (if i = n then c else op_char ops i)"
  "i \<noteq> n \<Longrightarrow> op_char (btm_insert n k ops) i = op_char ops i"
  by (simp_all add: op_char_def)

lemma kid_ids_insert:
  assumes "btm_inv ops" "n \<notin> fst ` set ops" "\<forall>j \<in> set (kid_ids ops a). j < n"
  shows "kid_ids (btm_insert n (OpInsert a c) ops) p = (if p = a then n # kid_ids ops a else kid_ids ops p)"
proof (rule kid_ids_unique)
  have "btm_get ops n = None" using assms(2) by (simp add: map_of_eq_None_iff)
  then show "set (if p = a then n # kid_ids ops a else kid_ids ops p) =
      {i. \<exists>c'. btm_get (btm_insert n (OpInsert a c) ops) i = Some (OpInsert p c')}"
    by (auto simp: set_kid_ids assms(1))
  show "sorted_wrt (>) (if p = a then n # kid_ids ops a else kid_ids ops p)"
    using assms(3) kid_ids_descending [OF assms(1)] by simp
qed (simp add: assms(1))

lemma kid_ids_delete: "btm_inv ops \<Longrightarrow> n \<notin> fst ` set ops \<Longrightarrow> kid_ids (btm_insert n (OpDelete t) ops) p = kid_ids ops p"
proof (rule kid_ids_unique)
  assume a: "btm_inv ops" "n \<notin> fst ` set ops"
  then have "btm_get ops n = None" by (simp add: map_of_eq_None_iff)
  then show "set (kid_ids ops p) = {i. \<exists>c'. btm_get (btm_insert n (OpDelete t) ops) i = Some (OpInsert p c')}"
    by (auto simp: set_kid_ids a(1))
qed (simp_all add: kid_ids_descending)

definition put_after :: "op_id \<Rightarrow> op_id \<times> u32 \<Rightarrow> (op_id \<times> u32) list \<Rightarrow> (op_id \<times> u32) list" where
  "put_after a x L = concat (map (\<lambda>e. if fst e = a then [e, x] else [e]) L)"

lemma put_after_simps [simp]:
  "put_after a x [] = []"
  "put_after a x (e # L) = (if fst e = a then [e, x] else [e]) @ put_after a x L"
  "put_after a x (L @ M) = put_after a x L @ put_after a x M"
  by (simp_all add: put_after_def)

lemma put_after_concat: "put_after a x (concat Ls) = concat (map (put_after a x) Ls)"
  by (induction Ls) simp_all

lemma put_after_other: "a \<notin> fst ` set L \<Longrightarrow> put_after a x L = L"
  by (induction L) auto

lemma put_after_at:
  assumes "distinct (map fst L)" "k < length L" "a = fst (L ! k)"
  shows "put_after a x L = take (Suc k) L @ x # drop (Suc k) L"
proof -
  have L: "L = take k L @ L ! k # drop (Suc k) L" using assms(2) by (rule id_take_nth_drop)
  have "distinct (map fst (take k L @ L ! k # drop (Suc k) L))" using assms(1) L by simp
  then have "a \<notin> fst ` set (take k L)" "a \<notin> fst ` set (drop (Suc k) L)"
    using assms(3) by simp_all
  then have "put_after a x (take k L @ L ! k # drop (Suc k) L) = take k L @ [L ! k, x] @ drop (Suc k) L"
    using assms(3) by (simp add: put_after_other)
  then show ?thesis using L take_Suc_conv_app_nth [OF assms(2)] by simp
qed

locale fresh_op =
  fixes ops :: "(op_id, op_kind) btreemap" and n :: op_id
  assumes ok: "doc_ok ops" and new: "n \<notin> fst ` set ops" and not_root: "n \<noteq> ROOT"
    and unused: "kid_ids ops n = []" "\<not> is_deleted ops n"
begin

lemma depth_not_new: "at_depth ops d i \<Longrightarrow> i \<noteq> n"
  using new not_root depth_visitable [of ops d i] by (force simp: is_insert_def dest!: map_of_SomeD)

lemma kid_depth: "at_depth ops d i \<Longrightarrow> j \<in> set (kid_ids ops i) \<Longrightarrow> at_depth ops (Suc d) j"
  using ok by (simp add: doc_ok_def depth_kid)

lemma doc_ok_insert: "char_from_u32 c = Some c \<Longrightarrow> doc_ok (btm_insert n (OpInsert a c) ops)"
  using ok not_root by (auto simp: doc_ok_def is_insert_def split: if_splits)

lemma doc_ok_delete: "doc_ok (btm_insert n (OpDelete t) ops)"
  using ok not_root by (auto simp: doc_ok_def is_insert_def split: if_splits)

lemma inv: "btm_inv ops"
  using ok by (simp add: doc_ok_def)

lemma shown_insert: "shown (btm_insert n (OpInsert a c) ops) i = (if i = n then [(n, c)] else shown ops i)"
  using unused(2) not_root by (auto simp: shown_def is_deleted_insert [OF new] op_char_insert(1))

lemma shown_delete: "i \<noteq> n \<Longrightarrow> shown (btm_insert n (OpDelete t) ops) i = filter (\<lambda>e. fst e \<noteq> t) (shown ops i)"
  by (auto simp: shown_def is_deleted_insert [OF new] op_char_insert(2))

lemma subtree_delete:
  "at_depth ops d i \<Longrightarrow> subtree (btm_insert n (OpDelete t) ops) m i = filter (\<lambda>e. fst e \<noteq> t) (subtree ops m i)"
proof (induction m arbitrary: d i)
  case (Suc m)
  have "concat (map (subtree (btm_insert n (OpDelete t) ops) m) (kid_ids ops i)) =
      filter (\<lambda>e. fst e \<noteq> t) (concat (map (subtree ops m) (kid_ids ops i)))"
    using Suc.IH [OF kid_depth [OF Suc.prems]] by (simp add: filter_concat comp_def cong: map_cong)
  then show ?case
    using shown_delete depth_not_new [OF Suc.prems] by (simp add: kid_ids_delete [OF inv new])
qed simp

lemma doc_atoms_delete: "doc_atoms (btm_insert n (OpDelete t) ops) = filter (\<lambda>e. fst e \<noteq> t) (doc_atoms ops)"
  using subtree_delete [OF at_depth.root, of t "Suc (Suc (length ops))"] subtree_enough [OF ok at_depth.root, of "Suc (length ops)" "Suc (Suc (length ops))"]
  by (simp add: doc_atoms_def length_btm_insert [OF new] del: subtree.simps)

lemma subtree_new:
  "\<forall>j \<in> set (kid_ids ops a). j < n \<Longrightarrow> a \<noteq> n \<Longrightarrow> 0 < m \<Longrightarrow> subtree (btm_insert n (OpInsert a c) ops) m n = [(n, c)]"
  by (cases m) (simp_all add: shown_insert kid_ids_insert [OF inv new] unused)

lemma subtree_insert:
  assumes least: "\<forall>j \<in> set (kid_ids ops a). j < n" and a: "a \<noteq> ROOT" "shown ops a \<noteq> []"
  shows "at_depth ops d i \<Longrightarrow> Suc (length ops) < m + d \<Longrightarrow>
    subtree (btm_insert n (OpInsert a c) ops) m i = put_after a (n, c) (subtree ops m i)"
proof (induction m arbitrary: d i)
  case (Suc m)
  let ?ops = "btm_insert n (OpInsert a c) ops"
  have d: "d \<le> length ops" using depth_bound [OF Suc.prems(1)] ok by (simp add: doc_ok_def)
  then have m: "0 < m" using Suc.prems(2) by simp
  have kids: "concat (map (subtree ?ops m) (kid_ids ops i)) = put_after a (n, c) (concat (map (subtree ops m) (kid_ids ops i)))"
    using Suc.IH [OF kid_depth [OF Suc.prems(1)]] Suc.prems(2) by (simp add: put_after_concat comp_def cong: map_cong)
  have i: "i \<noteq> n" using depth_not_new [OF Suc.prems(1)] .
  show ?case
  proof (cases "i = a")
    case True
    have "put_after a (n, c) (shown ops a) = shown ops a @ [(n, c)]" using a(2) by (auto simp: shown_def split: if_splits)
    then show ?thesis
      using kids i m True by (simp add: shown_insert kid_ids_insert [OF inv new least] subtree_new [OF least])
  next
    case False
    then have "put_after a (n, c) (shown ops i) = shown ops i" by (auto simp: shown_def)
    then show ?thesis
      using kids i False by (simp add: shown_insert kid_ids_insert [OF inv new least])
  qed
next
  case 0
  then show ?case by simp
qed

lemma subtree_insert_root:
  assumes least: "\<forall>j \<in> set (kid_ids ops ROOT). j < n"
  shows "at_depth ops d i \<Longrightarrow> Suc (length ops) < m + d \<Longrightarrow>
    subtree (btm_insert n (OpInsert ROOT c) ops) m i = (if i = ROOT then [(n, c)] else []) @ subtree ops m i"
proof (induction m arbitrary: d i)
  case (Suc m)
  let ?ops = "btm_insert n (OpInsert ROOT c) ops"
  have d: "d \<le> length ops" using depth_bound [OF Suc.prems(1)] ok by (simp add: doc_ok_def)
  then have m: "0 < m" using Suc.prems(2) by simp
  have "j \<noteq> ROOT" if "j \<in> set (kid_ids ops i)" for j
    using that ok by (auto simp: set_kid_ids inv doc_ok_def is_insert_def)
  then have kids: "concat (map (subtree ?ops m) (kid_ids ops i)) = concat (map (subtree ops m) (kid_ids ops i))"
    using Suc.IH [OF kid_depth [OF Suc.prems(1)]] Suc.prems(2) by (simp cong: map_cong)
  have i: "i \<noteq> n" using depth_not_new [OF Suc.prems(1)] .
  have "shown ops ROOT = []" by (simp add: shown_def)
  then show ?case
    using kids i m by (cases "i = ROOT") (simp_all add: shown_insert kid_ids_insert [OF inv new least] subtree_new [OF least not_root [symmetric]])
next
  case 0
  then show ?case using depth_bound [OF 0(1)] ok by (simp add: doc_ok_def)
qed

lemma doc_atoms_insert:
  assumes "pos \<le> length (doc_atoms ops)" "a = (if pos = 0 then ROOT else fst (doc_atoms ops ! (pos - 1)))"
    and least: "\<forall>j \<in> set (kid_ids ops a). j < n"
  shows "doc_atoms (btm_insert n (OpInsert a c) ops) = take pos (doc_atoms ops) @ (n, c) # drop pos (doc_atoms ops)"
proof -
  have len: "length (btm_insert n (OpInsert a c) ops) = Suc (length ops)" using new by (rule length_btm_insert)
  have more: "subtree ops (Suc (Suc (length ops))) ROOT = doc_atoms ops"
    using subtree_enough [OF ok at_depth.root, of "Suc (length ops)" "Suc (Suc (length ops))"] by (simp add: doc_atoms_def del: subtree.simps)
  show ?thesis
  proof (cases "pos = 0")
    case True
    then have "a = ROOT" using assms(2) by simp
    then show ?thesis
      using subtree_insert_root [OF _ at_depth.root, of "Suc (Suc (length ops))" c] least more len True
      by (simp add: doc_atoms_def [of "btm_insert n (OpInsert ROOT c) ops"] del: subtree.simps)
  next
    case False
    then have k: "pos - 1 < length (doc_atoms ops)" "a = fst (doc_atoms ops ! (pos - 1))" using assms(1,2) by auto
    then have "(a, snd (doc_atoms ops ! (pos - 1))) \<in> set (doc_atoms ops)" by (metis nth_mem prod.collapse)
    then have "a \<noteq> ROOT" "shown ops a \<noteq> []" using ok by (auto simp: set_doc_atoms shown_def doc_ok_def is_insert_def)
    then have "doc_atoms (btm_insert n (OpInsert a c) ops) = put_after a (n, c) (doc_atoms ops)"
      using subtree_insert [OF least _ _ at_depth.root, of "Suc (Suc (length ops))" c] more len
      by (simp add: doc_atoms_def [of "btm_insert n (OpInsert a c) ops"] del: subtree.simps)
    also have "\<dots> = take pos (doc_atoms ops) @ (n, c) # drop pos (doc_atoms ops)"
      using put_after_at [OF distinct_doc_atoms [OF ok] k] False by simp
    finally show ?thesis .
  qed
qed

end

section \<open>Editing pos a position\<close>

definition clock_of :: "doc_log \<Rightarrow> bytes \<Rightarrow> u64" where
  "clock_of l w = (case btm_get (dl_clock l) w of None \<Rightarrow> 0 | Some n \<Rightarrow> n)"

definition within_clock :: "doc_log \<Rightarrow> op_id \<Rightarrow> bool" where
  "within_clock l i \<longleftrightarrow> op_counter i \<le> clock_of l (op_writer i)"

definition op_ref :: "op_kind \<Rightarrow> op_id" where
  "op_ref k = (case k of OpInsert p c \<Rightarrow> p | OpDelete t \<Rightarrow> t)"

text \<open>The invariant of a log: its tree is sound, and every id it mentions is covered by the clocks.\<close>

definition doc_inv :: "doc_log \<Rightarrow> bool" where
  "doc_inv l \<longleftrightarrow> doc_ok (dl_ops l) \<and> (\<forall>(i, k) \<in> set (dl_ops l). within_clock l i \<and> within_clock l (op_ref k))"

abbreviation next_op :: "bytes \<Rightarrow> doc_log \<Rightarrow> op_id" where
  "next_op w l \<equiv> OpId w (clock_of l w + 1)"

lemma next_id_eq: "next_id w l = (l\<lparr>dl_clock := btm_insert w (clock_of l w + 1) (dl_clock l)\<rparr>, next_op w l)"
  by (simp add: next_id_def clock_of_def Let_def)

lemma insert_ch_eq:
  "insert_ch w a c l = (l\<lparr>dl_clock := btm_insert w (clock_of l w + 1) (dl_clock l),
    dl_ops := btm_insert (next_op w l) (OpInsert a c) (dl_ops l)\<rparr>, next_op w l)"
  by (simp add: insert_ch_def next_id_eq)

lemma delete_id_eq:
  "delete_id w t l = (l\<lparr>dl_clock := btm_insert w (clock_of l w + 1) (dl_clock l),
    dl_ops := btm_insert (next_op w l) (OpDelete t) (dl_ops l)\<rparr>, next_op w l)"
  by (simp add: delete_id_def next_id_eq)

lemma clock_of_tick: "clock_of (l\<lparr>dl_clock := btm_insert w n (dl_clock l), dl_ops := ops\<rparr>) v = (if v = w then n else clock_of l v)"
  by (simp add: clock_of_def)

lemma word_less_succ: "(x :: u64) \<noteq> - 1 \<Longrightarrow> x < x + 1"
  using unatSuc [of x] by (simp add: word_less_nat_alt add.commute eq_neg_iff_add_eq_0)

lemma next_op_unseen: "clock_of l w \<noteq> - 1 \<Longrightarrow> within_clock l i \<Longrightarrow> i \<noteq> next_op w l"
  using word_less_succ [of "clock_of l w"] by (auto simp: within_clock_def)

lemma fresh_next_op:
  assumes "doc_inv l" "clock_of l w \<noteq> - 1"
  shows "fresh_op (dl_ops l) (next_op w l)"
proof
  have inv: "btm_inv (dl_ops l)" using assms(1) by (simp add: doc_inv_def doc_ok_def)
  show "doc_ok (dl_ops l)" using assms(1) by (simp add: doc_inv_def)
  show "next_op w l \<notin> fst ` set (dl_ops l)" using assms next_op_unseen by (fastforce simp: doc_inv_def)
  have "within_clock l ROOT" by (simp add: within_clock_def ROOT_def)
  then show "next_op w l \<noteq> ROOT" using next_op_unseen [OF assms(2)] by metis
  have ref: "next_op w l \<noteq> op_ref k" if "(i, k) \<in> set (dl_ops l)" for i k
    using that assms next_op_unseen by (fastforce simp: doc_inv_def)
  have "i \<notin> set (kid_ids (dl_ops l) (next_op w l))" for i
  proof
    assume "i \<in> set (kid_ids (dl_ops l) (next_op w l))"
    then obtain c where "(i, OpInsert (next_op w l) c) \<in> set (dl_ops l)" by (auto simp: set_kid_ids inv btm.get_Some_iff)
    then show False using ref by (force simp: op_ref_def)
  qed
  then show "kid_ids (dl_ops l) (next_op w l) = []" by (cases "kid_ids (dl_ops l) (next_op w l)") auto
  show "\<not> is_deleted (dl_ops l) (next_op w l)" using ref by (force simp: is_deleted_def op_ref_def)
qed

lemma doc_inv_step:
  assumes "doc_inv l" "clock_of l w \<noteq> - 1" "within_clock l (op_ref k)" "doc_ok (btm_insert (next_op w l) k (dl_ops l))"
  shows "doc_inv (l\<lparr>dl_clock := btm_insert w (clock_of l w + 1) (dl_clock l), dl_ops := btm_insert (next_op w l) k (dl_ops l)\<rparr>)"
    (is "doc_inv ?l")
proof -
  have "within_clock ?l i" if "within_clock l i" for i
    using that word_less_succ [OF assms(2)] by (auto simp: within_clock_def clock_of_tick)
  moreover have "within_clock ?l (next_op w l)" by (simp add: within_clock_def clock_of_tick)
  moreover have "set (dl_ops ?l) = insert (next_op w l, k) (set (dl_ops l))"
    using fresh_op.new [OF fresh_next_op [OF assms(1,2)]] by (simp add: set_btm_insert_new)
  ultimately show ?thesis using assms by (auto simp: doc_inv_def)
qed

lemma not_max_clock: "unat (c :: u64) + Suc n < 2 ^ 64 \<Longrightarrow> c \<noteq> - 1 \<and> unat (c + 1) = Suc (unat c)"
proof -
  assume a: "unat c + Suc n < 2 ^ 64"
  then have "c \<noteq> - 1" by (auto simp: unsigned_minus_1_eq_mask mask_eq_exp_minus_1)
  moreover have "unat (c + 1) = Suc (unat c)" using a by (simp add: unat_word_ariths)
  ultimately show ?thesis ..
qed

lemma insert_chars_atoms:
  "doc_inv l \<Longrightarrow> pos \<le> length (doc_atoms (dl_ops l)) \<Longrightarrow> a = (if pos = 0 then ROOT else fst (doc_atoms (dl_ops l) ! (pos - 1))) \<Longrightarrow>
   unat (clock_of l w) + length cs < 2 ^ 64 \<Longrightarrow> \<forall>c \<in> set cs. char_from_u32 c = Some c \<Longrightarrow>
   \<forall>j \<in> set (kid_ids (dl_ops l) a). j < next_op w l \<Longrightarrow>
   doc_inv (insert_chars w a cs l) \<and> map snd (doc_atoms (dl_ops (insert_chars w a cs l))) =
     take pos (map snd (doc_atoms (dl_ops l))) @ cs @ drop pos (map snd (doc_atoms (dl_ops l)))"
proof (induction cs arbitrary: l pos a)
  case Nil
  then show ?case by simp
next
  case (Cons c cs)
  let ?n = "next_op w l"
  let ?ops = "btm_insert ?n (OpInsert a c) (dl_ops l)"
  let ?l = "l\<lparr>dl_clock := btm_insert w (clock_of l w + 1) (dl_clock l), dl_ops := ?ops\<rparr>"
  have clk: "clock_of l w \<noteq> - 1" "unat (clock_of l w + 1) = Suc (unat (clock_of l w))"
    using not_max_clock [of "clock_of l w" "length cs"] Cons.prems(4) by simp_all
  note F = fresh_next_op [OF Cons.prems(1) clk(1)]
  have atoms: "doc_atoms ?ops = take pos (doc_atoms (dl_ops l)) @ (?n, c) # drop pos (doc_atoms (dl_ops l))"
    using fresh_op.doc_atoms_insert [OF F Cons.prems(2,3,6)] .
  have a: "within_clock l a"
  proof (cases "pos = 0")
    case False
    then have "(a, snd (doc_atoms (dl_ops l) ! (pos - 1))) \<in> set (doc_atoms (dl_ops l))"
      using Cons.prems(2,3) by (metis diff_less less_le_trans nth_mem prod.collapse zero_less_one gr0I)
    then obtain p x where "(a, OpInsert p x) \<in> set (dl_ops l)"
      using Cons.prems(1) by (auto simp: doc_inv_def set_doc_atoms dest: map_of_SomeD)
    then show ?thesis using Cons.prems(1) by (auto simp: doc_inv_def)
  qed (simp add: Cons.prems(3) within_clock_def ROOT_def)
  have ok: "doc_ok ?ops" using fresh_op.doc_ok_insert [OF F] Cons.prems(5) by simp
  have l: "doc_inv ?l" using doc_inv_step [OF Cons.prems(1) clk(1), of "OpInsert a c"] a ok by (simp add: op_ref_def)
  have "kid_ids ?ops ?n = []"
    using kid_ids_insert [OF fresh_op.inv [OF F] fresh_op.new [OF F] Cons.prems(6)] fresh_op.unused(1) [OF F] not_sym [OF next_op_unseen [OF clk(1) a]]
    by simp
  moreover have "?n = fst (doc_atoms ?ops ! pos)" "Suc pos \<le> length (doc_atoms ?ops)"
    using Cons.prems(2) by (simp_all add: atoms nth_append)
  ultimately have "doc_inv (insert_chars w ?n cs ?l) \<and> map snd (doc_atoms (dl_ops (insert_chars w ?n cs ?l))) =
     take (Suc pos) (map snd (doc_atoms ?ops)) @ cs @ drop (Suc pos) (map snd (doc_atoms ?ops))"
    using Cons.IH [OF l, of "Suc pos" ?n] Cons.prems(4,5) clk(2) by (simp add: clock_of_tick)
  then show ?case using Cons.prems(2) by (simp add: insert_ch_eq atoms take_map drop_map)
qed

text \<open>
  C21. Typing at a position puts the text there: on a sound log whose clocks cover its ids,
  \<open>insert_text\<close> pos a position inside the document splices the new text in pos exactly that position
  and keeps the log sound, provided the writer's id is not smaller than that of any other writer with
  an insert pos the same place, and its clock does not run over.
\<close>

theorem insert_text_splices:
  assumes "doc_inv l" "DocLog_text l = Some (Ok old)" "pos \<le> length old"
    and "unat (clock_of l w) + length cs < 2 ^ 64" "\<forall>c \<in> set cs. char_from_u32 c = Some c"
    and "\<forall>(i, k) \<in> set (dl_ops l). op_writer i \<le> w"
  shows "\<exists>l'. insert_text w pos cs l = Some (l', Ok ()) \<and> doc_inv l' \<and>
    DocLog_text l' = Some (Ok (take pos old @ cs @ drop pos old))"
proof -
  have ok: "doc_ok (dl_ops l)" using assms(1) by (simp add: doc_inv_def)
  then have old: "old = map snd (doc_atoms (dl_ops l))" using assms(2) DocLog_atoms_eq [of l] by (simp add: DocLog_text_def)
  let ?a = "if pos = 0 then ROOT else fst (doc_atoms (dl_ops l) ! (pos - 1))"
  have least: "\<forall>j \<in> set (kid_ids (dl_ops l) ?a). j < next_op w l" if nonempty: "cs \<noteq> []"
  proof
    fix j assume "j \<in> set (kid_ids (dl_ops l) ?a)"
    then obtain k where j: "(j, k) \<in> set (dl_ops l)" using ok by (auto simp: set_kid_ids doc_ok_def dest: map_of_SomeD)
    obtain n where "length cs = Suc n" using nonempty by (cases cs) auto
    then have "clock_of l w \<noteq> - 1" using not_max_clock [of "clock_of l w" n] assms(4) by simp
    then have "op_writer j = w \<Longrightarrow> op_counter j < clock_of l w + 1"
      using j assms(1) word_less_succ [of "clock_of l w"] by (fastforce simp: doc_inv_def within_clock_def)
    then show "j < next_op w l" using j assms(6) by (fastforce simp: less_op_id_def)
  qed
  have "doc_inv (insert_chars w ?a cs l) \<and> map snd (doc_atoms (dl_ops (insert_chars w ?a cs l))) = take pos old @ cs @ drop pos old"
  proof (cases "cs = []")
    case False
    then show ?thesis
      using insert_chars_atoms [OF assms(1) _ refl assms(4,5) least [OF False]] assms(3) by (simp add: old)
  qed (use assms(1) old in simp)
  moreover have "DocLog_text l' = Some (Ok (map snd (doc_atoms (dl_ops l'))))" if "doc_inv l'" for l'
    using that DocLog_atoms_eq [of l'] by (simp add: doc_inv_def DocLog_text_def)
  ultimately show ?thesis
    using assms(3) DocLog_atoms_eq [OF ok] old by (simp add: insert_text_def)
qed

lemma delete_ids_atoms:
  "doc_inv l \<Longrightarrow> unat (clock_of l w) + length as < 2 ^ 64 \<Longrightarrow> \<forall>a \<in> set as. within_clock l (fst a) \<Longrightarrow>
   let l' = fold (\<lambda>a l. fst (delete_id w (fst a) l)) as l in
   doc_inv l' \<and> doc_atoms (dl_ops l') = filter (\<lambda>e. fst e \<notin> fst ` set as) (doc_atoms (dl_ops l))"
proof (induction as arbitrary: l)
  case Nil
  then show ?case by simp
next
  case (Cons a as)
  let ?ops = "btm_insert (next_op w l) (OpDelete (fst a)) (dl_ops l)"
  let ?l = "l\<lparr>dl_clock := btm_insert w (clock_of l w + 1) (dl_clock l), dl_ops := ?ops\<rparr>"
  have clk: "clock_of l w \<noteq> - 1" "unat (clock_of l w + 1) = Suc (unat (clock_of l w))"
    using not_max_clock [of "clock_of l w" "length as"] Cons.prems(2) by simp_all
  note F = fresh_next_op [OF Cons.prems(1) clk(1)]
  have l: "doc_inv ?l"
    using doc_inv_step [OF Cons.prems(1) clk(1), of "OpDelete (fst a)"] fresh_op.doc_ok_delete [OF F] Cons.prems(3) by (simp add: op_ref_def)
  have "\<forall>a \<in> set as. within_clock ?l (fst a)"
    using Cons.prems(3) word_less_succ [OF clk(1)] by (auto simp: within_clock_def clock_of_tick intro: order_trans)
  then show ?case
    using Cons.IH [OF l] Cons.prems(2) clk(2) fresh_op.doc_atoms_delete [OF F, of "fst a"]
    by (simp add: delete_id_eq clock_of_tick Let_def conj_commute)
qed

lemma filter_out_slice:
  assumes "distinct (map fst L)"
  shows "filter (\<lambda>e. fst e \<notin> fst ` set (take k (drop i L))) L = take i L @ drop (i + k) L"
proof -
  have L: "L = take i L @ take k (drop i L) @ drop (i + k) L" by (metis append_take_drop_id drop_drop add.commute)
  let ?x = "take i L" and ?y = "take k (drop i L)" and ?z = "drop (i + k) L"
  have "distinct (map fst (?x @ ?y @ ?z))" using assms L by metis
  then have "fst ` set ?x \<inter> fst ` set ?y = {}" "fst ` set ?z \<inter> fst ` set ?y = {}" by (auto simp: Int_Un_distrib)
  then have "filter (\<lambda>e. fst e \<notin> fst ` set ?y) (?x @ ?y @ ?z) = ?x @ ?z"
    by (simp add: filter_id_conv filter_empty_conv disjoint_iff)
  then show ?thesis using L by metis
qed

text \<open>
  Deleting a range removes exactly that range: on a sound log whose clocks cover its ids,
  \<open>delete_range\<close> inside the document removes those characters, whoever wrote them, and keeps the log
  sound; a range that reaches past the end is refused and nothing changes.
\<close>

theorem delete_range_removes_the_range:
  assumes "doc_inv l" "DocLog_text l = Some (Ok old)" "unat (clock_of l w) + count < 2 ^ 64" "length old < 2 ^ 64 - 1"
  shows "if pos + count \<le> length old
    then \<exists>l'. delete_range w pos count l = Some (l', Ok ()) \<and> doc_inv l' \<and>
      DocLog_text l' = Some (Ok (take pos old @ drop (pos + count) old))
    else delete_range w pos count l = Some (l, Err DocRange)"
proof -
  have ok: "doc_ok (dl_ops l)" using assms(1) by (simp add: doc_inv_def)
  let ?A = "doc_atoms (dl_ops l)"
  have old: "old = map snd ?A" using assms(2) DocLog_atoms_eq [OF ok] by (simp add: DocLog_text_def)
  let ?s = "take count (drop pos ?A)"
  let ?l = "fold (\<lambda>a l. fst (delete_id w (fst a) l)) ?s l"
  have "within_clock l (fst a)" if "a \<in> set ?s" for a
  proof -
    have "a \<in> set ?A" using that by (meson in_set_dropD in_set_takeD)
    then obtain p c where "(fst a, OpInsert p c) \<in> set (dl_ops l)" using ok by (auto simp: set_doc_atoms dest: map_of_SomeD)
    then show ?thesis using assms(1) by (auto simp: doc_inv_def)
  qed
  moreover have "unat (clock_of l w) + length ?s < 2 ^ 64" using assms(3) by simp
  ultimately have "doc_inv ?l" "doc_atoms (dl_ops ?l) = take pos ?A @ drop (pos + count) ?A"
    using delete_ids_atoms [OF assms(1), of w ?s] filter_out_slice [OF distinct_doc_atoms [OF ok]] by (simp_all add: Let_def)
  then have "doc_inv ?l \<and> DocLog_text ?l = Some (Ok (take pos old @ drop (pos + count) old))"
    using DocLog_atoms_eq [of ?l] by (simp add: doc_inv_def DocLog_text_def old take_map drop_map)
  then show ?thesis
    using assms(4) by (auto simp: delete_range_def DocLog_atoms_eq [OF ok] old)
qed

end
