(* ===== verification/Doc_Store.thy ===== *)
theory Doc_Store
  imports Doc_Text
begin

text \<open>
  The stored form of a document log: what is stored loads, and what loads can be read; and the limits
  of the format and of editing, each shown on a concrete log.
\<close>

section \<open>Round trip\<close>

definition wf_op :: "op_id \<times> op_kind \<Rightarrow> bool" where
  "wf_op op \<longleftrightarrow> arr DOC_WRITER_LEN (op_writer (fst op)) \<and> arr DOC_WRITER_LEN (op_writer (op_ref (snd op))) \<and>
    (case snd op of OpInsert p c \<Rightarrow> char_from_u32 c = Some c | OpDelete t \<Rightarrow> True)"

definition wf_doc :: "doc_log \<Rightarrow> bool" where
  "wf_doc l \<longleftrightarrow> btm_inv (dl_ops l) \<and> list_all wf_op (dl_ops l) \<and> btm_inv (dl_clock l) \<and>
    list_all (\<lambda>(w, n). arr DOC_WRITER_LEN w) (dl_clock l) \<and> 3 + 2 * length (dl_clock l) < 2 ^ 64"

lemma char_from_u32_valid: "char_from_u32 c \<noteq> None \<Longrightarrow> char_from_u32 c = Some c"
  by (auto simp: char_from_u32_def split: if_splits)

lemma u32_le_nonempty: "u32_le c \<noteq> []"
  using length_u_le(2) [of c] by force

interpretation doc_table: entry_table 6 doc_key doc_value doc_op_fields wf_op
  "DocNonCanonical ''ops are not in ascending id order''" "DocNonCanonical ''duplicate op id''"
proof unfold_locales
  fix r :: "bytes list" and x :: "op_id \<times> op_kind"
  assume "length r = 6"
  then obtain a b c d e g where r: "r = [a, b, c, d, e, g]" by (auto simp: length_Suc_conv numeral_eq_Suc)
  obtain w n k where x: "x = (OpId w n, k)" by (metis op_id.exhaust prod.exhaust)
  show "(doc_key r = Inr (fst x) \<and> doc_value r = Inr (snd x)) \<longleftrightarrow> wf_op x \<and> doc_op_fields x = Inr r" (is "?l \<longleftrightarrow> ?r")
  proof
    assume l: ?l
    then have key: "arr DOC_WRITER_LEN a" "arr 8 b" "OpId w n = OpId a (u64_of_le b)"
      by (auto simp: r x doc_key_def result_elims)
    obtain v where c: "c = [v]" using l by (auto simp: r doc_value_def result_elims length_Suc_conv)
    have val: "arr DOC_WRITER_LEN d" "arr 8 e" "v = 1 \<or> v = 2"
      using l by (auto simp: r x c doc_value_def rbind_Inr_iff fixed_width_Inr_iff Let_def split: if_splits)
    have ins: "arr 4 g \<and> char_from_u32 (u32_of_le g) \<noteq> None \<and> k = OpInsert (OpId d (u64_of_le e)) (u32_of_le g)" if "v = 1"
      using l that by (auto simp: r x c doc_value_def rbind_Inr_iff fixed_width_Inr_iff Let_def split: if_splits)
    have del: "g = [] \<and> k = OpDelete (OpId d (u64_of_le e))" if "v = 2"
      using l that by (auto simp: r x c doc_value_def rbind_Inr_iff fixed_width_Inr_iff Let_def split: if_splits)
    from val(3) show ?r
    proof
      assume "v = 1"
      then show ?r using key val(1,2) ins char_from_u32_valid [of "u32_of_le g"] by (simp add: r x c doc_op_fields_def wf_op_def op_ref_def)
    next
      assume "v = 2"
      then show ?r using key val(1,2) del by (simp add: r x c doc_op_fields_def wf_op_def op_ref_def)
    qed
  next
    assume ?r
    then show ?l
      by (cases k) (auto simp: r x doc_key_def doc_value_def doc_op_fields_def wf_op_def op_ref_def result_elims Let_def u32_le_nonempty)
  qed
qed (auto simp: doc_op_fields_def split: op_kind.splits)

lemma decode_clock_entries:
  "btm_inv (acc @ clock) \<Longrightarrow> list_all (\<lambda>(w, n). arr DOC_WRITER_LEN w) clock \<Longrightarrow>
    decode_clock (concat (map (\<lambda>(w, n). [w, u64_le n]) clock)) acc = Ok (acc @ clock)"
proof (induction clock arbitrary: acc)
  case (Cons x clock)
  obtain w n where x: "x = (w, n)" by fastforce
  have lt: "\<forall>k \<in> fst ` set acc. k < w" using Cons.prems(1) by (auto simp: x sorted_wrt_append)
  then have "btm_get acc w = None" by (force simp: map_of_eq_None_iff)
  then show ?case using Cons by (simp add: x btm_insert_last [OF lt])
qed simp

lemma doc_roundtrip:
  assumes "wf_doc l" "DocLog_encode l = Ok bs"
  shows "DocLog_decode bs = Ok l"
proof -
  let ?c = "concat (map (\<lambda>(w, n). [w, u64_le n]) (dl_clock l))"
  obtain fs where fs: "lay_entries doc_op_fields (dl_ops l) = Inr fs"
    "encode_fields ([DOC_MAGIC, [DOC_VERSION], u64_le (of_nat (length (dl_clock l)))] @ ?c @ fs) = Inr bs"
    using assms(2) by (auto simp: DocLog_encode_def result_elims)
  then have dec: "decode_fields bs = Inr ([DOC_MAGIC, [DOC_VERSION], u64_le (of_nat (length (dl_clock l)))] @ ?c @ fs)"
    using fields.dec_iff by blast
  have len: "length ?c = 2 * length (dl_clock l)" by (induction "dl_clock l") (auto simp: length_concat comp_def case_prod_beta sum_list_triv)
  have n: "unat (of_nat (length (dl_clock l)) :: u64) = length (dl_clock l)"
    using assms(1) by (simp add: wf_doc_def unat_of_nat)
  have "decode_clock ?c [] = Ok (dl_clock l)" using decode_clock_entries [of "[]"] assms(1) by (simp add: wf_doc_def)
  moreover have "asc_entries 6 doc_key doc_value (DocNonCanonical ''ops are not in ascending id order'')
      (DocNonCanonical ''duplicate op id'') None fs [] = Inr (dl_ops l)"
    using doc_table.asc_entries_iff [OF doc_table.layout_dvd [OF fs(1)]] fs(1) assms(1) by (simp add: wf_doc_def)
  moreover have "6 dvd length fs" using doc_table.layout_dvd [OF fs(1)] .
  moreover have "drop (3 + length (dl_clock l) * 2) (x # y # z # ?c @ fs) = fs" for x y z
    by (simp add: len numeral_3_eq_3)
  ultimately show ?thesis
    using assms(1) len n by (simp add: DocLog_decode_def dec Let_def wf_doc_def mult.commute)
qed

interpretation doc_store: sealed_format DocLog_encode DocLog_decode wf_doc DOC_AAD DocCrypto DocStoreErr
  DocStore_store DocStore_load
  by unfold_locales (simp_all add: doc_roundtrip DocStore_store_def DocStore_load_def)

lemma decoded_ops:
  assumes "DocLog_decode bs = Ok l"
  shows "btm_inv (dl_ops l) \<and> list_all wf_op (dl_ops l)"
proof -
  obtain k f where "6 dvd length (f :: bytes list) - k" "asc_entries 6 doc_key doc_value (DocNonCanonical ''ops are not in ascending id order'')
      (DocNonCanonical ''duplicate op id'') None (drop k f) [] = Inr (dl_ops l)"
    using assms by (auto simp: DocLog_decode_def result_elims Let_def split: if_splits)
  then show ?thesis using doc_table.asc_entries_iff [of "drop k f"] by simp
qed

lemma decoded_doc_ok: "DocLog_decode bs = Ok l \<Longrightarrow> \<not> is_insert (dl_ops l) ROOT \<Longrightarrow> doc_ok (dl_ops l)"
  using decoded_ops [of bs l] by (force simp: doc_ok_def list_all_iff wf_op_def dest: map_of_SomeD)

section \<open>Limits\<close>

text \<open>
  The decoder accepts the clocks in any order, and a clock count of \<open>2^63\<close> wraps to an empty clock
  list in a release build, so unlike the other formats a log has more than one encoding.
\<close>

lemma clock_order_is_free:
  assumes "w1 \<noteq> w2" "arr DOC_WRITER_LEN w1" "arr DOC_WRITER_LEN w2"
    and "decode_fields bs = Ok [DOC_MAGIC, [DOC_VERSION], u64_le 2, w1, u64_le n1, w2, u64_le n2]"
    and "decode_fields bs' = Ok [DOC_MAGIC, [DOC_VERSION], u64_le 2, w2, u64_le n2, w1, u64_le n1]"
  shows "bs \<noteq> bs' \<and> DocLog_decode bs = DocLog_decode bs' \<and> \<not> is_err (DocLog_decode bs)"
proof -
  have "btm_insert w2 n2 [(w1, n1)] = btm_insert w1 n1 [(w2, n2)]" using assms(1) by auto
  then show ?thesis
    using assms by (auto simp: DocLog_decode_def Let_def asc_entries.simps is_err_def)
qed

lemma clock_count_wraps:
  assumes "decode_fields bs = Ok [DOC_MAGIC, [DOC_VERSION], u64_le 0x8000000000000000]"
  shows "DocLog_decode bs = Ok \<lparr>dl_ops = [], dl_clock = []\<rparr>"
  using assms by (simp add: DocLog_decode_def Let_def asc_entries.simps)

text \<open>
  A log may contain an insert under the id of \<open>ROOT\<close>, after \<open>ROOT\<close>: it decodes, and the doc_walk never
  returns (the recursion of the program overflows its stack).
\<close>

lemma walk_loops:
  assumes "children kids ROOT = [ROOT]"
  shows "doc_walk kids deleted (ROOT # rest) out = None"
proof -
  have "ks = kids \<longrightarrow> (\<forall>rest. ids \<noteq> ROOT # rest)" if ret: "doc_walk ks dl ids out = Some r" for ks dl ids out r
  proof (rule doc_walk.raw_induct [where P = "\<lambda>ks dl ids out r. ks = kids \<longrightarrow> (\<forall>rest. ids \<noteq> ROOT # rest)", OF _ ret])
    fix walk' ks dl ids out r
    assume IH: "\<And>ks dl ids out y. walk' ks dl ids out = Some y \<Longrightarrow> ks = kids \<longrightarrow> (\<forall>rest. ids \<noteq> ROOT # rest)"
      and step: "(case ids of [] \<Rightarrow> Some (Ok out)
        | oid # rest \<Rightarrow>
            (case visit ks dl oid out of Inl e \<Rightarrow> Some (Err e)
             | Inr out' \<Rightarrow> Option.bind (walk' ks dl (children ks oid) out')
                 (\<lambda>r. case r of Inl e \<Rightarrow> Some (Err e) | Inr out'' \<Rightarrow> walk' ks dl rest out''))) = Some r"
    have "walk' kids dl [ROOT] out = None" using IH [of kids dl "[ROOT]" out] by (cases "walk' kids dl [ROOT] out") auto
    then show "ks = kids \<longrightarrow> (\<forall>rest. ids \<noteq> ROOT # rest)" using step assms by (auto simp: visit_def)
  qed
  then show ?thesis by (cases "doc_walk kids deleted (ROOT # rest) out") blast+
qed

lemma root_insert_never_returns:
  "DocLog_atoms \<lparr>dl_ops = [(ROOT, OpInsert ROOT 97)], dl_clock = []\<rparr> = None"
  by (simp add: DocLog_atoms_def walk_loops children_def btm_upsert_def sort_desc_def)

lemma root_insert_is_wf: "wf_doc \<lparr>dl_ops = [(ROOT, OpInsert ROOT 97)], dl_clock = []\<rparr>"
  by (simp add: wf_doc_def wf_op_def op_ref_def ROOT_def char_from_u32_def)

text \<open>
  Ids are ordered by writer first. A writer with a smaller id who types at the front of a document
  another writer started sees the text appear behind it.
\<close>

definition writer_a :: bytes where "writer_a = replicate 32 1"
definition writer_z :: bytes where "writer_z = replicate 32 9"

definition doc_xy :: doc_log where
  "doc_xy = insert_chars writer_z ROOT [120, 121] \<lparr>dl_ops = [], dl_clock = []\<rparr>"

lemma writers_less: "writer_a < writer_z" "\<not> writer_z < writer_a" "writer_a \<noteq> writer_z"
  by code_simp+

lemma doc_xy_eq:
  "doc_xy = \<lparr>dl_ops = [(OpId writer_z 1, OpInsert ROOT 120), (OpId writer_z 2, OpInsert (OpId writer_z 1) 121)],
    dl_clock = [(writer_z, 2)]\<rparr>"
  by (simp add: doc_xy_def insert_ch_eq clock_of_def less_op_id_def)

lemmas doc_eval = doc_atoms_def shown_def is_deleted_def op_char_def kid_ids_def inserts_after_def map_filter_simps ROOT_def writer_a_def writer_z_def

lemma doc_ok_iff:
  "doc_ok ops \<longleftrightarrow> btm_inv ops \<and> (\<forall>(i, k) \<in> set ops. case k of OpInsert p c \<Rightarrow> i \<noteq> ROOT \<and> char_from_u32 c = Some c | OpDelete t \<Rightarrow> True)"
proof (cases "btm_inv ops")
  case True
  then show ?thesis by (fastforce simp: doc_ok_def is_insert_def btm.get_Some_iff split: op_kind.splits)
qed (simp add: doc_ok_def)

lemma small_writer_types_behind:
  "DocLog_text doc_xy = Some (Ok [120, 121])"
  "\<exists>l'. insert_text writer_a 0 [97] doc_xy = Some (l', Ok ()) \<and> DocLog_text l' = Some (Ok [120, 121, 97])"
proof -
  have ok: "doc_ok (dl_ops doc_xy)"
    by (simp add: doc_ok_iff doc_xy_eq less_op_id_def char_from_u32_def ROOT_def)
  have atoms: "doc_atoms (dl_ops doc_xy) = [(OpId writer_z 1, 120), (OpId writer_z 2, 121)]"
    by (simp add: doc_xy_eq doc_eval DOC_WRITER_LEN_def)
  show "DocLog_text doc_xy = Some (Ok [120, 121])" by (simp add: DocLog_text_def DocLog_atoms_eq [OF ok] atoms)
  let ?l = "insert_chars writer_a ROOT [97] doc_xy"
  have l: "dl_ops ?l = (OpId writer_a 1, OpInsert ROOT 97) # dl_ops doc_xy"
    using writers_less by (simp add: insert_ch_eq clock_of_def doc_xy_eq less_op_id_def)
  have "doc_ok (dl_ops ?l)" unfolding l
    using writers_less by (simp add: doc_ok_iff doc_xy_eq less_op_id_def char_from_u32_def ROOT_def)
  moreover have "doc_atoms (dl_ops ?l) = [(OpId writer_z 1, 120), (OpId writer_z 2, 121), (OpId writer_a 1, 97)]"
    unfolding l by (simp add: doc_xy_eq doc_eval DOC_WRITER_LEN_def)
  ultimately have "DocLog_text ?l = Some (Ok [120, 121, 97])" by (simp add: DocLog_text_def DocLog_atoms_eq)
  moreover have "insert_text writer_a 0 [97] doc_xy = Some (?l, Ok ())" by (simp add: insert_text_def DocLog_atoms_eq [OF ok])
  ultimately show "\<exists>l'. insert_text writer_a 0 [97] doc_xy = Some (l', Ok ()) \<and> DocLog_text l' = Some (Ok [120, 121, 97])" by blast
qed

text \<open>
  Compaction forgets deletions: merging a compacted log with a replica that had not heard of the
  deletion brings the deleted character back, and the two orders of merging differ once compaction
  has rewritten an \<open>after\<close> reference.
\<close>

definition doc_deleted_x :: doc_log where
  "doc_deleted_x = fst (delete_id writer_z (OpId writer_z 1) doc_xy)"

lemma doc_deleted_x_eq:
  "doc_deleted_x = \<lparr>dl_ops = [(OpId writer_z 1, OpInsert ROOT 120), (OpId writer_z 2, OpInsert (OpId writer_z 1) 121),
    (OpId writer_z 3, OpDelete (OpId writer_z 1))], dl_clock = [(writer_z, 3)]\<rparr>"
  by (simp add: doc_deleted_x_def delete_id_eq doc_xy_eq clock_of_def less_op_id_def)

lemma doc_deleted_x_clock: "dl_clock doc_deleted_x = [(writer_z, 3)]"
  by (simp add: doc_deleted_x_eq)

lemma compaction_forgets_deletions:
  "\<exists>l'. DocLog_compact doc_deleted_x = Some (Ok l') \<and> DocLog_text l' = Some (Ok [121]) \<and>
    DocLog_text (DocLog_merge doc_xy l') = Some (Ok [120, 121]) \<and> DocLog_merge doc_xy l' \<noteq> DocLog_merge l' doc_xy"
proof -
  let ?c = "\<lparr>dl_ops = [(OpId writer_z 2, OpInsert ROOT 121)], dl_clock = [(writer_z, 3)]\<rparr>"
  have ok: "doc_ok (dl_ops doc_deleted_x)" "doc_ok (dl_ops ?c)"
    by (simp_all add: doc_ok_iff doc_deleted_x_eq less_op_id_def char_from_u32_def ROOT_def)
  have "doc_atoms (dl_ops doc_deleted_x) = [(OpId writer_z 2, 121)]"
    by (simp add: doc_deleted_x_eq doc_eval DOC_WRITER_LEN_def)
  then have c: "DocLog_compact doc_deleted_x = Some (Ok ?c)"
    using DocLog_atoms_eq [OF ok(1)] doc_deleted_x_clock by (simp add: DocLog_compact_def)
  have "doc_atoms (dl_ops ?c) = [(OpId writer_z 2, 121)]" by (simp add: doc_eval DOC_WRITER_LEN_def)
  then have t: "DocLog_text ?c = Some (Ok [121])" using DocLog_atoms_eq [OF ok(2)] by (simp add: DocLog_text_def)
  have m: "DocLog_merge doc_xy ?c = \<lparr>dl_ops = dl_ops doc_xy, dl_clock = [(writer_z, 3)]\<rparr>"
    by (simp add: DocLog_merge_def doc_xy_eq merge_op_def btm_or_insert_def merge_clock_def btm_upsert_def)
  have "DocLog_text (DocLog_merge doc_xy ?c) = DocLog_text doc_xy"
    by (simp add: m DocLog_text_def DocLog_atoms_def)
  then have "DocLog_text (DocLog_merge doc_xy ?c) = Some (Ok [120, 121])" using small_writer_types_behind(1) by simp
  moreover have "DocLog_merge doc_xy ?c \<noteq> DocLog_merge ?c doc_xy"
    by (simp add: DocLog_merge_def doc_xy_eq merge_op_def btm_or_insert_def merge_clock_def btm_upsert_def less_op_id_def ROOT_def)
  ultimately show ?thesis using c t by blast
qed

section \<open>Witnesses\<close>

lemma sample_docs_ok: "doc_ok (dl_ops doc_xy)" "doc_ok (dl_ops doc_deleted_x)"
  by (simp_all add: doc_ok_iff doc_xy_eq doc_deleted_x_eq less_op_id_def char_from_u32_def ROOT_def)

lemma sample_docs_consistent: "consistent_logs {doc_xy, doc_deleted_x}"
  by (simp add: consistent_logs_def doc_xy_eq doc_deleted_x_eq less_op_id_def)

lemma sample_gossip:
  "gossip DocLog_merge {doc_xy, doc_deleted_x} (DocLog_merge doc_xy doc_deleted_x)"
  "gossip DocLog_merge {doc_xy, doc_deleted_x} (DocLog_merge doc_deleted_x doc_xy)"
  using gossip.hear [OF gossip.own gossip.own, of DocLog_merge doc_xy doc_deleted_x]
    gossip.hear [OF gossip.own gossip.own, of DocLog_merge doc_deleted_x doc_xy] by (simp_all add: insert_commute)

theorem document_shows_each_character_once_witness:
  "\<exists>atoms. DocLog_atoms doc_deleted_x = Some (Ok atoms) \<and> distinct (map fst atoms)"
  using document_shows_each_character_once [OF sample_docs_ok(2)] by blast

theorem document_replicas_converge_witness:
  "DocLog_merge doc_xy doc_deleted_x = DocLog_merge doc_deleted_x doc_xy"
  using document_replicas_converge [OF sample_gossip sample_docs_consistent] by blast

theorem merged_document_keeps_every_edit_witness:
  "\<exists>atoms. DocLog_atoms (DocLog_merge doc_xy doc_deleted_x) = Some (Ok atoms) \<and> (\<forall>c. (OpId writer_z 1, c) \<notin> set atoms)"
proof -
  have "is_deleted (dl_ops doc_deleted_x) (OpId writer_z 1)" by (simp add: is_deleted_def doc_deleted_x_eq)
  then show ?thesis
    using merged_document_keeps_every_edit [OF sample_gossip(1) sample_docs_consistent] sample_docs_ok by blast
qed

theorem compaction_keeps_the_document_witness:
  "\<exists>l'. DocLog_compact doc_deleted_x = Some (Ok l') \<and> DocLog_text l' = DocLog_text doc_deleted_x"
  using compaction_keeps_the_document [OF sample_docs_ok(2)] by blast

lemma doc_xy_inv: "doc_inv doc_xy"
  using sample_docs_ok(1) by (simp add: doc_inv_def) (simp add: doc_xy_eq within_clock_def op_ref_def clock_of_def ROOT_def)

theorem insert_text_splices_witness:
  "\<exists>l'. insert_text writer_z 1 [97] doc_xy = Some (l', Ok ()) \<and> DocLog_text l' = Some (Ok [120, 97, 121])"
  using insert_text_splices [OF doc_xy_inv small_writer_types_behind(1), of 1 writer_z "[97]"]
  by (auto simp: doc_xy_eq clock_of_def char_from_u32_def)

theorem delete_range_removes_the_range_witness:
  "\<exists>l'. delete_range writer_a 0 1 doc_xy = Some (l', Ok ()) \<and> DocLog_text l' = Some (Ok [121])"
  using delete_range_removes_the_range [OF doc_xy_inv small_writer_types_behind(1), of writer_a 1 0] writers_less
  by (auto simp: doc_xy_eq clock_of_def)

end
