(* ===== verification/Indexes.thy ===== *)
theory Indexes
  imports Bucket Git_Index Doc_Store
begin

text \<open>The three sealed indexes of a directory side by side: the bucket, the git object map and the document log.\<close>

text \<open>
  What is stored loads: a bucket manifest, a git object map and a document log that was stored,
  sealed or in plaintext, loads back exactly, from the disk of that moment or any later one, as long
  as the blobs on it do not collide under the hash.
\<close>

theorem stored_index_loads:
  assumes "disk_ok B d" "extends B d' d''" "separates B d''" "sound_aead A" "io_read io = None"
  shows "(wf_bucket b \<and> BucketStore_store B A S slr dir b d = (d', Ok a) \<longrightarrow> BucketStore_load B A io slr (dk_store d'') dir a = Ok b) \<and>
    (wf_oid_map m \<and> GitStore_store_map B A S slr dir m d = (d', Ok a) \<longrightarrow> GitStore_load_map B A io slr (dk_store d'') dir a = Ok m) \<and>
    (wf_doc l \<and> DocStore_store B A S slr dir l d = (d', Ok a) \<longrightarrow> DocStore_load B A io slr (dk_store d'') dir a = Ok l)"
  using bucket_store.store_then_load [OF _ _ assms(1-5), of b S slr dir a]
    git_store.store_then_load [OF _ _ assms(1-5), of m S slr dir a]
    doc_store.store_then_load [OF _ _ assms(1-5), of l S slr dir a]
  by blast

definition empty_map_bytes :: bytes where
  "empty_map_bytes = concat (map frame [GIT_MAGIC, [GIT_VERSION]])"

lemma empty_map_encodes: "OidMap_encode [] = Ok empty_map_bytes"
  by (simp add: OidMap_encode_def lay_entries_simps empty_map_bytes_def encode_fields_Inr_iff map_err_Inr_iff GIT_MAGIC_def byte_str_def MAX_FIELD_def)

theorem stored_index_loads_witness:
  "GitStore_load_map toy_backend toy_aead toy_io (SealPlaintext []) (dk_store (toy_disk_of empty_map_bytes)) []
    (toy_hash empty_map_bytes) = Ok []"
proof -
  have "GitStore_store_map toy_backend toy_aead toy_os (SealPlaintext []) [] [] toy_disk =
      (toy_disk_of empty_map_bytes, Ok (toy_hash empty_map_bytes))"
    by (simp add: GitStore_store_map_def empty_map_encodes put_sealed_def toy_disk_put)
  moreover have "wf_oid_map []" by (simp add: wf_oid_map_def)
  moreover have "io_read toy_io = None" by (simp add: toy_io_def)
  ultimately show ?thesis
    using stored_index_loads [OF toy_disk_ok(1) extends_refl toy_disk_of_separates toy_aead_sound] by blast
qed

end
