(* ===== verification/Wrap.thy ===== *)
theory Wrap
  imports Slot_Client Keys
begin

text \<open>
  \<open>nas-vault/src/argon.rs\<close>, \<open>derive.rs\<close> and \<open>wrap.rs\<close>: Argon2 parameters and the policy that bounds
  them, the secrets of a namespace, and the record that wraps a namespace's key under a passphrase
  together with the freshness floor. Argon2 itself is in an external crate: the parameter \<open>K\<close>, from
  passphrase, salt, memory and iterations to a key, \<open>None\<close> where the crate reports an error.
\<close>

type_synonym argon2 = "bytes \<Rightarrow> bytes \<Rightarrow> u32 \<Rightarrow> u32 \<Rightarrow> bytes option"

section \<open>Parameters\<close>

definition MIB :: u32 where "MIB = 1024"

datatype param_error =
    TooWeak string u32 u32
  | TooStrong string u32 u32
  | WrongParallelism u32
  | ParamDecode decode_error
  | ParamBadWidth usize

record argon2_params =
  ap_memory_kib :: u32
  ap_iterations :: u32
  ap_parallelism :: u32

record wrap_policy =
  wp_min_memory_kib :: u32
  wp_min_iterations :: u32
  wp_max_memory_kib :: u32
  wp_max_iterations :: u32

definition Argon2Params_SPEC :: argon2_params where
  "Argon2Params_SPEC = \<lparr>ap_memory_kib = 256 * MIB, ap_iterations = 3, ap_parallelism = 1\<rparr>"

definition WEAK_FOR_TESTS :: argon2_params where
  "WEAK_FOR_TESTS = \<lparr>ap_memory_kib = 8 * MIB, ap_iterations = 1, ap_parallelism = 1\<rparr>"

definition WrapPolicy_SPEC :: wrap_policy where
  "WrapPolicy_SPEC = \<lparr>wp_min_memory_kib = 256 * MIB, wp_min_iterations = 3,
     wp_max_memory_kib = 4096 * MIB, wp_max_iterations = 64\<rparr>"

definition WrapPolicy_FAST :: wrap_policy where
  "WrapPolicy_FAST = \<lparr>wp_min_memory_kib = 8 * MIB, wp_min_iterations = 1,
     wp_max_memory_kib = 4096 * MIB, wp_max_iterations = 64\<rparr>"

definition Argon2Params_check :: "argon2_params \<Rightarrow> wrap_policy \<Rightarrow> param_error + unit" where
  "Argon2Params_check p policy =
    (if ap_parallelism p \<noteq> 1 then Err (WrongParallelism (ap_parallelism p))
     else if ap_memory_kib p < wp_min_memory_kib policy
     then Err (TooWeak ''memory_kib'' (ap_memory_kib p) (wp_min_memory_kib policy))
     else if ap_iterations p < wp_min_iterations policy
     then Err (TooWeak ''iterations'' (ap_iterations p) (wp_min_iterations policy))
     else if wp_max_memory_kib policy < ap_memory_kib p
     then Err (TooStrong ''memory_kib'' (ap_memory_kib p) (wp_max_memory_kib policy))
     else if wp_max_iterations policy < ap_iterations p
     then Err (TooStrong ''iterations'' (ap_iterations p) (wp_max_iterations policy))
     else Ok ())"

definition param_fields :: "argon2_params \<Rightarrow> bytes list" where
  "param_fields p = [u32_le (ap_memory_kib p), u32_le (ap_iterations p), u32_le (ap_parallelism p)]"

definition Argon2Params_encode :: "argon2_params \<Rightarrow> bytes" where
  "Argon2Params_encode p = expect_ok (encode_fields (param_fields p))"

definition param_u32 :: "bytes \<Rightarrow> param_error + u32" where
  "param_u32 b = (if length b \<noteq> 4 then Err (ParamBadWidth (length b)) else Ok (u32_of_le b))"

definition params_of_fields :: "bytes list \<Rightarrow> param_error + argon2_params" where
  "params_of_fields f =
    (if length f \<noteq> 3 then Err (ParamBadWidth (length f))
     else rbind (param_u32 (f ! 0)) (\<lambda>m. rbind (param_u32 (f ! 1)) (\<lambda>t. rbind (param_u32 (f ! 2)) (\<lambda>p.
       Ok \<lparr>ap_memory_kib = m, ap_iterations = t, ap_parallelism = p\<rparr>))))"

definition Argon2Params_decode :: "bytes \<Rightarrow> param_error + argon2_params" where
  "Argon2Params_decode bs = rbind (map_err ParamDecode (decode_fields bs)) params_of_fields"

definition Argon2Params_derive :: "argon2 \<Rightarrow> argon2_params \<Rightarrow> bytes \<Rightarrow> bytes \<Rightarrow> param_error + bytes" where
  "Argon2Params_derive K p passphrase salt =
    (case K passphrase salt (ap_memory_kib p) (ap_iterations p) of
       None \<Rightarrow> Err (TooWeak ''memory_kib'' (ap_memory_kib p) 8)
     | Some k \<Rightarrow> Ok k)"

section \<open>The secrets of a namespace\<close>

definition NS_ROOT :: string where "NS_ROOT = ''nas-tools/ns/root/v1''"
definition NS_CONVERGENCE :: string where "NS_CONVERGENCE = ''nas-tools/ns/convergence/v1''"
definition NS_SLOT :: string where "NS_SLOT = ''nas-tools/ns/slot/v1''"

record namespace_secrets =
  ns_root_secret :: bytes
  ns_convergence :: bytes
  ns_slot_seed :: bytes

definition from_dek :: "backend \<Rightarrow> bytes \<Rightarrow> namespace_secrets" where
  "from_dek B dek =
    \<lparr>ns_root_secret = derive_key B NS_ROOT dek, ns_convergence = derive_key B NS_CONVERGENCE dek,
     ns_slot_seed = derive_key B NS_SLOT dek\<rparr>"

definition Namespace_dir_root :: "backend \<Rightarrow> namespace_secrets \<Rightarrow> bytes" where
  "Namespace_dir_root B s = DirSecret_root B (ns_root_secret s)"

definition Namespace_root_key :: "backend \<Rightarrow> namespace_secrets \<Rightarrow> u64 \<Rightarrow> bytes" where
  "Namespace_root_key B s seq = root_key B (ns_root_secret s) seq"

definition Namespace_convergence_secret :: "namespace_secrets \<Rightarrow> bytes" where
  "Namespace_convergence_secret s = ns_convergence s"

definition slot_identity :: "backend \<Rightarrow> namespace_secrets \<Rightarrow> sign_error + identity" where
  "slot_identity B s = Identity_derive B (ns_slot_seed s) RoleSlot"

definition lease_identity :: "backend \<Rightarrow> namespace_secrets \<Rightarrow> sign_error + identity" where
  "lease_identity B s = Identity_derive B (ns_slot_seed s) RoleLease"

definition witness_identity :: "backend \<Rightarrow> namespace_secrets \<Rightarrow> sign_error + identity" where
  "witness_identity B s = Identity_derive B (ns_slot_seed s) RoleWitness"

definition transport_identity :: "backend \<Rightarrow> namespace_secrets \<Rightarrow> sign_error + identity" where
  "transport_identity B s = Identity_derive B (ns_slot_seed s) RoleTransport"

section \<open>The wrap record\<close>

definition MIN_SALT :: usize where "MIN_SALT = 16"

definition WRAP_CHAIN_DOMAIN :: bytes where
  "WRAP_CHAIN_DOMAIN = byte_str ''nas-tools/wrap-chain/v1''"

datatype wrap_error =
    WrapDecode decode_error
  | WrapParam param_error
  | WrapSign sign_error
  | Unwrap
  | WrapBadWidth string usize usize
  | WrapFieldCount usize usize
  | SaltTooShort usize
  | WrapGenesisMismatch u64
  | WrapBadSignature
  | WrapIo

record wrap_record =
  wr_salt :: bytes
  wr_params :: argon2_params
  wr_wrapped_dek :: bytes
  wr_seq :: u64
  wr_anchor :: anchor
  wr_prev :: hash32
  wr_sig :: bytes

definition wrap_aad_fields :: "bytes \<Rightarrow> argon2_params \<Rightarrow> u64 \<Rightarrow> anchor \<Rightarrow> hash32 \<Rightarrow> bytes list" where
  "wrap_aad_fields salt params seq anchor prev =
    [salt, Argon2Params_encode params, u64_le seq, u64_le (an_seq anchor), an_sig_hash anchor, prev]"

definition wrap_aad :: "bytes \<Rightarrow> argon2_params \<Rightarrow> u64 \<Rightarrow> anchor \<Rightarrow> hash32 \<Rightarrow> bytes" where
  "wrap_aad salt params seq anchor prev = expect_ok (encode_fields (wrap_aad_fields salt params seq anchor prev))"

definition record_aad :: "wrap_record \<Rightarrow> bytes" where
  "record_aad r = wrap_aad (wr_salt r) (wr_params r) (wr_seq r) (wr_anchor r) (wr_prev r)"

definition wrap_check_genesis :: "u64 \<Rightarrow> hash32 \<Rightarrow> wrap_error + unit" where
  "wrap_check_genesis seq prev = (if (seq = 0) \<noteq> all_zero prev then Err (WrapGenesisMismatch seq) else Ok ())"

definition wrap_body :: "bytes \<Rightarrow> bytes \<Rightarrow> bytes" where
  "wrap_body a wrapped_dek = expect_ok (encode_fields [a, wrapped_dek])"

text \<open>\<open>urandom\<close> is what the salt is drawn from, \<open>drawn\<close> the nonce the cipher draws.\<close>

definition WrapRecord_create ::
  "argon2 \<Rightarrow> backend \<Rightarrow> aead \<Rightarrow> bytes option \<Rightarrow> bytes \<Rightarrow> bytes \<Rightarrow> bytes \<Rightarrow> argon2_params \<Rightarrow> wrap_policy \<Rightarrow> u64 \<Rightarrow> anchor \<Rightarrow>
    hash32 \<Rightarrow> wrap_error + wrap_record" where
  "WrapRecord_create K B A urandom drawn passphrase dek params policy seq anchor prev =
    rbind (map_err WrapParam (Argon2Params_check params policy)) (\<lambda>_.
    rbind (wrap_check_genesis seq prev) (\<lambda>_.
    rbind (map_err (\<lambda>_. WrapIo) (random_array urandom 32)) (\<lambda>salt.
    rbind (map_err WrapParam (Argon2Params_derive K params passphrase salt)) (\<lambda>kek.
    let a = wrap_aad salt params seq anchor prev in
    rbind (map_err (\<lambda>_. Unwrap) (seal A drawn (wrapping_key kek) dek a)) (\<lambda>wrapped_dek.
    rbind (map_err WrapSign (slot_identity B (from_dek B dek))) (\<lambda>identity.
    rbind (map_err WrapSign (Identity_sign identity CtxWrap (wrap_body a wrapped_dek))) (\<lambda>sig.
    Ok \<lparr>wr_salt = salt, wr_params = params, wr_wrapped_dek = wrapped_dek, wr_seq = seq, wr_anchor = anchor,
        wr_prev = prev, wr_sig = sig\<rparr>)))))))"

definition WrapRecord_verify_pk :: "backend \<Rightarrow> wrap_record \<Rightarrow> bytes \<Rightarrow> wrap_error + unit" where
  "WrapRecord_verify_pk B r vk =
    rbind (wrap_check_genesis (wr_seq r) (wr_prev r)) (\<lambda>_.
    map_err (\<lambda>_. WrapBadSignature) (sig_check B vk CtxWrap (wrap_body (record_aad r) (wr_wrapped_dek r)) (wr_sig r)))"

definition WrapRecord_verify_with :: "backend \<Rightarrow> wrap_record \<Rightarrow> namespace_secrets \<Rightarrow> wrap_error + unit" where
  "WrapRecord_verify_with B r secrets =
    rbind (map_err WrapSign (slot_identity B secrets)) (\<lambda>identity. WrapRecord_verify_pk B r (verifying_key identity))"

definition recover_dek :: "argon2 \<Rightarrow> backend \<Rightarrow> aead \<Rightarrow> wrap_record \<Rightarrow> bytes \<Rightarrow> wrap_policy \<Rightarrow> wrap_error + bytes" where
  "recover_dek K B A r passphrase policy =
    rbind (map_err WrapParam (Argon2Params_check (wr_params r) policy)) (\<lambda>_.
    rbind (wrap_check_genesis (wr_seq r) (wr_prev r)) (\<lambda>_.
    if length (wr_salt r) < MIN_SALT then Err (SaltTooShort (length (wr_salt r)))
    else
      rbind (map_err WrapParam (Argon2Params_derive K (wr_params r) passphrase (wr_salt r))) (\<lambda>kek.
      rbind (map_err (\<lambda>_. Unwrap) (key_open B A (wrapping_key kek) (wr_wrapped_dek r) (record_aad r))) (\<lambda>plain.
      if length plain \<noteq> 32 then Err Unwrap else Ok plain))))"

text \<open>\<open>unwrap\<close> repeats the body of \<open>recover_dek\<close> before it derives the secrets and checks the signature.\<close>

definition WrapRecord_unwrap ::
  "argon2 \<Rightarrow> backend \<Rightarrow> aead \<Rightarrow> wrap_record \<Rightarrow> bytes \<Rightarrow> wrap_policy \<Rightarrow> wrap_error + (namespace_secrets \<times> anchor)" where
  "WrapRecord_unwrap K B A r passphrase policy =
    rbind (recover_dek K B A r passphrase policy) (\<lambda>dek.
    let secrets = from_dek B dek in
    rbind (WrapRecord_verify_with B r secrets) (\<lambda>_. Ok (secrets, wr_anchor r)))"

definition wrap_chain_hash :: "backend \<Rightarrow> wrap_record \<Rightarrow> hash32" where
  "wrap_chain_hash B r =
    (let a = record_aad r in
     blake3 B (WRAP_CHAIN_DOMAIN @ u64_le (of_nat (length a)) @ a @ wr_wrapped_dek r @ wr_sig r))"

definition WrapRecord_rewrap ::
  "argon2 \<Rightarrow> backend \<Rightarrow> aead \<Rightarrow> bytes option \<Rightarrow> bytes \<Rightarrow> wrap_record \<Rightarrow> bytes \<Rightarrow> bytes \<Rightarrow> argon2_params \<Rightarrow> wrap_policy \<Rightarrow>
    u64 \<Rightarrow> anchor \<Rightarrow> wrap_error + wrap_record" where
  "WrapRecord_rewrap K B A urandom drawn r old_passphrase new_passphrase params policy seq anchor =
    rbind (recover_dek K B A r old_passphrase policy) (\<lambda>dek.
    WrapRecord_create K B A urandom drawn new_passphrase dek params policy seq anchor (wrap_chain_hash B r))"

definition WrapRecord_fields :: "wrap_record \<Rightarrow> bytes list" where
  "WrapRecord_fields r =
    [wr_salt r, Argon2Params_encode (wr_params r), wr_wrapped_dek r, u64_le (wr_seq r), u64_le (an_seq (wr_anchor r)),
     an_sig_hash (wr_anchor r), wr_prev r, wr_sig r]"

definition WrapRecord_encode :: "wrap_record \<Rightarrow> wrap_error + bytes" where
  "WrapRecord_encode r = map_err WrapDecode (encode_fields (WrapRecord_fields r))"

definition WrapRecord_of_fields :: "backend \<Rightarrow> bytes list \<Rightarrow> wrap_error + wrap_record" where
  "WrapRecord_of_fields B f =
    (if length f \<noteq> 8 then Err (WrapFieldCount 8 (length f))
     else if length (f ! 0) < MIN_SALT then Err (SaltTooShort (length (f ! 0)))
     else if length (f ! 7) \<noteq> SIG_SIZE B then Err (WrapBadWidth ''sig'' (SIG_SIZE B) (length (f ! 7)))
     else rbind (fixed_width WrapBadWidth 8 ''seq'' (f ! 3)) (\<lambda>sb.
     rbind (fixed_width WrapBadWidth 32 ''prev'' (f ! 6)) (\<lambda>prev.
     rbind (wrap_check_genesis (u64_of_le sb) prev) (\<lambda>_.
     rbind (map_err WrapParam (Argon2Params_decode (f ! 1))) (\<lambda>params.
     rbind (fixed_width WrapBadWidth 8 ''anchor_seq'' (f ! 4)) (\<lambda>asq.
     rbind (fixed_width WrapBadWidth 32 ''anchor_sig_hash'' (f ! 5)) (\<lambda>ash.
     Ok \<lparr>wr_salt = f ! 0, wr_params = params, wr_wrapped_dek = f ! 2, wr_seq = u64_of_le sb,
        wr_anchor = \<lparr>an_seq = u64_of_le asq, an_sig_hash = ash\<rparr>, wr_prev = prev, wr_sig = f ! 7\<rparr>)))))))"

definition WrapRecord_decode :: "backend \<Rightarrow> bytes \<Rightarrow> wrap_error + wrap_record" where
  "WrapRecord_decode B bs = rbind (map_err WrapDecode (decode_fields bs)) (WrapRecord_of_fields B)"

section \<open>Encodings\<close>

lemma param_fields_encode: "encode_fields (param_fields p) = Ok (Argon2Params_encode p)"
proof -
  have "list_all field_ok (param_fields p)" by (simp add: param_fields_def MAX_FIELD_def)
  then have "encode_fields (param_fields p) = Ok (concat (map frame (param_fields p)))" by (simp add: encode_fields_Inr_iff)
  then show ?thesis by (simp add: Argon2Params_encode_def expect_ok_def)
qed

lemma params_of_fields_iff: "params_of_fields f = Inr p \<longleftrightarrow> param_fields p = f"
proof (cases "length f = 3")
  case True
  then obtain a b c where "f = [a, b, c]" by (auto simp: length_Suc_conv numeral_eq_Suc)
  then show ?thesis
    by (cases p) (auto simp: params_of_fields_def param_fields_def param_u32_def result_elims split: if_splits)
qed (auto simp: params_of_fields_def param_fields_def)

lemma Argon2Params_decode_iff: "Argon2Params_decode bs = Inr p \<longleftrightarrow> Argon2Params_encode p = bs"
  using param_fields_encode [of p]
  by (auto simp: Argon2Params_decode_def result_elims params_of_fields_iff fields.dec_iff)

lemma Argon2Params_encode_inj [simp]: "Argon2Params_encode p = Argon2Params_encode q \<longleftrightarrow> p = q"
  using Argon2Params_decode_iff by (metis sum.inject(2))

lemma length_params: "length (Argon2Params_encode p) = 24"
proof -
  have "Argon2Params_encode p = concat (map frame (param_fields p))"
    using param_fields_encode [of p] by (simp add: encode_fields_Inr_iff)
  then show ?thesis by (simp add: param_fields_def frame_def)
qed

definition wf_WrapRecord :: "backend \<Rightarrow> wrap_record \<Rightarrow> bool" where
  "wf_WrapRecord B r \<longleftrightarrow> MIN_SALT \<le> length (wr_salt r) \<and> arr (SIG_SIZE B) (wr_sig r) \<and> arr 32 (wr_prev r) \<and>
    arr 32 (an_sig_hash (wr_anchor r)) \<and> ((wr_seq r = 0) = all_zero (wr_prev r))"

interpretation wrap_record: field_codec WrapRecord_fields "WrapRecord_of_fields B" "wf_WrapRecord B" WrapDecode
  for B
proof unfold_locales
  fix fs and r :: wrap_record
  show "WrapRecord_of_fields B fs = Inr r \<longleftrightarrow> wf_WrapRecord B r \<and> WrapRecord_fields r = fs"
  proof (cases "length fs = 8")
    case True
    then obtain a b c d e f g h where fs: "fs = [a, b, c, d, e, f, g, h]"
      by (auto simp: length_Suc_conv numeral_eq_Suc)
    obtain an ash where anc: "wr_anchor r = \<lparr>an_seq = an, an_sig_hash = ash\<rparr>" by (cases "wr_anchor r") auto
    show ?thesis
      unfolding fs WrapRecord_of_fields_def WrapRecord_fields_def wf_WrapRecord_def wrap_check_genesis_def
      by (cases r) (auto simp: result_elims Argon2Params_decode_iff split: if_splits, metis u64_le_u64_of_le)
  qed (auto simp: WrapRecord_of_fields_def WrapRecord_fields_def)
qed

lemma wrap_record_decode_iff: "WrapRecord_decode B bs = Inr r \<longleftrightarrow> wf_WrapRecord B r \<and> WrapRecord_encode r = Inr bs"
  unfolding WrapRecord_decode_def WrapRecord_encode_def by (rule wrap_record.dec_iff)

section \<open>Wrapping and unwrapping\<close>

lemma check_Inr_iff [result_elims]:
  "Argon2Params_check p policy = Inr u \<longleftrightarrow> ap_parallelism p = 1 \<and>
    wp_min_memory_kib policy \<le> ap_memory_kib p \<and> ap_memory_kib p \<le> wp_max_memory_kib policy \<and>
    wp_min_iterations policy \<le> ap_iterations p \<and> ap_iterations p \<le> wp_max_iterations policy"
  by (auto simp: Argon2Params_check_def not_less split: if_splits)

lemma wrap_genesis_Inr_iff [result_elims]: "wrap_check_genesis seq prev = Inr u \<longleftrightarrow> (seq = 0) = all_zero prev"
  by (simp add: wrap_check_genesis_def)

lemma derive_Inr_iff [result_elims]:
  "Argon2Params_derive K p pw salt = Inr k \<longleftrightarrow> K pw salt (ap_memory_kib p) (ap_iterations p) = Some k"
  by (auto simp: Argon2Params_derive_def split: option.splits)

lemma recover_dek_Inr_iff:
  "recover_dek K B A r pw policy = Inr dek \<longleftrightarrow>
    (\<exists>u. Argon2Params_check (wr_params r) policy = Inr u) \<and> ((wr_seq r = 0) = all_zero (wr_prev r)) \<and>
    MIN_SALT \<le> length (wr_salt r) \<and> length dek = 32 \<and>
    (\<exists>kek. K pw (wr_salt r) (ap_memory_kib (wr_params r)) (ap_iterations (wr_params r)) = Some kek \<and>
      key_open B A (wrapping_key kek) (wr_wrapped_dek r) (record_aad r) = Inr dek)"
  by (auto simp: recover_dek_def rbind_Inr_iff map_err_Inr_iff wrap_genesis_Inr_iff derive_Inr_iff not_less)

lemma created_record:
  assumes "WrapRecord_create K B A urandom drawn pw dek params policy seq anchor prev = Ok r"
  obtains kek i where "wr_params r = params" "wr_seq r = seq" "wr_anchor r = anchor" "wr_prev r = prev" "length (wr_salt r) = 32"
    "\<exists>u. Argon2Params_check params policy = Inr u" "(seq = 0) = all_zero prev"
    "K pw (wr_salt r) (ap_memory_kib params) (ap_iterations params) = Some kek"
    "seal A drawn (wrapping_key kek) dek (record_aad r) = Ok (wr_wrapped_dek r)"
    "slot_identity B (from_dek B dek) = Ok i" "Identity_sign i CtxWrap (wrap_body (record_aad r) (wr_wrapped_dek r)) = Ok (wr_sig r)"
proof -
  obtain u salt kek wrapped i s where c: "Argon2Params_check params policy = Inr u" "(seq = 0) = all_zero prev"
    "random_array urandom 32 = Inr salt" "K pw salt (ap_memory_kib params) (ap_iterations params) = Some kek"
    "seal A drawn (wrapping_key kek) dek (wrap_aad salt params seq anchor prev) = Inr wrapped"
    "slot_identity B (from_dek B dek) = Inr i"
    "Identity_sign i CtxWrap (wrap_body (wrap_aad salt params seq anchor prev) wrapped) = Inr s"
    "r = \<lparr>wr_salt = salt, wr_params = params, wr_wrapped_dek = wrapped, wr_seq = seq, wr_anchor = anchor, wr_prev = prev, wr_sig = s\<rparr>"
    using assms
    by (auto simp: WrapRecord_create_def rbind_Inr_iff map_err_Inr_iff wrap_genesis_Inr_iff derive_Inr_iff Let_def)
  have "length salt = 32" using c(3) by (auto simp: random_array_def random_fill_def split: option.splits if_splits)
  with c show thesis by (intro that) (auto simp: record_aad_def)
qed

lemma created_record_recovers:
  assumes "WrapRecord_create K B A urandom drawn pw dek params policy seq anchor prev = Ok r" "sound_aead A" "length dek = 32"
    "\<And>i. slot_identity B (from_dek B dek) = Ok i \<Longrightarrow> sound_keypair B (id_kp i)"
  shows "recover_dek K B A r pw policy = Ok dek" "WrapRecord_verify_with B r (from_dek B dek) = Ok ()" "wr_anchor r = anchor"
proof -
  obtain kek i where r: "wr_params r = params" "wr_seq r = seq" "wr_anchor r = anchor" "wr_prev r = prev" "length (wr_salt r) = 32"
    "\<exists>u. Argon2Params_check params policy = Inr u" "(seq = 0) = all_zero prev"
    "K pw (wr_salt r) (ap_memory_kib params) (ap_iterations params) = Some kek"
    "seal A drawn (wrapping_key kek) dek (record_aad r) = Ok (wr_wrapped_dek r)"
    "slot_identity B (from_dek B dek) = Ok i" "Identity_sign i CtxWrap (wrap_body (record_aad r) (wr_wrapped_dek r)) = Ok (wr_sig r)"
    using created_record [OF assms(1)] .
  show "recover_dek K B A r pw policy = Ok dek"
    using r seal_opens [OF assms(2) r(9)] assms(3) by (simp add: recover_dek_Inr_iff MIN_SALT_def)
  show "WrapRecord_verify_with B r (from_dek B dek) = Ok ()"
    using r sign_then_check [OF assms(4) [OF r(10)] r(11)]
    by (simp add: WrapRecord_verify_with_def WrapRecord_verify_pk_def wrap_check_genesis_def)
  show "wr_anchor r = anchor" by (rule r)
qed

text \<open>
  C22. A passphrase recovers its namespace: what \<open>create\<close> wrapped, \<open>unwrap\<close> opens with the same
  passphrase and policy to the same secrets and the same freshness anchor, and after \<open>rewrap\<close> the new
  passphrase recovers the same secrets with the new anchor, the new record naming the hash of the old
  one as its predecessor.
\<close>

theorem passphrase_recovers_the_namespace:
  assumes "WrapRecord_create K B A urandom drawn pw dek params policy seq anchor prev = Ok r"
    and "sound_aead A" "length dek = 32" "\<forall>i. slot_identity B (from_dek B dek) = Ok i \<longrightarrow> sound_keypair B (id_kp i)"
  shows "WrapRecord_unwrap K B A r pw policy = Ok (from_dek B dek, anchor) \<and>
    (\<forall>urandom' drawn' pw' params' seq' anchor' r'.
      WrapRecord_rewrap K B A urandom' drawn' r pw pw' params' policy seq' anchor' = Ok r' \<longrightarrow>
      WrapRecord_unwrap K B A r' pw' policy = Ok (from_dek B dek, anchor') \<and> wr_prev r' = wrap_chain_hash B r)"
proof -
  have keys: "\<And>i. slot_identity B (from_dek B dek) = Ok i \<Longrightarrow> sound_keypair B (id_kp i)" using assms(4) by blast
  have unwrap: "WrapRecord_unwrap K B A q p policy = Ok (from_dek B dek, an)"
    if "WrapRecord_create K B A u n p dek ps policy sq an pv = Ok q" for u n p ps sq an pv q
    using created_record_recovers [OF that assms(2,3) keys] by (simp add: WrapRecord_unwrap_def)
  have "recover_dek K B A r pw policy = Ok dek" using created_record_recovers(1) [OF assms(1-3) keys] .
  then have "WrapRecord_create K B A urandom' drawn' pw' dek params' policy seq' anchor' (wrap_chain_hash B r) = Ok r'"
    if "WrapRecord_rewrap K B A urandom' drawn' r pw pw' params' policy seq' anchor' = Ok r'"
    for urandom' drawn' pw' params' seq' anchor' r'
    using that by (simp add: WrapRecord_rewrap_def)
  then show ?thesis using unwrap assms(1) created_record by metis
qed

text \<open>
  What an authenticated cipher documents of a key: nothing opens but what its holders sealed, here
  the finite list \<open>made\<close> of ciphertext, associated data and plaintext.
\<close>

definition only_sealed :: "aead \<Rightarrow> bytes \<Rightarrow> (bytes \<times> bytes \<times> bytes) list \<Rightarrow> bool" where
  "only_sealed A k made \<longleftrightarrow> (\<forall>c aad m. decrypt_aad A k c aad = Some m \<longrightarrow> (c, aad, m) \<in> set made)"

lemma aad_fields_ok:
  "length salt \<le> MAX_FIELD \<Longrightarrow> arr 32 (an_sig_hash an) \<Longrightarrow> arr 32 prev \<Longrightarrow>
    encode_fields (wrap_aad_fields salt params seq an prev) = Ok (wrap_aad salt params seq an prev)"
proof -
  assume "length salt \<le> MAX_FIELD" "arr 32 (an_sig_hash an)" "arr 32 prev"
  then have "list_all field_ok (wrap_aad_fields salt params seq an prev)"
    by (simp add: wrap_aad_fields_def length_params MAX_FIELD_def)
  then have "encode_fields (wrap_aad_fields salt params seq an prev) = Ok (concat (map frame (wrap_aad_fields salt params seq an prev)))"
    by (simp add: encode_fields_Inr_iff)
  then show ?thesis by (simp add: wrap_aad_def expect_ok_def)
qed

definition wrap_sizes :: "wrap_record \<Rightarrow> bool" where
  "wrap_sizes r \<longleftrightarrow> length (wr_salt r) \<le> MAX_FIELD \<and> arr 32 (an_sig_hash (wr_anchor r)) \<and> arr 32 (wr_prev r)"

lemma record_aad_inj:
  assumes "wrap_sizes r" "wrap_sizes q" "record_aad r = record_aad q"
  shows "wr_salt r = wr_salt q \<and> wr_params r = wr_params q \<and> wr_seq r = wr_seq q \<and> wr_anchor r = wr_anchor q \<and> wr_prev r = wr_prev q"
proof -
  have "encode_fields (wrap_aad_fields (wr_salt x) (wr_params x) (wr_seq x) (wr_anchor x) (wr_prev x)) = Ok (record_aad x)"
    if "wrap_sizes x" for x using that by (simp add: aad_fields_ok wrap_sizes_def record_aad_def)
  then have "wrap_aad_fields (wr_salt r) (wr_params r) (wr_seq r) (wr_anchor r) (wr_prev r) =
      wrap_aad_fields (wr_salt q) (wr_params q) (wr_seq q) (wr_anchor q) (wr_prev q)"
    using assms fields.enc_inj by metis
  then show ?thesis by (cases "wr_anchor r"; cases "wr_anchor q") (auto simp: wrap_aad_fields_def)
qed

text \<open>
  C23. The peer that stores a wrap record cannot lower its floor: a record that unwraps, whoever
  supplied it, carries exactly the salt, parameters, sequence number, anchor, predecessor and
  wrapped key of a record that was wrapped under this passphrase-derived key, as far as the cipher
  opens only what was sealed under that key; and the key derivation it cost stays within the policy.
\<close>

theorem unwrapped_record_is_genuine:
  assumes "WrapRecord_unwrap K B A r pw policy = Ok (secrets, an)" "wrap_sizes r"
    and "K pw (wr_salt r) (ap_memory_kib (wr_params r)) (ap_iterations (wr_params r)) = Some kek"
    and "only_sealed A kek (map (\<lambda>(q, dek). (wr_wrapped_dek q, record_aad q, dek)) made)" "\<forall>(q, dek) \<in> set made. wrap_sizes q"
  shows "\<exists>(q, dek) \<in> set made. an = wr_anchor q \<and> secrets = from_dek B dek \<and> wr_salt r = wr_salt q \<and> wr_params r = wr_params q \<and>
      wr_seq r = wr_seq q \<and> wr_prev r = wr_prev q \<and> wr_wrapped_dek r = wr_wrapped_dek q \<and>
      ap_memory_kib (wr_params r) \<le> wp_max_memory_kib policy \<and> ap_iterations (wr_params r) \<le> wp_max_iterations policy"
proof -
  obtain dek where dek: "recover_dek K B A r pw policy = Inr dek" "secrets = from_dek B dek" "an = wr_anchor r"
    using assms(1) by (auto simp: WrapRecord_unwrap_def result_elims Let_def)
  then have "key_open B A (wrapping_key kek) (wr_wrapped_dek r) (record_aad r) = Inr dek"
    and bounds: "ap_memory_kib (wr_params r) \<le> wp_max_memory_kib policy" "ap_iterations (wr_params r) \<le> wp_max_iterations policy"
    using assms(3) by (auto simp: recover_dek_Inr_iff check_Inr_iff)
  then have "decrypt_aad A kek (wr_wrapped_dek r) (record_aad r) = Some dek"
    by (auto simp: key_open_def wrapping_key_def split: if_splits option.splits)
  then obtain q where q: "(q, dek) \<in> set made" "wr_wrapped_dek r = wr_wrapped_dek q" "record_aad r = record_aad q"
    using assms(4) by (fastforce simp: only_sealed_def)
  then have "wrap_sizes q" using assms(5) by auto
  then show ?thesis using record_aad_inj [OF assms(2) _ q(3)] q dek bounds by (intro bexI [of _ "(q, dek)"]) auto
qed

text \<open>
  A record never makes the device derive a key outside the policy: two key derivations that agree on
  the parameters the policy allows give the same answer for every record.
\<close>

lemma unwrap_cost_is_bounded:
  assumes "\<And>pw salt m t. wp_min_memory_kib policy \<le> m \<Longrightarrow> m \<le> wp_max_memory_kib policy \<Longrightarrow>
      wp_min_iterations policy \<le> t \<Longrightarrow> t \<le> wp_max_iterations policy \<Longrightarrow> K pw salt m t = K' pw salt m t"
  shows "WrapRecord_unwrap K B A r pw policy = WrapRecord_unwrap K' B A r pw policy"
proof (cases "Argon2Params_check (wr_params r) policy")
  case (Inl e)
  then show ?thesis by (simp add: WrapRecord_unwrap_def recover_dek_def)
next
  case (Inr u)
  then have "Argon2Params_derive K (wr_params r) pw salt = Argon2Params_derive K' (wr_params r) pw salt" for salt
    using assms by (simp add: Argon2Params_derive_def check_Inr_iff)
  then show ?thesis by (simp add: WrapRecord_unwrap_def recover_dek_def)
qed

section \<open>Instances\<close>

definition toy_argon2 :: argon2 where
  "toy_argon2 pw salt m t = Some (toy_hash pw)"

definition toy_anchor :: anchor where
  "toy_anchor = \<lparr>an_seq = 4, an_sig_hash = replicate 32 2\<rparr>"

definition toy_dek :: bytes where
  "toy_dek = replicate 32 5"

definition toy_wrap_aad :: bytes where
  "toy_wrap_aad = wrap_aad (replicate 32 1) WEAK_FOR_TESTS 0 toy_anchor (replicate 32 0)"

text \<open>A cipher whose only sealed message is the sample key under the sample associated data.\<close>

definition single_aead :: aead where
  "single_aead = \<lparr>seal_with_nonce = (\<lambda>k n m aad. None), open_with_nonce = (\<lambda>k n c aad. None),
     encrypt_aad = (\<lambda>n k m aad. if m = toy_dek \<and> aad = toy_wrap_aad then Some (replicate 24 0 @ toy_dek) else None),
     decrypt_aad = (\<lambda>k c aad. if c = replicate 24 0 @ toy_dek \<and> aad = toy_wrap_aad then Some toy_dek else None)\<rparr>"

lemma single_aead_sound: "sound_aead single_aead"
  by (simp add: sound_aead_def single_aead_def)

definition toy_wrap :: wrap_record where
  "toy_wrap = \<lparr>wr_salt = replicate 32 1, wr_params = WEAK_FOR_TESTS, wr_wrapped_dek = replicate 24 0 @ toy_dek, wr_seq = 0,
     wr_anchor = toy_anchor, wr_prev = replicate 32 0, wr_sig = [5]\<rparr>"

lemma toy_slot_identity: "slot_identity toy_backend (from_dek toy_backend toy_dek) = Ok \<lparr>id_role = RoleSlot, id_kp = toy_kp 5\<rparr>"
  by (simp add: slot_identity_def from_dek_def Identity_derive_def toy_backend_def toy_hash_def toy_dek_def numeral_eq_Suc)

lemma toy_kp_sound: "sound_keypair toy_backend (toy_kp k)"
  by (simp add: sound_keypair_def toy_kp_def)

lemma toy_create:
  "WrapRecord_create toy_argon2 toy_backend single_aead (Some (replicate 32 1)) [] [7] toy_dek WEAK_FOR_TESTS WrapPolicy_FAST 0
    toy_anchor (replicate 32 0) = Ok toy_wrap"
proof -
  have chk: "Argon2Params_check WEAK_FOR_TESTS WrapPolicy_FAST = Ok ()"
    by (simp add: Argon2Params_check_def WEAK_FOR_TESTS_def WrapPolicy_FAST_def MIB_def)
  have rnd: "random_array (Some (replicate 32 1)) 32 = Ok (replicate 32 1)"
    by (simp add: random_array_def random_fill_def all_zero_def list_all_iff)
  have gen: "wrap_check_genesis 0 (replicate 32 0) = Ok ()"
    by (simp add: wrap_check_genesis_def all_zero_def list_all_iff)
  have sl: "seal single_aead [] (wrapping_key k) toy_dek toy_wrap_aad = Ok (replicate 24 0 @ toy_dek)" for k
    by (simp add: seal_def wrapping_key_def single_aead_def)
  show ?thesis
    unfolding WrapRecord_create_def chk rnd gen
    by (simp add: Argon2Params_derive_def toy_argon2_def Let_def sl [unfolded toy_wrap_aad_def] toy_slot_identity
        Identity_sign_def toy_kp_def toy_wrap_def)
qed

theorem passphrase_recovers_the_namespace_witness:
  "WrapRecord_unwrap toy_argon2 toy_backend single_aead toy_wrap [7] WrapPolicy_FAST = Ok (from_dek toy_backend toy_dek, toy_anchor)"
  using passphrase_recovers_the_namespace [OF toy_create single_aead_sound] toy_slot_identity toy_kp_sound
  by (simp add: toy_dek_def)

lemma toy_unwrap:
  "WrapRecord_unwrap toy_argon2 toy_backend single_aead toy_wrap [7] WrapPolicy_FAST = Ok (from_dek toy_backend toy_dek, toy_anchor)"
  using created_record_recovers [OF toy_create single_aead_sound] toy_slot_identity toy_kp_sound
  by (simp add: WrapRecord_unwrap_def toy_dek_def)

theorem unwrapped_record_is_genuine_witness:
  "\<exists>(q, dek) \<in> set [(toy_wrap, toy_dek)]. toy_anchor = wr_anchor q \<and> wr_salt toy_wrap = wr_salt q"
proof -
  have aad: "record_aad toy_wrap = toy_wrap_aad" by (simp add: record_aad_def toy_wrap_def toy_wrap_aad_def)
  have only: "only_sealed single_aead (toy_hash [7]) (map (\<lambda>(q, dek). (wr_wrapped_dek q, record_aad q, dek)) [(toy_wrap, toy_dek)])"
    by (simp add: only_sealed_def single_aead_def aad) (simp add: toy_wrap_def)
  have sizes: "wrap_sizes toy_wrap" by (simp add: wrap_sizes_def toy_wrap_def toy_anchor_def MAX_FIELD_def)
  have kek: "toy_argon2 [7] (wr_salt toy_wrap) (ap_memory_kib (wr_params toy_wrap)) (ap_iterations (wr_params toy_wrap)) = Some (toy_hash [7])"
    by (simp add: toy_argon2_def)
  from unwrapped_record_is_genuine [OF toy_unwrap sizes kek only] sizes show ?thesis by auto
qed

end
