(* ===== verification/Vault.thy ===== *)
theory Vault
  imports Wrap BTree Text
begin

text \<open>
  \<open>nas-vault/src/vault.rs\<close>: the client's long-term secrets. The vault keeps one seed, every
  generation of the convergence secret and the pinned peers, and is stored as one sealed blob.
\<close>

definition VAULT_AAD :: bytes where "VAULT_AAD = byte_str ''nas-tools/aad/vault/v1''"
definition VAULT_MAGIC :: bytes where "VAULT_MAGIC = byte_str ''NASV''"
definition DIR_ROOT_CONTEXT :: string where "DIR_ROOT_CONTEXT = ''nas-tools/vault/dir-root/v1''"
definition VAULT_VERSION :: u16 where "VAULT_VERSION = 1"

datatype vault_error =
    VaultDecode decode_error
  | VaultCrypto crypto_error
  | VaultSign sign_error
  | VaultBadMagic
  | VaultUnknownVersion u16
  | VaultBadWidth string usize usize
  | VaultFieldCount usize usize
  | NoSuchGeneration u32
  | VaultNonCanonical string
  | VaultIo

record generation =
  ge_number :: u32
  ge_secret :: bytes

record pinned_peer =
  pp_peer_pk :: bytes
  pp_label :: bytes
  pp_blocked :: bool
  pp_quota_bytes :: u64

record vault =
  va_seed :: bytes
  va_generations :: "generation list"
  va_peers :: "(bytes, pinned_peer) btreemap"

section \<open>Operations\<close>

definition Generation_convergence_secret :: "generation \<Rightarrow> bytes" where
  "Generation_convergence_secret g = ge_secret g"

text \<open>The two draws of \<open>create\<close> come one after the other from the same source.\<close>

definition Vault_create :: "bytes option \<Rightarrow> bytes option \<Rightarrow> vault_error + vault" where
  "Vault_create urandom urandom' =
    rbind (map_err (\<lambda>_. VaultIo) (random_array urandom KEY_LEN)) (\<lambda>seed.
    rbind (map_err (\<lambda>_. VaultIo) (random_array urandom' KEY_LEN)) (\<lambda>secret.
    Ok \<lparr>va_seed = seed, va_generations = [\<lparr>ge_number = 0, ge_secret = secret\<rparr>], va_peers = []\<rparr>))"

definition Vault_identity :: "backend \<Rightarrow> vault \<Rightarrow> role \<Rightarrow> vault_error + identity" where
  "Vault_identity B v r = map_err VaultSign (Identity_derive B (va_seed v) r)"

definition Vault_dir_root :: "backend \<Rightarrow> vault \<Rightarrow> bytes" where
  "Vault_dir_root B v = DirSecret_root B (derive_key B DIR_ROOT_CONTEXT (va_seed v))"

definition Vault_root_key :: "backend \<Rightarrow> vault \<Rightarrow> u64 \<Rightarrow> bytes" where
  "Vault_root_key B v seq = root_key B (derive_key B DIR_ROOT_CONTEXT (va_seed v)) seq"

text \<open>\<open>last().expect\<close>: a vault without a generation panics, here \<open>None\<close>.\<close>

definition current_generation :: "vault \<Rightarrow> generation option" where
  "current_generation v = (if va_generations v = [] then None else Some (last (va_generations v)))"

definition Vault_generation :: "vault \<Rightarrow> u32 \<Rightarrow> vault_error + generation" where
  "Vault_generation v number =
    ok_or (find (\<lambda>g. ge_number g = number) (va_generations v)) (NoSuchGeneration number)"

definition rotate_convergence :: "bytes option \<Rightarrow> vault \<Rightarrow> (vault \<times> (vault_error + u32)) option" where
  "rotate_convergence urandom v =
    (case random_array urandom KEY_LEN of
       Inl _ \<Rightarrow> Some (v, Err VaultIo)
     | Inr secret \<Rightarrow>
         Option.bind (current_generation v) (\<lambda>g.
         let number = ge_number g + 1 in
         Some (v\<lparr>va_generations := va_generations v @ [\<lparr>ge_number = number, ge_secret = secret\<rparr>]\<rparr>, Ok number)))"

definition pin_peer :: "pinned_peer \<Rightarrow> vault \<Rightarrow> vault" where
  "pin_peer p v = v\<lparr>va_peers := btm_insert (pp_peer_pk p) p (va_peers v)\<rparr>"

definition Vault_peer :: "vault \<Rightarrow> bytes \<Rightarrow> pinned_peer option" where
  "Vault_peer v pk = btm_get (va_peers v) pk"

definition Vault_peers :: "vault \<Rightarrow> pinned_peer list" where
  "Vault_peers v = map snd (va_peers v)"

definition block_peer :: "bytes \<Rightarrow> vault \<Rightarrow> vault \<times> bool" where
  "block_peer pk v =
    (case btm_get (va_peers v) pk of
       Some p \<Rightarrow> (v\<lparr>va_peers := btm_insert pk (p\<lparr>pp_blocked := True\<rparr>) (va_peers v)\<rparr>, True)
     | None \<Rightarrow> (v, False))"

section \<open>The stored form\<close>

definition generation_bytes :: "generation \<Rightarrow> bytes" where
  "generation_bytes g = u32_le (ge_number g) @ ge_secret g"

definition peer_entry :: "pinned_peer \<Rightarrow> bytes" where
  "peer_entry p =
    expect_ok (encode_fields [pp_peer_pk p, pp_label p, [if pp_blocked p then 1 else 0], u64_le (pp_quota_bytes p)])"

definition Vault_plain :: "vault \<Rightarrow> vault_error + bytes" where
  "Vault_plain v =
    rbind (map_err VaultDecode (encode_fields (map (\<lambda>kv. peer_entry (snd kv)) (va_peers v)))) (\<lambda>peer_blob.
    map_err VaultDecode (encode_fields [VAULT_MAGIC, u16_le VAULT_VERSION, va_seed v,
      concat (map generation_bytes (va_generations v)), peer_blob]))"

definition seal_with :: "aead \<Rightarrow> bytes \<Rightarrow> vault \<Rightarrow> bytes \<Rightarrow> vault_error + bytes" where
  "seal_with A drawn v vault_key =
    rbind (Vault_plain v) (\<lambda>p. map_err VaultCrypto (seal A drawn (wrapping_key vault_key) p VAULT_AAD))"

definition GEN_LEN :: usize where "GEN_LEN = 4 + KEY_LEN"

fun decode_generations :: "nat \<Rightarrow> bytes list \<Rightarrow> vault_error + generation list" where
  "decode_generations i [] = Ok []"
| "decode_generations i (c # cs) =
    (let number = u32_of_le (take 4 c) in
     if number \<noteq> of_nat i then Err (VaultNonCanonical ''generations must be contiguous and ascending from 0'')
     else rbind (decode_generations (Suc i) cs) (\<lambda>gs. Ok (\<lparr>ge_number = number, ge_secret = drop 4 c\<rparr> # gs)))"

definition decode_peer :: "bytes \<Rightarrow> vault_error + pinned_peer" where
  "decode_peer entry =
    rbind (map_err VaultDecode (decode_fields entry)) (\<lambda>e.
    if length e \<noteq> 4 then Err (VaultFieldCount 4 (length e))
    else rbind (fixed_width VaultBadWidth 8 ''quota_bytes'' (e ! 3)) (\<lambda>quota.
    if length (e ! 2) \<noteq> 1 then Err (VaultBadWidth ''blocked'' 1 (length (e ! 2)))
    else Ok \<lparr>pp_peer_pk = e ! 0, pp_label = from_utf8_lossy (e ! 1), pp_blocked = (hd (e ! 2) \<noteq> 0),
             pp_quota_bytes = u64_of_le quota\<rparr>))"

fun decode_peers :: "bytes list \<Rightarrow> (bytes, pinned_peer) btreemap \<Rightarrow> vault_error + (bytes, pinned_peer) btreemap" where
  "decode_peers [] peers = Ok peers"
| "decode_peers (entry # es) peers =
    rbind (decode_peer entry) (\<lambda>p. decode_peers es (btm_insert (pp_peer_pk p) p peers))"

definition Vault_from_plain :: "bytes \<Rightarrow> vault_error + vault" where
  "Vault_from_plain bs =
    rbind (map_err VaultDecode (decode_fields bs)) (\<lambda>f.
    if length f \<noteq> 5 then Err (VaultFieldCount 5 (length f))
    else if f ! 0 \<noteq> VAULT_MAGIC then Err VaultBadMagic
    else rbind (fixed_width VaultBadWidth 2 ''version'' (f ! 1)) (\<lambda>vb.
    if u16_of_le vb \<noteq> VAULT_VERSION then Err (VaultUnknownVersion (u16_of_le vb))
    else rbind (fixed_width VaultBadWidth KEY_LEN ''seed'' (f ! 2)) (\<lambda>seed.
    if \<not> GEN_LEN dvd length (f ! 3) \<or> f ! 3 = [] then Err (VaultNonCanonical ''generation table is ragged or empty'')
    else rbind (decode_generations 0 (chunks_exact GEN_LEN (f ! 3))) (\<lambda>generations.
    rbind (map_err VaultDecode (decode_fields (f ! 4))) (\<lambda>entries.
    rbind (decode_peers entries []) (\<lambda>peers.
    Ok \<lparr>va_seed = seed, va_generations = generations, va_peers = peers\<rparr>))))))"

definition open_with :: "backend \<Rightarrow> aead \<Rightarrow> bytes \<Rightarrow> bytes \<Rightarrow> vault_error + vault" where
  "open_with B A sealed vault_key =
    rbind (map_err VaultCrypto (key_open B A (wrapping_key vault_key) sealed VAULT_AAD)) Vault_from_plain"

section \<open>The invariant\<close>

definition wf_peer :: "pinned_peer \<Rightarrow> bool" where
  "wf_peer p \<longleftrightarrow> from_utf8_ok (pp_label p) \<and> length (pp_peer_pk p) \<le> MAX_FIELD \<and> length (pp_label p) \<le> MAX_FIELD"

definition vault_inv :: "vault \<Rightarrow> bool" where
  "vault_inv v \<longleftrightarrow> arr KEY_LEN (va_seed v) \<and> va_generations v \<noteq> [] \<and> length (va_generations v) \<le> 2 ^ 32 \<and>
    map ge_number (va_generations v) = map of_nat [0..<length (va_generations v)] \<and>
    list_all (\<lambda>g. arr KEY_LEN (ge_secret g)) (va_generations v) \<and>
    btm_inv (va_peers v) \<and> list_all (\<lambda>(k, p). k = pp_peer_pk p \<and> wf_peer p) (va_peers v)"

lemma random_array_length: "random_array u n = Inr bs \<Longrightarrow> length bs = n"
  by (auto simp: random_array_def random_fill_def split: option.splits if_splits)

lemma Vault_create_inv: "Vault_create u u' = Ok v \<Longrightarrow> vault_inv v"
  by (auto simp: Vault_create_def vault_inv_def result_elims dest: random_array_length)

lemma current_generation_number:
  "vault_inv v \<Longrightarrow> \<exists>g. current_generation v = Some g \<and> ge_number g = of_nat (length (va_generations v) - 1)"
proof -
  assume v: "vault_inv v"
  then have ne: "va_generations v \<noteq> []" by (simp add: vault_inv_def)
  then have "ge_number (last (va_generations v)) = map ge_number (va_generations v) ! (length (va_generations v) - 1)"
    by (simp add: last_conv_nth)
  also have "\<dots> = of_nat (length (va_generations v) - 1)" using v ne unfolding vault_inv_def by simp
  finally show ?thesis using ne by (simp add: current_generation_def)
qed

lemma rotate_inv:
  assumes "vault_inv v" "length (va_generations v) < 2 ^ 32" "rotate_convergence u v = Some (v', r)"
  shows "vault_inv v'"
proof -
  obtain g where g: "current_generation v = Some g" "ge_number g = of_nat (length (va_generations v) - 1)"
    using current_generation_number [OF assms(1)] by blast
  have "0 < length (va_generations v)" using assms(1) by (auto simp: vault_inv_def)
  then have "(of_nat (length (va_generations v) - 1) :: u32) + 1 = of_nat (length (va_generations v))"
    by (cases "length (va_generations v)") (simp_all add: add.commute)
  then show ?thesis
    using assms g by (auto simp: rotate_convergence_def vault_inv_def Let_def dest: random_array_length split: sum.splits)
qed

lemma pin_inv: "vault_inv v \<Longrightarrow> wf_peer p \<Longrightarrow> vault_inv (pin_peer p v)"
  using set_btm_insert_subset [of "pp_peer_pk p" p "va_peers v"] by (auto simp: vault_inv_def pin_peer_def list_all_iff)

lemma block_inv: "vault_inv v \<Longrightarrow> vault_inv (fst (block_peer pk v))"
proof -
  assume v: "vault_inv v"
  show ?thesis
  proof (cases "btm_get (va_peers v) pk")
    case (Some p)
    then have "pk = pp_peer_pk p \<and> wf_peer p" using v by (auto simp: vault_inv_def list_all_iff dest: map_of_SomeD)
    then show ?thesis
      using v Some set_btm_insert_subset [of pk "p\<lparr>pp_blocked := True\<rparr>" "va_peers v"]
      by (auto simp: vault_inv_def block_peer_def list_all_iff wf_peer_def)
  qed (simp add: block_peer_def v)
qed

text \<open>Every vault a client can hold: created, then changed by any sequence of operations.\<close>

inductive vault_reach :: "vault \<Rightarrow> bool" where
  create: "Vault_create u u' = Ok v \<Longrightarrow> vault_reach v"
| rotate: "vault_reach v \<Longrightarrow> rotate_convergence u v = Some (v', r) \<Longrightarrow> length (va_generations v) < 2 ^ 32 \<Longrightarrow> vault_reach v'"
| pin: "vault_reach v \<Longrightarrow> wf_peer p \<Longrightarrow> vault_reach (pin_peer p v)"
| block: "vault_reach v \<Longrightarrow> block_peer pk v = (v', r) \<Longrightarrow> vault_reach v'"

lemma reachable_vault_inv: "vault_reach v \<Longrightarrow> vault_inv v"
  by (induction rule: vault_reach.induct) (auto intro: Vault_create_inv rotate_inv pin_inv, metis block_inv fst_conv)

section \<open>Rotation\<close>

lemma find_snoc: "find P (xs @ [y]) = (case find P xs of None \<Rightarrow> if P y then Some y else None | Some x \<Rightarrow> Some x)"
  by (induction xs) auto

lemma find_generation:
  "vault_inv v \<Longrightarrow> find (\<lambda>g. ge_number g = n) (va_generations v) = None \<longleftrightarrow> length (va_generations v) \<le> unat n"
proof -
  assume v: "vault_inv v"
  have numbers: "map ge_number (va_generations v) = map of_nat [0..<length (va_generations v)]" using v by (simp add: vault_inv_def)
  have "ge_number ` set (va_generations v) = set (map ge_number (va_generations v))" by simp
  also have "\<dots> = of_nat ` {0..<length (va_generations v)}" unfolding numbers by simp
  finally have "ge_number ` set (va_generations v) = of_nat ` {0..<length (va_generations v)}" .
  moreover have "n \<in> of_nat ` {0..<length (va_generations v)} \<longleftrightarrow> unat n < length (va_generations v)"
  proof
    assume "n \<in> of_nat ` {0..<length (va_generations v)}"
    then obtain k where "k < length (va_generations v)" "n = of_nat k" by auto
    then show "unat n < length (va_generations v)" using v by (simp add: vault_inv_def unat_of_nat)
  next
    assume "unat n < length (va_generations v)"
    then show "n \<in> of_nat ` {0..<length (va_generations v)}" by (intro image_eqI [of _ _ "unat n"]) simp_all
  qed
  moreover have "(\<exists>g \<in> set (va_generations v). ge_number g = n) \<longleftrightarrow> n \<in> ge_number ` set (va_generations v)" by auto
  ultimately have "(\<exists>g \<in> set (va_generations v). ge_number g = n) \<longleftrightarrow> unat n < length (va_generations v)" by simp
  then show ?thesis unfolding find_None_iff by (metis not_less)
qed

text \<open>
  C24. Rotating the convergence secret loses no data: in every reachable vault below \<open>2^32\<close> generations
  the rotation does not panic; it answers the next number, new writes use the new secret, every past
  generation is still found under its number, and without randomness nothing changes.
\<close>

theorem rotation_keeps_every_generation:
  assumes "vault_reach v" "length (va_generations v) < 2 ^ 32"
  shows "\<exists>v' r. rotate_convergence urandom v = Some (v', r) \<and>
    (case r of
       Inl e \<Rightarrow> v' = v
     | Inr n \<Rightarrow> unat n = length (va_generations v) \<and>
         (\<exists>g. current_generation v' = Some g \<and> ge_number g = n \<and> random_array urandom KEY_LEN = Ok (ge_secret g) \<and>
            Vault_generation v' n = Ok g) \<and>
         (\<forall>k g. Vault_generation v k = Ok g \<longrightarrow> Vault_generation v' k = Ok g) \<and> va_peers v' = va_peers v \<and> va_seed v' = va_seed v)"
proof (cases "random_array urandom KEY_LEN")
  case (Inl e)
  then show ?thesis by (simp add: rotate_convergence_def)
next
  case (Inr secret)
  have v: "vault_inv v" using assms(1) by (rule reachable_vault_inv)
  obtain g where g: "current_generation v = Some g" "ge_number g = of_nat (length (va_generations v) - 1)"
    using current_generation_number [OF v] by blast
  have "va_generations v \<noteq> []" using v by (simp add: vault_inv_def)
  then have n: "ge_number g + 1 = of_nat (length (va_generations v))"
    using g by (cases "length (va_generations v)") (simp_all add: add.commute)
  have u: "unat (of_nat (length (va_generations v)) :: u32) = length (va_generations v)" using assms(2) by (simp add: unat_of_nat)
  then have "find (\<lambda>g. ge_number g = of_nat (length (va_generations v))) (va_generations v) = None" using find_generation [OF v] by simp
  then show ?thesis
    using Inr g n u
    by (auto simp: rotate_convergence_def Let_def current_generation_def Vault_generation_def find_snoc ok_or_Inr_iff)
qed

section \<open>The sealed form\<close>

lemma peer_entry_decodes: "wf_peer p \<Longrightarrow> decode_peer (peer_entry p) = Ok p"
proof -
  assume p: "wf_peer p"
  let ?f = "[pp_peer_pk p, pp_label p, [if pp_blocked p then 1 else 0], u64_le (pp_quota_bytes p)]"
  have "encode_fields ?f = Ok (concat (map frame ?f))" using p by (simp add: encode_fields_Inr_iff wf_peer_def MAX_FIELD_def)
  then have "encode_fields ?f = Ok (peer_entry p)" by (simp add: peer_entry_def expect_ok_def)
  then have "decode_fields (peer_entry p) = Ok ?f" by (simp add: fields.dec_iff)
  then show ?thesis using p by (simp add: decode_peer_def lossy_of_valid wf_peer_def)
qed

lemma peers_decode:
  "btm_inv (acc @ m) \<Longrightarrow> list_all (\<lambda>(k, p). k = pp_peer_pk p \<and> wf_peer p) m \<Longrightarrow>
    decode_peers (map (\<lambda>kv. peer_entry (snd kv)) m) acc = Ok (acc @ m)"
proof (induction m arbitrary: acc)
  case (Cons x m)
  obtain k p where x: "x = (k, p)" by fastforce
  have p: "k = pp_peer_pk p" "wf_peer p" using Cons.prems(2) by (simp_all add: x)
  have lt: "\<forall>j \<in> fst ` set acc. j < pp_peer_pk p" using Cons.prems(1) by (auto simp: x p sorted_wrt_append)
  then show ?case
    using Cons.IH [of "acc @ [x]"] Cons.prems p by (simp add: x peer_entry_decodes btm_insert_last [OF lt])
qed simp

lemma generations_decode:
  "map ge_number gs = map of_nat [i..<i + length gs] \<Longrightarrow> decode_generations i (map generation_bytes gs) = Ok gs"
proof (induction gs arbitrary: i)
  case (Cons g gs)
  have "[i..<i + length (g # gs)] = i # [Suc i..<Suc i + length gs]" by (simp add: upt_conv_Cons del: upt_Suc)
  then have "ge_number g = of_nat i" "map ge_number gs = map of_nat [Suc i..<Suc i + length gs]" using Cons.prems by simp_all
  then show ?case using Cons.IH by (cases g) (simp add: generation_bytes_def Let_def)
qed simp

lemma generations_chunk:
  "list_all (\<lambda>g. arr KEY_LEN (ge_secret g)) gs \<Longrightarrow>
    chunks_exact GEN_LEN (concat (map generation_bytes gs)) = map generation_bytes gs \<and>
    length (concat (map generation_bytes gs)) = GEN_LEN * length gs"
proof -
  assume gs: "list_all (\<lambda>g. arr KEY_LEN (ge_secret g)) gs"
  have w: "length x = GEN_LEN" if "x \<in> set (map generation_bytes gs)" for x
    using that gs by (auto simp: generation_bytes_def GEN_LEN_def list_all_iff)
  moreover have "length (concat (map generation_bytes gs)) = GEN_LEN * length gs"
    using gs by (induction gs) (simp_all add: generation_bytes_def GEN_LEN_def)
  ultimately show ?thesis using chunks_exact_concat [of GEN_LEN "map generation_bytes gs"] by (simp add: GEN_LEN_def)
qed

lemma sealed_vault_opens:
  assumes "vault_inv v" "sound_aead A" "seal_with A drawn v key = Ok sealed"
  shows "open_with B A sealed key = Ok v"
proof -
  note v = assms(1)
  obtain p where p: "Vault_plain v = Ok p" "seal A drawn (wrapping_key key) p VAULT_AAD = Ok sealed"
    using assms(3) by (auto simp: seal_with_def result_elims)
  obtain blob where blob: "encode_fields (map (\<lambda>kv. peer_entry (snd kv)) (va_peers v)) = Ok blob"
    "encode_fields [VAULT_MAGIC, u16_le VAULT_VERSION, va_seed v, concat (map generation_bytes (va_generations v)), blob] = Ok p"
    using p(1) by (auto simp: Vault_plain_def result_elims)
  have dec: "decode_fields blob = Ok (map (\<lambda>kv. peer_entry (snd kv)) (va_peers v))"
    "decode_fields p = Ok [VAULT_MAGIC, u16_le VAULT_VERSION, va_seed v, concat (map generation_bytes (va_generations v)), blob]"
    using blob by (simp_all add: fields.dec_iff)
  have gens: "chunks_exact GEN_LEN (concat (map generation_bytes (va_generations v))) = map generation_bytes (va_generations v)"
    "length (concat (map generation_bytes (va_generations v))) = GEN_LEN * length (va_generations v)"
    using generations_chunk v by (simp_all add: vault_inv_def)
  then have "concat (map generation_bytes (va_generations v)) \<noteq> []"
    using v by (metis GEN_LEN_def add_is_0 length_0_conv mult_is_0 vault_inv_def zero_neq_numeral)
  moreover have "decode_generations 0 (map generation_bytes (va_generations v)) = Ok (va_generations v)"
    using generations_decode [of "va_generations v" 0] v by (simp add: vault_inv_def)
  moreover have "decode_peers (map (\<lambda>kv. peer_entry (snd kv)) (va_peers v)) [] = Ok (va_peers v)"
    using peers_decode [of "[]"] v by (simp add: vault_inv_def)
  ultimately have "Vault_from_plain p = Ok v"
    using dec gens v by (simp add: Vault_from_plain_def vault_inv_def)
  then show ?thesis using seal_opens [OF assms(2) p(2)] by (simp add: open_with_def)
qed

text \<open>
  A vault survives being stored: whatever the client did to it since it was created, what
  \<open>seal_with\<close> wrote opens with the same key to exactly the same vault, and the pinned peers, blocked
  ones included, are all there.
\<close>

theorem sealed_vault_reopens:
  assumes "vault_reach v" "sound_aead A" "seal_with A drawn v key = Ok sealed"
  shows "open_with B A sealed key = Ok v"
  by (rule sealed_vault_opens [OF reachable_vault_inv [OF assms(1)] assms(2,3)])

text \<open>
  The stored form is not canonical, unlike the other formats: the decoder accepts any non-zero byte
  as \<open>blocked\<close>, peers in any order, and two entries for one key, of which the later wins silently.
\<close>

lemma vault_peer_entries_not_canonical:
  assumes "wf_peer p" "wf_peer q" "pp_peer_pk p = pp_peer_pk q"
  shows "decode_peers [peer_entry p, peer_entry q] [] = decode_peers [peer_entry q] []"
    "decode_fields e = Ok [[1], [], [b], u64_le 0] \<Longrightarrow> b \<noteq> 0 \<Longrightarrow>
      decode_peer e = Ok \<lparr>pp_peer_pk = [1], pp_label = [], pp_blocked = True, pp_quota_bytes = 0\<rparr>"
proof -
  show "decode_peers [peer_entry p, peer_entry q] [] = decode_peers [peer_entry q] []" using assms by (simp add: peer_entry_decodes)
qed (simp add: decode_peer_def)

text \<open>Pinning a peer again replaces its entry, the block with it.\<close>

lemma pin_again_unblocks: "Vault_peer (pin_peer p v) (pp_peer_pk p) = Some p"
  by (simp add: Vault_peer_def pin_peer_def)

lemma blocked_peer_is_found:
  "block_peer pk v = (v', True) \<Longrightarrow> \<exists>p. Vault_peer v' pk = Some p \<and> pp_blocked p"
  by (auto simp: block_peer_def Vault_peer_def split: option.splits)

section \<open>Instances\<close>

definition toy_vault :: vault where
  "toy_vault = \<lparr>va_seed = replicate 32 1, va_generations = [\<lparr>ge_number = 0, ge_secret = replicate 32 2\<rparr>], va_peers = []\<rparr>"

lemma toy_vault_reach: "vault_reach toy_vault"
proof (rule vault_reach.create)
  show "Vault_create (Some (replicate 32 1)) (Some (replicate 32 2)) = Ok toy_vault"
    by (simp add: Vault_create_def random_array_def random_fill_def all_zero_def list_all_iff KEY_LEN_def toy_vault_def)
qed

theorem rotation_keeps_every_generation_witness:
  "\<exists>v' r. rotate_convergence (Some (replicate 32 3)) toy_vault = Some (v', r)"
  using rotation_keeps_every_generation [OF toy_vault_reach, of "Some (replicate 32 3)"] by (auto simp: toy_vault_def)

theorem sealed_vault_reopens_witness:
  "\<exists>sealed. seal_with toy_aead [] toy_vault [9] = Ok sealed \<and> open_with toy_backend toy_aead sealed [9] = Ok toy_vault"
proof -
  have "list_all field_ok [VAULT_MAGIC, u16_le VAULT_VERSION, va_seed toy_vault, concat (map generation_bytes (va_generations toy_vault)), []]"
    by (simp add: MAX_FIELD_def VAULT_MAGIC_def byte_str_def toy_vault_def generation_bytes_def)
  then obtain p where "Vault_plain toy_vault = Ok p"
    by (simp add: Vault_plain_def toy_vault_def encode_fields_ok)
  then obtain sealed where "seal_with toy_aead [] toy_vault [9] = Ok sealed"
    by (simp add: seal_with_def seal_def wrapping_key_def toy_aead_def)
  then show ?thesis using sealed_vault_reopens [OF toy_vault_reach toy_aead_sound] by blast
qed

end
