(* ===== verification/Http1.thy ===== *)
theory Http1
  imports Text Chunker BTree Blob_Store
begin

text \<open>
  \<open>nas-gateway/src/http1.rs\<close>: the gateway's HTTP. A stream is what its successive reads return (at
  most the 1024 bytes asked for, or an error), a request is its method, decoded path, raw query,
  headers and body. What is written is the bytes of the response; the gateway delivers them.
\<close>

definition MAX_BODY :: u64 where "MAX_BODY = 64 * 1024 * 1024"

definition MAX_HEADER :: usize where "MAX_HEADER = 64 * 1024"

record http_request =
  hr_method :: bytes
  hr_path :: bytes
  hr_query :: bytes
  hr_headers :: "(bytes, bytes) btreemap"
  hr_body :: bytes

datatype http_error =
    HttpIo io_error
  | HttpTruncated
  | TooLarge bytes u64
  | BadLine

section \<open>Reading a request\<close>

definition find_double_crlf :: "bytes \<Rightarrow> usize option" where
  "find_double_crlf buf = map_option (\<lambda>i. i + 4) (find_sub [13, 10, 13, 10] buf)"

definition trim_cr :: "bytes \<Rightarrow> bytes" where
  "trim_cr line = (if line \<noteq> [] \<and> last line = 13 then butlast line else line)"

definition parse_request_line :: "bytes \<Rightarrow> http_error + (bytes \<times> bytes)" where
  "parse_request_line line0 =
    (let line = trim_cr line0 in
     if \<not> from_utf8_ok line then Err BadLine
     else case split_on 32 line of
       method # target # _ \<Rightarrow> if method = [] \<or> target = [] then Err BadLine else Ok (method, target)
     | _ \<Rightarrow> Err BadLine)"

fun percent_bytes :: "bytes \<Rightarrow> bytes" where
  "percent_bytes (b # h # l # r) =
    (if b = 37
     then (case radix16_u8 h l of Some v \<Rightarrow> v # percent_bytes r | None \<Rightarrow> b # percent_bytes (h # l # r))
     else b # percent_bytes (h # l # r))"
| "percent_bytes (b # r) = b # percent_bytes r"
| "percent_bytes [] = []"

definition decode_path :: "bytes \<Rightarrow> bytes" where
  "decode_path p = from_utf8_lossy (percent_bytes p)"

definition percent_decode :: "bytes \<Rightarrow> bytes" where
  "percent_decode p = decode_path p"

definition split_target :: "bytes \<Rightarrow> bytes \<times> bytes" where
  "split_target target =
    (case split_once 63 target of Some (p, q) \<Rightarrow> (decode_path p, q) | None \<Rightarrow> (decode_path target, []))"

fun read_head :: "bytes \<Rightarrow> io_error reader \<Rightarrow> http_error + (usize \<times> bytes \<times> io_error reader)" where
  "read_head buf rs =
    (if length buf > MAX_HEADER then Err (TooLarge (byte_str ''headers'') (of_nat (length buf)))
     else case rs of
       [] \<Rightarrow> Err HttpTruncated
     | Inl e # _ \<Rightarrow> Err (HttpIo e)
     | Inr c # rs' \<Rightarrow>
         if c = [] then Err HttpTruncated
         else (case find_double_crlf (buf @ c) of
                 Some i \<Rightarrow> Ok (i, buf @ c, rs')
               | None \<Rightarrow> read_head (buf @ c) rs'))"

declare read_head.simps [simp del]

fun parse_headers :: "bytes list \<Rightarrow> (bytes, bytes) btreemap \<Rightarrow> http_error + (bytes, bytes) btreemap" where
  "parse_headers [] headers = Ok headers"
| "parse_headers (line0 # lines) headers =
    (let line = trim_cr line0 in
     if line = [] then parse_headers lines headers
     else if \<not> from_utf8_ok line then Err BadLine
     else case split_once 58 line of
       None \<Rightarrow> Err BadLine
     | Some (k, v) \<Rightarrow> parse_headers lines (btm_insert (to_ascii_lowercase (trim k)) (trim v) headers))"

text \<open>The head up to the length of the body it announces.\<close>

definition parse_head :: "bytes \<Rightarrow> http_error + (http_request \<times> usize)" where
  "parse_head head =
    (case split_on 10 head of
       [] \<Rightarrow> Err BadLine
     | request_line # lines \<Rightarrow>
         rbind (parse_request_line request_line) (\<lambda>(method, target).
         let pq = split_target target in
         rbind (parse_headers lines []) (\<lambda>headers.
         rbind (case btm_get headers (byte_str ''content-length'') of
                  Some v \<Rightarrow> ok_or (parse_u64 v) BadLine
                | None \<Rightarrow> Ok 0) (\<lambda>want.
         if want > MAX_BODY then Err (TooLarge (byte_str ''body'') want)
         else Ok (\<lparr>hr_method = method, hr_path = fst pq, hr_query = snd pq, hr_headers = headers, hr_body = []\<rparr>, unat want)))))"

fun read_body :: "usize \<Rightarrow> bytes \<Rightarrow> io_error reader \<Rightarrow> http_error + bytes" where
  "read_body want body rs =
    (if length body < want then
       (case rs of
          [] \<Rightarrow> Err HttpTruncated
        | Inl e # _ \<Rightarrow> Err (HttpIo e)
        | Inr c # rs' \<Rightarrow> if c = [] then Err HttpTruncated else read_body want (body @ c) rs')
     else Ok (take want body))"

declare read_body.simps [simp del]

definition read_request :: "io_error reader \<Rightarrow> http_error + http_request" where
  "read_request rs =
    rbind (read_head [] rs) (\<lambda>(header_end, buf, rs').
    rbind (parse_head (take header_end buf)) (\<lambda>(req, want).
    rbind (read_body want (drop header_end buf) rs') (\<lambda>body. Ok (req\<lparr>hr_body := body\<rparr>))))"

section \<open>Writing a response\<close>

definition CRLF :: bytes where "CRLF = [13, 10]"

definition header_line :: "bytes \<times> bytes \<Rightarrow> bytes" where
  "header_line kv = fst kv @ byte_str '': '' @ snd kv @ CRLF"

definition write_response_with :: "u16 \<Rightarrow> string \<Rightarrow> string \<Rightarrow> (bytes \<times> bytes) list \<Rightarrow> bytes \<Rightarrow> bytes" where
  "write_response_with status reason content_type extra body =
    byte_str ''HTTP/1.1 '' @ dec (unat status) @ [32] @ byte_str reason @ CRLF @
    byte_str ''Content-Type: '' @ byte_str content_type @ CRLF @
    concat (map header_line extra) @
    byte_str ''Content-Length: '' @ dec (length body) @ CRLF @ byte_str ''Connection: close'' @ CRLF @ CRLF @ body"

definition write_response :: "u16 \<Rightarrow> string \<Rightarrow> string \<Rightarrow> bytes \<Rightarrow> bytes" where
  "write_response status reason content_type body = write_response_with status reason content_type [] body"

definition write_empty :: "u16 \<Rightarrow> string \<Rightarrow> bytes" where
  "write_empty status reason = write_response status reason ''text/plain'' []"

section \<open>Ranges\<close>

definition parse_byte_range :: "bytes \<Rightarrow> u64 \<Rightarrow> (u64 \<times> u64) option" where
  "parse_byte_range header tot =
    Option.bind (strip_prefix (byte_str ''bytes='') (trim header)) (\<lambda>spec0.
    let spec = trim spec0 in
    if 44 \<in> set spec \<or> tot = 0 then None
    else case strip_prefix [45] spec of
      Some n0 \<Rightarrow>
        Option.bind (parse_u64 n0) (\<lambda>n.
        if n = 0 then None else let n = min n tot in Some (tot - n, tot))
    | None \<Rightarrow>
        Option.bind (split_once 45 spec) (\<lambda>(a, b).
        Option.bind (parse_u64 a) (\<lambda>start.
        if start \<ge> tot then None
        else if b = [] then Some (start, tot)
        else Option.bind (parse_u64 b) (\<lambda>final.
          if final < start then None else Some (start, min (saturating_add final 1) tot)))))"

section \<open>Requests do not depend on how they were read\<close>

text \<open>What a whole byte sequence holds: the reference for the two read loops.\<close>

definition request_of :: "bytes \<Rightarrow> http_error + http_request" where
  "request_of data =
    (case find_double_crlf data of
       None \<Rightarrow> Err HttpTruncated
     | Some i \<Rightarrow>
         rbind (parse_head (take i data)) (\<lambda>(req, want).
         if length data < i + want then Err HttpTruncated
         else Ok (req\<lparr>hr_body := take want (drop i data)\<rparr>)))"

lemma starts_with_extend: "starts_with s p \<Longrightarrow> starts_with (s @ r) p"
  by (auto simp: starts_with_iff)

lemma starts_with_shorten: "starts_with (s @ r) p \<Longrightarrow> length p \<le> length s \<Longrightarrow> starts_with s p"
  by (simp add: starts_with_def)

lemma find_sub_bound: "find_sub p s = Some i \<Longrightarrow> i + length p \<le> length s"
proof (induction p s arbitrary: i rule: find_sub.induct)
  case (2 p b s)
  show ?case
  proof (cases "starts_with (b # s) p")
    case True
    then have "length p \<le> length (b # s)" unfolding starts_with_iff by (metis le_add1 length_append)
    then show ?thesis using 2 True by simp
  qed (use 2 in auto)
qed simp

lemma find_sub_append: "find_sub p s = Some i \<Longrightarrow> find_sub p (s @ r) = Some i"
proof (induction p s arbitrary: i rule: find_sub.induct)
  case (2 p b s)
  show ?case
  proof (cases "starts_with (b # s) p")
    case True
    then show ?thesis using 2 starts_with_extend [OF True, of r] by simp
  next
    case False
    then obtain k where k: "find_sub p s = Some k" "i = Suc k" using 2 by auto
    have "\<not> starts_with ((b # s) @ r) p"
      using False starts_with_shorten [of "b # s" r p] find_sub_bound [OF k(1)] by auto
    then show ?thesis using 2 k False by auto
  qed
qed simp

lemma find_double_crlf_append: "find_double_crlf s = Some i \<Longrightarrow> find_double_crlf (s @ r) = Some i"
  using find_sub_append by (auto simp: find_double_crlf_def)

lemma find_double_crlf_bound: "find_double_crlf s = Some i \<Longrightarrow> i \<le> length s"
  using find_sub_bound by (force simp: find_double_crlf_def)

lemma find_sub_prefix: "find_sub p (s @ r) = Some i \<Longrightarrow> i + length p \<le> length s \<Longrightarrow> p \<noteq> [] \<Longrightarrow> find_sub p s = Some i"
proof (induction s arbitrary: i)
  case (Cons b s)
  show ?case
  proof (cases "starts_with (b # s @ r) p")
    case True
    then have "i = 0" using Cons.prems by simp
    moreover have "starts_with (b # s) p" using starts_with_shorten [of "b # s" r p] True Cons.prems \<open>i = 0\<close> by simp
    ultimately show ?thesis by simp
  next
    case False
    then have "\<not> starts_with (b # s) p" using starts_with_extend [of "b # s" p r] by auto
    then show ?thesis using Cons False by auto
  qed
qed simp

lemma unfinished_head_is_short:
  assumes "find_double_crlf (s @ r) = Some i" "find_double_crlf s = None"
  shows "length s < i"
proof (rule ccontr)
  obtain k where k: "find_sub [13, 10, 13, 10] (s @ r) = Some k" "i = k + 4" using assms(1) by (auto simp: find_double_crlf_def)
  assume "\<not> length s < i"
  then have "find_sub [13, 10, 13, 10] s = Some k" using find_sub_prefix [OF k(1)] k(2) by simp
  then show False using assms(2) by (simp add: find_double_crlf_def)
qed

lemma read_head_finds:
  assumes "reads_ok rs" "find_double_crlf (buf @ reader_bytes rs) = Some i" "find_double_crlf buf = None" "i \<le> MAX_HEADER"
  shows "\<exists>buf' rs'. read_head buf rs = Ok (i, buf', rs') \<and> reads_ok rs' \<and> buf' @ reader_bytes rs' = buf @ reader_bytes rs \<and>
    i \<le> length buf'"
  using assms
proof (induction buf rs rule: read_head.induct)
  case (1 buf rs)
  have short: "length buf < i" using unfinished_head_is_short 1 by blast
  show ?case
  proof (cases rs)
    case Nil
    then show ?thesis using 1 by simp
  next
    case (Cons r rs')
    then obtain c where c: "r = Inr c" using 1(2) by (auto simp: reads_ok_def split: sum.splits)
    have ne: "c \<noteq> []" using 1(3,4) Cons c by auto
    show ?thesis
    proof (cases "find_double_crlf (buf @ c)")
      case None
      then show ?thesis
        using 1(1) [OF _ Cons c ne None] 1(2-) short Cons c ne by (subst read_head.simps) (simp add: reads_ok_def)
    next
      case (Some k)
      then have "k = i" using find_double_crlf_append [OF Some, of "reader_bytes rs'"] 1(3) Cons c ne by simp
      then show ?thesis
        using Some find_double_crlf_bound [OF Some] 1(2-) short Cons c ne by (subst read_head.simps) (simp add: reads_ok_def)
    qed
  qed
qed

lemma read_body_takes:
  assumes "reads_ok rs"
  shows "read_body want body rs =
    (if length (body @ reader_bytes rs) < want then Err HttpTruncated else Ok (take want (body @ reader_bytes rs)))"
  using assms
proof (induction want body rs rule: read_body.induct)
  case (1 want body rs)
  show ?case
  proof (cases "length body < want")
    case True
    show ?thesis
    proof (cases rs)
      case (Cons r rs')
      then obtain c where "r = Inr c" using 1(2) by (auto simp: reads_ok_def split: sum.splits)
      then show ?thesis using 1 True Cons by (subst read_body.simps) (simp add: reads_ok_def)
    qed (subst read_body.simps, simp add: True)
  qed (subst read_body.simps, simp)
qed

lemma read_request_whole:
  assumes "reads_ok rs" "find_double_crlf (reader_bytes rs) = Some i" "i \<le> MAX_HEADER"
  shows "read_request rs = request_of (reader_bytes rs)"
proof -
  obtain buf rs' where h: "read_head [] rs = Ok (i, buf, rs')" "reads_ok rs'" "buf @ reader_bytes rs' = reader_bytes rs" "i \<le> length buf"
    using read_head_finds [of rs "[]" i] assms by (auto simp: find_double_crlf_def)
  have t: "take i buf = take i (reader_bytes rs)" "drop i buf @ reader_bytes rs' = drop i (reader_bytes rs)"
    using h(3,4) by (metis append_take_drop_id take_append diff_is_0_eq take_0 append_Nil2, metis drop_append diff_is_0_eq drop_0)
  have n: "length (drop i (reader_bytes rs)) < want \<longleftrightarrow> length (reader_bytes rs) < i + want" for want
    using h(3,4) find_double_crlf_bound [OF assms(2)] by (auto simp: less_diff_conv2)
  show ?thesis
    unfolding read_request_def request_of_def h(1) assms(2) rbind_simps prod.case option.case t(1) read_body_takes [OF h(2)] t(2) n
    by (rule arg_cong2 [where f = rbind]) (auto simp: fun_eq_iff)
qed

text \<open>
  C30. When the reads report no error and the header ends within the cap, a request is what its bytes
  say, however the network cut them: the two read loops together return exactly what the whole byte
  sequence holds, errors included. In particular the loops end, and bytes after the body are ignored.
\<close>

theorem request_ignores_fragmentation:
  assumes "reads_ok rs" "find_double_crlf (reader_bytes rs) = Some i" "i \<le> MAX_HEADER"
  shows "read_request rs = request_of (reader_bytes rs)"
  using assms by (rule read_request_whole)

text \<open>
  Just above the cap the cut decides. The length is checked before a read and the end is looked for
  after it: a header that ends past the cap is read from a buffer that is not yet over it, and too
  large from one that is.
\<close>

lemma cut_decides_above_the_cap:
  assumes "find_double_crlf (buf @ c) = Some i" "c \<noteq> []"
  shows "length buf = MAX_HEADER \<Longrightarrow> read_head buf (Inr c # rs) = Ok (i, buf @ c, rs)"
    and "length buf = MAX_HEADER + 1 \<Longrightarrow> read_head buf (Inr c # rs) = Err (TooLarge (byte_str ''headers'') (of_nat (length buf)))"
  using assms by (simp_all add: read_head.simps [of buf "Inr c # rs"])

text \<open>The head of a well-formed request: its lines, each ended by a line break, and an empty one.\<close>

definition head_text :: "bytes list \<Rightarrow> bytes" where
  "head_text ls = concat (map (\<lambda>l. l @ CRLF) ls) @ CRLF"

definition head_line :: "bytes \<Rightarrow> bool" where
  "head_line l \<longleftrightarrow> l \<noteq> [] \<and> 13 \<notin> set l \<and> 10 \<notin> set l"

lemma find_sub_skip: "c \<notin> set x \<Longrightarrow> find_sub (c # p) (x @ s) = map_option (\<lambda>i. i + length x) (find_sub (c # p) s)"
proof (induction x)
  case (Cons b x)
  then have "\<not> starts_with (b # x @ s) (c # p)" by (auto simp: starts_with_def)
  then show ?case using Cons by (cases "find_sub (c # p) s") auto
qed (simp add: option.map_ident)

lemma head_text_end:
  assumes "ls \<noteq> []" "\<forall>l \<in> set ls. head_line l"
  shows "find_double_crlf (head_text ls @ body) = Some (length (head_text ls))"
proof -
  have "find_sub [13, 10, 13, 10] (head_text ls @ body) = Some (length (head_text ls) - 4)" using assms
  proof (induction ls rule: list_nonempty_induct)
    case (single l)
    then show ?case by (simp add: head_text_def head_line_def CRLF_def find_sub_skip starts_with_def)
  next
    case (cons l ls)
    then obtain c r where c: "head_text ls @ body = c # r" "c \<noteq> 13"
      by (cases ls; cases "hd ls") (auto simp: head_text_def head_line_def)
    have len: "4 \<le> length (head_text ls)" using cons by (cases ls) (auto simp: head_text_def CRLF_def)
    have "head_text (l # ls) @ body = l @ 13 # 10 # c # r" using c by (simp add: head_text_def CRLF_def)
    moreover have "find_sub [13, 10, 13, 10] (13 # 10 # c # r) = map_option (\<lambda>i. i + 2) (find_sub [13, 10, 13, 10] (c # r))"
      using c(2) by (cases "find_sub [13, 10, 13, 10] (c # r)") (simp_all add: starts_with_def del: find_sub.simps(2) add: find_sub.simps(2) [of _ 13] find_sub.simps(2) [of _ 10])
    ultimately show ?case
      using cons c len by (simp add: find_sub_skip head_line_def del: find_sub.simps) (simp add: head_text_def CRLF_def)
  qed
  moreover have "4 \<le> length (head_text ls)" using assms by (cases ls) (auto simp: head_text_def CRLF_def)
  ultimately show ?thesis by (simp add: find_double_crlf_def)
qed

lemma head_text_lines:
  assumes "\<forall>l \<in> set ls. head_line l"
  shows "split_on 10 (head_text ls) = map (\<lambda>l. l @ [13]) ls @ [[13], []]"
  using assms
proof (induction ls)
  case (Cons l ls)
  have "head_text (l # ls) = (l @ [13]) @ 10 # head_text ls" by (simp add: head_text_def CRLF_def)
  moreover have "10 \<notin> set (l @ [13])" using Cons by (simp add: head_line_def)
  ultimately show ?case using Cons split_on_append [of 10 "l @ [13]" "head_text ls"] by simp
qed (simp add: head_text_def CRLF_def)

text \<open>A well-formed header line of graphic characters and spaces enters the map under its lower-case name.\<close>

lemma parse_header_line:
  assumes "k \<noteq> []" "\<forall>b \<in> set k. graphic b \<and> b \<noteq> 58" "v \<noteq> []" "graphic (hd v)" "graphic (last v)" "\<forall>b \<in> set v. b < 0x80"
  shows "parse_headers ((k @ 58 # 32 # v @ [13]) # lines) hs = parse_headers lines (btm_insert (to_ascii_lowercase k) v hs)"
proof -
  let ?line = "k @ 58 # 32 # v"
  have cr: "trim_cr (k @ 58 # 32 # v @ [13]) = ?line" by (simp add: trim_cr_def butlast_append)
  have "\<forall>b \<in> set k. b < 0x80" using assms(2) by (auto simp: graphic_def word_less_nat_alt word_le_nat_alt)
  then have utf: "from_utf8_ok ?line" using assms(6) by (intro utf8_ascii) auto
  have sp: "split_once 58 ?line = Some (k, 32 # v)" using assms(2) by auto
  have tk: "trim k = k" using assms(1,2) by (intro trim_graphic) auto
  have tv: "trim (32 # v) = v" using assms(3,4,5) by (simp add: trim_graphic)
  show ?thesis unfolding parse_headers.simps Let_def cr sp option.case prod.case tk tv using utf by simp
qed

text \<open>
  Memory is bounded whatever the client sends: the body is at most 64 MiB, and the announced length is
  checked before the body is read.
\<close>

lemma parse_head_body: "parse_head h = Ok (req, want) \<Longrightarrow> want \<le> unat MAX_BODY \<and> hr_body req = []"
  by (auto simp: parse_head_def Let_def result_elims word_le_nat_alt not_less split: list.splits prod.splits if_splits)

lemma read_body_length: "read_body want body rs = Ok b \<Longrightarrow> length b = want"
proof (induction want body rs rule: read_body.induct)
  case (1 want body rs)
  show ?case
    using 1 read_body.simps [of want body rs] by (auto split: if_splits list.splits sum.splits)
qed

lemma request_body_is_bounded: "read_request rs = Ok req \<Longrightarrow> length (hr_body req) \<le> unat MAX_BODY"
  unfolding read_request_def by (auto simp: result_elims dest!: parse_head_body read_body_length)

text \<open>A range that is honoured is inside the object and not empty.\<close>

lemma byte_range_within:
  assumes "parse_byte_range h tot = Some (s, e)"
  shows "s < e \<and> e \<le> tot"
proof -
  have sat: "s < min (saturating_add f 1) tot" if "\<not> tot \<le> s" "\<not> f < s" for f
    using that unat_less_pow [of tot] by (auto simp: word_less_nat_alt word_le_nat_alt unat_saturating_add min_def)
  have suf: "tot - min n tot < tot" if "n \<noteq> 0" "tot \<noteq> 0" for n :: u64
  proof -
    have "unat (min n tot) \<noteq> 0" using that by (simp add: min_def unat_eq_zero)
    then show ?thesis using that by (simp add: word_less_nat_alt unat_sub unat_eq_zero [symmetric])
  qed
  show ?thesis
    using assms sat suf
    by (auto simp: parse_byte_range_def bind_eq_Some_conv Let_def not_le split: option.splits if_splits)
qed

text \<open>And it is the range the client asked for.\<close>

lemma trim_dec_end: "graphic (hd s) \<Longrightarrow> s \<noteq> [] \<Longrightarrow> trim (s @ dec b) = s @ dec b"
  using dec_digits [of b] by (intro trim_graphic) (auto intro!: dec_graphic [of _ b])

lemma byte_range_means:
  assumes "a \<le> b" "b < 2 ^ 64" "a < unat tot"
  shows "parse_byte_range (byte_str ''bytes='' @ dec a @ [45] @ dec b) tot = Some (of_nat a, min (saturating_add (of_nat b) 1) tot)"
proof -
  have a: "dec a \<noteq> []" "list_all dec_digit (dec a)" and b: "dec b \<noteq> []" "list_all dec_digit (dec b)"
    using dec_digits by auto
  have no: "45 \<notin> set (dec a)" "44 \<notin> set (dec a)" "44 \<notin> set (dec b)" using a b by (auto simp: list_all_iff dec_digit_def)
  have ga: "graphic (hd (dec a))" using a by (intro dec_graphic [of _ a]) simp
  have t1: "trim (byte_str ''bytes='' @ dec a @ [45] @ dec b) = byte_str ''bytes='' @ (dec a @ [45] @ dec b)"
    using trim_dec_end [of "byte_str ''bytes='' @ dec a @ [45]" b] by (simp add: byte_str_def graphic_def)
  have t2: "trim (dec a @ [45] @ dec b) = dec a @ [45] @ dec b"
    using trim_dec_end [of "dec a @ [45]" b] ga a by simp
  have d: "hd (dec a) \<noteq> 45" using no(1) a(1) by (metis list.set_sel(1))
  have m: "strip_prefix [45] (dec a @ [45] @ dec b) = None"
    using d a(1) by (cases "dec a") (auto simp: strip_prefix_def starts_with_def)
  have so: "split_once 45 (dec a @ [45] @ dec b) = Some (dec a, dec b)" using no by simp
  have tot: "tot \<noteq> 0" "\<not> tot \<le> of_nat a" "\<not> (of_nat b < (of_nat a :: u64))"
    using assms unat_less_pow [of tot] by (auto simp: word_le_nat_alt word_less_nat_alt unat_of_nat)
  show ?thesis
    unfolding parse_byte_range_def t1 strip_prefix_append bind.bind_lunit t2 Let_def m option.case so prod.case
    using no tot assms b(1) parse_dec [of a] parse_dec [of b] unat_less_pow [of tot] by simp
qed

definition toy_reads :: "io_error reader" where
  "toy_reads = [Inr (byte_str ''GET /photos/a%20b?x=1 HT''), Inr (byte_str ''TP/1.1'' @ CRLF @ byte_str ''Content-Le''),
     Inr (byte_str ''ngth: 3'' @ CRLF @ [13]), Inr ([10] @ byte_str ''ab''), Inr (byte_str ''cXYZ'')]"

definition toy_request :: http_request where
  "toy_request = \<lparr>hr_method = byte_str ''GET'', hr_path = byte_str ''/photos/a b'', hr_query = byte_str ''x=1'',
     hr_headers = [(byte_str ''content-length'', byte_str ''3'')], hr_body = byte_str ''abc''\<rparr>"

definition toy_lines :: "bytes list" where
  "toy_lines = [byte_str ''GET /photos/a%20b?x=1 HTTP/1.1'', byte_str ''Content-Length: 3'']"

lemma toy_reads_facts:
  "reads_ok toy_reads" "find_double_crlf (reader_bytes toy_reads) = Some (length (head_text toy_lines))"
  "length (head_text toy_lines) \<le> MAX_HEADER" "request_of (reader_bytes toy_reads) = Ok toy_request"
proof -
  show "reads_ok toy_reads" by (simp add: reads_ok_def toy_reads_def READ_BUF_def CRLF_def byte_str_def)
  show "length (head_text toy_lines) \<le> MAX_HEADER" by (simp add: head_text_def toy_lines_def MAX_HEADER_def CRLF_def)
  have bytes: "reader_bytes toy_reads = head_text toy_lines @ byte_str ''abcXYZ''"
    by (simp add: toy_reads_def toy_lines_def head_text_def CRLF_def byte_str_def)
  have ls: "toy_lines \<noteq> []" "\<forall>l \<in> set toy_lines. head_line l" by (simp_all add: toy_lines_def head_line_def byte_str_def)
  show h: "find_double_crlf (reader_bytes toy_reads) = Some (length (head_text toy_lines))" unfolding bytes using ls by (rule head_text_end)
  have line: "parse_request_line (byte_str ''GET /photos/a%20b?x=1 HTTP/1.1'' @ [13]) = Ok (byte_str ''GET'', byte_str ''/photos/a%20b?x=1'')"
    and target: "split_target (byte_str ''/photos/a%20b?x=1'') = (byte_str ''/photos/a b'', byte_str ''x=1'')"
    and hs: "parse_headers [byte_str ''Content-Length: 3'' @ [13], [13], []] [] = Ok (hr_headers toy_request)"
    and len: "parse_u64 (byte_str ''3'') = Some 3"
    by code_simp+
  have get: "btm_get (hr_headers toy_request) (byte_str ''content-length'') = Some (byte_str ''3'')" by (simp add: toy_request_def)
  have split: "split_on 10 (head_text toy_lines) = [byte_str ''GET /photos/a%20b?x=1 HTTP/1.1'' @ [13], byte_str ''Content-Length: 3'' @ [13], [13], []]"
    using head_text_lines [OF ls(2)] by (simp add: toy_lines_def)
  have "parse_head (head_text toy_lines) = Ok (toy_request\<lparr>hr_body := []\<rparr>, 3)"
    unfolding parse_head_def split list.case line rbind_simps prod.case Let_def target hs get len option.case
    by (simp add: MAX_BODY_def) (simp add: toy_request_def)
  then show "request_of (reader_bytes toy_reads) = Ok toy_request"
    unfolding request_of_def h option.case unfolding bytes by simp (simp add: toy_request_def byte_str_def)
qed

theorem request_ignores_fragmentation_witness: "read_request toy_reads = request_of (reader_bytes toy_reads) \<and> read_request toy_reads = Ok toy_request"
  using request_ignores_fragmentation [OF toy_reads_facts(1-3)] toy_reads_facts(4) by simp

lemma toy_reads_request: "read_request toy_reads = Ok toy_request"
  using read_request_whole [OF toy_reads_facts(1-3)] toy_reads_facts(4) by simp

end
