(* ===== verification/S3_Face.thy ===== *)
theory S3_Face
  imports Http1
begin

text \<open>
  \<open>nas-gateway/src/s3.rs\<close>: the path-style S3 subset. The trait \<open>Buckets\<close> is a record of operations on a
  store state \<open>'s\<close>: the trait takes \<open>&self\<close>, but a store keeps state behind it (a file system, a chunk
  cache), so every operation passes the state on. \<open>dispatch\<close> returns the state and the bytes of the
  response.
\<close>

datatype face_error = Refused bytes | NotFound bytes | FaceFailed bytes

record object_info =
  oi_key :: bytes
  oi_size :: u64
  oi_tombstone :: bool

record range_body =
  rb_data :: bytes
  rb_total :: u64
  rb_start :: u64
  rb_end :: u64
  rb_chunks_fetched :: usize
  rb_bytes_fetched :: u64

record 's buckets =
  bk_list_buckets :: "'s \<Rightarrow> 's \<times> (face_error + bytes list)"
  bk_list :: "bytes \<Rightarrow> bytes \<Rightarrow> 's \<Rightarrow> 's \<times> (face_error + object_info list)"
  bk_get :: "bytes \<Rightarrow> bytes \<Rightarrow> 's \<Rightarrow> 's \<times> (face_error + bytes)"
  bk_put :: "bytes \<Rightarrow> bytes \<Rightarrow> bytes \<Rightarrow> 's \<Rightarrow> 's \<times> (face_error + u64)"
  bk_delete :: "bytes \<Rightarrow> bytes \<Rightarrow> 's \<Rightarrow> 's \<times> (face_error + unit)"
  bk_head :: "bytes \<Rightarrow> bytes \<Rightarrow> 's \<Rightarrow> 's \<times> (face_error + u64)"
  bk_get_range :: "bytes \<Rightarrow> bytes \<Rightarrow> u64 \<Rightarrow> u64 \<Rightarrow> 's \<Rightarrow> 's \<times> (face_error + range_body)"

text \<open>The default method of the trait.\<close>

definition default_get_range ::
  "(bytes \<Rightarrow> bytes \<Rightarrow> 's \<Rightarrow> 's \<times> (face_error + bytes)) \<Rightarrow> bytes \<Rightarrow> bytes \<Rightarrow> u64 \<Rightarrow> u64 \<Rightarrow> 's \<Rightarrow>
    's \<times> (face_error + range_body)" where
  "default_get_range get bucket key start0 end0 s =
    (case get bucket key s of
       (s', Inl e) \<Rightarrow> (s', Err e)
     | (s', Inr body) \<Rightarrow>
         let tot = of_nat (length body);
             start = min start0 tot;
             stop = max (min end0 tot) start
         in (s', Ok \<lparr>rb_data = take (unat stop - unat start) (drop (unat start) body), rb_total = tot, rb_start = start,
                    rb_end = stop, rb_chunks_fetched = 1, rb_bytes_fetched = tot\<rparr>))"

datatype s3_route = ListBuckets | ListObjects bytes bytes | ObjectAt bytes bytes

definition query_param :: "bytes \<Rightarrow> bytes \<Rightarrow> bytes option" where
  "query_param query name =
    (case List.find (\<lambda>p. case split_once 61 p of Some (k, v) \<Rightarrow> k = name | None \<Rightarrow> False) (split_on 38 query) of
       None \<Rightarrow> None
     | Some p \<Rightarrow> map_option snd (split_once 61 p))"

definition route :: "bytes \<Rightarrow> bytes \<Rightarrow> s3_route" where
  "route path query =
    (let p = dropWhile (\<lambda>b. b = 47) path in
     if p = [] then ListBuckets
     else let prefix = (case query_param query (byte_str ''prefix'') of Some v \<Rightarrow> percent_decode v | None \<Rightarrow> []) in
       case split_once 47 p of
         None \<Rightarrow> ListObjects p prefix
       | Some (bucket, key) \<Rightarrow> if key = [] then ListObjects bucket prefix else ObjectAt bucket key)"

definition xml_char :: "u8 \<Rightarrow> bytes" where
  "xml_char c =
    (if c = 38 then byte_str ''&amp;''
     else if c = 60 then byte_str ''&lt;''
     else if c = 62 then byte_str ''&gt;''
     else if c = 34 then byte_str ''&quot;''
     else [c])"

definition xml_escape :: "bytes \<Rightarrow> bytes" where
  "xml_escape s = concat (map xml_char s)"

definition XML_DECL :: bytes where
  \<open>XML_DECL = byte_str ''<?xml version="1.0" encoding="UTF-8"?>''\<close>

definition s3_error :: "bytes \<Rightarrow> bytes \<Rightarrow> bytes" where
  "s3_error code message =
    XML_DECL @ byte_str ''<Error><Code>'' @ xml_escape code @ byte_str ''</Code><Message>'' @ xml_escape message @
    byte_str ''</Message></Error>''"

fun face_err :: "face_error \<Rightarrow> bytes" where
  "face_err (Refused m) = write_response 403 ''Forbidden'' ''application/xml'' (s3_error (byte_str ''AccessDenied'') m)"
| "face_err (NotFound m) = write_response 404 ''Not Found'' ''application/xml'' (s3_error (byte_str ''NoSuchKey'') m)"
| "face_err (FaceFailed m) = write_response 500 ''Internal Server Error'' ''application/xml'' (s3_error (byte_str ''InternalError'') m)"

definition auth_error_response :: "u16 \<Rightarrow> string \<Rightarrow> string \<Rightarrow> bytes \<Rightarrow> bytes" where
  "auth_error_response status reason code message =
    write_response status reason ''application/xml'' (s3_error (byte_str code) message)"

definition list_buckets_xml :: "bytes list \<Rightarrow> bytes" where
  \<open>list_buckets_xml names =
    XML_DECL @ byte_str ''<ListAllMyBucketsResult xmlns="http://s3.amazonaws.com/doc/2006-03-01/"><Buckets>'' @
    concat (map (\<lambda>n. byte_str ''<Bucket><Name>'' @ xml_escape n @ byte_str ''</Name></Bucket>'') names) @
    byte_str ''</Buckets></ListAllMyBucketsResult>''\<close>

definition list_objects_xml :: "bytes \<Rightarrow> bytes \<Rightarrow> object_info list \<Rightarrow> bytes" where
  \<open>list_objects_xml bucket prefix live =
    XML_DECL @ byte_str ''<ListBucketResult xmlns="http://s3.amazonaws.com/doc/2006-03-01/"><Name>'' @ xml_escape bucket @
    byte_str ''</Name><Prefix>'' @ xml_escape prefix @ byte_str ''</Prefix><KeyCount>'' @ dec (length live) @
    byte_str ''</KeyCount><MaxKeys>1000</MaxKeys><IsTruncated>false</IsTruncated>'' @
    concat (map (\<lambda>ob. byte_str ''<Contents><Key>'' @ xml_escape (oi_key ob) @ byte_str ''</Key><Size>'' @ dec (unat (oi_size ob)) @
      byte_str ''</Size></Contents>'') live) @
    byte_str ''</ListBucketResult>''\<close>

definition head_response :: "u64 \<Rightarrow> bytes" where
  "head_response n =
    byte_str ''HTTP/1.1 200 OK'' @ CRLF @ byte_str ''Content-Length: '' @ dec (unat n) @ CRLF @
    byte_str ''Content-Type: application/octet-stream'' @ CRLF @ byte_str ''Connection: close'' @ CRLF @ CRLF"

definition partial_response :: "u64 \<Rightarrow> u64 \<Rightarrow> range_body \<Rightarrow> bytes" where
  "partial_response start tot rb =
    (let final = saturating_sub (rb_end rb) 1 in
     write_response_with 206 ''Partial Content'' ''application/octet-stream''
       [(byte_str ''Content-Range'', byte_str ''bytes '' @ dec (unat start) @ [45] @ dec (unat final) @ [47] @ dec (unat tot)),
        (byte_str ''X-Nas-Chunks-Fetched'', dec (rb_chunks_fetched rb)),
        (byte_str ''X-Nas-Bytes-Fetched'', dec (unat (rb_bytes_fetched rb)))]
       (rb_data rb))"

definition unsatisfiable_response :: "u64 \<Rightarrow> bytes" where
  "unsatisfiable_response tot =
    write_response_with 416 ''Range Not Satisfiable'' ''text/plain''
      [(byte_str ''Content-Range'', byte_str ''bytes */'' @ dec (unat tot))] []"

definition write_object_get :: "'s buckets \<Rightarrow> bytes \<Rightarrow> bytes \<Rightarrow> bytes option \<Rightarrow> 's \<Rightarrow> 's \<times> bytes" where
  "write_object_get K bucket key rng s =
    (case rng of
       None \<Rightarrow>
         (case bk_get K bucket key s of
            (s', Inr body) \<Rightarrow> (s', write_response 200 ''OK'' ''application/octet-stream'' body)
          | (s', Inl e) \<Rightarrow> (s', face_err e))
     | Some rh \<Rightarrow>
         (case bk_head K bucket key s of
            (s', Inl e) \<Rightarrow> (s', face_err e)
          | (s', Inr tot) \<Rightarrow>
              (case parse_byte_range rh tot of
                 Some (start, stop) \<Rightarrow>
                   (case bk_get_range K bucket key start stop s' of
                      (s'', Inr rb) \<Rightarrow> (s'', partial_response start tot rb)
                    | (s'', Inl e) \<Rightarrow> (s'', face_err e))
               | None \<Rightarrow> (s', unsatisfiable_response tot))))"

definition s3_dispatch :: "'s buckets \<Rightarrow> http_request \<Rightarrow> 's \<Rightarrow> 's \<times> bytes" where
  "s3_dispatch K req s =
    (let method = to_ascii_uppercase (hr_method req);
         not_allowed = write_response 405 ''Method Not Allowed'' ''application/xml''
           (s3_error (byte_str ''MethodNotAllowed'') (byte_str ''this S3 face does not implement that verb''))
     in case route (hr_path req) (hr_query req) of
       ListBuckets \<Rightarrow>
         if method = byte_str ''GET'' then
           (case bk_list_buckets K s of
              (s', Inr names) \<Rightarrow> (s', write_response 200 ''OK'' ''application/xml'' (list_buckets_xml names))
            | (s', Inl e) \<Rightarrow> (s', face_err e))
         else if method = byte_str ''HEAD'' then (s, write_empty 200 ''OK'')
         else (s, not_allowed)
     | ListObjects bucket prefix \<Rightarrow>
         if method = byte_str ''HEAD'' then
           (case bk_list K bucket [] s of
              (s', Inr _) \<Rightarrow> (s', write_empty 200 ''OK'')
            | (s', Inl e) \<Rightarrow> (s', face_err e))
         else if method = byte_str ''GET'' then
           (case bk_list K bucket prefix s of
              (s', Inr items) \<Rightarrow>
                (s', write_response 200 ''OK'' ''application/xml''
                       (list_objects_xml bucket prefix (filter (\<lambda>ob. \<not> oi_tombstone ob) items)))
            | (s', Inl e) \<Rightarrow> (s', face_err e))
         else (s, not_allowed)
     | ObjectAt bucket key \<Rightarrow>
         if method = byte_str ''GET'' then write_object_get K bucket key (btm_get (hr_headers req) (byte_str ''range'')) s
         else if method = byte_str ''HEAD'' then
           (case bk_head K bucket key s of
              (s', Inr n) \<Rightarrow> (s', head_response n)
            | (s', Inl e) \<Rightarrow> (s', face_err e))
         else if method = byte_str ''PUT'' then
           (case bk_put K bucket key (hr_body req) s of
              (s', Inr _) \<Rightarrow> (s', write_empty 200 ''OK'')
            | (s', Inl e) \<Rightarrow> (s', face_err e))
         else if method = byte_str ''DELETE'' then
           (case bk_delete K bucket key s of
              (s', Inr _) \<Rightarrow> (s', write_empty 204 ''No Content'')
            | (s', Inl e) \<Rightarrow> (s', face_err e))
         else (s, not_allowed))"

end
