(* ===== verification/Hmac_Codec.thy ===== *)
theory Hmac_Codec
  imports Text
begin

text \<open>
  \<open>nas-gateway/src/hmac.rs\<close>: constant-time comparison, hex and base64. The \<open>sha2\<close> and \<open>hmac\<close> crates
  behind \<open>sha256\<close> and \<open>hmac_sha256\<close> are the record \<open>mac\<close>; all that is used of them is that a digest
  has 32 bytes.
\<close>

unbundle bit_operations_syntax

record mac =
  sha256 :: "bytes \<Rightarrow> bytes"
  hmac_sha256 :: "bytes \<Rightarrow> bytes \<Rightarrow> bytes"

definition sound_mac :: "mac \<Rightarrow> bool" where
  "sound_mac M \<longleftrightarrow> (\<forall>x. length (sha256 M x) = 32) \<and> (\<forall>k x. length (hmac_sha256 M k x) = 32)"

definition ct_eq :: "bytes \<Rightarrow> bytes \<Rightarrow> bool" where
  "ct_eq a b = (if length a \<noteq> length b then False else foldl (\<lambda>acc (x, y). acc OR (x XOR y)) 0 (zip a b) = 0)"

definition hex_encode :: "bytes \<Rightarrow> bytes" where
  "hex_encode bs = concat (map (\<lambda>b. [hex_digit (unat b div 16), hex_digit (unat b mod 16)]) bs)"

definition hex_decode :: "bytes \<Rightarrow> bytes option" where
  "hex_decode s = (if length s mod 2 \<noteq> 0 then None else radix16_pairs s)"

definition B64 :: bytes where
  "B64 = byte_str ''ABCDEFGHIJKLMNOPQRSTUVWXYZabcdefghijklmnopqrstuvwxyz0123456789+/''"

text \<open>One group of up to three bytes; \<open>n\<close> is the 24-bit number of the source.\<close>

definition b64_num :: "u8 \<Rightarrow> u8 \<Rightarrow> u8 \<Rightarrow> u32" where
  "b64_num b0 b1 b2 = push_bit 16 (ucast b0) OR push_bit 8 (ucast b1) OR ucast b2"

definition b64_char :: "u32 \<Rightarrow> nat \<Rightarrow> u8" where
  "b64_char n k = B64 ! unat (drop_bit k n AND 63)"

fun b64_encode :: "bytes \<Rightarrow> bytes" where
  "b64_encode [] = []"
| "b64_encode [b0] = (let n = b64_num b0 0 0 in [b64_char n 18, b64_char n 12, 61, 61])"
| "b64_encode [b0, b1] = (let n = b64_num b0 b1 0 in [b64_char n 18, b64_char n 12, b64_char n 6, 61])"
| "b64_encode (b0 # b1 # b2 # r) =
    (let n = b64_num b0 b1 b2 in [b64_char n 18, b64_char n 12, b64_char n 6, b64_char n 0] @ b64_encode r)"

definition b64_val :: "u8 \<Rightarrow> u8 option" where
  "b64_val c =
    (if 65 \<le> c \<and> c \<le> 90 then Some (c - 65)
     else if 97 \<le> c \<and> c \<le> 122 then Some (c - 97 + 26)
     else if 48 \<le> c \<and> c \<le> 57 then Some (c - 48 + 52)
     else if c = 43 then Some 62
     else if c = 47 then Some 63
     else None)"

definition b64_opt :: "u8 \<Rightarrow> u8 option" where
  "b64_opt c = (if c = 61 then Some 0 else b64_val c)"

fun b64_groups :: "bytes \<Rightarrow> bytes option" where
  "b64_groups (r0 # r1 # r2 # r3 # r) =
    Option.bind (b64_val r0) (\<lambda>v0.
    Option.bind (b64_val r1) (\<lambda>v1.
    Option.bind (b64_opt r2) (\<lambda>v2.
    Option.bind (b64_opt r3) (\<lambda>v3.
    Option.bind (b64_groups r) (\<lambda>out.
    Some ([push_bit 2 v0 OR drop_bit 4 v1] @
          (if r2 \<noteq> 61 then [push_bit 4 v1 OR drop_bit 2 v2] else []) @
          (if r3 \<noteq> 61 then [push_bit 6 v2 OR v3] else []) @ out))))))"
| "b64_groups _ = Some []"

definition b64_decode :: "bytes \<Rightarrow> bytes option" where
  "b64_decode s0 = (let s = trim s0 in if length s mod 4 \<noteq> 0 then None else b64_groups s)"

section \<open>Comparison\<close>

lemma foldl_or_xor: "foldl (\<lambda>acc (x, y). acc OR (x XOR y)) a ps = (0 :: u8) \<longleftrightarrow> a = 0 \<and> (\<forall>(x, y) \<in> set ps. x = y)"
proof (induction ps arbitrary: a)
  case (Cons p ps)
  have "a OR b = 0 \<longleftrightarrow> a = 0 \<and> b = 0" for a b :: u8 by (simp add: or_eq_0_iff)
  moreover have "x XOR y = 0 \<longleftrightarrow> x = y" for x y :: u8 by (auto simp: bit_eq_iff bit_xor_iff)
  ultimately show ?case using Cons by (cases p) auto
qed simp

lemma ct_eq_iff [simp]: "ct_eq a b \<longleftrightarrow> a = b"
  by (auto simp: ct_eq_def foldl_or_xor list_eq_iff_zip_eq)

section \<open>Hex and base64\<close>

lemma hex_decode_encode [simp]: "hex_decode (hex_encode bs) = Some bs"
proof -
  have "length (hex_encode bs) = 2 * length bs" by (induction bs) (simp_all add: hex_encode_def)
  then show ?thesis using radix16_pairs_digits [of bs] by (simp add: hex_decode_def hex_encode_def)
qed

lemma b64_values: "map b64_val B64 = map (\<lambda>n. Some (word_of_nat n)) [0..<64]" "61 \<notin> set B64"
  by code_simp+

lemma b64_table: "n < 64 \<Longrightarrow> b64_val (B64 ! n) = Some (word_of_nat n) \<and> B64 ! n \<noteq> 61"
proof -
  assume n: "n < 64"
  have l: "length B64 = 64" using arg_cong [OF b64_values(1), of length] by simp
  have "b64_val (B64 ! n) = map b64_val B64 ! n" using n l by simp
  also have "\<dots> = Some (word_of_nat n)" unfolding b64_values(1) using n by simp
  moreover have "B64 ! n \<in> set B64" using n l by simp
  ultimately show ?thesis using b64_values(2) by metis
qed

lemma b64_char_val: "b64_val (b64_char n k) = Some (ucast (take_bit 6 (drop_bit k n)))" "b64_char n k \<noteq> 61"
proof -
  let ?w = "drop_bit k n AND 63"
  have w: "?w = take_bit 6 (drop_bit k n)" by (simp add: take_bit_eq_mask mask_numeral)
  then have "unat ?w < 64" by (simp add: unsigned_take_bit_eq take_bit_nat_less_exp [of 6, simplified])
  then have "b64_val (B64 ! unat ?w) = Some (word_of_nat (unat ?w))" "B64 ! unat ?w \<noteq> 61"
    using b64_table [of "unat ?w"] by simp_all
  then show "b64_val (b64_char n k) = Some (ucast (take_bit 6 (drop_bit k n)))" "b64_char n k \<noteq> 61"
    unfolding b64_char_def w by (simp_all add: unsigned_of_nat)
qed

lemma b64_bytes:
  fixes b0 b1 b2 :: u8
  shows "push_bit 2 (ucast (take_bit 6 (drop_bit 18 (b64_num b0 b1 b2)))) OR drop_bit 4 (ucast (take_bit 6 (drop_bit 12 (b64_num b0 b1 b2)))) = b0"
    "push_bit 4 (ucast (take_bit 6 (drop_bit 12 (b64_num b0 b1 b2)))) OR drop_bit 2 (ucast (take_bit 6 (drop_bit 6 (b64_num b0 b1 b2)))) = b1"
    "push_bit 6 (ucast (take_bit 6 (drop_bit 6 (b64_num b0 b1 b2)))) OR ucast (take_bit 6 (drop_bit 0 (b64_num b0 b1 b2))) = b2"
proof -
  have high: "8 \<le> k \<Longrightarrow> \<not> bit b k" for b :: u8 and k using bit_imp_le_length [of b k] by auto
  have all: "P i" if "i < 8" "P 0" "P 1" "P 2" "P 3" "P 4" "P 5" "P 6" "P 7" for P and i :: nat
  proof -
    have "i = 0 \<or> i = 1 \<or> i = 2 \<or> i = 3 \<or> i = 4 \<or> i = 5 \<or> i = 6 \<or> i = 7" using that(1) by arith
    then show ?thesis using that(2-) by (elim disjE) simp_all
  qed
  show "push_bit 2 (ucast (take_bit 6 (drop_bit 18 (b64_num b0 b1 b2)))) OR drop_bit 4 (ucast (take_bit 6 (drop_bit 12 (b64_num b0 b1 b2)))) = b0"
    by (rule bit_word_eqI, simp) (erule all; simp add: bit_simps b64_num_def high)
  show "push_bit 4 (ucast (take_bit 6 (drop_bit 12 (b64_num b0 b1 b2)))) OR drop_bit 2 (ucast (take_bit 6 (drop_bit 6 (b64_num b0 b1 b2)))) = b1"
    by (rule bit_word_eqI, simp) (erule all; simp add: bit_simps b64_num_def high)
  show "push_bit 6 (ucast (take_bit 6 (drop_bit 6 (b64_num b0 b1 b2)))) OR ucast (take_bit 6 (drop_bit 0 (b64_num b0 b1 b2))) = b2"
    by (rule bit_word_eqI, simp) (erule all; simp add: bit_simps b64_num_def high)
qed

lemma b64_groups_encode: "b64_groups (b64_encode bs) = Some bs"
proof (induction bs rule: b64_encode.induct)
  case (2 b0)
  show ?case using b64_bytes(1) [of b0 0 0] by (simp add: Let_def b64_char_val b64_opt_def)
next
  case (3 b0 b1)
  show ?case using b64_bytes(1,2) [of b0 b1 0] by (simp add: Let_def b64_char_val b64_opt_def)
next
  case (4 b0 b1 b2 r)
  then show ?case using b64_bytes [of b0 b1 b2] by (simp add: Let_def b64_char_val b64_opt_def)
qed simp

end
