(* ===== verification/Sigv4.thy ===== *)
theory Sigv4
  imports Http1 Hmac_Codec "HOL-Library.Product_Lexorder"
begin

text \<open>
  \<open>nas-gateway/src/sigv4.rs\<close>: AWS Signature Version 4. Signing builds the canonical request from the
  usual headers; verifying rebuilds it from the headers the \<open>Authorization\<close> header lists. A literal
  of the source is a byte string; slicing a \<open>str\<close> inside a character panics, which is \<open>None\<close> here.
\<close>

definition UNSIGNED :: bytes where "UNSIGNED = byte_str ''UNSIGNED-PAYLOAD''"

definition ALGORITHM :: bytes where "ALGORITHM = byte_str ''AWS4-HMAC-SHA256''"

record creds =
  access_key_id :: bytes
  secret_access_key :: bytes

datatype auth_error =
    AuthMissing
  | AuthMalformed string
  | UnknownKey
  | AuthBadSignature
  | PayloadHash

record signed_request =
  sq_method :: bytes
  sq_path :: bytes
  sq_query :: bytes
  sq_headers :: "(bytes, bytes) btreemap"
  sq_body :: bytes

definition http_header :: "(bytes, bytes) btreemap \<Rightarrow> bytes \<Rightarrow> bytes option" where
  "http_header headers name = btm_get headers (to_ascii_lowercase name)"

definition amz_date :: "(bytes, bytes) btreemap \<Rightarrow> bytes option" where
  "amz_date headers =
    (case http_header headers (byte_str ''x-amz-date'') of
       Some d \<Rightarrow> Some d
     | None \<Rightarrow> http_header headers (byte_str ''date''))"

definition signing_sig :: "mac \<Rightarrow> creds \<Rightarrow> bytes \<Rightarrow> bytes \<Rightarrow> bytes \<Rightarrow> bytes" where
  "signing_sig M c short_date region sts =
    (let k = byte_str ''AWS4'' @ secret_access_key c;
         k_date = hmac_sha256 M k short_date;
         k_region = hmac_sha256 M k_date region;
         k_service = hmac_sha256 M k_region (byte_str ''s3'');
         k_signing = hmac_sha256 M k_service (byte_str ''aws4_request'')
     in hmac_sha256 M k_signing sts)"

definition string_to_sign :: "mac \<Rightarrow> bytes \<Rightarrow> bytes \<Rightarrow> bytes \<Rightarrow> bytes" where
  "string_to_sign M date scope canon =
    ALGORITHM @ [10] @ date @ [10] @ scope @ [10] @ hex_encode (sha256 M canon)"

definition payload_hash :: "mac \<Rightarrow> signed_request \<Rightarrow> auth_error + bytes" where
  "payload_hash M req =
    (case http_header (sq_headers req) (byte_str ''x-amz-content-sha256'') of
       None \<Rightarrow> Ok (hex_encode (sha256 M (sq_body req)))
     | Some hex \<Rightarrow>
         if hex = UNSIGNED then Ok UNSIGNED
         else if length hex = 64 then
           rbind (ok_or (hex_decode hex) PayloadHash) (\<lambda>want.
           if \<not> ct_eq want (sha256 M (sq_body req)) then Err PayloadHash
           else Ok (to_ascii_lowercase hex))
         else Err PayloadHash)"

definition unreserved :: "u8 \<Rightarrow> bool" where
  "unreserved b \<longleftrightarrow> 65 \<le> b \<and> b \<le> 90 \<or> 97 \<le> b \<and> b \<le> 122 \<or> 48 \<le> b \<and> b \<le> 57 \<or> b = 45 \<or> b = 95 \<or> b = 46 \<or> b = 126"

definition uri_encode :: "bytes \<Rightarrow> bool \<Rightarrow> bytes" where
  "uri_encode s encode_slash =
    concat (map (\<lambda>b.
      if unreserved b then [b]
      else if b = 47 \<and> \<not> encode_slash then [47]
      else 37 # to_ascii_uppercase (hex_encode [b])) s)"

definition decode_component :: "bytes \<Rightarrow> bytes" where
  "decode_component s = percent_decode (map (\<lambda>b. if b = 43 then 32 else b) s)"

definition query_pair :: "bytes \<Rightarrow> bytes \<times> bytes" where
  "query_pair p =
    (case split_once 61 p of
       Some (k, v) \<Rightarrow> (uri_encode (decode_component k) True, uri_encode (decode_component v) True)
     | None \<Rightarrow> (uri_encode (decode_component p) True, []))"

definition canonical_query :: "bytes \<Rightarrow> bytes" where
  "canonical_query query =
    (if query = [] then []
     else let parts = map query_pair (filter (\<lambda>p. p \<noteq> []) (split_on 38 query))
       in join_with [38] (map (\<lambda>(k, v). k @ [61] @ v) (sort parts)))"

definition canon_line :: "bytes \<Rightarrow> bytes \<Rightarrow> bytes" where
  "canon_line k v = k @ [58] @ v @ [10]"

definition canonical_path :: "bytes \<Rightarrow> bytes" where
  "canonical_path p = (let path = uri_encode p False in if path = [] then [47] else path)"

text \<open>The layout both canonical forms share.\<close>

definition canon_text :: "bytes \<Rightarrow> bytes \<Rightarrow> bytes \<Rightarrow> bytes \<Rightarrow> bytes \<Rightarrow> bytes \<Rightarrow> bytes" where
  "canon_text method path query canon_headers hnames payload =
    to_ascii_uppercase method @ [10] @ path @ [10] @ query @ [10] @ canon_headers @ [10] @ hnames @ [10] @ payload"

definition SIGNED_SET :: "bytes list" where
  "SIGNED_SET = [byte_str ''host'', byte_str ''x-amz-date'', byte_str ''x-amz-content-sha256'', byte_str ''content-type'',
     byte_str ''range'']"

definition canonical :: "mac \<Rightarrow> signed_request \<Rightarrow> bytes \<times> bytes \<times> bytes" where
  "canonical M req =
    (let payload = (case payload_hash M req of Inr p \<Rightarrow> p | Inl _ \<Rightarrow> hex_encode (sha256 M (sq_body req)));
         hnames = filter (\<lambda>k. k \<in> set SIGNED_SET) (map fst (sq_headers req));
         signed_str = join_with [59] hnames;
         canon_headers = concat (map (\<lambda>k.
           canon_line k (case btm_get (sq_headers req) k of Some v \<Rightarrow> trim v | None \<Rightarrow> [])) hnames)
     in (canon_text (sq_method req) (canonical_path (sq_path req)) (canonical_query (sq_query req)) canon_headers signed_str payload,
         signed_str, payload))"

definition canonical_with_signed :: "signed_request \<Rightarrow> bytes list \<Rightarrow> bytes \<Rightarrow> bytes" where
  "canonical_with_signed req hnames payload =
    canon_text (sq_method req) (canonical_path (sq_path req)) (canonical_query (sq_query req))
      (concat (map (\<lambda>k. canon_line (to_ascii_lowercase k)
         (trim (case http_header (sq_headers req) k of Some v \<Rightarrow> v | None \<Rightarrow> []))) hnames))
      (join_with [59] hnames) payload"

definition is_char_boundary :: "bytes \<Rightarrow> nat \<Rightarrow> bool" where
  "is_char_boundary s n \<longleftrightarrow> n = length s \<or> n < length s \<and> \<not> utf8_cont (s ! n)"

definition scope_of :: "bytes \<Rightarrow> bytes \<Rightarrow> bytes" where
  "scope_of short region = short @ [47] @ region @ byte_str ''/s3/aws4_request''"

definition sign_request :: "mac \<Rightarrow> creds \<Rightarrow> bytes \<Rightarrow> signed_request \<Rightarrow> bytes option" where
  "sign_request M c region req =
    (let (canon, signed_str, _) = canonical M req;
         date = (case amz_date (sq_headers req) of Some d \<Rightarrow> d | None \<Rightarrow> byte_str ''19700101T000000Z'');
         n = min 8 (length date)
     in if \<not> is_char_boundary date n then None
        else let short = take n date;
                 scope = scope_of short region;
                 sts = string_to_sign M date scope canon;
                 sig = hex_encode (signing_sig M c short region sts)
             in Some (ALGORITHM @ byte_str '' Credential='' @ access_key_id c @ [47] @ scope @
                      byte_str '', SignedHeaders='' @ signed_str @ byte_str '', Signature='' @ sig))"

section \<open>Verifying\<close>

record auth_parts =
  au_access_key :: bytes
  au_short_date :: bytes
  au_region :: bytes
  au_signed :: "bytes list"
  au_signature :: bytes

definition credential :: "bytes \<Rightarrow> auth_error + (bytes \<times> bytes \<times> bytes)" where
  "credential c =
    (case split_on 47 c of
       [ak, date, region, service, final] \<Rightarrow>
         if service = byte_str ''s3'' \<and> final = byte_str ''aws4_request'' then Ok (ak, date, region)
         else Err (AuthMalformed ''credential scope'')
     | _ \<Rightarrow> Err (AuthMalformed ''credential scope''))"

text \<open>The loop of \<open>parse_authorization\<close>: the credential with its three parts, the signed headers and the signature seen so far.\<close>

fun auth_loop ::
  "bytes list \<Rightarrow> (bytes \<times> bytes \<times> bytes) option \<Rightarrow> bytes list option \<Rightarrow> bytes option \<Rightarrow>
    auth_error + (bytes \<times> bytes \<times> bytes) option \<times> bytes list option \<times> bytes option" where
  "auth_loop [] cred hnames sig = Ok (cred, hnames, sig)"
| "auth_loop (part0 # parts) cred hnames sig =
    (let part = trim part0 in
     case strip_prefix (byte_str ''Credential='') part of
       Some c \<Rightarrow>
         rbind (credential c) (\<lambda>cr. auth_loop parts (Some cr) hnames sig)
     | None \<Rightarrow>
         (case strip_prefix (byte_str ''SignedHeaders='') part of
            Some s \<Rightarrow> auth_loop parts cred (Some (split_on 59 s)) sig
          | None \<Rightarrow>
              (case strip_prefix (byte_str ''Signature='') part of
                 Some s \<Rightarrow> auth_loop parts cred hnames (Some s)
               | None \<Rightarrow> auth_loop parts cred hnames sig)))"

definition parse_authorization :: "bytes \<Rightarrow> auth_error + auth_parts" where
  "parse_authorization value0 =
    rbind (ok_or (strip_prefix ALGORITHM value0) (AuthMalformed ''algorithm'')) (\<lambda>rest0.
    rbind (auth_loop (split_on 44 (trim rest0)) None None None) (\<lambda>(cred0, signed0, sig0).
    rbind (ok_or cred0 (AuthMalformed ''credential'')) (\<lambda>(ak, date, region).
    rbind (ok_or signed0 (AuthMalformed ''signed headers'')) (\<lambda>hnames.
    rbind (ok_or sig0 (AuthMalformed ''signature'')) (\<lambda>sig.
    Ok \<lparr>au_access_key = ak, au_short_date = date, au_region = region, au_signed = hnames, au_signature = sig\<rparr>)))))"

definition verify_request :: "mac \<Rightarrow> creds \<Rightarrow> signed_request \<Rightarrow> auth_error + unit" where
  "verify_request M c req =
    rbind (ok_or (http_header (sq_headers req) (byte_str ''authorization'')) AuthMissing) (\<lambda>auth.
    rbind (parse_authorization auth) (\<lambda>parts.
    if au_access_key parts \<noteq> access_key_id c then Err UnknownKey
    else rbind (payload_hash M req) (\<lambda>payload.
    rbind (ok_or (amz_date (sq_headers req)) (AuthMalformed ''x-amz-date'')) (\<lambda>date.
    if \<not> starts_with date (au_short_date parts) then Err (AuthMalformed ''date mismatch'')
    else
      let scope = scope_of (au_short_date parts) (au_region parts);
          canon = canonical_with_signed req (au_signed parts) payload;
          sts = string_to_sign M date scope canon;
          expect = signing_sig M c (au_short_date parts) (au_region parts) sts
      in rbind (ok_or (hex_decode (au_signature parts)) (AuthMalformed ''signature hex'')) (\<lambda>got.
         if \<not> ct_eq expect got then Err AuthBadSignature else Ok ())))))"

section \<open>Percent encoding\<close>

lemma percent_bytes_other: "b \<noteq> 37 \<Longrightarrow> percent_bytes (b # r) = b # percent_bytes r"
  by (cases r; cases "tl r") auto

lemma upper_digit_table:
  "\<forall>n \<in> set [0..<16]. radix16_digit (ascii_upper (hex_digit n)) = Some (word_of_nat n) \<and> ascii_upper (hex_digit n) \<noteq> 43 \<and>
    unreserved (ascii_upper (hex_digit n))"
  by code_simp

lemma nibble_bounds: "unat (b :: u8) div 16 < 16" "unat (b :: u8) mod 16 < 16"
  using unat_less_pow [of b] by (simp_all add: div_less_iff_less_mult)

lemma upper_hex: "to_ascii_uppercase (hex_encode [b]) = [ascii_upper (hex_digit (unat b div 16)), ascii_upper (hex_digit (unat b mod 16))]"
  by (simp add: hex_encode_def to_ascii_uppercase_def)

lemma radix16_upper: "radix16_u8 (ascii_upper (hex_digit (unat b div 16))) (ascii_upper (hex_digit (unat b mod 16))) = Some b"
proof -
  have "of_nat (unat b div 16) * 16 + of_nat (unat b mod 16) = (of_nat (unat b div 16 * 16 + unat b mod 16) :: u8)"
    by (simp only: of_nat_add of_nat_mult of_nat_numeral)
  then show ?thesis
    using upper_digit_table [rule_format, of "unat b div 16"] upper_digit_table [rule_format, of "unat b mod 16"] nibble_bounds [of b]
    by (simp add: radix16_u8_def)
qed

lemma percent_uri_encode: "percent_bytes (uri_encode s f) = s"
proof (induction s)
  case (Cons b s)
  have "uri_encode (b # s) f = (if unreserved b then [b] else if b = 47 \<and> \<not> f then [47] else 37 # to_ascii_uppercase (hex_encode [b])) @ uri_encode s f"
    by (simp add: uri_encode_def)
  moreover have "unreserved b \<Longrightarrow> b \<noteq> 37" by (auto simp: unreserved_def)
  ultimately show ?case using Cons by (auto simp: percent_bytes_other upper_hex radix16_upper)
qed (simp add: uri_encode_def)

lemma uri_encode_inj: "uri_encode s f = uri_encode t f \<longleftrightarrow> s = t"
  using percent_uri_encode by metis

lemma percent_decode_uri_encode: "from_utf8_ok s \<Longrightarrow> percent_decode (uri_encode s f) = s"
  by (simp add: percent_decode_def decode_path_def percent_uri_encode lossy_of_valid)

definition uri_char :: "u8 \<Rightarrow> bool" where "uri_char b \<longleftrightarrow> unreserved b \<or> b = 37 \<or> b = 47"

lemma uri_encode_chars: "b \<in> set (uri_encode s f) \<Longrightarrow> uri_char b"
  using upper_digit_table nibble_bounds by (auto simp: uri_encode_def uri_char_def upper_hex split: if_splits)

lemma uri_char_not [simp]: "\<not> uri_char 10" "\<not> uri_char 38" "\<not> uri_char 61"
  by (auto simp: uri_char_def unreserved_def)

lemma join_with_not: "c \<notin> set sep \<Longrightarrow> \<forall>p \<in> set ps. c \<notin> set p \<Longrightarrow> c \<notin> set (join_with sep ps)"
  by (induction sep ps rule: join_with.induct) auto

lemma uri_encode_not [simp]: "10 \<notin> set (uri_encode s f)" "38 \<notin> set (uri_encode s f)" "61 \<notin> set (uri_encode s f)"
  using uri_encode_chars uri_char_not by blast+

lemma query_pair_one_line: "10 \<notin> set (fst (query_pair p))" "10 \<notin> set (snd (query_pair p))"
  by (auto simp: query_pair_def split: option.split)

lemma canonical_query_one_line: "10 \<notin> set (canonical_query q)"
proof -
  have "10 \<notin> set (join_with [38] (map (\<lambda>(k, v). k @ [61] @ v) (sort (map query_pair ps))))" for ps
    by (rule join_with_not) (auto simp: query_pair_one_line split_beta)
  then show ?thesis unfolding canonical_query_def Let_def by simp
qed

lemma canonical_path_one_line: "10 \<notin> set (canonical_path p)"
  by (simp add: canonical_path_def Let_def)

text \<open>The path is determined up to the empty one, which stands for the root.\<close>

lemma canonical_path_inj: "canonical_path p = canonical_path q \<Longrightarrow> p = q \<or> {p, q} = {[], [47]}"
proof -
  have nil: "uri_encode p False = [] \<longleftrightarrow> p = []" for p
    using uri_encode_inj [of p False "[]"] by (simp add: uri_encode_def)
  have root: "uri_encode p False = [47] \<longleftrightarrow> p = [47]" for p
    using uri_encode_inj [of p False "[47]"] by (simp add: uri_encode_def unreserved_def)
  assume "canonical_path p = canonical_path q"
  then show ?thesis
    using uri_encode_inj [of p False q] by (auto simp: canonical_path_def Let_def nil root split: if_splits) (metis root)+
qed

section \<open>The canonical request says what was signed\<close>

lemma split_on_lines:
  "\<forall>l \<in> set ls. c \<notin> set l \<Longrightarrow> split_on c (concat (map (\<lambda>l. l @ [c]) ls) @ r) = ls @ split_on c r"
  by (induction ls) (simp_all add: split_on_append)

text \<open>What the request contributes to a canonical line: no line break.\<close>

definition one_line_headers :: "signed_request \<Rightarrow> bool" where
  "one_line_headers req \<longleftrightarrow> 10 \<notin> set (sq_method req) \<and> (\<forall>(k, v) \<in> set (sq_headers req). 10 \<notin> set v)"

definition header_value :: "signed_request \<Rightarrow> bytes \<Rightarrow> bytes" where
  "header_value req k = trim (case http_header (sq_headers req) k of Some v \<Rightarrow> v | None \<Rightarrow> [])"

lemma header_value_one_line: "one_line_headers req \<Longrightarrow> 10 \<notin> set (header_value req k)"
proof -
  assume "one_line_headers req"
  then have "10 \<notin> set (case http_header (sq_headers req) k of Some v \<Rightarrow> v | None \<Rightarrow> [])"
    by (cases "http_header (sq_headers req) k") (auto simp: one_line_headers_def http_header_def dest!: map_of_SomeD)
  then show ?thesis using set_trim unfolding header_value_def by blast
qed

lemma ascii_case_ten: "ascii_upper b = 10 \<longleftrightarrow> b = 10" "ascii_lower b = 10 \<longleftrightarrow> b = 10"
  by (auto simp: ascii_upper_def ascii_lower_def diff_eq_eq eq_diff_eq [symmetric])

lemma ascii_case_line: "10 \<in> set (to_ascii_uppercase s) \<longleftrightarrow> 10 \<in> set s" "10 \<in> set (to_ascii_lowercase s) \<longleftrightarrow> 10 \<in> set s"
  unfolding to_ascii_uppercase_def to_ascii_lowercase_def set_map image_iff using ascii_case_ten by metis+

lemma canonical_lines:
  assumes "one_line_headers req" "\<forall>k \<in> set names. 10 \<notin> set k" "10 \<notin> set payload"
  shows "split_on 10 (canonical_with_signed req names payload) =
    [to_ascii_uppercase (sq_method req), canonical_path (sq_path req), canonical_query (sq_query req)] @
    map (\<lambda>k. to_ascii_lowercase k @ [58] @ header_value req k) names @ [[], join_with [59] names, payload]"
proof -
  have hs: "concat (map (\<lambda>k. canon_line (to_ascii_lowercase k) (header_value req k)) names) =
      concat (map (\<lambda>l. l @ [10]) (map (\<lambda>k. to_ascii_lowercase k @ [58] @ header_value req k) names))"
    by (simp add: canon_line_def comp_def)
  have lines: "\<forall>l \<in> set (map (\<lambda>k. to_ascii_lowercase k @ [58] @ header_value req k) names). 10 \<notin> set l"
    using assms header_value_one_line by (auto simp: ascii_case_line)
  have names: "10 \<notin> set (join_with [59] names)" using assms(2) by (intro join_with_not) auto
  have m: "10 \<notin> set (to_ascii_uppercase (sq_method req))" using assms(1) by (simp add: one_line_headers_def ascii_case_line)
  have "split_on 10 (concat (map (\<lambda>k. canon_line (to_ascii_lowercase k) (header_value req k)) names) @ 10 # join_with [59] names @ 10 # payload) =
      map (\<lambda>k. to_ascii_lowercase k @ [58] @ header_value req k) names @ [[], join_with [59] names, payload]"
    unfolding hs split_on_lines [OF lines] using assms(3) names by (simp add: split_on_append)
  then show ?thesis
    using m unfolding canonical_with_signed_def canon_text_def header_value_def [symmetric]
    by (simp add: split_on_append canonical_query_one_line canonical_path_one_line)
qed

lemma canonical_inj:
  assumes "canonical_with_signed r1 names p1 = canonical_with_signed r2 names p2"
    and "one_line_headers r1" "one_line_headers r2" "\<forall>k \<in> set names. 10 \<notin> set k" "10 \<notin> set p1" "10 \<notin> set p2"
  shows "to_ascii_uppercase (sq_method r1) = to_ascii_uppercase (sq_method r2)"
    "canonical_path (sq_path r1) = canonical_path (sq_path r2)"
    "canonical_query (sq_query r1) = canonical_query (sq_query r2)"
    "\<forall>k \<in> set names. header_value r1 k = header_value r2 k" "p1 = p2"
proof -
  have "[to_ascii_uppercase (sq_method r1), canonical_path (sq_path r1), canonical_query (sq_query r1)] @
    map (\<lambda>k. to_ascii_lowercase k @ [58] @ header_value r1 k) names @ [[], join_with [59] names, p1] =
    [to_ascii_uppercase (sq_method r2), canonical_path (sq_path r2), canonical_query (sq_query r2)] @
    map (\<lambda>k. to_ascii_lowercase k @ [58] @ header_value r2 k) names @ [[], join_with [59] names, p2]"
    using canonical_lines [OF assms(2,4,5)] canonical_lines [OF assms(3,4,6)] assms(1) by metis
  then show "to_ascii_uppercase (sq_method r1) = to_ascii_uppercase (sq_method r2)"
    "canonical_path (sq_path r1) = canonical_path (sq_path r2)"
    "canonical_query (sq_query r1) = canonical_query (sq_query r2)"
    "\<forall>k \<in> set names. header_value r1 k = header_value r2 k" "p1 = p2"
    by auto
qed

lemma header_one_line: "one_line_headers req \<Longrightarrow> http_header (sq_headers req) k = Some v \<Longrightarrow> 10 \<notin> set v"
  by (auto simp: one_line_headers_def http_header_def dest!: map_of_SomeD)

section \<open>What a payload hash and a signature bind\<close>

lemma hex_encode_chars: "10 \<notin> set (hex_encode bs)"
proof -
  have "\<forall>n \<in> set [0..<16]. hex_digit n \<noteq> 10" by code_simp
  then show ?thesis using nibble_bounds by (fastforce simp: hex_encode_def)
qed

lemma length_hex_encode: "length (hex_encode bs) = 2 * length bs"
  by (induction bs) (simp_all add: hex_encode_def)

lemma lower_digit_table:
  "\<forall>n \<in> set [65..<91]. radix16_digit (word_of_nat n + 32) = radix16_digit (word_of_nat n) \<and> word_of_nat n + 32 \<noteq> (43 :: u8)"
  by code_simp

lemma lower_digit:
  "65 \<le> n \<Longrightarrow> n \<le> 90 \<Longrightarrow> radix16_digit (word_of_nat n + 32) = radix16_digit (word_of_nat n) \<and> word_of_nat n + 32 \<noteq> (43 :: u8)"
  using lower_digit_table by (simp del: upt_Suc upt_rec_numeral)

lemma length_UNSIGNED: "length UNSIGNED = 16"
  by (simp add: UNSIGNED_def)

lemma radix16_lower: "radix16_pairs (to_ascii_lowercase s) = radix16_pairs s"
proof -
  have digit: "radix16_digit (ascii_lower c) = radix16_digit c" "(ascii_lower c = 43) = (c = 43)" for c
    using lower_digit [of "unat c"] by (auto simp: ascii_lower_def word_le_nat_alt)
  have u8: "radix16_u8 (ascii_lower h) (ascii_lower l) = radix16_u8 h l" for h l
    by (simp add: radix16_u8_def digit)
  show ?thesis
  proof (induction s rule: radix16_pairs.induct)
    case (1 h l r)
    then show ?case by (cases "radix16_u8 h l") (simp_all add: to_ascii_lowercase_def u8)
  qed (simp_all add: to_ascii_lowercase_def)
qed

lemma payload_hash_cases:
  assumes "sound_mac M" "payload_hash M req = Ok p"
  obtains "p = UNSIGNED" "http_header (sq_headers req) (byte_str ''x-amz-content-sha256'') = Some UNSIGNED"
  | "p \<noteq> UNSIGNED" "hex_decode p = Some (sha256 M (sq_body req))"
proof (cases "http_header (sq_headers req) (byte_str ''x-amz-content-sha256'')")
  case None
  then have "p = hex_encode (sha256 M (sq_body req))" using assms(2) by (simp add: payload_hash_def)
  moreover from this have "length p = 64" using assms(1) by (simp add: length_hex_encode sound_mac_def)
  ultimately show ?thesis using that(2) length_UNSIGNED by fastforce
next
  case (Some hex)
  show ?thesis
  proof (cases "hex = UNSIGNED")
    case True
    then show ?thesis using that(1) Some assms(2) by (simp add: payload_hash_def)
  next
    case False
    then have h: "length hex = 64" "hex_decode hex = Some (sha256 M (sq_body req))" "p = to_ascii_lowercase hex"
      using Some assms(2) by (auto simp: payload_hash_def ok_or_def split: if_splits option.splits)
    then have "hex_decode p = Some (sha256 M (sq_body req))"
      by (simp add: hex_decode_def radix16_lower) (simp add: to_ascii_lowercase_def)
    moreover have "length p = 64" using h by (simp add: to_ascii_lowercase_def)
    ultimately show ?thesis using that(2) length_UNSIGNED by fastforce
  qed
qed

lemma payload_one_line: "one_line_headers req \<Longrightarrow> payload_hash M req = Ok p \<Longrightarrow> 10 \<notin> set p"
proof -
  assume req: "one_line_headers req" and p: "payload_hash M req = Ok p"
  have u: "10 \<notin> set UNSIGNED" by (simp add: UNSIGNED_def byte_str_def)
  show ?thesis
  proof (cases "http_header (sq_headers req) (byte_str ''x-amz-content-sha256'')")
    case (Some hex)
    then show ?thesis
      using p u header_one_line [OF req Some]
      by (auto simp: payload_hash_def ok_or_def ascii_case_line split: if_splits option.splits)
  qed (use p hex_encode_chars in \<open>auto simp: payload_hash_def\<close>)
qed

lemma auth_loop_names:
  assumes "auth_loop parts cred sn sig = Ok (cred', Some names, sig')" "\<forall>p \<in> set parts. 10 \<notin> set p"
    "\<forall>ns. sn = Some ns \<longrightarrow> (\<forall>k \<in> set ns. 10 \<notin> set k)"
  shows "\<forall>k \<in> set names. 10 \<notin> set k"
  using assms
proof (induction parts arbitrary: cred sn sig)
  case (Cons part0 parts)
  have t: "10 \<notin> set (trim part0)" using Cons(3) set_trim [of part0] by auto
  have names: "\<forall>k \<in> set (split_on 59 s). 10 \<notin> set k" if "trim part0 = p @ s" for p s
    using t that split_on_parts [of _ 59 s] by (metis Un_iff set_append subsetD)
  have rest: "\<forall>p \<in> set parts. 10 \<notin> set p" using Cons(3) by simp
  note IH = Cons(1) [OF _ rest]
  show ?case
  proof (cases "strip_prefix (byte_str ''Credential='') (trim part0)")
    case (Some c)
    then obtain cr where "auth_loop parts (Some cr) sn sig = Ok (cred', Some names, sig')"
      using Cons(2) by (simp only: auth_loop.simps Let_def option.case rbind_Inr_iff) (elim exE conjE)
    then show ?thesis using IH Cons(4) by blast
  next
    case None
    show ?thesis
    proof (cases "strip_prefix (byte_str ''SignedHeaders='') (trim part0)")
      case (Some s)
      then have "auth_loop parts cred (Some (split_on 59 s)) sig = Ok (cred', Some names, sig')" using Cons(2) None by (simp add: Let_def)
      then show ?thesis by (rule IH) (use Some in \<open>auto dest: names [rule_format]\<close>)
    next
      case none: None
      then obtain sig0 where "auth_loop parts cred sn sig0 = Ok (cred', Some names, sig')"
        using Cons(2) None by (cases "strip_prefix (byte_str ''Signature='') (trim part0)") (auto simp: Let_def)
      then show ?thesis using IH Cons(4) by blast
    qed
  qed
qed simp

lemma authorised_names_one_line:
  assumes "parse_authorization auth = Ok parts" "10 \<notin> set auth"
  shows "\<forall>k \<in> set (au_signed parts). 10 \<notin> set k"
proof -
  obtain rest cr sig where rest: "auth = ALGORITHM @ rest"
    and loop: "auth_loop (split_on 44 (trim rest)) None None None = Ok (cr, Some (au_signed parts), sig)"
    using assms(1) by (auto simp: parse_authorization_def result_elims)
  have "10 \<notin> set (trim rest)" using assms(2) rest set_trim [of rest] by auto
  then have "\<forall>p \<in> set (split_on 44 (trim rest)). 10 \<notin> set p" using split_on_parts by blast
  then show ?thesis using auth_loop_names [OF loop] by simp
qed

definition signing_key :: "mac \<Rightarrow> creds \<Rightarrow> auth_parts \<Rightarrow> bytes" where
  "signing_key M c a = hmac_sha256 M (hmac_sha256 M (hmac_sha256 M (hmac_sha256 M (byte_str ''AWS4'' @ secret_access_key c)
     (au_short_date a)) (au_region a)) (byte_str ''s3'')) (byte_str ''aws4_request'')"

definition request_canon :: "mac \<Rightarrow> auth_parts \<Rightarrow> signed_request \<Rightarrow> bytes" where
  "request_canon M a req =
    canonical_with_signed req (au_signed a) (case payload_hash M req of Inr p \<Rightarrow> p | Inl _ \<Rightarrow> [])"

definition request_sts :: "mac \<Rightarrow> auth_parts \<Rightarrow> signed_request \<Rightarrow> bytes" where
  "request_sts M a req =
    string_to_sign M (case amz_date (sq_headers req) of Some d \<Rightarrow> d | None \<Rightarrow> []) (scope_of (au_short_date a) (au_region a))
      (request_canon M a req)"

text \<open>What \<open>verify\<close> accepts, exactly.\<close>

lemma verify_request_iff:
  "verify_request M c req = Ok () \<longleftrightarrow>
    (\<exists>auth a p d. http_header (sq_headers req) (byte_str ''authorization'') = Some auth \<and> parse_authorization auth = Ok a \<and>
      au_access_key a = access_key_id c \<and> payload_hash M req = Ok p \<and> amz_date (sq_headers req) = Some d \<and>
      starts_with d (au_short_date a) \<and> hex_decode (au_signature a) = Some (hmac_sha256 M (signing_key M c a) (request_sts M a req)))"
  (is "?ok \<longleftrightarrow> ?accepts")
proof
  note defs = verify_request_def Let_def request_sts_def request_canon_def signing_key_def signing_sig_def
  show "?ok \<Longrightarrow> ?accepts" by (auto simp: defs result_elims split: if_splits)
  show "?accepts \<Longrightarrow> ?ok" by (auto simp: defs)
qed

text \<open>Two requests whose signed strings collide in the MAC, or whose canonical forms collide in the hash.\<close>

definition signature_collision :: "mac \<Rightarrow> creds \<Rightarrow> auth_parts \<Rightarrow> signed_request \<Rightarrow> signed_request \<Rightarrow> bool" where
  "signature_collision M c a r1 r2 \<longleftrightarrow>
    request_sts M a r1 \<noteq> request_sts M a r2 \<and>
      hmac_sha256 M (signing_key M c a) (request_sts M a r1) = hmac_sha256 M (signing_key M c a) (request_sts M a r2) \<or>
    request_canon M a r1 \<noteq> request_canon M a r2 \<and> sha256 M (request_canon M a r1) = sha256 M (request_canon M a r2)"

text \<open>The requests one signature covers agree on all that is signed, or exhibit a collision of the MAC or the hash.\<close>

lemma same_authorization_binds:
  assumes "sound_mac M" "verify_request M c r1 = Ok ()" "verify_request M c r2 = Ok ()"
    and auth: "http_header (sq_headers r1) (byte_str ''authorization'') = http_header (sq_headers r2) (byte_str ''authorization'')"
    and "one_line_headers r1" "one_line_headers r2"
  obtains a where "parse_authorization (the (http_header (sq_headers r1) (byte_str ''authorization''))) = Ok a"
      "signature_collision M c a r1 r2"
  | a p where "parse_authorization (the (http_header (sq_headers r1) (byte_str ''authorization''))) = Ok a"
      "to_ascii_uppercase (sq_method r1) = to_ascii_uppercase (sq_method r2)"
      "canonical_path (sq_path r1) = canonical_path (sq_path r2)" "canonical_query (sq_query r1) = canonical_query (sq_query r2)"
      "\<forall>k \<in> set (au_signed a). header_value r1 k = header_value r2 k" "amz_date (sq_headers r1) = amz_date (sq_headers r2)"
      "payload_hash M r1 = Ok p" "payload_hash M r2 = Ok p"
proof -
  obtain auth a p1 d1 where r1: "http_header (sq_headers r1) (byte_str ''authorization'') = Some auth" "parse_authorization auth = Ok a"
      "payload_hash M r1 = Ok p1" "amz_date (sq_headers r1) = Some d1"
      "hex_decode (au_signature a) = Some (hmac_sha256 M (signing_key M c a) (request_sts M a r1))"
    using assms(2) unfolding verify_request_iff by blast
  obtain p2 d2 where r2: "payload_hash M r2 = Ok p2" "amz_date (sq_headers r2) = Some d2"
      "hex_decode (au_signature a) = Some (hmac_sha256 M (signing_key M c a) (request_sts M a r2))"
    using assms(3) r1(1,2) auth unfolding verify_request_iff by auto
  have mac: "hmac_sha256 M (signing_key M c a) (request_sts M a r1) = hmac_sha256 M (signing_key M c a) (request_sts M a r2)"
    using r1(5) r2(3) by simp
  show thesis
  proof (cases "request_sts M a r1 = request_sts M a r2")
    case False
    then show ?thesis using that(1) mac r1(1,2) by (auto simp: signature_collision_def)
  next
    case True
    have len: "length (hex_encode (sha256 M x)) = 64" for x using assms(1) by (simp add: length_hex_encode sound_mac_def)
    have "d1 @ [10] @ scope_of (au_short_date a) (au_region a) @ [10] @ hex_encode (sha256 M (request_canon M a r1)) =
        d2 @ [10] @ scope_of (au_short_date a) (au_region a) @ [10] @ hex_encode (sha256 M (request_canon M a r2))" (is "?x = ?y")
      using True r1(4) r2(2) by (simp add: request_sts_def string_to_sign_def)
    moreover from this have "length d1 = length d2" using arg_cong [of ?x ?y length] len by simp
    ultimately have d: "d1 = d2" and h: "hex_encode (sha256 M (request_canon M a r1)) = hex_encode (sha256 M (request_canon M a r2))"
      by simp_all
    have sha: "sha256 M (request_canon M a r1) = sha256 M (request_canon M a r2)" using h hex_decode_encode by (metis option.inject)
    show ?thesis
    proof (cases "request_canon M a r1 = request_canon M a r2")
      case False
      then show ?thesis using that(1) sha r1(1,2) by (auto simp: signature_collision_def)
    next
      case True
      have names: "\<forall>k \<in> set (au_signed a). 10 \<notin> set k"
        using authorised_names_one_line [OF r1(2)] header_one_line [OF assms(5) r1(1)] by blast
      have eq: "canonical_with_signed r1 (au_signed a) p1 = canonical_with_signed r2 (au_signed a) p2"
        using True r1(3) r2(1) by (simp add: request_canon_def)
      note inj = canonical_inj [OF eq assms(5,6) names payload_one_line [OF assms(5) r1(3)] payload_one_line [OF assms(6) r2(1)]]
      show ?thesis using that(2) [of a p1] inj r1 r2 d by simp
    qed
  qed
qed

section \<open>A signed request verifies\<close>

definition with_authorization :: "signed_request \<Rightarrow> bytes \<Rightarrow> signed_request" where
  "with_authorization req auth = req\<lparr>sq_headers := btm_insert (byte_str ''authorization'') auth (sq_headers req)\<rparr>"

lemma with_authorization_fields [simp]:
  "sq_method (with_authorization req auth) = sq_method req" "sq_path (with_authorization req auth) = sq_path req"
  "sq_query (with_authorization req auth) = sq_query req" "sq_body (with_authorization req auth) = sq_body req"
  by (simp_all add: with_authorization_def)

lemma with_authorization_header:
  assumes "btm_inv (sq_headers req)" "to_ascii_lowercase k \<noteq> byte_str ''authorization''"
  shows "http_header (sq_headers (with_authorization req auth)) k = http_header (sq_headers req) k"
  using assms by (simp add: with_authorization_def http_header_def)

lemma lowercase_names [simp]:
  "to_ascii_lowercase (byte_str ''authorization'') = byte_str ''authorization''"
  "to_ascii_lowercase (byte_str ''x-amz-date'') = byte_str ''x-amz-date''"
  "to_ascii_lowercase (byte_str ''date'') = byte_str ''date''"
  "to_ascii_lowercase (byte_str ''x-amz-content-sha256'') = byte_str ''x-amz-content-sha256''"
  by code_simp+

lemma signed_set_facts:
  assumes "k \<in> set SIGNED_SET"
  shows "to_ascii_lowercase k = k" "k \<noteq> byte_str ''authorization''" "\<forall>b \<in> set k. graphic b \<and> b \<noteq> 44 \<and> b \<noteq> 59"
proof -
  have "\<forall>k \<in> set SIGNED_SET. to_ascii_lowercase k = k \<and> k \<noteq> byte_str ''authorization'' \<and> (\<forall>b \<in> set k. graphic b \<and> b \<noteq> 44 \<and> b \<noteq> 59)"
    by code_simp
  then show "to_ascii_lowercase k = k" "k \<noteq> byte_str ''authorization''" "\<forall>b \<in> set k. graphic b \<and> b \<noteq> 44 \<and> b \<noteq> 59"
    using assms by blast+
qed

lemma payload_hash_with_authorization:
  "btm_inv (sq_headers req) \<Longrightarrow> payload_hash M (with_authorization req auth) = payload_hash M req"
  unfolding payload_hash_def
  by (subst with_authorization_header) (simp_all add: with_authorization_def split: option.split)

lemma amz_date_with_authorization:
  "btm_inv (sq_headers req) \<Longrightarrow> amz_date (sq_headers (with_authorization req auth)) = amz_date (sq_headers req)"
  by (simp add: amz_date_def with_authorization_header split: option.split)

lemma canonical_is_verified_form:
  assumes "btm_inv (sq_headers req)" "payload_hash M req = Ok p"
    and "names = filter (\<lambda>k. k \<in> set SIGNED_SET) (map fst (sq_headers req))"
  shows "canonical M req = (canonical_with_signed (with_authorization req auth) names p, join_with [59] names, p)"
proof -
  have lines: "canon_line k (case btm_get (sq_headers req) k of Some v \<Rightarrow> trim v | None \<Rightarrow> []) =
      canon_line (to_ascii_lowercase k) (trim (case http_header (sq_headers (with_authorization req auth)) k of Some v \<Rightarrow> v | None \<Rightarrow> []))"
    if "k \<in> set names" for k
  proof -
    have k: "k \<in> set SIGNED_SET" using that assms(3) by simp
    have "http_header (sq_headers (with_authorization req auth)) k = btm_get (sq_headers req) k"
      using with_authorization_header [OF assms(1), of k auth] signed_set_facts [OF k] by (simp add: http_header_def)
    then show ?thesis using signed_set_facts(1) [OF k] by (simp split: option.split)
  qed
  then have "map (\<lambda>k. canon_line k (case btm_get (sq_headers req) k of Some v \<Rightarrow> trim v | None \<Rightarrow> [])) names =
      map (\<lambda>k. canon_line (to_ascii_lowercase k) (trim (case http_header (sq_headers (with_authorization req auth)) k of Some v \<Rightarrow> v | None \<Rightarrow> []))) names"
    by (intro map_cong) auto
  note eq = this
  show ?thesis
    unfolding canonical_def canonical_with_signed_def Let_def assms(3) [symmetric] assms(2) sum.case eq
    by (simp only: with_authorization_fields)
qed

lemma trim_both: "s \<noteq> [] \<Longrightarrow> t \<noteq> [] \<Longrightarrow> graphic (hd s) \<Longrightarrow> graphic (last t) \<Longrightarrow> trim (s @ m @ t) = s @ m @ t"
  by (intro trim_graphic) auto

lemma hex_encode_graphic: "\<forall>b \<in> set (hex_encode bs). graphic b \<and> b \<noteq> 44"
proof -
  have "\<forall>n \<in> set [0..<16]. graphic (hex_digit n) \<and> hex_digit n \<noteq> 44" by code_simp
  then show ?thesis using nibble_bounds by (fastforce simp: hex_encode_def)
qed

lemma names_join_graphic:
  assumes "set names \<subseteq> set SIGNED_SET"
  shows "\<forall>b \<in> set (join_with [59] names). graphic b \<and> b \<noteq> 44"
proof
  fix b
  assume b: "b \<in> set (join_with [59] names)"
  then have "b = 59 \<or> (\<exists>k \<in> set names. b \<in> set k)" using join_with_not [of b "[59]" names] by auto
  then show "graphic b \<and> b \<noteq> 44" using signed_set_facts(3) assms by (auto simp: graphic_def)
qed

lemma signed_authorization_parses:
  assumes "\<forall>s \<in> {access_key_id c, region, short}. 44 \<notin> set s \<and> 47 \<notin> set s"
    and names: "names \<noteq> []" "set names \<subseteq> set SIGNED_SET" and sig: "sig \<noteq> []" "\<forall>b \<in> set sig. graphic b \<and> b \<noteq> 44"
  shows "parse_authorization (ALGORITHM @ byte_str '' Credential='' @ access_key_id c @ [47] @ scope_of short region @
      byte_str '', SignedHeaders='' @ join_with [59] names @ byte_str '', Signature='' @ sig) =
    Ok \<lparr>au_access_key = access_key_id c, au_short_date = short, au_region = region, au_signed = names, au_signature = sig\<rparr>"
proof -
  let ?C = "byte_str ''Credential=''" and ?H = "byte_str ''SignedHeaders=''" and ?S = "byte_str ''Signature=''"
  let ?cred = "access_key_id c @ [47] @ scope_of short region" and ?names = "join_with [59] names"
  have lits: "byte_str '' Credential='' = 32 # ?C" "byte_str '', SignedHeaders='' = 44 # 32 # ?H" "byte_str '', Signature='' = 44 # 32 # ?S"
    by (simp_all add: byte_str_def)
  have jn: "\<forall>b \<in> set ?names. graphic b \<and> b \<noteq> 44" using names(2) by (rule names_join_graphic)
  have n44: "44 \<notin> set ?C" "44 \<notin> set ?H" "44 \<notin> set ?S" "44 \<notin> set (byte_str ''/s3/aws4_request'')" by (simp_all add: byte_str_def)
  have c44: "44 \<notin> set (?C @ ?cred)" "44 \<notin> set (32 # ?H @ ?names)" "44 \<notin> set (32 # ?S @ sig)"
    using assms(1) jn sig(2) n44 by (auto simp: scope_of_def)
  have g: "graphic (hd ?C)" "graphic (hd ?H)" "graphic (hd ?S)" "graphic (last ?H)" "graphic (last (byte_str ''/s3/aws4_request''))"
    "?C \<noteq> []" "?H \<noteq> []" "?S \<noteq> []" "byte_str ''/s3/aws4_request'' \<noteq> []"
    by (simp_all add: byte_str_def graphic_def)
  have t0: "trim (32 # ?C @ ?cred @ 44 # 32 # ?H @ ?names @ 44 # 32 # ?S @ sig) = ?C @ ?cred @ 44 # 32 # ?H @ ?names @ 44 # 32 # ?S @ sig"
    using sig g by (subst trim_space, intro trim_graphic) auto
  have t1: "trim (?C @ ?cred) = ?C @ ?cred" using g by (intro trim_graphic) (auto simp: scope_of_def)
  have t2: "trim (32 # ?H @ ?names) = ?H @ ?names"
    using g jn by (subst trim_space, intro trim_graphic) (auto simp: last_append)
  have t3: "trim (32 # ?S @ sig) = ?S @ sig" using g sig by (subst trim_space, intro trim_graphic) auto
  have parts: "split_on 44 (?C @ ?cred @ 44 # 32 # ?H @ ?names @ 44 # 32 # ?S @ sig) = [?C @ ?cred, 32 # ?H @ ?names, 32 # ?S @ sig]"
    using split_on_append [OF c44(1)] split_on_append [OF c44(2)] split_on_no [OF c44(3)] by simp
  have cr: "credential ?cred = Ok (access_key_id c, short, region)"
  proof -
    have "?cred = access_key_id c @ 47 # short @ 47 # region @ 47 # byte_str ''s3'' @ 47 # byte_str ''aws4_request''"
      by (simp add: scope_of_def byte_str_def)
    moreover have "47 \<notin> set (byte_str ''s3'')" "47 \<notin> set (byte_str ''aws4_request'')" by (simp_all add: byte_str_def)
    ultimately have "split_on 47 ?cred = [access_key_id c, short, region, byte_str ''s3'', byte_str ''aws4_request'']"
      using assms(1) by (simp add: split_on_append)
    then show ?thesis by (simp add: credential_def)
  qed
  have nn: "split_on 59 ?names = names" using names signed_set_facts(3) by (intro split_on_join) blast+
  have other: "strip_prefix ?C (?H @ x) = None" "strip_prefix ?C (?S @ x) = None" "strip_prefix ?H (?S @ x) = None" for x
    by (simp_all add: strip_prefix_def starts_with_def byte_str_def)
  have "auth_loop [?C @ ?cred, 32 # ?H @ ?names, 32 # ?S @ sig] None None None =
      Ok (Some (access_key_id c, short, region), Some names, Some sig)"
    using t1 t2 t3 cr nn other by (simp add: Let_def)
  then show ?thesis
    unfolding lits parse_authorization_def using t0 parts by simp
qed

text \<open>
  A request signed with the gateway's credentials verifies: for a request that carries its date and
  a payload hash that matches, the \<open>Authorization\<close> header \<open>sign\<close> computes, added to the request, makes
  \<open>verify\<close> accept, whatever the path, the query, the body and the other headers are. Access key, region
  and date may not contain the separators of the header.
\<close>

theorem signed_request_verifies:
  assumes "sound_mac M" "sign_request M c region req = Some auth" "payload_hash M req = Ok p" "btm_inv (sq_headers req)"
    and "http_header (sq_headers req) (byte_str ''x-amz-date'') = Some d"
    and "\<forall>s \<in> {access_key_id c, region, take 8 d}. 44 \<notin> set s \<and> 47 \<notin> set s"
  shows "verify_request M c (with_authorization req auth) = Ok ()"
proof -
  define names where "names = filter (\<lambda>k. k \<in> set SIGNED_SET) (map fst (sq_headers req))"
  have "byte_str ''x-amz-date'' \<in> set (map fst (sq_headers req))"
    using assms(5) by (force simp: http_header_def dest: map_of_SomeD)
  then have "byte_str ''x-amz-date'' \<in> set names" unfolding names_def by (simp add: SIGNED_SET_def)
  then have names: "names \<noteq> []" "set names \<subseteq> set SIGNED_SET" by auto (auto simp: names_def)
  have d: "amz_date (sq_headers req) = Some d" using assms(5) by (simp add: amz_date_def)
  define short where "short = take 8 d"
  define sts where "sts = string_to_sign M d (scope_of short region) (canonical_with_signed (with_authorization req auth) names p)"
  define sig where "sig = hex_encode (signing_sig M c short region sts)"
  have canon: "canonical M req = (canonical_with_signed (with_authorization req auth) names p, join_with [59] names, p)"
    using canonical_is_verified_form [OF assms(4,3) names_def] .
  have short': "take (min 8 (length d)) d = short" by (simp add: short_def min_def)
  have auth: "auth = ALGORITHM @ byte_str '' Credential='' @ access_key_id c @ [47] @ scope_of short region @
      byte_str '', SignedHeaders='' @ join_with [59] names @ byte_str '', Signature='' @ sig"
    using assms(2) unfolding sign_request_def canon d option.case Let_def prod.case short' sig_def sts_def by (simp split: if_splits)
  have sig: "sig \<noteq> []" "\<forall>b \<in> set sig. graphic b \<and> b \<noteq> 44"
    using hex_encode_graphic length_hex_encode [of "signing_sig M c short region sts"] assms(1)
    by (auto simp: sig_def sound_mac_def signing_sig_def Let_def simp flip: length_0_conv)
  have parse: "parse_authorization auth = Ok \<lparr>au_access_key = access_key_id c, au_short_date = short, au_region = region,
      au_signed = names, au_signature = sig\<rparr>"
    unfolding auth by (rule signed_authorization_parses) (use assms(6) names sig short_def in auto)
  have h: "http_header (sq_headers (with_authorization req auth)) (byte_str ''authorization'') = Some auth"
    using assms(4) by (simp add: with_authorization_def http_header_def)
  have "starts_with d short" unfolding starts_with_iff short_def by (metis append_take_drop_id)
  then show ?thesis
    unfolding verify_request_iff
    using h parse d assms(3,4)
    by (simp add: payload_hash_with_authorization amz_date_with_authorization sig_def sts_def signing_sig_def signing_key_def Let_def
        request_sts_def request_canon_def)
qed

definition toy_mac :: mac where
  "toy_mac = \<lparr>sha256 = (\<lambda>x. take 32 (rev x @ replicate 32 0)), hmac_sha256 = (\<lambda>k x. take 32 (rev x @ k @ replicate 32 0))\<rparr>"

lemma toy_mac_sound: "sound_mac toy_mac"
  by (auto simp: sound_mac_def toy_mac_def min_def)

definition toy_creds :: creds where
  "toy_creds = \<lparr>access_key_id = byte_str ''AKID'', secret_access_key = byte_str ''secret''\<rparr>"

definition toy_signed :: signed_request where
  "toy_signed = \<lparr>sq_method = byte_str ''PUT'', sq_path = byte_str ''/photos/a b'', sq_query = byte_str ''x=1&a=2'',
    sq_headers = [(byte_str ''host'', byte_str ''127.0.0.1''), (byte_str ''x-amz-date'', byte_str ''20130524T000000Z'')],
    sq_body = [1, 2, 3]\<rparr>"

theorem signed_request_verifies_witness:
  "\<exists>auth. sign_request toy_mac toy_creds (byte_str ''us-east-1'') toy_signed = Some auth \<and>
     verify_request toy_mac toy_creds (with_authorization toy_signed auth) = Ok ()"
proof -
  have d: "http_header (sq_headers toy_signed) (byte_str ''x-amz-date'') = Some (byte_str ''20130524T000000Z'')"
    "amz_date (sq_headers toy_signed) = Some (byte_str ''20130524T000000Z'')"
    by (simp_all add: toy_signed_def http_header_def amz_date_def)
  have m: "min 8 (length (byte_str ''20130524T000000Z'')) = 8" by simp
  have "is_char_boundary (byte_str ''20130524T000000Z'') 8" by code_simp
  then obtain auth where auth: "sign_request toy_mac toy_creds (byte_str ''us-east-1'') toy_signed = Some auth"
    unfolding sign_request_def d option.case Let_def split_beta m by simp
  have "to_ascii_lowercase (byte_str ''x-amz-content-sha256'') \<notin> fst ` set (sq_headers toy_signed)" by (simp add: toy_signed_def)
  then have p: "\<exists>p. payload_hash toy_mac toy_signed = Ok p" by (simp add: payload_hash_def http_header_def map_of_eq_None_iff [THEN iffD2])
  have inv: "btm_inv (sq_headers toy_signed)" by code_simp
  have sep: "\<forall>s \<in> {access_key_id toy_creds, byte_str ''us-east-1'', take 8 (byte_str ''20130524T000000Z'')}. 44 \<notin> set s \<and> 47 \<notin> set s"
    by (simp add: toy_creds_def byte_str_def)
  show ?thesis using auth p signed_request_verifies [OF toy_mac_sound auth _ inv d(1) sep] by blast
qed

end
