(* ===== verification/Dav_Face.thy ===== *)
theory Dav_Face
  imports S3_Face Sigv4
begin

text \<open>
  \<open>nas-gateway/src/dav.rs\<close>: the read-only WebDAV face with Basic authentication, on the same trait and
  routes as the S3 face.
\<close>

definition is_dav_method :: "bytes \<Rightarrow> bool" where
  "is_dav_method method \<longleftrightarrow> method = byte_str ''OPTIONS'' \<or> method = byte_str ''PROPFIND''"

definition wants_dav :: "http_request \<Rightarrow> bool" where
  "wants_dav req \<longleftrightarrow> is_dav_method (to_ascii_uppercase (hr_method req)) \<or>
    (case btm_get (hr_headers req) (byte_str ''authorization'') of
       Some v \<Rightarrow> starts_with v (byte_str ''Basic '')
     | None \<Rightarrow> False)"

datatype basic_error = BasicMissing | BasicMalformed | BasicMismatch

definition check_basic :: "creds \<Rightarrow> http_request \<Rightarrow> basic_error + unit" where
  "check_basic c req =
    (case btm_get (hr_headers req) (byte_str ''authorization'') of
       None \<Rightarrow> Err BasicMissing
     | Some h \<Rightarrow>
         rbind (ok_or (strip_prefix (byte_str ''Basic '') h) BasicMissing) (\<lambda>raw.
         rbind (ok_or (b64_decode raw) BasicMalformed) (\<lambda>bs.
         if \<not> from_utf8_ok bs then Err BasicMalformed
         else rbind (ok_or (split_once 58 bs) BasicMalformed) (\<lambda>(user, pass).
         if ct_eq user (access_key_id c) \<and> ct_eq pass (secret_access_key c) then Ok () else Err BasicMismatch))))"

definition write_unauthorized :: bytes where
  \<open>write_unauthorized =
    write_response_with 401 ''Unauthorized'' ''text/plain'' [(byte_str ''WWW-Authenticate'', byte_str ''Basic realm="nas"'')]
      (byte_str ''unauthorized'')\<close>

definition write_head :: "u64 \<Rightarrow> bytes" where
  "write_head n =
    byte_str ''HTTP/1.1 200 OK'' @ CRLF @ byte_str ''Content-Length: '' @ dec (unat n) @ CRLF @
    byte_str ''Content-Type: application/octet-stream'' @ CRLF @ byte_str ''DAV: 1'' @ CRLF @ byte_str ''Connection: close'' @ CRLF @ CRLF"

definition write_options :: bytes where
  "write_options =
    write_response_with 200 ''OK'' ''text/plain''
      [(byte_str ''DAV'', byte_str ''1''), (byte_str ''Allow'', byte_str ''OPTIONS, PROPFIND, GET, HEAD''),
       (byte_str ''MS-Author-Via'', byte_str ''DAV'')] []"

definition href_char :: "u8 \<Rightarrow> bytes" where
  "href_char b =
    (if 65 \<le> b \<and> b \<le> 90 \<or> 97 \<le> b \<and> b \<le> 122 \<or> 48 \<le> b \<and> b \<le> 57 \<or> b = 45 \<or> b = 95 \<or> b = 46 \<or> b = 47 \<or> b = 126 then [b]
     else 37 # map ascii_upper [hex_digit (unat b div 16), hex_digit (unat b mod 16)])"

definition href_encode :: "bytes \<Rightarrow> bytes" where
  "href_encode s = concat (map href_char s)"

definition prop_collection :: "bytes \<Rightarrow> u64 option \<Rightarrow> bytes" where
  "prop_collection href sz =
    byte_str ''<D:response><D:href>'' @ xml_escape href @ byte_str ''</D:href><D:propstat><D:prop>'' @
    byte_str ''<D:resourcetype><D:collection/></D:resourcetype>'' @
    (case sz of
       None \<Rightarrow> []
     | Some n \<Rightarrow> byte_str ''<D:getcontentlength>'' @ dec (unat n) @ byte_str ''</D:getcontentlength>'') @
    byte_str ''</D:prop><D:status>HTTP/1.1 200 OK</D:status></D:propstat></D:response>''"

definition prop_file :: "bytes \<Rightarrow> u64 \<Rightarrow> bytes" where
  "prop_file href sz =
    byte_str ''<D:response><D:href>'' @ xml_escape href @ byte_str ''</D:href><D:propstat><D:prop>'' @
    byte_str ''<D:getcontentlength>'' @ dec (unat sz) @ byte_str ''</D:getcontentlength>'' @
    byte_str ''<D:getcontenttype>application/octet-stream</D:getcontenttype><D:resourcetype/>'' @
    byte_str ''</D:prop><D:status>HTTP/1.1 200 OK</D:status></D:propstat></D:response>''"

definition write_multistatus :: "bytes list \<Rightarrow> bytes" where
  \<open>write_multistatus responses =
    write_response_with 207 ''Multi-Status'' ''application/xml; charset=utf-8'' [(byte_str ''DAV'', byte_str ''1'')]
      (byte_str ''<?xml version="1.0" encoding="utf-8"?><D:multistatus xmlns:D="DAV:">'' @ concat responses @ byte_str ''</D:multistatus>'')\<close>

text \<open>The children of a collection: the directories below it, each once and in order, then its files.\<close>

fun child_loop :: "bytes \<Rightarrow> object_info list \<Rightarrow> bytes btreeset \<Rightarrow> object_info list \<Rightarrow> bytes btreeset \<times> object_info list" where
  "child_loop prefix [] dirs files = (dirs, files)"
| "child_loop prefix (ob # items) dirs files =
    (if oi_tombstone ob then child_loop prefix items dirs files
     else case strip_prefix prefix (oi_key ob) of
       None \<Rightarrow> child_loop prefix items dirs files
     | Some rest \<Rightarrow>
         if rest = [] then child_loop prefix items dirs files
         else case split_once 47 rest of
           Some (dir, _) \<Rightarrow>
             if dir \<noteq> [] then child_loop prefix items (bts_insert dir dirs) files
             else child_loop prefix items dirs (files @ [ob])
         | None \<Rightarrow> child_loop prefix items dirs (files @ [ob]))"

definition append_children ::
  "'s buckets \<Rightarrow> bytes \<Rightarrow> bytes \<Rightarrow> bytes \<Rightarrow> bytes list \<Rightarrow> 's \<Rightarrow> 's \<times> (face_error + bytes list)" where
  "append_children K bucket prefix href_base out s =
    (case bk_list K bucket prefix s of
       (s', Inl e) \<Rightarrow> (s', Err e)
     | (s', Inr items) \<Rightarrow>
         let (dirs, files) = child_loop prefix items [] []
         in (s', Ok (out @ map (\<lambda>d. prop_collection (href_base @ href_encode d @ [47]) None) dirs @
                     map (\<lambda>ob. prop_file (href_base @ href_encode
                        (case strip_prefix prefix (oi_key ob) of Some n \<Rightarrow> n | None \<Rightarrow> oi_key ob)) (oi_size ob)) files)))"

definition trim_end_slashes :: "bytes \<Rightarrow> bytes" where
  "trim_end_slashes s = rev (dropWhile (\<lambda>b. b = 47) (rev s))"

definition object_or_collection :: "'s buckets \<Rightarrow> bytes \<Rightarrow> bytes \<Rightarrow> bool \<Rightarrow> 's \<Rightarrow> 's \<times> bytes" where
  "object_or_collection K bucket key include_children s =
    (case bk_list K bucket key s of
       (s', Inl e) \<Rightarrow> (s', face_err e)
     | (s', Inr items) \<Rightarrow>
         let exact = List.find (\<lambda>ob. oi_key ob = key \<and> \<not> oi_tombstone ob) items;
             child_prefix = (if key \<noteq> [] \<and> last key = 47 then key else key @ [47]);
             has_children = list_ex (\<lambda>ob. \<not> oi_tombstone ob \<and> starts_with (oi_key ob) child_prefix) items
         in if exact = None \<and> \<not> has_children then (s', face_err (NotFound key))
            else case exact of
              Some ob \<Rightarrow> (s', write_multistatus [prop_file ([47] @ bucket @ [47] @ href_encode (oi_key ob)) (oi_size ob)])
            | None \<Rightarrow>
                let href = [47] @ bucket @ [47] @ href_encode (trim_end_slashes key);
                    responses = [prop_collection (href @ [47]) None]
                in if include_children then
                     (case append_children K bucket child_prefix (href @ [47]) responses s' of
                        (s'', Inr out) \<Rightarrow> (s'', write_multistatus out)
                      | (s'', Inl e) \<Rightarrow> (s'', face_err e))
                   else (s', write_multistatus responses))"

definition propfind :: "'s buckets \<Rightarrow> http_request \<Rightarrow> s3_route \<Rightarrow> 's \<Rightarrow> 's \<times> bytes" where
  "propfind K req rt s =
    (let depth = (case btm_get (hr_headers req) (byte_str ''depth'') of Some d \<Rightarrow> d | None \<Rightarrow> byte_str ''1'');
         include_children = (depth \<noteq> byte_str ''0'')
     in case rt of
       ListBuckets \<Rightarrow>
         let responses = [prop_collection [47] None]
         in if include_children then
              (case bk_list_buckets K s of
                 (s', Inl e) \<Rightarrow> (s', face_err e)
               | (s', Inr names) \<Rightarrow>
                   (s', write_multistatus (responses @ map (\<lambda>n. prop_collection ([47] @ n @ [47]) None) names)))
            else (s, write_multistatus responses)
     | ListObjects bucket prefix \<Rightarrow>
         if prefix \<noteq> [] then object_or_collection K bucket prefix include_children s
         else (case bk_list K bucket [] s of
                 (s', Inl e) \<Rightarrow> (s', face_err e)
               | (s', Inr _) \<Rightarrow>
                   let base = [47] @ bucket @ [47];
                       responses = [prop_collection base None]
                   in if include_children then
                        (case append_children K bucket [] base responses s' of
                           (s'', Inl e) \<Rightarrow> (s'', face_err e)
                         | (s'', Inr out) \<Rightarrow> (s'', write_multistatus out))
                      else (s', write_multistatus responses))
     | ObjectAt bucket key \<Rightarrow> object_or_collection K bucket key include_children s)"

definition dav_not_allowed :: "string \<Rightarrow> bytes" where
  "dav_not_allowed why = write_response 405 ''Method Not Allowed'' ''text/plain'' (byte_str why)"

definition READ_ONLY_VERBS :: "bytes list" where
  "READ_ONLY_VERBS = map byte_str [''PUT'', ''DELETE'', ''MKCOL'', ''MOVE'', ''COPY'', ''PROPPATCH'']"

definition dav_dispatch :: "'s buckets \<Rightarrow> http_request \<Rightarrow> 's \<Rightarrow> 's \<times> bytes" where
  "dav_dispatch K req s =
    (let method = to_ascii_uppercase (hr_method req);
         rt = route (hr_path req) (hr_query req)
     in if method = byte_str ''OPTIONS'' then (s, write_options)
        else if method = byte_str ''PROPFIND'' then propfind K req rt s
        else if method = byte_str ''GET'' then
          (case rt of
             ObjectAt bucket key \<Rightarrow> write_object_get K bucket key (btm_get (hr_headers req) (byte_str ''range'')) s
           | _ \<Rightarrow> (s, dav_not_allowed ''use PROPFIND on a collection''))
        else if method = byte_str ''HEAD'' then
          (case rt of
             ObjectAt bucket key \<Rightarrow>
               (case bk_head K bucket key s of
                  (s', Inr n) \<Rightarrow> (s', write_head n)
                | (s', Inl e) \<Rightarrow> (s', face_err e))
           | ListObjects bucket _ \<Rightarrow>
               (case bk_list K bucket [] s of
                  (s', Inr _) \<Rightarrow> (s', write_empty 200 ''OK'')
                | (s', Inl e) \<Rightarrow> (s', face_err e))
           | ListBuckets \<Rightarrow> (s, write_empty 200 ''OK''))
        else if method \<in> set READ_ONLY_VERBS then (s, dav_not_allowed ''this WebDAV face is read-only (SPECS 8)'')
        else (s, dav_not_allowed ''not allowed''))"

end
