(* ===== verification/Gateway.thy ===== *)
theory Gateway
  imports Dav_Face
begin

text \<open>
  \<open>nas-gateway/src/lib.rs\<close>: one connection and the accept loop. A connection is what its reads return
  and how many bytes of a response the other side takes before a write fails (\<open>None\<close> for all). Every
  branch writes one response, so what is delivered is that response or a prefix of it.
\<close>

record sock =
  sk_reads :: "io_error reader"
  sk_room :: "usize option"
  sk_broken :: io_error

definition deliver :: "sock \<Rightarrow> bytes \<Rightarrow> bytes \<times> (http_error + unit)" where
  "deliver sk out =
    (case sk_room sk of
       None \<Rightarrow> (out, Ok ())
     | Some n \<Rightarrow> if length out \<le> n then (out, Ok ()) else (take n out, Err (HttpIo (sk_broken sk))))"

datatype ip_addr = V4 u8 u8 u8 u8 | V6 "u16 list"

fun is_loopback :: "ip_addr \<Rightarrow> bool" where
  "is_loopback (V4 a b c d) = (a = 127)"
| "is_loopback (V6 segments) = (segments = [0, 0, 0, 0, 0, 0, 0, 1])"

definition EPERM :: io_error where "EPERM = 1"

definition assert_loopback :: "ip_addr \<Rightarrow> io_error + unit" where
  "assert_loopback ip = (if is_loopback ip then Ok () else Err EPERM)"

fun auth_error_text :: "auth_error \<Rightarrow> bytes" where
  "auth_error_text AuthMissing = byte_str ''no Authorization header''"
| "auth_error_text (AuthMalformed why) = byte_str ''malformed Authorization: '' @ byte_str why"
| "auth_error_text UnknownKey = byte_str ''unknown access key''"
| "auth_error_text AuthBadSignature = byte_str ''signature does not match''"
| "auth_error_text PayloadHash = byte_str ''x-amz-content-sha256 does not match the body''"

definition auth_refusal :: "auth_error \<Rightarrow> bytes" where
  "auth_refusal e =
    (let (status, reason, code) =
       (case e of
          AuthMissing \<Rightarrow> (403, ''Forbidden'', ''AccessDenied'')
        | UnknownKey \<Rightarrow> (403, ''Forbidden'', ''SignatureDoesNotMatch'')
        | AuthBadSignature \<Rightarrow> (403, ''Forbidden'', ''SignatureDoesNotMatch'')
        | PayloadHash \<Rightarrow> (400, ''Bad Request'', ''XAmzContentSHA256Mismatch'')
        | AuthMalformed _ \<Rightarrow> (400, ''Bad Request'', ''AuthorizationHeaderMalformed''))
     in auth_error_response status reason code (auth_error_text e))"

definition signed_of :: "http_request \<Rightarrow> signed_request" where
  "signed_of req = \<lparr>sq_method = hr_method req, sq_path = hr_path req, sq_query = hr_query req, sq_headers = hr_headers req,
    sq_body = hr_body req\<rparr>"

text \<open>What one request gets: the store afterwards and the response.\<close>

definition respond :: "mac \<Rightarrow> 's buckets \<Rightarrow> creds option \<Rightarrow> http_request \<Rightarrow> 's \<Rightarrow> 's \<times> bytes" where
  "respond M K creds req s =
    (if wants_dav req then
       (case creds of
          Some c \<Rightarrow> if is_err (check_basic c req) then (s, write_unauthorized) else dav_dispatch K req s
        | None \<Rightarrow> dav_dispatch K req s)
     else
       (case creds of
          Some c \<Rightarrow>
            (case verify_request M c (signed_of req) of
               Inl e \<Rightarrow> (s, auth_refusal e)
             | Inr _ \<Rightarrow> s3_dispatch K req s)
        | None \<Rightarrow> s3_dispatch K req s))"

definition handle_stream :: "mac \<Rightarrow> 's buckets \<Rightarrow> creds option \<Rightarrow> sock \<Rightarrow> 's \<Rightarrow> 's \<times> bytes \<times> (http_error + unit)" where
  "handle_stream M K creds sk s =
    (case read_request (sk_reads sk) of
       Inr req \<Rightarrow> (case respond M K creds req s of (s', out) \<Rightarrow> (s', deliver sk out))
     | Inl (TooLarge _ _) \<Rightarrow> (s, deliver sk (write_response 413 ''Payload Too Large'' ''text/plain'' (byte_str ''body too large'')))
     | Inl e \<Rightarrow> (s, [], Err e))"

text \<open>
  The accept loop over what \<open>accept\<close> returns: it ends with an error of \<open>accept\<close>, or after one connection
  when asked to; the end of the list is a listener still waiting.
\<close>

fun accept_loop ::
  "mac \<Rightarrow> 's buckets \<Rightarrow> creds option \<Rightarrow> bool \<Rightarrow> (io_error + sock) list \<Rightarrow> 's \<Rightarrow> 's \<times> bytes list \<times> (io_error + unit) option" where
  "accept_loop M K creds once [] s = (s, [], None)"
| "accept_loop M K creds once (Inl e # conns) s = (s, [], Some (Err e))"
| "accept_loop M K creds once (Inr sk # conns) s =
    (case handle_stream M K creds sk s of
       (s', out, _) \<Rightarrow>
         if once then (s', [out], Some (Ok ()))
         else (case accept_loop M K creds once conns s' of (s'', outs, r) \<Rightarrow> (s'', out # outs, r)))"

definition serve_tcp ::
  "mac \<Rightarrow> 's buckets \<Rightarrow> creds \<Rightarrow> io_error + ip_addr \<Rightarrow> bool \<Rightarrow> (io_error + sock) list \<Rightarrow> 's \<Rightarrow>
    's \<times> bytes list \<times> (io_error + unit) option" where
  "serve_tcp M K creds local once conns s =
    (case rbind local assert_loopback of
       Inl e \<Rightarrow> (s, [], Some (Err e))
     | Inr _ \<Rightarrow> accept_loop M K (Some creds) once conns s)"

definition serve_unix ::
  "mac \<Rightarrow> 's buckets \<Rightarrow> bool \<Rightarrow> (io_error + sock) list \<Rightarrow> 's \<Rightarrow> 's \<times> bytes list \<times> (io_error + unit) option" where
  "serve_unix M K once conns s = accept_loop M K None once conns s"

section \<open>Who may do anything\<close>

text \<open>Basic authentication accepts exactly the access key and the secret.\<close>

lemma check_basic_iff:
  "58 \<notin> set (access_key_id c) \<Longrightarrow> check_basic c req = Ok () \<longleftrightarrow>
    (\<exists>raw. btm_get (hr_headers req) (byte_str ''authorization'') = Some (byte_str ''Basic '' @ raw) \<and>
       from_utf8_ok (access_key_id c @ 58 # secret_access_key c) \<and>
       b64_decode raw = Some (access_key_id c @ 58 # secret_access_key c))"
  by (auto simp: check_basic_def result_elims split: option.splits if_splits)

definition authenticated :: "mac \<Rightarrow> creds \<Rightarrow> http_request \<Rightarrow> bool" where
  "authenticated M c req \<longleftrightarrow>
    (if wants_dav req then check_basic c req = Ok () else verify_request M c (signed_of req) = Ok ())"

lemma unauthenticated_respond:
  assumes "\<not> authenticated M c req"
  shows "\<exists>out. \<forall>(K :: 's buckets) s. respond M K (Some c) req s = (s, out)"
proof (cases "wants_dav req")
  case True
  then have "is_err (check_basic c req)" using assms by (cases "check_basic c req") (auto simp: authenticated_def)
  then show ?thesis using True by (auto simp: respond_def)
next
  case False
  then obtain e where "verify_request M c (signed_of req) = Err e"
    using assms by (cases "verify_request M c (signed_of req)") (auto simp: authenticated_def)
  then show ?thesis using False by (auto simp: respond_def)
qed

lemma unauthenticated_connection:
  assumes "\<forall>req. read_request (sk_reads sk) = Ok req \<longrightarrow> \<not> authenticated M c req"
  shows "\<exists>out r. \<forall>(K :: 's buckets) s. handle_stream M K (Some c) sk s = (s, out, r)"
proof (cases "read_request (sk_reads sk)")
  case (Inl e)
  then show ?thesis by (cases e; cases "deliver sk (write_response 413 ''Payload Too Large'' ''text/plain'' (byte_str ''body too large''))")
      (auto simp: handle_stream_def)
next
  case (Inr req)
  then obtain out where "\<forall>(K :: 's buckets) s. respond M K (Some c) req s = (s, out)" using unauthenticated_respond assms by blast
  then show ?thesis using Inr by (cases "deliver sk out") (auto simp: handle_stream_def)
qed

lemma unauthenticated_loop:
  assumes "\<forall>sk req. Inr sk \<in> set conns \<and> read_request (sk_reads sk) = Ok req \<longrightarrow> \<not> authenticated M c req"
  shows "\<exists>outs r. \<forall>(K :: 's buckets) s. accept_loop M K (Some c) once conns s = (s, outs, r)"
  using assms
proof (induction conns)
  case (Cons conn conns)
  show ?case
  proof (cases conn)
    case (Inr sk)
    then obtain out r where h: "\<forall>(K :: 's buckets) s. handle_stream M K (Some c) sk s = (s, out, r)"
      using Cons.prems unauthenticated_connection [of sk M c] by auto
    obtain outs r' where "\<forall>(K :: 's buckets) s. accept_loop M K (Some c) once conns s = (s, outs, r')" using Cons by auto
    then show ?thesis using h Inr by (cases once) auto
  qed auto
qed auto

text \<open>
  C28. Nobody without the credentials reads or writes anything over TCP: if none of the requests on a
  sequence of connections carries the Basic secret or a valid signature, then serving them leaves the
  store exactly as it was, and the responses are the same bytes whatever is stored and whatever the store
  does, so they reveal nothing about it. On an address that is not loopback nothing is served at all.
\<close>

theorem unauthenticated_tcp_learns_nothing:
  assumes "\<forall>sk req. Inr sk \<in> set conns \<and> read_request (sk_reads sk) = Ok req \<longrightarrow> \<not> authenticated M c req"
  shows "(\<exists>outs r. \<forall>(K :: 's buckets) s. serve_tcp M K c local once conns s = (s, outs, r)) \<and>
    (\<forall>(K :: 's buckets) s ip. \<not> is_loopback ip \<longrightarrow> serve_tcp M K c (Ok ip) once conns s = (s, [], Some (Err EPERM)))"
proof -
  obtain outs r where "\<forall>(K :: 's buckets) s. accept_loop M K (Some c) once conns s = (s, outs, r)"
    using unauthenticated_loop [OF assms] by blast
  then show ?thesis by (cases "rbind local assert_loopback") (auto simp: serve_tcp_def assert_loopback_def)
qed

section \<open>What one signature covers\<close>

lemma split_once_no: "split_once c s = Some (l, r) \<Longrightarrow> d \<notin> set s \<Longrightarrow> d \<notin> set l \<and> d \<notin> set r"
  by auto

lemma trim_cr_no: "10 \<notin> set s \<Longrightarrow> 10 \<notin> set (trim_cr s)"
  by (auto simp: trim_cr_def dest: in_set_butlastD)

lemma parse_headers_one_line:
  assumes "parse_headers lines hs = Ok hs'" "\<forall>l \<in> set lines. 10 \<notin> set l" "\<forall>(k, v) \<in> set hs. 10 \<notin> set v" "btm_inv hs"
  shows "(\<forall>(k, v) \<in> set hs'. 10 \<notin> set v) \<and> btm_inv hs'"
  using assms
proof (induction lines hs rule: parse_headers.induct)
  case (2 line0 lines hs)
  let ?line = "trim_cr line0"
  have line: "10 \<notin> set ?line" using 2(4) trim_cr_no by simp
  show ?case
  proof (cases "?line = []")
    case True
    then show ?thesis using 2 by (simp add: Let_def)
  next
    case False
    then obtain k v where kv: "split_once 58 ?line = Some (k, v)" "from_utf8_ok ?line"
        "parse_headers lines (btm_insert (to_ascii_lowercase (trim k)) (trim v) hs) = Ok hs'"
      using 2(3) by (auto simp: Let_def split: if_splits option.splits)
    have "10 \<notin> set (trim v)" using split_once_no [OF kv(1) line] set_trim [of v] by blast
    then have hs: "\<forall>(k, v) \<in> set (btm_insert (to_ascii_lowercase (trim k)) (trim v) hs). 10 \<notin> set v"
      using 2(5) set_btm_insert_subset [of "to_ascii_lowercase (trim k)" "trim v" hs] by blast
    have lines: "\<forall>l \<in> set lines. 10 \<notin> set l" using 2(4) by simp
    show ?thesis by (rule 2(2) [OF refl False _ kv(1) refl kv(3) lines hs]) (use kv(2) 2(6) in simp_all)
  qed
qed simp

lemma read_request_one_line:
  assumes "read_request rs = Ok req"
  shows "one_line_headers (signed_of req) \<and> btm_inv (hr_headers req)"
proof -
  obtain h n req0 where p: "parse_head h = Ok (req0, n)" "hr_method req = hr_method req0" "hr_headers req = hr_headers req0"
    using assms by (auto simp: read_request_def result_elims)
  obtain l ls where sp: "split_on 10 h = l # ls" by (cases "split_on 10 h") auto
  obtain target where line: "parse_request_line l = Ok (hr_method req0, target)" and hs: "parse_headers ls [] = Ok (hr_headers req0)"
    using p(1) sp by (auto simp: parse_head_def Let_def result_elims split: if_splits)
  have no: "10 \<notin> set l" "\<forall>x \<in> set ls. 10 \<notin> set x" using split_on_parts [of _ 10 h] sp by auto
  have "hr_method req0 \<in> set (split_on 32 (trim_cr l))"
    using line by (auto simp: parse_request_line_def Let_def split: if_splits list.splits)
  then have "10 \<notin> set (hr_method req0)" using split_on_parts [of "hr_method req0" 32 "trim_cr l"] trim_cr_no [OF no(1)] by blast
  then show ?thesis using parse_headers_one_line [OF hs no(2)] p by (auto simp: one_line_headers_def signed_of_def)
qed

text \<open>An object's route does not depend on the query, and the empty path is the root's.\<close>

lemma route_object: "route p q = ObjectAt b k \<longleftrightarrow> route p q' = ObjectAt b k"
  by (auto simp: route_def Let_def split: option.splits if_splits)

lemma route_same_path:
  assumes "canonical_path p = canonical_path p'"
  shows "route p q = ObjectAt b k \<longleftrightarrow> route p' q' = ObjectAt b k"
proof -
  have root: "route [] q = ListBuckets" "route [47] q = ListBuckets" for q by (simp_all add: route_def)
  consider "p = p'" | "{p, p'} = {[], [47]}" using canonical_path_inj [OF assms] by blast
  then show ?thesis
  proof cases
    case 1
    then show ?thesis using route_object [of p q b k q'] by simp
  next
    case 2
    then show ?thesis using root by (auto simp: doubleton_eq_iff)
  qed
qed

text \<open>
  C29. A captured signature is good for one request: two requests that arrive with the same
  \<open>Authorization\<close> header and both verify have the same method, address the same object if either
  addresses one, have the same canonical query and the same value for every header the signature lists,
  and carry the same body unless both declare it unsigned; or the hash or the MAC collides on strings
  made from these two requests. So an attacker who sees a signed PUT can repeat it, but not aim it at
  another object or give it another content.
\<close>

theorem one_signature_one_request:
  assumes "sound_mac M" "read_request rs1 = Ok r1" "read_request rs2 = Ok r2"
    and "verify_request M c (signed_of r1) = Ok ()" "verify_request M c (signed_of r2) = Ok ()"
    and "btm_get (hr_headers r1) (byte_str ''authorization'') = btm_get (hr_headers r2) (byte_str ''authorization'')"
  shows "\<exists>a. parse_authorization (the (btm_get (hr_headers r1) (byte_str ''authorization''))) = Ok a \<and>
    (to_ascii_uppercase (hr_method r1) = to_ascii_uppercase (hr_method r2) \<and>
     (\<forall>b k. route (hr_path r1) (hr_query r1) = ObjectAt b k \<longleftrightarrow> route (hr_path r2) (hr_query r2) = ObjectAt b k) \<and>
     canonical_query (hr_query r1) = canonical_query (hr_query r2) \<and>
     (\<forall>k \<in> set (au_signed a). header_value (signed_of r1) k = header_value (signed_of r2) k) \<and>
     (hr_body r1 = hr_body r2 \<or>
      btm_get (hr_headers r1) (byte_str ''x-amz-content-sha256'') = Some UNSIGNED \<and>
      btm_get (hr_headers r2) (byte_str ''x-amz-content-sha256'') = Some UNSIGNED) \<or>
     hr_body r1 \<noteq> hr_body r2 \<and> sha256 M (hr_body r1) = sha256 M (hr_body r2) \<or>
     signature_collision M c a (signed_of r1) (signed_of r2))"
proof -
  have f: "http_header (sq_headers (signed_of r)) (byte_str ''authorization'') = btm_get (hr_headers r) (byte_str ''authorization'')"
    "http_header (sq_headers (signed_of r)) (byte_str ''x-amz-content-sha256'') = btm_get (hr_headers r) (byte_str ''x-amz-content-sha256'')"
    "sq_method (signed_of r) = hr_method r" "sq_path (signed_of r) = hr_path r" "sq_query (signed_of r) = hr_query r"
    "sq_body (signed_of r) = hr_body r" for r
    by (simp_all add: http_header_def signed_of_def)
  have lines: "one_line_headers (signed_of r1)" "one_line_headers (signed_of r2)"
    using read_request_one_line assms(2,3) by blast+
  have auth: "http_header (sq_headers (signed_of r1)) (byte_str ''authorization'') = http_header (sq_headers (signed_of r2)) (byte_str ''authorization'')"
    using assms(6) f(1) by simp
  show ?thesis
  proof (rule same_authorization_binds [OF assms(1,4,5) auth lines], goal_cases)
    case (1 a)
    then show ?case unfolding f by blast
  next
    case (2 a p)
    have body: "hr_body r1 = hr_body r2 \<or> hr_body r1 \<noteq> hr_body r2 \<and> sha256 M (hr_body r1) = sha256 M (hr_body r2) \<or>
        btm_get (hr_headers r1) (byte_str ''x-amz-content-sha256'') = Some UNSIGNED \<and>
        btm_get (hr_headers r2) (byte_str ''x-amz-content-sha256'') = Some UNSIGNED"
      by (rule payload_hash_cases [OF assms(1) 2(7)]; rule payload_hash_cases [OF assms(1) 2(8)]) (auto simp: f)
    have rt: "\<forall>b k. route (hr_path r1) (hr_query r1) = ObjectAt b k \<longleftrightarrow> route (hr_path r2) (hr_query r2) = ObjectAt b k"
      using route_same_path 2(3) unfolding f by blast
    show ?case using 2(1,2,4,5) body rt unfolding f by blast
  qed
qed

text \<open>
  A listing is not bound as tightly. The signature covers the canonical query, which is sorted and in
  which a plus sign is a space; routing reads the first \<open>prefix\<close> of the raw query and keeps the plus
  sign. One signature therefore covers listings of different prefixes.
\<close>

lemma signed_listing_can_be_redirected:
  "canonical_query (byte_str ''prefix=a&prefix=b'') = canonical_query (byte_str ''prefix=b&prefix=a'') \<and>
   route (byte_str ''/p'') (byte_str ''prefix=a&prefix=b'') = ListObjects (byte_str ''p'') (byte_str ''a'') \<and>
   route (byte_str ''/p'') (byte_str ''prefix=b&prefix=a'') = ListObjects (byte_str ''p'') (byte_str ''b'')"
  "canonical_query (byte_str ''prefix=a+b'') = canonical_query (byte_str ''prefix=a%20b'') \<and>
   route (byte_str ''/p'') (byte_str ''prefix=a+b'') = ListObjects (byte_str ''p'') (byte_str ''a+b'') \<and>
   route (byte_str ''/p'') (byte_str ''prefix=a%20b'') = ListObjects (byte_str ''p'') (byte_str ''a b'')"
  by code_simp+

definition flat_mac :: mac where
  "flat_mac = \<lparr>sha256 = (\<lambda>x. replicate 32 0xAA), hmac_sha256 = (\<lambda>k x. replicate 32 0xAA)\<rparr>"

definition toy_auth :: bytes where
  "toy_auth = byte_str ''AWS4-HMAC-SHA256 Credential=AKID/20130524/r/s3/aws4_request, SignedHeaders=host;x-amz-date, Signature='' @
     replicate 64 97"

definition toy_put_lines :: "bytes list" where
  "toy_put_lines = [byte_str ''PUT /photos/a HTTP/1.1'', byte_str ''Host: h'', byte_str ''X-Amz-Date: 20130524T000000Z'',
     byte_str ''Content-Length: 3'', byte_str ''Authorization: '' @ toy_auth]"

definition toy_put :: bytes where
  "toy_put = head_text toy_put_lines @ [1, 2, 3]"

definition toy_put_request :: http_request where
  "toy_put_request = \<lparr>hr_method = byte_str ''PUT'', hr_path = byte_str ''/photos/a'', hr_query = [],
     hr_headers = [(byte_str ''authorization'', toy_auth), (byte_str ''content-length'', byte_str ''3''),
       (byte_str ''host'', byte_str ''h''), (byte_str ''x-amz-date'', byte_str ''20130524T000000Z'')],
     hr_body = [1, 2, 3]\<rparr>"

lemma toy_put_head:
  "find_double_crlf toy_put = Some (length (head_text toy_put_lines))"
  "split_on 10 (head_text toy_put_lines) = map (\<lambda>l. l @ [13]) toy_put_lines @ [[13], []]"
proof -
  have "toy_put_lines \<noteq> []" "\<forall>l \<in> set toy_put_lines. head_line l"
    by (simp_all add: toy_put_lines_def head_line_def toy_auth_def byte_str_def)
  then show "find_double_crlf toy_put = Some (length (head_text toy_put_lines))"
    "split_on 10 (head_text toy_put_lines) = map (\<lambda>l. l @ [13]) toy_put_lines @ [[13], []]"
    unfolding toy_put_def using head_text_end head_text_lines by blast+
qed

lemma toy_put_headers:
  "parse_headers (map (\<lambda>l. l @ [13]) (tl toy_put_lines) @ [[13], []]) [] = Ok (hr_headers toy_put_request)"
proof -
  have lines: "map (\<lambda>l. l @ [13]) (tl toy_put_lines) = map (\<lambda>(k, v). k @ 58 # 32 # v @ [13])
      [(byte_str ''Host'', byte_str ''h''), (byte_str ''X-Amz-Date'', byte_str ''20130524T000000Z''),
       (byte_str ''Content-Length'', byte_str ''3''), (byte_str ''Authorization'', toy_auth)]"
    by (simp add: toy_put_lines_def byte_str_def)
  have auth: "toy_auth \<noteq> []" "graphic (hd toy_auth)" "graphic (last toy_auth)" "\<forall>b \<in> set toy_auth. b < 0x80"
    by (simp_all add: toy_auth_def byte_str_def graphic_def)
  have names: "to_ascii_lowercase (byte_str ''Host'') = byte_str ''host''" "to_ascii_lowercase (byte_str ''X-Amz-Date'') = byte_str ''x-amz-date''"
    "to_ascii_lowercase (byte_str ''Content-Length'') = byte_str ''content-length''"
    "to_ascii_lowercase (byte_str ''Authorization'') = byte_str ''authorization''" by code_simp+
  have order: "byte_str ''authorization'' < byte_str ''content-length''" "byte_str ''content-length'' < byte_str ''host''"
    "byte_str ''host'' < byte_str ''x-amz-date''" by code_simp+
  have ends: "parse_headers [[13], []] hs = Ok hs" for hs by (simp add: trim_cr_def)
  have h: "parse_headers ((byte_str ''Host'' @ 58 # 32 # byte_str ''h'' @ [13]) # ls) hs = parse_headers ls (btm_insert (byte_str ''host'') (byte_str ''h'') hs)"
    "parse_headers ((byte_str ''X-Amz-Date'' @ 58 # 32 # byte_str ''20130524T000000Z'' @ [13]) # ls) hs =
      parse_headers ls (btm_insert (byte_str ''x-amz-date'') (byte_str ''20130524T000000Z'') hs)"
    "parse_headers ((byte_str ''Content-Length'' @ 58 # 32 # byte_str ''3'' @ [13]) # ls) hs =
      parse_headers ls (btm_insert (byte_str ''content-length'') (byte_str ''3'') hs)"
    "parse_headers ((byte_str ''Authorization'' @ 58 # 32 # toy_auth @ [13]) # ls) hs =
      parse_headers ls (btm_insert (byte_str ''authorization'') toy_auth hs)" for ls hs
    unfolding names [symmetric] by (rule parse_header_line; use auth in \<open>simp add: byte_str_def graphic_def\<close>)+
  have "byte_str ''authorization'' < byte_str ''host''" using order by simp
  moreover have "byte_str ''authorization'' \<noteq> byte_str ''host''" "byte_str ''content-length'' \<noteq> byte_str ''host''" by simp_all
  ultimately show ?thesis
    unfolding lines list.map append_Cons append_Nil prod.case h ends using order
    by (auto simp: toy_put_request_def dest: less_asym)
qed

lemma toy_put_whole: "request_of toy_put = Ok toy_put_request"
proof -
  have line: "parse_request_line (byte_str ''PUT /photos/a HTTP/1.1'' @ [13]) = Ok (byte_str ''PUT'', byte_str ''/photos/a'')" by code_simp
  have target: "split_target (byte_str ''/photos/a'') = (byte_str ''/photos/a'', [])" by code_simp
  have len: "btm_get (hr_headers toy_put_request) (byte_str ''content-length'') = Some (byte_str ''3'')" "parse_u64 (byte_str ''3'') = Some 3"
    by code_simp+
  have split: "split_on 10 (head_text toy_put_lines) =
      (byte_str ''PUT /photos/a HTTP/1.1'' @ [13]) # map (\<lambda>l. l @ [13]) (tl toy_put_lines) @ [[13], []]"
    unfolding toy_put_head(2) by (simp add: toy_put_lines_def)
  have "parse_head (head_text toy_put_lines) = Ok (toy_put_request\<lparr>hr_body := []\<rparr>, 3)"
    unfolding parse_head_def split list.case line rbind_simps prod.case Let_def target toy_put_headers len option.case
    by (simp add: MAX_BODY_def) (simp add: toy_put_request_def)
  then show ?thesis
    unfolding request_of_def toy_put_head(1) option.case by (simp add: toy_put_def) (simp add: toy_put_request_def)
qed

lemma toy_put_reads:
  "read_request [Inr toy_put] = Ok toy_put_request" "read_request [Inr (take 100 toy_put), Inr (drop 100 toy_put)] = Ok toy_put_request"
proof -
  have len: "length (head_text toy_put_lines) = 267" by (simp add: head_text_def toy_put_lines_def CRLF_def toy_auth_def)
  have "reads_ok ([Inr toy_put] :: io_error reader)" "reads_ok ([Inr (take 100 toy_put), Inr (drop 100 toy_put)] :: io_error reader)"
    using len by (auto simp: reads_ok_def READ_BUF_def toy_put_def)
  moreover have "toy_put \<noteq> []" "take 100 toy_put \<noteq> []" "drop 100 toy_put \<noteq> []" using len by (auto simp: toy_put_def)
  moreover have "length (head_text toy_put_lines) \<le> MAX_HEADER" by (simp add: MAX_HEADER_def len)
  ultimately show "read_request [Inr toy_put] = Ok toy_put_request"
    "read_request [Inr (take 100 toy_put), Inr (drop 100 toy_put)] = Ok toy_put_request"
    using read_request_whole [of "[Inr toy_put]" "length (head_text toy_put_lines)"]
      read_request_whole [of "[Inr (take 100 toy_put), Inr (drop 100 toy_put)]" "length (head_text toy_put_lines)"]
      toy_put_head(1) toy_put_whole by simp_all
qed

lemma toy_put_verifies: "verify_request flat_mac toy_creds (signed_of toy_put_request) = Ok ()"
proof -
  have "parse_authorization toy_auth = Ok \<lparr>au_access_key = byte_str ''AKID'', au_short_date = byte_str ''20130524'',
      au_region = byte_str ''r'', au_signed = [byte_str ''host'', byte_str ''x-amz-date''], au_signature = replicate 64 97\<rparr>"
  proof -
    let ?names = "[byte_str ''host'', byte_str ''x-amz-date'']"
    have "toy_auth = ALGORITHM @ byte_str '' Credential='' @ access_key_id toy_creds @ [47] @ scope_of (byte_str ''20130524'') (byte_str ''r'') @
        byte_str '', SignedHeaders='' @ join_with [59] ?names @ byte_str '', Signature='' @ replicate 64 97"
      by (simp add: toy_auth_def ALGORITHM_def toy_creds_def scope_of_def byte_str_def)
    moreover have "\<forall>s \<in> {access_key_id toy_creds, byte_str ''r'', byte_str ''20130524''}. 44 \<notin> set s \<and> 47 \<notin> set s"
      by (simp add: toy_creds_def byte_str_def)
    moreover have "set ?names \<subseteq> set SIGNED_SET" by (simp add: SIGNED_SET_def)
    ultimately show ?thesis
      using signed_authorization_parses [of toy_creds "byte_str ''r''" "byte_str ''20130524''" ?names "replicate 64 97"]
      by (simp add: toy_creds_def graphic_def)
  qed
  moreover have "hex_decode (replicate 64 97) = Some (replicate 32 0xAA)" by code_simp
  moreover have "http_header (hr_headers toy_put_request) (byte_str ''authorization'') = Some toy_auth"
    "amz_date (hr_headers toy_put_request) = Some (byte_str ''20130524T000000Z'')"
    by (simp_all add: http_header_def amz_date_def toy_put_request_def)
  moreover have "payload_hash flat_mac (signed_of toy_put_request) = Ok (hex_encode (replicate 32 0xAA))"
    by (simp add: payload_hash_def http_header_def signed_of_def toy_put_request_def flat_mac_def)
  moreover have "starts_with (byte_str ''20130524T000000Z'') (byte_str ''20130524'')" by code_simp
  ultimately show ?thesis
    unfolding verify_request_iff by (simp add: signed_of_def toy_creds_def flat_mac_def)
qed

theorem one_signature_one_request_witness:
  "\<exists>a. parse_authorization (the (btm_get (hr_headers toy_put_request) (byte_str ''authorization''))) = Ok a \<and>
    (\<forall>b k. route (hr_path toy_put_request) (hr_query toy_put_request) = ObjectAt b k \<longleftrightarrow>
       route (hr_path toy_put_request) (hr_query toy_put_request) = ObjectAt b k)"
proof -
  have "sound_mac flat_mac" by (simp add: sound_mac_def flat_mac_def)
  then show ?thesis
    using one_signature_one_request [OF _ toy_put_reads toy_put_verifies toy_put_verifies refl] by blast
qed

definition toy_stranger :: "(io_error + sock) list" where
  "toy_stranger = [Inr \<lparr>sk_reads = toy_reads, sk_room = None, sk_broken = 5\<rparr>]"

theorem unauthenticated_tcp_learns_nothing_witness:
  "\<exists>outs r. \<forall>(K :: nat buckets) s. serve_tcp flat_mac K toy_creds (Ok (V4 127 0 0 1)) False toy_stranger s = (s, outs, r)"
proof -
  have "\<not> wants_dav toy_request" "http_header (hr_headers toy_request) (byte_str ''authorization'') = None" by code_simp+
  then have "\<not> authenticated flat_mac toy_creds toy_request"
    by (simp add: authenticated_def verify_request_iff signed_of_def)
  then show ?thesis
    using unauthenticated_tcp_learns_nothing [of toy_stranger flat_mac toy_creds "Ok (V4 127 0 0 1)" False] toy_reads_request
    by (auto simp: toy_stranger_def)
qed

end
