(* ===== verification/Store_Face.thy ===== *)
theory Store_Face
  imports Gateway
begin

text \<open>
  What the gateway promises about a store behind it. The locale \<open>readable_store\<close> is the part of the
  contract of the trait \<open>Buckets\<close> that the read-only face needs: the reading operations do not change
  what is stored. \<open>object_store\<close> adds what reading, writing and deleting mean. A store may refuse or fail
  at any time; the contract says what an answer means, never that there is one. What it says may be
  subject to \<open>fine\<close>, which a store uses for the accidents it cannot exclude, a hash collision or an
  exhausted counter: a state that is \<open>fine\<close> has only \<open>fine\<close> ones before it. Below, the store of the
  gateway's own protocol tests (\<open>mem::Memory\<close> of \<open>lib.rs\<close>) is an instance.
\<close>

section \<open>The contract\<close>

text \<open>\<open>good\<close> is what holds of the reachable states, \<open>view\<close> the content of each bucket.\<close>

locale readable_store =
  fixes K :: "'s buckets"
    and good :: "'s \<Rightarrow> bool"
    and fine :: "'s \<Rightarrow> bool"
    and view :: "'s \<Rightarrow> bytes \<Rightarrow> bytes \<Rightarrow> bytes option"
  assumes list_buckets_reads: "good s \<Longrightarrow> bk_list_buckets K s = (t, r) \<Longrightarrow> good t \<and> view t = view s \<and> (fine t \<longrightarrow> fine s)"
    and list_reads: "good s \<Longrightarrow> bk_list K b p s = (t, r2) \<Longrightarrow> good t \<and> view t = view s \<and> (fine t \<longrightarrow> fine s)"
    and get_reads: "good s \<Longrightarrow> bk_get K b k s = (t, r3) \<Longrightarrow> good t \<and> view t = view s \<and> (fine t \<longrightarrow> fine s)"
    and head_reads: "good s \<Longrightarrow> bk_head K b k s = (t, r4) \<Longrightarrow> good t \<and> view t = view s \<and> (fine t \<longrightarrow> fine s)"
    and get_range_reads: "good s \<Longrightarrow> bk_get_range K b k x y s = (t, r5) \<Longrightarrow> good t \<and> view t = view s \<and> (fine t \<longrightarrow> fine s)"
begin

definition same :: "'s \<Rightarrow> 's \<Rightarrow> bool" where "same s t \<longleftrightarrow> good t \<and> view t = view s \<and> (fine t \<longrightarrow> fine s)"

lemma same_ops:
  "same s t \<Longrightarrow> same s (fst (bk_list_buckets K t))" "same s t \<Longrightarrow> same s (fst (bk_list K b p t))"
  "same s t \<Longrightarrow> same s (fst (bk_get K b k t))" "same s t \<Longrightarrow> same s (fst (bk_head K b k t))"
  "same s t \<Longrightarrow> same s (fst (bk_get_range K b k x y t))"
  unfolding same_def using list_buckets_reads list_reads get_reads head_reads get_range_reads by (metis prod.collapse)+

text \<open>The shape of the handlers: call the store, then go on with the state it left.\<close>

lemma same_case:
  assumes "same s (fst r)" "\<And>t e. same s t \<Longrightarrow> same s (fst (f t e))" "\<And>t v. same s t \<Longrightarrow> same s (fst (g t v))"
  shows "same s (fst (case r of (t, Inl e) \<Rightarrow> f t e | (t, Inr v) \<Rightarrow> g t v))"
  using assms by (cases r; cases "snd r") auto

lemma same_if: "(c \<Longrightarrow> same s (fst x)) \<Longrightarrow> (\<not> c \<Longrightarrow> same s (fst y)) \<Longrightarrow> same s (fst (if c then x else y))"
  by simp

lemma same_option:
  "same s (fst f) \<Longrightarrow> (\<And>v. same s (fst (g v))) \<Longrightarrow> same s (fst (case ov of None \<Rightarrow> f | Some v \<Rightarrow> g v))"
  by (cases ov) auto

lemma same_pair: "same s t \<Longrightarrow> same s (fst (t, out))"
  by simp

lemma same_prod: "(\<And>a b. same s (fst (g a b))) \<Longrightarrow> same s (fst (case ab of (a, b) \<Rightarrow> g a b))"
  by (cases ab) auto

lemmas same_intros = same_case same_if same_option same_ops same_pair

lemma object_get_same: "same s t \<Longrightarrow> same s (fst (write_object_get K b k rng t))"
  unfolding write_object_get_def by (intro same_intros same_prod; assumption?)

lemma append_children_same: "same s t \<Longrightarrow> same s (fst (append_children K b p base out t))"
  unfolding append_children_def Let_def by (intro same_case same_ops same_prod same_pair; assumption?)

lemma object_or_collection_same: "same s t \<Longrightarrow> same s (fst (object_or_collection K b k deep t))"
  unfolding object_or_collection_def Let_def by (intro same_intros append_children_same; assumption?)

lemma propfind_same: "same s t \<Longrightarrow> same s (fst (propfind K req rt t))"
  unfolding propfind_def Let_def
  by (cases rt; simp only: s3_route.case; intro same_intros append_children_same object_or_collection_same; assumption?)

lemma dav_same: "same s t \<Longrightarrow> same s (fst (dav_dispatch K req t))"
  unfolding dav_dispatch_def Let_def
  by (cases "route (hr_path req) (hr_query req)"; simp only: s3_route.case;
      intro same_intros propfind_same object_get_same; assumption?)

text \<open>The WebDAV face is read-only, whatever it is asked.\<close>

lemma dav_reads: "good s \<Longrightarrow> same s (fst (dav_dispatch K req s))"
  using dav_same [of s s req] by (simp add: same_def)

text \<open>And so is the S3 face for every request but PUT and DELETE on an object.\<close>

definition writes :: "http_request \<Rightarrow> bool" where
  "writes req \<longleftrightarrow> to_ascii_uppercase (hr_method req) \<in> {byte_str ''PUT'', byte_str ''DELETE''} \<and>
    (\<exists>b k. route (hr_path req) (hr_query req) = ObjectAt b k)"

lemma s3_same: "\<not> writes req \<Longrightarrow> same s t \<Longrightarrow> same s (fst (s3_dispatch K req t))"
  unfolding s3_dispatch_def Let_def writes_def
  by (cases "route (hr_path req) (hr_query req)"; simp only: s3_route.case;
      intro same_intros object_get_same; simp?)

end

section \<open>Status lines\<close>

definition status_of :: "bytes \<Rightarrow> bytes" where "status_of out = take 3 (drop 9 out)"

lemma status_of_response: "length (dec (unat st)) = 3 \<Longrightarrow> status_of (write_response_with st reason ct extra body) = dec (unat st)"
  by (simp add: status_of_def write_response_with_def)

lemma dec_status: "dec (unat (200 :: u16)) = byte_str ''200''" "dec (unat (401 :: u16)) = byte_str ''401''" "dec (unat (403 :: u16)) = byte_str ''403''"
  "dec (unat (404 :: u16)) = byte_str ''404''" "dec (unat (405 :: u16)) = byte_str ''405''" "dec (unat (400 :: u16)) = byte_str ''400''"
  "dec (unat (500 :: u16)) = byte_str ''500''"
  by code_simp+

lemma status_of_codes:
  "status_of (write_response_with 200 r c x b) = byte_str ''200''" "status_of (write_response_with 401 r c x b) = byte_str ''401''"
  "status_of (write_response_with 403 r c x b) = byte_str ''403''" "status_of (write_response_with 404 r c x b) = byte_str ''404''"
  "status_of (write_response_with 405 r c x b) = byte_str ''405''" "status_of (write_response_with 400 r c x b) = byte_str ''400''"
  "status_of (write_response_with 500 r c x b) = byte_str ''500''"
  by (subst status_of_response; simp only: dec_status length_byte_str; simp)+

lemmas status_simps = status_of_codes write_response_def write_empty_def

lemma face_err_status: "status_of (face_err e) \<noteq> byte_str ''200''"
  by (cases e) (simp_all add: status_simps)

lemma refusal_status: "status_of (auth_refusal e) \<noteq> byte_str ''200''" "status_of write_unauthorized \<noteq> byte_str ''200''"
  "status_of (dav_not_allowed why) \<noteq> byte_str ''200''"
  by (cases e) (simp_all add: auth_refusal_def auth_error_response_def write_unauthorized_def dav_not_allowed_def status_simps)

lemma empty_ok_status: "status_of (write_empty 200 ''OK'') = byte_str ''200''"
  by (simp add: status_simps)

section \<open>Reading back what was written\<close>

text \<open>What a request is refused with: nothing of the stored content is in it.\<close>

definition refusal :: "bytes \<Rightarrow> bool" where
  "refusal out \<longleftrightarrow> (\<exists>m. out = face_err (Refused m) \<or> out = face_err (FaceFailed m)) \<or> out = write_unauthorized \<or> (\<exists>e. out = auth_refusal e)"

definition request_is :: "string \<Rightarrow> bytes \<Rightarrow> bytes \<Rightarrow> http_request \<Rightarrow> bool" where
  "request_is m b k req \<longleftrightarrow> to_ascii_uppercase (hr_method req) = byte_str m \<and> route (hr_path req) (hr_query req) = ObjectAt b k"

locale object_store = readable_store K good fine view
  for K :: "'s buckets" and good fine :: "'s \<Rightarrow> bool" and view :: "'s \<Rightarrow> bytes \<Rightarrow> bytes \<Rightarrow> bytes option" +
  assumes put_writes: "good s \<Longrightarrow> bk_put K b k body s = (t, Ok n) \<Longrightarrow> fine t \<Longrightarrow> length body < 2 ^ 64 \<Longrightarrow> view t b k = Some body"
    and put_keeps: "good s \<Longrightarrow> bk_put K b k body s = (t, r) \<Longrightarrow> good t \<and> (fine t \<longrightarrow> fine s \<and>
      (\<forall>b' k' v. (b', k') \<noteq> (b, k) \<longrightarrow> view s b' k' = Some v \<longrightarrow> view t b' k' = Some v))"
    and delete_deletes: "good s \<Longrightarrow> bk_delete K b k s = (t, Ok u) \<Longrightarrow> fine t \<Longrightarrow> view t b k = None"
    and delete_keeps: "good s \<Longrightarrow> bk_delete K b k s = (t, r') \<Longrightarrow> good t \<and> (fine t \<longrightarrow> fine s \<and>
      (\<forall>b' k' v. (b', k') \<noteq> (b, k) \<longrightarrow> view s b' k' = Some v \<longrightarrow> view t b' k' = Some v))"
    and get_exact: "good s \<Longrightarrow> bk_get K b k s = (t, Ok body) \<Longrightarrow> view s b k = Some body"
    and get_missing: "good s \<Longrightarrow> bk_get K b k s = (t, Err (NotFound m)) \<Longrightarrow> view s b k = None"
begin

text \<open>A request that does not write the object keeps it.\<close>

definition keeps :: "bytes \<Rightarrow> bytes \<Rightarrow> 's \<Rightarrow> 's \<Rightarrow> bool" where
  "keeps b k s t \<longleftrightarrow> good t \<and> (fine t \<longrightarrow> fine s \<and> (\<forall>v. view s b k = Some v \<longrightarrow> view t b k = Some v))"

lemma same_keeps: "same s t \<Longrightarrow> keeps b k s t"
  by (simp add: same_def keeps_def)

lemma s3_other:
  assumes "good s" "\<not> request_is ''PUT'' b k req" "\<not> request_is ''DELETE'' b k req"
  shows "keeps b k s (fst (s3_dispatch K req s))"
proof (cases "writes req")
  case False
  then show ?thesis using s3_same [of req s s] assms(1) by (intro same_keeps) (simp add: same_def)
next
  case True
  then obtain b' k' where rt: "route (hr_path req) (hr_query req) = ObjectAt b' k'"
    and m: "to_ascii_uppercase (hr_method req) \<in> {byte_str ''PUT'', byte_str ''DELETE''}" by (auto simp: writes_def)
  have ne: "(b, k) \<noteq> (b', k')" using assms(2,3) rt m by (auto simp: request_is_def)
  obtain t1 r1 where p: "bk_put K b' k' (hr_body req) s = (t1, r1)" by (cases "bk_put K b' k' (hr_body req) s")
  obtain t2 r2 where d: "bk_delete K b' k' s = (t2, r2)" by (cases "bk_delete K b' k' s")
  have "keeps b k s t1" "keeps b k s t2"
    using put_keeps [OF assms(1) p] delete_keeps [OF assms(1) d] ne unfolding keeps_def by blast+
  then show ?thesis
    using m rt p d by (auto simp: s3_dispatch_def Let_def split: sum.split)
qed

lemma respond_other:
  assumes "good s" "\<not> request_is ''PUT'' b k req" "\<not> request_is ''DELETE'' b k req"
  shows "keeps b k s (fst (respond M K cr req s))"
proof -
  have "keeps b k s s" using assms(1) by (simp add: keeps_def)
  then show ?thesis
    using same_keeps [OF dav_reads [OF assms(1), of req]] s3_other [OF assms] by (auto simp: respond_def split: option.split sum.split)
qed

lemma respond_run:
  assumes "good s" "\<forall>r \<in> set reqs. \<not> request_is ''PUT'' b k r \<and> \<not> request_is ''DELETE'' b k r"
  shows "keeps b k s (foldl (\<lambda>s r. fst (respond M K cr r s)) s reqs)"
  using assms
proof (induction reqs arbitrary: s)
  case (Cons r reqs)
  have "keeps b k s (fst (respond M K cr r s))" using respond_other [of s b k r M cr] Cons.prems by simp
  moreover from this have "keeps b k (fst (respond M K cr r s)) (foldl (\<lambda>s r. fst (respond M K cr r s)) (fst (respond M K cr r s)) reqs)"
    using Cons by (simp add: keeps_def)
  ultimately show ?case by (simp add: keeps_def)
qed (simp add: keeps_def)

lemma acknowledged_put:
  assumes "good s" "request_is ''PUT'' b k req" "respond M K cr req s = (t, write_empty 200 ''OK'')" "length (hr_body req) < 2 ^ 64"
  shows "good t \<and> (fine t \<longrightarrow> view t b k = Some (hr_body req))"
proof -
  have m: "to_ascii_uppercase (hr_method req) = byte_str ''PUT''" and rt: "route (hr_path req) (hr_query req) = ObjectAt b k"
    using assms(2) by (simp_all add: request_is_def)
  have dav: "snd (dav_dispatch K req s) = dav_not_allowed ''this WebDAV face is read-only (SPECS 8)''"
    by (simp add: dav_dispatch_def Let_def m READ_ONLY_VERBS_def)
  have ok: "status_of (snd (respond M K cr req s)) = byte_str ''200''" using assms(3) empty_ok_status by simp
  have nd: "respond M K cr req s \<noteq> dav_dispatch K req s" using ok dav refusal_status(3) by metis
  have "respond M K cr req s \<in> {(s, write_unauthorized), dav_dispatch K req s, s3_dispatch K req s} \<union> range (\<lambda>e. (s, auth_refusal e))"
    by (auto simp: respond_def split: option.split sum.split)
  then have s3: "s3_dispatch K req s = (t, write_empty 200 ''OK'')"
    using ok refusal_status nd assms(3) by auto
  obtain t' r where p: "bk_put K b k (hr_body req) s = (t', r)" by (cases "bk_put K b k (hr_body req) s")
  have out: "s3_dispatch K req s = (t', case r of Inr _ \<Rightarrow> write_empty 200 ''OK'' | Inl e \<Rightarrow> face_err e)"
    using m rt p by (simp add: s3_dispatch_def Let_def split: sum.split)
  show ?thesis
  proof (cases r)
    case (Inl e)
    then show ?thesis using s3 out face_err_status [of e] empty_ok_status by simp
  next
    case (Inr n)
    then show ?thesis using put_writes [OF assms(1), of b k "hr_body req" t'] put_keeps [OF assms(1) p] assms(4) s3 out p by simp
  qed
qed

lemma get_answers:
  assumes "good s" "request_is ''GET'' b k req" "btm_get (hr_headers req) (byte_str ''range'') = None" "view s b k = Some body"
  shows "snd (respond M K cr req s) = write_response 200 ''OK'' ''application/octet-stream'' body \<or> refusal (snd (respond M K cr req s))"
proof -
  have m: "to_ascii_uppercase (hr_method req) = byte_str ''GET''" and rt: "route (hr_path req) (hr_query req) = ObjectAt b k"
    using assms(2) by (simp_all add: request_is_def)
  obtain t r where g: "bk_get K b k s = (t, r)" by (cases "bk_get K b k s")
  have out: "snd (write_object_get K b k None s) = write_response 200 ''OK'' ''application/octet-stream'' body \<or>
      refusal (snd (write_object_get K b k None s))"
  proof (cases r)
    case (Inl e)
    then show ?thesis using g get_missing [OF assms(1), of b k t] assms(4) by (cases e) (auto simp: write_object_get_def refusal_def)
  next
    case (Inr x)
    then show ?thesis using g get_exact [OF assms(1), of b k t x] assms(4) by (simp add: write_object_get_def)
  qed
  have "dav_dispatch K req s = write_object_get K b k None s" "s3_dispatch K req s = write_object_get K b k None s"
    using m rt assms(3) by (simp_all add: dav_dispatch_def s3_dispatch_def Let_def)
  then show ?thesis using out by (auto simp: respond_def refusal_def split: option.split sum.split)
qed

text \<open>What was acknowledged is what is read, until it is written or deleted again.\<close>

lemma acknowledged_put_then_get:
  assumes "good s" "request_is ''PUT'' b k p" "respond M K cr p s = (t, write_empty 200 ''OK'')" "length (hr_body p) < 2 ^ 64"
    and "\<forall>r \<in> set reqs. \<not> request_is ''PUT'' b k r \<and> \<not> request_is ''DELETE'' b k r"
    and "u = foldl (\<lambda>s r. fst (respond M K cr r s)) t reqs" "fine u"
    and "request_is ''GET'' b k g" "btm_get (hr_headers g) (byte_str ''range'') = None"
  shows "snd (respond M K cr' g u) = write_response 200 ''OK'' ''application/octet-stream'' (hr_body p) \<or>
    refusal (snd (respond M K cr' g u))"
proof -
  have t: "good t" "fine t \<longrightarrow> view t b k = Some (hr_body p)" using acknowledged_put [OF assms(1-4)] by auto
  then have "keeps b k t u" using respond_run [OF _ assms(5), of t M cr] assms(6) by simp
  then have "good u" "view u b k = Some (hr_body p)" using t assms(7) by (auto simp: keeps_def)
  then show ?thesis using get_answers [OF _ assms(8,9)] by blast
qed

end

section \<open>The store of the protocol tests\<close>

type_synonym memory = "(bytes, (bytes, bytes) btreemap) btreemap"

definition mem_with_bucket :: "bytes \<Rightarrow> memory" where
  "mem_with_bucket name = btm_insert name [] []"

definition mem_list_buckets :: "memory \<Rightarrow> memory \<times> (face_error + bytes list)" where
  "mem_list_buckets g = (g, Ok (map fst g))"

definition mem_list :: "bytes \<Rightarrow> bytes \<Rightarrow> memory \<Rightarrow> memory \<times> (face_error + object_info list)" where
  "mem_list bucket pre g =
    (g, case btm_get g bucket of
          None \<Rightarrow> Err (NotFound bucket)
        | Some b \<Rightarrow> Ok (map (\<lambda>(k, v). \<lparr>oi_key = k, oi_size = of_nat (length v), oi_tombstone = False\<rparr>)
                          (filter (\<lambda>(k, v). pre = [] \<or> starts_with k pre) b)))"

definition mem_get :: "bytes \<Rightarrow> bytes \<Rightarrow> memory \<Rightarrow> memory \<times> (face_error + bytes)" where
  "mem_get bucket key g = (g, ok_or (Option.bind (btm_get g bucket) (\<lambda>b. btm_get b key)) (NotFound key))"

definition mem_put :: "bytes \<Rightarrow> bytes \<Rightarrow> bytes \<Rightarrow> memory \<Rightarrow> memory \<times> (face_error + u64)" where
  "mem_put bucket key body g =
    (case btm_get g bucket of
       None \<Rightarrow> (g, Err (NotFound bucket))
     | Some b \<Rightarrow> (btm_insert bucket (btm_insert key body b) g, Ok (of_nat (length body))))"

definition mem_delete :: "bytes \<Rightarrow> bytes \<Rightarrow> memory \<Rightarrow> memory \<times> (face_error + unit)" where
  "mem_delete bucket key g =
    (case btm_get g bucket of
       None \<Rightarrow> (g, Err (NotFound key))
     | Some b \<Rightarrow>
         (case btm_get b key of
            None \<Rightarrow> (g, Err (NotFound key))
          | Some _ \<Rightarrow> (btm_insert bucket (btm_remove key b) g, Ok ())))"

definition mem_head :: "bytes \<Rightarrow> bytes \<Rightarrow> memory \<Rightarrow> memory \<times> (face_error + u64)" where
  "mem_head bucket key g =
    (case mem_get bucket key g of (g', Inl e) \<Rightarrow> (g', Err e) | (g', Inr b) \<Rightarrow> (g', Ok (of_nat (length b))))"

definition memory_buckets :: "memory buckets" where
  "memory_buckets = \<lparr>bk_list_buckets = mem_list_buckets, bk_list = mem_list, bk_get = mem_get, bk_put = mem_put,
     bk_delete = mem_delete, bk_head = mem_head, bk_get_range = default_get_range mem_get\<rparr>"

definition mem_inv :: "memory \<Rightarrow> bool" where
  "mem_inv g \<longleftrightarrow> btm_inv g \<and> (\<forall>(b, m) \<in> set g. btm_inv m)"

definition mem_view :: "memory \<Rightarrow> bytes \<Rightarrow> bytes \<Rightarrow> bytes option" where
  "mem_view g b k = Option.bind (btm_get g b) (\<lambda>m. btm_get m k)"

lemma mem_inv_insert: "mem_inv g \<Longrightarrow> btm_inv m \<Longrightarrow> mem_inv (btm_insert b m g)"
  using set_btm_insert_subset [of b m g] by (auto simp: mem_inv_def)

lemma mem_inner: "mem_inv g \<Longrightarrow> btm_get g b = Some m \<Longrightarrow> btm_inv m"
  by (auto simp: mem_inv_def dest!: map_of_SomeD)

lemma mem_set:
  assumes "mem_inv g" "btm_inv m"
  shows "mem_inv (btm_insert b m g) \<and> mem_view (btm_insert b m g) = (mem_view g)(b := btm_get m)"
proof -
  have "btm_inv g" using assms(1) by (simp add: mem_inv_def)
  then show ?thesis using mem_inv_insert [OF assms] by (auto simp: mem_view_def fun_eq_iff)
qed

lemma mem_bucket: "btm_get g b = Some m \<Longrightarrow> mem_view g b = btm_get m"
  by (simp add: mem_view_def fun_eq_iff)

interpretation memory_store: object_store memory_buckets mem_inv "\<lambda>_. True" mem_view
proof
  fix s t :: memory and b k body p m x y n e u r r2 r3 r4 r5 r6
  show "mem_inv s \<Longrightarrow> bk_list_buckets memory_buckets s = (t, r) \<Longrightarrow> mem_inv t \<and> mem_view t = mem_view s \<and> (True \<longrightarrow> True)"
    by (auto simp: memory_buckets_def mem_list_buckets_def)
  show "mem_inv s \<Longrightarrow> bk_list memory_buckets b p s = (t, r2) \<Longrightarrow> mem_inv t \<and> mem_view t = mem_view s \<and> (True \<longrightarrow> True)"
    by (auto simp: memory_buckets_def mem_list_def)
  show "mem_inv s \<Longrightarrow> bk_get memory_buckets b k s = (t, r3) \<Longrightarrow> mem_inv t \<and> mem_view t = mem_view s \<and> (True \<longrightarrow> True)"
    by (auto simp: memory_buckets_def mem_get_def)
  show "mem_inv s \<Longrightarrow> bk_head memory_buckets b k s = (t, r4) \<Longrightarrow> mem_inv t \<and> mem_view t = mem_view s \<and> (True \<longrightarrow> True)"
    by (auto simp: memory_buckets_def mem_head_def mem_get_def split: sum.splits)
  show "mem_inv s \<Longrightarrow> bk_get_range memory_buckets b k x y s = (t, r5) \<Longrightarrow> mem_inv t \<and> mem_view t = mem_view s \<and> (True \<longrightarrow> True)"
    by (auto simp: memory_buckets_def default_get_range_def mem_get_def Let_def split: sum.splits)
  have put: "mem_inv t \<and> (r4 = Ok n \<longrightarrow> mem_view t = (mem_view s)(b := (mem_view s b)(k \<mapsto> body))) \<and> (is_err r4 \<longrightarrow> t = s)"
    if "mem_inv s" "mem_put b k body s = (t, r4)" for n r4
    using that mem_inner [of s b] mem_set [of s]
    by (auto simp: mem_put_def mem_bucket fun_eq_iff split: option.splits)
  have del: "mem_inv t \<and> (r6 = Ok () \<longrightarrow> mem_view t = (mem_view s)(b := (mem_view s b)(k := None))) \<and> (is_err r6 \<longrightarrow> t = s)"
    if "mem_inv s" "mem_delete b k s = (t, r6)" for r6
    using that mem_inner [of s b] mem_set [of s]
    by (auto simp: mem_delete_def mem_bucket fun_eq_iff btm_get_remove split: option.splits)
  show "mem_inv s \<Longrightarrow> bk_put memory_buckets b k body s = (t, Ok n) \<Longrightarrow> True \<Longrightarrow> length body < 2 ^ 64 \<Longrightarrow> mem_view t b k = Some body"
    using put [of "Ok n" n] by (auto simp: memory_buckets_def)
  show "mem_inv s \<Longrightarrow> bk_put memory_buckets b k body s = (t, r4) \<Longrightarrow> mem_inv t \<and> (True \<longrightarrow> True \<and>
      (\<forall>b' k' v. (b', k') \<noteq> (b, k) \<longrightarrow> mem_view s b' k' = Some v \<longrightarrow> mem_view t b' k' = Some v))"
    using put [of r4 "projr r4"] by (cases r4) (auto simp: memory_buckets_def)
  show "mem_inv s \<Longrightarrow> bk_delete memory_buckets b k s = (t, Ok u) \<Longrightarrow> True \<Longrightarrow> mem_view t b k = None"
    using del [of "Ok ()"] by (auto simp: memory_buckets_def)
  show "mem_inv s \<Longrightarrow> bk_delete memory_buckets b k s = (t, r6) \<Longrightarrow> mem_inv t \<and> (True \<longrightarrow> True \<and>
      (\<forall>b' k' v. (b', k') \<noteq> (b, k) \<longrightarrow> mem_view s b' k' = Some v \<longrightarrow> mem_view t b' k' = Some v))"
    using del [of r6] by (cases r6) (auto simp: memory_buckets_def)
  show "mem_inv s \<Longrightarrow> bk_get memory_buckets b k s = (t, Ok body) \<Longrightarrow> mem_view s b k = Some body"
    by (auto simp: memory_buckets_def mem_get_def mem_view_def ok_or_Inr_iff)
  show "mem_inv s \<Longrightarrow> bk_get memory_buckets b k s = (t, Err (NotFound m)) \<Longrightarrow> mem_view s b k = None"
    by (auto simp: memory_buckets_def mem_get_def mem_view_def ok_or_def split: option.splits)
qed

end
