(* ===== verification/Gateway_Creds.thy ===== *)
theory Gateway_Creds
  imports Sigv4
begin

text \<open>
  \<open>nas-gateway/src/creds.rs\<close>: the credentials file \<open>state/gateway.json\<close>, written as a two-field object and
  read back by searching for the field names.
\<close>

datatype creds_error = CredsParse | MissingField string

definition generate :: "bytes \<Rightarrow> bytes \<Rightarrow> creds" where
  "generate seed_ak seed_sk = \<lparr>access_key_id = hex_encode seed_ak, secret_access_key = hex_encode seed_sk\<rparr>"

definition creds_encode :: "creds \<Rightarrow> bytes" where
  \<open>creds_encode c =
    byte_str ''{"access_key_id":"'' @ access_key_id c @ byte_str ''","secret_access_key":"'' @ secret_access_key c @ byte_str ''"}'' @ [10]\<close>

definition json_string :: "bytes \<Rightarrow> bytes \<Rightarrow> bytes option" where
  "json_string s key =
    (let needle = [34] @ key @ [34] in
     Option.bind (split_once_str needle s) (\<lambda>(_, rest0).
     Option.bind (strip_prefix [58] (trim_start rest0)) (\<lambda>rest1.
     Option.bind (strip_prefix [34] (trim_start rest1)) (\<lambda>rest2.
     map_option fst (split_once 34 rest2)))))"

definition creds_decode :: "bytes \<Rightarrow> creds_error + creds" where
  "creds_decode bs =
    (if \<not> from_utf8_ok bs then Err CredsParse
     else rbind (ok_or (json_string bs (byte_str ''access_key_id'')) (MissingField ''access_key_id'')) (\<lambda>ak.
     rbind (ok_or (json_string bs (byte_str ''secret_access_key'')) (MissingField ''secret_access_key'')) (\<lambda>sk.
     if ak = [] \<or> sk = [] then Err CredsParse
     else Ok \<lparr>access_key_id = ak, secret_access_key = sk\<rparr>)))"

section \<open>The file reads back\<close>

lemma json_string_found:
  assumes "find_sub ([34] @ key @ [34]) s = Some (length pre)" "s = pre @ [34] @ key @ [34] @ [58, 34] @ v @ 34 # rest" "34 \<notin> set v"
  shows "json_string s key = Some v"
proof -
  have "split_once_str ([34] @ key @ [34]) s = Some (pre, [58, 34] @ v @ 34 # rest)"
    unfolding split_once_str_def assms(1) using assms(2) by simp
  moreover have "split_once 34 (v @ 34 # rest) = Some (v, rest)" using assms(3) by simp
  moreover have "strip_prefix [c] (c # r) = Some r" for c r by simp
  ultimately show ?thesis
    by (simp add: json_string_def Let_def graphic_def del: split_once_Some strip_prefix_iff)
qed

lemma starts_quoted:
  assumes "34 \<notin> set k" "34 \<notin> set x"
  shows "starts_with (34 # x @ 34 # r) (34 # k @ [34]) \<longleftrightarrow> x = k"
proof -
  have "x @ 34 # r = k @ 34 # t \<longleftrightarrow> x = k \<and> r = t" for t
  proof
    assume eq: "x @ 34 # r = k @ 34 # t"
    have "split_once 34 (x @ 34 # r) = Some (x, r)" "split_once 34 (k @ 34 # t) = Some (k, t)" using assms by simp_all
    then show "x = k \<and> r = t" unfolding eq by (simp del: split_once_Some)
  qed simp
  then show ?thesis by (auto simp: starts_with_iff)
qed

text \<open>The search passes over a quoted text that is not the one it looks for.\<close>

lemma find_past_quoted:
  assumes "34 \<notin> set k" "34 \<notin> set x" "34 \<notin> set y" "x \<noteq> k" "\<not> starts_with (34 # y @ s) (34 # k @ [34])"
  shows "find_sub (34 # k @ [34]) (34 # x @ 34 # y @ s) = map_option (\<lambda>i. i + (length x + length y + 2)) (find_sub (34 # k @ [34]) s)"
proof -
  have "find_sub (34 # k @ [34]) (34 # y @ s) = map_option Suc (find_sub (34 # k @ [34]) (y @ s))" using assms(5) by simp
  moreover have "find_sub (34 # k @ [34]) (34 # x @ 34 # y @ s) = map_option Suc (find_sub (34 # k @ [34]) (x @ 34 # y @ s))"
    using starts_quoted [OF assms(1,2)] assms(4) by simp
  ultimately show ?thesis
    by (cases "find_sub (34 # k @ [34]) s") (simp_all add: find_sub_skip assms)
qed

lemma creds_file_reads_back:
  assumes "34 \<notin> set (access_key_id c)" "34 \<notin> set (secret_access_key c)" "access_key_id c \<noteq> []" "secret_access_key c \<noteq> []"
    and "access_key_id c \<noteq> byte_str ''secret_access_key''" "from_utf8_ok (creds_encode c)"
  shows "creds_decode (creds_encode c) = Ok c"
proof -
  let ?a = "byte_str ''access_key_id''" and ?k = "byte_str ''secret_access_key''" and ?ak = "access_key_id c" and ?sk = "secret_access_key c"
  have q: "34 \<notin> set ?a" "34 \<notin> set ?k" by (simp_all add: byte_str_def)
  have spelt: "creds_encode c = [123] @ 34 # ?a @ 34 # [58] @ 34 # ?ak @ 34 # [44] @ 34 # ?k @ 34 # 58 # 34 # ?sk @ 34 # 125 # [10]"
    by (simp add: creds_encode_def byte_str_def)
  have "find_sub (34 # ?a @ [34]) (creds_encode c) = Some 1"
    unfolding spelt using starts_quoted [OF q(1,1)] by (subst find_sub_skip) auto
  then have ak: "json_string (creds_encode c) ?a = Some ?ak"
    using assms(1) spelt by (intro json_string_found [where pre = "[123]"]) auto
  have sep: "\<not> starts_with (34 # [58] @ r) (34 # ?k @ [34])" "\<not> starts_with (34 # [44] @ r) (34 # ?k @ [34])" for r
    by (simp_all add: starts_with_def byte_str_def)
  have "find_sub (34 # ?k @ [34]) (34 # ?k @ 34 # 58 # 34 # ?sk @ 34 # 125 # [10]) = Some 0"
    using starts_quoted [OF q(2,2)] by simp
  then have "find_sub (34 # ?k @ [34]) (34 # ?ak @ 34 # [44] @ 34 # ?k @ 34 # 58 # 34 # ?sk @ 34 # 125 # [10]) = Some (length ?ak + 3)"
    using find_past_quoted [OF q(2) assms(1) _ assms(5) sep(2)] by simp
  then have "find_sub (34 # ?k @ [34]) (34 # ?a @ 34 # [58] @ 34 # ?ak @ 34 # [44] @ 34 # ?k @ 34 # 58 # 34 # ?sk @ 34 # 125 # [10]) =
      Some (length ?a + length ?ak + 6)"
    using find_past_quoted [OF q(2,1) _ _ sep(1)] by simp
  then have "find_sub (34 # ?k @ [34]) (creds_encode c) = Some (length ?a + length ?ak + 7)"
    unfolding spelt by (subst find_sub_skip) auto
  then have sk: "json_string (creds_encode c) ?k = Some ?sk"
    using assms(2) spelt by (intro json_string_found [where pre = "[123] @ 34 # ?a @ 34 # [58] @ 34 # ?ak @ 34 # [44]"]) auto
  show ?thesis using ak sk assms(3,4,6) by (simp add: creds_decode_def)
qed

text \<open>What \<open>generate\<close> makes reads back.\<close>

lemma generated_creds_read_back:
  assumes "seed_ak \<noteq> []" "seed_sk \<noteq> []"
  shows "creds_decode (creds_encode (generate seed_ak seed_sk)) = Ok (generate seed_ak seed_sk)"
proof -
  have "\<forall>n \<in> set [0..<16]. hex_digit n < 0x80 \<and> hex_digit n \<noteq> 34 \<and> hex_digit n \<noteq> 115" by code_simp
  then have hex: "\<forall>b \<in> set (hex_encode x). b < 0x80 \<and> b \<noteq> 34 \<and> b \<noteq> 115" for x using nibble_bounds by (fastforce simp: hex_encode_def)
  have ne: "hex_encode x \<noteq> []" if "x \<noteq> []" for x using that by (cases x) (simp_all add: hex_encode_def)
  have "115 \<in> set (byte_str ''secret_access_key'')" by (simp add: byte_str_def)
  then have "hex_encode seed_ak \<noteq> byte_str ''secret_access_key''" using hex by metis
  moreover have "from_utf8_ok (creds_encode (generate seed_ak seed_sk))"
    using hex by (intro utf8_ascii) (auto simp: creds_encode_def generate_def byte_str_def)
  ultimately show ?thesis
    using hex assms ne by (intro creds_file_reads_back) (auto simp: generate_def)
qed

end
