(* ===== verification/Text_Lines.thy ===== *)
theory Text_Lines
  imports Text
begin

text \<open>
  The text operations the local files are read with: \<open>str::lines\<close>, the words \<open>split_whitespace\<close> yields,
  \<open>strip_suffix\<close>, and the file names of paths.
\<close>

section \<open>Lines\<close>

definition strip_suffix :: "bytes \<Rightarrow> bytes \<Rightarrow> bytes option" where
  "strip_suffix suf s = (if length suf \<le> length s \<and> drop (length s - length suf) s = suf
     then Some (take (length s - length suf) s) else None)"

lemma strip_suffix_iff: "strip_suffix suf s = Some r \<longleftrightarrow> s = r @ suf"
proof
  assume "strip_suffix suf s = Some r"
  then have "drop (length s - length suf) s = suf" "r = take (length s - length suf) s"
    by (auto simp: strip_suffix_def split: if_splits)
  then show "s = r @ suf" by (metis append_take_drop_id)
qed (simp add: strip_suffix_def)

definition strip_cr :: "bytes \<Rightarrow> bytes" where
  "strip_cr l = (case strip_suffix [13] l of Some r \<Rightarrow> r | None \<Rightarrow> l)"

text \<open>A line ends at \<open>\n\<close> or \<open>\r\n\<close>; an unterminated last line keeps its \<open>\r\<close>.\<close>

definition str_lines :: "bytes \<Rightarrow> bytes list" where
  "str_lines s = (let ps = split_on 10 s in map strip_cr (butlast ps) @ (if last ps = [] then [] else [last ps]))"

lemma str_lines_Nil [simp]: "str_lines [] = []"
  by (simp add: str_lines_def)

lemma str_lines_line: "10 \<notin> set l \<Longrightarrow> str_lines (l @ 10 # s) = strip_cr l # str_lines s"
  by (simp add: str_lines_def split_on_append Let_def)

lemma strip_cr_keeps: "l = [] \<or> last l \<noteq> 13 \<Longrightarrow> strip_cr l = l"
  by (auto simp: strip_cr_def strip_suffix_iff split: option.split)

lemma str_lines_unlines:
  "\<forall>l \<in> set ls. 10 \<notin> set l \<and> 13 \<notin> set l \<Longrightarrow> str_lines (concat (map (\<lambda>l. l @ [10]) ls)) = ls"
proof (induction ls)
  case (Cons l ls)
  then have "strip_cr l = l" by (intro strip_cr_keeps) (cases l rule: rev_cases, auto)
  then show ?case using Cons by (simp add: str_lines_line)
qed simp

section \<open>Words\<close>

text \<open>\<open>next\<close> of \<open>split_whitespace\<close>: the next word and what follows it.\<close>

fun take_word :: "bytes \<Rightarrow> bytes" where
  "take_word [] = []"
| "take_word (b # s) = (if 0 < white_len (b # s) then [] else b # take_word s)"

definition next_word :: "bytes \<Rightarrow> (bytes \<times> bytes) option" where
  "next_word s =
    (let t = trim_start s in
     if t = [] then None else Some (take_word t, drop (length (take_word t)) t))"

definition two_words :: "bytes \<Rightarrow> bytes option \<times> bytes option" where
  "two_words s =
    (case next_word s of
       None \<Rightarrow> (None, None)
     | Some (w, r) \<Rightarrow> (Some w, map_option fst (next_word r)))"

definition word_text :: "bytes \<Rightarrow> bool" where
  "word_text w \<longleftrightarrow> w \<noteq> [] \<and> list_all graphic w"

lemma white_len_space [simp]: "white_len (32 # s) = 1"
  by (simp add: white_len_def white1_def)

lemma take_word_graphic: "list_all graphic w \<Longrightarrow> take_word (w @ 32 # s) = w" "list_all graphic w \<Longrightarrow> take_word w = w"
  by (induction w) simp_all

lemma trim_start_space [simp]: "trim_start (32 # s) = trim_start s"
  unfolding trim_start_def by (subst trim_by.simps) simp

lemma next_word_space [simp]: "next_word (32 # s) = next_word s"
  by (simp add: next_word_def)

lemma next_word_text:
  "word_text w \<Longrightarrow> next_word (w @ 32 # s) = Some (w, 32 # s)" "word_text w \<Longrightarrow> next_word w = Some (w, [])"
proof -
  have hd: "trim_start (w @ r) = w @ r" if "word_text w" for r using that by (cases w) (simp_all add: word_text_def)
  assume w: "word_text w"
  then have "list_all graphic w" "w \<noteq> []" by (simp_all add: word_text_def)
  then show "next_word (w @ 32 # s) = Some (w, 32 # s)" "next_word w = Some (w, [])"
    using hd [OF w, of "32 # s"] hd [OF w, of "[]"] by (simp_all add: next_word_def take_word_graphic)
qed

lemma two_words_text [simp]:
  "word_text k \<Longrightarrow> word_text v \<Longrightarrow> two_words (k @ 32 # v) = (Some k, Some v)"
  by (simp add: two_words_def next_word_text)

lemma graphic_line: "word_text w \<Longrightarrow> 10 \<notin> set w \<and> 13 \<notin> set w \<and> 32 \<notin> set w"
  by (auto simp: word_text_def list_all_iff graphic_def dest: bspec)

section \<open>Paths\<close>

text \<open>\<open>PathBuf::join\<close> and \<open>Path::file_name\<close> on the bytes of a path.\<close>

definition path_join :: "bytes \<Rightarrow> bytes \<Rightarrow> bytes" where
  "path_join a b =
    (if b \<noteq> [] \<and> hd b = 47 then b
     else if a = [] \<or> last a = 47 then a @ b
     else a @ [47] @ b)"

definition file_name :: "bytes \<Rightarrow> bytes option" where
  "file_name p =
    (let parts = filter (\<lambda>c. c \<noteq> [] \<and> c \<noteq> [46]) (split_on 47 p) in
     if parts = [] \<or> last parts = [46, 46] then None else Some (last parts))"

text \<open>\<open>Path::extension\<close> of a file name: what follows the last dot, unless the name starts with it.\<close>

definition extension :: "bytes \<Rightarrow> bytes option" where
  "extension name =
    (if 46 \<notin> set name \<or> name = [46, 46] then None
     else let parts = split_on 46 name in
       if length parts = 2 \<and> hd parts = [] then None else Some (last parts))"

lemma split_on_Cons_sep: "split_on c (c # s) = [] # split_on c s"
  using split_on_append [of c "[]" s] by simp

lemma split_on_snoc: "c \<notin> set q \<Longrightarrow> split_on c (p @ c # q) = split_on c p @ [q]"
proof (induction p rule: split_on.induct)
  case (1 c)
  then show ?case by (simp add: split_on_Cons_sep)
next
  case (2 c b s)
  then show ?case by (cases "split_on c s") (auto simp: split_on_Cons_sep split: list.split)
qed

lemma last_split_on_snoc: "c \<notin> set q \<Longrightarrow> last (split_on c (p @ c # q)) = q"
  by (simp add: split_on_snoc)

definition plain_name :: "bytes \<Rightarrow> bool" where
  "plain_name n \<longleftrightarrow> n \<noteq> [] \<and> n \<noteq> [46] \<and> n \<noteq> [46, 46] \<and> 47 \<notin> set n"

lemma file_name_join: "plain_name n \<Longrightarrow> file_name (path_join a n) = Some n"
proof -
  assume n: "plain_name n"
  then have hd: "hd n \<noteq> 47" by (cases n) (auto simp: plain_name_def)
  have parts: "\<exists>ps. split_on 47 (path_join a n) = ps @ [n]"
  proof (cases "a = []")
    case True
    then show ?thesis using n hd by (simp add: path_join_def plain_name_def)
  next
    case False
    show ?thesis
    proof (cases "last a = 47")
      case True
      then have "path_join a n = butlast a @ 47 # n" using False hd by (simp add: path_join_def) (metis append_butlast_last_id append.assoc append_Cons append_Nil)
      then show ?thesis using n by (simp add: split_on_snoc plain_name_def)
    qed (use False hd n in \<open>simp add: path_join_def split_on_snoc plain_name_def\<close>)
  qed
  then show ?thesis using n by (auto simp: file_name_def plain_name_def Let_def)
qed

end
