(* ===== verification/Repo.thy ===== *)
theory Repo
  imports Vault Text_Lines Object
begin

text \<open>
  \<open>nas-cli/src/repo.rs\<close> and \<open>keychain.rs\<close>: a namespace on the local disk. Its directory is the record
  \<open>ns_dir\<close>: the files the code reads and writes, each absent or with its bytes. The OS keychain is a
  map from account to secret, reached through a helper program. What the operating system answers is
  \<open>repo_io\<close>: a write that is not atomic may fail and leave anything behind, which is why the answer to
  a failed write carries the content left.
\<close>

section \<open>Names in the configuration\<close>

fun mode_str :: "mode \<Rightarrow> string" where
  "mode_str E2ee = ''e2ee''"
| "mode_str Passphrase = ''passphrase''"
| "mode_str TransitOnly = ''transit-only''"

definition parse_mode :: "bytes \<Rightarrow> mode option" where
  "parse_mode s =
    (if s = byte_str ''e2ee'' then Some E2ee
     else if s = byte_str ''passphrase'' then Some Passphrase
     else if s = byte_str ''transit-only'' then Some TransitOnly
     else None)"

fun key_scheme_str :: "key_scheme \<Rightarrow> string" where
  "key_scheme_str Convergent = ''convergent''"
| "key_scheme_str IndexedRandom = ''indexed-random''"
| "key_scheme_str Plaintext = ''plaintext''"

fun padding_str :: "padding_profile \<Rightarrow> string" where
  "padding_str PadNone = ''none''"
| "padding_str Classes = ''classes''"
| "padding_str Fixed = ''fixed''"

definition parse_padding :: "bytes \<Rightarrow> padding_profile option" where
  "parse_padding s =
    (if s = byte_str ''none'' then Some PadNone
     else if s = byte_str ''classes'' then Some Classes
     else if s = byte_str ''fixed'' then Some Fixed
     else None)"

definition unhex :: "bytes \<Rightarrow> bytes option" where
  "unhex s = (if odd (length s) then None else radix16_pairs s)"

datatype object_lock = Governance | Compliance | LegalHold

fun ObjectLock_as_str :: "object_lock \<Rightarrow> string" where
  "ObjectLock_as_str Governance = ''governance''"
| "ObjectLock_as_str Compliance = ''compliance''"
| "ObjectLock_as_str LegalHold = ''legal-hold''"

definition parse_object_lock :: "bytes \<Rightarrow> object_lock option" where
  "parse_object_lock s =
    (if s = byte_str ''governance'' then Some Governance
     else if s = byte_str ''compliance'' then Some Compliance
     else if s = byte_str ''legal-hold'' \<or> s = byte_str ''legal_hold'' then Some LegalHold
     else None)"

text \<open>\<open>7y\<close>, \<open>90d\<close>, \<open>24h\<close> or seconds; \<open>checked_mul\<close> refuses what does not fit.\<close>

definition unit_secs :: "bytes \<Rightarrow> u64 option" where
  "unit_secs unit =
    (if unit = [] \<or> unit = byte_str ''s'' then Some 1
     else if unit = byte_str ''h'' then Some 3600
     else if unit = byte_str ''d'' then Some 86400
     else if unit = byte_str ''y'' then Some (365 * 86400)
     else None)"

definition parse_retention :: "bytes \<Rightarrow> u64 option" where
  "parse_retention s =
    (let digits = takeWhile dec_digit s; unit = dropWhile dec_digit s in
     Option.bind (parse_u64 digits) (\<lambda>n.
     Option.bind (unit_secs unit) (\<lambda>secs.
     if unat n * unat secs < 2 ^ 64 then Some (n * secs) else None)))"

section \<open>The directory, the keychain and the world\<close>

record ns_dir =
  nd_config :: "bytes option"
  nd_vault :: "bytes option"
  nd_vault_tmp :: "bytes option"
  nd_vault_key :: "bytes option"
  nd_wraps :: "(bytes, bytes) btreemap"
  nd_head :: "bytes option"

record place =
  pl_keychain :: "(bytes, bytes) btreemap"
  pl_dir :: ns_dir

datatype repo_error =
    RepoIo io_error
  | RepoNotFound
  | AlreadyExists
  | RepoOther string
  | RepoVault vault_error
  | RepoWrap wrap_error
  | RepoSign sign_error
  | RepoRootErr root_error
  | RepoCrypto crypto_error
  | PolicyRefusal string
  | RepoPanic

record repo_io =
  ri_read :: "string \<Rightarrow> io_error option"
  ri_write :: "string \<Rightarrow> (io_error \<times> bytes option) option"
  ri_mkdir :: "io_error option"
  ri_open_tmp :: "io_error option"
  ri_rename :: "io_error option"
  ri_remove_tmp :: bool
  ri_sync :: "io_error option"
  ri_kc_load :: bool
  ri_kc_store :: bool
  ri_urandom :: "nat \<Rightarrow> bytes option"
  ri_nonce :: bytes
  ri_prompt :: "repo_error + bytes option"

definition read_file :: "repo_io \<Rightarrow> string \<Rightarrow> bytes option \<Rightarrow> repo_error + bytes" where
  "read_file io name content =
    (case ri_read io name of
       Some e \<Rightarrow> Err (RepoIo e)
     | None \<Rightarrow> ok_or content RepoNotFound)"

text \<open>\<open>read_to_string\<close> also refuses what is not UTF-8.\<close>

definition read_text :: "repo_io \<Rightarrow> string \<Rightarrow> bytes option \<Rightarrow> repo_error + bytes" where
  "read_text io name content =
    rbind (read_file io name content) (\<lambda>bs. if from_utf8_ok bs then Ok bs else Err (RepoOther ''not UTF-8''))"

text \<open>\<open>fs::write\<close> and \<open>write_private\<close> truncate and write in place.\<close>

definition write_file :: "repo_io \<Rightarrow> string \<Rightarrow> bytes \<Rightarrow> bytes option \<times> (repo_error + unit)" where
  "write_file io name bs =
    (case ri_write io name of None \<Rightarrow> (Some bs, Ok ()) | Some (e, left) \<Rightarrow> (left, Err (RepoIo e)))"

definition random_secret :: "repo_io \<Rightarrow> nat \<Rightarrow> repo_error + bytes" where
  "random_secret io i = map_err (\<lambda>_. RepoOther ''urandom'') (random_array (ri_urandom io i) KEY_LEN)"

section \<open>The keychain\<close>

definition kc_account :: "bytes \<Rightarrow> bytes" where
  "kc_account ns = byte_str ''ns:'' @ ns"

definition hex_key :: "bytes \<Rightarrow> bytes" where
  "hex_key k = to_hex k"

definition unhex_key :: "bytes \<Rightarrow> bytes option" where
  "unhex_key s = (let t = trim s in if length t \<noteq> KEY_LEN * 2 then None else radix16_pairs t)"

definition keychain_store :: "repo_io \<Rightarrow> bytes \<Rightarrow> bytes \<Rightarrow> (bytes, bytes) btreemap \<Rightarrow> (bytes, bytes) btreemap \<times> (repo_error + unit)" where
  "keychain_store io ns k kc =
    (if ri_kc_store io then (btm_insert (kc_account ns) (hex_key k) kc, Ok ())
     else (kc, Err (RepoOther ''keychain'')))"

text \<open>The helper prints the secret; the line end it may add is trimmed with the rest.\<close>

definition keychain_load :: "repo_io \<Rightarrow> bytes \<Rightarrow> (bytes, bytes) btreemap \<Rightarrow> repo_error + bytes option" where
  "keychain_load io ns kc =
    (if \<not> ri_kc_load io then Err (RepoOther ''keychain'')
     else case btm_get kc (kc_account ns) of
            None \<Rightarrow> Ok None
          | Some out \<Rightarrow>
              (case unhex_key (from_utf8_lossy out) of
                 Some k \<Rightarrow> Ok (Some k)
               | None \<Rightarrow> Err (RepoOther ''keychain item is not 32 hex bytes'')))"

section \<open>The namespace\<close>

datatype secrets = SecretsVault vault | SecretsPassphrase namespace_secrets anchor

record repo =
  rp_root :: bytes
  rp_mode :: mode
  rp_key_scheme :: key_scheme
  rp_padding :: padding_profile
  rp_secrets :: secrets
  rp_cs_holder :: bytes
  rp_tenant_salt :: bytes

record description =
  ds_mode :: mode
  ds_key_scheme :: key_scheme
  ds_padding :: padding_profile
  ds_object_lock :: "object_lock option"
  ds_retention_secs :: "u64 option"
  ds_device :: "bytes option"

text \<open>One line of \<open>config\<close> as \<open>describe\<close> reads it.\<close>

definition describe_line :: "description \<Rightarrow> bytes \<Rightarrow> repo_error + description" where
  "describe_line d line =
    (case two_words line of
       (Some k, Some v) \<Rightarrow>
         if k = byte_str ''mode'' then
           rbind (ok_or (parse_mode v) (RepoOther ''bad mode'')) (\<lambda>m. Ok (d\<lparr>ds_mode := m\<rparr>))
         else if k = byte_str ''padding_profile'' then
           rbind (ok_or (parse_padding v) (RepoOther ''bad padding'')) (\<lambda>p. Ok (d\<lparr>ds_padding := p\<rparr>))
         else if k = byte_str ''key_scheme'' \<and> v = byte_str ''indexed-random'' then Ok (d\<lparr>ds_key_scheme := IndexedRandom\<rparr>)
         else if k = byte_str ''object_lock'' then
           rbind (ok_or (parse_object_lock v) (RepoOther ''bad object_lock'')) (\<lambda>l. Ok (d\<lparr>ds_object_lock := Some l\<rparr>))
         else if k = byte_str ''retention_secs'' then
           rbind (ok_or (parse_u64 v) (RepoOther ''bad retention_secs'')) (\<lambda>n. Ok (d\<lparr>ds_retention_secs := Some n\<rparr>))
         else if k = byte_str ''device'' then Ok (d\<lparr>ds_device := Some v\<rparr>)
         else Ok d
     | _ \<Rightarrow> Ok d)"

fun each_line :: "('d \<Rightarrow> bytes \<Rightarrow> 'e + 'd) \<Rightarrow> 'd \<Rightarrow> bytes list \<Rightarrow> 'e + 'd" where
  "each_line f d [] = Ok d"
| "each_line f d (l # ls) = rbind (f d l) (\<lambda>d'. each_line f d' ls)"

definition Description_default :: description where
  "Description_default = \<lparr>ds_mode = E2ee, ds_key_scheme = Convergent, ds_padding = PadNone, ds_object_lock = None,
     ds_retention_secs = None, ds_device = None\<rparr>"

definition describe :: "repo_io \<Rightarrow> ns_dir \<Rightarrow> repo_error + description" where
  "describe io d =
    rbind (read_text io ''config'' (nd_config d)) (\<lambda>cfg. each_line describe_line Description_default (str_lines cfg))"

definition Repo_exists :: "ns_dir \<Rightarrow> bool" where
  "Repo_exists d = (nd_config d \<noteq> None)"

definition secrets_convergence :: "secrets \<Rightarrow> repo_error + bytes" where
  "secrets_convergence s =
    (case s of
       SecretsVault v \<Rightarrow> rbind (ok_or (current_generation v) RepoPanic) (\<lambda>g. Ok (Generation_convergence_secret g))
     | SecretsPassphrase n _ \<Rightarrow> Ok (Namespace_convergence_secret n))"

section \<open>Creating\<close>

definition lock_lines :: "(object_lock \<times> u64) option \<Rightarrow> bytes" where
  "lock_lines lock =
    (case lock of
       Some (l, secs) \<Rightarrow> byte_str ''object_lock '' @ byte_str (ObjectLock_as_str l) @ [10] @
         byte_str ''retention_secs '' @ dec (unat secs) @ [10]
     | None \<Rightarrow> [])"

definition device_line :: "bytes option \<Rightarrow> bytes" where
  "device_line device =
    (case device of Some d \<Rightarrow> if d \<noteq> [] then byte_str ''device '' @ d @ [10] else [] | None \<Rightarrow> [])"

definition config_text ::
  "mode \<Rightarrow> key_scheme \<Rightarrow> padding_profile \<Rightarrow> bytes \<Rightarrow> (object_lock \<times> u64) option \<Rightarrow> bytes option \<Rightarrow> bytes" where
  "config_text m ks p salt lock device =
    byte_str ''version 1'' @ [10] @ byte_str ''mode '' @ byte_str (mode_str m) @ [10] @
    byte_str ''key_scheme '' @ byte_str (key_scheme_str ks) @ [10] @
    byte_str ''padding_profile '' @ byte_str (padding_str p) @ [10] @
    byte_str ''tenant_salt '' @ to_hex salt @ [10] @ lock_lines lock @ device_line device"

definition scheme_of_mode :: "mode \<Rightarrow> key_scheme \<Rightarrow> key_scheme" where
  "scheme_of_mode m ks = (case m of TransitOnly \<Rightarrow> Plaintext | _ \<Rightarrow> ks)"

text \<open>The place after one call that may fail, and what follows it.\<close>

definition sbind :: "'s \<times> ('e + 'a) \<Rightarrow> ('s \<Rightarrow> 'a \<Rightarrow> 's \<times> ('e + 'b)) \<Rightarrow> 's \<times> ('e + 'b)" where
  "sbind x f = (case x of (s, Inl e) \<Rightarrow> (s, Inl e) | (s, Inr a) \<Rightarrow> f s a)"

definition wrap_name :: "u64 \<Rightarrow> bytes" where
  "wrap_name seq = dec (unat seq) @ byte_str ''.bin''"

definition Anchor_zero :: anchor where
  "Anchor_zero = \<lparr>an_seq = 0, an_sig_hash = replicate 32 0\<rparr>"

definition create_wrap ::
  "argon2 \<Rightarrow> backend \<Rightarrow> aead \<Rightarrow> repo_io \<Rightarrow> bytes option \<Rightarrow> place \<Rightarrow> place \<times> (repo_error + secrets)" where
  "create_wrap K B A io passphrase pl =
    sbind (pl, ok_or passphrase (RepoOther ''NO_TERMINAL'')) (\<lambda>pl pw.
    sbind (pl, random_secret io 1) (\<lambda>pl dek.
    sbind (pl, map_err RepoWrap (WrapRecord_create K B A (ri_urandom io 2) (ri_nonce io) pw dek Argon2Params_SPEC
             WrapPolicy_SPEC 0 Anchor_zero (replicate 32 0))) (\<lambda>pl w.
    sbind (pl, map_err RepoWrap (WrapRecord_encode w)) (\<lambda>pl bs.
    sbind (case write_file io ''wraps/0.bin'' bs of (c, r) \<Rightarrow>
             (pl\<lparr>pl_dir := (pl_dir pl)\<lparr>nd_wraps :=
                 (case c of None \<Rightarrow> nd_wraps (pl_dir pl) | Some x \<Rightarrow> btm_insert (wrap_name 0) x (nd_wraps (pl_dir pl)))\<rparr>\<rparr>, r)) (\<lambda>pl _.
    (pl, Ok (SecretsPassphrase (from_dek B dek) Anchor_zero)))))))"

definition create_vault ::
  "aead \<Rightarrow> repo_io \<Rightarrow> bytes \<Rightarrow> place \<Rightarrow> place \<times> (repo_error + secrets)" where
  "create_vault A io ns pl =
    sbind (pl, map_err RepoVault (Vault_create (ri_urandom io 1) (ri_urandom io 2))) (\<lambda>pl vault.
    sbind (pl, random_secret io 3) (\<lambda>pl vault_key.
    sbind (pl, map_err RepoVault (seal_with A (ri_nonce io) vault vault_key)) (\<lambda>pl sealed.
    sbind (case write_file io ''vault.bin'' sealed of (c, r) \<Rightarrow> (pl\<lparr>pl_dir := (pl_dir pl)\<lparr>nd_vault := c\<rparr>\<rparr>, r)) (\<lambda>pl _.
    sbind (case keychain_store io ns vault_key (pl_keychain pl) of
             (kc, Inr _) \<Rightarrow> (pl\<lparr>pl_keychain := kc\<rparr>, Ok ())
           | (kc, Inl _) \<Rightarrow>
               (case write_file io ''vault.key'' vault_key of (c, r) \<Rightarrow>
                  (pl\<lparr>pl_keychain := kc, pl_dir := (pl_dir pl)\<lparr>nd_vault_key := c\<rparr>\<rparr>, r))) (\<lambda>pl _.
    (pl, Ok (SecretsVault vault)))))))"

definition Repo_create ::
  "argon2 \<Rightarrow> backend \<Rightarrow> aead \<Rightarrow> repo_io \<Rightarrow> bytes \<Rightarrow> bytes \<Rightarrow> mode \<Rightarrow> key_scheme \<Rightarrow> padding_profile \<Rightarrow> bytes option \<Rightarrow>
    (object_lock \<times> u64) option \<Rightarrow> bytes option \<Rightarrow> place \<Rightarrow> place \<times> (repo_error + repo)" where
  "Repo_create K B A io home ns m ks0 p passphrase lock device pl =
    (case ri_mkdir io of
       Some e \<Rightarrow> (pl, Err (RepoIo e))
     | None \<Rightarrow>
         sbind (pl, random_secret io 0) (\<lambda>pl salt.
         let ks = scheme_of_mode m ks0 in
         sbind (case write_file io ''config'' (config_text m ks p salt lock device) of (c, r) \<Rightarrow>
                  (pl\<lparr>pl_dir := (pl_dir pl)\<lparr>nd_config := c\<rparr>\<rparr>, r)) (\<lambda>pl _.
         sbind (case m of Passphrase \<Rightarrow> create_wrap K B A io passphrase pl | _ \<Rightarrow> create_vault A io ns pl) (\<lambda>pl secrets.
         sbind (pl, secrets_convergence secrets) (\<lambda>pl cs.
         (pl, Ok \<lparr>rp_root = path_join home ns, rp_mode = m, rp_key_scheme = ks, rp_padding = p, rp_secrets = secrets,
                 rp_cs_holder = cs, rp_tenant_salt = salt\<rparr>))))))"

section \<open>Opening\<close>

definition wrap_seq_of :: "bytes \<Rightarrow> u64 option" where
  "wrap_seq_of name = Option.bind (strip_suffix (byte_str ''.bin'') (from_utf8_lossy name)) parse_u64"

definition best_of :: "u64 option \<Rightarrow> u64 option \<Rightarrow> u64 option" where
  "best_of best n =
    (case n of None \<Rightarrow> best | Some n \<Rightarrow> Some (case best of None \<Rightarrow> n | Some b \<Rightarrow> max b n))"

definition latest_wrap_seq :: "repo_io \<Rightarrow> ns_dir \<Rightarrow> repo_error + u64" where
  "latest_wrap_seq io d =
    (case ri_read io ''wraps'' of
       Some e \<Rightarrow> Err (RepoIo e)
     | None \<Rightarrow> ok_or (foldl (\<lambda>best name. best_of best (wrap_seq_of name)) None (map fst (nd_wraps d))) (RepoOther ''no wrap record''))"

definition load_wrap :: "backend \<Rightarrow> repo_io \<Rightarrow> ns_dir \<Rightarrow> u64 \<Rightarrow> repo_error + wrap_record" where
  "load_wrap B io d seq =
    rbind (read_file io ''wrap'' (btm_get (nd_wraps d) (wrap_name seq))) (\<lambda>bs. map_err RepoWrap (WrapRecord_decode B bs))"

definition load_vault_key :: "repo_io \<Rightarrow> bytes \<Rightarrow> place \<Rightarrow> place \<times> (repo_error + bytes)" where
  "load_vault_key io ns pl =
    (case keychain_load io ns (pl_keychain pl) of
       Inr (Some k) \<Rightarrow> (pl, Ok k)
     | _ \<Rightarrow>
         sbind (pl, read_file io ''vault.key'' (nd_vault_key (pl_dir pl))) (\<lambda>pl bs.
         if length bs \<noteq> KEY_LEN then (pl, Err (RepoOther ''vault.key is not 32 bytes''))
         else (pl\<lparr>pl_keychain := fst (keychain_store io ns bs (pl_keychain pl))\<rparr>, Ok bs)))"

record open_config =
  og_mode :: mode
  og_key_scheme :: key_scheme
  og_padding :: padding_profile
  og_salt :: bytes

definition open_line :: "open_config \<Rightarrow> bytes \<Rightarrow> repo_error + open_config" where
  "open_line g line =
    (case two_words line of
       (Some k, Some v) \<Rightarrow>
         if k = byte_str ''mode'' then
           rbind (ok_or (parse_mode v) (RepoOther ''bad mode'')) (\<lambda>m. Ok (g\<lparr>og_mode := m\<rparr>))
         else if k = byte_str ''padding_profile'' then
           rbind (ok_or (parse_padding v) (RepoOther ''bad padding'')) (\<lambda>p. Ok (g\<lparr>og_padding := p\<rparr>))
         else if k = byte_str ''key_scheme'' \<and> v = byte_str ''indexed-random'' then Ok (g\<lparr>og_key_scheme := IndexedRandom\<rparr>)
         else if k = byte_str ''key_scheme'' \<and> v = byte_str ''plaintext'' then Ok (g\<lparr>og_key_scheme := Plaintext\<rparr>)
         else if k = byte_str ''tenant_salt'' then
           rbind (ok_or (unhex v) (RepoOther ''malformed tenant_salt'')) (\<lambda>s. Ok (g\<lparr>og_salt := s\<rparr>))
         else Ok g
     | _ \<Rightarrow> Ok g)"

definition open_config_default :: open_config where
  "open_config_default = \<lparr>og_mode = E2ee, og_key_scheme = Convergent, og_padding = PadNone, og_salt = []\<rparr>"

definition open_secrets ::
  "argon2 \<Rightarrow> backend \<Rightarrow> aead \<Rightarrow> repo_io \<Rightarrow> bytes \<Rightarrow> bytes option \<Rightarrow> mode \<Rightarrow> place \<Rightarrow> place \<times> (repo_error + secrets)" where
  "open_secrets K B A io ns passphrase m pl =
    (if m = Passphrase then
       sbind (pl, case passphrase of Some pw \<Rightarrow> Ok pw
                | None \<Rightarrow> rbind (ri_prompt io) (\<lambda>a. ok_or a (RepoOther ''NO_TERMINAL''))) (\<lambda>pl pw.
       sbind (pl, latest_wrap_seq io (pl_dir pl)) (\<lambda>pl seq.
       sbind (pl, load_wrap B io (pl_dir pl) seq) (\<lambda>pl w.
       sbind (pl, map_err RepoWrap (WrapRecord_unwrap K B A w pw WrapPolicy_SPEC)) (\<lambda>pl (n, anchor).
       (pl, Ok (SecretsPassphrase n anchor))))))
     else
       sbind (pl, read_file io ''vault.bin'' (nd_vault (pl_dir pl))) (\<lambda>pl sealed.
       sbind (load_vault_key io ns pl) (\<lambda>pl vault_key.
       sbind (pl, map_err RepoVault (open_with B A sealed vault_key)) (\<lambda>pl vault.
       (pl, Ok (SecretsVault vault))))))"

definition Repo_open_with ::
  "argon2 \<Rightarrow> backend \<Rightarrow> aead \<Rightarrow> repo_io \<Rightarrow> bytes \<Rightarrow> bytes \<Rightarrow> bytes option \<Rightarrow> place \<Rightarrow> place \<times> (repo_error + repo)" where
  "Repo_open_with K B A io home ns passphrase pl =
    sbind (pl, read_text io ''config'' (nd_config (pl_dir pl))) (\<lambda>pl cfg.
    sbind (pl, each_line open_line open_config_default (str_lines cfg)) (\<lambda>pl g.
    if og_mode g = TransitOnly \<and> og_salt g = []
    then (pl, Err (RepoOther ''transit-only namespace has no tenant_salt in its config''))
    else
      sbind (open_secrets K B A io ns passphrase (og_mode g) pl) (\<lambda>pl secrets.
      sbind (pl, secrets_convergence secrets) (\<lambda>pl cs.
      (pl, Ok \<lparr>rp_root = path_join home ns, rp_mode = og_mode g, rp_key_scheme = og_key_scheme g, rp_padding = og_padding g,
              rp_secrets = secrets, rp_cs_holder = cs, rp_tenant_salt = og_salt g\<rparr>)))))"

section \<open>Using an open namespace\<close>

definition recovered_anchor :: "repo \<Rightarrow> anchor option" where
  "recovered_anchor r = (case rp_secrets r of SecretsPassphrase _ a \<Rightarrow> Some a | SecretsVault _ \<Rightarrow> None)"

definition Repo_identity :: "backend \<Rightarrow> repo \<Rightarrow> role \<Rightarrow> repo_error + identity" where
  "Repo_identity B r role =
    (case rp_secrets r of
       SecretsVault v \<Rightarrow> map_err RepoVault (Vault_identity B v role)
     | SecretsPassphrase n _ \<Rightarrow>
         map_err RepoSign (case role of
           RoleLease \<Rightarrow> lease_identity B n
         | RoleTransport \<Rightarrow> transport_identity B n
         | RoleWitness \<Rightarrow> witness_identity B n
         | _ \<Rightarrow> slot_identity B n))"

definition Repo_generation :: "repo \<Rightarrow> repo_error + u32" where
  "Repo_generation r =
    (case rp_secrets r of
       SecretsVault v \<Rightarrow> rbind (ok_or (current_generation v) RepoPanic) (\<lambda>g. Ok (ge_number g))
     | SecretsPassphrase _ _ \<Rightarrow> Ok 0)"

text \<open>\<open>write_vault_replace\<close>: a sibling file, created exclusively, then renamed over the target.\<close>

definition write_vault_replace :: "repo_io \<Rightarrow> bytes \<Rightarrow> ns_dir \<Rightarrow> ns_dir \<times> (repo_error + unit)" where
  "write_vault_replace io bs d =
    (if nd_vault_tmp d \<noteq> None then (d, Err AlreadyExists)
     else case ri_open_tmp io of
            Some e \<Rightarrow> (d, Err (RepoIo e))
          | None \<Rightarrow>
              (case write_file io ''.vault.bin.tmp'' bs of
                 (c, Inl e) \<Rightarrow> (d\<lparr>nd_vault_tmp := (if ri_remove_tmp io then None else c)\<rparr>, Err e)
               | (c, Inr _) \<Rightarrow>
                   (case ri_rename io of
                      Some e \<Rightarrow> (d\<lparr>nd_vault_tmp := (if ri_remove_tmp io then None else c)\<rparr>, Err (RepoIo e))
                    | None \<Rightarrow> (d\<lparr>nd_vault_tmp := None, nd_vault := Some bs\<rparr>, Ok ()))))"

definition Repo_rotate_convergence ::
  "aead \<Rightarrow> repo_io \<Rightarrow> repo \<Rightarrow> place \<Rightarrow> (repo \<times> place) \<times> (repo_error + u32)" where
  "Repo_rotate_convergence A io r pl =
    (case rp_secrets r of
       SecretsPassphrase _ _ \<Rightarrow> ((r, pl), Err (PolicyRefusal ''passphrase mode has no convergence generation to rotate''))
     | SecretsVault v \<Rightarrow>
         (case rotate_convergence (ri_urandom io 0) v of
            None \<Rightarrow> ((r, pl), Err RepoPanic)
          | Some (v', Inl e) \<Rightarrow> ((r\<lparr>rp_secrets := SecretsVault v'\<rparr>, pl), Err (RepoVault e))
          | Some (v', Inr number) \<Rightarrow>
              (case Option.bind (file_name (rp_root r)) (\<lambda>n. if from_utf8_ok n then Some n else None) of
                 None \<Rightarrow> ((r, pl), Err (RepoOther ''namespace path has no name''))
               | Some ns \<Rightarrow>
                   (case load_vault_key io ns pl of
                      (pl', Inl e) \<Rightarrow> ((r, pl'), Err e)
                    | (pl', Inr vault_key) \<Rightarrow>
                        (case seal_with A (ri_nonce io) v' vault_key of
                           Inl e \<Rightarrow> ((r, pl'), Err (RepoVault e))
                         | Inr sealed \<Rightarrow>
                             (case write_vault_replace io sealed (pl_dir pl') of
                                (d, Inl e) \<Rightarrow> ((r, pl'\<lparr>pl_dir := d\<rparr>), Err e)
                              | (d, Inr _) \<Rightarrow>
                                  (case current_generation v' of
                                     None \<Rightarrow> ((r\<lparr>rp_secrets := SecretsVault v'\<rparr>, pl'\<lparr>pl_dir := d\<rparr>), Err RepoPanic)
                                   | Some g \<Rightarrow>
                                       ((r\<lparr>rp_secrets := SecretsVault v', rp_cs_holder := Generation_convergence_secret g\<rparr>,
                                         pl'\<lparr>pl_dir := d\<rparr>),
                                        case ri_sync io of Some e \<Rightarrow> Err (RepoIo e) | None \<Rightarrow> Ok number))))))))"

definition write_private_new :: "repo_io \<Rightarrow> bytes \<Rightarrow> bytes option \<Rightarrow> bytes option \<times> (repo_error + unit)" where
  "write_private_new io bs dest =
    (if dest \<noteq> None then (dest, Err (PolicyRefusal ''destination exists; refusing to overwrite a vault key''))
     else case ri_open_tmp io of
            Some e \<Rightarrow> (dest, Err (RepoIo e))
          | None \<Rightarrow> write_file io ''dest'' bs)"

definition export_vault_key ::
  "repo_io \<Rightarrow> repo \<Rightarrow> bytes option \<Rightarrow> place \<Rightarrow> (place \<times> bytes option) \<times> (repo_error + unit)" where
  "export_vault_key io r dest pl =
    (if rp_mode r = Passphrase then ((pl, dest), Err (PolicyRefusal ''passphrase mode has no vault key to export''))
     else case Option.bind (file_name (rp_root r)) (\<lambda>n. if from_utf8_ok n then Some n else None) of
            None \<Rightarrow> ((pl, dest), Err (RepoOther ''namespace path has no name''))
          | Some ns \<Rightarrow>
              (case load_vault_key io ns pl of
                 (pl', Inl e) \<Rightarrow> ((pl', dest), Err e)
               | (pl', Inr key) \<Rightarrow> (case write_private_new io key dest of (dest', out) \<Rightarrow> ((pl', dest'), out))))"

definition Repo_sealer :: "repo \<Rightarrow> sealer" where
  "Repo_sealer r = (case rp_mode r of TransitOnly \<Rightarrow> SealPlaintext (rp_tenant_salt r) | _ \<Rightarrow> SealConvergent (rp_cs_holder r))"

definition Repo_addressing :: "repo \<Rightarrow> addressing" where
  "Repo_addressing r = (case rp_mode r of TransitOnly \<Rightarrow> Salted (rp_tenant_salt r) | _ \<Rightarrow> Content)"

definition Repo_dir_root :: "backend \<Rightarrow> repo \<Rightarrow> bytes" where
  "Repo_dir_root B r =
    (case rp_secrets r of SecretsVault v \<Rightarrow> Vault_dir_root B v | SecretsPassphrase n _ \<Rightarrow> Namespace_dir_root B n)"

definition Repo_root_key :: "backend \<Rightarrow> repo \<Rightarrow> u64 \<Rightarrow> bytes" where
  "Repo_root_key B r seq =
    (case rp_secrets r of SecretsVault v \<Rightarrow> Vault_root_key B v seq | SecretsPassphrase n _ \<Rightarrow> Namespace_root_key B n seq)"

definition Repo_seal_root ::
  "backend \<Rightarrow> aead \<Rightarrow> bytes option \<Rightarrow> repo \<Rightarrow> bytes \<Rightarrow> u64 \<Rightarrow> root_manifest \<Rightarrow> repo_error + (bytes \<times> bytes)" where
  "Repo_seal_root B A urandom r slot_id seq root =
    rbind (map_err RepoRootErr (RootManifest_encode root)) (\<lambda>plain.
    case rp_mode r of
      TransitOnly \<Rightarrow> Ok (plain, replicate NONCE_LEN 0)
    | _ \<Rightarrow> map_err RepoCrypto (seal_root A urandom (Repo_root_key B r seq) plain (root_aad slot_id seq)))"

definition Repo_open_root ::
  "backend \<Rightarrow> aead \<Rightarrow> repo \<Rightarrow> bytes \<Rightarrow> u64 \<Rightarrow> bytes \<Rightarrow> bytes \<Rightarrow> repo_error + root_manifest" where
  "Repo_open_root B A r slot_id seq nonce blob =
    rbind (case rp_mode r of
             TransitOnly \<Rightarrow> Ok blob
           | _ \<Rightarrow> map_err RepoCrypto (open_root A (Repo_root_key B r seq) nonce blob (root_aad slot_id seq))) (\<lambda>plain.
    map_err RepoRootErr (RootManifest_decode plain))"

definition Repo_head :: "repo_io \<Rightarrow> ns_dir \<Rightarrow> bytes option" where
  "Repo_head io d = (case read_text io ''state/HEAD'' (nd_head d) of Inr s \<Rightarrow> Some (trim s) | Inl _ \<Rightarrow> None)"

definition set_head :: "repo_io \<Rightarrow> bytes \<Rightarrow> ns_dir \<Rightarrow> ns_dir \<times> (repo_error + unit)" where
  "set_head io addr d =
    (case ri_mkdir io of
       Some e \<Rightarrow> (d, Err (RepoIo e))
     | None \<Rightarrow> (case write_file io ''state/HEAD'' (addr @ [10]) of (c, r) \<Rightarrow> (d\<lparr>nd_head := c\<rparr>, r)))"

section \<open>The configuration reads back\<close>

lemma sbind_simps [simp]: "sbind (s, Inl e) f = (s, Inl e)" "sbind (s, Inr a) f = f s a"
  by (simp_all add: sbind_def)

lemma sbind_Inr_iff: "sbind x f = (s', Inr b) \<longleftrightarrow> (\<exists>s a. x = (s, Inr a) \<and> f s a = (s', Inr b))"
  by (cases x; cases "snd x") (auto simp: sbind_def)

lemma each_line_append: "each_line f d (xs @ ys) = rbind (each_line f d xs) (\<lambda>d'. each_line f d' ys)"
proof (induction xs arbitrary: d)
  case (Cons x xs)
  then show ?case by (cases "f d x") simp_all
qed simp

definition lock_line_list :: "(object_lock \<times> u64) option \<Rightarrow> bytes list" where
  "lock_line_list lock =
    (case lock of
       Some (l, secs) \<Rightarrow> [byte_str ''object_lock'' @ 32 # byte_str (ObjectLock_as_str l), byte_str ''retention_secs'' @ 32 # dec (unat secs)]
     | None \<Rightarrow> [])"

definition device_line_list :: "bytes option \<Rightarrow> bytes list" where
  "device_line_list device =
    (case device of Some d \<Rightarrow> if d \<noteq> [] then [byte_str ''device'' @ 32 # d] else [] | None \<Rightarrow> [])"

definition base_lines :: "mode \<Rightarrow> key_scheme \<Rightarrow> padding_profile \<Rightarrow> bytes \<Rightarrow> bytes list" where
  "base_lines m ks p salt =
    [byte_str ''version'' @ 32 # byte_str ''1'', byte_str ''mode'' @ 32 # byte_str (mode_str m),
     byte_str ''key_scheme'' @ 32 # byte_str (key_scheme_str ks), byte_str ''padding_profile'' @ 32 # byte_str (padding_str p),
     byte_str ''tenant_salt'' @ 32 # to_hex salt]"

definition config_lines ::
  "mode \<Rightarrow> key_scheme \<Rightarrow> padding_profile \<Rightarrow> bytes \<Rightarrow> (object_lock \<times> u64) option \<Rightarrow> bytes option \<Rightarrow> bytes list" where
  "config_lines m ks p salt lock device = base_lines m ks p salt @ (lock_line_list lock @ device_line_list device)"

lemma config_text_lines:
  "config_text m ks p salt lock device = concat (map (\<lambda>l. l @ [10]) (config_lines m ks p salt lock device))"
  by (auto simp: config_text_def config_lines_def base_lines_def lock_lines_def lock_line_list_def device_line_def device_line_list_def byte_str_def
      split: option.split)

lemma word_byte_str:
  "word_text (byte_str ''version'')" "word_text (byte_str ''1'')" "word_text (byte_str ''mode'')" "word_text (byte_str ''key_scheme'')"
  "word_text (byte_str ''padding_profile'')" "word_text (byte_str ''tenant_salt'')" "word_text (byte_str ''object_lock'')"
  "word_text (byte_str ''retention_secs'')" "word_text (byte_str ''device'')"
  "word_text (byte_str (mode_str m))" "word_text (byte_str (key_scheme_str ks))" "word_text (byte_str (padding_str p))"
  "word_text (byte_str (ObjectLock_as_str l))"
  by (simp_all add: word_text_def byte_str_def graphic_def)
    (cases m; simp add: word_text_def byte_str_def graphic_def; fail | cases ks; simp add: word_text_def byte_str_def graphic_def; fail |
     cases p; simp add: word_text_def byte_str_def graphic_def; fail | cases l; simp add: word_text_def byte_str_def graphic_def; fail)+

lemma word_dec: "word_text (dec n)"
  using dec_digits [of n] dec_graphic by (auto simp: word_text_def list_all_iff)

lemma hex_digit_graphic: "n < 16 \<Longrightarrow> graphic (hex_digit n)"
proof -
  have "\<forall>n \<in> set [0..<16]. graphic (hex_digit n)" by code_simp
  then show "n < 16 \<Longrightarrow> graphic (hex_digit n)" by simp
qed

lemma word_hex: "salt \<noteq> [] \<Longrightarrow> word_text (to_hex salt)"
proof -
  assume "salt \<noteq> []"
  moreover have "unat (b :: u8) div 16 < 16" for b using unat_u8_less [of b] by (simp add: div_less_iff_less_mult)
  ultimately show ?thesis by (cases salt) (auto simp: word_text_def to_hex_def list_all_iff intro!: hex_digit_graphic)
qed

lemmas config_words = word_byte_str word_dec word_hex

definition conf_line :: "bytes \<Rightarrow> bool" where
  "conf_line l \<longleftrightarrow> (\<exists>k v. l = k @ 32 # v \<and> word_text k \<and> word_text v)"

lemma conf_lineI: "word_text k \<Longrightarrow> word_text v \<Longrightarrow> conf_line (k @ 32 # v)"
  by (auto simp: conf_line_def)

lemma conf_line_one: "conf_line l \<Longrightarrow> 10 \<notin> set l \<and> 13 \<notin> set l"
  by (auto simp: conf_line_def dest!: graphic_line)

lemma config_lines_words:
  assumes "salt \<noteq> []" "\<forall>d. device = Some d \<and> d \<noteq> [] \<longrightarrow> word_text d" "l \<in> set (config_lines m ks p salt lock device)"
  shows "conf_line l"
  using assms
  by (auto simp: config_lines_def base_lines_def lock_line_list_def device_line_list_def split: option.splits if_splits
      intro!: conf_lineI config_words)

lemma config_reads_back:
  assumes "salt \<noteq> []" "\<forall>d. device = Some d \<and> d \<noteq> [] \<longrightarrow> word_text d"
  shows "str_lines (config_text m ks p salt lock device) = config_lines m ks p salt lock device"
    and "from_utf8_ok (config_text m ks p salt lock device)"
proof -
  note words = config_lines_words [OF assms, of _ m ks p lock]
  have "10 \<notin> set l \<and> 13 \<notin> set l" if "l \<in> set (config_lines m ks p salt lock device)" for l
    using conf_line_one [OF words [OF that]] .
  then show "str_lines (config_text m ks p salt lock device) = config_lines m ks p salt lock device"
    by (simp add: config_text_lines str_lines_unlines)
  have "\<forall>b \<in> set l. b < 0x80" if "l \<in> set (config_lines m ks p salt lock device)" for l
    using words [OF that] by (auto simp: conf_line_def word_text_def list_all_iff graphic_def word_less_nat_alt word_le_nat_alt dest!: bspec)
  then show "from_utf8_ok (config_text m ks p salt lock device)"
    unfolding config_text_lines by (intro utf8_ascii) auto
qed

lemma names_parse [simp]:
  "parse_mode (byte_str (mode_str m)) = Some m" "parse_padding (byte_str (padding_str p)) = Some p"
  "parse_object_lock (byte_str (ObjectLock_as_str l)) = Some l"
proof -
  show "parse_mode (byte_str (mode_str m)) = Some m" by (cases m) (simp_all add: parse_mode_def)
  show "parse_padding (byte_str (padding_str p)) = Some p" by (cases p) (simp_all add: parse_padding_def)
  show "parse_object_lock (byte_str (ObjectLock_as_str l)) = Some l" by (cases l) (simp_all add: parse_object_lock_def)
qed

lemma unhex_to_hex [simp]: "unhex (to_hex bs) = Some bs"
  by (simp add: unhex_def) (simp add: to_hex_def radix16_pairs_digits)

lemma scheme_line:
  "open_line g (byte_str ''key_scheme'' @ 32 # byte_str (key_scheme_str ks)) = Ok (if ks = Convergent then g else g\<lparr>og_key_scheme := ks\<rparr>)"
  "describe_line d (byte_str ''key_scheme'' @ 32 # byte_str (key_scheme_str ks)) =
    Ok (if ks = IndexedRandom then d\<lparr>ds_key_scheme := IndexedRandom\<rparr> else d)"
  unfolding open_line_def describe_line_def two_words_text [OF word_byte_str(4) word_byte_str(11)] by (cases ks; simp)+

lemma open_lines:
  assumes "salt \<noteq> []" "\<forall>d. device = Some d \<and> d \<noteq> [] \<longrightarrow> word_text d"
  shows "each_line open_line open_config_default (config_lines m ks p salt lock device) =
    Ok \<lparr>og_mode = m, og_key_scheme = ks, og_padding = p, og_salt = salt\<rparr>"
proof -
  have tail: "each_line open_line g (lock_line_list lock @ device_line_list device) = Ok g" for g
    using assms(2)
    by (auto simp: lock_line_list_def device_line_list_def open_line_def config_words split: option.split)
  have "each_line open_line open_config_default (base_lines m ks p salt) =
      Ok \<lparr>og_mode = m, og_key_scheme = ks, og_padding = p, og_salt = salt\<rparr>"
    using assms(1) unfolding base_lines_def each_line.simps scheme_line
    by (cases ks) (simp_all add: open_line_def open_config_default_def config_words)
  then show ?thesis unfolding config_lines_def each_line_append [of _ _ "base_lines m ks p salt"] using tail by simp
qed

lemma describe_lines:
  assumes "salt \<noteq> []" "\<forall>d. device = Some d \<and> d \<noteq> [] \<longrightarrow> word_text d"
  shows "each_line describe_line Description_default (config_lines m ks p salt lock device) =
    Ok \<lparr>ds_mode = m, ds_key_scheme = (if ks = IndexedRandom then IndexedRandom else Convergent), ds_padding = p,
        ds_object_lock = map_option fst lock, ds_retention_secs = map_option snd lock,
        ds_device = (if device = Some [] then None else device)\<rparr>"
proof -
  have secs: "parse_u64 (dec (unat n)) = Some n" for n using parse_dec [of "unat n"] unat_less_pow [of n] by simp
  have tail: "each_line describe_line g (lock_line_list lock @ device_line_list device) =
      Ok (g\<lparr>ds_object_lock := (case lock of None \<Rightarrow> ds_object_lock g | Some (l, n) \<Rightarrow> Some l),
            ds_retention_secs := (case lock of None \<Rightarrow> ds_retention_secs g | Some (l, n) \<Rightarrow> Some n),
            ds_device := (if device = None \<or> device = Some [] then ds_device g else device)\<rparr>)" for g
    using assms(2)
    by (auto simp: lock_line_list_def device_line_list_def describe_line_def config_words secs split: option.split)
  have "each_line describe_line Description_default (base_lines m ks p salt) =
      Ok (Description_default\<lparr>ds_mode := m, ds_key_scheme := (if ks = IndexedRandom then IndexedRandom else Convergent), ds_padding := p\<rparr>)"
    using assms(1) unfolding base_lines_def each_line.simps scheme_line
    by (cases ks) (simp_all add: describe_line_def Description_default_def config_words)
  then show ?thesis
    unfolding config_lines_def each_line_append [of _ _ "base_lines m ks p salt"]
    by (auto simp: tail Description_default_def split: option.split)
qed

section \<open>The vault key\<close>

text \<open>Wherever the key is looked up, it is \<open>k\<close>: the keychain item and the file, where they are there.\<close>

definition holds_key :: "bytes \<Rightarrow> bytes \<Rightarrow> place \<Rightarrow> bool" where
  "holds_key ns k pl \<longleftrightarrow> length k = KEY_LEN \<and>
    (\<forall>out k'. btm_get (pl_keychain pl) (kc_account ns) = Some out \<and> unhex_key (from_utf8_lossy out) = Some k' \<longrightarrow> k' = k) \<and>
    (\<forall>bs. nd_vault_key (pl_dir pl) = Some bs \<longrightarrow> bs = k)"

lemma unhex_hex_key: "length k = KEY_LEN \<Longrightarrow> unhex_key (from_utf8_lossy (hex_key k)) = Some k"
proof -
  assume k: "length k = KEY_LEN"
  then have "k \<noteq> []" by (auto simp: KEY_LEN_def)
  then have w: "to_hex k \<noteq> []" "\<forall>b \<in> set (to_hex k). graphic b" using word_hex by (auto simp: word_text_def list_all_iff)
  then have "trim (to_hex k) = to_hex k" by (intro trim_graphic) auto
  moreover have "from_utf8_ok (to_hex k)"
    using w(2) by (intro utf8_ascii) (auto simp: graphic_def word_less_nat_alt word_le_nat_alt)
  moreover have "radix16_pairs (to_hex k) = Some k" by (simp add: to_hex_def radix16_pairs_digits)
  ultimately show ?thesis using k by (simp add: unhex_key_def hex_key_def lossy_of_valid)
qed

lemma keychain_item: "length k = KEY_LEN \<Longrightarrow> keychain_load io ns (btm_insert (kc_account ns) (hex_key k) kc) =
    (if ri_kc_load io then Ok (Some k) else Err (RepoOther ''keychain''))"
  by (simp add: keychain_load_def unhex_hex_key)

lemma holds_key_store: "holds_key ns k pl \<Longrightarrow> holds_key ns k (pl\<lparr>pl_keychain := fst (keychain_store io ns k (pl_keychain pl))\<rparr>)"
  by (auto simp: holds_key_def keychain_store_def unhex_hex_key)

lemma load_vault_key_holds:
  assumes "holds_key ns k pl" "load_vault_key io ns pl = (pl', r)"
  shows "holds_key ns k pl' \<and> pl_dir pl' = pl_dir pl \<and> (\<forall>x. r = Ok x \<longrightarrow> x = k)"
proof (cases "\<exists>k'. keychain_load io ns (pl_keychain pl) = Ok (Some k')")
  case True
  then obtain k' where "keychain_load io ns (pl_keychain pl) = Ok (Some k')" by blast
  moreover from this have "k' = k"
    using assms(1) by (auto simp: keychain_load_def holds_key_def split: if_splits option.splits)
  ultimately show ?thesis using assms by (auto simp: load_vault_key_def)
next
  case False
  then have "load_vault_key io ns pl =
      sbind (pl, read_file io ''vault.key'' (nd_vault_key (pl_dir pl))) (\<lambda>pl bs.
         if length bs \<noteq> KEY_LEN then (pl, Err (RepoOther ''vault.key is not 32 bytes''))
         else (pl\<lparr>pl_keychain := fst (keychain_store io ns bs (pl_keychain pl))\<rparr>, Ok bs))"
    by (auto simp: load_vault_key_def split: sum.split option.split)
  moreover have "x = k" if "read_file io ''vault.key'' (nd_vault_key (pl_dir pl)) = Ok x" for x
    using that assms(1) by (auto simp: read_file_def holds_key_def ok_or_Inr_iff split: option.splits)
  ultimately show ?thesis
    using assms holds_key_store [OF assms(1)]
    by (cases "read_file io ''vault.key'' (nd_vault_key (pl_dir pl))") (auto split: if_splits)
qed

section \<open>Rotation is atomic\<close>

text \<open>
  What a process holding an open vault-backed namespace relies on: \<open>vault.bin\<close> opens to the vault in
  memory, and \<open>sealer\<close> uses its newest generation.
\<close>

definition in_sync :: "backend \<Rightarrow> aead \<Rightarrow> bytes \<Rightarrow> repo \<Rightarrow> place \<Rightarrow> bool" where
  "in_sync B A ns r pl \<longleftrightarrow>
    (\<exists>v k sealed g. rp_secrets r = SecretsVault v \<and> vault_inv v \<and> holds_key ns k pl \<and> nd_vault (pl_dir pl) = Some sealed \<and>
      open_with B A sealed k = Ok v \<and> current_generation v = Some g \<and> rp_cs_holder r = ge_secret g)"

lemma replace_cases:
  assumes "write_vault_replace io bs d = (d', res)"
  shows "nd_vault_key d' = nd_vault_key d \<and>
    (res = Ok () \<and> nd_vault d' = Some bs \<and> nd_vault_tmp d' = None \<or> is_err res \<and> nd_vault d' = nd_vault d)"
  using assms
  by (auto simp: write_vault_replace_def write_file_def split: if_splits option.splits prod.splits sum.splits)

lemma rotate_step:
  assumes "vault_inv v" "length (va_generations v) < 2 ^ 32" "rotate_convergence u v = Some (v', Inr n)"
  shows "vault_inv v'" "\<exists>g. current_generation v' = Some g \<and> ge_number g = n" "unat n = length (va_generations v)"
    "Vault_generation v k = Ok g \<Longrightarrow> Vault_generation v' k = Ok g"
proof -
  show "vault_inv v'" using rotate_inv [OF assms] .
  obtain g0 where g0: "current_generation v = Some g0" "ge_number g0 = of_nat (length (va_generations v) - 1)"
    using current_generation_number [OF assms(1)] by blast
  then have v': "v' = v\<lparr>va_generations := va_generations v @ [\<lparr>ge_number = n, ge_secret = projr (random_array u KEY_LEN)\<rparr>]\<rparr>"
    "n = ge_number g0 + 1"
    using assms(3) by (auto simp: rotate_convergence_def Let_def split: sum.splits)
  then show "\<exists>g. current_generation v' = Some g \<and> ge_number g = n" by (simp add: current_generation_def)
  have "va_generations v \<noteq> []" using assms(1) by (simp add: vault_inv_def)
  then have "n = of_nat (length (va_generations v))" using v'(2) g0(2) by (cases "length (va_generations v)") (simp_all add: add.commute)
  then show "unat n = length (va_generations v)" using assms(2) by (simp add: unat_of_nat)
  show "Vault_generation v k = Ok g \<Longrightarrow> Vault_generation v' k = Ok g"
    by (auto simp: Vault_generation_def v'(1) find_snoc ok_or_Inr_iff)
qed

lemma holds_key_dir: "nd_vault_key d = nd_vault_key (pl_dir pl) \<Longrightarrow> holds_key ns k (pl\<lparr>pl_dir := d\<rparr>) = holds_key ns k pl"
  by (auto simp: holds_key_def)

text \<open>A rotation stops at one of its steps with everything put back, or commits.\<close>

definition rotation_stops :: "repo_io \<Rightarrow> bytes \<Rightarrow> place \<Rightarrow> place \<Rightarrow> bool" where
  "rotation_stops io ns pl pl' \<longleftrightarrow> pl' = pl \<or>
    (\<exists>pl1 rk. load_vault_key io ns pl = (pl1, rk) \<and>
      (pl' = pl1 \<or> (\<exists>bs d e. write_vault_replace io bs (pl_dir pl1) = (d, Inl e) \<and> pl' = pl1\<lparr>pl_dir := d\<rparr>)))"

definition rotation_commits :: "aead \<Rightarrow> repo_io \<Rightarrow> bytes \<Rightarrow> vault \<Rightarrow> repo \<Rightarrow> place \<Rightarrow> repo \<Rightarrow> place \<Rightarrow> (repo_error + u32) \<Rightarrow> bool" where
  "rotation_commits A io ns v r pl r' pl' res \<longleftrightarrow>
    (\<exists>v' n pl1 k sealed d g. rotate_convergence (ri_urandom io 0) v = Some (v', Inr n) \<and> load_vault_key io ns pl = (pl1, Inr k) \<and>
      seal_with A (ri_nonce io) v' k = Inr sealed \<and> write_vault_replace io sealed (pl_dir pl1) = (d, Inr ()) \<and>
      current_generation v' = Some g \<and> pl' = pl1\<lparr>pl_dir := d\<rparr> \<and>
      r' = r\<lparr>rp_secrets := SecretsVault v', rp_cs_holder := Generation_convergence_secret g\<rparr> \<and>
      res = (case ri_sync io of Some e \<Rightarrow> Err (RepoIo e) | None \<Rightarrow> Ok n))"

lemma rotation_outcomes:
  assumes "rp_secrets r = SecretsVault v" "file_name (rp_root r) = Some ns" "from_utf8_ok ns" "va_generations v \<noteq> []"
    and "Repo_rotate_convergence A io r pl = ((r', pl'), res)"
  shows "is_err res \<and> r' = r \<and> rotation_stops io ns pl pl' \<or> rotation_commits A io ns v r pl r' pl' res"
proof -
  have "\<exists>v' r1. rotate_convergence (ri_urandom io 0) v = Some (v', r1) \<and> (\<forall>e. r1 = Inl e \<longrightarrow> v' = v) \<and>
      (\<exists>g. current_generation v' = Some g)"
    using assms(4)
    by (cases "random_array (ri_urandom io 0) KEY_LEN") (simp_all add: rotate_convergence_def current_generation_def Let_def)
  then obtain v' r1 where rot: "rotate_convergence (ri_urandom io 0) v = Some (v', r1)" "\<And>e. r1 = Inl e \<Longrightarrow> v' = v"
    and g: "\<exists>g. current_generation v' = Some g" by blast
  obtain pl1 rk where lk: "load_vault_key io ns pl = (pl1, rk)" by fastforce
  have ns: "Option.bind (file_name (rp_root r)) (\<lambda>n. if from_utf8_ok n then Some n else None) = Some ns"
    using assms(2,3) by simp
  note unf = assms(5) [unfolded Repo_rotate_convergence_def assms(1) secrets.case rot(1) option.case prod.case ns lk]
  show ?thesis
  proof (cases "\<exists>n k sealed d u. r1 = Inr n \<and> rk = Inr k \<and> seal_with A (ri_nonce io) v' k = Inr sealed \<and>
      write_vault_replace io sealed (pl_dir pl1) = (d, Inr u)")
    case True
    then have "rotation_commits A io ns v r pl r' pl' res"
      unfolding rotation_commits_def using unf rot(1) lk g by (elim exE conjE) (intro exI conjI, auto)
    then show ?thesis by blast
  next
    case False
    then have "is_err res \<and> r' = r \<and> rotation_stops io ns pl pl'"
      using unf rot(2) lk assms(1) unfolding rotation_stops_def
      by (cases r1; cases rk; cases "seal_with A (ri_nonce io) v' (projr rk)") (auto split: sum.splits prod.splits)
    then show ?thesis by blast
  qed
qed

text \<open>
  C26. A rotation of the convergence secret is atomic: whatever fails, from the entropy source to the
  final rename, \<open>vault.bin\<close> and the secrets in memory stay together. Either nothing changed and the
  answer is an error, or both have the next generation, every earlier generation is still there, and
  the answer is its number, unless only the fsync of the directory failed.
\<close>

theorem rotation_is_atomic:
  assumes "in_sync B A ns r pl" "rp_secrets r = SecretsVault v" "length (va_generations v) < 2 ^ 32" "sound_aead A"
    and "file_name (rp_root r) = Some ns" "from_utf8_ok ns"
    and "Repo_rotate_convergence A io r pl = ((r', pl'), res)"
  shows "in_sync B A ns r' pl' \<and>
    (is_err res \<and> r' = r \<and> nd_vault (pl_dir pl') = nd_vault (pl_dir pl) \<or>
     (\<exists>v' n. rp_secrets r' = SecretsVault v' \<and> Repo_generation r' = Ok n \<and> unat n = length (va_generations v) \<and>
        (\<forall>k g. Vault_generation v k = Ok g \<longrightarrow> Vault_generation v' k = Ok g) \<and> (res = Ok n \<or> ri_sync io \<noteq> None)))"
    (is "?sync r' pl' \<and> (?same \<or> ?next)")
proof -
  obtain k sealed g where s: "vault_inv v" "holds_key ns k pl" "nd_vault (pl_dir pl) = Some sealed"
    "open_with B A sealed k = Ok v" "current_generation v = Some g" "rp_cs_holder r = ge_secret g"
    using assms(1,2) by (auto simp: in_sync_def)
  have ne: "va_generations v \<noteq> []" using s(1) by (simp add: vault_inv_def)
  consider "is_err res" "r' = r" "rotation_stops io ns pl pl'" | "rotation_commits A io ns v r pl r' pl' res"
    using rotation_outcomes [OF assms(2,5,6) ne assms(7)] by blast
  then show ?thesis
  proof cases
    case 1
    have "holds_key ns k pl' \<and> nd_vault (pl_dir pl') = nd_vault (pl_dir pl)"
      using 1(3) s(2) unfolding rotation_stops_def
      by (auto simp: holds_key_dir dest!: load_vault_key_holds [OF s(2)] replace_cases)
    then show ?thesis using 1 s assms(2) by (auto simp: in_sync_def)
  next
    case 2
    then obtain v' n pl1 k' sealed' d g' where c: "rotate_convergence (ri_urandom io 0) v = Some (v', Inr n)"
      "load_vault_key io ns pl = (pl1, Inr k')" "seal_with A (ri_nonce io) v' k' = Inr sealed'"
      "write_vault_replace io sealed' (pl_dir pl1) = (d, Inr ())" "current_generation v' = Some g'" "pl' = pl1\<lparr>pl_dir := d\<rparr>"
      "r' = r\<lparr>rp_secrets := SecretsVault v', rp_cs_holder := Generation_convergence_secret g'\<rparr>"
      "res = (case ri_sync io of Some e \<Rightarrow> Err (RepoIo e) | None \<Rightarrow> Ok n)" by (auto simp: rotation_commits_def)
    note step = rotate_step [OF s(1) assms(3) c(1)]
    have k': "k' = k" "holds_key ns k pl1" "pl_dir pl1 = pl_dir pl" using load_vault_key_holds [OF s(2) c(2)] by auto
    have d: "nd_vault_key d = nd_vault_key (pl_dir pl1)" "nd_vault d = Some sealed'" using replace_cases [OF c(4)] by auto
    have "?sync r' pl'"
      using step(1) k' d c(5) sealed_vault_opens [OF step(1) assms(4) c(3)]
      by (auto simp: in_sync_def c(6,7) Generation_convergence_secret_def holds_key_dir)
    moreover have ?next
      using step(2-4) c(5) by (auto simp: Repo_generation_def c(7,8) split: option.split)
    ultimately show ?thesis by blast
  qed
qed

section \<open>A created namespace opens\<close>

lemma write_file_Inr:
  "(case write_file io f bs of (c, r) \<Rightarrow> (F c, r)) = (s, Inr u) \<longleftrightarrow> ri_write io f = None \<and> s = F (Some bs)"
  by (auto simp: write_file_def split: option.splits)

lemma created_wrap_opens:
  assumes "create_wrap K B A io pw pl = (pl', Ok sec)" "sound_aead A" "nd_wraps (pl_dir pl) = []" "\<forall>f. ri_read io' f = None"
    and "\<forall>dek i. length dek = 32 \<and> slot_identity B (from_dek B dek) = Ok i \<longrightarrow> sound_keypair B (id_kp i)"
  shows "open_secrets K B A io' ns pw Passphrase pl' = (pl', Ok sec)"
    and "nd_config (pl_dir pl') = nd_config (pl_dir pl)"
proof -
  obtain passphrase dek w bs where c: "pw = Some passphrase" "random_secret io 1 = Inr dek"
    "WrapRecord_create K B A (ri_urandom io 2) (ri_nonce io) passphrase dek Argon2Params_SPEC WrapPolicy_SPEC 0 Anchor_zero (replicate 32 0) = Ok w"
    "WrapRecord_encode w = Ok bs" "pl' = pl\<lparr>pl_dir := (pl_dir pl)\<lparr>nd_wraps := [(wrap_name 0, bs)]\<rparr>\<rparr>"
    "sec = SecretsPassphrase (from_dek B dek) Anchor_zero"
    using assms(1,3)
    by (auto simp: create_wrap_def sbind_Inr_iff ok_or_Inr_iff map_err_Inr_iff write_file_Inr)
  have dek: "length dek = 32" using c(2) by (auto simp: random_secret_def map_err_Inr_iff KEY_LEN_def dest: random_array_length)
  have keys: "\<And>i. slot_identity B (from_dek B dek) = Ok i \<Longrightarrow> sound_keypair B (id_kp i)" using assms(5) dek by blast
  note rec = created_record_recovers [OF c(3) assms(2) dek keys]
  have unwrap: "WrapRecord_unwrap K B A w passphrase WrapPolicy_SPEC = Ok (from_dek B dek, Anchor_zero)"
    using rec by (simp add: WrapRecord_unwrap_def)
  obtain i where "arr (SIG_SIZE B) (wr_sig w)" "wr_prev w = replicate 32 0" "wr_anchor w = Anchor_zero" "length (wr_salt w) = 32" "wr_seq w = 0"
    using created_record [OF c(3)] keys sign_length by metis
  then have "wf_WrapRecord B w" by (simp add: wf_WrapRecord_def MIN_SALT_def Anchor_zero_def all_zero_def list_all_iff)
  then have dec: "WrapRecord_decode B bs = Ok w"
    using c(4) unfolding WrapRecord_decode_def WrapRecord_encode_def by (simp add: wrap_record.dec_iff)
  have "wrap_seq_of (wrap_name 0) = Some 0" by code_simp
  then have "latest_wrap_seq io' (pl_dir pl') = Ok 0" using assms(4) by (simp add: latest_wrap_seq_def c(5) best_of_def)
  then show "open_secrets K B A io' ns pw Passphrase pl' = (pl', Ok sec)"
    using assms(4) unwrap dec by (simp add: open_secrets_def c(1,6) load_wrap_def read_file_def c(5))
  show "nd_config (pl_dir pl') = nd_config (pl_dir pl)" by (simp add: c(5))
qed

text \<open>
  The key is found again: through the keychain when it was stored there, and in the file otherwise,
  unless the keychain then answers with an item left by an earlier namespace of this name.
\<close>

definition keychain_consistent :: "repo_io \<Rightarrow> repo_io \<Rightarrow> bytes \<Rightarrow> place \<Rightarrow> bool" where
  "keychain_consistent io io' ns pl \<longleftrightarrow>
    (if ri_kc_store io then ri_kc_load io' else ri_kc_load io' \<longrightarrow> btm_get (pl_keychain pl) (kc_account ns) = None)"

lemma keychain_store_case:
  "(case keychain_store io ns k kc of (kc', Inl e) \<Rightarrow> F kc' e | (kc', Inr u) \<Rightarrow> G kc' u) =
    (if ri_kc_store io then G (btm_insert (kc_account ns) (hex_key k) kc) () else F kc (RepoOther ''keychain''))"
  by (simp add: keychain_store_def)

lemma created_vault_opens:
  assumes "create_vault A io ns pl = (pl', Ok sec)" "sound_aead A" "\<forall>f. ri_read io' f = None" "keychain_consistent io io' ns pl"
    "m \<noteq> Passphrase"
  shows "\<exists>pl''. open_secrets K B A io' ns pw m pl' = (pl'', Ok sec)"
    and "nd_config (pl_dir pl') = nd_config (pl_dir pl)"
proof -
  obtain vault k sealed where c: "Vault_create (ri_urandom io 1) (ri_urandom io 2) = Inr vault" "random_secret io 3 = Inr k"
    "seal_with A (ri_nonce io) vault k = Inr sealed" "sec = SecretsVault vault"
    "nd_vault (pl_dir pl') = Some sealed" "nd_config (pl_dir pl') = nd_config (pl_dir pl)"
    "pl_keychain pl' = btm_insert (kc_account ns) (hex_key k) (pl_keychain pl) \<and> ri_kc_store io \<or>
     pl_keychain pl' = pl_keychain pl \<and> nd_vault_key (pl_dir pl') = Some k \<and> \<not> ri_kc_store io"
    using assms(1)
    by (cases "ri_kc_store io") (auto simp: create_vault_def sbind_Inr_iff map_err_Inr_iff write_file_Inr keychain_store_case)
  have k: "length k = KEY_LEN" using c(2) by (auto simp: random_secret_def map_err_Inr_iff dest: random_array_length)
  have op: "open_with B A sealed k = Ok vault" using sealed_vault_opens [OF Vault_create_inv [OF c(1)] assms(2) c(3)] .
  have "\<exists>pl''. load_vault_key io' ns pl' = (pl'', Ok k)"
    using c(7)
  proof
    assume "pl_keychain pl' = btm_insert (kc_account ns) (hex_key k) (pl_keychain pl) \<and> ri_kc_store io"
    then show ?thesis using assms(4) k by (simp add: load_vault_key_def keychain_item keychain_consistent_def)
  next
    assume f: "pl_keychain pl' = pl_keychain pl \<and> nd_vault_key (pl_dir pl') = Some k \<and> \<not> ri_kc_store io"
    then have "keychain_load io' ns (pl_keychain pl') \<in> {Ok None, Err (RepoOther ''keychain'')}"
      using assms(4) by (auto simp: keychain_load_def keychain_consistent_def)
    then show ?thesis using f assms(3) k by (auto simp: load_vault_key_def read_file_def)
  qed
  then show "\<exists>pl''. open_secrets K B A io' ns pw m pl' = (pl'', Ok sec)"
    using assms(3,5) op c(4,5) by (auto simp: open_secrets_def read_file_def)
  show "nd_config (pl_dir pl') = nd_config (pl_dir pl)" by (rule c(6))
qed

text \<open>
  C27. A namespace opens to what was created: mode, key scheme, padding, tenant salt and every secret
  come back from the configuration and the vault, or from the wrap record and the passphrase alone,
  in all three modes, with the key in the keychain or in the fallback file, and \<open>describe\<close> gives the
  mode, padding, lock, retention and device. It is assumed that the device name, if any, consists of
  graphic characters (a blank would cut it, a line break would start a new setting), that reading the
  files back fails nowhere, that the keychain still gives what it was given, and that no wrap record
  was left in the directory before.
\<close>

theorem created_namespace_opens:
  assumes "Repo_create K B A io home ns m ks p pw lock device pl = (pl', Ok r)" "sound_aead A"
    and "\<forall>d. device = Some d \<and> d \<noteq> [] \<longrightarrow> word_text d" "\<forall>f. ri_read io' f = None"
    and "keychain_consistent io io' ns pl" "nd_wraps (pl_dir pl) = []"
    and "\<forall>dek i. length dek = 32 \<and> slot_identity B (from_dek B dek) = Ok i \<longrightarrow> sound_keypair B (id_kp i)"
  shows "(\<exists>pl''. Repo_open_with K B A io' home ns pw pl' = (pl'', Ok r)) \<and> rp_mode r = m \<and> rp_padding r = p \<and>
    (\<exists>ks'. describe io' (pl_dir pl') = Ok \<lparr>ds_mode = m, ds_key_scheme = ks', ds_padding = p, ds_object_lock = map_option fst lock,
      ds_retention_secs = map_option snd lock, ds_device = (if device = Some [] then None else device)\<rparr>)"
proof -
  obtain salt sec cs pl1 where c: "random_secret io 0 = Inr salt"
    "pl1 = pl\<lparr>pl_dir := (pl_dir pl)\<lparr>nd_config := Some (config_text m (scheme_of_mode m ks) p salt lock device)\<rparr>\<rparr>"
    "(case m of Passphrase \<Rightarrow> create_wrap K B A io pw pl1 | _ \<Rightarrow> create_vault A io ns pl1) = (pl', Ok sec)"
    "secrets_convergence sec = Inr cs"
    "r = \<lparr>rp_root = path_join home ns, rp_mode = m, rp_key_scheme = scheme_of_mode m ks, rp_padding = p, rp_secrets = sec,
       rp_cs_holder = cs, rp_tenant_salt = salt\<rparr>"
    using assms(1)
    by (auto simp: Repo_create_def sbind_Inr_iff write_file_Inr Let_def split: option.splits)
  have salt: "salt \<noteq> []" using c(1) by (auto simp: random_secret_def map_err_Inr_iff KEY_LEN_def dest: random_array_length)
  have sec: "(\<exists>pl''. open_secrets K B A io' ns pw m pl' = (pl'', Ok sec)) \<and> nd_config (pl_dir pl') = nd_config (pl_dir pl1)"
  proof (cases "m = Passphrase")
    case True
    then have w: "create_wrap K B A io pw pl1 = (pl', Ok sec)" using c(3) by simp
    have "nd_wraps (pl_dir pl1) = []" using assms(6) by (simp add: c(2))
    then show ?thesis using True created_wrap_opens [OF w assms(2) _ assms(4,7)] by blast
  next
    case False
    then have v: "create_vault A io ns pl1 = (pl', Ok sec)" using c(3) by (cases m) simp_all
    have "keychain_consistent io io' ns pl1" using assms(5) by (simp add: keychain_consistent_def c(2))
    then show ?thesis using created_vault_opens [OF v assms(2,4) _ False] by blast
  qed
  note cfg = config_reads_back [OF salt assms(3), of m "scheme_of_mode m ks" p lock]
  have cfg_text: "read_text io' ''config'' (nd_config (pl_dir pl')) = Ok (config_text m (scheme_of_mode m ks) p salt lock device)"
    using sec assms(4) cfg(2) by (simp add: read_text_def read_file_def c(2))
  then show ?thesis
    using sec c(4) salt cfg(1) open_lines [OF salt assms(3)] describe_lines [OF salt assms(3)]
    by (auto simp: Repo_open_with_def c(5) describe_def)
qed

section \<open>The rest of the interface\<close>

text \<open>The published root reads back with the nonce its record carries, in every mode.\<close>

lemma sealed_root_opens:
  assumes "Repo_seal_root B A urandom r slot_id seq root = Ok (blob, nonce)" "sound_aead A" "arr ADDR_LEN (rm_tree root)"
  shows "Repo_open_root B A r slot_id seq nonce blob = Ok root \<and> length nonce = NONCE_LEN"
proof -
  obtain plain where plain: "RootManifest_encode root = Ok plain"
    and sealed: "(case rp_mode r of TransitOnly \<Rightarrow> Ok (plain, replicate NONCE_LEN 0)
      | _ \<Rightarrow> map_err RepoCrypto (seal_root A urandom (Repo_root_key B r seq) plain (root_aad slot_id seq))) = Ok (blob, nonce)"
    using assms(1) by (auto simp: Repo_seal_root_def result_elims)
  have "RootManifest_decode plain = Ok root"
    using plain assms(3) unfolding RootManifest_decode_def RootManifest_encode_def by (simp add: root_manifest.dec_iff)
  then show ?thesis
    using sealed root_roundtrip [OF assms(2)]
    by (cases "rp_mode r") (auto simp: Repo_open_root_def map_err_Inr_iff)
qed

text \<open>An exported key never replaces a file, and a refusal changes nothing at the destination.\<close>

lemma export_never_overwrites:
  assumes "export_vault_key io r (Some old) pl = ((pl', dest), res)"
  shows "dest = Some old \<and> is_err res"
  using assms
  by (auto simp: export_vault_key_def write_private_new_def split: if_splits option.splits prod.splits sum.splits)

text \<open>A retention period that parses is the product, never a wrapped one.\<close>

lemma retention_does_not_wrap:
  assumes "parse_retention s = Some n"
  shows "\<exists>d u. parse_u64 (takeWhile dec_digit s) = Some d \<and> unit_secs (dropWhile dec_digit s) = Some u \<and> unat n = unat d * unat u"
proof -
  obtain d u where "parse_u64 (takeWhile dec_digit s) = Some d" "unit_secs (dropWhile dec_digit s) = Some u"
    "unat d * unat u < 2 ^ 64" "n = d * u"
    using assms unfolding parse_retention_def Let_def bind_eq_Some_conv by (metis option.distinct(1) option.inject)
  then show ?thesis by (simp add: unat_word_ariths)
qed

text \<open>\<open>describe\<close> has no arm for the plaintext scheme: every \<open>transit-only\<close> namespace is described as convergent.\<close>

lemma described_scheme_of_transit_only:
  "salt \<noteq> [] \<Longrightarrow>
    map_sum id ds_key_scheme (each_line describe_line Description_default (config_lines TransitOnly Plaintext p salt lock None)) = Ok Convergent"
  using describe_lines [of salt None TransitOnly Plaintext p lock] by simp

text \<open>
  A device name goes into the configuration as it is: a line end in it starts a line of its own, and
  that line can set the mode.
\<close>

lemma device_name_can_set_the_mode:
  assumes "salt \<noteq> []" "word_text d"
  shows "each_line open_line open_config_default
      (str_lines (config_text E2ee ks p salt lock (Some (d @ 10 # byte_str ''mode transit-only'')))) =
    Ok \<lparr>og_mode = TransitOnly, og_key_scheme = ks, og_padding = p, og_salt = salt\<rparr>"
proof -
  let ?l = "byte_str ''mode'' @ 32 # byte_str (mode_str TransitOnly)"
  have d: "\<forall>x. Some d = Some x \<and> x \<noteq> [] \<longrightarrow> word_text x" using assms(2) by simp
  have "config_text E2ee ks p salt lock (Some (d @ 10 # byte_str ''mode transit-only'')) =
      config_text E2ee ks p salt lock (Some d) @ ?l @ [10]"
    using assms(2) by (simp add: config_text_def device_line_def word_text_def byte_str_def)
  also have "\<dots> = concat (map (\<lambda>l. l @ [10]) (config_lines E2ee ks p salt lock (Some d) @ [?l]))"
    by (simp add: config_text_lines)
  finally have eq: "config_text E2ee ks p salt lock (Some (d @ 10 # byte_str ''mode transit-only'')) =
      concat (map (\<lambda>l. l @ [10]) (config_lines E2ee ks p salt lock (Some d) @ [?l]))" .
  have "conf_line l" if "l \<in> set (config_lines E2ee ks p salt lock (Some d) @ [?l])" for l
    using that config_lines_words [OF assms(1) d] conf_lineI [OF word_byte_str(3) word_byte_str(10) [of TransitOnly]] by auto
  then have "\<forall>l \<in> set (config_lines E2ee ks p salt lock (Some d) @ [?l]). 10 \<notin> set l \<and> 13 \<notin> set l"
    using conf_line_one by blast
  from str_lines_unlines [OF this] have "str_lines (config_text E2ee ks p salt lock (Some (d @ 10 # byte_str ''mode transit-only''))) =
      config_lines E2ee ks p salt lock (Some d) @ [?l]" unfolding eq .
  moreover have "open_line g ?l = Ok (g\<lparr>og_mode := TransitOnly\<rparr>)" for g
    unfolding open_line_def two_words_text [OF word_byte_str(3,10)] by (simp add: parse_mode_def)
  ultimately show ?thesis using open_lines [OF assms(1) d] by (simp add: each_line_append)
qed

section \<open>Instances\<close>

definition toy_repo_io :: repo_io where
  "toy_repo_io = \<lparr>ri_read = (\<lambda>_. None), ri_write = (\<lambda>_. None), ri_mkdir = None, ri_open_tmp = None, ri_rename = None, ri_remove_tmp = True,
     ri_sync = None, ri_kc_load = False, ri_kc_store = False, ri_urandom = (\<lambda>_. Some (replicate 32 1)), ri_nonce = [], ri_prompt = Ok None\<rparr>"

lemma toy_repo_io_simps [simp]:
  "ri_read toy_repo_io f = None" "ri_write toy_repo_io f = None" "ri_mkdir toy_repo_io = None" "ri_kc_load toy_repo_io = False"
  "ri_kc_store toy_repo_io = False" "ri_urandom toy_repo_io i = Some (replicate 32 1)" "ri_nonce toy_repo_io = []"
  by (simp_all add: toy_repo_io_def)

definition toy_dir :: ns_dir where
  "toy_dir = \<lparr>nd_config = None, nd_vault = None, nd_vault_tmp = None, nd_vault_key = None, nd_wraps = [], nd_head = None\<rparr>"

definition toy_place :: place where
  "toy_place = \<lparr>pl_keychain = [], pl_dir = toy_dir\<rparr>"

lemma toy_vault_sealed: "\<exists>sealed. seal_with toy_aead [] toy_vault key = Ok sealed"
proof -
  have "list_all field_ok [VAULT_MAGIC, u16_le VAULT_VERSION, va_seed toy_vault, concat (map generation_bytes (va_generations toy_vault)), []]"
    by (simp add: MAX_FIELD_def VAULT_MAGIC_def byte_str_def toy_vault_def generation_bytes_def)
  then obtain p where "Vault_plain toy_vault = Ok p" by (simp add: Vault_plain_def toy_vault_def encode_fields_ok)
  then show ?thesis by (simp add: seal_with_def seal_def wrapping_key_def toy_aead_def)
qed

definition toy_open_place :: place where
  "toy_open_place = \<lparr>pl_keychain = [],
     pl_dir = toy_dir\<lparr>nd_vault := Some (expect_ok (seal_with toy_aead [] toy_vault (replicate 32 9))), nd_vault_key := Some (replicate 32 9)\<rparr>\<rparr>"

definition toy_repo :: repo where
  "toy_repo = \<lparr>rp_root = path_join (byte_str ''/home'') (byte_str ''work''), rp_mode = E2ee, rp_key_scheme = Convergent, rp_padding = PadNone,
     rp_secrets = SecretsVault toy_vault, rp_cs_holder = replicate 32 2, rp_tenant_salt = replicate 32 1\<rparr>"

theorem rotation_is_atomic_witness:
  "in_sync toy_backend toy_aead (byte_str ''work'') (fst (fst (Repo_rotate_convergence toy_aead toy_repo_io toy_repo toy_open_place)))
    (snd (fst (Repo_rotate_convergence toy_aead toy_repo_io toy_repo toy_open_place)))"
proof -
  obtain sealed where sealed: "seal_with toy_aead [] toy_vault (replicate 32 9) = Ok sealed" using toy_vault_sealed by blast
  have "open_with toy_backend toy_aead sealed (replicate 32 9) = Ok toy_vault"
    using sealed_vault_opens [OF reachable_vault_inv [OF toy_vault_reach] toy_aead_sound sealed] .
  then have sync: "in_sync toy_backend toy_aead (byte_str ''work'') toy_repo toy_open_place"
    using reachable_vault_inv [OF toy_vault_reach] sealed
    by (auto simp: in_sync_def toy_repo_def toy_open_place_def toy_dir_def holds_key_def KEY_LEN_def expect_ok_def
        current_generation_def toy_vault_def)
  have "plain_name (byte_str ''work'')" by (simp add: plain_name_def byte_str_def)
  then have name: "file_name (rp_root toy_repo) = Some (byte_str ''work'')" by (simp add: toy_repo_def file_name_join)
  have utf: "from_utf8_ok (byte_str ''work'')" by (intro utf8_ascii) (simp add: byte_str_def)
  have v: "rp_secrets toy_repo = SecretsVault toy_vault" "length (va_generations toy_vault) < 2 ^ 32"
    by (simp_all add: toy_repo_def toy_vault_def)
  show ?thesis
    using rotation_is_atomic [OF sync v toy_aead_sound name utf] by (metis prod.collapse)
qed

definition toy_fresh_vault :: vault where
  "toy_fresh_vault = \<lparr>va_seed = replicate 32 1, va_generations = [\<lparr>ge_number = 0, ge_secret = replicate 32 1\<rparr>], va_peers = []\<rparr>"

theorem created_namespace_opens_witness:
  "\<exists>pl' r pl''. Repo_create toy_argon2 toy_backend toy_aead toy_repo_io [] (byte_str ''work'') TransitOnly Convergent PadNone None
      (Some (Compliance, 60)) (Some (byte_str ''laptop'')) toy_place = (pl', Ok r) \<and>
    Repo_open_with toy_argon2 toy_backend toy_aead toy_repo_io [] (byte_str ''work'') None pl' = (pl'', Ok r)"
proof -
  have rnd: "random_array (Some (replicate 32 1)) KEY_LEN = Ok (replicate 32 1)"
    by (simp add: random_array_def random_fill_def all_zero_def list_all_iff KEY_LEN_def)
  then have sec: "random_secret toy_repo_io i = Ok (replicate 32 1)" for i by (simp add: random_secret_def)
  have v: "Vault_create (Some (replicate 32 1)) (Some (replicate 32 1)) = Ok toy_fresh_vault"
    using rnd by (simp add: Vault_create_def toy_fresh_vault_def)
  have "list_all field_ok [VAULT_MAGIC, u16_le VAULT_VERSION, va_seed toy_fresh_vault, concat (map generation_bytes (va_generations toy_fresh_vault)), []]"
    by (simp add: MAX_FIELD_def VAULT_MAGIC_def byte_str_def toy_fresh_vault_def generation_bytes_def)
  then obtain p where "Vault_plain toy_fresh_vault = Ok p" by (simp add: Vault_plain_def toy_fresh_vault_def encode_fields_ok)
  then obtain sealed where "seal_with toy_aead [] toy_fresh_vault (replicate 32 1) = Ok sealed"
    by (simp add: seal_with_def seal_def wrapping_key_def toy_aead_def)
  moreover have "secrets_convergence (SecretsVault toy_fresh_vault) = Ok (replicate 32 1)"
    by (simp add: secrets_convergence_def current_generation_def toy_fresh_vault_def Generation_convergence_secret_def)
  ultimately obtain pl' r where cr: "Repo_create toy_argon2 toy_backend toy_aead toy_repo_io [] (byte_str ''work'') TransitOnly Convergent
      PadNone None (Some (Compliance, 60)) (Some (byte_str ''laptop'')) toy_place = (pl', Ok r)"
    using v sec by (simp add: Repo_create_def create_vault_def write_file_def keychain_store_def Let_def)
  have key: "\<forall>dek i. length dek = 32 \<and> slot_identity toy_backend (from_dek toy_backend dek) = Ok i \<longrightarrow> sound_keypair toy_backend (id_kp i)"
  proof (intro allI impI)
    fix dek i assume "length dek = 32 \<and> slot_identity toy_backend (from_dek toy_backend dek) = Ok i"
    then have "\<exists>k. id_kp i = toy_kp k" by (auto simp: slot_identity_def Identity_derive_def Let_def) (auto simp: toy_backend_def)
    then show "sound_keypair toy_backend (id_kp i)" by auto
  qed
  have "word_text (byte_str ''laptop'')" by (simp add: word_text_def byte_str_def graphic_def)
  then show ?thesis
    using created_namespace_opens [OF cr toy_aead_sound _ _ _ _ key, of toy_repo_io] cr
    by (auto simp: keychain_consistent_def toy_place_def toy_dir_def)
qed

end
