(* ===== verification/Outbox.thy ===== *)
theory Outbox
  imports Repo Bucket
begin

text \<open>
  \<open>nas-cli/src/outbox.rs\<close> and the part of \<open>objectcmd.rs\<close> below it: writes accepted with no peer reachable
  are one-key bucket manifests in \<open>state/outbox\<close>, here a map from file name to content. What \<open>ls\<close>, \<open>get\<close>
  and the gateway see is the published head merged with every staged delta, and replaying folds the
  deltas onto whatever the head has become.
\<close>

section \<open>The outbox\<close>

type_synonym box = "(bytes, bytes) btreemap"

text \<open>
  What \<open>read_dir\<close> yields: \<open>rd.flatten()\<close> skips an entry whose own read fails, so a listing comes with the
  names it gives. \<open>load\<close>, \<open>next_seq\<close> and \<open>clear\<close> each list the directory anew; \<open>bx_order\<close> is the order in
  which \<open>clear\<close> is given the names.
\<close>

datatype dir_answer = Listed "bytes \<Rightarrow> bool" | DirMissing | DirFailed io_error

record box_io =
  bx_mkdir :: "io_error option"
  bx_list :: dir_answer
  bx_seq_list :: dir_answer
  bx_clear_list :: dir_answer
  bx_read :: "bytes \<Rightarrow> io_error option"
  bx_write :: "(io_error \<times> bytes option) option"
  bx_order :: "bytes list \<Rightarrow> bytes list"
  bx_remove :: "bytes \<Rightarrow> io_error option"

datatype box_error =
    BoxIo io_error
  | BoxEncode bucket_error
  | BoxDecode bytes bucket_error

definition NASB :: bytes where "NASB = byte_str ''.nasb''"

definition is_nasb :: "bytes \<Rightarrow> bool" where
  "is_nasb name \<longleftrightarrow> extension name = Some (byte_str ''nasb'')"

definition Outbox_is_empty :: "box_io \<Rightarrow> box \<Rightarrow> bool" where
  "Outbox_is_empty io bx = (case bx_list io of Listed sees \<Rightarrow> list_all (\<lambda>e. sees (fst e) \<longrightarrow> \<not> is_nasb (fst e)) bx | _ \<Rightarrow> True)"

definition seq_of_name :: "bytes \<Rightarrow> u64 option" where
  "seq_of_name name = Option.bind (strip_suffix NASB (from_utf8_lossy name)) parse_u64"

definition best_seq :: "box \<Rightarrow> u64" where
  "best_seq bx = foldl (\<lambda>best e. case seq_of_name (fst e) of None \<Rightarrow> best | Some n \<Rightarrow> max best n) 0 bx"

text \<open>\<open>if let Ok(rd)\<close>: a directory that cannot be listed counts as empty.\<close>

definition next_seq :: "box_io \<Rightarrow> box \<Rightarrow> u64" where
  "next_seq io bx = saturating_add (case bx_seq_list io of Listed sees \<Rightarrow> best_seq (filter (\<lambda>e. sees (fst e)) bx) | _ \<Rightarrow> 0) 1"

text \<open>\<open>format!("{seq:08}.nasb")\<close>.\<close>

definition entry_name :: "u64 \<Rightarrow> bytes" where
  "entry_name seq = (let d = dec (unat seq) in replicate (8 - length d) 48 @ d @ NASB)"

definition enqueue :: "box_io \<Rightarrow> bucket \<Rightarrow> box \<Rightarrow> box \<times> (box_error + u64)" where
  "enqueue io delta bx =
    (let seq = next_seq io bx in
     case Bucket_encode delta of
       Inl e \<Rightarrow> (bx, Err (BoxEncode e))
     | Inr bs \<Rightarrow>
         (case bx_write io of
            None \<Rightarrow> (btm_insert (entry_name seq) bs bx, Ok seq)
          | Some (e, left) \<Rightarrow> (case left of None \<Rightarrow> bx | Some x \<Rightarrow> btm_insert (entry_name seq) x bx, Err (BoxIo e))))"

definition load_entry :: "box_io \<Rightarrow> bytes \<times> bytes \<Rightarrow> box_error + bucket" where
  "load_entry io e =
    (case bx_read io (fst e) of
       Some x \<Rightarrow> Err (BoxIo x)
     | None \<Rightarrow> map_err (BoxDecode (fst e)) (Bucket_decode (snd e)))"

definition Outbox_load :: "box_io \<Rightarrow> box \<Rightarrow> box_error + bucket list" where
  "Outbox_load io bx =
    (case bx_list io of
       DirMissing \<Rightarrow> Ok []
     | DirFailed e \<Rightarrow> Err (BoxIo e)
     | Listed sees \<Rightarrow> traverse (load_entry io) (filter (\<lambda>e. sees (fst e) \<and> is_nasb (fst e)) bx))"

fun clear_loop :: "box_io \<Rightarrow> bytes list \<Rightarrow> box \<Rightarrow> box \<times> (box_error + unit)" where
  "clear_loop io [] bx = (bx, Ok ())"
| "clear_loop io (n # ns) bx =
    (if \<not> is_nasb n then clear_loop io ns bx
     else case bx_remove io n of
            Some e \<Rightarrow> (bx, Err (BoxIo e))
          | None \<Rightarrow> clear_loop io ns (btm_remove n bx))"

definition Outbox_clear :: "box_io \<Rightarrow> box \<Rightarrow> box \<times> (box_error + unit)" where
  "Outbox_clear io bx =
    (case bx_clear_list io of
       Listed sees \<Rightarrow> clear_loop io (filter sees (bx_order io (map fst bx))) bx
     | _ \<Rightarrow> (bx, Ok ()))"

definition Outbox_fold :: "bucket \<Rightarrow> bucket list \<Rightarrow> bucket" where
  "Outbox_fold base deltas = foldl Bucket_merge base deltas"

section \<open>The published head\<close>

datatype load_error =
    NotABucket
  | HeadNotAddress bytes
  | LoadBucket bucket_error
  | LoadBox box_error
  | LoadRepo repo_error
  | LoadIo io_error

text \<open>The blob store as \<open>Repo::blobs\<close> opens it: the files of the namespace, addressed as its mode asks.\<close>

definition open_blobs :: "repo \<Rightarrow> disk \<Rightarrow> disk" where
  "open_blobs r d = d\<lparr>dk_store := BlobStore_open_with (Repo_addressing r) (bs_files (dk_store d))\<rparr>"

definition head_error :: "bucket_error \<Rightarrow> load_error" where
  "head_error e = (case e of BucketBadMagic \<Rightarrow> NotABucket | _ \<Rightarrow> LoadBucket e)"

definition load_published_head ::
  "backend \<Rightarrow> aead \<Rightarrow> repo_io \<Rightarrow> io_env \<Rightarrow> repo \<Rightarrow> ns_dir \<Rightarrow> disk \<Rightarrow> load_error + bucket" where
  "load_published_head B A rio io r nd d =
    (case Repo_head rio nd of
       None \<Rightarrow> Ok []
     | Some head \<Rightarrow>
         rbind (map_err (\<lambda>_. HeadNotAddress head) (from_hex head)) (\<lambda>addr.
         map_err head_error (BucketStore_load B A io (Repo_sealer r) (dk_store d) (Repo_dir_root B r) addr)))"

definition save_published ::
  "backend \<Rightarrow> aead \<Rightarrow> repo_io \<Rightarrow> os \<Rightarrow> repo \<Rightarrow> bucket \<Rightarrow> ns_dir \<times> disk \<Rightarrow> (ns_dir \<times> disk) \<times> (load_error + addr)" where
  "save_published B A rio S r b s =
    (case BucketStore_store B A S (Repo_sealer r) (Repo_dir_root B r) b (snd s) of
       (d, Inl e) \<Rightarrow> ((fst s, d), Err (LoadBucket e))
     | (d, Inr addr) \<Rightarrow>
         (case set_head rio (to_hex addr) (fst s) of
            (nd, Inl e) \<Rightarrow> ((nd, d), Err (LoadRepo e))
          | (nd, Inr _) \<Rightarrow> ((nd, d), Ok addr)))"

definition Outbox_open :: "box_io \<Rightarrow> box_error + unit" where
  "Outbox_open io = (case bx_mkdir io of Some e \<Rightarrow> Err (BoxIo e) | None \<Rightarrow> Ok ())"

definition working_view ::
  "backend \<Rightarrow> aead \<Rightarrow> repo_io \<Rightarrow> io_env \<Rightarrow> box_io \<Rightarrow> repo \<Rightarrow> ns_dir \<Rightarrow> disk \<Rightarrow> box \<Rightarrow> load_error + bucket" where
  "working_view B A rio io bio r nd d bx =
    rbind (load_published_head B A rio io r nd d) (\<lambda>base.
    rbind (map_err LoadBox (Outbox_open bio)) (\<lambda>_.
    rbind (map_err LoadBox (Outbox_load bio bx)) (\<lambda>deltas.
    Ok (Outbox_fold base deltas))))"

text \<open>\<open>objectcmd.rs\<close>: staging the new version of one key.\<close>

definition enqueue_delta :: "box_io \<Rightarrow> bytes \<Rightarrow> key_object \<Rightarrow> box \<Rightarrow> box \<times> (load_error + unit)" where
  "enqueue_delta io key ob bx =
    (case Bucket_put [] key ob of
       (_, Inl e) \<Rightarrow> (bx, Err (LoadBucket e))
     | (delta, Inr _) \<Rightarrow>
         (case Outbox_open io of
            Inl e \<Rightarrow> (bx, Err (LoadBox e))
          | Inr _ \<Rightarrow>
              (case enqueue io delta bx of
                 (bx', Inl e) \<Rightarrow> (bx', Err (LoadBox e))
               | (bx', Inr _) \<Rightarrow> (bx', Ok ()))))"

text \<open>The namespace a replay works on: its files, its blobs, its outbox.\<close>

record staging =
  sg_dir :: ns_dir
  sg_disk :: disk
  sg_box :: box

definition replay_into_head ::
  "backend \<Rightarrow> aead \<Rightarrow> repo_io \<Rightarrow> os \<Rightarrow> io_env \<Rightarrow> io_error option \<Rightarrow> box_io \<Rightarrow> repo \<Rightarrow> staging \<Rightarrow> staging \<times> (load_error + nat)" where
  "replay_into_head B A rio S io blobs_io bio r s =
    (case rbind (map_err LoadBox (Outbox_open bio)) (\<lambda>_. map_err LoadBox (Outbox_load bio (sg_box s))) of
       Inl e \<Rightarrow> (s, Err e)
     | Inr deltas \<Rightarrow>
         if deltas = [] then (s, Ok 0)
         else case blobs_io of Some e \<Rightarrow> (s, Err (LoadIo e)) | None \<Rightarrow>
           (case load_published_head B A rio io r (sg_dir s) (open_blobs r (sg_disk s)) of
              Inl e \<Rightarrow> (s, Err e)
            | Inr base \<Rightarrow>
                (case save_published B A rio S r (Outbox_fold base deltas) (sg_dir s, open_blobs r (sg_disk s)) of
                   ((nd, d), Inl e) \<Rightarrow> (s\<lparr>sg_dir := nd, sg_disk := d\<rparr>, Err e)
                 | ((nd, d), Inr _) \<Rightarrow>
                     (case Outbox_clear bio (sg_box s) of
                        (bx, Inl e) \<Rightarrow> (\<lparr>sg_dir = nd, sg_disk = d, sg_box = bx\<rparr>, Err (LoadBox e))
                      | (bx, Inr _) \<Rightarrow> (\<lparr>sg_dir = nd, sg_disk = d, sg_box = bx\<rparr>, Ok (length deltas))))))"

section \<open>File names\<close>

lemma dec_value_zeros: "dec_value (replicate k 48 @ d) = dec_value d"
  by (induction k) (simp_all add: dec_value_def)

lemma seq_of_entry_name: "seq_of_name (entry_name n) = Some n"
proof -
  let ?d = "dec (unat n)" and ?p = "replicate (8 - length (dec (unat n))) 48 @ dec (unat n)"
  have d: "?d \<noteq> []" "list_all dec_digit ?d" "dec_value ?d = int (unat n)" using dec_digits [of "unat n"] by auto
  have p: "?p \<noteq> []" "list_all dec_digit ?p" "dec_value ?p = int (unat n)"
    using d by (auto simp: dec_value_zeros list_all_iff dec_digit_def)
  have ascii: "from_utf8_lossy (entry_name n) = entry_name n"
    using p(2) by (intro lossy_of_valid utf8_ascii)
      (auto simp: entry_name_def Let_def NASB_def byte_str_def list_all_iff dec_digit_def word_less_nat_alt word_le_nat_alt dest!: bspec)
  have "hd ?p \<noteq> 43" using p(1,2) by (cases ?p) (auto simp: dec_digit_def)
  then have "parse_u64 ?p = Some n"
    using p unsigned_less [of n, where ?'a = int] by (simp add: parse_u64_def Let_def)
  moreover have "entry_name n = ?p @ NASB" by (simp add: entry_name_def Let_def)
  ultimately show ?thesis unfolding seq_of_name_def ascii using strip_suffix_iff [of NASB "entry_name n" ?p] by simp
qed

lemma entry_name_is_nasb: "is_nasb (entry_name n)"
proof -
  let ?p = "replicate (8 - length (dec (unat n))) 48 @ dec (unat n)"
  have digits: "\<forall>c \<in> set ?p. dec_digit c" "?p \<noteq> []" using dec_digits [of "unat n"] by (auto simp: list_all_iff dec_digit_def)
  then have "46 \<notin> set ?p" by (auto simp: dec_digit_def dest!: bspec)
  moreover have name: "entry_name n = ?p @ 46 # byte_str ''nasb''" by (simp add: entry_name_def Let_def NASB_def byte_str_def)
  moreover have "split_on 46 (byte_str ''nasb'') = [byte_str ''nasb'']" by (simp add: byte_str_def)
  ultimately have "split_on 46 (entry_name n) = [?p, byte_str ''nasb'']"
    unfolding name using split_on_append [of 46 ?p "byte_str ''nasb''"] by simp
  moreover have "entry_name n \<noteq> [46, 46]" using name digits by (auto simp: byte_str_def)
  ultimately show ?thesis using digits(2) name by (simp add: is_nasb_def extension_def)
qed

lemma best_seq_upper: "(n, x) \<in> set bx \<Longrightarrow> seq_of_name n = Some k \<Longrightarrow> k \<le> best_seq bx"
proof -
  have mono: "b \<le> foldl (\<lambda>best e. case seq_of_name (fst e) of None \<Rightarrow> best | Some n \<Rightarrow> max best n) b xs" for b and xs :: box
  proof (induction xs arbitrary: b)
    case (Cons e xs)
    show ?case using Cons [of "case seq_of_name (fst e) of None \<Rightarrow> b | Some n \<Rightarrow> max b n"]
      by (auto split: option.splits intro: order_trans [OF max.cobounded1])
  qed simp
  have "k \<le> foldl (\<lambda>best e. case seq_of_name (fst e) of None \<Rightarrow> best | Some n \<Rightarrow> max best n) b bx"
    if "(n, x) \<in> set bx" "seq_of_name n = Some k" for b
    using that
  proof (induction bx arbitrary: b)
    case (Cons e xs)
    then show ?case using mono [of "max b k" xs] by (auto intro: order_trans [OF max.cobounded2])
  qed simp
  then show "(n, x) \<in> set bx \<Longrightarrow> seq_of_name n = Some k \<Longrightarrow> k \<le> best_seq bx" by (simp add: best_seq_def)
qed

text \<open>A new entry never replaces a staged one, as long as the directory could be listed completely.\<close>

lemma next_entry_is_new:
  assumes "bx_seq_list io = Listed sees" "\<forall>n \<in> fst ` set bx. sees n" "best_seq bx \<noteq> - 1"
  shows "btm_get bx (entry_name (next_seq io bx)) = None"
proof (rule ccontr)
  assume "btm_get bx (entry_name (next_seq io bx)) \<noteq> None"
  then obtain x where "(entry_name (next_seq io bx), x) \<in> set bx" by (auto dest: map_of_SomeD)
  then have "next_seq io bx \<le> best_seq bx" using best_seq_upper seq_of_entry_name by blast
  moreover have "filter (\<lambda>e. sees (fst e)) bx = bx" using assms(2) by (intro filter_True) simp
  ultimately show False using assms(1,3) saturating_add_one_less [of "best_seq bx"] by (simp add: next_seq_def not_le)
qed

section \<open>What is staged\<close>

text \<open>The deltas a complete read of the directory yields, ignoring what does not decode.\<close>

definition delta_of :: "bytes \<times> bytes \<Rightarrow> bucket option" where
  "delta_of e = (if is_nasb (fst e) then (case Bucket_decode (snd e) of Inr d \<Rightarrow> Some d | Inl _ \<Rightarrow> None) else None)"

definition staged :: "box \<Rightarrow> bucket list" where
  "staged bx = List.map_filter delta_of bx"

text \<open>A listing that gives every name.\<close>

definition lists_all :: "dir_answer \<Rightarrow> box \<Rightarrow> bool" where
  "lists_all l bx \<longleftrightarrow> (case l of Listed sees \<Rightarrow> list_all (\<lambda>e. sees (fst e)) bx | _ \<Rightarrow> False)"

lemma load_is_staged:
  assumes "Outbox_load io bx = Ok ds" "lists_all (bx_list io) bx"
  shows "ds = staged bx"
proof -
  obtain sees where sees: "bx_list io = Listed sees" "list_all (\<lambda>e. sees (fst e)) bx"
    using assms(2) by (auto simp: lists_all_def split: dir_answer.splits)
  then have "filter (\<lambda>e. sees (fst e) \<and> is_nasb (fst e)) bx = filter (\<lambda>e. is_nasb (fst e)) bx"
    by (intro filter_cong) (auto simp: list_all_iff)
  then have "traverse (load_entry io) (filter (\<lambda>e. is_nasb (fst e)) bx) = Ok ds"
    using assms(1) sees(1) by (simp add: Outbox_load_def)
  then show ?thesis
  proof (induction bx arbitrary: ds)
    case (Cons e bx)
    then show ?case
      by (auto simp: staged_def List.map_filter_simps delta_of_def load_entry_def result_elims
          split: if_splits option.splits sum.splits)
  qed (simp add: staged_def List.map_filter_simps)
qed

lemma staged_wf: "d \<in> set (staged bx) \<Longrightarrow> wf_bucket d"
  by (auto simp: staged_def List.map_filter_def delta_of_def bucket.dec_iff split: if_splits sum.splits)

lemma staged_append: "staged (xs @ ys) = staged xs @ staged ys"
  by (simp add: staged_def List.map_filter_def)

text \<open>Looking up a key in a fold of merges: version by version.\<close>

definition pick_version :: "key_object option \<Rightarrow> key_object option \<Rightarrow> key_object option" where
  "pick_version a b = (case b of None \<Rightarrow> a | Some y \<Rightarrow> Some (case a of None \<Rightarrow> y | Some x \<Rightarrow> if beats y x then y else x))"

lemma Bucket_get_fold:
  "\<forall>d \<in> set ds. btm_inv d \<Longrightarrow> Bucket_get (Outbox_fold base ds) k = foldl pick_version (Bucket_get base k) (map (\<lambda>d. Bucket_get d k) ds)"
proof (induction ds arbitrary: base)
  case (Cons d ds)
  then show ?case by (simp add: Outbox_fold_def Bucket_get_merge pick_version_def)
qed (simp add: Outbox_fold_def)

lemma fold_inv: "btm_inv base \<Longrightarrow> btm_inv (Outbox_fold base ds)"
  by (induction ds arbitrary: base) (simp_all add: Outbox_fold_def Bucket_merge_def lww.inv_merge)

lemma pick_None [simp]: "pick_version a None = a"
  by (simp add: pick_version_def)

lemma picks_None: "\<forall>v \<in> set vs. v = None \<Longrightarrow> foldl pick_version a vs = a"
  by (induction vs) auto

text \<open>A version nobody beats stays, and one that beats all the others wins wherever it stands.\<close>

lemma picks_stay: "\<forall>v \<in> set vs. \<forall>y. v = Some y \<longrightarrow> \<not> beats y x \<Longrightarrow> foldl pick_version (Some x) vs = Some x"
  by (induction vs) (auto simp: pick_version_def split: option.split)

lemma picks_unbeaten:
  "foldl pick_version a vs = Some x \<Longrightarrow> v \<in> insert a (set vs) \<Longrightarrow> v = Some y \<Longrightarrow> \<not> beats y x"
proof (induction vs arbitrary: a v y)
  case (Cons w vs)
  have step: "\<not> beats y x" if "v \<in> insert (pick_version a w) (set vs)" "v = Some y" for v y
    using Cons.IH [of "pick_version a w"] Cons.prems(1) that by simp
  show ?case
  proof (cases "v \<in> set vs")
    case True
    then show ?thesis using step Cons.prems(3) by blast
  next
    case False
    then have v: "v = a \<or> v = w" using Cons.prems(2) by auto
    then have "\<exists>z. pick_version a w = Some z \<and> \<not> beats y z"
      using Cons.prems(3) by (cases a; cases w) (auto simp: pick_version_def dest: beats_asym)
    then obtain z where z: "pick_version a w = Some z" "\<not> beats y z" by blast
    then show ?thesis using step [of "Some z" z] not_beats_trans by auto
  qed
qed simp

lemma picks_None_iff: "foldl pick_version a vs = None \<longleftrightarrow> a = None \<and> (\<forall>v \<in> set vs. v = None)"
proof (induction vs arbitrary: a)
  case (Cons v vs)
  then show ?case by (cases v) (auto simp: pick_version_def)
qed simp

lemma picks_win:
  assumes "\<forall>v \<in> insert a (set xs). \<forall>z. v = Some z \<longrightarrow> beats y z" "\<forall>v \<in> set ys. \<forall>z. v = Some z \<longrightarrow> \<not> beats z y"
  shows "foldl pick_version a (xs @ Some y # ys) = Some y"
proof -
  have "\<exists>z. foldl pick_version a xs = z \<and> (\<forall>x. z = Some x \<longrightarrow> beats y x)"
    using assms(1)
  proof (induction xs arbitrary: a)
    case (Cons v xs)
    have "\<forall>z. pick_version a v = Some z \<longrightarrow> beats y z" using Cons.prems by (cases a; cases v) (simp_all add: pick_version_def)
    then show ?case using Cons.IH [of "pick_version a v"] Cons.prems by simp
  qed simp
  then have "pick_version (foldl pick_version a xs) (Some y) = Some y" by (auto simp: pick_version_def split: option.split)
  then show ?thesis using picks_stay [OF assms(2)] by simp
qed

section \<open>Staging a write\<close>

lemma btm_insert_split: "btm_get m k = None \<Longrightarrow> \<exists>m1 m2. m = m1 @ m2 \<and> btm_insert k v m = m1 @ (k, v) # m2"
proof (induction m)
  case (Cons e m)
  obtain j w where e: "e = (j, w)" by fastforce
  show ?case
  proof (cases "k < j")
    case True
    then show ?thesis by (intro exI [of _ "[]"] exI [of _ "e # m"]) (simp add: e)
  next
    case False
    then have "j \<noteq> k" "btm_get m k = None" using Cons.prems by (auto simp: e split: if_splits)
    then obtain m1 m2 where "m = m1 @ m2" "btm_insert k v m = m1 @ (k, v) # m2" using Cons.IH by blast
    then show ?thesis using False \<open>j \<noteq> k\<close> by (intro exI [of _ "e # m1"] exI [of _ m2]) (auto simp: e)
  qed
qed simp

text \<open>
  A staged write is seen at once: with a stamp past what its author saw, the key shows the new version
  and every other key what it showed, wherever the file name sorts the delta.
\<close>

lemma staged_write_is_seen:
  assumes "btm_get bx name = None" "is_nasb name" "Bucket_decode bs = Ok [(k, o')]" "btm_inv base"
    and "\<forall>x. Bucket_get (Outbox_fold base (staged bx)) k = Some x \<longrightarrow> ko_lamport x < ko_lamport o'"
  shows "Bucket_get (Outbox_fold base (staged (btm_insert name bs bx))) j =
    (if j = k then Some o' else Bucket_get (Outbox_fold base (staged bx)) j)"
proof -
  obtain b1 b2 where b: "bx = b1 @ b2" "btm_insert name bs bx = b1 @ (name, bs) # b2" using btm_insert_split [OF assms(1)] by blast
  let ?xs = "staged b1" and ?ys = "staged b2"
  have "staged ((name, bs) # b2) = [(k, o')] # ?ys" using assms(2,3) by (simp add: staged_def List.map_filter_simps delta_of_def)
  then have st: "staged bx = ?xs @ ?ys" "staged (btm_insert name bs bx) = ?xs @ [(k, o')] # ?ys"
    unfolding b(2) unfolding b(1) by (simp_all add: staged_append)
  have inv: "\<forall>d \<in> set (?xs @ ?ys). btm_inv d" using staged_wf by (auto simp: wf_bucket_def)
  then have new: "Bucket_get (Outbox_fold base (staged (btm_insert name bs bx))) j =
      foldl pick_version (Bucket_get base j) (map (\<lambda>d. Bucket_get d j) ?xs @ Bucket_get [(k, o')] j # map (\<lambda>d. Bucket_get d j) ?ys)"
    unfolding st by (subst Bucket_get_fold) auto
  have old: "Bucket_get (Outbox_fold base (staged bx)) j =
      foldl pick_version (Bucket_get base j) (map (\<lambda>d. Bucket_get d j) ?xs @ map (\<lambda>d. Bucket_get d j) ?ys)"
    unfolding st using inv by (subst Bucket_get_fold) auto
  show ?thesis
  proof (cases "j = k")
    case False
    then show ?thesis unfolding new old by (simp add: Bucket_get_def)
  next
    case True
    have below: "beats o' z" if "Some z \<in> insert (Bucket_get base k) (set (map (\<lambda>d. Bucket_get d k) ?xs @ map (\<lambda>d. Bucket_get d k) ?ys))" for z
    proof -
      have "foldl pick_version (Bucket_get base k) (map (\<lambda>d. Bucket_get d k) ?xs @ map (\<lambda>d. Bucket_get d k) ?ys) \<noteq> None"
        using that unfolding picks_None_iff by (metis (no_types, lifting) insert_iff option.discI)
      then obtain x where x: "foldl pick_version (Bucket_get base k) (map (\<lambda>d. Bucket_get d k) ?xs @ map (\<lambda>d. Bucket_get d k) ?ys) = Some x"
        by blast
      then have "\<not> beats z x" using picks_unbeaten that by blast
      moreover have "ko_lamport x < ko_lamport o'" using assms(5) x old True by simp
      ultimately show ?thesis by (auto simp: beats_def)
    qed
    have "foldl pick_version (Bucket_get base k) (map (\<lambda>d. Bucket_get d k) ?xs @ Some o' # map (\<lambda>d. Bucket_get d k) ?ys) = Some o'"
      using below by (intro picks_win) (force dest: beats_asym)+
    then show ?thesis unfolding new using True by (simp add: Bucket_get_def)
  qed
qed

section \<open>Reads without failures\<close>

definition calm_io :: io_env where
  "calm_io = \<lparr>io_read = None, io_write = (\<lambda>_. None), io_torn = None, io_listing = (\<lambda>fs. fs), io_now = 0\<rparr>"

definition calm_repo_io :: repo_io where
  "calm_repo_io = \<lparr>ri_read = (\<lambda>_. None), ri_write = (\<lambda>_. None), ri_mkdir = None, ri_open_tmp = None, ri_rename = None, ri_remove_tmp = True,
     ri_sync = None, ri_kc_load = True, ri_kc_store = True, ri_urandom = (\<lambda>_. None), ri_nonce = [], ri_prompt = Ok None\<rparr>"

lemma calm_simps [simp]: "io_read calm_io = None" "ri_read calm_repo_io f = None" "ri_kc_load calm_repo_io"
  by (simp_all add: calm_io_def calm_repo_io_def)

text \<open>What one store yields, the other does too.\<close>

definition reads_le :: "backend \<Rightarrow> blob_store \<Rightarrow> blob_store \<Rightarrow> bool" where
  "reads_le B st st' \<longleftrightarrow> (\<forall>a bs. BlobStore_get B calm_io st a = Ok bs \<longrightarrow> BlobStore_get B calm_io st' a = Ok bs)"

lemma reads_le_refl [simp]: "reads_le B st st"
  by (simp add: reads_le_def)

lemma get_calm: "BlobStore_get B io st a = Ok bs \<Longrightarrow> BlobStore_get B calm_io st a = Ok bs"
  by (auto simp: BlobStore_get_def split: option.splits if_splits)

lemma extends_reads_le:
  assumes "disk_ok B d" "extends B d d'" "separates B d'"
  shows "reads_le B (dk_store d) (dk_store d')"
  unfolding reads_le_def
proof (intro allI impI)
  fix a bs assume "BlobStore_get B calm_io (dk_store d) a = Ok bs"
  then obtain f where f: "btm_get (bs_files (dk_store d)) a = Some f" "bf_bytes f = bs" "addr_of B (bs_addressing (dk_store d)) bs = a"
    by (auto simp: BlobStore_get_def Addressing_verifies_def split: option.splits if_splits)
  then have "bs \<in> set (dk_puts d)" using assms(1) by (auto simp: disk_ok_def Let_def)
  then have "bs \<in> set (dk_puts d')" "disk_ok B d'" "bs_addressing (dk_store d') = bs_addressing (dk_store d)"
    using assms(1,2) by (auto simp: extends_def)
  then show "BlobStore_get B calm_io (dk_store d') a = Ok bs" using disk_get [of B d' bs calm_io] assms(3) f(3) by simp
qed

lemma bucket_load_calm:
  assumes "BucketStore_load B A io slr st dir a = Ok b" "reads_le B st st'"
  shows "BucketStore_load B A calm_io slr st' dir a = Ok b"
proof -
  obtain stored where "BlobStore_get B io st a = Ok stored"
    and rest: "rbind (case slr of SealConvergent _ \<Rightarrow> map_err BucketCrypto (key_open B A (manifest_key B dir) stored BUCKET_AAD)
      | SealPlaintext _ \<Rightarrow> Ok stored) Bucket_decode = Ok b"
    using assms(1) by (auto simp: BucketStore_load_def get_sealed_def rbind_Inr_iff map_err_Inr_iff)
  then have "BlobStore_get B calm_io st' a = Ok stored" using get_calm assms(2) by (auto simp: reads_le_def)
  then show ?thesis using rest by (simp add: BucketStore_load_def get_sealed_def)
qed

section \<open>What a namespace shows\<close>

text \<open>The working view, read without failures and past files that do not decode.\<close>

definition published :: "backend \<Rightarrow> aead \<Rightarrow> repo \<Rightarrow> ns_dir \<Rightarrow> disk \<Rightarrow> bucket option" where
  "published B A r nd d = (case load_published_head B A calm_repo_io calm_io r nd d of Inr b \<Rightarrow> Some b | Inl _ \<Rightarrow> None)"

definition ns_view :: "backend \<Rightarrow> aead \<Rightarrow> repo \<Rightarrow> ns_dir \<Rightarrow> disk \<Rightarrow> box \<Rightarrow> bucket option" where
  "ns_view B A r nd d bx = map_option (\<lambda>base. Outbox_fold base (staged bx)) (published B A r nd d)"

lemma published_head:
  assumes "load_published_head B A rio io r nd d = Ok b" "ri_read rio ''state/HEAD'' = None" "reads_le B (dk_store d) (dk_store d')"
  shows "published B A r nd d' = Some b"
proof -
  have "Repo_head rio nd = Repo_head calm_repo_io nd" using assms(2) by (simp add: Repo_head_def read_text_def read_file_def)
  then show ?thesis
    using assms(1,3)
    by (auto simp: published_def load_published_head_def rbind_Inr_iff map_err_Inr_iff dest: bucket_load_calm
        split: option.splits sum.splits)
qed

lemma published_le:
  assumes "published B A r nd d = Some b" "reads_le B (dk_store d) (dk_store d')"
  shows "published B A r nd d' = Some b"
  using published_head [OF _ _ assms(2), of A calm_repo_io calm_io r nd b] assms(1) by (auto simp: published_def split: sum.splits)

lemma published_wf: "published B A r nd d = Some b \<Longrightarrow> wf_bucket b"
  by (auto simp: published_def load_published_head_def BucketStore_load_def rbind_Inr_iff map_err_Inr_iff bucket.dec_iff wf_bucket_def
      split: option.splits sum.splits)

lemma working_view_shown:
  assumes "working_view B A rio io bio r nd d bx = Ok W" "ri_read rio ''state/HEAD'' = None" "lists_all (bx_list bio) bx"
  shows "ns_view B A r nd d bx = Some W"
proof -
  obtain base ds where w: "load_published_head B A rio io r nd d = Ok base" "Outbox_load bio bx = Ok ds" "W = Outbox_fold base ds"
    using assms(1) by (auto simp: working_view_def rbind_Inr_iff map_err_Inr_iff)
  then show ?thesis using published_head [OF w(1) assms(2) reads_le_refl] load_is_staged [OF w(2) assms(3)] by (simp add: ns_view_def)
qed

lemma merge_wf: "wf_bucket a \<Longrightarrow> wf_bucket b \<Longrightarrow> wf_bucket (Bucket_merge a b)"
proof -
  have "list_all wf_key_object (fold merge_entry b a)" if "list_all wf_key_object a" "list_all wf_key_object b" for a b
    using that
  proof (induction b arbitrary: a)
    case (Cons e b)
    have "list_all wf_key_object (merge_entry e a)"
      using Cons.prems set_btm_insert_subset [of "fst e" "snd e" a] by (auto simp: merge_entry_def list_all_iff split: option.split)
    then show ?case using Cons by simp
  qed simp
  then show "wf_bucket a \<Longrightarrow> wf_bucket b \<Longrightarrow> wf_bucket (Bucket_merge a b)" by (simp add: wf_bucket_def Bucket_merge_def lww.inv_merge)
qed

lemma fold_wf: "wf_bucket base \<Longrightarrow> \<forall>d \<in> set ds. wf_bucket d \<Longrightarrow> wf_bucket (Outbox_fold base ds)"
  by (induction ds arbitrary: base) (simp_all add: Outbox_fold_def merge_wf)

lemma shown_wf: "ns_view B A r nd d bx = Some W \<Longrightarrow> wf_bucket W"
  using published_wf staged_wf by (auto simp: ns_view_def intro!: fold_wf)

lemma decode_wf: "Bucket_decode bs = Ok b \<Longrightarrow> wf_bucket b"
  by (simp add: bucket.dec_iff wf_bucket_def)

lemma load_wf:
  assumes "Outbox_load io bx = Ok ds" "d \<in> set ds"
  shows "wf_bucket d"
proof (cases "bx_list io")
  case (Listed sees)
  then have "list_all2 (\<lambda>e d. load_entry io e = Ok d) (filter (\<lambda>e. sees (fst e) \<and> is_nasb (fst e)) bx) ds"
    using assms(1) by (simp add: Outbox_load_def traverse_Inr_iff)
  then obtain e where "load_entry io e = Ok d" using assms(2) by (metis (mono_tags, lifting) in_set_conv_nth list_all2_conv_all_nth)
  then show ?thesis using decode_wf by (auto simp: load_entry_def map_err_Inr_iff split: option.splits)
qed (use assms in \<open>auto simp: Outbox_load_def\<close>)

lemma head_wf: "load_published_head B A rio io r nd d = Ok b \<Longrightarrow> wf_bucket b"
  using decode_wf by (auto simp: load_published_head_def BucketStore_load_def rbind_Inr_iff map_err_Inr_iff split: option.splits)
    (simp add: wf_bucket_def)

lemma put_wf:
  assumes "Bucket_put b k x = (b', Ok ())" "wf_bucket b" "arr WRITER_LEN (ko_writer_id x)"
    "case ko_object x of None \<Rightarrow> True | Some m \<Rightarrow> wf_Manifest m"
  shows "wf_bucket b'"
  using assms set_btm_insert_subset [of k x b]
  by (auto simp: Bucket_put_Inr_iff wf_bucket_def wf_key_object_def list_all_iff)

lemma enqueue_delta_Ok:
  assumes "enqueue_delta io k x bx = (bx', Ok ())"
  shows "key_is_safe k \<and> (\<exists>bs. Bucket_encode [(k, x)] = Ok bs \<and> bx' = btm_insert (entry_name (next_seq io bx)) bs bx)"
proof -
  obtain delta where put: "Bucket_put [] k x = (delta, Ok ())"
    using assms by (cases "Bucket_put [] k x") (auto simp: enqueue_delta_def split: sum.splits)
  then have "key_is_safe k" "delta = [(k, x)]" by (simp_all add: Bucket_put_Inr_iff)
  then show ?thesis using assms put
    by (auto simp: enqueue_delta_def enqueue_def Let_def split: sum.splits option.splits prod.splits)
qed

lemma enqueue_delta_Err: "enqueue_delta io k x bx = (bx', Err e) \<Longrightarrow> bx_write io = None \<Longrightarrow> bx' = bx"
  by (auto simp: enqueue_delta_def enqueue_def Let_def split: sum.splits option.splits prod.splits)

text \<open>
  C39. Staging a write is making it. Let a namespace show the bucket \<open>W\<close>, let a new version of a key be
  stamped from \<open>W\<close> (below the last stamp), with a full-width writer and a valid manifest or none, and
  let \<open>next_seq\<close>'s listing of the outbox be complete (and its numbers not used up). If \<open>enqueue_delta\<close> succeeds, the
  key is safe, the namespace shows exactly what putting the version into \<open>W\<close> itself gives, which is well
  formed again, and every file that was staged is still there beside the new one. If it answers an
  error, the outbox is untouched, unless it was the writing of the new file that failed.
\<close>

theorem staged_write_is_the_write:
  assumes "ns_view B A r nd d bx = Some W" "btm_inv bx"
    and "ko_lamport x = next_lamport W k" "\<forall>y. Bucket_get W k = Some y \<longrightarrow> ko_lamport y \<noteq> - 1"
    and "arr WRITER_LEN (ko_writer_id x)" "case ko_object x of None \<Rightarrow> True | Some m \<Rightarrow> wf_Manifest m"
    and "lists_all (bx_seq_list io) bx" "best_seq bx \<noteq> - 1"
  shows "case enqueue_delta io k x bx of
      (bx', Inr _) \<Rightarrow> \<exists>W' name bs. Bucket_put W k x = (W', Ok ()) \<and> wf_bucket W' \<and> ns_view B A r nd d bx' = Some W' \<and>
        btm_get bx name = None \<and> btm_get bx' = (btm_get bx)(name \<mapsto> bs)
    | (bx', Inl _) \<Rightarrow> bx' = bx \<or> bx_write io \<noteq> None"
proof (cases "enqueue_delta io k x bx")
  case (Pair bx' res)
  show ?thesis
  proof (cases res)
    case (Inl e)
    then show ?thesis using Pair enqueue_delta_Err [of io k x bx bx' e] by (cases "bx_write io") simp_all
  next
    case (Inr u)
    then obtain bs where safe: "key_is_safe k" and bs: "Bucket_encode [(k, x)] = Ok bs" "bx' = btm_insert (entry_name (next_seq io bx)) bs bx"
      using enqueue_delta_Ok [of io k x bx bx'] Pair by auto
    obtain sees where "bx_seq_list io = Listed sees" "\<forall>n \<in> fst ` set bx. sees n"
      using assms(7) by (auto simp: lists_all_def list_all_iff split: dir_answer.splits)
    then have new: "btm_get bx (entry_name (next_seq io bx)) = None" using next_entry_is_new assms(8) by blast
    have put: "Bucket_put W k x = (btm_insert k x W, Ok ())" using safe by (simp add: Bucket_put_Inr_iff)
    have wf: "wf_bucket W" "wf_bucket (btm_insert k x W)" using shown_wf [OF assms(1)] put_wf [OF put _ assms(5,6)] by auto
    have dec: "Bucket_decode bs = Ok [(k, x)]"
      using bs(1) safe assms(5,6) by (simp add: bucket.dec_iff wf_bucket_def wf_key_object_def)
    obtain base where base: "published B A r nd d = Some base" "W = Outbox_fold base (staged bx)" using assms(1) by (auto simp: ns_view_def)
    have inv: "btm_inv base" using published_wf [OF base(1)] by (simp add: wf_bucket_def)
    have "ko_lamport y < ko_lamport x" if "Bucket_get W k = Some y" for y
      using that assms(3,4) saturating_add_one_less [of "ko_lamport y"] by (simp add: next_lamport_def Bucket_get_def)
    then have "Bucket_get (Outbox_fold base (staged bx')) j = (if j = k then Some x else Bucket_get W j)" for j
      using staged_write_is_seen [OF new entry_name_is_nasb dec inv] base(2) bs(2) by simp
    then have "Outbox_fold base (staged bx') = btm_insert k x W"
      using wf(2) fold_inv [OF inv] by (intro btm_ext) (auto simp: Bucket_get_def wf_bucket_def)
    then have "ns_view B A r nd d bx' = Some (btm_insert k x W)" using base(1) by (simp add: ns_view_def)
    moreover have "btm_get bx' = (btm_get bx)(entry_name (next_seq io bx) \<mapsto> bs)" using bs(2) by (auto simp: fun_eq_iff)
    ultimately show ?thesis using Pair Inr put wf(2) new by auto
  qed
qed

section \<open>Replaying\<close>

text \<open>Merging a delta again changes nothing.\<close>

lemma fold_again:
  assumes "wf_bucket base" "\<forall>d \<in> set ds. wf_bucket d" "set es \<subseteq> set ds"
  shows "Outbox_fold (Outbox_fold base ds) es = Outbox_fold base ds"
proof (rule btm_ext)
  have inv: "btm_inv base" "\<forall>d \<in> set ds. btm_inv d" "\<forall>d \<in> set es. btm_inv d" using assms by (auto simp: wf_bucket_def)
  show "btm_inv (Outbox_fold (Outbox_fold base ds) es)" "btm_inv (Outbox_fold base ds)" using inv(1) by (simp_all add: fold_inv)
  fix k
  have W: "Bucket_get (Outbox_fold base ds) k = foldl pick_version (Bucket_get base k) (map (\<lambda>d. Bucket_get d k) ds)"
    using inv(2) by (rule Bucket_get_fold)
  have "foldl pick_version (Bucket_get (Outbox_fold base ds) k) (map (\<lambda>d. Bucket_get d k) es) = Bucket_get (Outbox_fold base ds) k"
  proof (cases "Bucket_get (Outbox_fold base ds) k")
    case None
    then have "\<forall>d \<in> set ds. Bucket_get d k = None" using W by (simp add: picks_None_iff)
    then show ?thesis using assms(3) by (intro picks_None) auto
  next
    case (Some x)
    then have "\<not> beats y x" if "d \<in> set ds" "Bucket_get d k = Some y" for d y
    proof -
      have "Bucket_get d k \<in> set (map (\<lambda>d. Bucket_get d k) ds)" using that(1) by simp
      then show ?thesis using picks_unbeaten [of "Bucket_get base k" "map (\<lambda>d. Bucket_get d k) ds" x "Bucket_get d k" y] that(2) Some W
        by (metis insertI2)
    qed
    then show ?thesis unfolding Some using assms(3) by (intro picks_stay) auto
  qed
  then show "btm_get (Outbox_fold (Outbox_fold base ds) es) k = btm_get (Outbox_fold base ds) k"
    using Bucket_get_fold [OF inv(3), of "Outbox_fold base ds" k] by (simp add: Bucket_get_def)
qed

lemma clear_loop_subset: "clear_loop io ns bx = (bx', res) \<Longrightarrow> set bx' \<subseteq> set bx"
  by (induction io ns bx rule: clear_loop.induct)
    (auto split: if_splits option.splits dest: subsetD [OF btm_remove_subset])

lemma clear_loop_clears:
  "clear_loop io ns bx = (bx', Ok ()) \<Longrightarrow> btm_inv bx \<Longrightarrow> n \<in> set ns \<Longrightarrow> is_nasb n \<Longrightarrow> n \<notin> fst ` set bx'"
proof (induction io ns bx rule: clear_loop.induct)
  case (2 io m ns bx)
  show ?case
  proof (cases "is_nasb m")
    case False
    then show ?thesis using 2 by auto
  next
    case True
    then have rm: "bx_remove io m = None" using 2(3) by (cases "bx_remove io m") auto
    then have rest: "clear_loop io ns (btm_remove m bx) = (bx', Ok ())" using 2(3) True by simp
    show ?thesis
    proof (cases "n \<in> set ns")
      case True
      then show ?thesis using 2(2) [OF _ rm rest] \<open>is_nasb m\<close> 2(4,6) by simp
    next
      case False
      then have "n = m" using 2(5) by simp
      then have "n \<notin> fst ` set (btm_remove m bx)" using btm_get_remove [OF 2(4), of m]
        by (metis fun_upd_same map_of_eq_None_iff)
      then show ?thesis using clear_loop_subset [OF rest] by blast
    qed
  qed
qed simp

lemma staged_subset: "set bx' \<subseteq> set bx \<Longrightarrow> set (staged bx') \<subseteq> set (staged bx)"
  by (auto simp: staged_def List.map_filter_def)

lemma cleared_box:
  assumes "Outbox_clear io bx = (bx', Ok ())" "lists_all (bx_clear_list io) bx" "btm_inv bx" "fst ` set bx \<subseteq> set (bx_order io (map fst bx))"
  shows "staged bx' = []"
proof -
  obtain sees where sees: "bx_clear_list io = Listed sees" "list_all (\<lambda>e. sees (fst e)) bx"
    using assms(2) by (auto simp: lists_all_def split: dir_answer.splits)
  have loop: "clear_loop io (filter sees (bx_order io (map fst bx))) bx = (bx', Ok ())" using assms(1) sees(1) by (simp add: Outbox_clear_def)
  have "delta_of e = None" if e: "e \<in> set bx'" for e
  proof (rule ccontr)
    assume "delta_of e \<noteq> None"
    then have "is_nasb (fst e)" by (auto simp: delta_of_def split: if_splits)
    moreover have "fst e \<in> set (filter sees (bx_order io (map fst bx)))"
      using e clear_loop_subset [OF loop] assms(4) sees(2) by (auto simp: list_all_iff)
    ultimately show False using clear_loop_clears [OF loop assms(3)] e by auto
  qed
  then show ?thesis by (simp add: staged_def List.map_filter_def)
qed

lemma stored_bucket:
  assumes "BucketStore_store B A S slr dir b d = (d', Ok a)" "hash_widths B"
  shows "arr ADDR_LEN a"
proof -
  obtain stored where "disk_put B S (d :: disk) stored = (d', Ok a)"
    using assms(1) by (auto simp: bucket_store.store_eq put_sealed_def result_elims split: sealer.splits sum.splits prod.splits)
  then show ?thesis using disk_put_extends(2) addr_of_width [OF assms(2)] by blast
qed

lemma trim_newline: "graphic (last s) \<Longrightarrow> s \<noteq> [] \<Longrightarrow> graphic (hd s) \<Longrightarrow> trim (s @ [10]) = s"
proof -
  assume s: "graphic (last s)" "s \<noteq> []" "graphic (hd s)"
  have "trim_start (s @ [10]) = s @ [10]" using s(2,3) by (cases s) auto
  moreover have "trim_end (s @ [10]) = trim_end s"
    by (simp add: trim_end_def) (subst trim_by.simps, simp add: white_len_rev_def white1_def)
  moreover have "trim_end s = s" using s(1,2) by (metis append_butlast_last_id trim_end_graphic)
  ultimately show ?thesis by (simp add: trim_def)
qed

lemma hex_line: "arr ADDR_LEN a \<Longrightarrow> trim (to_hex a @ [10]) = to_hex a \<and> from_utf8_ok (to_hex a @ [10])"
proof -
  assume "arr ADDR_LEN a"
  then have "a \<noteq> []" by (auto simp: ADDR_LEN_def)
  then have w: "to_hex a \<noteq> []" "\<forall>b \<in> set (to_hex a). graphic b" using word_hex by (auto simp: word_text_def list_all_iff)
  moreover have "from_utf8_ok (to_hex a @ [10])"
    using w(2) by (intro utf8_ascii) (auto simp: graphic_def word_less_nat_alt word_le_nat_alt)
  ultimately show ?thesis by (auto intro!: trim_newline)
qed

text \<open>
  A published bucket is what the head names from then on. A failed publication leaves the head as it was,
  unless it was the writing of \<open>state/HEAD\<close>, which is done in place, that failed.
\<close>

lemma saved_is_published:
  assumes "save_published B A rio S r b (nd, d) = ((nd', d'), Ok a)" "wf_bucket b" "disk_ok B d" "separates B d'" "sound_aead A" "hash_widths B"
  shows "published B A r nd' d' = Some b"
proof -
  have st: "BucketStore_store B A S (Repo_sealer r) (Repo_dir_root B r) b d = (d', Ok a)" "nd_head nd' = Some (to_hex a @ [10])"
    using assms(1) by (auto simp: save_published_def set_head_def write_file_def split: prod.splits sum.splits option.splits)
  have "BucketStore_load B A calm_io (Repo_sealer r) (dk_store d') (Repo_dir_root B r) a = Ok b"
    using bucket_store.store_then_load [OF assms(2) st(1) assms(3) extends_refl assms(4,5)] by simp
  moreover have "Repo_head calm_repo_io nd' = Some (to_hex a)"
    using st(2) hex_line [OF stored_bucket [OF st(1) assms(6)]] by (simp add: Repo_head_def read_text_def read_file_def)
  moreover have "from_hex (to_hex a) = Ok a" using stored_bucket [OF st(1) assms(6)] hex.dec_iff [of "to_hex a" a] by simp
  ultimately show ?thesis by (simp add: published_def load_published_head_def)
qed

lemma save_failure_keeps:
  assumes "save_published B A rio S r b (nd, d) = ((nd', d'), Err e)" "ri_write rio ''state/HEAD'' = None"
  shows "nd_head nd' = nd_head nd"
  using assms by (auto simp: save_published_def set_head_def write_file_def split: prod.splits sum.splits option.splits)

lemma saved_wrote_head: "save_published B A rio S r b (nd, d) = ((nd', d'), Ok a) \<Longrightarrow> ri_write rio ''state/HEAD'' = None"
  by (auto simp: save_published_def set_head_def write_file_def split: prod.splits sum.splits option.splits)

lemma save_extends: "save_published B A rio S r b (nd, d) = ((nd', d'), res) \<Longrightarrow> extends B d d'"
  by (auto simp: save_published_def split: prod.splits sum.splits dest: bucket_store.store_extends)

lemma published_same_head: "nd_head nd' = nd_head nd \<Longrightarrow> published B A r nd' d = published B A r nd d"
  by (simp add: published_def load_published_head_def Repo_head_def)

lemma open_blobs_again: "extends B (open_blobs r d) d' \<Longrightarrow> open_blobs r d' = d'"
  by (simp add: open_blobs_def extends_def BlobStore_open_with_def)

lemma shown_after_clear:
  assumes "published B A r nd d = Some (Outbox_fold base (staged bx))" "wf_bucket base" "set bx' \<subseteq> set bx"
  shows "ns_view B A r nd d bx' = Some (Outbox_fold base (staged bx))"
  using assms(1) fold_again [OF assms(2) _ staged_subset [OF assms(3)]] staged_wf by (auto simp: ns_view_def)

lemma Outbox_clear_subset: "Outbox_clear io bx = (bx', res) \<Longrightarrow> set bx' \<subseteq> set bx"
  by (auto simp: Outbox_clear_def split: dir_answer.splits dest!: clear_loop_subset)

text \<open>The cases of a replay: nothing happened, publishing failed, or publishing worked and clearing did what it did.\<close>

lemma replay_cases:
  assumes "replay_into_head B A rio S io blobs_io bio r s = (s', res)"
  obtains (idle) "s' = s" "\<And>n. res = Ok n \<Longrightarrow> n = 0 \<and> Outbox_load bio (sg_box s) = Ok []"
  | (unsaved) base ds e nd d where "load_published_head B A rio io r (sg_dir s) (open_blobs r (sg_disk s)) = Ok base"
      "save_published B A rio S r (Outbox_fold base ds) (sg_dir s, open_blobs r (sg_disk s)) = ((nd, d), Err e)"
      "s' = s\<lparr>sg_dir := nd, sg_disk := d\<rparr>" "res = Err e"
  | (saved) base ds a nd d bx cleared where "load_published_head B A rio io r (sg_dir s) (open_blobs r (sg_disk s)) = Ok base"
      "Outbox_load bio (sg_box s) = Ok ds"
      "save_published B A rio S r (Outbox_fold base ds) (sg_dir s, open_blobs r (sg_disk s)) = ((nd, d), Ok a)"
      "Outbox_clear bio (sg_box s) = (bx, cleared)" "s' = \<lparr>sg_dir = nd, sg_disk = d, sg_box = bx\<rparr>"
      "res = rbind (map_err LoadBox cleared) (\<lambda>_. Ok (length ds))"
proof (cases "rbind (map_err LoadBox (Outbox_open bio)) (\<lambda>_. map_err LoadBox (Outbox_load bio (sg_box s)))")
  case (Inl e)
  then have "s' = s" "res = Err e" using assms by (simp_all add: replay_into_head_def)
  then show ?thesis by (intro idle) simp_all
next
  case (Inr ds)
  then have ds: "Outbox_load bio (sg_box s) = Ok ds" by (auto simp: rbind_Inr_iff map_err_Inr_iff)
  show ?thesis
  proof (cases "ds = [] \<or> blobs_io \<noteq> None")
    case True
    then have "s' = s \<and> (\<forall>n. res = Ok n \<longrightarrow> n = 0 \<and> ds = [])"
      using assms Inr by (auto simp: replay_into_head_def split: if_splits)
    then show ?thesis using ds by (intro idle) auto
  next
    case False
    then obtain base where base: "load_published_head B A rio io r (sg_dir s) (open_blobs r (sg_disk s)) = Ok base
        \<or> s' = s \<and> (\<forall>n. res \<noteq> Ok n)"
      using assms Inr by (cases "load_published_head B A rio io r (sg_dir s) (open_blobs r (sg_disk s))") (auto simp: replay_into_head_def)
    obtain nd d sv where sv: "save_published B A rio S r (Outbox_fold base ds) (sg_dir s, open_blobs r (sg_disk s)) = ((nd, d), sv)"
      by (metis prod.exhaust)
    obtain bx cleared where cl: "Outbox_clear bio (sg_box s) = (bx, cleared)" by fastforce
    show ?thesis
    proof (cases "s' = s \<and> (\<forall>n. res \<noteq> Ok n)")
      case True
      then show ?thesis by (intro idle) auto
    next
      case no: False
      then have head: "load_published_head B A rio io r (sg_dir s) (open_blobs r (sg_disk s)) = Ok base" using base by blast
      then show ?thesis
        using assms Inr False sv cl ds unsaved [OF head] saved [OF head ds]
        by (cases sv; cases cleared) (auto simp: replay_into_head_def)
    qed
  qed
qed

text \<open>
  C25. Replaying the outbox changes nothing a reader sees. When \<open>state/HEAD\<close> can be read and \<open>load\<close>'s listing
  of the outbox is complete, then whatever else fails on the way (a store write, making the
  directory, listing or removing the files afterwards, at any of them) the working view afterwards is
  the one before: no staged write is lost and none takes effect differently a second time. The one
  exception is a failed write of \<open>state/HEAD\<close> itself, which is done in place and may leave it in any state:
  the replay then answers an error, the outbox is untouched, and putting the old HEAD back shows what
  was shown before. When the replay reports success, every staged delta was published, and the
  outbox is empty if \<open>clear\<close>'s own listing was complete. The store is assumed to keep the bytes it was given
  apart by their addresses.
\<close>

theorem replay_keeps_what_is_shown:
  assumes "replay_into_head B A rio S io blobs_io bio r s = (s', res)"
    and "ns_view B A r (sg_dir s) (open_blobs r (sg_disk s)) (sg_box s) = Some W"
    and "disk_ok B (open_blobs r (sg_disk s))" "separates B (open_blobs r (sg_disk s'))" "sound_aead A" "hash_widths B"
    and "ri_read rio ''state/HEAD'' = None" "lists_all (bx_list bio) (sg_box s)" "btm_inv (sg_box s)"
  shows "if is_err res \<and> ri_write rio ''state/HEAD'' \<noteq> None
    then sg_box s' = sg_box s \<and> ns_view B A r (sg_dir s) (open_blobs r (sg_disk s')) (sg_box s') = Some W
    else ns_view B A r (sg_dir s') (open_blobs r (sg_disk s')) (sg_box s') = Some W \<and>
      (\<forall>n. res = Ok n \<longrightarrow> n = length (staged (sg_box s)) \<and>
        (lists_all (bx_clear_list bio) (sg_box s) \<and> fst ` set (sg_box s) \<subseteq> set (bx_order bio (map fst (sg_box s)))
          \<longrightarrow> staged (sg_box s') = []))"
  using assms(1)
proof (cases rule: replay_cases)
  case idle
  then show ?thesis using assms(2) load_is_staged [of bio "sg_box s" "[]", OF _ assms(8)] by auto
next
  case (unsaved base ds e nd d)
  have ext: "extends B (open_blobs r (sg_disk s)) d" using save_extends [OF unsaved(2)] .
  then have d: "open_blobs r (sg_disk s') = d" using open_blobs_again unsaved(3) by simp
  have le: "reads_le B (dk_store (open_blobs r (sg_disk s))) (dk_store d)" using extends_reads_le [OF assms(3) ext] assms(4) d by simp
  obtain b where b: "published B A r (sg_dir s) (open_blobs r (sg_disk s)) = Some b" using assms(2) by (auto simp: ns_view_def)
  have old: "published B A r (sg_dir s) d = Some b" using published_le [OF b le] .
  moreover have "published B A r nd d = Some b" if "ri_write rio ''state/HEAD'' = None"
    using published_same_head [OF save_failure_keeps [OF unsaved(2) that]] old by simp
  ultimately show ?thesis using assms(2) d unsaved(3,4) b by (cases "ri_write rio ''state/HEAD''") (simp_all add: ns_view_def)
next
  case (saved base ds a nd d bx cleared)
  have ext: "extends B (open_blobs r (sg_disk s)) d" using save_extends [OF saved(3)] .
  then have d: "open_blobs r (sg_disk s') = d" using open_blobs_again saved(5) by simp
  have ds: "ds = staged (sg_box s)" using load_is_staged [OF saved(2) assms(8)] .
  have base: "published B A r (sg_dir s) (open_blobs r (sg_disk s)) = Some base"
    using published_head [OF saved(1) assms(7) reads_le_refl] .
  then have W: "W = Outbox_fold base ds" using assms(2) ds by (simp add: ns_view_def)
  have wf: "wf_bucket base" "wf_bucket W" using published_wf [OF base] shown_wf [OF assms(2)] by auto
  have "published B A r nd d = Some W" using saved_is_published [OF saved(3) _ assms(3) _ assms(5,6)] wf(2) assms(4) d W by simp
  then have "ns_view B A r nd d bx = Some W"
    using shown_after_clear [OF _ wf(1) Outbox_clear_subset [OF saved(4)]] W ds by simp
  moreover have "ri_write rio ''state/HEAD'' = None" using saved(3) by (rule saved_wrote_head)
  moreover have "n = length (staged (sg_box s)) \<and> (lists_all (bx_clear_list bio) (sg_box s) \<and>
      fst ` set (sg_box s) \<subseteq> set (bx_order bio (map fst (sg_box s))) \<longrightarrow> staged bx = [])" if "res = Ok n" for n
    using that saved(4,6) cleared_box [of bio "sg_box s" bx] assms(9) ds by (auto simp: rbind_Inr_iff map_err_Inr_iff)
  ultimately show ?thesis using saved(5) d by simp
qed

text \<open>
  An entry \<open>load\<close> did not see takes no part in the replay, and \<open>clear\<close>, which lists the directory again,
  deletes it all the same: between the two listings a staged write can be lost.
\<close>

lemma filter_remove: "\<not> P k \<Longrightarrow> filter (\<lambda>e. P (fst e)) (btm_remove k m) = filter (\<lambda>e. P (fst e)) m"
  by (induction m rule: btm_remove.induct [of _ k]) auto

lemma skipped_entry_is_lost:
  assumes "bx_list io = Listed sees" "\<not> sees n" "is_nasb n"
    and "Outbox_clear io bx = (bx', Ok ())" "bx_clear_list io = Listed (\<lambda>_. True)" "n \<in> set (bx_order io (map fst bx))" "btm_inv bx"
  shows "Outbox_load io bx = Outbox_load io (btm_remove n bx) \<and> btm_get bx' n = None"
proof -
  have "n \<notin> fst ` set bx'" using clear_loop_clears [of io _ bx bx' n] assms(3-7) by (auto simp: Outbox_clear_def)
  then have "btm_get bx' n = None" by (simp add: map_of_eq_None_iff)
  moreover have "Outbox_load io bx = Outbox_load io (btm_remove n bx)"
    using filter_remove [of "\<lambda>n. sees n \<and> is_nasb n" n bx] assms(1,2) by (simp add: Outbox_load_def)
  ultimately show ?thesis by blast
qed

text \<open>A HEAD that is there and cannot be read counts as no HEAD: a replay then starts from an empty bucket.\<close>

lemma unreadable_head_is_no_head:
  "ri_read rio ''state/HEAD'' \<noteq> None \<Longrightarrow> load_published_head B A rio io r nd d = Ok []"
  by (auto simp: load_published_head_def Repo_head_def read_text_def read_file_def split: option.splits)

text \<open>An outbox that cannot be listed gives its next entry the first name, over the entry that has it.\<close>

lemma unlistable_outbox_restarts: "\<forall>sees. bx_seq_list io \<noteq> Listed sees \<Longrightarrow> next_seq io bx = 1"
  by (cases "bx_seq_list io") (simp_all add: next_seq_def saturating_add_def)

section \<open>Instances\<close>

definition toy_box_io :: box_io where
  "toy_box_io = \<lparr>bx_mkdir = None, bx_list = Listed (\<lambda>_. True), bx_seq_list = Listed (\<lambda>_. True), bx_clear_list = Listed (\<lambda>_. True), bx_read = (\<lambda>_. None), bx_write = None,
     bx_order = (\<lambda>ns. ns), bx_remove = (\<lambda>_. None)\<rparr>"

definition toy_delta :: bucket where
  "toy_delta = [([97], \<lparr>ko_lamport = 1, ko_writer_id = replicate WRITER_LEN 0, ko_object = None\<rparr>)]"

definition toy_delta_bytes :: bytes where
  "toy_delta_bytes = expect_ok (Bucket_encode toy_delta)"

definition toy_staging :: staging where
  "toy_staging = \<lparr>sg_dir = toy_dir, sg_disk = toy_disk, sg_box = [(entry_name 1, toy_delta_bytes)]\<rparr>"

lemma toy_delta_wf: "wf_bucket toy_delta"
  by (simp add: wf_bucket_def toy_delta_def wf_key_object_def key_is_safe_def)

lemma toy_delta_encodes: "Bucket_encode toy_delta = Ok toy_delta_bytes"
proof -
  have "\<exists>bs. Bucket_encode toy_delta = Ok bs"
    by (simp add: Bucket_encode_def toy_delta_def lay_entries_simps bucket_entry_fields_def safe_key_def KeyObject_deleted_def
        encode_fields_ok BUCKET_MAGIC_def byte_str_def MAX_FIELD_def WRITER_LEN_def)
  then show ?thesis by (auto simp: toy_delta_bytes_def expect_ok_def)
qed

lemma toy_delta_decodes: "Bucket_decode toy_delta_bytes = Ok toy_delta"
  using toy_delta_wf toy_delta_encodes by (simp add: bucket.dec_iff wf_bucket_def)

lemma toy_loads: "Outbox_load toy_box_io (sg_box toy_staging) = Ok [toy_delta]"
  by (simp add: Outbox_load_def toy_staging_def toy_box_io_def load_entry_def toy_delta_decodes entry_name_is_nasb)

lemma toy_no_head: "load_published_head toy_backend toy_aead rio io r toy_dir d = Ok []"
  by (auto simp: load_published_head_def Repo_head_def read_text_def read_file_def toy_dir_def split: option.split)

lemma toy_folds: "Outbox_fold [] [toy_delta] = toy_delta"
  by (simp add: Outbox_fold_def Bucket_merge_def merge_entry_def toy_delta_def)

lemma toy_shown: "ns_view toy_backend toy_aead toy_repo toy_dir d (sg_box toy_staging) = Some toy_delta"
  using load_is_staged [OF toy_loads] toy_folds by (simp add: ns_view_def published_def toy_no_head toy_box_io_def lists_all_def list_all_iff)

lemma toy_open_blobs: "open_blobs toy_repo toy_disk = toy_disk"
  by (simp add: open_blobs_def toy_disk_def toy_store_def toy_repo_def Repo_addressing_def BlobStore_open_with_def)

lemma toy_replay: "\<exists>bs nd. replay_into_head toy_backend toy_aead toy_repo_io toy_os toy_io None toy_box_io toy_repo toy_staging =
    (\<lparr>sg_dir = nd, sg_disk = toy_disk_of bs, sg_box = []\<rparr>, Ok 1)"
proof -
  obtain sealed where "seal toy_aead [] (manifest_key toy_backend (Repo_dir_root toy_backend toy_repo)) toy_delta_bytes BUCKET_AAD = Ok sealed"
    by (simp add: seal_def toy_aead_def manifest_key_def)
  moreover have "Repo_sealer toy_repo = SealConvergent (replicate 32 2)" "os_nonce toy_os t = []" for t
    by (simp_all add: Repo_sealer_def toy_repo_def toy_os_def)
  ultimately have "BucketStore_store toy_backend toy_aead toy_os (Repo_sealer toy_repo) (Repo_dir_root toy_backend toy_repo) toy_delta toy_disk =
      (toy_disk_of sealed, Ok (toy_hash sealed))"
    by (simp add: BucketStore_store_def toy_delta_encodes put_sealed_def toy_disk_put)
  moreover have "Outbox_clear toy_box_io (sg_box toy_staging) = ([], Ok ())"
    by (simp add: Outbox_clear_def toy_staging_def toy_box_io_def entry_name_is_nasb)
  moreover have "sg_dir toy_staging = toy_dir" "sg_disk toy_staging = toy_disk" "Outbox_open toy_box_io = Ok ()"
    by (simp_all add: toy_staging_def Outbox_open_def toy_box_io_def)
  ultimately show ?thesis
    using toy_loads
    by (intro exI [of _ sealed]) (simp add: replay_into_head_def toy_no_head toy_folds toy_open_blobs save_published_def set_head_def write_file_def)
qed

theorem replay_keeps_what_is_shown_witness:
  "\<exists>s'. replay_into_head toy_backend toy_aead toy_repo_io toy_os toy_io None toy_box_io toy_repo toy_staging = (s', Ok 1) \<and>
    ns_view toy_backend toy_aead toy_repo (sg_dir s') (open_blobs toy_repo (sg_disk s')) (sg_box s') = Some toy_delta \<and>
    staged (sg_box s') = []"
proof -
  obtain bs nd where rep: "replay_into_head toy_backend toy_aead toy_repo_io toy_os toy_io None toy_box_io toy_repo toy_staging =
      (\<lparr>sg_dir = nd, sg_disk = toy_disk_of bs, sg_box = []\<rparr>, Ok 1)"
    using toy_replay by blast
  have st: "sg_dir toy_staging = toy_dir" "sg_disk toy_staging = toy_disk" by (simp_all add: toy_staging_def)
  have "open_blobs toy_repo (toy_disk_of bs) = toy_disk_of bs"
    by (simp add: open_blobs_def toy_disk_of_def toy_store_def toy_repo_def Repo_addressing_def BlobStore_open_with_def)
  then have sep: "separates toy_backend (open_blobs toy_repo (toy_disk_of bs))" using toy_disk_of_separates by simp
  show ?thesis
    using replay_keeps_what_is_shown [OF rep] toy_shown toy_open_blobs toy_disk_ok(1) sep toy_aead_sound toy_hash_widths
    unfolding st rep by (simp add: is_err_def lists_all_def list_all_iff toy_box_io_def) (simp add: toy_staging_def)
qed

theorem staged_write_is_the_write_witness:
  "\<exists>bx' W' name bs. enqueue_delta toy_box_io [98] (snd (toy_delta ! 0)) (sg_box toy_staging) = (bx', Ok ()) \<and>
    Bucket_put toy_delta [98] (snd (toy_delta ! 0)) = (W', Ok ()) \<and>
    ns_view toy_backend toy_aead toy_repo toy_dir toy_disk bx' = Some W' \<and>
    btm_get bx' = (btm_get (sg_box toy_staging))(name \<mapsto> bs)"
proof -
  let ?x = "snd (toy_delta ! 0)"
  have "best_seq (sg_box toy_staging) = 1"
    by (simp add: best_seq_def toy_staging_def seq_of_entry_name)
  then have "case enqueue_delta toy_box_io [98] ?x (sg_box toy_staging) of
      (bx', Inr _) \<Rightarrow> \<exists>W' name bs. Bucket_put toy_delta [98] ?x = (W', Ok ()) \<and> wf_bucket W' \<and>
        ns_view toy_backend toy_aead toy_repo toy_dir toy_disk bx' = Some W' \<and>
        btm_get (sg_box toy_staging) name = None \<and> btm_get bx' = (btm_get (sg_box toy_staging))(name \<mapsto> bs)
    | (bx', Inl _) \<Rightarrow> bx' = sg_box toy_staging \<or> bx_write toy_box_io \<noteq> None"
    by (intro staged_write_is_the_write [OF toy_shown])
      (simp_all add: toy_delta_def toy_staging_def toy_box_io_def lists_all_def next_lamport_def Bucket_get_def)
  moreover have "\<exists>bx'. enqueue_delta toy_box_io [98] ?x (sg_box toy_staging) = (bx', Ok ())"
    by (simp add: enqueue_delta_def Bucket_put_def safe_key_def toy_delta_def Outbox_open_def toy_box_io_def enqueue_def Let_def
        Bucket_encode_def lay_entries_simps bucket_entry_fields_def KeyObject_deleted_def
        encode_fields_ok BUCKET_MAGIC_def byte_str_def MAX_FIELD_def WRITER_LEN_def)
  ultimately show ?thesis by (auto simp del: fun_upd_apply) blast
qed

end
