(* ===== verification/Spec2Isabelle.thy ===== *)
theory Spec2Isabelle
  imports Slot_Client Server Peer_Gc Tree_Props Indexes Vault Store_Face Gateway_Creds Outbox
begin

text \<open>
  A model of the core of NAS-tools, an untrusted-peer backup and sync system written in Rust
  (\<open>src/crates\<close>), and the theorems that make it correct.

  \<^bold>\<open>The program.\<close> A client chunks files, pads and encrypts the chunks, and stores the ciphertexts on
  a peer it does not trust, addressed by their hash. Directories, buckets, git object maps and text
  documents are sealed indexes over those blobs. A namespace's current root is published as a chain
  of signed slot records; clients verify the chain from their pin, keep evidence of what they were
  shown, and raise an alarm with a publishable proof when the peer serves two histories. What a
  client still needs is protected by signed leases; the peer plans garbage collection from them, and
  deliberate deletion needs a quorum of an offline authority. Locally a namespace keeps its secrets
  in a sealed vault or behind a passphrase, stages writes made without a peer in an outbox, and an
  HTTP gateway shows its buckets through S3 and WebDAV. Every signed or stored record is framed by
  one canonical field encoding.

  \<^bold>\<open>Layout.\<close> One theory per component, in the order they build on each other:

  \<^item> \<open>Prelude\<close> has the machine integers, \<open>Result\<close> as a sum with \<open>Ok\<close> and \<open>Err\<close>, little-endian codecs,
    saturating arithmetic, \<open>chunks_exact\<close> and UTF-8. \<open>BTree\<close> has \<open>BTreeSet\<close> and \<open>BTreeMap\<close> as sorted
    lists, behind the locales \<open>ordered_set\<close> and \<open>ordered_map\<close>. \<open>Text\<close> and \<open>Text_Lines\<close> have the standard
    library's text routines: trimming, splitting, lossy decoding, decimal and hexadecimal numbers,
    lines and words, file names.
  \<^item> \<open>Encoding\<close> (\<open>nas-core/src/encoding.rs\<close>) has the field encoding and the locales every record codec
    is an instance of: \<open>codec\<close> (the decoder accepts exactly the encodings of well-formed values),
    \<open>field_codec\<close> (records of fields) and \<open>packed_table\<close> (fixed-width tables).
  \<^item> \<open>Core_Types\<close> (\<open>addr.rs\<close>, \<open>format.rs\<close>, \<open>clock.rs\<close>), \<open>Crypto_Sign\<close> (\<open>nas-crypto/src/sign.rs\<close>,
    \<open>context.rs\<close>) and \<open>Keys\<close> (\<open>keys.rs\<close>, \<open>random.rs\<close>): addresses, discriminants, the saturating clock,
    identities, domain-separated signatures, the key schedule, sealing.
  \<^item> \<open>Slot_Record\<close>, \<open>Hash_Chain\<close>, \<open>Slot_Chain\<close>, \<open>Witness\<close>, \<open>Slot_Client\<close>, \<open>Checkpoint\<close> (\<open>nas-slots\<close>): records,
    the locale \<open>hash_chain\<close> of chains that commit to their history, the chain walk with rosters and
    handoffs, witnesses and fork proofs, the client as a state machine, the ladder of checkpoints.
  \<^item> \<open>Padding\<close>, \<open>Chunker\<close>, \<open>Manifest\<close>, \<open>Blob_Store\<close>, \<open>Cache\<close>, \<open>Object\<close>, \<open>Dir_Manifest\<close>, \<open>Tree\<close> (\<open>nas-store\<close>):
    size classes, content-defined chunking of slices and streams, manifests, the blob store with its
    proofs of possession, the sealed chunk cache, writing and reading objects, directory trees. What
    they show together is in \<open>Object_Props\<close> and \<open>Tree_Props\<close>.
  \<^item> \<open>Keyed_Merge\<close>, \<open>Entry_Table\<close>, \<open>Sealed_Store\<close> are what the three replicated indexes share: merging
    (locale \<open>keyed_merge\<close>), the table decoder (\<open>entry_table\<close>, \<open>table_file\<close>) and sealed storage
    (\<open>sealed_format\<close>). \<open>Bucket\<close>, \<open>Git_Index\<close> and \<open>Doc_Log\<close> (\<open>bucket.rs\<close>, \<open>git.rs\<close>, \<open>doc.rs\<close>) are the indexes;
    \<open>Doc_Walk\<close>, \<open>Doc_Props\<close>, \<open>Doc_Text\<close> (locale \<open>fresh_op\<close>), \<open>Doc_Edit\<close>, \<open>Doc_Store\<close> and \<open>Indexes\<close> are about them.
  \<^item> \<open>Merkle\<close>, \<open>Lease\<close>, \<open>Sweep\<close> (\<open>nas-lease\<close>): the checkpoint root, signed lease histories and their
    replay, and the plan of a garbage collection. \<open>Delete\<close>, \<open>Quorum\<close> (\<open>nas-delete\<close>): the signed records
    of the deletion loop, and the decision.
  \<^item> \<open>Wire\<close> (locale \<open>tagged_codec\<close>), \<open>Session\<close>, \<open>Server\<close> (\<open>nas-transfer\<close>): every request and response with
    its size limits, framing, and the request loop. \<open>Acl\<close>, \<open>Peer_Disk\<close> (locales \<open>durable_table\<close> and
    \<open>durable_table1\<close>), \<open>Peer\<close>, \<open>Peer_Gc\<close> (\<open>nas-peer\<close>): access control, the peer's tables with their
    files, every operation of the peer and what a hostile peer does instead. \<open>Peer_Props\<close>, \<open>Peer_Run\<close>
    and \<open>Peer_Theorems\<close> are about runs of these operations with failing writes; reopening the directory a run
    left, temporary files included, is a theorem of its own.
  \<^item> \<open>Wrap\<close>, \<open>Vault\<close> (\<open>nas-vault\<close>): passphrase-derived keys and their wrap records, and the vault file.
  \<^item> \<open>Http1\<close>, \<open>Hmac_Codec\<close>, \<open>Sigv4\<close>, \<open>S3_Face\<close>, \<open>Dav_Face\<close>, \<open>Gateway\<close>, \<open>Gateway_Creds\<close> (\<open>nas-gateway\<close>): the
    HTTP parser, request signatures, the two faces over the trait \<open>Buckets\<close>, and the accept loop.
    \<open>Store_Face\<close> has the contract of that trait as the locales \<open>readable_store\<close> and \<open>object_store\<close>.
  \<^item> \<open>Repo\<close> (\<open>nas-cli/src/repo.rs\<close>, \<open>keychain.rs\<close>), \<open>Outbox\<close> (\<open>outbox.rs\<close>, the heads of \<open>objectcmd.rs\<close>):
    namespaces on disk, and offline writes.

  \<^bold>\<open>Conventions.\<close> A method \<open>Type::method\<close> is \<open>Type_method\<close>; a struct is a record whose fields carry a
  short prefix; an enum is a datatype; \<open>u8\<close> to \<open>u64\<close> are words of their width, \<open>usize\<close> is a natural
  number with the \<open>2^64\<close> bound written where the code checks it; an array \<open>[u8; N]\<close> is a byte list
  whose length the \<open>wf_\<close> predicates carry; a \<open>String\<close> is its UTF-8 bytes. A method on \<open>&mut self\<close>
  returns the new state. A decoder is split into the fields and the parse of the fields, as the
  source does. An \<open>expect\<close> on an encoder is \<open>expect_ok\<close>, and a lemma shows the encoder total where it
  is used. Rendering of errors is left out: an error carries the value its text is made of.

  \<^bold>\<open>Parameters.\<close> Code outside the repository is a parameter: the record \<open>backend\<close> (BLAKE3 in its plain,
  keyed and derive-key modes, and the signature scheme), \<open>aead\<close> (the cipher), \<open>argon2\<close>, and \<open>mac\<close>
  (SHA-256 and HMAC). What is assumed of them is stated where it is used: \<open>sound_keypair\<close> (a signature
  made by a key verifies under it), \<open>sound_aead\<close> (what was sealed opens), and the widths of their
  results. Nothing assumes that a hash is collision free: binding theorems conclude with the explicit
  pair of inputs that would have to collide, and storage theorems ask only that the byte strings put
  into this store have distinct addresses (\<open>separates\<close>). File systems, clocks, random sources and
  streams are records that say, call by call, what is read and which operation fails (\<open>io_env\<close>, \<open>os\<close>,
  \<open>cache_io\<close>, \<open>restore_io\<close>, \<open>repo_io\<close>, \<open>box_io\<close>), so that every theorem is about all failures at once.

  \<^bold>\<open>Loops.\<close> Loops over lists are structural recursion; the ancestry walk, the chunk scan, the Merkle
  levels and the HTTP reader are functions with a termination proof. The chunk iterators, the object
  writer and the document walk are \<open>partial_function (option)\<close> because the code can loop (on a cut of
  length zero, or an insert under the id of the root); their theorems say that they return. Restoring
  a directory follows links of hashes, so \<open>read_dir_to\<close> has fuel, and \<open>stored_tree_restores\<close> shows that
  for every stored tree there is an amount from which on more fuel does not change the result.

  \<^bold>\<open>What is shown.\<close> Every wire format: the decoder accepts exactly the encodings of well-formed
  values. Slots: what the chain walk accepts, that a head hash commits to its history, that a
  single writer changes only by a signed handoff, that a verifying fork proof refutes every single
  history; for the client, over every sequence of calls, the anchor floor, monotone pins, bounded
  and append-only evidence, exact acceptance conditions, alarms only with a proof, detection of
  every linked conflict, and no alarm on an honest history. Store: padding is a bijection onto
  minimal frames, chunking does not depend on read sizes (for a maximum below \<open>2^62\<close>, above which the
  window \<open>2 * max\<close> does not fit a \<open>usize\<close> or a \<open>Vec\<close>), objects and whole trees read back exactly,
  a read returns only what was written or a collision, and unchanged content costs nothing. Indexes:
  replicas converge (where no two versions of a key carry one stamp) and keep each other's edits, a
  document without an insert under the id of the root shows each character once, edits change the
  text where they are made. Leases: replay returns exactly the set the history describes, and
  the sweep deletes exactly what nothing protects. Deletion: the exact quorum condition. Peer: over
  every run with failing writes, served histories verify, retained blobs are kept, retention shrinks
  only after a quorum, and a refused record is not filed; reopening the directory such a run left
  restores every record, temporary files apart, which it reads too; and a session on the
  network acts only as its subject. Vault: generations are never lost, sealed vaults and wrapped namespaces reopen, and an
  unwrapped record is genuine. Gateway: fragmentation does not matter within the header cap, nothing is answered over TCP
  without credentials, and one signature covers one request. Namespaces: a created namespace opens
  with what it was created with, key rotation changes disk and memory together or neither,
  staging a write shows what making it would, and replaying the outbox changes nothing a reader sees
  (a failed in-place write of the head apart).

  \<^bold>\<open>Not modelled.\<close> The handshake of the secure channel (a crate outside the repository), sockets and
  threads, the terminal commands of \<open>nas-cli\<close> and their output, its attack and test harness, the git
  remote helper and the mirror, which drive external programs, and the rendering of errors.
\<close>

text \<open>
  C38. The signed binary records have one encoding each: a byte string decodes to a slot record, handoff,
  witness, checkpoint, lease delta or checkpoint, deletion request, approval or execution, or wrap
  record exactly when that record is well formed and encodes to it. These are the ten records the
  libraries sign; the patches and mirror publications \<open>nas-cli\<close> signs are texts without a decoder.
\<close>

theorem signed_records_are_canonical:
  "(SlotRecord_decode B bs = Ok sr \<longleftrightarrow> wf_SlotRecord B sr \<and> SlotRecord_encode sr = Ok bs) \<and>
   (SlotHandoff_decode B bs = Ok sh \<longleftrightarrow> wf_SlotHandoff B sh \<and> SlotHandoff_encode sh = Ok bs) \<and>
   (Witness_decode B bs = Ok w \<longleftrightarrow> wf_Witness B w \<and> Witness_encode w = Ok bs) \<and>
   (Checkpoint_decode B bs = Ok c \<longleftrightarrow> wf_Checkpoint B c \<and> Checkpoint_encode c = Ok bs) \<and>
   (LeaseDelta_decode B bs = Ok ld \<longleftrightarrow> wf_LeaseDelta B ld \<and> LeaseDelta_encode ld = Ok bs) \<and>
   (LeaseCheckpoint_decode B bs = Ok lc \<longleftrightarrow> wf_LeaseCheckpoint B lc \<and> LeaseCheckpoint_encode lc = Ok bs) \<and>
   (DeleteRequest_decode B bs = Ok dr \<longleftrightarrow> wf_DeleteRequest B dr \<and> DeleteRequest_encode dr = Ok bs) \<and>
   (DeleteApproval_decode B bs = Ok da \<longleftrightarrow> wf_DeleteApproval B da \<and> DeleteApproval_encode da = Ok bs) \<and>
   (DeleteExecution_decode B bs = Ok de \<longleftrightarrow> wf_DeleteExecution B de \<and> DeleteExecution_encode de = Ok bs) \<and>
   (WrapRecord_decode B bs = Ok wr \<longleftrightarrow> wf_WrapRecord B wr \<and> WrapRecord_encode wr = Ok bs)"
  by (intro conjI slot_record_decode_iff slot_handoff_decode_Inr_iff witness_decode_Inr_iff Checkpoint_decode_Inr_iff
      lease_records_decode_iff [THEN conjunct1] lease_records_decode_iff [THEN conjunct2]
      delete_records_decode_iff [THEN conjunct1] delete_records_decode_iff [THEN conjunct2, THEN conjunct1]
      delete_records_decode_iff [THEN conjunct2, THEN conjunct2] wrap_record_decode_iff)

end
